(* ===== verification/Prelude.thy ===== *)
theory Prelude
  imports Complex_Main "HOL-Library.Word"
begin

text \<open>
  Shared vocabulary of the development: the machine integers of the Rust sources, the checked
  and saturating arithmetic of \<^verbatim>\<open>core::num\<close>, little-endian byte conversion, \<^verbatim>\<open>Vec::resize\<close>,
  \<^verbatim>\<open>Iterator::position\<close> and the total of a quantity over a finite map. Nothing here models a
  file of the repository; it models what the repository uses of Rust's standard library.

  Plain \<^verbatim>\<open>+\<close>, \<^verbatim>\<open>-\<close> and \<^verbatim>\<open>*\<close> on machine integers are the word operations, which wrap: the
  release profile of the workspace leaves overflow checks off.
\<close>

named_theorems rust_arith \<open>rules that turn checked and saturating arithmetic into nat arithmetic\<close>

type_synonym u8 = "8 word"
type_synonym u16 = "16 word"
type_synonym u32 = "32 word"
type_synonym u64 = "64 word"

section \<open>Checked and saturating arithmetic\<close>

definition checked_add :: "'a::len word \<Rightarrow> 'a word \<Rightarrow> 'a word option" where
  "checked_add a b = (if unat a + unat b < 2 ^ LENGTH('a) then Some (a + b) else None)"

definition checked_sub :: "'a::len word \<Rightarrow> 'a word \<Rightarrow> 'a word option" where
  "checked_sub a b = (if b \<le> a then Some (a - b) else None)"

definition saturating_add :: "'a::len word \<Rightarrow> 'a word \<Rightarrow> 'a word" where
  "saturating_add a b = (if unat a + unat b < 2 ^ LENGTH('a) then a + b else - 1)"

definition saturating_sub :: "'a::len word \<Rightarrow> 'a word \<Rightarrow> 'a word" where
  "saturating_sub a b = (if b \<le> a then a - b else 0)"

definition saturating_mul :: "'a::len word \<Rightarrow> 'a word \<Rightarrow> 'a word" where
  "saturating_mul a b = (if unat a * unat b < 2 ^ LENGTH('a) then a * b else - 1)"

lemma unat_minus_one_max: "unat (- 1 :: 'a::len word) = 2 ^ LENGTH('a) - 1"
  by (simp add: unsigned_minus_1_eq_mask mask_eq_exp_minus_1)

lemma unat_add_no_overflow:
  "unat a + unat b < 2 ^ LENGTH('a) \<Longrightarrow> unat (a + b) = unat a + unat b"
  for a b :: "'a::len word"
  by (simp add: unat_word_ariths)

lemma unat_sub_no_underflow: "b \<le> a \<Longrightarrow> unat (a - b) = unat a - unat b"
  for a b :: "'a::len word"
  by (rule unat_sub)

lemma checked_add_Some_iff [rust_arith]:
  "checked_add a b = Some c \<longleftrightarrow> unat a + unat b < 2 ^ LENGTH('a) \<and> c = a + b"
  for a b c :: "'a::len word"
  by (auto simp: checked_add_def)

lemma checked_add_None_iff [rust_arith]:
  "checked_add a b = None \<longleftrightarrow> 2 ^ LENGTH('a) \<le> unat a + unat b"
  for a b :: "'a::len word"
  by (auto simp: checked_add_def)

lemma checked_sub_Some_iff [rust_arith]: "checked_sub a b = Some c \<longleftrightarrow> b \<le> a \<and> c = a - b"
  by (auto simp: checked_sub_def)

lemma checked_sub_None_iff [rust_arith]: "checked_sub a b = None \<longleftrightarrow> a < b"
  by (auto simp: checked_sub_def)

lemma checked_add_unat: "checked_add a b = Some c \<Longrightarrow> unat c = unat a + unat b"
  by (auto simp: checked_add_Some_iff unat_add_no_overflow)

lemma checked_sub_unat: "checked_sub a b = Some c \<Longrightarrow> unat c = unat a - unat b \<and> unat b \<le> unat a"
  by (auto simp: checked_sub_Some_iff unat_sub_no_underflow word_le_nat_alt)

lemma unat_saturating_add [rust_arith]:
  "unat (saturating_add a b) = min (unat a + unat b) (2 ^ LENGTH('a) - 1)"
  for a b :: "'a::len word"
  by (auto simp: saturating_add_def unat_add_no_overflow unat_minus_one_max)

lemma unat_saturating_sub [rust_arith]: "unat (saturating_sub a b) = unat a - unat b"
  by (auto simp: saturating_sub_def unat_sub_no_underflow word_le_nat_alt)

lemma unat_saturating_mul [rust_arith]:
  "unat (saturating_mul a b) = min (unat a * unat b) (2 ^ LENGTH('a) - 1)"
  for a b :: "'a::len word"
  by (auto simp: saturating_mul_def unat_word_ariths unat_minus_one_max)

section \<open>Bytes\<close>

text \<open>\<open>le_bytes n w\<close> is \<^verbatim>\<open>to_le_bytes\<close> of an \<open>n\<close>-byte integer, \<open>be_bytes\<close> the same reversed.\<close>

definition le_bytes :: "nat \<Rightarrow> 'a::len word \<Rightarrow> u8 list" where
  "le_bytes n w = map (\<lambda>i. ucast (drop_bit (8 * i) w)) [0..<n]"

fun of_le_bytes :: "u8 list \<Rightarrow> 'a::len word" where
  "of_le_bytes [] = 0"
| "of_le_bytes (b # bs) = or (ucast b) (push_bit 8 (of_le_bytes bs))"

lemma length_le_bytes [simp]: "length (le_bytes n w) = n"
  by (simp add: le_bytes_def)

lemma bit_of_le_bytes:
  "bit (of_le_bytes bs :: 'a::len word) n \<longleftrightarrow>
     n < LENGTH('a) \<and> n div 8 < length bs \<and> bit (bs ! (n div 8)) (n mod 8)"
proof (induction bs arbitrary: n)
  case Nil
  then show ?case by simp
next
  case (Cons b bs)
  show ?case
  proof (cases "n < 8")
    case True
    then show ?thesis
      by (auto simp: bit_or_iff bit_push_bit_iff bit_ucast_iff dest: bit_imp_le_length)
  next
    case False
    then have div: "n div 8 = Suc ((n - 8) div 8)" and mod: "(n - 8) mod 8 = n mod 8"
      by (simp_all add: le_div_geq le_mod_geq)
    have "\<not> bit b n"
      using False bit_imp_le_length [of b n] by auto
    then show ?thesis
      using False by (auto simp: bit_or_iff bit_push_bit_iff bit_ucast_iff Cons div mod)
  qed
qed

lemma of_le_bytes_le_bytes:
  assumes "LENGTH('a) \<le> 8 * n"
  shows "of_le_bytes (le_bytes n w) = (w :: 'a::len word)"
proof (rule bit_word_eqI)
  fix k
  assume k: "k < LENGTH('a)"
  then have "k div 8 < n" using assms by auto
  then show "bit (of_le_bytes (le_bytes n w) :: 'a word) k = bit w k"
    using k by (auto simp: bit_of_le_bytes le_bytes_def bit_ucast_iff bit_drop_bit_eq)
qed

text \<open>\<^verbatim>\<open>Vec::resize(n, v)\<close>: truncates, or pads with \<open>v\<close>.\<close>

definition resize :: "nat \<Rightarrow> 'a \<Rightarrow> 'a list \<Rightarrow> 'a list" where
  "resize n v xs = take n xs @ replicate (n - length xs) v"

lemma length_resize [simp]: "length (resize n v xs) = n"
  by (simp add: resize_def)

lemma resize_pads: "length xs \<le> n \<Longrightarrow> resize n v xs = xs @ replicate (n - length xs) v"
  by (simp add: resize_def)

section \<open>Lists\<close>

text \<open>\<^verbatim>\<open>Iterator::position\<close>: the index of the first element equal to \<open>x\<close>.\<close>

fun position :: "'a \<Rightarrow> 'a list \<Rightarrow> nat option" where
  "position x [] = None"
| "position x (y # ys) = (if y = x then Some 0 else map_option Suc (position x ys))"

lemma position_Some: "position x xs = Some i \<Longrightarrow> i < length xs \<and> xs ! i = x"
  by (induction xs arbitrary: i) (auto split: if_splits)

lemma position_None_iff [simp]: "position x xs = None \<longleftrightarrow> x \<notin> set xs"
  by (induction xs) auto

lemma position_append_left: "x \<in> set xs \<Longrightarrow> position x (xs @ ys) = position x xs"
  by (induction xs) auto

lemma position_nth: "distinct xs \<Longrightarrow> i < length xs \<Longrightarrow> position (xs ! i) xs = Some i"
proof (induction xs arbitrary: i)
  case (Cons x xs)
  then show ?case by (cases i) (auto simp: nth_eq_iff_index_eq)
qed simp

text \<open>Collecting into a \<^verbatim>\<open>Result\<close>: the first error wins.\<close>

fun traverse :: "('a \<Rightarrow> 'e + 'b) \<Rightarrow> 'a list \<Rightarrow> 'e + 'b list" where
  "traverse f [] = Inr []"
| "traverse f (x # xs) =
     (case f x of Inl e \<Rightarrow> Inl e
      | Inr y \<Rightarrow> (case traverse f xs of Inl e \<Rightarrow> Inl e | Inr ys \<Rightarrow> Inr (y # ys)))"

lemma traverse_Inr:
  "traverse f xs = Inr ys \<Longrightarrow> length ys = length xs \<and> (\<forall>i < length xs. f (xs ! i) = Inr (ys ! i))"
proof (induction xs arbitrary: ys)
  case (Cons x xs)
  then show ?case by (auto simp: nth_Cons split: sum.splits nat.splits)
qed simp

lemma traverse_total: "(\<And>x. x \<in> set xs \<Longrightarrow> f x = Inr (g x)) \<Longrightarrow> traverse f xs = Inr (map g xs)"
  by (induction xs) auto

text \<open>\<^verbatim>\<open>Iterator::filter_map\<close>.\<close>

fun filter_map :: "('a \<Rightarrow> 'b option) \<Rightarrow> 'a list \<Rightarrow> 'b list" where
  "filter_map f [] = []"
| "filter_map f (x # xs) = (case f x of None \<Rightarrow> filter_map f xs | Some y \<Rightarrow> y # filter_map f xs)"

lemma filter_map_total: "(\<And>x. x \<in> set xs \<Longrightarrow> f x = Some (g x)) \<Longrightarrow> filter_map f xs = map g xs"
  by (induction xs) auto

text \<open>\<^verbatim>\<open>slice::get\<close>.\<close>

definition get :: "'a list \<Rightarrow> nat \<Rightarrow> 'a option" where
  "get xs i = (if i < length xs then Some (xs ! i) else None)"

text \<open>A total after one element is replaced.\<close>

lemma sum_list_map_update:
  fixes f :: "'a \<Rightarrow> int"
  assumes "i < length xs"
  shows "sum_list (map f (xs[i := y])) = sum_list (map f xs) - f (xs ! i) + f y"
  using assms
proof (induction xs arbitrary: i)
  case (Cons x xs)
  then show ?case by (cases i) auto
qed simp

section \<open>Totals over finite maps\<close>

definition map_total :: "('v \<Rightarrow> nat) \<Rightarrow> ('k \<rightharpoonup> 'v) \<Rightarrow> nat" where
  "map_total f m = (\<Sum>k\<in>dom m. f (the (m k)))"

lemma map_total_empty [simp]: "map_total f Map.empty = 0"
  by (simp add: map_total_def)

lemma map_total_fresh:
  assumes "finite (dom m)" and "m k = None"
  shows "map_total f (m(k \<mapsto> v)) = f v + map_total f m"
proof -
  have "k \<notin> dom m" using assms(2) by auto
  then show ?thesis
    using assms(1) by (auto simp: map_total_def intro!: sum.cong)
qed

lemma map_total_remove:
  assumes "finite (dom m)" and "m k = Some v"
  shows "map_total f m = f v + map_total f (m(k := None))"
proof -
  have "map_total f m = f (the (m k)) + (\<Sum>j\<in>dom m - {k}. f (the (m j)))"
    unfolding map_total_def using assms by (intro sum.remove) auto
  also have "(\<Sum>j\<in>dom m - {k}. f (the (m j))) = map_total f (m(k := None))"
    unfolding map_total_def by (rule sum.cong) auto
  finally show ?thesis using assms(2) by simp
qed

lemma map_total_upd:
  assumes "finite (dom m)" and "m k = Some v"
  shows "map_total f (m(k \<mapsto> v')) + f v = map_total f m + f v'"
proof -
  have "map_total f (m(k \<mapsto> v')) = f v' + map_total f (m(k := None))"
    using map_total_fresh [of "m(k := None)" k f v'] assms(1) by simp
  then show ?thesis using map_total_remove [OF assms, of f] by simp
qed

end
