(* ===== verification/Program_Errors.thy ===== *)
theory Program_Errors
  imports Prelude
begin

text \<open>
  The error type of the program runtime, \<^verbatim>\<open>crates/dchat-programs/src/error.rs\<close>: the enum
  \<^verbatim>\<open>ProgramError\<close> with all its constructors, and the numeric codes it has in receipts and
  across the WASM boundary (\<^verbatim>\<open>to_code\<close>, \<^verbatim>\<open>from_code\<close>). The literal patterns of
  \<^verbatim>\<open>from_code\<close> are the association list \<open>code_table\<close>, looked up in the order of the source.
\<close>

datatype (plugins only: size) program_error =
    Custom u32
  | InvalidInstructionData
  | InvalidAccountData
  | AccountNotRentExempt
  | InsufficientFunds
  | AccountAlreadyInitialized
  | UninitializedAccount
  | IncorrectProgramId
  | MissingRequiredSignature
  | AccountAlreadyInUse
  | AccountNotWritable
  | AccountNotSigner
  | InvalidSeeds
  | InvalidAccountOwner
  | ArithmeticOverflow
  | ImmutableModification
  | ExecutableModification
  | AccountDataSizeChanged
  | AccountDataTooLarge
  | ComputeBudgetExceeded
  | MemoryLimitExceeded
  | StackOverflow
  | CallDepthExceeded
  | InvalidProgram
  | ProgramNotExecutable
  | BorrowsOverlap
  | MaxAccountsExceeded
  | MaxInstructionDataExceeded
  | AccountNotFound
  | ProgramAccountMismatch
  | InvalidAuthority
  | CapabilityExpired
  | CapabilityNotFound
  | CapabilityScopeMismatch
  | InvalidCapabilityTransfer
  | PrivacyCommitmentMismatch
  | DecryptionFailed
  | SelectiveDisclosureFailed
  | MintAuthorityMismatch
  | FreezeAuthorityMismatch
  | TokenAccountFrozen
  | AccountFrozen
  | InvalidMint
  | InvalidTokenAccount
  | MintDecimalsMismatch
  | MaxSupplyExceeded
  | SeedTooLong
  | NotEnoughAccountKeys
  | InvalidDecimals
  | UninitializedMint
  | InsufficientDelegatedFunds
  | MintMismatch
  | NonZeroBalance
  | InvalidMintAuthority
  | InvalidFreezeAuthority
  | TimelockNotExpired
  | ProgramFrozen
  | UpgradeAuthorityMismatch
  | InvalidBytecode string
  | SyscallError string
  | VmError string
  | ReentrancyDetected
  | AccountLocked
  | SchedulerConflict
  | RateLimited string
  | InvalidFee
  | FeeNotReserved
  | InternalError string
  | MemoryAccessViolation
  | InvalidArgument
  | ReturnDataTooLarge
  | ComputationalBudgetExceeded
  | HeapExhausted
  | SyscallNotFound
  | InvalidAccountDataSize
  | AccountDataNotEmpty
  | AccountNotInitialized
  | AccountNotExecutable
  | UnsupportedProgram
  | LogBufferFull
  | MemoryOverlap
  | CapabilityRevoked
  | CapabilityExhausted
  | CapabilityOutOfScope
  | CapabilityTransferLimitExceeded
  | DuplicateCapability
  | CapabilityUnauthorized
  | InvalidUpgradeAuthority
  | ProgramNotUpgradeable
  | UpgradeAlreadyPending
  | NoUpgradePending
  | UpgradeTimelockActive
  | BufferMismatch
  | ProgramHashMismatch
  | RangeProofInvalid
  | InvalidBalanceProof
  | InvalidNonce

type_synonym 'a program_result = "program_error + 'a"

text \<open>Equality of errors, with the plain equation instead of one per pair of constructors.\<close>

instantiation program_error :: equal
begin

definition equal_program_error :: "program_error \<Rightarrow> program_error \<Rightarrow> bool" where
  "equal_program_error e e' \<longleftrightarrow> e = e'"

instance by standard (simp add: equal_program_error_def)

end

primrec to_code :: "program_error \<Rightarrow> u32" where
  "to_code (Custom code) = code"
| "to_code InvalidInstructionData = 1"
| "to_code InvalidAccountData = 2"
| "to_code AccountNotRentExempt = 3"
| "to_code InsufficientFunds = 4"
| "to_code AccountAlreadyInitialized = 5"
| "to_code UninitializedAccount = 6"
| "to_code IncorrectProgramId = 7"
| "to_code MissingRequiredSignature = 8"
| "to_code AccountAlreadyInUse = 9"
| "to_code AccountNotWritable = 10"
| "to_code AccountNotSigner = 11"
| "to_code InvalidSeeds = 12"
| "to_code InvalidAccountOwner = 13"
| "to_code ArithmeticOverflow = 14"
| "to_code ImmutableModification = 15"
| "to_code ExecutableModification = 16"
| "to_code AccountDataSizeChanged = 17"
| "to_code AccountDataTooLarge = 18"
| "to_code ComputeBudgetExceeded = 19"
| "to_code MemoryLimitExceeded = 20"
| "to_code StackOverflow = 21"
| "to_code CallDepthExceeded = 22"
| "to_code InvalidProgram = 23"
| "to_code ProgramNotExecutable = 24"
| "to_code BorrowsOverlap = 25"
| "to_code MaxAccountsExceeded = 26"
| "to_code MaxInstructionDataExceeded = 27"
| "to_code AccountNotFound = 28"
| "to_code ProgramAccountMismatch = 29"
| "to_code InvalidAuthority = 30"
| "to_code CapabilityExpired = 31"
| "to_code CapabilityNotFound = 32"
| "to_code CapabilityScopeMismatch = 33"
| "to_code InvalidCapabilityTransfer = 34"
| "to_code PrivacyCommitmentMismatch = 35"
| "to_code DecryptionFailed = 36"
| "to_code SelectiveDisclosureFailed = 37"
| "to_code MintAuthorityMismatch = 38"
| "to_code FreezeAuthorityMismatch = 39"
| "to_code TokenAccountFrozen = 40"
| "to_code AccountFrozen = 57"
| "to_code InvalidMint = 41"
| "to_code InvalidTokenAccount = 42"
| "to_code MintDecimalsMismatch = 43"
| "to_code MaxSupplyExceeded = 44"
| "to_code SeedTooLong = 58"
| "to_code NotEnoughAccountKeys = 59"
| "to_code InvalidDecimals = 60"
| "to_code UninitializedMint = 61"
| "to_code InsufficientDelegatedFunds = 62"
| "to_code MintMismatch = 63"
| "to_code NonZeroBalance = 64"
| "to_code InvalidMintAuthority = 65"
| "to_code InvalidFreezeAuthority = 66"
| "to_code TimelockNotExpired = 45"
| "to_code ProgramFrozen = 46"
| "to_code UpgradeAuthorityMismatch = 47"
| "to_code (InvalidBytecode _) = 48"
| "to_code (SyscallError _) = 49"
| "to_code (VmError _) = 50"
| "to_code ReentrancyDetected = 51"
| "to_code AccountLocked = 52"
| "to_code SchedulerConflict = 53"
| "to_code (RateLimited _) = 54"
| "to_code InvalidFee = 55"
| "to_code FeeNotReserved = 56"
| "to_code (InternalError _) = - 1"
| "to_code MemoryAccessViolation = 67"
| "to_code InvalidArgument = 68"
| "to_code ReturnDataTooLarge = 69"
| "to_code ComputationalBudgetExceeded = 70"
| "to_code HeapExhausted = 71"
| "to_code SyscallNotFound = 72"
| "to_code InvalidAccountDataSize = 73"
| "to_code AccountDataNotEmpty = 74"
| "to_code AccountNotInitialized = 75"
| "to_code AccountNotExecutable = 76"
| "to_code UnsupportedProgram = 77"
| "to_code LogBufferFull = 78"
| "to_code MemoryOverlap = 79"
| "to_code CapabilityRevoked = 80"
| "to_code CapabilityExhausted = 81"
| "to_code CapabilityOutOfScope = 82"
| "to_code CapabilityTransferLimitExceeded = 83"
| "to_code DuplicateCapability = 84"
| "to_code CapabilityUnauthorized = 85"
| "to_code InvalidUpgradeAuthority = 86"
| "to_code ProgramNotUpgradeable = 87"
| "to_code UpgradeAlreadyPending = 88"
| "to_code NoUpgradePending = 89"
| "to_code UpgradeTimelockActive = 90"
| "to_code BufferMismatch = 91"
| "to_code ProgramHashMismatch = 92"
| "to_code RangeProofInvalid = 93"
| "to_code InvalidBalanceProof = 94"
| "to_code InvalidNonce = 95"

definition code_table :: "(u32 \<times> program_error) list" where
  "code_table = [
     (1, InvalidInstructionData),
     (2, InvalidAccountData),
     (3, AccountNotRentExempt),
     (4, InsufficientFunds),
     (5, AccountAlreadyInitialized),
     (6, UninitializedAccount),
     (7, IncorrectProgramId),
     (8, MissingRequiredSignature),
     (9, AccountAlreadyInUse),
     (10, AccountNotWritable),
     (11, AccountNotSigner),
     (12, InvalidSeeds),
     (13, InvalidAccountOwner),
     (14, ArithmeticOverflow),
     (15, ImmutableModification),
     (16, ExecutableModification),
     (17, AccountDataSizeChanged),
     (18, AccountDataTooLarge),
     (19, ComputeBudgetExceeded),
     (20, MemoryLimitExceeded),
     (21, StackOverflow),
     (22, CallDepthExceeded),
     (23, InvalidProgram),
     (24, ProgramNotExecutable),
     (25, BorrowsOverlap),
     (26, MaxAccountsExceeded),
     (27, MaxInstructionDataExceeded),
     (28, AccountNotFound),
     (29, ProgramAccountMismatch),
     (30, InvalidAuthority),
     (31, CapabilityExpired),
     (32, CapabilityNotFound),
     (33, CapabilityScopeMismatch),
     (34, InvalidCapabilityTransfer),
     (35, PrivacyCommitmentMismatch),
     (36, DecryptionFailed),
     (37, SelectiveDisclosureFailed),
     (38, MintAuthorityMismatch),
     (39, FreezeAuthorityMismatch),
     (40, TokenAccountFrozen),
     (41, InvalidMint),
     (42, InvalidTokenAccount),
     (43, MintDecimalsMismatch),
     (44, MaxSupplyExceeded),
     (45, TimelockNotExpired),
     (46, ProgramFrozen),
     (47, UpgradeAuthorityMismatch),
     (48, InvalidBytecode ''unknown''),
     (49, SyscallError ''unknown''),
     (50, VmError ''unknown''),
     (51, ReentrancyDetected),
     (52, AccountLocked),
     (53, SchedulerConflict),
     (54, RateLimited ''unknown''),
     (55, InvalidFee),
     (56, FeeNotReserved),
     (57, AccountFrozen),
     (58, SeedTooLong),
     (59, NotEnoughAccountKeys),
     (60, InvalidDecimals),
     (61, UninitializedMint),
     (62, InsufficientDelegatedFunds),
     (63, MintMismatch),
     (64, NonZeroBalance),
     (65, InvalidMintAuthority),
     (66, InvalidFreezeAuthority),
     (67, MemoryAccessViolation),
     (68, InvalidArgument),
     (69, ReturnDataTooLarge),
     (70, ComputationalBudgetExceeded),
     (71, HeapExhausted),
     (72, SyscallNotFound),
     (73, InvalidAccountDataSize),
     (74, AccountDataNotEmpty),
     (75, AccountNotInitialized),
     (76, AccountNotExecutable),
     (77, UnsupportedProgram),
     (78, LogBufferFull),
     (79, MemoryOverlap),
     (80, CapabilityRevoked),
     (81, CapabilityExhausted),
     (82, CapabilityOutOfScope),
     (83, CapabilityTransferLimitExceeded),
     (84, DuplicateCapability),
     (85, CapabilityUnauthorized),
     (86, InvalidUpgradeAuthority),
     (87, ProgramNotUpgradeable),
     (88, UpgradeAlreadyPending),
     (89, NoUpgradePending),
     (90, UpgradeTimelockActive),
     (91, BufferMismatch),
     (92, ProgramHashMismatch),
     (93, RangeProofInvalid),
     (94, InvalidBalanceProof),
     (95, InvalidNonce)]"

definition from_code :: "u32 \<Rightarrow> program_error" where
  "from_code code = (case map_of code_table code of Some e \<Rightarrow> e | None \<Rightarrow> Custom code)"

text \<open>
  The errors \<open>from_code\<close> can give back: a custom code that is not one of the built-in ones, and
  the text-carrying errors with the text the decoder puts there.
\<close>

definition decodable :: "program_error \<Rightarrow> bool" where
  "decodable e = (case e of
       Custom c \<Rightarrow> c \<notin> set (map fst code_table)
     | InternalError _ \<Rightarrow> False
     | InvalidBytecode s \<Rightarrow> ''unknown'' = s
     | SyscallError s \<Rightarrow> ''unknown'' = s
     | VmError s \<Rightarrow> ''unknown'' = s
     | RateLimited s \<Rightarrow> ''unknown'' = s
     | _ \<Rightarrow> True)"

lemma code_table_to_code: "(c, e) \<in> set code_table \<Longrightarrow> to_code e = c"
  by (auto simp: code_table_def)

text \<open>Decoding a code and encoding the error again gives the code back, for every 32-bit code.\<close>

theorem to_code_from_code: "to_code (from_code c) = c"
  by (auto simp: from_code_def split: option.split dest!: map_of_SomeD code_table_to_code)

text \<open>
  An error survives the trip through its code exactly when it is decodable: a program's own
  \<open>Custom\<close> code in the built-in range 1 to 95 comes back as the built-in error, and an
  \<open>InternalError\<close> as a custom one.
\<close>

theorem from_code_to_code: "from_code (to_code e) = e \<longleftrightarrow> decodable e"
  by (cases e) (simp_all add: from_code_def decodable_def code_table_def)

end
