(* ===== verification/Accounts.thy ===== *)
theory Accounts
  imports Program_Errors
begin

text \<open>
  \<^verbatim>\<open>crates/dchat-programs/src/account.rs\<close> and the native program ids of \<^verbatim>\<open>lib.rs\<close>: public keys,
  account data with its resize tracking, accounts, account metas, the interior-mutable account
  views programs receive, and the borrow tracker of nested calls.

  A public key (\<^verbatim>\<open>[u8; 32]\<close>) is the 256-bit word whose big-endian bytes it is. The
  \<^verbatim>\<open>Rc<RefCell<..>>\<close> cells of an \<^verbatim>\<open>AccountInfo\<close> are cells of an explicit store, so that two
  views of the same cell alias as they do in the program; dropping a \<^verbatim>\<open>RefMut\<close> guard is
  \<open>release_motes\<close>. The floating-point rent helpers of \<^verbatim>\<open>Account\<close> are not modelled.
\<close>

section \<open>Public keys\<close>

type_synonym pubkey = "256 word"

definition pubkey_zero :: pubkey where
  "pubkey_zero = 0"

definition pubkey_is_zero :: "pubkey \<Rightarrow> bool" where
  "pubkey_is_zero pk = (pk = 0)"

definition as_bytes :: "pubkey \<Rightarrow> u8 list" where
  "as_bytes pk = rev (le_bytes 32 pk)"

definition pubkey_from_slice :: "u8 list \<Rightarrow> pubkey program_result" where
  "pubkey_from_slice s =
     (if length s \<noteq> 32 then Inl InvalidAccountData else Inr (of_le_bytes (rev s)))"

text \<open>\<^verbatim>\<open>from_hex\<close> and \<^verbatim>\<open>from_base58\<close>; the text decoder is that of the \<^verbatim>\<open>hex\<close> or \<^verbatim>\<open>bs58\<close> crate.\<close>

definition pubkey_from_text :: "(string \<Rightarrow> u8 list option) \<Rightarrow> string \<Rightarrow> pubkey program_result" where
  "pubkey_from_text decode s =
     (case decode s of None \<Rightarrow> Inl InvalidAccountData | Some bytes \<Rightarrow> pubkey_from_slice bytes)"

lemma pubkey_slice_roundtrip: "pubkey_from_slice (as_bytes pk) = Inr pk"
  by (simp add: pubkey_from_slice_def as_bytes_def of_le_bytes_le_bytes)

definition SYSTEM_PROGRAM_ID :: pubkey where "SYSTEM_PROGRAM_ID = 1"
definition TOKEN_PROGRAM_ID :: pubkey where "TOKEN_PROGRAM_ID = 2"
definition LOADER_PROGRAM_ID :: pubkey where "LOADER_PROGRAM_ID = 3"
definition ATA_PROGRAM_ID :: pubkey where "ATA_PROGRAM_ID = 4"
definition CAPABILITY_PROGRAM_ID :: pubkey where "CAPABILITY_PROGRAM_ID = 5"
definition PRIVACY_PROGRAM_ID :: pubkey where "PRIVACY_PROGRAM_ID = 6"
definition CONF_TOKEN_PROGRAM_ID :: pubkey where "CONF_TOKEN_PROGRAM_ID = 7"
definition MARKETPLACE_PROGRAM_ID :: pubkey where "MARKETPLACE_PROGRAM_ID = 8"
definition BOT_REGISTRY_PROGRAM_ID :: pubkey where "BOT_REGISTRY_PROGRAM_ID = 9"
definition SYSVAR_RENT_ID :: pubkey where "SYSVAR_RENT_ID = 256"
definition SYSVAR_CLOCK_ID :: pubkey where "SYSVAR_CLOCK_ID = 257"
definition SYSVAR_RECENT_BLOCKHASHES_ID :: pubkey where "SYSVAR_RECENT_BLOCKHASHES_ID = 258"

lemmas native_ids =
  SYSTEM_PROGRAM_ID_def TOKEN_PROGRAM_ID_def LOADER_PROGRAM_ID_def ATA_PROGRAM_ID_def
  CAPABILITY_PROGRAM_ID_def PRIVACY_PROGRAM_ID_def CONF_TOKEN_PROGRAM_ID_def
  MARKETPLACE_PROGRAM_ID_def BOT_REGISTRY_PROGRAM_ID_def

definition MAX_ACCOUNT_SIZE :: nat where
  "MAX_ACCOUNT_SIZE = 10 * 1024 * 1024"

section \<open>Account data\<close>

record account_data =
  data_bytes :: "u8 list"
  original_len :: nat

definition data_new :: "u8 list \<Rightarrow> account_data" where
  "data_new bytes = \<lparr>data_bytes = bytes, original_len = length bytes\<rparr>"

definition data_with_size :: "nat \<Rightarrow> account_data" where
  "data_with_size n = \<lparr>data_bytes = replicate n 0, original_len = n\<rparr>"

definition data_len :: "account_data \<Rightarrow> nat" where
  "data_len d = length (data_bytes d)"

definition data_is_empty :: "account_data \<Rightarrow> bool" where
  "data_is_empty d = (data_bytes d = [])"

definition was_resized :: "account_data \<Rightarrow> bool" where
  "was_resized d = (length (data_bytes d) \<noteq> original_len d)"

definition commit_resize :: "account_data \<Rightarrow> account_data" where
  "commit_resize d = d\<lparr>original_len := length (data_bytes d)\<rparr>"

definition data_resize :: "nat \<Rightarrow> u8 \<Rightarrow> account_data \<Rightarrow> account_data" where
  "data_resize new_size value d = d\<lparr>data_bytes := resize new_size value (data_bytes d)\<rparr>"

definition set_from_bytes :: "u8 list \<Rightarrow> account_data \<Rightarrow> account_data" where
  "set_from_bytes bytes d = d\<lparr>data_bytes := bytes, original_len := length bytes\<rparr>"

definition data_clear :: "account_data \<Rightarrow> account_data" where
  "data_clear d = d\<lparr>data_bytes := [], original_len := 0\<rparr>"

lemmas data_defs = data_new_def data_with_size_def data_len_def data_is_empty_def was_resized_def
  commit_resize_def data_resize_def set_from_bytes_def data_clear_def

text \<open>Only \<^verbatim>\<open>resize\<close> leaves the length out of step with the recorded one, and committing repairs it.\<close>

lemma was_resized_after:
  "\<not> was_resized (data_new b)" "\<not> was_resized (data_with_size n)"
  "\<not> was_resized (set_from_bytes b d)" "\<not> was_resized (data_clear d)"
  "\<not> was_resized (commit_resize d)" "was_resized (data_resize n v d) \<longleftrightarrow> n \<noteq> original_len d"
  by (simp_all add: data_defs)

lemma data_bytes_set [simp]: "data_bytes (set_from_bytes b d) = b"
  by (simp add: set_from_bytes_def)

lemma data_bytes_clear [simp]: "data_bytes (data_clear d) = []"
  by (simp add: data_clear_def)

section \<open>Accounts and metas\<close>

datatype account_state = Uninitialized | Initialized | Frozen

record account =
  acc_key :: pubkey
  acc_motes :: u64
  acc_data :: account_data
  acc_owner :: pubkey
  acc_executable :: bool
  acc_rent_epoch :: u64
  acc_state :: account_state

definition account_new :: "pubkey \<Rightarrow> account" where
  "account_new k = \<lparr>acc_key = k, acc_motes = 0, acc_data = data_new [], acc_owner = pubkey_zero,
     acc_executable = False, acc_rent_epoch = 0, acc_state = Uninitialized\<rparr>"

definition account_new_with_data :: "pubkey \<Rightarrow> u64 \<Rightarrow> u8 list \<Rightarrow> pubkey \<Rightarrow> account" where
  "account_new_with_data k m bytes own = \<lparr>acc_key = k, acc_motes = m, acc_data = data_new bytes,
     acc_owner = own, acc_executable = False, acc_rent_epoch = 0, acc_state = Initialized\<rparr>"

definition account_new_program :: "pubkey \<Rightarrow> u8 list \<Rightarrow> pubkey \<Rightarrow> account" where
  "account_new_program k bytecode own = \<lparr>acc_key = k, acc_motes = 0, acc_data = data_new bytecode,
     acc_owner = own, acc_executable = True, acc_rent_epoch = 0, acc_state = Initialized\<rparr>"

record account_meta =
  meta_pubkey :: pubkey
  is_signer :: bool
  is_writable :: bool

definition meta_new :: "pubkey \<Rightarrow> bool \<Rightarrow> account_meta" where
  "meta_new pk s = \<lparr>meta_pubkey = pk, is_signer = s, is_writable = True\<rparr>"

definition meta_new_readonly :: "pubkey \<Rightarrow> bool \<Rightarrow> account_meta" where
  "meta_new_readonly pk s = \<lparr>meta_pubkey = pk, is_signer = s, is_writable = False\<rparr>"

definition meta_signer_writable :: "pubkey \<Rightarrow> account_meta" where
  "meta_signer_writable pk = \<lparr>meta_pubkey = pk, is_signer = True, is_writable = True\<rparr>"

definition meta_signer_readonly :: "pubkey \<Rightarrow> account_meta" where
  "meta_signer_readonly pk = \<lparr>meta_pubkey = pk, is_signer = True, is_writable = False\<rparr>"

definition meta_writable :: "pubkey \<Rightarrow> account_meta" where
  "meta_writable pk = \<lparr>meta_pubkey = pk, is_signer = False, is_writable = True\<rparr>"

definition meta_readonly :: "pubkey \<Rightarrow> account_meta" where
  "meta_readonly pk = \<lparr>meta_pubkey = pk, is_signer = False, is_writable = False\<rparr>"

section \<open>Account views with interior mutability\<close>

datatype borrow_flag = Unused | Reading nat | Writing

record mote_cell =
  cell_value :: u64
  cell_flag :: borrow_flag

type_synonym cell_store = "nat \<Rightarrow> mote_cell"

record account_info =
  info_key :: pubkey
  info_is_signer :: bool
  info_is_writable :: bool
  info_motes :: nat
  info_owner :: pubkey
  info_executable :: bool
  info_rent_epoch :: u64

definition try_borrow_motes :: "cell_store \<Rightarrow> account_info \<Rightarrow> u64 program_result" where
  "try_borrow_motes s info =
     (if cell_flag (s (info_motes info)) = Writing then Inl BorrowsOverlap
      else Inr (cell_value (s (info_motes info))))"

text \<open>A successful mutable borrow marks the cell; the marked store is what later code sees.\<close>

definition try_borrow_mut_motes :: "cell_store \<Rightarrow> account_info \<Rightarrow> cell_store program_result" where
  "try_borrow_mut_motes s info =
     (let c = info_motes info in
      if \<not> info_is_writable info then Inl AccountNotWritable
      else if cell_flag (s c) \<noteq> Unused then Inl BorrowsOverlap
      else Inr (s(c := (s c)\<lparr>cell_flag := Writing\<rparr>)))"

definition release_motes :: "account_info \<Rightarrow> cell_store \<Rightarrow> cell_store" where
  "release_motes info s = (let c = info_motes info in s(c := (s c)\<lparr>cell_flag := Unused\<rparr>))"

definition write_motes :: "account_info \<Rightarrow> u64 \<Rightarrow> cell_store \<Rightarrow> cell_store" where
  "write_motes info v s = (let c = info_motes info in s(c := (s c)\<lparr>cell_value := v\<rparr>))"

definition info_is_owned_by :: "account_info \<Rightarrow> pubkey \<Rightarrow> bool" where
  "info_is_owned_by info program_id = (info_owner info = program_id)"

text \<open>The credit can overflow after the debit was written: the early return leaves the debit in place.\<close>

definition transfer_motes ::
    "cell_store \<Rightarrow> account_info \<Rightarrow> account_info \<Rightarrow> u64 \<Rightarrow> unit program_result \<times> cell_store" where
  "transfer_motes s self to amount =
     (case try_borrow_mut_motes s self of
        Inl e \<Rightarrow> (Inl e, s)
      | Inr s1 \<Rightarrow>
         (case try_borrow_mut_motes s1 to of
            Inl e \<Rightarrow> (Inl e, release_motes self s1)
          | Inr s2 \<Rightarrow>
             (let from_motes = cell_value (s2 (info_motes self)) in
              if from_motes < amount
              then (Inl InsufficientFunds, release_motes self (release_motes to s2))
              else case checked_sub from_motes amount of
                None \<Rightarrow> (Inl ArithmeticOverflow, release_motes self (release_motes to s2))
              | Some f \<Rightarrow>
                 (let s3 = write_motes self f s2 in
                  case checked_add (cell_value (s3 (info_motes to))) amount of
                    None \<Rightarrow> (Inl ArithmeticOverflow, release_motes self (release_motes to s3))
                  | Some t \<Rightarrow> (Inr (), release_motes self (release_motes to (write_motes to t s3)))))))"

lemmas info_defs = try_borrow_mut_motes_def release_motes_def write_motes_def transfer_motes_def Let_def

lemma cell_flag_restore: "cell_flag c = Unused \<Longrightarrow> c\<lparr>cell_flag := Unused\<rparr> = c"
  by (cases c) simp

text \<open>A transfer that succeeds had two distinct, free, writable cells, and moved exactly the amount.\<close>

lemma transfer_motes_ok:
  assumes "transfer_motes s self to amount = (Inr (), s')"
  shows "info_motes self \<noteq> info_motes to"
    and "unat (cell_value (s' (info_motes self))) + unat amount = unat (cell_value (s (info_motes self)))"
    and "unat (cell_value (s' (info_motes to))) = unat (cell_value (s (info_motes to))) + unat amount"
    and "\<And>c. c \<noteq> info_motes self \<Longrightarrow> c \<noteq> info_motes to \<Longrightarrow> s' c = s c"
    and "\<And>c. cell_flag (s' c) = cell_flag (s c)"
  using assms
  by (auto simp: info_defs checked_sub_Some_iff checked_add_Some_iff unat_sub_no_underflow
      unat_add_no_overflow word_le_nat_alt not_less split: if_splits option.splits)

text \<open>
  \<^verbatim>\<open>AccountInfo::transfer_motes\<close>: on success the motes of the two cells add up to what they
  were, no other cell changes and every borrow is released; the two views cannot be the same cell,
  since a transfer to an alias of the source is refused.
\<close>

theorem transfer_motes_conserves:
  assumes "transfer_motes s self to amount = (Inr (), s')"
  shows "info_motes self \<noteq> info_motes to
    \<and> unat (cell_value (s' (info_motes self))) + unat (cell_value (s' (info_motes to)))
      = unat (cell_value (s (info_motes self))) + unat (cell_value (s (info_motes to)))
    \<and> (\<forall>c. c \<noteq> info_motes self \<longrightarrow> c \<noteq> info_motes to \<longrightarrow> s' c = s c)
    \<and> (\<forall>c. cell_flag (s' c) = cell_flag (s c))"
proof -
  note f = transfer_motes_ok [OF assms]
  have "unat (cell_value (s' (info_motes self))) + unat (cell_value (s' (info_motes to)))
      = unat (cell_value (s (info_motes self))) + unat (cell_value (s (info_motes to)))"
    using f(2,3) by linarith
  then show ?thesis using f(1,4,5) by blast
qed

definition example_info :: "nat \<Rightarrow> account_info" where
  "example_info c = \<lparr>info_key = 7, info_is_signer = True, info_is_writable = True, info_motes = c,
     info_owner = SYSTEM_PROGRAM_ID, info_executable = False, info_rent_epoch = 0\<rparr>"

definition example_cells :: cell_store where
  "example_cells c = \<lparr>cell_value = (if c = 0 then 100 else 5), cell_flag = Unused\<rparr>"

lemma example_transfer:
  "transfer_motes example_cells (example_info 0) (example_info 1) 30 =
     (Inr (), example_cells(0 := \<lparr>cell_value = 70, cell_flag = Unused\<rparr>,
                            1 := \<lparr>cell_value = 35, cell_flag = Unused\<rparr>))"
  by (rule prod_eqI)
     (auto simp: fun_eq_iff info_defs example_info_def example_cells_def checked_sub_def checked_add_def)

theorem transfer_motes_conserves_witness:
  "\<exists>s'. transfer_motes example_cells (example_info 0) (example_info 1) 30 = (Inr (), s')
    \<and> info_motes (example_info 0) \<noteq> info_motes (example_info 1)
    \<and> (\<forall>c. cell_flag (s' c) = cell_flag (example_cells c))"
  using transfer_motes_conserves [OF example_transfer] example_transfer by blast

text \<open>A refused transfer changes nothing, unless it was refused for the overflow of the credit.\<close>

lemma transfer_motes_error_unchanged:
  assumes "transfer_motes s self to amount = (Inl e, s')" and "e \<noteq> ArithmeticOverflow"
  shows "s' = s"
  using assms
  by (auto simp: info_defs fun_eq_iff cell_flag_restore split: if_splits option.splits)

section \<open>The borrow tracker\<close>

record borrow_state =
  immutable :: u32
  mutable :: u32

type_synonym tracker = "pubkey \<rightharpoonup> borrow_state"

definition borrow_default :: borrow_state where
  "borrow_default = \<lparr>immutable = 0, mutable = 0\<rparr>"

definition can_borrow_immutable :: "tracker \<Rightarrow> pubkey \<Rightarrow> bool" where
  "can_borrow_immutable t k = (case t k of Some st \<Rightarrow> mutable st = 0 | None \<Rightarrow> True)"

definition can_borrow_mutable :: "tracker \<Rightarrow> pubkey \<Rightarrow> bool" where
  "can_borrow_mutable t k =
     (case t k of Some st \<Rightarrow> mutable st = 0 \<and> immutable st = 0 | None \<Rightarrow> True)"

definition entry_or_default :: "tracker \<Rightarrow> pubkey \<Rightarrow> borrow_state" where
  "entry_or_default t k = (case t k of Some st \<Rightarrow> st | None \<Rightarrow> borrow_default)"

definition add_immutable_borrow :: "pubkey \<Rightarrow> tracker \<Rightarrow> unit program_result \<times> tracker" where
  "add_immutable_borrow k t =
     (if \<not> can_borrow_immutable t k then (Inl BorrowsOverlap, t)
      else let st = entry_or_default t k in (Inr (), t(k \<mapsto> st\<lparr>immutable := immutable st + 1\<rparr>)))"

definition add_mutable_borrow :: "pubkey \<Rightarrow> tracker \<Rightarrow> unit program_result \<times> tracker" where
  "add_mutable_borrow k t =
     (if \<not> can_borrow_mutable t k then (Inl BorrowsOverlap, t)
      else let st = entry_or_default t k in (Inr (), t(k \<mapsto> st\<lparr>mutable := mutable st + 1\<rparr>)))"

definition release_immutable_borrow :: "pubkey \<Rightarrow> tracker \<Rightarrow> tracker" where
  "release_immutable_borrow k t =
     (case t k of Some st \<Rightarrow> t(k \<mapsto> st\<lparr>immutable := saturating_sub (immutable st) 1\<rparr>) | None \<Rightarrow> t)"

definition release_mutable_borrow :: "pubkey \<Rightarrow> tracker \<Rightarrow> tracker" where
  "release_mutable_borrow k t =
     (case t k of Some st \<Rightarrow> t(k \<mapsto> st\<lparr>mutable := saturating_sub (mutable st) 1\<rparr>) | None \<Rightarrow> t)"

definition tracker_clear :: "tracker \<Rightarrow> tracker" where
  "tracker_clear t = Map.empty"

lemmas tracker_defs = can_borrow_immutable_def can_borrow_mutable_def entry_or_default_def
  borrow_default_def add_immutable_borrow_def add_mutable_borrow_def
  release_immutable_borrow_def release_mutable_borrow_def tracker_clear_def Let_def

text \<open>The calls a run of nested invocations makes on the tracker, in any order.\<close>

inductive tracker_step :: "tracker \<Rightarrow> tracker \<Rightarrow> bool" where
  add_immutable: "add_immutable_borrow k t = (r, t') \<Longrightarrow> tracker_step t t'"
| add_mutable: "add_mutable_borrow k t = (r, t') \<Longrightarrow> tracker_step t t'"
| release_immutable: "tracker_step t (release_immutable_borrow k t)"
| release_mutable: "tracker_step t (release_mutable_borrow k t)"
| clear: "tracker_step t (tracker_clear t)"

inductive tracker_reachable :: "tracker \<Rightarrow> bool" where
  new: "tracker_reachable Map.empty"
| step: "tracker_reachable t \<Longrightarrow> tracker_step t t' \<Longrightarrow> tracker_reachable t'"

definition exclusive :: "tracker \<Rightarrow> bool" where
  "exclusive t = (\<forall>k st. t k = Some st \<longrightarrow>
     mutable st \<le> 1 \<and> (mutable st = 1 \<longrightarrow> immutable st = 0))"

lemma saturating_sub_le_one: "(m :: u32) \<le> 1 \<Longrightarrow> saturating_sub m 1 = 0"
  by (simp add: unat_eq_zero [symmetric] unat_saturating_sub word_le_nat_alt)

lemma tracker_step_exclusive: "tracker_step t t' \<Longrightarrow> exclusive t \<Longrightarrow> exclusive t'"
proof (induction rule: tracker_step.induct)
  case (release_immutable t k)
  then show ?case
    by (auto simp: exclusive_def release_immutable_borrow_def saturating_sub_def split: option.splits)
next
  case (release_mutable t k)
  then show ?case
    by (auto simp: exclusive_def release_mutable_borrow_def saturating_sub_le_one split: option.splits)
qed (auto simp: exclusive_def tracker_defs split: option.splits if_splits)

text \<open>
  In every state the borrow tracker can reach, an account has at most one mutable borrow, and
  none of either kind beside it; this survives unmatched releases and the wrap-around of the
  counters.
\<close>

theorem tracker_exclusive: "tracker_reachable t \<Longrightarrow> exclusive t"
proof (induction rule: tracker_reachable.induct)
  case new
  show ?case by (simp add: exclusive_def)
next
  case (step t t')
  then show ?case by (blast intro: tracker_step_exclusive)
qed

lemma tracker_example: "tracker_reachable [7 \<mapsto> \<lparr>immutable = 0, mutable = 1\<rparr>]"
  by (rule tracker_reachable.step [OF tracker_reachable.new])
     (rule tracker_step.add_mutable [of 7], simp add: tracker_defs)

theorem tracker_exclusive_witness:
  "tracker_reachable [7 \<mapsto> \<lparr>immutable = 0, mutable = 1\<rparr>]
   \<and> exclusive [7 \<mapsto> \<lparr>immutable = 0, mutable = 1\<rparr>]"
  using tracker_exclusive [OF tracker_example] tracker_example by blast

text \<open>While a mutable borrow is held, every further borrow of the account is refused.\<close>

lemma held_mutable_refuses:
  assumes "t k = Some st" and "mutable st = 1"
  shows "add_mutable_borrow k t = (Inl BorrowsOverlap, t)"
    and "add_immutable_borrow k t = (Inl BorrowsOverlap, t)"
  using assms by (simp_all add: tracker_defs)

end
