(* ===== verification/Metering.thy ===== *)
theory Metering
  imports Accounts
begin

text \<open>
  \<^verbatim>\<open>crates/dchat-programs/src/metering.rs\<close>: cost tables, compute budgets, the compute meter, its
  snapshots, and fee reservations.

  The operations of the meter are first given as one caller sees them, on a record of the four
  atomics. \<^verbatim>\<open>consume\<close> is a compare-and-swap loop that several threads may run on the same meter;
  the last section gives the loop step by step for any number of threads and shows what holds in
  every interleaving. \<^verbatim>\<open>fetch_add\<close> and \<^verbatim>\<open>fetch_sub\<close> wrap, as atomics always do.
\<close>

section \<open>Costs and budgets\<close>

record compute_unit_costs =
  instruction_base :: u64
  instruction_data_byte :: u64
  instruction_account :: u64
  memory_op :: u64
  memory_alloc_byte :: u64
  branch :: u64
  call :: u64
  arithmetic :: u64
  comparison :: u64
  syscall_base :: u64

definition compute_unit_costs_default :: compute_unit_costs where
  "compute_unit_costs_default = \<lparr>instruction_base = 100, instruction_data_byte = 1,
     instruction_account = 50, memory_op = 1, memory_alloc_byte = 1, branch = 1, call = 10,
     arithmetic = 1, comparison = 1, syscall_base = 100\<rparr>"

record crypto_op_costs =
  sha256_base :: u64
  sha256_per_byte :: u64
  blake3_base :: u64
  blake3_per_byte :: u64
  ed25519_verify :: u64
  secp256k1_recover :: u64
  curve25519_mul :: u64
  poseidon_base :: u64
  poseidon_per_input :: u64
  keccak256_base :: u64
  keccak256_per_byte :: u64

definition crypto_op_costs_default :: crypto_op_costs where
  "crypto_op_costs_default = \<lparr>sha256_base = 100, sha256_per_byte = 1, blake3_base = 80,
     blake3_per_byte = 1, ed25519_verify = 2000, secp256k1_recover = 3000, curve25519_mul = 2500,
     poseidon_base = 500, poseidon_per_input = 100, keccak256_base = 100, keccak256_per_byte = 1\<rparr>"

record storage_costs_t =
  read_per_byte :: u64
  write_per_byte :: u64
  account_creation_base :: u64
  account_data_per_byte :: u64
  rent_per_byte_epoch :: u64
  rent_exemption_threshold :: real

definition storage_costs_default :: storage_costs_t where
  "storage_costs_default = \<lparr>read_per_byte = 1, write_per_byte = 10, account_creation_base = 1000000,
     account_data_per_byte = 10000, rent_per_byte_epoch = 1, rent_exemption_threshold = 2\<rparr>"

record memory_costs_t =
  max_heap_bytes :: u64
  max_stack_bytes :: u64
  heap_alloc_cost :: u64
  stack_push_cost :: u64

definition memory_costs_default :: memory_costs_t where
  "memory_costs_default = \<lparr>max_heap_bytes = 32 * 1024 * 1024, max_stack_bytes = 64 * 1024,
     heap_alloc_cost = 1, stack_push_cost = 1\<rparr>"

record compute_budget =
  max_units :: u64
  heap_size :: u64
  stack_size :: u64
  unit_costs :: compute_unit_costs
  crypto_costs :: crypto_op_costs
  storage_costs :: storage_costs_t
  memory_costs :: memory_costs_t

definition MAX_COMPUTE_UNITS :: u64 where "MAX_COMPUTE_UNITS = 1400000"
definition DEFAULT_COMPUTE_UNITS :: u64 where "DEFAULT_COMPUTE_UNITS = 200000"
definition MAX_STACK_DEPTH :: nat where "MAX_STACK_DEPTH = 64"

definition compute_budget_default :: compute_budget where
  "compute_budget_default = \<lparr>max_units = DEFAULT_COMPUTE_UNITS, heap_size = 32 * 1024,
     stack_size = 4 * 1024, unit_costs = compute_unit_costs_default,
     crypto_costs = crypto_op_costs_default, storage_costs = storage_costs_default,
     memory_costs = memory_costs_default\<rparr>"

definition compute_budget_new :: "u64 \<Rightarrow> compute_budget" where
  "compute_budget_new units = compute_budget_default\<lparr>max_units := units\<rparr>"

definition compute_budget_max :: compute_budget where
  "compute_budget_max = compute_budget_default\<lparr>max_units := MAX_COMPUTE_UNITS,
     heap_size := 256 * 1024, stack_size := 64 * 1024\<rparr>"

definition compute_fee :: "compute_budget \<Rightarrow> u64 \<Rightarrow> u64" where
  "compute_fee b motes_per_cu = saturating_mul (max_units b) motes_per_cu"

section \<open>The meter\<close>

record compute_meter =
  remaining :: u64
  consumed :: u64
  budget :: compute_budget
  heap_used :: u64
  stack_depth :: u64

definition meter_new :: "compute_budget \<Rightarrow> compute_meter" where
  "meter_new b = \<lparr>remaining = max_units b, consumed = 0, budget = b, heap_used = 0, stack_depth = 0\<rparr>"

type_synonym metered = "unit program_result \<times> compute_meter"

definition consume :: "u64 \<Rightarrow> compute_meter \<Rightarrow> metered" where
  "consume units m =
     (if remaining m < units then (Inl ComputeBudgetExceeded, m)
      else (Inr (), m\<lparr>remaining := remaining m - units, consumed := consumed m + units\<rparr>))"

definition consume_instruction :: "nat \<Rightarrow> nat \<Rightarrow> compute_meter \<Rightarrow> metered" where
  "consume_instruction dlen account_count m =
     consume (instruction_base (unit_costs (budget m))
       + of_nat dlen * instruction_data_byte (unit_costs (budget m))
       + of_nat account_count * instruction_account (unit_costs (budget m))) m"

definition consume_memory_op :: "compute_meter \<Rightarrow> metered" where
  "consume_memory_op m = consume (memory_op (unit_costs (budget m))) m"

definition consume_call :: "compute_meter \<Rightarrow> metered" where
  "consume_call m = consume (call (unit_costs (budget m))) m"

definition consume_syscall :: "compute_meter \<Rightarrow> metered" where
  "consume_syscall m = consume (syscall_base (unit_costs (budget m))) m"

definition consume_sha256 :: "nat \<Rightarrow> compute_meter \<Rightarrow> metered" where
  "consume_sha256 dlen m = consume (sha256_base (crypto_costs (budget m))
       + of_nat dlen * sha256_per_byte (crypto_costs (budget m))) m"

definition consume_blake3 :: "nat \<Rightarrow> compute_meter \<Rightarrow> metered" where
  "consume_blake3 dlen m = consume (blake3_base (crypto_costs (budget m))
       + of_nat dlen * blake3_per_byte (crypto_costs (budget m))) m"

definition consume_ed25519_verify :: "compute_meter \<Rightarrow> metered" where
  "consume_ed25519_verify m = consume (ed25519_verify (crypto_costs (budget m))) m"

text \<open>The heap counter is raised before the charge, and stays raised when the charge is refused.\<close>

definition allocate_heap :: "u64 \<Rightarrow> compute_meter \<Rightarrow> metered" where
  "allocate_heap bytes m =
     (let new_usage = saturating_add (heap_used m) bytes in
      if heap_size (budget m) < new_usage then (Inl MemoryLimitExceeded, m)
      else let m' = m\<lparr>heap_used := new_usage\<rparr> in
           consume (bytes * heap_alloc_cost (memory_costs (budget m'))) m')"

definition free_heap :: "u64 \<Rightarrow> compute_meter \<Rightarrow> compute_meter" where
  "free_heap bytes m = m\<lparr>heap_used := heap_used m - bytes\<rparr>"

definition push_stack :: "compute_meter \<Rightarrow> metered" where
  "push_stack m =
     (let current = stack_depth m; m1 = m\<lparr>stack_depth := current + 1\<rparr> in
      if of_nat MAX_STACK_DEPTH \<le> current
      then (Inl StackOverflow, m1\<lparr>stack_depth := stack_depth m1 - 1\<rparr>)
      else consume (stack_push_cost (memory_costs (budget m1))) m1)"

definition pop_stack :: "compute_meter \<Rightarrow> compute_meter" where
  "pop_stack m = m\<lparr>stack_depth := stack_depth m - 1\<rparr>"

record meter_snapshot =
  snap_remaining :: u64
  snap_consumed :: u64
  snap_heap_used :: u64
  snap_stack_depth :: u64

definition snapshot :: "compute_meter \<Rightarrow> meter_snapshot" where
  "snapshot m = \<lparr>snap_remaining = remaining m, snap_consumed = consumed m,
     snap_heap_used = heap_used m, snap_stack_depth = stack_depth m\<rparr>"

definition restore :: "meter_snapshot \<Rightarrow> compute_meter \<Rightarrow> compute_meter" where
  "restore s m = m\<lparr>remaining := snap_remaining s, consumed := snap_consumed s,
     heap_used := snap_heap_used s, stack_depth := snap_stack_depth s\<rparr>"

section \<open>Fee reservations\<close>

record fee_reservation =
  res_payer :: pubkey
  res_compute_units :: u64
  res_storage_bytes :: u64
  res_motes_reserved :: u64
  res_reserved_at :: u64
  res_expires_at_slot :: u64

definition fee_reservation_new ::
    "pubkey \<Rightarrow> u64 \<Rightarrow> u64 \<Rightarrow> u64 \<Rightarrow> u64 \<Rightarrow> u64 \<Rightarrow> u64 \<Rightarrow> fee_reservation" where
  "fee_reservation_new payer units bytes motes_per_cu storage_motes_per_byte slot ttl_slots =
     (let compute_motes = saturating_mul units motes_per_cu;
          storage_motes = saturating_mul bytes storage_motes_per_byte
      in \<lparr>res_payer = payer, res_compute_units = units, res_storage_bytes = bytes,
          res_motes_reserved = saturating_add compute_motes storage_motes,
          res_reserved_at = slot, res_expires_at_slot = saturating_add slot ttl_slots\<rparr>)"

definition is_expired :: "fee_reservation \<Rightarrow> u64 \<Rightarrow> bool" where
  "is_expired r current_slot = (res_expires_at_slot r < current_slot)"

definition calculate_refund :: "fee_reservation \<Rightarrow> u64 \<Rightarrow> u64 \<Rightarrow> u64" where
  "calculate_refund r consumed_units motes_per_cu =
     saturating_mul (saturating_sub (res_compute_units r) consumed_units) motes_per_cu"

section \<open>The units never exceed the budget\<close>

definition meter_ok :: "compute_meter \<Rightarrow> bool" where
  "meter_ok m = (unat (remaining m) + unat (consumed m) = unat (max_units (budget m)))"

lemma meter_ok_new: "meter_ok (meter_new b)"
  by (simp add: meter_ok_def meter_new_def)

lemma meter_ok_no_wrap:
  assumes "meter_ok m" and "units \<le> remaining m"
  shows "unat (consumed m + units) = unat (consumed m) + unat units"
proof -
  have "unat (max_units (budget m)) < 2 ^ 64"
    using unsigned_less [of "max_units (budget m)", where ?'a = nat] by simp
  then show ?thesis
    using assms by (intro unat_add_no_overflow) (auto simp: meter_ok_def word_le_nat_alt)
qed

lemma consume_meter_ok:
  assumes "consume units m = (r, m')" and "meter_ok m"
  shows "meter_ok m' \<and> budget m' = budget m \<and> remaining m' \<le> remaining m
    \<and> heap_used m' = heap_used m \<and> stack_depth m' = stack_depth m"
  using assms meter_ok_no_wrap [OF assms(2), of units]
  by (auto simp: consume_def meter_ok_def not_less unat_sub_no_underflow word_le_nat_alt
      split: if_splits)

text \<open>What every charging operation of the meter promises.\<close>

locale charging =
  fixes charge :: "compute_meter \<Rightarrow> metered"
  assumes keeps_ok: "charge m = (r, m') \<Longrightarrow> meter_ok m \<Longrightarrow>
      meter_ok m' \<and> budget m' = budget m \<and> remaining m' \<le> remaining m"
begin

text \<open>Any number of charges, stopping at the first refusal.\<close>

fun charge_times :: "nat \<Rightarrow> compute_meter \<Rightarrow> metered" where
  "charge_times 0 m = (Inr (), m)"
| "charge_times (Suc n) m = (case charge m of (Inl e, m') \<Rightarrow> (Inl e, m') | (Inr _, m') \<Rightarrow> charge_times n m')"

lemma charge_times_ok:
  "charge_times n m = (r, m') \<Longrightarrow> meter_ok m \<Longrightarrow>
     meter_ok m' \<and> budget m' = budget m \<and> remaining m' \<le> remaining m"
proof (induction n arbitrary: m)
  case (Suc n)
  obtain r1 m1 where c: "charge m = (r1, m1)" by (cases "charge m")
  note k = keeps_ok [OF c Suc.prems(2)]
  show ?case
  proof (cases r1)
    case (Inl e)
    then show ?thesis using Suc.prems c k by simp
  next
    case (Inr u)
    then have "charge_times n m1 = (r, m')" using Suc.prems(1) c by simp
    from Suc.IH [OF this] k show ?thesis by auto
  qed
qed simp

end

interpretation plain: charging "consume units" for units
  by unfold_locales (use consume_meter_ok in blast)

interpretation instr: charging "consume_instruction dlen n" for dlen n
  by unfold_locales (unfold consume_instruction_def, use consume_meter_ok in blast)

interpretation memop: charging consume_memory_op
  by unfold_locales (unfold consume_memory_op_def, use consume_meter_ok in blast)

interpretation callop: charging consume_call
  by unfold_locales (unfold consume_call_def, use consume_meter_ok in blast)

interpretation sysop: charging consume_syscall
  by unfold_locales (unfold consume_syscall_def, use consume_meter_ok in blast)

interpretation sha: charging "consume_sha256 n" for n
  by unfold_locales (unfold consume_sha256_def, use consume_meter_ok in blast)

interpretation b3: charging "consume_blake3 n" for n
  by unfold_locales (unfold consume_blake3_def, use consume_meter_ok in blast)

interpretation ed: charging consume_ed25519_verify
  by unfold_locales (unfold consume_ed25519_verify_def, use consume_meter_ok in blast)

lemma meter_ok_update [simp]:
  "meter_ok (m\<lparr>heap_used := h\<rparr>) = meter_ok m" "meter_ok (m\<lparr>stack_depth := d\<rparr>) = meter_ok m"
  by (simp_all add: meter_ok_def)

lemma allocate_heap_ok:
  assumes "allocate_heap bytes m = (r, m')" and "meter_ok m"
  shows "meter_ok m' \<and> budget m' = budget m \<and> remaining m' \<le> remaining m"
  using assms consume_meter_ok [of _ "m\<lparr>heap_used := saturating_add (heap_used m) bytes\<rparr>" r m']
  by (auto simp: allocate_heap_def Let_def split: if_splits)

interpretation heapop: charging "allocate_heap bytes" for bytes
  by unfold_locales (use allocate_heap_ok in blast)

lemma push_stack_ok:
  assumes "push_stack m = (r, m')" and "meter_ok m"
  shows "meter_ok m' \<and> budget m' = budget m \<and> remaining m' \<le> remaining m"
  using assms consume_meter_ok [of _ "m\<lparr>stack_depth := stack_depth m + 1\<rparr>" r m']
  by (auto simp: push_stack_def Let_def split: if_splits)

interpretation stackop: charging push_stack
  by unfold_locales (use push_stack_ok in blast)

datatype charge_op =
    Units u64 | Instruction_Cost nat nat | Memory_Op | Call_Op | Syscall_Op
  | Sha256_Op nat | Blake3_Op nat | Ed25519_Op | Heap_Op u64 | Stack_Op

fun apply_charge :: "charge_op \<Rightarrow> compute_meter \<Rightarrow> metered" where
  "apply_charge (Units n) = consume n"
| "apply_charge (Instruction_Cost d n) = consume_instruction d n"
| "apply_charge Memory_Op = consume_memory_op"
| "apply_charge Call_Op = consume_call"
| "apply_charge Syscall_Op = consume_syscall"
| "apply_charge (Sha256_Op n) = consume_sha256 n"
| "apply_charge (Blake3_Op n) = consume_blake3 n"
| "apply_charge Ed25519_Op = consume_ed25519_verify"
| "apply_charge (Heap_Op b) = allocate_heap b"
| "apply_charge Stack_Op = push_stack"

definition apply_charges :: "charge_op list \<Rightarrow> compute_meter \<Rightarrow> compute_meter" where
  "apply_charges ops m = fold (\<lambda>c m. snd (apply_charge c m)) ops m"

interpretation anycharge: charging "apply_charge c" for c
  by unfold_locales
     (cases c; simp; blast dest: plain.keeps_ok instr.keeps_ok memop.keeps_ok callop.keeps_ok
       sysop.keeps_ok sha.keeps_ok b3.keeps_ok ed.keeps_ok heapop.keeps_ok stackop.keeps_ok)

lemma apply_charges_ok:
  assumes "meter_ok m"
  shows "meter_ok (apply_charges ops m) \<and> budget (apply_charges ops m) = budget m
    \<and> remaining (apply_charges ops m) \<le> remaining m"
  using assms
proof (induction ops arbitrary: m)
  case Nil
  then show ?case by (simp add: apply_charges_def)
next
  case (Cons c ops)
  obtain r m1 where c: "apply_charge c m = (r, m1)" by (cases "apply_charge c m")
  note k = anycharge.keeps_ok [OF c Cons.prems]
  then show ?case using Cons.IH [of m1] c by (auto simp: apply_charges_def)
qed

text \<open>
  Whatever a transaction charges, in whatever order (base costs, hashing, heap, stack), the
  units still remaining and the units consumed add up to the budget, and the remaining units
  never grow: one charge of any kind keeps it, so every finite sequence of them does.
\<close>

theorem charges_within_budget:
  assumes "meter_ok m"
  shows "meter_ok (apply_charges ops m) \<and> budget (apply_charges ops m) = budget m
    \<and> remaining (apply_charges ops m) \<le> remaining m"
  using assms by (rule apply_charges_ok)

theorem charges_within_budget_witness:
  "meter_ok (meter_new compute_budget_default)
   \<and> meter_ok (apply_charges [Units 150, Heap_Op 64, Stack_Op] (meter_new compute_budget_default))"
  using charges_within_budget [OF meter_ok_new] meter_ok_new by blast

section \<open>Heap, stack, snapshots and refunds\<close>

lemma allocate_heap_bound:
  assumes "allocate_heap bytes m = (Inr (), m')"
  shows "heap_used m' \<le> heap_size (budget m)
    \<and> (unat (heap_used m) + unat bytes < 2 ^ 64 \<longrightarrow> unat (heap_used m') = unat (heap_used m) + unat bytes)"
  using assms
  by (auto simp: allocate_heap_def Let_def consume_def not_less unat_saturating_add split: if_splits)

text \<open>
  Freeing more heap than is in use wraps the usage counter round to a value above the limit,
  after which every allocation is refused, even one of no bytes.
\<close>

theorem free_heap_underflow_blocks:
  assumes "heap_used m < bytes"
    and "unat (bytes - heap_used m) + unat (heap_size (budget m)) < 2 ^ 64"
  shows "allocate_heap b (free_heap bytes m) = (Inl MemoryLimitExceeded, free_heap bytes m)"
proof -
  have "unat (heap_used m - bytes) = 2 ^ 64 - (unat bytes - unat (heap_used m))"
    using assms(1) unsigned_less [of bytes, where ?'a = nat] by (auto simp: unat_sub_if' word_less_nat_alt)
  moreover have "unat (bytes - heap_used m) = unat bytes - unat (heap_used m)"
    using assms(1) by (simp add: unat_sub_no_underflow)
  ultimately have "unat (heap_size (budget m)) < unat (heap_used m - bytes)"
    using assms(2) by linarith
  moreover have "unat (heap_used m - bytes) \<le> unat (saturating_add (heap_used m - bytes) b)"
    using unsigned_less [of "heap_used m - bytes", where ?'a = nat] by (simp add: unat_saturating_add)
  ultimately have "heap_size (budget m) < saturating_add (heap_used m - bytes) b"
    by (simp add: word_less_nat_alt)
  then show ?thesis by (simp add: allocate_heap_def free_heap_def)
qed

theorem free_heap_underflow_blocks_witness:
  "allocate_heap 0 (free_heap 1 (meter_new compute_budget_default))
     = (Inl MemoryLimitExceeded, free_heap 1 (meter_new compute_budget_default))"
  by (rule free_heap_underflow_blocks)
     (simp_all add: meter_new_def compute_budget_default_def)

lemma push_stack_depth:
  assumes "push_stack m = (r, m')" and "unat (stack_depth m) \<le> MAX_STACK_DEPTH"
  shows "unat (stack_depth m') \<le> MAX_STACK_DEPTH"
    and "r = Inr () \<Longrightarrow> stack_depth m' = stack_depth m + 1"
    and "r = Inl StackOverflow \<Longrightarrow> m' = m"
  using assms
  by (auto simp: push_stack_def Let_def consume_def MAX_STACK_DEPTH_def word_le_nat_alt
      unat_word_ariths split: if_splits)

text \<open>Restoring a snapshot undoes any charging in between.\<close>

lemma restore_snapshot: "budget m' = budget m \<Longrightarrow> restore (snapshot m) m' = m"
  by (simp add: restore_def snapshot_def)

lemma restore_after_charges:
  "meter_ok m \<Longrightarrow> restore (snapshot m) (apply_charges ops m) = m"
  using apply_charges_ok [of m ops] by (simp add: restore_snapshot)

text \<open>
  A refund computed at the rate of the reservation never exceeds what was reserved, and a
  transaction that used everything it reserved, or more, gets nothing back; saturation included.
\<close>

theorem refund_bounded:
  "unat (calculate_refund (fee_reservation_new payer units bytes rate storage_rate slot ttl) used rate)
     \<le> unat (res_motes_reserved (fee_reservation_new payer units bytes rate storage_rate slot ttl))
   \<and> (units \<le> used \<longrightarrow>
       calculate_refund (fee_reservation_new payer units bytes rate storage_rate slot ttl) used rate = 0)"
proof
  have le: "(unat units - unat used) * unat rate \<le> unat units * unat rate" by simp
  have "min ((unat units - unat used) * unat rate) M \<le> min (unat units * unat rate) M + x" for M x
    using le by linarith
  then show "unat (calculate_refund (fee_reservation_new payer units bytes rate storage_rate slot ttl) used rate)
     \<le> unat (res_motes_reserved (fee_reservation_new payer units bytes rate storage_rate slot ttl))"
    by (auto simp: calculate_refund_def fee_reservation_new_def Let_def unat_saturating_mul
        unat_saturating_add unat_saturating_sub)
qed (auto simp: calculate_refund_def fee_reservation_new_def Let_def saturating_sub_def saturating_mul_def)

theorem refund_bounded_witness:
  "calculate_refund (fee_reservation_new 7 1000 0 5 1 10 20) 1000 5 = 0"
  using refund_bounded [of 7 1000 0 5 1 10 20 1000] by simp

section \<open>Threads sharing one meter\<close>

text \<open>
  \<^verbatim>\<open>SharedComputeMeter\<close> is an \<^verbatim>\<open>Arc\<close>: several threads may be inside \<^verbatim>\<open>consume\<close> at once. One thread is
  about to load the remaining units, holds the value it loaded, has swapped the difference in but
  not yet added to \<^verbatim>\<open>consumed\<close>, or has returned. A weak compare-and-swap may also fail when the
  value has not changed, so a failed swap has no condition on it.
\<close>

datatype consumer =
    Ready u64
  | Loaded u64 u64
  | Swapped u64
  | Granted u64
  | Refused u64

record shared_meter =
  sh_remaining :: u64
  sh_consumed :: u64
  sh_threads :: "consumer list"

inductive consume_step :: "shared_meter \<Rightarrow> shared_meter \<Rightarrow> bool" where
  load: "i < length (sh_threads s) \<Longrightarrow> sh_threads s ! i = Ready u \<Longrightarrow>
     consume_step s (s\<lparr>sh_threads := (sh_threads s)[i := Loaded u (sh_remaining s)]\<rparr>)"
| refuse: "i < length (sh_threads s) \<Longrightarrow> sh_threads s ! i = Loaded u current \<Longrightarrow> current < u \<Longrightarrow>
     consume_step s (s\<lparr>sh_threads := (sh_threads s)[i := Refused u]\<rparr>)"
| swap: "i < length (sh_threads s) \<Longrightarrow> sh_threads s ! i = Loaded u current \<Longrightarrow> \<not> current < u \<Longrightarrow>
     sh_remaining s = current \<Longrightarrow>
     consume_step s (s\<lparr>sh_remaining := current - u, sh_threads := (sh_threads s)[i := Swapped u]\<rparr>)"
| retry: "i < length (sh_threads s) \<Longrightarrow> sh_threads s ! i = Loaded u current \<Longrightarrow> \<not> current < u \<Longrightarrow>
     consume_step s (s\<lparr>sh_threads := (sh_threads s)[i := Ready u]\<rparr>)"
| add: "i < length (sh_threads s) \<Longrightarrow> sh_threads s ! i = Swapped u \<Longrightarrow>
     consume_step s (s\<lparr>sh_consumed := sh_consumed s + u, sh_threads := (sh_threads s)[i := Granted u]\<rparr>)"

inductive consume_reachable :: "u64 \<Rightarrow> shared_meter \<Rightarrow> bool" for units where
  start: "consume_reachable units \<lparr>sh_remaining = units, sh_consumed = 0, sh_threads = map Ready us\<rparr>"
| step: "consume_reachable units s \<Longrightarrow> consume_step s s' \<Longrightarrow> consume_reachable units s'"

fun granted_units :: "consumer \<Rightarrow> int" where
  "granted_units (Granted u) = int (unat u)"
| "granted_units _ = 0"

fun pending_units :: "consumer \<Rightarrow> int" where
  "pending_units (Swapped u) = int (unat u)"
| "pending_units _ = 0"

definition total_granted :: "shared_meter \<Rightarrow> int" where
  "total_granted s = sum_list (map granted_units (sh_threads s))"

definition total_pending :: "shared_meter \<Rightarrow> int" where
  "total_pending s = sum_list (map pending_units (sh_threads s))"

definition shared_inv :: "u64 \<Rightarrow> shared_meter \<Rightarrow> bool" where
  "shared_inv units s \<longleftrightarrow>
     int (unat (sh_remaining s)) + total_pending s + total_granted s = int (unat units)
     \<and> int (unat (sh_consumed s)) = total_granted s
     \<and> (\<forall>u c. Loaded u c \<in> set (sh_threads s) \<longrightarrow> sh_remaining s \<le> c)
     \<and> (\<forall>u. Refused u \<in> set (sh_threads s) \<longrightarrow> sh_remaining s < u)"

lemma granted_nonneg: "0 \<le> granted_units c" and pending_nonneg: "0 \<le> pending_units c"
  by (cases c; simp)+

lemma totals_nonneg: "0 \<le> total_granted s" "0 \<le> total_pending s"
  by (auto simp: total_granted_def total_pending_def granted_nonneg pending_nonneg intro!: sum_list_nonneg)

lemma totals_update:
  assumes "i < length (sh_threads s)"
  shows "sum_list (map granted_units ((sh_threads s)[i := c])) =
           total_granted s - granted_units (sh_threads s ! i) + granted_units c"
    and "sum_list (map pending_units ((sh_threads s)[i := c])) =
           total_pending s - pending_units (sh_threads s ! i) + pending_units c"
  using assms by (simp_all add: total_granted_def total_pending_def sum_list_map_update)

lemma pending_le_total:
  assumes "i < length (sh_threads s)" and "sh_threads s ! i = Swapped u"
  shows "int (unat u) \<le> total_pending s"
proof -
  have "Swapped u \<in> set (sh_threads s)" using assms nth_mem by metis
  then have "pending_units (Swapped u) \<le> sum_list (map pending_units (sh_threads s))"
    by (intro member_le_sum_list) (auto simp: pending_nonneg simp del: pending_units.simps)
  then show ?thesis by (simp add: total_pending_def)
qed

lemma shared_inv_totals:
  assumes "shared_inv units s"
  shows "total_pending s + total_granted s \<le> int (unat units)"
proof -
  have "int (unat (sh_remaining s)) + total_pending s + total_granted s = int (unat units)"
    using assms by (simp only: shared_inv_def)
  moreover have "0 \<le> int (unat (sh_remaining s))" by (rule of_nat_0_le_iff)
  ultimately show ?thesis by linarith
qed

lemma consume_step_inv: "consume_step s s' \<Longrightarrow> shared_inv units s \<Longrightarrow> shared_inv units s'"
proof (induction rule: consume_step.induct)
  case (load i s u)
  then show ?case
    by (auto simp: shared_inv_def total_granted_def total_pending_def sum_list_map_update
        dest!: set_update_subset_insert [THEN subsetD])
next
  case (refuse i s u current)
  then have "sh_remaining s \<le> current" using nth_mem unfolding shared_inv_def by metis
  then have "sh_remaining s < u" using refuse.hyps(3) by simp
  with refuse show ?case
    by (auto simp: shared_inv_def total_granted_def total_pending_def sum_list_map_update
        dest!: set_update_subset_insert [THEN subsetD])
next
  case (swap i s u current)
  then have le: "u \<le> sh_remaining s" by auto
  then have less: "sh_remaining s - u \<le> sh_remaining s" by (simp add: word_sub_le)
  have "int (unat (sh_remaining s - u)) = int (unat (sh_remaining s)) - int (unat u)"
    using le by (simp add: unat_sub_no_underflow word_le_nat_alt of_nat_diff)
  with swap show ?case
    by (auto simp: shared_inv_def total_granted_def total_pending_def sum_list_map_update
        dest!: set_update_subset_insert [THEN subsetD]
        intro: order_trans [OF less] order.strict_trans1 [OF less])
next
  case (retry i s u current)
  then show ?case
    by (auto simp: shared_inv_def total_granted_def total_pending_def sum_list_map_update
        dest!: set_update_subset_insert [THEN subsetD])
next
  case (add i s u)
  have "int (unat (sh_consumed s)) + int (unat u) \<le> int (unat units)"
    using pending_le_total [OF add.hyps] shared_inv_totals [OF add.prems] add.prems
    unfolding shared_inv_def by linarith
  then have "unat (sh_consumed s) + unat u \<le> unat units" by linarith
  then have "unat (sh_consumed s) + unat u < 2 ^ 64"
    using unsigned_less [of units, where ?'a = nat] by simp
  then have "unat (sh_consumed s + u) = unat (sh_consumed s) + unat u"
    by (intro unat_add_no_overflow) simp
  with add show ?case
    by (auto simp: shared_inv_def total_granted_def total_pending_def sum_list_map_update
        dest!: set_update_subset_insert [THEN subsetD])
qed

lemma total_ready [simp]: "sum_list (map (granted_units \<circ> Ready) us) = 0"
    "sum_list (map (pending_units \<circ> Ready) us) = 0"
  by (induction us) auto

lemma shared_inv_reachable: "consume_reachable units s \<Longrightarrow> shared_inv units s"
proof (induction rule: consume_reachable.induct)
  case (start us)
  show ?case by (auto simp: shared_inv_def total_granted_def total_pending_def)
next
  case (step s s')
  then show ?case by (blast intro: consume_step_inv)
qed

text \<open>
  C17. For any number of threads charging one meter in any interleaving, retries and spurious failures
  of the compare-and-swap included: the units granted never exceed the budget, the \<^verbatim>\<open>consumed\<close>
  counter is exactly the units granted, remaining, in-flight and granted units add up to the
  budget, and a refused charge really is larger than what remains.
\<close>

theorem concurrent_consume_safe:
  assumes "consume_reachable units s"
  shows "total_granted s \<le> int (unat units)
    \<and> int (unat (sh_consumed s)) = total_granted s
    \<and> int (unat (sh_remaining s)) + total_pending s + total_granted s = int (unat units)
    \<and> (\<forall>u. Refused u \<in> set (sh_threads s) \<longrightarrow> sh_remaining s < u)"
proof -
  note inv = shared_inv_reachable [OF assms]
  have "total_granted s \<le> int (unat units)"
    using shared_inv_totals [OF inv] totals_nonneg [of s] by linarith
  with inv show ?thesis unfolding shared_inv_def by blast
qed

text \<open>The loop run by one thread alone gives what \<open>consume\<close> gives.\<close>

lemma solo_consume:
  assumes "consume u m = (r, m')"
  shows "consume_step\<^sup>*\<^sup>* \<lparr>sh_remaining = remaining m, sh_consumed = consumed m, sh_threads = [Ready u]\<rparr>
     \<lparr>sh_remaining = remaining m', sh_consumed = consumed m',
      sh_threads = [if r = Inr () then Granted u else Refused u]\<rparr>"
    (is "consume_step\<^sup>*\<^sup>* ?init ?fin")
proof -
  let ?ld = "?init\<lparr>sh_threads := [Loaded u (remaining m)]\<rparr>"
  have l: "consume_step ?init ?ld" using consume_step.load [of 0 ?init u] by simp
  show ?thesis
  proof (cases "remaining m < u")
    case True
    then have "consume_step ?ld ?fin"
      using consume_step.refuse [of 0 ?ld u "remaining m"] assms by (auto simp: consume_def)
    with l show ?thesis by (meson r_into_rtranclp rtranclp.rtrancl_into_rtrancl)
  next
    case False
    let ?sw = "?ld\<lparr>sh_remaining := remaining m - u, sh_threads := [Swapped u]\<rparr>"
    have "consume_step ?ld ?sw" using consume_step.swap [of 0 ?ld u "remaining m"] False by simp
    moreover have "consume_step ?sw ?fin"
      using consume_step.add [of 0 ?sw u] False assms by (auto simp: consume_def)
    ultimately show ?thesis using l by (meson r_into_rtranclp rtranclp.rtrancl_into_rtrancl)
  qed
qed

lemma two_threads_race:
  "consume_reachable 100 \<lparr>sh_remaining = 40, sh_consumed = 0, sh_threads = [Swapped 60, Refused 70]\<rparr>"
proof -
  let ?s = "\<lambda>r ts. \<lparr>sh_remaining = r, sh_consumed = 0, sh_threads = ts\<rparr>"
  have 0: "consume_reachable 100 (?s 100 [Ready 60, Ready 70])"
    using consume_reachable.start [of 100 "[60, 70]"] by simp
  have 1: "consume_reachable 100 (?s 100 [Loaded 60 100, Ready 70])"
    using consume_reachable.step [OF 0 consume_step.load [of 0 _ 60]] by simp
  have 2: "consume_reachable 100 (?s 100 [Loaded 60 100, Loaded 70 100])"
    using consume_reachable.step [OF 1 consume_step.load [of 1 _ 70]] by simp
  have 3: "consume_reachable 100 (?s 40 [Swapped 60, Loaded 70 100])"
    using consume_reachable.step [OF 2 consume_step.swap [of 0 _ 60 100]] by simp
  have 4: "consume_reachable 100 (?s 40 [Swapped 60, Ready 70])"
    using consume_reachable.step [OF 3 consume_step.retry [of 1 _ 70 100]] by simp
  have 5: "consume_reachable 100 (?s 40 [Swapped 60, Loaded 70 40])"
    using consume_reachable.step [OF 4 consume_step.load [of 1 _ 70]] by simp
  show ?thesis
    using consume_reachable.step [OF 5 consume_step.refuse [of 1 _ 70 40]] by simp
qed

theorem concurrent_consume_safe_witness:
  "\<exists>s. consume_reachable 100 s \<and> sh_threads s = [Swapped 60, Refused 70]
     \<and> total_granted s \<le> int (unat (100::u64)) \<and> sh_remaining s < 70"
  using concurrent_consume_safe [OF two_threads_race] two_threads_race by fastforce

end
