(* ===== verification/Instructions.thy ===== *)
theory Instructions
  imports Metering
begin

text \<open>
  \<^verbatim>\<open>crates/dchat-programs/src/instruction.rs\<close>, and \<^verbatim>\<open>decompile_batch\<close> of \<^verbatim>\<open>runtime.rs\<close>: instructions
  and their builder, and the batch a transaction is sent as. \<^verbatim>\<open>compile\<close> collects the account
  keys of all instructions into one array and refers to them by \<^verbatim>\<open>u8\<close> indices (a cast that keeps
  the low eight bits); the runtime turns the batch back into instructions. Hashes (\<^verbatim>\<open>[u8; 32]\<close>) are
  256-bit words and the hash function is a parameter.
\<close>

type_synonym hash32 = "256 word"

definition MAX_INSTRUCTION_DATA_SIZE :: nat where "MAX_INSTRUCTION_DATA_SIZE = 10 * 1024"
definition MAX_ACCOUNTS_PER_INSTRUCTION :: nat where "MAX_ACCOUNTS_PER_INSTRUCTION = 64"

record instruction =
  ix_program_id :: pubkey
  ix_accounts :: "account_meta list"
  ix_data :: "u8 list"

definition instruction_new :: "pubkey \<Rightarrow> account_meta list \<Rightarrow> u8 list \<Rightarrow> instruction" where
  "instruction_new pid accs d = \<lparr>ix_program_id = pid, ix_accounts = accs, ix_data = d\<rparr>"

definition instruction_new_with_data :: "pubkey \<Rightarrow> u8 list \<Rightarrow> instruction" where
  "instruction_new_with_data pid d = \<lparr>ix_program_id = pid, ix_accounts = [], ix_data = d\<rparr>"

definition instruction_validate :: "instruction \<Rightarrow> unit program_result" where
  "instruction_validate ix =
     (if MAX_ACCOUNTS_PER_INSTRUCTION < length (ix_accounts ix) then Inl MaxAccountsExceeded
      else if MAX_INSTRUCTION_DATA_SIZE < length (ix_data ix) then Inl MaxInstructionDataExceeded
      else Inr ())"

definition bool_byte :: "bool \<Rightarrow> u8" where
  "bool_byte b = (if b then 1 else 0)"

definition instruction_hash_input :: "instruction \<Rightarrow> u8 list" where
  "instruction_hash_input ix = as_bytes (ix_program_id ix)
     @ concat (map (\<lambda>m. as_bytes (meta_pubkey m) @ [bool_byte (is_signer m), bool_byte (is_writable m)])
         (ix_accounts ix))
     @ ix_data ix"

definition instruction_hash :: "(u8 list \<Rightarrow> hash32) \<Rightarrow> instruction \<Rightarrow> hash32" where
  "instruction_hash blake3 ix = blake3 (instruction_hash_input ix)"

text \<open>The builder: every method returns the builder with one more account or new data.\<close>

record instruction_builder =
  b_program_id :: pubkey
  b_accounts :: "account_meta list"
  b_data :: "u8 list"

definition builder_new :: "pubkey \<Rightarrow> instruction_builder" where
  "builder_new pid = \<lparr>b_program_id = pid, b_accounts = [], b_data = []\<rparr>"

definition builder_account :: "account_meta \<Rightarrow> instruction_builder \<Rightarrow> instruction_builder" where
  "builder_account m b = b\<lparr>b_accounts := b_accounts b @ [m]\<rparr>"

definition builder_signer_writable :: "pubkey \<Rightarrow> instruction_builder \<Rightarrow> instruction_builder" where
  "builder_signer_writable pk b = b\<lparr>b_accounts := b_accounts b @ [meta_signer_writable pk]\<rparr>"

definition builder_signer_readonly :: "pubkey \<Rightarrow> instruction_builder \<Rightarrow> instruction_builder" where
  "builder_signer_readonly pk b = b\<lparr>b_accounts := b_accounts b @ [meta_signer_readonly pk]\<rparr>"

definition builder_writable :: "pubkey \<Rightarrow> instruction_builder \<Rightarrow> instruction_builder" where
  "builder_writable pk b = b\<lparr>b_accounts := b_accounts b @ [meta_writable pk]\<rparr>"

definition builder_readonly :: "pubkey \<Rightarrow> instruction_builder \<Rightarrow> instruction_builder" where
  "builder_readonly pk b = b\<lparr>b_accounts := b_accounts b @ [meta_readonly pk]\<rparr>"

definition builder_data :: "u8 list \<Rightarrow> instruction_builder \<Rightarrow> instruction_builder" where
  "builder_data d b = b\<lparr>b_data := d\<rparr>"

definition builder_build :: "instruction_builder \<Rightarrow> instruction" where
  "builder_build b =
     \<lparr>ix_program_id = b_program_id b, ix_accounts = b_accounts b, ix_data = b_data b\<rparr>"

section \<open>Compiling a batch\<close>

record compiled_instruction =
  program_id_index :: u8
  ci_accounts :: "u8 list"
  ci_data :: "u8 list"

record instruction_batch =
  account_keys :: "pubkey list"
  signer_indices :: "u8 list"
  writable_indices :: "u8 list"
  batch_instructions :: "compiled_instruction list"
  recent_blockhash :: hash32
  intent_id :: "hash32 option"

type_synonym collected = "pubkey list \<times> u8 list \<times> u8 list"

definition push_new :: "bool \<Rightarrow> u8 \<Rightarrow> u8 list \<Rightarrow> u8 list" where
  "push_new flag idx is = (if flag \<and> idx \<notin> set is then is @ [idx] else is)"

fun collect_program :: "pubkey \<Rightarrow> collected \<Rightarrow> collected" where
  "collect_program pid (ks, ss, ws) = (if pid \<in> set ks then (ks, ss, ws) else (ks @ [pid], ss, ws))"

fun collect_meta :: "account_meta \<Rightarrow> collected \<Rightarrow> collected" where
  "collect_meta m (ks, ss, ws) =
     (let (idx, ks') = (case position (meta_pubkey m) ks of
            Some pos \<Rightarrow> (of_nat pos, ks)
          | None \<Rightarrow> (of_nat (length ks), ks @ [meta_pubkey m]))
      in (ks', push_new (is_signer m) idx ss, push_new (is_writable m) idx ws))"

definition collect_instruction :: "instruction \<Rightarrow> collected \<Rightarrow> collected" where
  "collect_instruction ix st = fold collect_meta (ix_accounts ix) (collect_program (ix_program_id ix) st)"

definition collect_keys :: "instruction list \<Rightarrow> pubkey \<Rightarrow> collected" where
  "collect_keys ixs payer = fold collect_instruction ixs ([payer], [0], [0])"

definition account_index :: "pubkey list \<Rightarrow> account_meta \<Rightarrow> u8 program_result" where
  "account_index ks m = (case position (meta_pubkey m) ks of
       None \<Rightarrow> Inl (InternalError ''account not found'')
     | Some p \<Rightarrow> Inr (of_nat p))"

definition compile_instruction :: "pubkey list \<Rightarrow> instruction \<Rightarrow> compiled_instruction program_result" where
  "compile_instruction ks ix =
     (case instruction_validate ix of
        Inl e \<Rightarrow> Inl e
      | Inr _ \<Rightarrow>
         (case position (ix_program_id ix) ks of
            None \<Rightarrow> Inl (InternalError ''program_id not found'')
          | Some p \<Rightarrow>
             (case traverse (account_index ks) (ix_accounts ix) of
                Inl e \<Rightarrow> Inl e
              | Inr accs \<Rightarrow> Inr \<lparr>program_id_index = of_nat p, ci_accounts = accs, ci_data = ix_data ix\<rparr>)))"

definition compile :: "instruction list \<Rightarrow> pubkey \<Rightarrow> hash32 \<Rightarrow> instruction_batch program_result" where
  "compile ixs payer blockhash =
     (let (ks, ss, ws) = collect_keys ixs payer in
      case traverse (compile_instruction ks) ixs of
        Inl e \<Rightarrow> Inl e
      | Inr cs \<Rightarrow> Inr \<lparr>account_keys = ks, signer_indices = ss, writable_indices = ws,
          batch_instructions = cs, recent_blockhash = blockhash, intent_id = None\<rparr>)"

definition with_intent :: "hash32 \<Rightarrow> instruction_batch \<Rightarrow> instruction_batch" where
  "with_intent i b = b\<lparr>intent_id := Some i\<rparr>"

definition batch_hash_input :: "instruction_batch \<Rightarrow> u8 list" where
  "batch_hash_input b = concat (map as_bytes (account_keys b))
     @ concat (map (\<lambda>ix. [program_id_index ix] @ ci_accounts ix @ ci_data ix) (batch_instructions b))
     @ as_bytes (recent_blockhash b)
     @ (case intent_id b of None \<Rightarrow> [] | Some i \<Rightarrow> as_bytes i)"

definition batch_hash :: "(u8 list \<Rightarrow> hash32) \<Rightarrow> instruction_batch \<Rightarrow> hash32" where
  "batch_hash blake3 b = blake3 (batch_hash_input b)"

section \<open>Decompiling\<close>

definition decompile_account :: "instruction_batch \<Rightarrow> u8 \<Rightarrow> account_meta option" where
  "decompile_account b idx = map_option (\<lambda>pk.
       \<lparr>meta_pubkey = pk, is_signer = idx \<in> set (signer_indices b),
        is_writable = idx \<in> set (writable_indices b)\<rparr>) (get (account_keys b) (unat idx))"

definition decompile_instruction :: "instruction_batch \<Rightarrow> compiled_instruction \<Rightarrow> instruction" where
  "decompile_instruction b c =
     \<lparr>ix_program_id = (case get (account_keys b) (unat (program_id_index c)) of
          None \<Rightarrow> pubkey_zero | Some pk \<Rightarrow> pk),
      ix_accounts = filter_map (decompile_account b) (ci_accounts c), ix_data = ci_data c\<rparr>"

definition decompile_batch :: "instruction_batch \<Rightarrow> instruction list" where
  "decompile_batch b = map (decompile_instruction b) (batch_instructions b)"

section \<open>What the index tables say\<close>

definition all_metas :: "instruction list \<Rightarrow> account_meta set" where
  "all_metas ixs = (\<Union>ix\<in>set ixs. set (ix_accounts ix))"

definition signer_keys :: "pubkey \<Rightarrow> account_meta set \<Rightarrow> pubkey set" where
  "signer_keys payer ms = insert payer (meta_pubkey ` {m \<in> ms. is_signer m})"

definition writable_keys :: "pubkey \<Rightarrow> account_meta set \<Rightarrow> pubkey set" where
  "writable_keys payer ms = insert payer (meta_pubkey ` {m \<in> ms. is_writable m})"

definition index_of :: "pubkey list \<Rightarrow> pubkey \<Rightarrow> u8" where
  "index_of ks k = of_nat (the (position k ks))"

text \<open>The tables hold, as indices into the keys so far, exactly the signer and writable keys so far.\<close>

fun collected_ok :: "collected \<Rightarrow> pubkey set \<Rightarrow> pubkey set \<Rightarrow> bool" where
  "collected_ok (ks, ss, ws) S W \<longleftrightarrow>
     distinct ks \<and> S \<subseteq> set ks \<and> W \<subseteq> set ks \<and> set ss = index_of ks ` S \<and> set ws = index_of ks ` W"

lemma index_of_append: "k \<in> set ks \<Longrightarrow> index_of (ks @ ks') k = index_of ks k"
  by (simp add: index_of_def position_append_left)

lemma index_of_append_image: "S \<subseteq> set ks \<Longrightarrow> index_of (ks @ ks') ` S = index_of ks ` S"
  by (auto simp: index_of_append intro!: image_cong)

lemma position_absent: "x \<notin> set xs \<Longrightarrow> position x xs = None"
  by simp

lemma position_fresh: "x \<notin> set xs \<Longrightarrow> position x (xs @ [x]) = Some (length xs)"
  by (induction xs) auto

lemma index_of_fresh: "k \<notin> set ks \<Longrightarrow> index_of (ks @ [k]) k = of_nat (length ks)"
  by (simp add: index_of_def position_fresh)

lemma set_push_new: "set (push_new flag idx is) = (if flag then insert idx (set is) else set is)"
  by (auto simp: push_new_def)

lemma collect_program_ok:
  "collected_ok st S W \<Longrightarrow> collected_ok (collect_program pid st) S W \<and> pid \<in> set (fst (collect_program pid st))
     \<and> set (fst st) \<subseteq> set (fst (collect_program pid st))"
  by (cases st) (auto simp: index_of_append_image)

lemma collect_meta_ok:
  assumes "collected_ok st S W"
  shows "collected_ok (collect_meta m st) (if is_signer m then insert (meta_pubkey m) S else S)
      (if is_writable m then insert (meta_pubkey m) W else W)
    \<and> meta_pubkey m \<in> set (fst (collect_meta m st)) \<and> set (fst st) \<subseteq> set (fst (collect_meta m st))"
proof (cases "meta_pubkey m \<in> set (fst st)")
  case True
  then obtain p where "position (meta_pubkey m) (fst st) = Some p"
    by (metis option.exhaust position_None_iff)
  then show ?thesis
    using assms True by (cases st) (auto simp: set_push_new index_of_def)
next
  case False
  then show ?thesis
    using assms
    by (cases st) (auto simp: set_push_new index_of_append_image index_of_fresh position_absent)
qed

lemma collect_metas_ok:
  assumes "collected_ok st S W"
  shows "collected_ok (fold collect_meta ms st) (S \<union> meta_pubkey ` {m \<in> set ms. is_signer m})
      (W \<union> meta_pubkey ` {m \<in> set ms. is_writable m})
    \<and> meta_pubkey ` set ms \<union> set (fst st) \<subseteq> set (fst (fold collect_meta ms st))"
  using assms
proof (induction ms arbitrary: st S W)
  case (Cons m ms)
  let ?S = "if is_signer m then insert (meta_pubkey m) S else S"
  let ?W = "if is_writable m then insert (meta_pubkey m) W else W"
  note k = collect_meta_ok [OF Cons.prems, of m]
  have S: "S \<union> meta_pubkey ` {x \<in> set (m # ms). is_signer x} = ?S \<union> meta_pubkey ` {x \<in> set ms. is_signer x}"
   and W: "W \<union> meta_pubkey ` {x \<in> set (m # ms). is_writable x} = ?W \<union> meta_pubkey ` {x \<in> set ms. is_writable x}"
    by auto
  show ?case unfolding S W using Cons.IH [of "collect_meta m st" ?S ?W] k by auto
qed simp

lemma collect_instructions_ok:
  assumes "collected_ok st S W"
  shows "collected_ok (fold collect_instruction ixs st) (S \<union> meta_pubkey ` {m \<in> all_metas ixs. is_signer m})
      (W \<union> meta_pubkey ` {m \<in> all_metas ixs. is_writable m})
    \<and> ix_program_id ` set ixs \<union> meta_pubkey ` all_metas ixs \<union> set (fst st)
        \<subseteq> set (fst (fold collect_instruction ixs st))"
  using assms
proof (induction ixs arbitrary: st S W)
  case Nil
  then show ?case by (simp add: all_metas_def)
next
  case (Cons ix ixs)
  let ?st = "collect_instruction ix st"
  let ?S = "S \<union> meta_pubkey ` {m \<in> set (ix_accounts ix). is_signer m}"
  let ?W = "W \<union> meta_pubkey ` {m \<in> set (ix_accounts ix). is_writable m}"
  note p = collect_program_ok [OF Cons.prems, of "ix_program_id ix"]
  note q = collect_metas_ok [OF conjunct1 [OF p], of "ix_accounts ix"]
  have "collected_ok ?st ?S ?W" using q by (simp add: collect_instruction_def)
  note r = Cons.IH [OF this]
  have sub: "insert (ix_program_id ix) (meta_pubkey ` set (ix_accounts ix) \<union> set (fst st)) \<subseteq> set (fst ?st)"
    using p q by (auto simp: collect_instruction_def)
  have S: "S \<union> meta_pubkey ` {m \<in> all_metas (ix # ixs). is_signer m} = ?S \<union> meta_pubkey ` {m \<in> all_metas ixs. is_signer m}"
   and W: "W \<union> meta_pubkey ` {m \<in> all_metas (ix # ixs). is_writable m} = ?W \<union> meta_pubkey ` {m \<in> all_metas ixs. is_writable m}"
    by (auto simp: all_metas_def)
  have U: "all_metas (ix # ixs) = set (ix_accounts ix) \<union> all_metas ixs" by (simp add: all_metas_def)
  have "ix_program_id ` set (ix # ixs) \<union> meta_pubkey ` all_metas (ix # ixs) \<union> set (fst st)
      \<subseteq> set (fst (fold collect_instruction (ix # ixs) st))"
    using conjunct2 [OF r] sub by (simp add: U image_Un) blast
  with r show ?case unfolding S W by simp
qed

lemma collect_keys_ok:
  assumes "collect_keys ixs payer = (ks, ss, ws)"
  shows "collected_ok (ks, ss, ws) (signer_keys payer (all_metas ixs)) (writable_keys payer (all_metas ixs))"
    and "ix_program_id ` set ixs \<union> meta_pubkey ` all_metas ixs \<union> {payer} \<subseteq> set ks"
proof -
  have "collected_ok ([payer], [0], [0]) {payer} {payer}" by (simp add: index_of_def)
  from collect_instructions_ok [OF this, of ixs] assms
  show "collected_ok (ks, ss, ws) (signer_keys payer (all_metas ixs)) (writable_keys payer (all_metas ixs))"
    and "ix_program_id ` set ixs \<union> meta_pubkey ` all_metas ixs \<union> {payer} \<subseteq> set ks"
    by (simp_all only: collect_keys_def signer_keys_def writable_keys_def insert_is_Un [symmetric]) auto
qed

section \<open>The round trip\<close>

lemma filter_map_map_total:
  "(\<And>x. x \<in> set xs \<Longrightarrow> f (h x) = Some (g x)) \<Longrightarrow> filter_map f (map h xs) = map g xs"
  by (induction xs) auto

text \<open>What decompiling should give: the same instruction, its accounts with the privileges they have
  anywhere in the transaction.\<close>

definition widen_meta :: "pubkey \<Rightarrow> instruction list \<Rightarrow> account_meta \<Rightarrow> account_meta" where
  "widen_meta payer ixs m = m\<lparr>
     is_signer := meta_pubkey m \<in> signer_keys payer (all_metas ixs),
     is_writable := meta_pubkey m \<in> writable_keys payer (all_metas ixs)\<rparr>"

definition widen :: "pubkey \<Rightarrow> instruction list \<Rightarrow> instruction \<Rightarrow> instruction" where
  "widen payer ixs ix = ix\<lparr>ix_accounts := map (widen_meta payer ixs) (ix_accounts ix)\<rparr>"

lemma index_of_unat:
  assumes "k \<in> set ks"
  shows "unat (index_of ks k) = the (position k ks) mod 256"
  by (simp add: index_of_def unat_of_nat take_bit_eq_mod)

lemma index_of_resolves:
  assumes "k \<in> set ks" and "length ks \<le> 256"
  shows "get ks (unat (index_of ks k)) = Some k"
proof -
  obtain p where p: "position k ks = Some p" using assms(1) by (metis option.exhaust position_None_iff)
  then have "p < length ks" "ks ! p = k" by (auto dest: position_Some)
  then show ?thesis using p assms by (simp add: index_of_unat get_def)
qed

lemma index_of_inj: "length ks \<le> 256 \<Longrightarrow> inj_on (index_of ks) (set ks)"
  by (rule inj_onI) (metis index_of_resolves option.inject)

lemma traverse_account_index:
  assumes "meta_pubkey ` set ms \<subseteq> set ks"
  shows "traverse (account_index ks) ms = Inr (map (\<lambda>m. index_of ks (meta_pubkey m)) ms)"
proof (rule traverse_total)
  fix m
  assume "m \<in> set ms"
  then have "meta_pubkey m \<in> set ks" using assms by blast
  then obtain p where "position (meta_pubkey m) ks = Some p" by (metis option.exhaust position_None_iff)
  then show "account_index ks m = Inr (index_of ks (meta_pubkey m))"
    by (simp add: account_index_def index_of_def)
qed

lemma compile_instruction_eq:
  assumes "ix_program_id ix \<in> set ks" and "meta_pubkey ` set (ix_accounts ix) \<subseteq> set ks"
  shows "compile_instruction ks ix = (case instruction_validate ix of Inl e \<Rightarrow> Inl e
    | Inr _ \<Rightarrow> Inr \<lparr>program_id_index = index_of ks (ix_program_id ix),
        ci_accounts = map (\<lambda>m. index_of ks (meta_pubkey m)) (ix_accounts ix), ci_data = ix_data ix\<rparr>)"
proof -
  obtain p where "position (ix_program_id ix) ks = Some p"
    using assms(1) by (metis option.exhaust position_None_iff)
  then show ?thesis
    using traverse_account_index [OF assms(2)]
    by (simp add: compile_instruction_def index_of_def split: sum.split)
qed

text \<open>The batch a successful compilation builds, index by index.\<close>

lemma compile_shape:
  assumes "compile ixs payer bh = Inr b"
  shows "collected_ok (account_keys b, signer_indices b, writable_indices b)
      (signer_keys payer (all_metas ixs)) (writable_keys payer (all_metas ixs))"
    and "ix_program_id ` set ixs \<union> meta_pubkey ` all_metas ixs \<union> {payer} \<subseteq> set (account_keys b)"
    and "batch_instructions b = map (\<lambda>ix. \<lparr>program_id_index = index_of (account_keys b) (ix_program_id ix),
        ci_accounts = map (\<lambda>m. index_of (account_keys b) (meta_pubkey m)) (ix_accounts ix),
        ci_data = ix_data ix\<rparr>) ixs"
    and "\<And>ix. ix \<in> set ixs \<Longrightarrow> instruction_validate ix = Inr ()"
proof -
  obtain ks ss ws where c: "collect_keys ixs payer = (ks, ss, ws)" by (cases "collect_keys ixs payer")
  note k = collect_keys_ok [OF c]
  obtain cs where cs: "traverse (compile_instruction ks) ixs = Inr cs"
    and b: "account_keys b = ks" "signer_indices b = ss" "writable_indices b = ws" "batch_instructions b = cs"
    using assms c by (auto simp: compile_def split: sum.splits)
  have sub: "ix_program_id ix \<in> set ks" "meta_pubkey ` set (ix_accounts ix) \<subseteq> set ks" if "ix \<in> set ixs" for ix
    using k(2) that by (auto simp: all_metas_def)
  have each: "instruction_validate ix = Inr ()
      \<and> compile_instruction ks ix = Inr \<lparr>program_id_index = index_of ks (ix_program_id ix),
        ci_accounts = map (\<lambda>m. index_of ks (meta_pubkey m)) (ix_accounts ix), ci_data = ix_data ix\<rparr>"
    if ix: "ix \<in> set ixs" for ix
  proof -
    obtain i where "i < length ixs" "ixs ! i = ix" using ix by (auto simp: in_set_conv_nth)
    then obtain c where "compile_instruction ks ix = Inr c" using traverse_Inr [OF cs] by auto
    then show ?thesis using compile_instruction_eq [OF sub [OF ix]] by (auto split: sum.splits)
  qed
  show "collected_ok (account_keys b, signer_indices b, writable_indices b)
      (signer_keys payer (all_metas ixs)) (writable_keys payer (all_metas ixs))"
    and "ix_program_id ` set ixs \<union> meta_pubkey ` all_metas ixs \<union> {payer} \<subseteq> set (account_keys b)"
    using k b by auto
  have "traverse (compile_instruction ks) ixs = Inr (map (\<lambda>ix. \<lparr>program_id_index = index_of ks (ix_program_id ix),
        ci_accounts = map (\<lambda>m. index_of ks (meta_pubkey m)) (ix_accounts ix), ci_data = ix_data ix\<rparr>) ixs)"
    using each by (intro traverse_total) blast
  then show "batch_instructions b = map (\<lambda>ix. \<lparr>program_id_index = index_of (account_keys b) (ix_program_id ix),
        ci_accounts = map (\<lambda>m. index_of (account_keys b) (meta_pubkey m)) (ix_accounts ix),
        ci_data = ix_data ix\<rparr>) ixs"
    using b cs by simp
  show "\<And>ix. ix \<in> set ixs \<Longrightarrow> instruction_validate ix = Inr ()" using each by blast
qed

lemma decompile_account_index:
  assumes ok: "collected_ok (account_keys b, signer_indices b, writable_indices b) S W"
    and k: "k \<in> set (account_keys b)" and len: "length (account_keys b) \<le> 256"
  shows "decompile_account b (index_of (account_keys b) k) =
     Some \<lparr>meta_pubkey = k, is_signer = k \<in> S, is_writable = k \<in> W\<rparr>"
proof -
  have "index_of (account_keys b) k \<in> index_of (account_keys b) ` T \<longleftrightarrow> k \<in> T"
    if "T \<subseteq> set (account_keys b)" for T
    using that k inj_on_image_mem_iff [OF index_of_inj [OF len]] by blast
  then show ?thesis using ok index_of_resolves [OF k len] by (simp add: decompile_account_def)
qed

text \<open>
  C26. Compiling a transaction and decompiling the batch gives the instructions back, program ids, data
  and account order unchanged, each account with the union of the privileges it is given anywhere
  in the transaction (the payer always signer and writable), provided the transaction names at
  most 256 distinct keys.
\<close>

theorem compile_decompile:
  assumes "compile ixs payer bh = Inr b" and "length (account_keys b) \<le> 256"
  shows "decompile_batch b = map (widen payer ixs) ixs"
proof -
  note s = compile_shape [OF assms(1)]
  have "decompile_instruction b \<lparr>program_id_index = index_of (account_keys b) (ix_program_id ix),
        ci_accounts = map (\<lambda>m. index_of (account_keys b) (meta_pubkey m)) (ix_accounts ix),
        ci_data = ix_data ix\<rparr> = widen payer ixs ix" if ix: "ix \<in> set ixs" for ix
  proof -
    have "meta_pubkey m \<in> set (account_keys b)" if "m \<in> set (ix_accounts ix)" for m
      using s(2) that ix by (auto simp: all_metas_def)
    then have "filter_map (decompile_account b) (map (\<lambda>m. index_of (account_keys b) (meta_pubkey m)) (ix_accounts ix))
        = map (widen_meta payer ixs) (ix_accounts ix)"
      by (intro filter_map_map_total) (simp add: decompile_account_index [OF s(1) _ assms(2)] widen_meta_def)
    moreover have "ix_program_id ix \<in> set (account_keys b)" using s(2) ix by blast
    ultimately show ?thesis
      by (simp add: decompile_instruction_def widen_def index_of_resolves [OF _ assms(2)])
  qed
  then show ?thesis unfolding decompile_batch_def s(3) by simp
qed

lemma compile_total:
  assumes "\<And>ix. ix \<in> set ixs \<Longrightarrow> instruction_validate ix = Inr ()"
  shows "\<exists>b. compile ixs payer bh = Inr b \<and> account_keys b = fst (collect_keys ixs payer)"
proof -
  obtain ks ss ws where c: "collect_keys ixs payer = (ks, ss, ws)" by (cases "collect_keys ixs payer")
  note k = collect_keys_ok [OF c]
  have sub: "ix_program_id ix \<in> set ks" "meta_pubkey ` set (ix_accounts ix) \<subseteq> set ks" if "ix \<in> set ixs" for ix
    using k(2) that by (auto simp: all_metas_def)
  have "\<exists>cs. traverse (compile_instruction ks) ixs = Inr cs"
    by (rule exI, rule traverse_total) (simp add: compile_instruction_eq [OF sub] assms)
  then show ?thesis using c by (auto simp: compile_def)
qed

text \<open>One instruction that names the payer twice, once as a plain readonly account.\<close>

definition small_tx :: "instruction list" where
  "small_tx = [instruction_new 2 [meta_writable 5, meta_readonly 9] [1, 2]]"

theorem compile_decompile_witness:
  "\<exists>b. compile small_tx 9 0 = Inr b \<and> length (account_keys b) \<le> 256
     \<and> decompile_batch b = map (widen 9 small_tx) small_tx"
proof -
  obtain b where b: "compile small_tx 9 0 = Inr b" "account_keys b = fst (collect_keys small_tx 9)"
    using compile_total [of small_tx 9 0]
    by (auto simp: small_tx_def instruction_validate_def instruction_new_def
        MAX_ACCOUNTS_PER_INSTRUCTION_def MAX_INSTRUCTION_DATA_SIZE_def)
  have "length (account_keys b) \<le> 256"
    by (simp add: b(2) small_tx_def collect_keys_def collect_instruction_def instruction_new_def
        meta_writable_def meta_readonly_def)
  with compile_decompile [OF b(1)] b(1) show ?thesis by blast
qed

section \<open>More than 256 keys\<close>

lemma collect_meta_append: "\<exists>ks'. fst (collect_meta m st) = fst st @ ks'"
  by (cases st) (auto split: option.split)

lemma collect_metas_append: "\<exists>ks'. fst (fold collect_meta ms st) = fst st @ ks'"
proof (induction ms arbitrary: st)
  case (Cons m ms)
  then show ?case using collect_meta_append [of m st] by (metis append.assoc fold_simps(2))
qed simp

lemma collect_instruction_append: "\<exists>ks'. fst (collect_instruction ix st) = fst st @ ks'"
proof -
  obtain ks' where "fst (collect_program (ix_program_id ix) st) = fst st @ ks'"
    by (cases st) (metis append_Nil2 collect_program.simps fst_conv)
  then show ?thesis
    using collect_metas_append [of "ix_accounts ix" "collect_program (ix_program_id ix) st"]
    by (auto simp: collect_instruction_def)
qed

lemma collect_instructions_append: "\<exists>ks'. fst (fold collect_instruction ixs st) = fst st @ ks'"
proof (induction ixs arbitrary: st)
  case (Cons ix ixs)
  then show ?case using collect_instruction_append [of ix st] by (metis append.assoc fold_simps(2))
qed simp

lemma payer_first:
  assumes "compile ixs payer bh = Inr b"
  shows "account_keys b ! 0 = payer" and "account_keys b \<noteq> []"
proof -
  have "account_keys b = fst (collect_keys ixs payer)"
    using assms by (auto simp: compile_def split: prod.splits sum.splits)
  then obtain ks' where "account_keys b = payer # ks'"
    using collect_instructions_append [of ixs "([payer], [0], [0])"] by (auto simp: collect_keys_def)
  then show "account_keys b ! 0 = payer" and "account_keys b \<noteq> []" by simp_all
qed

lemma decompile_account_total:
  assumes "k \<in> set (account_keys b)"
  shows "\<exists>m. decompile_account b (index_of (account_keys b) k) = Some m"
proof -
  obtain p where p: "position k (account_keys b) = Some p"
    using assms by (metis option.exhaust position_None_iff)
  then have "p < length (account_keys b)" by (auto dest: position_Some)
  then have "p mod 256 < length (account_keys b)" using mod_less_eq_dividend [of p 256] by linarith
  then show ?thesis using p assms by (simp add: decompile_account_def index_of_unat get_def)
qed

lemma decompile_nth:
  assumes c: "compile ixs payer bh = Inr b" and i: "i < length ixs" and j: "j < length (ix_accounts (ixs ! i))"
  shows "decompile_account b (index_of (account_keys b) (meta_pubkey (ix_accounts (ixs ! i) ! j)))
     = Some (ix_accounts (decompile_batch b ! i) ! j)"
proof -
  note s = compile_shape [OF c]
  have "meta_pubkey m \<in> set (account_keys b)" if "m \<in> set (ix_accounts (ixs ! i))" for m
    using s(2) that nth_mem [OF i] by (auto simp: all_metas_def)
  then have each: "decompile_account b (index_of (account_keys b) (meta_pubkey m))
      = Some (the (decompile_account b (index_of (account_keys b) (meta_pubkey m))))"
    if "m \<in> set (ix_accounts (ixs ! i))" for m
    using decompile_account_total that by force
  have "ix_accounts (decompile_batch b ! i)
      = map (\<lambda>m. the (decompile_account b (index_of (account_keys b) (meta_pubkey m)))) (ix_accounts (ixs ! i))"
    unfolding decompile_batch_def s(3)
    using i each by (simp add: decompile_instruction_def) (rule filter_map_map_total, blast)
  then show ?thesis using each j by simp
qed

text \<open>
  Indices are cast to eight bits: in a transaction with more than 256 distinct keys, the account
  whose key is the 257th is decompiled as the fee payer, marked as a writable signer. Compilation
  does not refuse such a transaction.
\<close>

theorem compile_wraps_to_payer:
  assumes "compile ixs payer bh = Inr b" and "i < length ixs" and "j < length (ix_accounts (ixs ! i))"
    and "position (meta_pubkey (ix_accounts (ixs ! i) ! j)) (account_keys b) = Some 256"
  shows "ix_accounts (decompile_batch b ! i) ! j
    = \<lparr>meta_pubkey = payer, is_signer = True, is_writable = True\<rparr>"
proof -
  note s = compile_shape [OF assms(1)]
  note p = payer_first [OF assms(1)]
  have "position payer (account_keys b) = Some 0"
    using p by (cases "account_keys b") auto
  then have "index_of (account_keys b) payer = 0" by (simp add: index_of_def)
  then have "0 \<in> set (signer_indices b)" "0 \<in> set (writable_indices b)"
    using s(1) by (force simp: signer_keys_def writable_keys_def)+
  moreover have "index_of (account_keys b) (meta_pubkey (ix_accounts (ixs ! i) ! j)) = 0"
    using assms(4) by (simp add: index_of_def)
  ultimately show ?thesis
    using decompile_nth [OF assms(1-3)] p by (simp add: decompile_account_def get_def)
qed

text \<open>Four instructions of 64 accounts each, with the keys 1 to 256, paid for by the key 0.\<close>

definition wide_instruction :: "nat \<Rightarrow> instruction" where
  "wide_instruction i =
     instruction_new 0 (map (\<lambda>k. meta_readonly (of_nat k)) [64 * i + 1 ..< 64 * i + 65]) []"

definition wide_tx :: "instruction list" where
  "wide_tx = map wide_instruction [0, 1, 2, 3]"

lemma collect_metas_fresh:
  assumes "distinct (map meta_pubkey ms)" and "set (map meta_pubkey ms) \<inter> set (fst st) = {}"
  shows "fst (fold collect_meta ms st) = fst st @ map meta_pubkey ms"
  using assms
proof (induction ms arbitrary: st)
  case (Cons m ms)
  have "fst (collect_meta m st) = fst st @ [meta_pubkey m]"
    using Cons.prems(2) by (cases st) (auto simp: position_absent)
  then show ?case using Cons.IH [of "collect_meta m st"] Cons.prems by auto
qed simp

lemma of_nat_key_eq: "a < 2 ^ 256 \<Longrightarrow> b < 2 ^ 256 \<Longrightarrow> (of_nat a :: pubkey) = of_nat b \<longleftrightarrow> a = b"
  by (auto simp: word_unat_eq_iff unat_of_nat take_bit_eq_mod)

lemma wide_instruction_keys:
  assumes "i < 4" and "fst st = map of_nat [0 ..< 64 * i + 1]"
  shows "fst (collect_instruction (wide_instruction i) st) = map of_nat [0 ..< 64 * i + 65]"
proof -
  have "(of_nat 0 :: pubkey) \<in> of_nat ` set [0 ..< 64 * i + 1]" by (rule imageI) (simp del: upt_Suc)
  then have "0 \<in> set (fst st)" unfolding assms(2) set_map by simp
  then have p: "collect_program 0 st = st" by (cases st) simp
  let ?ms = "map (\<lambda>k. meta_readonly (of_nat k)) [64 * i + 1 ..< 64 * i + 65]"
  have m: "map meta_pubkey ?ms = map of_nat [64 * i + 1 ..< 64 * i + 65]"
    by (simp add: meta_readonly_def)
  have d: "distinct (map meta_pubkey ?ms)" unfolding m
    using assms(1) by (auto simp: distinct_map inj_on_def of_nat_key_eq)
  have f: "set (map meta_pubkey ?ms) \<inter> set (fst st) = {}" unfolding m assms(2)
    using assms(1) by (auto simp: of_nat_key_eq simp del: upt_Suc of_nat_mult of_nat_add)
  have "fst (fold collect_meta ?ms st) = map of_nat [0 ..< 64 * i + 1] @ map of_nat [64 * i + 1 ..< 64 * i + 65]"
    using collect_metas_fresh [OF d f] m assms(2) by simp
  also have "\<dots> = map of_nat [0 ..< 64 * i + 65]"
  proof -
    have "[0 ..< 64 * i + 65] = [0 ..< 64 * i + 1] @ [64 * i + 1 ..< 64 * i + 1 + 64]"
      using upt_add_eq_append [of 0 "64 * i + 1" 64] by (simp add: ac_simps del: upt_Suc)
    then show ?thesis by (simp add: ac_simps del: upt_Suc)
  qed
  finally show ?thesis by (simp add: collect_instruction_def wide_instruction_def instruction_new_def p)
qed

lemma wide_tx_keys: "fst (collect_keys wide_tx 0) = map of_nat [0 ..< 257]"
proof -
  let ?s = "([0], [0], [0]) :: collected"
  have "fst ?s = map of_nat [0 ..< 64 * 0 + 1]" by simp
  note a = wide_instruction_keys [OF _ this]
  note b = wide_instruction_keys [of 1 "collect_instruction (wide_instruction 0) ?s"]
  note c = wide_instruction_keys [of 2 "collect_instruction (wide_instruction 1) (collect_instruction (wide_instruction 0) ?s)"]
  note d = wide_instruction_keys [of 3 "collect_instruction (wide_instruction 2) (collect_instruction (wide_instruction 1) (collect_instruction (wide_instruction 0) ?s))"]
  show ?thesis using a b c d by (simp add: collect_keys_def wide_tx_def del: upt_Suc)
qed

lemma wide_tx_valid: "ix \<in> set wide_tx \<Longrightarrow> instruction_validate ix = Inr ()"
  by (auto simp: wide_tx_def wide_instruction_def instruction_validate_def instruction_new_def
      MAX_ACCOUNTS_PER_INSTRUCTION_def MAX_INSTRUCTION_DATA_SIZE_def simp del: upt_Suc)

theorem compile_wraps_to_payer_witness:
  "\<exists>b. compile wide_tx 0 0 = Inr b \<and> meta_pubkey (ix_accounts (wide_tx ! 3) ! 63) = 256
     \<and> ix_accounts (decompile_batch b ! 3) ! 63 = \<lparr>meta_pubkey = 0, is_signer = True, is_writable = True\<rparr>"
proof -
  obtain b where b: "compile wide_tx 0 0 = Inr b" "account_keys b = fst (collect_keys wide_tx 0)"
    using compile_total [OF wide_tx_valid, where payer = 0 and bh = 0] by blast
  have j: "63 < length (ix_accounts (wide_tx ! 3))" and i: "3 < length wide_tx"
    by (simp_all add: wide_tx_def wide_instruction_def instruction_new_def)
  have k: "meta_pubkey (ix_accounts (wide_tx ! 3) ! 63) = of_nat 256"
    by (simp add: wide_tx_def wide_instruction_def instruction_new_def meta_readonly_def del: upt_Suc)
  have "distinct (map of_nat [0 ..< 257] :: pubkey list)"
    by (auto simp: distinct_map inj_on_def of_nat_key_eq)
  then have "position (of_nat 256) (account_keys b) = Some 256"
    using position_nth [of "map of_nat [0 ..< 257]" 256] by (simp add: b(2) wide_tx_keys del: upt_Suc)
  then show ?thesis
    using compile_wraps_to_payer [OF b(1) i j] k b(1) by simp
qed

end
