(* ===== verification/Pda.thy ===== *)
theory Pda
  imports Instructions
begin

text \<open>
  \<^verbatim>\<open>crates/dchat-programs/src/pda.rs\<close>: program-derived addresses. The hash function (\<^verbatim>\<open>blake3\<close>) and
  the test whether 32 bytes decompress to an Ed25519 point (\<^verbatim>\<open>curve25519-dalek\<close>) are the fields of a
  \<open>crypto\<close> record that every definition using them takes; no fact about them is assumed here.
\<close>

record crypto =
  blake3 :: "u8 list \<Rightarrow> hash32"
  decompresses :: "hash32 \<Rightarrow> bool"

definition string_bytes :: "string \<Rightarrow> u8 list" where
  "string_bytes s = map of_char s"

definition MAX_SEEDS :: nat where "MAX_SEEDS = 16"
definition MAX_SEED_LEN :: nat where "MAX_SEED_LEN = 32"

record program_derived_address =
  pda_address :: pubkey
  pda_bump :: u8

definition is_on_curve :: "crypto \<Rightarrow> hash32 \<Rightarrow> bool" where
  "is_on_curve c bytes = decompresses c bytes"

fun seeds_fit :: "u8 list list \<Rightarrow> bool" where
  "seeds_fit [] = True"
| "seeds_fit (s # ss) = (\<not> MAX_SEED_LEN < length s \<and> seeds_fit ss)"

definition validate_seeds :: "u8 list list \<Rightarrow> unit program_result" where
  "validate_seeds seeds =
     (if MAX_SEEDS < length seeds then Inl InvalidSeeds
      else if \<not> seeds_fit seeds then Inl InvalidSeeds
      else Inr ())"

definition pda_preimage :: "u8 list list \<Rightarrow> pubkey \<Rightarrow> u8 \<Rightarrow> u8 list" where
  "pda_preimage seeds program_id bump =
     concat seeds @ as_bytes program_id @ [bump] @ string_bytes ''ProgramDerivedAddress''"

definition create_program_address_internal ::
    "crypto \<Rightarrow> u8 list list \<Rightarrow> pubkey \<Rightarrow> u8 \<Rightarrow> pubkey program_result" where
  "create_program_address_internal c seeds program_id bump =
     (let bytes = blake3 c (pda_preimage seeds program_id bump) in
      if is_on_curve c bytes then Inl InvalidSeeds else Inr bytes)"

fun try_bumps ::
    "crypto \<Rightarrow> u8 list list \<Rightarrow> pubkey \<Rightarrow> u8 list \<Rightarrow> program_derived_address program_result" where
  "try_bumps c seeds program_id [] = Inl InvalidSeeds"
| "try_bumps c seeds program_id (bump # bumps) =
     (case create_program_address_internal c seeds program_id bump of
        Inr address \<Rightarrow> Inr \<lparr>pda_address = address, pda_bump = bump\<rparr>
      | Inl e \<Rightarrow> if e = InvalidSeeds then try_bumps c seeds program_id bumps else Inl e)"

text \<open>\<^verbatim>\<open>(0..=255u8).rev()\<close>\<close>

definition all_bumps :: "u8 list" where
  "all_bumps = rev (map of_nat [0..<256])"

definition find_program_address ::
    "crypto \<Rightarrow> u8 list list \<Rightarrow> pubkey \<Rightarrow> program_derived_address program_result" where
  "find_program_address c seeds program_id =
     (case validate_seeds seeds of Inl e \<Rightarrow> Inl e
      | Inr _ \<Rightarrow> try_bumps c seeds program_id all_bumps)"

definition create_program_address :: "crypto \<Rightarrow> u8 list list \<Rightarrow> pubkey \<Rightarrow> pubkey program_result" where
  "create_program_address c seeds program_id =
     (case validate_seeds seeds of Inl e \<Rightarrow> Inl e
      | Inr _ \<Rightarrow>
         (if seeds = [] then Inl InvalidSeeds
          else if length (last seeds) \<noteq> 1 then Inl InvalidSeeds
          else create_program_address_internal c (butlast seeds) program_id (hd (last seeds))))"

definition create_program_address_with_bump ::
    "crypto \<Rightarrow> u8 list list \<Rightarrow> pubkey \<Rightarrow> u8 \<Rightarrow> pubkey program_result" where
  "create_program_address_with_bump c seeds program_id bump =
     (case validate_seeds seeds of Inl e \<Rightarrow> Inl e
      | Inr _ \<Rightarrow> create_program_address_internal c seeds program_id bump)"

definition derive_associated_token_address ::
    "crypto \<Rightarrow> pubkey \<Rightarrow> pubkey \<Rightarrow> pubkey \<Rightarrow> pubkey \<Rightarrow> program_derived_address program_result" where
  "derive_associated_token_address c wallet mint token_program ata_program =
     find_program_address c [as_bytes wallet, as_bytes token_program, as_bytes mint] ata_program"

definition derive_sharded_fee_vault ::
    "crypto \<Rightarrow> pubkey \<Rightarrow> u64 \<Rightarrow> u16 \<Rightarrow> program_derived_address program_result" where
  "derive_sharded_fee_vault c program_id epoch shard =
     find_program_address c [string_bytes ''fee_vault'', le_bytes 8 epoch, le_bytes 2 shard] program_id"

definition derive_sharded_counter ::
    "crypto \<Rightarrow> pubkey \<Rightarrow> string \<Rightarrow> u64 \<Rightarrow> u16 \<Rightarrow> program_derived_address program_result" where
  "derive_sharded_counter c program_id counter_name epoch shard =
     find_program_address c [string_bytes ''counter'', string_bytes counter_name,
       le_bytes 8 epoch, le_bytes 2 shard] program_id"

definition derive_user_account ::
    "crypto \<Rightarrow> pubkey \<Rightarrow> string \<Rightarrow> pubkey \<Rightarrow> program_derived_address program_result" where
  "derive_user_account c program_id account_type user =
     find_program_address c [string_bytes account_type, as_bytes user] program_id"

definition derive_program_state :: "crypto \<Rightarrow> pubkey \<Rightarrow> program_derived_address program_result" where
  "derive_program_state c program_id = find_program_address c [string_bytes ''state''] program_id"

definition create_signer_seeds :: "u8 list list \<Rightarrow> u8 \<Rightarrow> u8 list list" where
  "create_signer_seeds base_seeds bump = base_seeds @ [bump # []]"

section \<open>Correctness\<close>

lemma seeds_fit_append [simp]: "seeds_fit (xs @ ys) \<longleftrightarrow> seeds_fit xs \<and> seeds_fit ys"
  by (induction xs) auto

lemma validate_seeds_ok_iff:
  "validate_seeds seeds = Inr () \<longleftrightarrow> length seeds \<le> MAX_SEEDS \<and> seeds_fit seeds"
  by (auto simp: validate_seeds_def)

lemma create_internal_cases:
  "create_program_address_internal c seeds pid b = Inl e \<Longrightarrow> e = InvalidSeeds"
  by (auto simp: create_program_address_internal_def Let_def split: if_splits)

lemma try_bumps_first:
  assumes "try_bumps c seeds pid bs = Inr pda"
  shows "\<exists>xs ys. bs = xs @ pda_bump pda # ys
    \<and> create_program_address_internal c seeds pid (pda_bump pda) = Inr (pda_address pda)
    \<and> (\<forall>x\<in>set xs. create_program_address_internal c seeds pid x = Inl InvalidSeeds)"
  using assms
proof (induction bs)
  case (Cons b bs)
  show ?case
  proof (cases "create_program_address_internal c seeds pid b")
    case (Inl e)
    then have e: "e = InvalidSeeds" by (rule create_internal_cases)
    with Inl Cons.prems obtain xs ys where "bs = xs @ pda_bump pda # ys"
      "create_program_address_internal c seeds pid (pda_bump pda) = Inr (pda_address pda)"
      "\<forall>x\<in>set xs. create_program_address_internal c seeds pid x = Inl InvalidSeeds"
      using Cons.IH by auto
    then show ?thesis using Inl e by (intro exI [of _ "b # xs"] exI [of _ ys]) auto
  next
    case (Inr a)
    then show ?thesis using Cons.prems by (intro exI [of _ "[]"] exI [of _ bs]) auto
  qed
qed simp

lemma try_bumps_none:
  "try_bumps c seeds pid bs = Inl e \<Longrightarrow>
     e = InvalidSeeds \<and> (\<forall>b\<in>set bs. create_program_address_internal c seeds pid b = Inl InvalidSeeds)"
proof (induction bs)
  case (Cons b bs)
  then show ?case
    using create_internal_cases [of c seeds pid b] by (auto split: sum.splits if_splits)
qed simp

lemma set_all_bumps: "set all_bumps = UNIV"
proof -
  have "unat b \<in> {0..<256}" for b :: u8
    using unsigned_less [of b, where ?'a = nat] by simp
  then have i: "of_nat (unat b) \<in> (of_nat ` {0..<256} :: u8 set)" for b :: u8 by (rule imageI)
  have "of_nat (unat b) = b" for b :: u8 by simp
  with i have "b \<in> of_nat ` {0..<256}" for b :: u8 by metis
  then show ?thesis unfolding all_bumps_def set_rev set_map set_upt by (rule UNIV_eq_I [symmetric])
qed

lemma all_bumps_before:
  assumes "all_bumps = xs @ b # ys" and "b < x"
  shows "x \<in> set xs"
proof -
  have srt: "sorted_wrt (\<lambda>x y. y < x) all_bumps"
    unfolding all_bumps_def sorted_wrt_rev sorted_wrt_map
    by (rule sorted_wrt_mono_rel [OF _ sorted_wrt_upt]) (auto simp: word_less_nat_alt unat_of_nat take_bit_eq_mod)
  have "x \<in> set (xs @ b # ys)" using assms(1) set_all_bumps by auto
  moreover have "\<forall>y\<in>set ys. y < b"
    using srt [unfolded assms(1)] by (simp add: sorted_wrt_append)
  ultimately show ?thesis using assms(2) by fastforce
qed

text \<open>
  A derived address is off the curve, and its bump is the highest one that gives an off-curve
  address; derivation fails only for seeds beyond the limits or when none of the 256 bumps gives
  an off-curve address.
\<close>

theorem find_program_address_highest:
  "(\<forall>pda. find_program_address c seeds pid = Inr pda \<longrightarrow>
      create_program_address_internal c seeds pid (pda_bump pda) = Inr (pda_address pda)
      \<and> \<not> is_on_curve c (pda_address pda)
      \<and> (\<forall>b > pda_bump pda. is_on_curve c (blake3 c (pda_preimage seeds pid b))))
   \<and> (\<forall>e. find_program_address c seeds pid = Inl e \<longrightarrow> e = InvalidSeeds
      \<and> (MAX_SEEDS < length seeds \<or> \<not> seeds_fit seeds
         \<or> (\<forall>b. is_on_curve c (blake3 c (pda_preimage seeds pid b)))))"
proof (intro conjI allI impI)
  fix pda
  assume "find_program_address c seeds pid = Inr pda"
  then have t: "try_bumps c seeds pid all_bumps = Inr pda"
    by (auto simp: find_program_address_def split: sum.splits)
  from try_bumps_first [OF this] obtain xs ys where s: "all_bumps = xs @ pda_bump pda # ys"
    and a: "create_program_address_internal c seeds pid (pda_bump pda) = Inr (pda_address pda)"
    and n: "\<forall>x\<in>set xs. create_program_address_internal c seeds pid x = Inl InvalidSeeds" by blast
  show "create_program_address_internal c seeds pid (pda_bump pda) = Inr (pda_address pda)" by (rule a)
  show "\<not> is_on_curve c (pda_address pda)"
    using a by (auto simp: create_program_address_internal_def Let_def split: if_splits)
  show "is_on_curve c (blake3 c (pda_preimage seeds pid b))" if "pda_bump pda < b" for b
    using n all_bumps_before [OF s that]
    by (auto simp: create_program_address_internal_def Let_def split: if_splits)
next
  fix e
  assume f: "find_program_address c seeds pid = Inl e"
  show "e = InvalidSeeds"
    using f by (auto simp: find_program_address_def validate_seeds_def split: sum.splits if_splits
        dest: try_bumps_none)
  show "MAX_SEEDS < length seeds \<or> \<not> seeds_fit seeds
      \<or> (\<forall>b. is_on_curve c (blake3 c (pda_preimage seeds pid b)))"
  proof (cases "validate_seeds seeds = Inr ()")
    case True
    then have "\<forall>b. create_program_address_internal c seeds pid b = Inl InvalidSeeds"
      using f try_bumps_none [of c seeds pid all_bumps e] set_all_bumps by (simp add: find_program_address_def)
    then show ?thesis by (auto simp: create_program_address_internal_def Let_def split: if_splits)
  qed (auto simp: validate_seeds_ok_iff)
qed

definition toy_crypto :: crypto where
  "toy_crypto = \<lparr>blake3 = (\<lambda>bs. of_nat (length bs)), decompresses = (\<lambda>_. False)\<rparr>"

text \<open>
  Signing for a derived address: the seeds that \<^verbatim>\<open>create_signer_seeds\<close> builds from the base seeds and
  the bump found re-create exactly the address found, for up to 15 base seeds; with 16, which
  \<^verbatim>\<open>find_program_address\<close> accepts, the extra seed makes the re-creation fail.
\<close>

theorem signer_seeds_recreate:
  assumes "find_program_address c seeds pid = Inr pda"
  shows "create_program_address c (create_signer_seeds seeds (pda_bump pda)) pid =
     (if length seeds < MAX_SEEDS then Inr (pda_address pda) else Inl InvalidSeeds)"
proof -
  have v: "length seeds \<le> MAX_SEEDS" "seeds_fit seeds"
    using assms by (auto simp: find_program_address_def validate_seeds_def split: sum.splits if_splits)
  have "try_bumps c seeds pid all_bumps = Inr pda"
    using assms by (auto simp: find_program_address_def split: sum.splits)
  from try_bumps_first [OF this]
  have "create_program_address_internal c seeds pid (pda_bump pda) = Inr (pda_address pda)" by blast
  then show ?thesis
    using v by (auto simp: create_program_address_def create_signer_seeds_def validate_seeds_def MAX_SEED_LEN_def)
qed

lemma all_bumps_Cons: "all_bumps = 255 # rev (map of_nat [0..<255])"
  using upt_Suc_append [of 0 255] by (simp add: all_bumps_def del: upt_Suc)

lemma toy_find: "find_program_address toy_crypto [string_bytes ''state''] 2
    = Inr \<lparr>pda_address = 59, pda_bump = 255\<rparr>"
  by (simp add: find_program_address_def validate_seeds_def MAX_SEEDS_def MAX_SEED_LEN_def all_bumps_Cons
      create_program_address_internal_def is_on_curve_def toy_crypto_def pda_preimage_def
      string_bytes_def as_bytes_def)

theorem signer_seeds_recreate_witness:
  "find_program_address toy_crypto [string_bytes ''state''] 2 = Inr \<lparr>pda_address = 59, pda_bump = 255\<rparr>
   \<and> create_program_address toy_crypto (create_signer_seeds [string_bytes ''state''] 255) 2 = Inr 59"
  using signer_seeds_recreate [OF toy_find] toy_find by (simp add: MAX_SEEDS_def)

theorem find_program_address_highest_witness:
  "\<not> is_on_curve toy_crypto 59"
  using find_program_address_highest [of toy_crypto "[string_bytes ''state'']" 2] toy_find by simp

end
