(* ===== verification/Bincode.thy ===== *)
theory Bincode
  imports Pda
begin

text \<open>
  The serializer the programs keep their account state with is the third-party crate \<^verbatim>\<open>bincode\<close>
  (1.3.3), so every definition that reads or writes account data takes the encoder and decoder
  as parameters. What the code relies on is the locale \<open>bincode_codec\<close>: encoding succeeds with a known
  size, decoding skips trailing bytes, a truncated encoding does not decode, and a decoded value
  was no longer than the input. A Rust
  \<^verbatim>\<open>String\<close> is its bytes; \<open>valid\<close> says of a value that its strings are UTF-8.

  To show that the laws can hold, the documented format (fixed-width little-endian integers,
  one-byte option and bool tags, four-byte enum tags, strings with an eight-byte length) is built
  from combinators, each with its round-trip proof; the component theories compose them for their
  types and interpret the locale on the result.
\<close>

locale bincode_codec =
  fixes enc :: "'a \<Rightarrow> u8 list option"
    and dec :: "u8 list \<Rightarrow> 'a option"
    and esize :: "'a \<Rightarrow> nat"
    and valid :: "'a \<Rightarrow> bool"
  assumes enc_total: "valid x \<Longrightarrow> \<exists>bs. enc x = Some bs \<and> length bs = esize x"
    and dec_enc: "valid x \<Longrightarrow> enc x = Some bs \<Longrightarrow> dec (bs @ rest) = Some x"
    and dec_short: "valid x \<Longrightarrow> enc x = Some bs \<Longrightarrow> n < length bs \<Longrightarrow> dec (take n bs) = None"
    and dec_valid: "dec bs = Some x \<Longrightarrow> valid x \<and> esize x \<le> length bs"
begin

text \<open>Storing into a fixed-size buffer, as \<^verbatim>\<open>to_bytes\<close> does with \<^verbatim>\<open>resize\<close>, loses nothing exactly when the
  encoding fits.\<close>

lemma dec_resized:
  assumes "valid x" and "enc x = Some bs"
  shows "dec (resize n 0 bs) = (if esize x \<le> n then Some x else None)"
proof -
  have len: "length bs = esize x" using enc_total [OF assms(1)] assms(2) by auto
  show ?thesis
  proof (cases "esize x \<le> n")
    case True
    then show ?thesis using dec_enc [OF assms] len by (simp add: resize_pads)
  next
    case False
    then show ?thesis using dec_short [OF assms, of n] len by (simp add: resize_def)
  qed
qed

lemma dec_exact: "valid x \<Longrightarrow> enc x = Some bs \<Longrightarrow> dec bs = Some x"
  using dec_enc [of x bs "[]"] by simp

end

section \<open>Prefix codecs\<close>

type_synonym 'a decoder = "u8 list \<Rightarrow> ('a \<times> u8 list) option"

definition prefix_codec :: "('a \<Rightarrow> u8 list) \<Rightarrow> 'a decoder \<Rightarrow> ('a \<Rightarrow> bool) \<Rightarrow> bool" where
  "prefix_codec e d ok \<longleftrightarrow>
     (\<forall>x rest. ok x \<longrightarrow> d (e x @ rest) = Some (x, rest))
     \<and> (\<forall>bs x r. d bs = Some (x, r) \<longrightarrow> ok x \<and> bs = e x @ r)"

lemma prefix_codecI:
  assumes "\<And>x rest. ok x \<Longrightarrow> d (e x @ rest) = Some (x, rest)"
    and "\<And>bs x r. d bs = Some (x, r) \<Longrightarrow> ok x \<and> bs = e x @ r"
  shows "prefix_codec e d ok"
  using assms unfolding prefix_codec_def by blast

lemma prefix_codecD:
  assumes "prefix_codec e d ok"
  shows "ok x \<Longrightarrow> d (e x @ rest) = Some (x, rest)"
    and "d bs = Some (x, r) \<Longrightarrow> ok x \<and> bs = e x @ r"
  using assms unfolding prefix_codec_def by blast+

lemma prefix_codec_bincode:
  assumes "prefix_codec e d ok" and "\<And>x. ok x \<Longrightarrow> length (e x) = s x"
  shows "bincode_codec (\<lambda>x. Some (e x)) (\<lambda>bs. map_option fst (d bs)) s ok"
proof
  note codec = prefix_codecD [OF assms(1)]
  fix x bs rest and n :: nat
  show "ok x \<Longrightarrow> \<exists>bs. Some (e x) = Some bs \<and> length bs = s x"
    using assms(2) by simp
  show "ok x \<Longrightarrow> Some (e x) = Some bs \<Longrightarrow> map_option fst (d (bs @ rest)) = Some x"
    using codec(1) by auto
  show "map_option fst (d bs) = Some x \<Longrightarrow> ok x \<and> s x \<le> length bs"
    using codec(2) assms(2) by fastforce
  assume v: "ok x" and b: "Some (e x) = Some bs" and n: "n < length bs"
  show "map_option fst (d (take n bs)) = None"
  proof (cases "d (take n bs)")
    case (Some yr)
    obtain y r where yr: "yr = (y, r)" by (cases yr)
    have y: "ok y" "take n bs = e y @ r" using codec(2) Some yr by blast+
    then have "bs = e y @ r @ drop n bs" by (metis append.assoc append_take_drop_id)
    then have "d bs = Some (y, r @ drop n bs)" using codec(1) [OF y(1), of "r @ drop n bs"] by simp
    moreover have "d bs = Some (x, [])" using codec(1) [OF v, of "[]"] b by simp
    ultimately show ?thesis using n by simp
  qed simp
qed

definition d_pair :: "'a decoder \<Rightarrow> 'b decoder \<Rightarrow> ('a \<times> 'b) decoder" where
  "d_pair da db bs = (case da bs of None \<Rightarrow> None
     | Some (a, r) \<Rightarrow> (case db r of None \<Rightarrow> None | Some (b, r') \<Rightarrow> Some ((a, b), r')))"

definition e_pair :: "('a \<Rightarrow> u8 list) \<Rightarrow> ('b \<Rightarrow> u8 list) \<Rightarrow> 'a \<times> 'b \<Rightarrow> u8 list" where
  "e_pair ea eb ab = ea (fst ab) @ eb (snd ab)"

lemma codec_pair:
  assumes "prefix_codec ea da oka" and "prefix_codec eb db okb"
  shows "prefix_codec (e_pair ea eb) (d_pair da db) (\<lambda>(a, b). oka a \<and> okb b)"
proof (rule prefix_codecI)
  fix x and rest :: "u8 list"
  assume "case x of (a, b) \<Rightarrow> oka a \<and> okb b"
  then show "d_pair da db (e_pair ea eb x @ rest) = Some (x, rest)"
    using prefix_codecD(1) [OF assms(1)] prefix_codecD(1) [OF assms(2)]
    by (cases x) (simp add: d_pair_def e_pair_def)
next
  fix bs :: "u8 list" and x r
  assume "d_pair da db bs = Some (x, r)"
  then obtain a q b where "da bs = Some (a, q)" "db q = Some (b, r)" "x = (a, b)"
    by (auto simp: d_pair_def split: option.splits prod.splits)
  then show "(case x of (a, b) \<Rightarrow> oka a \<and> okb b) \<and> bs = e_pair ea eb x @ r"
    using prefix_codecD(2) [OF assms(1)] prefix_codecD(2) [OF assms(2)] by (simp add: e_pair_def)
qed

text \<open>A record is encoded as the tuple of its fields.\<close>

definition d_map :: "('a \<Rightarrow> 'b) \<Rightarrow> 'a decoder \<Rightarrow> 'b decoder" where
  "d_map f d bs = map_option (\<lambda>(a, r). (f a, r)) (d bs)"

lemma codec_map:
  assumes "prefix_codec e d ok" and "\<And>b. f (g b) = b" and "\<And>a. ok a \<Longrightarrow> g (f a) = a"
  shows "prefix_codec (e \<circ> g) (d_map f d) (ok \<circ> g)"
proof (rule prefix_codecI)
  fix x and rest :: "u8 list"
  assume "(ok \<circ> g) x"
  then show "d_map f d ((e \<circ> g) x @ rest) = Some (x, rest)"
    using assms(2) prefix_codecD(1) [OF assms(1)] by (simp add: d_map_def)
next
  fix bs :: "u8 list" and x r
  assume "d_map f d bs = Some (x, r)"
  then obtain a where "d bs = Some (a, r)" "x = f a" by (auto simp: d_map_def)
  then show "(ok \<circ> g) x \<and> bs = (e \<circ> g) x @ r"
    using assms(3) prefix_codecD(2) [OF assms(1)] by simp
qed

section \<open>Primitive types\<close>

text \<open>\<open>n\<close> raw bytes.\<close>

definition d_bytes :: "nat \<Rightarrow> u8 list decoder" where
  "d_bytes n bs = (if length bs < n then None else Some (take n bs, drop n bs))"

lemma codec_bytes: "prefix_codec (\<lambda>x. x) (d_bytes n) (\<lambda>x. length x = n)"
  by (rule prefix_codecI) (auto simp: d_bytes_def split: if_splits)

lemma le_bytes_of_le_bytes:
  assumes "length bs = n" and "8 * n \<le> LENGTH('a::len)"
  shows "le_bytes n (of_le_bytes bs :: 'a word) = bs"
proof (rule nth_equalityI)
  fix i assume "i < length (le_bytes n (of_le_bytes bs :: 'a word))"
  then have i: "i < n" by simp
  show "le_bytes n (of_le_bytes bs :: 'a word) ! i = bs ! i"
  proof (rule bit_word_eqI)
    fix k assume k: "k < LENGTH(8)"
    have "(8 * i + k) div 8 = i" "(8 * i + k) mod 8 = k" using k by simp_all
    moreover have "8 * i + k < LENGTH('a)" using i k assms(2) by simp
    ultimately show "bit (le_bytes n (of_le_bytes bs :: 'a word) ! i) k = bit (bs ! i) k"
      using i k assms(1) by (simp add: le_bytes_def bit_ucast_iff bit_drop_bit_eq bit_of_le_bytes)
  qed
qed (simp add: assms)

definition d_word :: "nat \<Rightarrow> 'a::len word decoder" where
  "d_word n = d_map of_le_bytes (d_bytes n)"

lemma codec_word:
  assumes "LENGTH('a::len) = 8 * n"
  shows "prefix_codec (le_bytes n) (d_word n :: 'a word decoder) (\<lambda>_. True)"
proof -
  have "prefix_codec ((\<lambda>x. x) \<circ> le_bytes n) (d_word n :: 'a word decoder) ((\<lambda>x. length x = n) \<circ> le_bytes n)"
    unfolding d_word_def using assms
    by (intro codec_map codec_bytes) (simp_all add: of_le_bytes_le_bytes le_bytes_of_le_bytes)
  then show ?thesis by (simp add: o_def)
qed

definition d_key :: "pubkey decoder" where
  "d_key = d_map (of_le_bytes \<circ> rev) (d_bytes 32)"

lemma length_as_bytes: "length (as_bytes pk) = 32"
  by (simp add: as_bytes_def)

lemma codec_key: "prefix_codec as_bytes d_key (\<lambda>_. True)"
proof -
  have "prefix_codec ((\<lambda>x. x) \<circ> as_bytes) d_key ((\<lambda>x. length x = 32) \<circ> as_bytes)"
    unfolding d_key_def
    by (intro codec_map codec_bytes)
      (simp_all add: as_bytes_def of_le_bytes_le_bytes le_bytes_of_le_bytes)
  then show ?thesis by (simp add: o_def length_as_bytes)
qed

definition d_bool :: "bool decoder" where
  "d_bool bs = (case bs of [] \<Rightarrow> None
     | b # r \<Rightarrow> if b = 0 then Some (False, r) else if b = 1 then Some (True, r) else None)"

definition e_bool :: "bool \<Rightarrow> u8 list" where
  "e_bool b = [bool_byte b]"

lemma codec_bool: "prefix_codec e_bool d_bool (\<lambda>_. True)"
  by (rule prefix_codecI) (auto simp: d_bool_def e_bool_def bool_byte_def split: list.splits if_splits)

definition d_option :: "'a decoder \<Rightarrow> 'a option decoder" where
  "d_option d bs = (case bs of [] \<Rightarrow> None
     | b # r \<Rightarrow> if b = 0 then Some (None, r) else if b = 1 then d_map Some d r else None)"

definition e_option :: "('a \<Rightarrow> u8 list) \<Rightarrow> 'a option \<Rightarrow> u8 list" where
  "e_option e x = (case x of None \<Rightarrow> [0] | Some a \<Rightarrow> 1 # e a)"

lemma codec_option:
  assumes "prefix_codec e d ok"
  shows "prefix_codec (e_option e) (d_option d) (\<lambda>x. case x of None \<Rightarrow> True | Some a \<Rightarrow> ok a)"
proof (rule prefix_codecI)
  fix x and rest :: "u8 list"
  assume "case x of None \<Rightarrow> True | Some a \<Rightarrow> ok a"
  then show "d_option d (e_option e x @ rest) = Some (x, rest)"
    using prefix_codecD(1) [OF assms] by (cases x) (simp_all add: d_option_def e_option_def d_map_def)
next
  fix bs :: "u8 list" and x r
  assume "d_option d bs = Some (x, r)"
  then show "(case x of None \<Rightarrow> True | Some a \<Rightarrow> ok a) \<and> bs = e_option e x @ r"
    using prefix_codecD(2) [OF assms]
    by (fastforce simp: d_option_def e_option_def d_map_def split: list.splits if_splits)
qed

text \<open>Strings; the ASCII ones are the UTF-8 strings the concrete codec accepts.\<close>

definition ascii :: "string \<Rightarrow> bool" where
  "ascii s = list_all (\<lambda>c. (of_char c :: nat) < 128) s"

definition e_string :: "string \<Rightarrow> u8 list" where
  "e_string s = le_bytes 8 (of_nat (length s) :: u64) @ map of_char s"

definition d_string :: "string decoder" where
  "d_string bs = (case (d_word 8 :: u64 decoder) bs of None \<Rightarrow> None
     | Some (n, r) \<Rightarrow>
        (case d_bytes (unat n) r of None \<Rightarrow> None
         | Some (cs, r') \<Rightarrow>
            (let s = map (\<lambda>b. char_of (unat b)) cs in
             if ascii s then Some (s, r') else None)))"

definition string_ok :: "string \<Rightarrow> bool" where
  "string_ok s = (ascii s \<and> length s < 2 ^ 64)"

lemma unat_of_char: "unat (of_char c :: u8) = (of_char c :: nat)"
proof -
  have "(of_char c :: u8) = of_nat (of_char c)" by (simp only: of_nat_of_char)
  then show ?thesis using of_char_mod_256 [of c, where ?'a = nat] by (simp add: unat_of_nat)
qed

lemma char_of_byte: "char_of (unat (of_char c :: u8)) = c"
  by (simp only: unat_of_char char_of_char)

lemma byte_of_char: "of_char (char_of (unat b)) = (b :: u8)"
proof -
  have "unat b < 256" using unsigned_less [of b, where ?'a = nat] by simp
  then have "(of_char (char_of (unat b)) :: nat) = unat b" by simp
  then show ?thesis by (metis unat_of_char word_unat_eq_iff)
qed

lemmas codec_len = prefix_codecD [OF codec_word [of 8, where ?'a = 64], simplified]
lemmas codec_tag_word = prefix_codecD [OF codec_word [of 4, where ?'a = 32], simplified]

lemma codec_string: "prefix_codec e_string d_string string_ok"
proof (rule prefix_codecI)
  fix s :: string and rest :: "u8 list"
  assume ok: "string_ok s"
  have "unat (of_nat (length s) :: u64) = length s"
    using ok by (simp add: string_ok_def unat_of_nat)
  moreover have "map (\<lambda>b. char_of (unat b)) (map of_char s :: u8 list) = s"
    by (simp add: o_def char_of_byte)
  ultimately show "d_string (e_string s @ rest) = Some (s, rest)"
    using ok by (simp add: d_string_def e_string_def d_bytes_def string_ok_def codec_len)
next
  fix bs :: "u8 list" and s r
  assume "d_string bs = Some (s, r)"
  then obtain n q cs where n: "(d_word 8 :: u64 decoder) bs = Some (n, q)"
    and cs: "d_bytes (unat n) q = Some (cs, r)" "s = map (\<lambda>b. char_of (unat b)) cs" "ascii s"
    by (auto simp: d_string_def Let_def split: option.splits prod.splits if_splits)
  have len: "length cs = unat n" and q: "q = cs @ r"
    using cs(1) by (auto simp: d_bytes_def split: if_splits)
  have "map of_char s = cs" using cs(2) by (simp add: o_def byte_of_char del: of_char_of)
  moreover have "(of_nat (length s) :: u64) = n" using cs(2) len by simp
  ultimately show "string_ok s \<and> bs = e_string s @ r"
    using codec_len(2) [OF n] cs(2,3) len q unsigned_less [of n, where ?'a = nat]
    by (simp add: string_ok_def e_string_def)
qed

lemma length_e_string: "length (e_string s) = 8 + length s"
  by (simp add: e_string_def)

text \<open>A four-byte enum tag.\<close>

definition d_tag :: "('a \<times> u32) list \<Rightarrow> 'a decoder" where
  "d_tag tags bs = (case (d_word 4 :: u32 decoder) bs of None \<Rightarrow> None
     | Some (n, r) \<Rightarrow> (case map_of (map prod.swap tags) n of None \<Rightarrow> None | Some x \<Rightarrow> Some (x, r)))"

definition e_tag :: "('a \<times> u32) list \<Rightarrow> 'a \<Rightarrow> u8 list" where
  "e_tag tags x = le_bytes 4 (the (map_of tags x))"

lemma codec_tag:
  assumes "distinct (map fst tags)" and "distinct (map snd tags)" and "\<And>x. x \<in> fst ` set tags"
  shows "prefix_codec (e_tag tags) (d_tag tags) (\<lambda>_. True)"
proof (rule prefix_codecI)
  fix x and rest :: "u8 list"
  obtain n where n: "(x, n) \<in> set tags" using assms(3) [of x] by auto
  have "map_of tags x = Some n" using n assms(1) by simp
  moreover have "map_of (map prod.swap tags) n = Some x"
    using n assms(2) by (intro map_of_is_SomeI) (auto simp: o_def)
  ultimately show "d_tag tags (e_tag tags x @ rest) = Some (x, rest)"
    by (simp add: d_tag_def e_tag_def codec_tag_word)
next
  fix bs :: "u8 list" and x r
  assume "d_tag tags bs = Some (x, r)"
  then obtain n where n: "(d_word 4 :: u32 decoder) bs = Some (n, r)" "(x, n) \<in> set tags"
    by (auto simp: d_tag_def split: option.splits dest!: map_of_SomeD)
  then show "True \<and> bs = e_tag tags x @ r"
    using codec_tag_word(2) [OF n(1)] assms(1) by (simp add: e_tag_def)
qed

lemma length_e_tag [simp]: "length (e_tag tags x) = 4"
  by (simp add: e_tag_def)

end
