(* ===== verification/Native_Programs.thy ===== *)
theory Native_Programs
  imports Bincode
begin

text \<open>
  What the native programs share. A processor (\<^verbatim>\<open>process(instruction, accounts, meter)\<close>) gets the
  accounts of the instruction as distinct mutable references and the compute meter, and what it has
  written stays written when it returns an error, so it yields the result together with the
  accounts and the meter it leaves behind. The locale \<open>native_processor\<close> is what the runtime relies
  on: the accounts stay the same accounts in the same order, the meter stays within its budget,
  and a successful instruction neither creates nor destroys motes.
\<close>

type_synonym native_result = "unit program_result \<times> account list \<times> compute_meter"

text \<open>\<^verbatim>\<open>bincode::serialize\<close> and \<^verbatim>\<open>bincode::deserialize\<close> at one type.\<close>

record 'a codec =
  serialize :: "'a \<Rightarrow> u8 list option"
  deserialize :: "u8 list \<Rightarrow> 'a option"

text \<open>\<^verbatim>\<open>meter.consume(units)?\<close>\<close>

definition charge :: "u64 \<Rightarrow> account list \<Rightarrow> compute_meter \<Rightarrow> (compute_meter \<Rightarrow> native_result) \<Rightarrow> native_result" where
  "charge units accs m k =
     (case consume units m of (Inl e, m') \<Rightarrow> (Inl e, accs, m') | (Inr _, m') \<Rightarrow> k m')"

lemma charge_cases:
  "charge units accs m k =
     (if remaining m < units then (Inl ComputeBudgetExceeded, accs, m)
      else k (m\<lparr>remaining := remaining m - units, consumed := consumed m + units\<rparr>))"
  by (simp add: charge_def consume_def)

section \<open>Totals and identity of the accounts\<close>

definition motes_total :: "account list \<Rightarrow> nat" where
  "motes_total accs = sum_list (map (unat \<circ> acc_motes) accs)"

definition identity :: "account \<Rightarrow> pubkey \<times> bool \<times> u64 \<times> account_state" where
  "identity a = (acc_key a, acc_executable a, acc_rent_epoch a, acc_state a)"

text \<open>No instruction can change these parts of an account.\<close>

definition same_accounts :: "account list \<Rightarrow> account list \<Rightarrow> bool" where
  "same_accounts accs accs' = (map identity accs' = map identity accs)"

lemma same_accounts_refl [simp]: "same_accounts accs accs"
  by (simp add: same_accounts_def)

lemma same_accounts_trans [trans]:
  "same_accounts a b \<Longrightarrow> same_accounts b c \<Longrightarrow> same_accounts a c"
  by (simp add: same_accounts_def)

lemma same_accounts_length: "same_accounts a b \<Longrightarrow> length b = length a"
  unfolding same_accounts_def by (metis length_map)

lemma same_accounts_keys: "same_accounts a b \<Longrightarrow> map acc_key b = map acc_key a"
  unfolding same_accounts_def identity_def by (metis (mono_tags, lifting) fst_conv list.map_comp map_eq_conv o_apply)

lemma same_accounts_update:
  assumes "same_accounts accs accs'" and "i < length accs'" and "identity a = identity (accs' ! i)"
  shows "same_accounts accs (accs'[i := a])"
  using assms unfolding same_accounts_def by (metis list_update_id map_update nth_map)

lemma motes_total_update:
  assumes "i < length accs"
  shows "motes_total (accs[i := a]) + unat (acc_motes (accs ! i)) = motes_total accs + unat (acc_motes a)"
  using assms
proof (induction accs arbitrary: i)
  case (Cons x xs)
  then show ?case by (cases i) (auto simp: motes_total_def)
qed simp

lemma motes_total_keep:
  "acc_motes a = acc_motes (accs ! i) \<Longrightarrow> motes_total (accs[i := a]) = motes_total accs"
  using motes_total_update [of i accs a] by (cases "i < length accs") (simp_all add: list_update_beyond)

lemma motes_le_total:
  assumes "i < length accs"
  shows "unat (acc_motes (accs ! i)) \<le> motes_total accs"
proof -
  have "unat (acc_motes (accs ! i)) \<in> set (map (unat \<circ> acc_motes) accs)" using assms by auto
  then show ?thesis unfolding motes_total_def by (rule member_le_sum_list) simp
qed

lemma two_motes_le_total:
  assumes "i < length accs" and "j < length accs" and "i \<noteq> j"
  shows "unat (acc_motes (accs ! i)) + unat (acc_motes (accs ! j)) \<le> motes_total accs"
  using motes_total_update [OF assms(1), of "(accs ! i)\<lparr>acc_motes := 0\<rparr>"]
    motes_le_total [of j "accs[i := (accs ! i)\<lparr>acc_motes := 0\<rparr>]"] assms by simp

section \<open>Moving motes between the first two accounts\<close>

text \<open>The \<^verbatim>\<open>checked_sub\<close> then \<^verbatim>\<open>checked_add\<close> sequence of the mote-moving handlers: the debit is already
  written when the credit overflows.\<close>

definition move_motes ::
    "u64 \<Rightarrow> account list \<Rightarrow> compute_meter \<Rightarrow> (account list \<Rightarrow> native_result) \<Rightarrow> native_result" where
  "move_motes motes accs m k =
     (case checked_sub (acc_motes (accs ! 0)) motes of
        None \<Rightarrow> (Inl ArithmeticOverflow, accs, m)
      | Some f \<Rightarrow>
         (let accs' = accs[0 := (accs ! 0)\<lparr>acc_motes := f\<rparr>] in
          case checked_add (acc_motes (accs' ! 1)) motes of
            None \<Rightarrow> (Inl ArithmeticOverflow, accs', m)
          | Some t \<Rightarrow> k (accs'[1 := (accs' ! 1)\<lparr>acc_motes := t\<rparr>])))"

definition moved :: "u64 \<Rightarrow> account list \<Rightarrow> account list" where
  "moved motes accs = accs[0 := (accs ! 0)\<lparr>acc_motes := acc_motes (accs ! 0) - motes\<rparr>,
     1 := (accs ! 1)\<lparr>acc_motes := acc_motes (accs ! 1) + motes\<rparr>]"

lemma move_motes_ok:
  assumes "motes \<le> acc_motes (accs ! 0)" and "unat (acc_motes (accs ! 1)) + unat motes < 2 ^ 64"
  shows "move_motes motes accs m k = k (moved motes accs)"
  using assms by (simp add: move_motes_def moved_def checked_sub_def checked_add_def)

lemma move_motes_cases:
  assumes "move_motes motes accs m k = (r, accs', m')"
  obtains (ok) "motes \<le> acc_motes (accs ! 0)" "unat (acc_motes (accs ! 1)) + unat motes < 2 ^ 64"
      "k (moved motes accs) = (r, accs', m')"
    | (short) "acc_motes (accs ! 0) < motes" "r = Inl ArithmeticOverflow" "accs' = accs" "m' = m"
    | (overflow) "motes \<le> acc_motes (accs ! 0)" "2 ^ 64 \<le> unat (acc_motes (accs ! 1)) + unat motes"
      "r = Inl ArithmeticOverflow" "m' = m"
  using assms unfolding move_motes_def moved_def checked_sub_def checked_add_def Let_def
  by (fastforce split: if_splits)

lemma moved_same:
  assumes "2 \<le> length accs"
  shows "same_accounts accs (moved motes accs)"
  unfolding moved_def using assms
  by (intro same_accounts_update same_accounts_refl) (auto simp: identity_def)

lemma moved_total:
  assumes "2 \<le> length accs" and "motes \<le> acc_motes (accs ! 0)"
    and "unat (acc_motes (accs ! 1)) + unat motes < 2 ^ 64"
  shows "motes_total (moved motes accs) = motes_total accs"
proof -
  let ?a = "accs[0 := (accs ! 0)\<lparr>acc_motes := acc_motes (accs ! 0) - motes\<rparr>]"
  have "motes_total ?a + unat (acc_motes (accs ! 0)) = motes_total accs + unat (acc_motes (accs ! 0) - motes)"
    using motes_total_update [of 0 accs] assms(1) by force
  moreover have "motes_total (moved motes accs) + unat (acc_motes (accs ! 1))
      = motes_total ?a + unat (acc_motes (accs ! 1) + motes)"
    using motes_total_update [of 1 ?a "(accs ! 1)\<lparr>acc_motes := acc_motes (accs ! 1) + motes\<rparr>"] assms(1)
    by (simp add: moved_def)
  ultimately show ?thesis
    using assms(2,3) unat_sub_no_underflow [OF assms(2)] unat_add_no_overflow [of "acc_motes (accs ! 1)" motes]
    by (simp add: word_le_nat_alt)
qed

text \<open>The credit cannot overflow when all motes together fit a \<^verbatim>\<open>u64\<close>.\<close>

lemma move_motes_fits:
  assumes "motes_total accs < 2 ^ 64" and "2 \<le> length accs" and "motes \<le> acc_motes (accs ! 0)"
  shows "unat (acc_motes (accs ! 1)) + unat motes < 2 ^ 64"
proof -
  have "0 < length accs" "1 < length accs" using assms(2) by auto
  then show ?thesis using two_motes_le_total [of 0 accs 1] assms by (simp add: word_le_nat_alt)
qed

section \<open>The contract of a native program\<close>

locale native_processor =
  fixes proc :: "'ix \<Rightarrow> account list \<Rightarrow> compute_meter \<Rightarrow> native_result"
  assumes proc_same: "proc ix accs m = (r, accs', m') \<Longrightarrow> same_accounts accs accs'"
    and proc_meter: "proc ix accs m = (r, accs', m') \<Longrightarrow> meter_ok m \<Longrightarrow>
      meter_ok m' \<and> budget m' = budget m \<and> remaining m' \<le> remaining m"
    and proc_total: "proc ix accs m = (Inr (), accs', m') \<Longrightarrow> motes_total accs' = motes_total accs"
    and proc_error: "proc ix accs m = (Inl e, accs', m') \<Longrightarrow> motes_total accs < 2 ^ 64 \<Longrightarrow> accs' = accs"
begin

text \<open>A sequence of instructions on the same accounts, stopping at the first error.\<close>

fun run :: "'ix list \<Rightarrow> account list \<Rightarrow> compute_meter \<Rightarrow> native_result" where
  "run [] accs m = (Inr (), accs, m)"
| "run (ix # ixs) accs m = (case proc ix accs m of (Inl e, st) \<Rightarrow> (Inl e, st) | (Inr _, accs', m') \<Rightarrow> run ixs accs' m')"

lemma run_contract:
  assumes "run ixs accs m = (r, accs', m')"
  shows "same_accounts accs accs'"
    and "meter_ok m \<Longrightarrow> meter_ok m' \<and> budget m' = budget m \<and> remaining m' \<le> remaining m"
    and "r = Inr () \<or> motes_total accs < 2 ^ 64 \<Longrightarrow> motes_total accs' = motes_total accs"
proof (atomize (full), insert assms, induction ixs arbitrary: accs m)
  case (Cons ix ixs)
  obtain r1 accs1 m1 where p: "proc ix accs m = (r1, accs1, m1)" by (cases "proc ix accs m") auto
  note contract = proc_same [OF p] proc_meter [OF p]
  show ?case
  proof (cases r1)
    case (Inl e)
    then show ?thesis using Cons.prems p contract proc_error [of ix accs m e accs1 m1] by auto
  next
    case (Inr u)
    then have "run ixs accs1 m1 = (r, accs', m')" "motes_total accs1 = motes_total accs"
      using Cons.prems p proc_total [of ix accs m accs1 m1] by simp_all
    with Cons.IH [of accs1 m1] have
      "same_accounts accs1 accs'" "meter_ok m1 \<Longrightarrow> meter_ok m' \<and> budget m' = budget m1 \<and> remaining m' \<le> remaining m1"
      "r = Inr () \<or> motes_total accs < 2 ^ 64 \<Longrightarrow> motes_total accs' = motes_total accs" by simp_all
    moreover have "same_accounts accs accs'" using contract(1) calculation(1) by (rule same_accounts_trans)
    ultimately show ?thesis using contract(2) by (auto intro: order_trans)
  qed
qed simp

end

section \<open>Establishing the contract\<close>

text \<open>The four laws for one call, with a rule for each way a handler ends or goes on.\<close>

definition within_contract :: "account list \<Rightarrow> compute_meter \<Rightarrow> native_result \<Rightarrow> bool" where
  "within_contract accs m res = (case res of (r, accs', m') \<Rightarrow>
     same_accounts accs accs'
     \<and> (meter_ok m \<longrightarrow> meter_ok m' \<and> budget m' = budget m \<and> remaining m' \<le> remaining m)
     \<and> (r = Inr () \<longrightarrow> motes_total accs' = motes_total accs)
     \<and> ((\<exists>e. r = Inl e) \<longrightarrow> motes_total accs < 2 ^ 64 \<longrightarrow> accs' = accs))"

lemma within_error [simp, intro]: "within_contract accs m (Inl e, accs, m)"
  by (simp add: within_contract_def)

lemma within_skip [simp, intro]: "within_contract accs m (Inr (), accs, m)"
  by (simp add: within_contract_def)

lemma within_set [intro]:
  assumes "i < length accs" and "identity a = identity (accs ! i)" and "acc_motes a = acc_motes (accs ! i)"
  shows "within_contract accs m (Inr (), accs[i := a], m)"
  using assms same_accounts_update [of accs accs i a] motes_total_keep [of a accs i]
  by (simp add: within_contract_def)

lemma within_set_two [intro]:
  assumes "i < length accs" and "identity a = identity (accs ! i)" and "acc_motes a = acc_motes (accs ! i)"
    and "j < length accs" and "identity b = identity (accs ! j)" and "acc_motes b = acc_motes (accs ! j)"
    and "i \<noteq> j"
  shows "within_contract accs m (Inr (), accs[i := a, j := b], m)"
  using assms same_accounts_update [of accs accs i a] same_accounts_update [of accs "accs[i := a]" j b]
    motes_total_keep [of a accs i] motes_total_keep [of b "accs[i := a]" j]
  by (simp add: within_contract_def)

lemma within_charge [intro]:
  assumes "\<And>m'. within_contract accs m' (k m')"
  shows "within_contract accs m (charge units accs m k)"
proof -
  obtain r m' where c: "consume units m = (r, m')" by (cases "consume units m")
  note ok = consume_meter_ok [OF c]
  show ?thesis
  proof (cases r)
    case (Inl e)
    then show ?thesis using ok c by (auto simp: charge_def within_contract_def)
  next
    case (Inr u)
    obtain r2 accs2 m2 where k: "k m' = (r2, accs2, m2)" by (cases "k m'") auto
    then show ?thesis
      using ok c Inr assms [of m'] by (auto simp: charge_def within_contract_def)
  qed
qed

lemma within_move [intro]:
  assumes len: "2 \<le> length accs"
    and rest: "\<And>accs1. same_accounts accs accs1 \<Longrightarrow> motes_total accs1 = motes_total accs \<Longrightarrow>
      \<exists>accs2. k accs1 = (Inr (), accs2, m) \<and> within_contract accs1 m (Inr (), accs2, m)"
  shows "within_contract accs m (move_motes motes accs m k)"
proof -
  obtain r accs' m' where res: "move_motes motes accs m k = (r, accs', m')"
    by (cases "move_motes motes accs m k") auto
  from res show ?thesis
  proof (cases rule: move_motes_cases)
    case ok
    note keeps = moved_same [OF len, of motes] moved_total [OF len ok(1,2)]
    obtain accs2 where "k (moved motes accs) = (Inr (), accs2, m)"
      "within_contract (moved motes accs) m (Inr (), accs2, m)"
      using rest [OF keeps] by blast
    then show ?thesis
      using ok res keeps same_accounts_trans by (auto simp: within_contract_def)
  next
    case short
    then show ?thesis using res by (simp add: within_contract_def)
  next
    case overflow
    then have accs': "accs' = accs[0 := (accs ! 0)\<lparr>acc_motes := acc_motes (accs ! 0) - motes\<rparr>]"
      using res by (auto simp: move_motes_def checked_sub_def checked_add_def)
    have "same_accounts accs accs'"
      unfolding accs' using len by (intro same_accounts_update) (auto simp: identity_def)
    then show ?thesis
      using res overflow move_motes_fits [OF _ len overflow(1)] by (auto simp: within_contract_def)
  qed
qed

lemma native_processorI:
  assumes "\<And>ix accs m. within_contract accs m (proc ix accs m)"
  shows "native_processor proc"
proof
  fix ix accs m r accs' m' e
  show "proc ix accs m = (r, accs', m') \<Longrightarrow> same_accounts accs accs'"
    and "proc ix accs m = (r, accs', m') \<Longrightarrow> meter_ok m \<Longrightarrow>
      meter_ok m' \<and> budget m' = budget m \<and> remaining m' \<le> remaining m"
    and "proc ix accs m = (Inr (), accs', m') \<Longrightarrow> motes_total accs' = motes_total accs"
    and "proc ix accs m = (Inl e, accs', m') \<Longrightarrow> motes_total accs < 2 ^ 64 \<Longrightarrow> accs' = accs"
    using assms [where ix = ix and accs = accs and m = m] by (simp_all add: within_contract_def)
qed

end
