(* ===== verification/System_Program.thy ===== *)
theory System_Program
  imports Native_Programs
begin

text \<open>
  \<^verbatim>\<open>crates/dchat-programs/src/system_program.rs\<close>: account creation, mote transfers, ownership, space
  and nonce accounts. The hash function and the \<^verbatim>\<open>bincode\<close> codecs of the nonce state and of the
  instructions are parameters. The processor sees accounts and no signer flags: which keys signed is
  not among its arguments. \<^verbatim>\<open>space * 10\<close> wraps.
\<close>

definition MOTES_PER_BYTE_YEAR :: u64 where "MOTES_PER_BYTE_YEAR = 3480"
definition EPOCHS_PER_YEAR :: u64 where "EPOCHS_PER_YEAR = 182"

definition minimum_balance :: "nat \<Rightarrow> u64" where
  "minimum_balance len =
     (let total_size = of_nat (len + 128) in total_size * MOTES_PER_BYTE_YEAR * 2 div EPOCHS_PER_YEAR)"

datatype system_instruction =
    CreateAccount u64 u64 pubkey
  | Assign pubkey
  | SystemTransfer u64
  | CreateAccountWithSeed pubkey string u64 u64 pubkey
  | Allocate u64
  | AllocateWithSeed pubkey string u64 pubkey
  | AssignWithSeed pubkey string pubkey
  | TransferWithSeed u64 string pubkey
  | AdvanceNonceAccount
  | WithdrawNonceAccount u64
  | InitializeNonceAccount pubkey
  | AuthorizeNonceAccount pubkey
  | UpgradeNonceAccount

definition system_to_bytes :: "system_instruction codec \<Rightarrow> system_instruction \<Rightarrow> u8 list" where
  "system_to_bytes sc ix = (case serialize sc ix of None \<Rightarrow> [] | Some bs \<Rightarrow> bs)"

definition system_from_bytes :: "system_instruction codec \<Rightarrow> u8 list \<Rightarrow> system_instruction program_result" where
  "system_from_bytes sc bs =
     (case deserialize sc bs of None \<Rightarrow> Inl InvalidInstructionData | Some ix \<Rightarrow> Inr ix)"

section \<open>Instruction builders\<close>

definition system_ix :: "system_instruction codec \<Rightarrow> account_meta list \<Rightarrow> system_instruction \<Rightarrow> instruction" where
  "system_ix sc metas ix =
     \<lparr>ix_program_id = SYSTEM_PROGRAM_ID, ix_accounts = metas, ix_data = system_to_bytes sc ix\<rparr>"

definition create_account ::
    "system_instruction codec \<Rightarrow> pubkey \<Rightarrow> pubkey \<Rightarrow> u64 \<Rightarrow> u64 \<Rightarrow> pubkey \<Rightarrow> instruction" where
  "create_account sc from to motes space owner =
     system_ix sc [meta_new from True, meta_new to True] (CreateAccount motes space owner)"

definition transfer :: "system_instruction codec \<Rightarrow> pubkey \<Rightarrow> pubkey \<Rightarrow> u64 \<Rightarrow> instruction" where
  "transfer sc from to motes =
     system_ix sc [meta_new from True, meta_new to False] (SystemTransfer motes)"

definition assign :: "system_instruction codec \<Rightarrow> pubkey \<Rightarrow> pubkey \<Rightarrow> instruction" where
  "assign sc account owner = system_ix sc [meta_new account True] (Assign owner)"

definition allocate :: "system_instruction codec \<Rightarrow> pubkey \<Rightarrow> u64 \<Rightarrow> instruction" where
  "allocate sc account space = system_ix sc [meta_new account True] (Allocate space)"

definition create_account_with_seed ::
    "system_instruction codec \<Rightarrow> pubkey \<Rightarrow> pubkey \<Rightarrow> pubkey \<Rightarrow> string \<Rightarrow> u64 \<Rightarrow> u64 \<Rightarrow> pubkey \<Rightarrow> instruction" where
  "create_account_with_seed sc from to base seed motes space owner =
     system_ix sc [meta_new from True, meta_new to False, meta_new_readonly base True]
       (CreateAccountWithSeed base seed motes space owner)"

definition initialize_nonce_account :: "system_instruction codec \<Rightarrow> pubkey \<Rightarrow> pubkey \<Rightarrow> instruction" where
  "initialize_nonce_account sc nonce_account authority =
     system_ix sc [meta_new nonce_account False, meta_new_readonly SYSVAR_RECENT_BLOCKHASHES_ID False,
         meta_new_readonly SYSVAR_RENT_ID False]
       (InitializeNonceAccount authority)"

definition advance_nonce_account :: "system_instruction codec \<Rightarrow> pubkey \<Rightarrow> pubkey \<Rightarrow> instruction" where
  "advance_nonce_account sc nonce_account authority =
     system_ix sc [meta_new nonce_account False, meta_new_readonly SYSVAR_RECENT_BLOCKHASHES_ID False,
         meta_new_readonly authority True]
       AdvanceNonceAccount"

section \<open>Nonce state\<close>

record nonce_state =
  ns_initialized :: bool
  ns_authority :: pubkey
  ns_nonce :: hash32
  ns_fee :: u64

definition NONCE_SIZE :: nat where "NONCE_SIZE = 1 + 32 + 32 + 8"

definition nonce_from_bytes :: "nonce_state codec \<Rightarrow> u8 list \<Rightarrow> nonce_state program_result" where
  "nonce_from_bytes nc bs =
     (case deserialize nc bs of None \<Rightarrow> Inl InvalidAccountData | Some s \<Rightarrow> Inr s)"

definition nonce_to_bytes :: "nonce_state codec \<Rightarrow> nonce_state \<Rightarrow> u8 list" where
  "nonce_to_bytes nc s = (case serialize nc s of None \<Rightarrow> [] | Some bs \<Rightarrow> bs)"

definition create_with_seed :: "crypto \<Rightarrow> pubkey \<Rightarrow> string \<Rightarrow> pubkey \<Rightarrow> pubkey program_result" where
  "create_with_seed c base seed program_id =
     (if 32 < length seed then Inl SeedTooLong
      else Inr (blake3 c (as_bytes base @ string_bytes seed @ as_bytes program_id)))"

section \<open>The handlers\<close>

definition process_create_account ::
    "u64 \<Rightarrow> u64 \<Rightarrow> pubkey \<Rightarrow> account list \<Rightarrow> compute_meter \<Rightarrow> native_result" where
  "process_create_account motes space owner accs m =
     (if length accs < 2 then (Inl NotEnoughAccountKeys, accs, m)
      else charge (space * 10) accs m (\<lambda>m.
        if acc_motes (accs ! 0) < motes then (Inl InsufficientFunds, accs, m)
        else if \<not> data_is_empty (acc_data (accs ! 1)) \<or> acc_motes (accs ! 1) > 0
        then (Inl AccountAlreadyInitialized, accs, m)
        else if space > of_nat MAX_ACCOUNT_SIZE then (Inl InvalidAccountDataSize, accs, m)
        else if motes < minimum_balance (unat space) then (Inl AccountNotRentExempt, accs, m)
        else move_motes motes accs m (\<lambda>accs.
          (Inr (), accs[1 := (accs ! 1)\<lparr>
             acc_data := set_from_bytes (replicate (unat space) 0) (acc_data (accs ! 1)),
             acc_owner := owner\<rparr>], m))))"

definition process_transfer :: "u64 \<Rightarrow> account list \<Rightarrow> compute_meter \<Rightarrow> native_result" where
  "process_transfer motes accs m =
     (if length accs < 2 then (Inl NotEnoughAccountKeys, accs, m)
      else if acc_motes (accs ! 0) < motes then (Inl InsufficientFunds, accs, m)
      else if acc_owner (accs ! 0) \<noteq> SYSTEM_PROGRAM_ID then (Inl InvalidAccountOwner, accs, m)
      else move_motes motes accs m (\<lambda>accs. (Inr (), accs, m)))"

definition process_assign :: "pubkey \<Rightarrow> account list \<Rightarrow> compute_meter \<Rightarrow> native_result" where
  "process_assign owner accs m =
     (if accs = [] then (Inl NotEnoughAccountKeys, accs, m)
      else if acc_owner (accs ! 0) \<noteq> SYSTEM_PROGRAM_ID then (Inl InvalidAccountOwner, accs, m)
      else (Inr (), accs[0 := (accs ! 0)\<lparr>acc_owner := owner\<rparr>], m))"

definition process_allocate :: "u64 \<Rightarrow> account list \<Rightarrow> compute_meter \<Rightarrow> native_result" where
  "process_allocate space accs m =
     (if accs = [] then (Inl NotEnoughAccountKeys, accs, m)
      else charge (space * 10) accs m (\<lambda>m.
        if acc_owner (accs ! 0) \<noteq> SYSTEM_PROGRAM_ID then (Inl InvalidAccountOwner, accs, m)
        else if \<not> data_is_empty (acc_data (accs ! 0)) then (Inl AccountDataNotEmpty, accs, m)
        else if space > of_nat MAX_ACCOUNT_SIZE then (Inl InvalidAccountDataSize, accs, m)
        else (Inr (), accs[0 := (accs ! 0)\<lparr>
          acc_data := set_from_bytes (replicate (unat space) 0) (acc_data (accs ! 0))\<rparr>], m)))"

definition set_nonce :: "nonce_state codec \<Rightarrow> nonce_state \<Rightarrow> account \<Rightarrow> account" where
  "set_nonce nc s a = a\<lparr>acc_data := set_from_bytes (nonce_to_bytes nc s) (acc_data a)\<rparr>"

definition process_advance_nonce ::
    "crypto \<Rightarrow> nonce_state codec \<Rightarrow> account list \<Rightarrow> compute_meter \<Rightarrow> native_result" where
  "process_advance_nonce c nc accs m =
     (if accs = [] then (Inl NotEnoughAccountKeys, accs, m)
      else charge 50 accs m (\<lambda>m.
        if data_len (acc_data (accs ! 0)) < NONCE_SIZE then (Inl InvalidAccountData, accs, m)
        else case nonce_from_bytes nc (data_bytes (acc_data (accs ! 0))) of
          Inl e \<Rightarrow> (Inl e, accs, m)
        | Inr s \<Rightarrow>
           (if \<not> ns_initialized s then (Inl AccountNotInitialized, accs, m)
            else let s' = s\<lparr>ns_nonce := blake3 c (as_bytes (ns_nonce s) @ le_bytes 8 (ns_fee s))\<rparr> in
              (Inr (), accs[0 := set_nonce nc s' (accs ! 0)], m))))"

definition process_withdraw_nonce :: "u64 \<Rightarrow> account list \<Rightarrow> compute_meter \<Rightarrow> native_result" where
  "process_withdraw_nonce motes accs m =
     (if length accs < 2 then (Inl NotEnoughAccountKeys, accs, m)
      else if data_len (acc_data (accs ! 0)) < NONCE_SIZE then (Inl InvalidAccountData, accs, m)
      else case checked_sub (acc_motes (accs ! 0)) motes of
        None \<Rightarrow> (Inl ArithmeticOverflow, accs, m)
      | Some left \<Rightarrow>
         (if left < minimum_balance (data_len (acc_data (accs ! 0))) then (Inl AccountNotRentExempt, accs, m)
          else move_motes motes accs m (\<lambda>accs. (Inr (), accs, m))))"

text \<open>Not already initialised: an account with data must decode, to an uninitialised state.\<close>

definition nonce_already :: "nonce_state codec \<Rightarrow> account \<Rightarrow> unit program_result" where
  "nonce_already nc a =
     (if data_is_empty (acc_data a) then Inr ()
      else case nonce_from_bytes nc (data_bytes (acc_data a)) of
        Inl e \<Rightarrow> Inl e
      | Inr existing \<Rightarrow> if ns_initialized existing then Inl AccountAlreadyInitialized else Inr ())"

definition process_initialize_nonce ::
    "nonce_state codec \<Rightarrow> pubkey \<Rightarrow> account list \<Rightarrow> compute_meter \<Rightarrow> native_result" where
  "process_initialize_nonce nc authority accs m =
     (if accs = [] then (Inl NotEnoughAccountKeys, accs, m)
      else charge 100 accs m (\<lambda>m.
        case nonce_already nc (accs ! 0) of
          Inl e \<Rightarrow> (Inl e, accs, m)
        | Inr _ \<Rightarrow>
           (let a = accs ! 0;
                a = (if data_len (acc_data a) < NONCE_SIZE
                     then a\<lparr>acc_data := data_resize NONCE_SIZE 0 (acc_data a)\<rparr> else a);
                s = \<lparr>ns_initialized = True, ns_authority = authority, ns_nonce = 0, ns_fee = 5000\<rparr>
            in (Inr (), accs[0 := set_nonce nc s a], m))))"

definition process_authorize_nonce ::
    "nonce_state codec \<Rightarrow> pubkey \<Rightarrow> account list \<Rightarrow> compute_meter \<Rightarrow> native_result" where
  "process_authorize_nonce nc new_authority accs m =
     (if accs = [] then (Inl NotEnoughAccountKeys, accs, m)
      else if data_len (acc_data (accs ! 0)) < NONCE_SIZE then (Inl InvalidAccountData, accs, m)
      else case nonce_from_bytes nc (data_bytes (acc_data (accs ! 0))) of
        Inl e \<Rightarrow> (Inl e, accs, m)
      | Inr s \<Rightarrow>
         (if \<not> ns_initialized s then (Inl AccountNotInitialized, accs, m)
          else (Inr (), accs[0 := set_nonce nc (s\<lparr>ns_authority := new_authority\<rparr>) (accs ! 0)], m)))"

definition system_process ::
    "crypto \<Rightarrow> nonce_state codec \<Rightarrow> system_instruction \<Rightarrow> account list \<Rightarrow> compute_meter \<Rightarrow> native_result" where
  "system_process c nc ix accs m =
     charge 100 accs m (\<lambda>m.
       case ix of
         CreateAccount motes space owner \<Rightarrow> process_create_account motes space owner accs m
       | SystemTransfer motes \<Rightarrow> process_transfer motes accs m
       | Assign owner \<Rightarrow> process_assign owner accs m
       | Allocate space \<Rightarrow> process_allocate space accs m
       | CreateAccountWithSeed base seed motes space owner \<Rightarrow>
           process_create_account motes space owner accs m
       | AdvanceNonceAccount \<Rightarrow> process_advance_nonce c nc accs m
       | WithdrawNonceAccount motes \<Rightarrow> process_withdraw_nonce motes accs m
       | InitializeNonceAccount authority \<Rightarrow> process_initialize_nonce nc authority accs m
       | AuthorizeNonceAccount new_authority \<Rightarrow> process_authorize_nonce nc new_authority accs m
       | _ \<Rightarrow> (Inr (), accs, m))"

section \<open>The contract of native programs\<close>

lemma identity_updates [simp]:
  "identity (a\<lparr>acc_motes := v\<rparr>) = identity a" "identity (a\<lparr>acc_data := d\<rparr>) = identity a"
  "identity (a\<lparr>acc_owner := k\<rparr>) = identity a"
  by (simp_all add: identity_def)

lemma within_create_account: "within_contract accs m (process_create_account motes space owner accs m)"
proof -
  have last: "\<exists>accs2. (Inr (), accs1[Suc 0 := (accs1 ! Suc 0)\<lparr>acc_data := d accs1, acc_owner := owner\<rparr>], m')
        = (Inr (), accs2, m') \<and> within_contract accs1 m' (Inr (), accs2, m')"
    if "2 \<le> length accs" "same_accounts accs accs1" for accs1 m' and d :: "account list \<Rightarrow> account_data"
    using that same_accounts_length [of accs accs1] by (auto intro!: within_set)
  show ?thesis
    unfolding process_create_account_def by (auto intro!: within_charge within_move last [simplified])
qed

lemma within_transfer: "within_contract accs m (process_transfer motes accs m)"
  unfolding process_transfer_def by (auto intro!: within_move)

lemma within_assign: "within_contract accs m (process_assign owner accs m)"
  unfolding process_assign_def by (auto intro!: within_set)

lemma within_allocate: "within_contract accs m (process_allocate space accs m)"
  unfolding process_allocate_def by (auto intro!: within_charge within_set)

lemma set_nonce_keeps [simp]:
  "identity (set_nonce nc s a) = identity a" "acc_motes (set_nonce nc s a) = acc_motes a"
  by (simp_all add: set_nonce_def)

lemma within_advance_nonce: "within_contract accs m (process_advance_nonce c nc accs m)"
  unfolding process_advance_nonce_def
  by (auto intro!: within_charge within_set simp: Let_def split: sum.splits)

lemma within_withdraw_nonce: "within_contract accs m (process_withdraw_nonce motes accs m)"
  unfolding process_withdraw_nonce_def by (auto intro!: within_move split: option.splits)

lemma within_initialize_nonce: "within_contract accs m (process_initialize_nonce nc authority accs m)"
  unfolding process_initialize_nonce_def
  by (auto intro!: within_charge within_set simp: Let_def split: sum.splits)

lemma within_authorize_nonce: "within_contract accs m (process_authorize_nonce nc k accs m)"
  unfolding process_authorize_nonce_def by (auto intro!: within_set split: sum.splits)

lemmas within_system = within_create_account within_transfer within_assign within_allocate
  within_advance_nonce within_withdraw_nonce within_initialize_nonce within_authorize_nonce

lemma within_system_process: "within_contract accs m (system_process c nc ix accs m)"
  unfolding system_process_def
  by (rule within_charge) (cases ix; simp add: within_system within_skip)

interpretation sysprog: native_processor "system_process c nc" for c nc
  by (rule native_processorI) (rule within_system_process)

text \<open>C30. Whatever system instruction runs, on whatever accounts, with whatever outcome, the accounts stay the same accounts in the same order. When it succeeds, no mote is created
  or lost. When it fails and the motes of the accounts together are less than 2 to the 64, every account is as it was; a failing instruction on accounts that hold more can lose a
  debit it has already written.\<close>

theorem system_process_conserves:
  assumes "system_process c nc ix accs m = (r, accs', m')"
  shows "map acc_key accs' = map acc_key accs \<and> (r = Inr () \<longrightarrow> motes_total accs' = motes_total accs)
    \<and> ((\<exists>e. r = Inl e) \<longrightarrow> motes_total accs < 2 ^ 64 \<longrightarrow> accs' = accs)"
  using within_system_process [of accs m c nc ix] assms same_accounts_keys [of accs accs']
  by (simp add: within_contract_def)

text \<open>The bound is needed: when the credit overflows, the debit has been written already.\<close>

lemma transfer_overflow_keeps_debit:
  assumes "2 \<le> length accs" and "100 \<le> remaining m" and "acc_owner (accs ! 0) = SYSTEM_PROGRAM_ID"
    and "motes \<le> acc_motes (accs ! 0)" and "2 ^ 64 \<le> unat (acc_motes (accs ! 1)) + unat motes"
  shows "\<exists>m'. system_process c nc (SystemTransfer motes) accs m = (Inl ArithmeticOverflow,
    accs[0 := (accs ! 0)\<lparr>acc_motes := acc_motes (accs ! 0) - motes\<rparr>], m')"
  using assms
  by (auto simp: system_process_def process_transfer_def charge_cases move_motes_def checked_sub_def
      checked_add_def not_less)

section \<open>Account creation\<close>

lemma minimum_balance_exact:
  assumes "len \<le> MAX_ACCOUNT_SIZE"
  shows "unat (minimum_balance len) = (len + 128) * 6960 div 182"
proof -
  have bound: "(len + 128) * 6960 < 2 ^ 64" using assms by (simp add: MAX_ACCOUNT_SIZE_def)
  have "(of_nat (len + 128) :: u64) * MOTES_PER_BYTE_YEAR * 2 = of_nat ((len + 128) * 6960)"
    by (simp add: MOTES_PER_BYTE_YEAR_def algebra_simps)
  then have "unat ((of_nat (len + 128) :: u64) * MOTES_PER_BYTE_YEAR * 2) = (len + 128) * 6960"
    using bound by (simp only: unat_of_nat) simp
  then show ?thesis by (simp add: minimum_balance_def EPOCHS_PER_YEAR_def unat_div)
qed

lemma space_charge_exact:
  assumes "unat space \<le> MAX_ACCOUNT_SIZE"
  shows "unat (space * 10 :: u64) = unat space * 10"
  using assms by (simp add: unat_word_ariths MAX_ACCOUNT_SIZE_def)

definition create_allowed :: "u64 \<Rightarrow> u64 \<Rightarrow> account list \<Rightarrow> compute_meter \<Rightarrow> bool" where
  "create_allowed motes space accs m \<longleftrightarrow>
     unat space \<le> 10485760
     \<and> 100 + unat space * 10 \<le> unat (remaining m)
     \<and> (unat space + 128) * 6960 div 182 \<le> unat motes
     \<and> unat motes \<le> unat (acc_motes (accs ! 0))
     \<and> data_bytes (acc_data (accs ! 1)) = [] \<and> acc_motes (accs ! 1) = 0"

definition created :: "u64 \<Rightarrow> u64 \<Rightarrow> pubkey \<Rightarrow> account list \<Rightarrow> account list" where
  "created motes space owner accs =
     accs[0 := (accs ! 0)\<lparr>acc_motes := acc_motes (accs ! 0) - motes\<rparr>,
          1 := (accs ! 1)\<lparr>acc_motes := motes,
            acc_data := \<lparr>data_bytes = replicate (unat space) 0, original_len = unat space\<rparr>,
            acc_owner := owner\<rparr>]"

lemma create_space_guard: "of_nat MAX_ACCOUNT_SIZE < space \<longleftrightarrow> 10485760 < unat space" for space :: u64
  by (simp add: word_less_nat_alt MAX_ACCOUNT_SIZE_def)

lemma two_charges:
  "charge a accs m (\<lambda>m. charge b accs m k) =
     (if remaining m < a then (Inl ComputeBudgetExceeded, accs, m)
      else if remaining m - a < b
      then (Inl ComputeBudgetExceeded, accs, m\<lparr>remaining := remaining m - a, consumed := consumed m + a\<rparr>)
      else k (m\<lparr>remaining := remaining m - a - b, consumed := consumed m + a + b\<rparr>))"
  by (simp add: charge_cases)

lemma set_from_bytes_eq: "set_from_bytes bs d = \<lparr>data_bytes = bs, original_len = length bs\<rparr>"
  by (simp add: set_from_bytes_def)

lemma create_account_unfold:
  assumes "2 \<le> length accs"
  shows "system_process c nc (CreateAccount motes space owner) accs m =
    (if remaining m < 100 then (Inl ComputeBudgetExceeded, accs, m)
     else let m1 = m\<lparr>remaining := remaining m - 100, consumed := consumed m + 100\<rparr>;
              m2 = m\<lparr>remaining := remaining m - 100 - space * 10, consumed := consumed m + 100 + space * 10\<rparr>
      in if remaining m - 100 < space * 10 then (Inl ComputeBudgetExceeded, accs, m1)
         else if acc_motes (accs ! 0) < motes then (Inl InsufficientFunds, accs, m2)
         else if data_bytes (acc_data (accs ! 1)) \<noteq> [] \<or> acc_motes (accs ! 1) \<noteq> 0
         then (Inl AccountAlreadyInitialized, accs, m2)
         else if 10485760 < unat space then (Inl InvalidAccountDataSize, accs, m2)
         else if motes < minimum_balance (unat space) then (Inl AccountNotRentExempt, accs, m2)
         else (Inr (), created motes space owner accs, m2))"
proof -
  let ?k = "\<lambda>accs m'. (Inr (), accs[Suc 0 := (accs ! Suc 0)\<lparr>
             acc_data := set_from_bytes (replicate (unat space) 0) (acc_data (accs ! Suc 0)),
             acc_owner := owner\<rparr>], m')"
  have move: "move_motes motes accs m' (\<lambda>accs. ?k accs m') = (Inr (), created motes space owner accs, m')"
    if "\<not> acc_motes (accs ! 0) < motes" "\<not> 0 < acc_motes (accs ! Suc 0)" for m'
    using that assms unsigned_less [of motes, where ?'a = nat]
    by (simp add: move_motes_ok not_less moved_def created_def set_from_bytes_eq nth_list_update)
  show ?thesis
    using assms
    by (simp add: system_process_def process_create_account_def charge_cases create_space_guard
        data_is_empty_def move Let_def word_neq_0_conv)
qed

text \<open>\<^verbatim>\<open>CreateAccount\<close> succeeds exactly when the new account is untouched, at most 10 MiB large and
  funded with the rent-exempt minimum \<open>(space + 128) * 6960 / 182\<close>, the payer holds the motes, and the meter
  holds \<open>100 + 10 * space\<close> units, all without wrap-around; the new account is then owned by the
  requested program and holds that many zero bytes, and exactly these units are charged.\<close>

theorem create_account_spec:
  assumes "2 \<le> length accs"
  shows "system_process c nc (CreateAccount motes space owner) accs m = (Inr (), accs', m') \<longleftrightarrow>
    create_allowed motes space accs m \<and> accs' = created motes space owner accs
    \<and> m' = m\<lparr>remaining := remaining m - 100 - space * 10, consumed := consumed m + 100 + space * 10\<rparr>"
proof (cases "unat space \<le> 10485760")
  case True
  then have small: "unat space \<le> MAX_ACCOUNT_SIZE" by (simp add: MAX_ACCOUNT_SIZE_def)
  have "(100 \<le> remaining m \<and> space * 10 \<le> remaining m - 100) \<longleftrightarrow> 100 + unat space * 10 \<le> unat (remaining m)"
    using space_charge_exact [OF small]
    by (auto simp: word_le_nat_alt unat_sub_no_underflow)
  moreover have "minimum_balance (unat space) \<le> motes \<longleftrightarrow> (unat space + 128) * 6960 div 182 \<le> unat motes"
    using minimum_balance_exact [OF small] by (simp add: word_le_nat_alt)
  ultimately show ?thesis
    using True unfolding create_account_unfold [OF assms] create_allowed_def Let_def
    by (auto simp: not_less word_le_nat_alt [of motes "acc_motes (accs ! 0)"]
        word_less_nat_alt [of "acc_motes (accs ! 0)" motes])
next
  case False
  then show ?thesis
    unfolding create_account_unfold [OF assms] create_allowed_def Let_def by auto
qed

definition demo_accounts :: "account list" where
  "demo_accounts = [account_new_with_data 11 5000000 [] SYSTEM_PROGRAM_ID, account_new 12]"

theorem create_account_spec_witness:
  "2 \<le> length demo_accounts
   \<and> system_process toy_crypto \<lparr>serialize = \<lambda>_. None, deserialize = \<lambda>_. None\<rparr>
       (CreateAccount 1000000 3 TOKEN_PROGRAM_ID) demo_accounts (meter_new compute_budget_default)
     = (Inr (), created 1000000 3 TOKEN_PROGRAM_ID demo_accounts,
        (meter_new compute_budget_default)\<lparr>remaining := 199870, consumed := 130\<rparr>)"
proof -
  have len: "2 \<le> length demo_accounts" by (simp add: demo_accounts_def)
  have "create_allowed 1000000 3 demo_accounts (meter_new compute_budget_default)"
    by (simp add: create_allowed_def demo_accounts_def account_new_def account_new_with_data_def
        data_new_def meter_new_def compute_budget_default_def DEFAULT_COMPUTE_UNITS_def)
  then show ?thesis
    using len create_account_spec [OF len]
    by (simp add: meter_new_def compute_budget_default_def DEFAULT_COMPUTE_UNITS_def)
qed

theorem system_process_conserves_witness:
  "\<exists>accs' m'. system_process toy_crypto \<lparr>serialize = \<lambda>_. None, deserialize = \<lambda>_. None\<rparr>
       (SystemTransfer 70) demo_accounts (meter_new compute_budget_default) = (Inr (), accs', m')
     \<and> acc_motes (accs' ! 1) = 70 \<and> motes_total accs' = 5000000"
proof -
  let ?nc = "\<lparr>serialize = \<lambda>_. None, deserialize = \<lambda>_. None\<rparr> :: nonce_state codec"
  obtain accs' m' where run: "system_process toy_crypto ?nc (SystemTransfer 70) demo_accounts
      (meter_new compute_budget_default) = (Inr (), accs', m')" and "acc_motes (accs' ! 1) = 70"
    by (simp add: system_process_def process_transfer_def charge_cases move_motes_def checked_sub_def
        checked_add_def demo_accounts_def account_new_def account_new_with_data_def
        meter_new_def compute_budget_default_def DEFAULT_COMPUTE_UNITS_def)
  moreover have "motes_total demo_accounts = 5000000"
    by (simp add: motes_total_def demo_accounts_def account_new_def account_new_with_data_def)
  ultimately show ?thesis using system_process_conserves [OF run] by simp
qed

section \<open>Nonce accounts\<close>

lemma nonce_roundtrip:
  assumes "bincode_codec (serialize nc) (deserialize nc) (\<lambda>_. NONCE_SIZE) (\<lambda>_. True)"
  shows "nonce_from_bytes nc (nonce_to_bytes nc s) = Inr s \<and> length (nonce_to_bytes nc s) = NONCE_SIZE"
proof -
  obtain bs where "serialize nc s = Some bs" "length bs = NONCE_SIZE"
    using bincode_codec.enc_total [OF assms] by auto
  then show ?thesis
    using bincode_codec.dec_exact [OF assms] by (simp add: nonce_from_bytes_def nonce_to_bytes_def)
qed

text \<open>The account \<open>a\<close> holds the nonce state \<open>s\<close>.\<close>

definition holds_nonce :: "nonce_state codec \<Rightarrow> nonce_state \<Rightarrow> account \<Rightarrow> bool" where
  "holds_nonce nc s a \<longleftrightarrow> NONCE_SIZE \<le> length (data_bytes (acc_data a))
     \<and> nonce_from_bytes nc (data_bytes (acc_data a)) = Inr s"

lemma holds_set_nonce:
  assumes "bincode_codec (serialize nc) (deserialize nc) (\<lambda>_. NONCE_SIZE) (\<lambda>_. True)"
  shows "holds_nonce nc s (set_nonce nc s a)"
  using nonce_roundtrip [OF assms, of s] by (simp add: holds_nonce_def set_nonce_def)

definition next_nonce :: "crypto \<Rightarrow> u64 \<Rightarrow> hash32 \<Rightarrow> hash32" where
  "next_nonce c fee n = blake3 c (as_bytes n @ le_bytes 8 fee)"

lemma initialize_step:
  assumes "accs \<noteq> []" and "data_bytes (acc_data (accs ! 0)) = []" and "200 \<le> unat (remaining m)"
  shows "\<exists>a m'. system_process c nc (InitializeNonceAccount k) accs m
      = (Inr (), accs[0 := set_nonce nc \<lparr>ns_initialized = True, ns_authority = k, ns_nonce = 0, ns_fee = 5000\<rparr> a], m')
    \<and> identity a = identity (accs ! 0) \<and> unat (remaining m') = unat (remaining m) - 200"
proof -
  have m: "100 \<le> remaining m" "100 \<le> remaining m - 100" "unat (remaining m - 100 - 100) = unat (remaining m) - 200"
    using assms(3) by (simp_all add: word_le_nat_alt unat_sub_no_underflow)
  then show ?thesis
    using assms(1,2)
    by (auto simp: system_process_def process_initialize_nonce_def charge_cases nonce_already_def
        data_is_empty_def Let_def not_less)
qed

lemma advance_step:
  assumes "accs \<noteq> []" and "holds_nonce nc s (accs ! 0)" and "ns_initialized s" and "150 \<le> unat (remaining m)"
  shows "\<exists>m'. system_process c nc AdvanceNonceAccount accs m
      = (Inr (), accs[0 := set_nonce nc (s\<lparr>ns_nonce := next_nonce c (ns_fee s) (ns_nonce s)\<rparr>) (accs ! 0)], m')
    \<and> unat (remaining m') = unat (remaining m) - 150"
proof -
  have m: "100 \<le> remaining m" "50 \<le> remaining m - 100" "unat (remaining m - 100 - 50) = unat (remaining m) - 150"
    using assms(4) by (simp_all add: word_le_nat_alt unat_sub_no_underflow)
  then show ?thesis
    using assms(1-3)
    by (auto simp: system_process_def process_advance_nonce_def charge_cases holds_nonce_def
        data_len_def next_nonce_def not_less)
qed

lemma advance_many:
  assumes "bincode_codec (serialize nc) (deserialize nc) (\<lambda>_. NONCE_SIZE) (\<lambda>_. True)"
    and "accs \<noteq> []" and "holds_nonce nc s (accs ! 0)" and "ns_initialized s"
    and "150 * n \<le> unat (remaining m)"
  shows "\<exists>accs' m'. sysprog.run c nc (replicate n AdvanceNonceAccount) accs m = (Inr (), accs', m')
    \<and> holds_nonce nc (s\<lparr>ns_nonce := (next_nonce c (ns_fee s) ^^ n) (ns_nonce s)\<rparr>) (accs' ! 0)"
  using assms(2-)
proof (induction n arbitrary: accs s m)
  case (Suc n)
  let ?s = "s\<lparr>ns_nonce := next_nonce c (ns_fee s) (ns_nonce s)\<rparr>"
  let ?accs = "accs[0 := set_nonce nc ?s (accs ! 0)]"
  obtain m1 where step: "system_process c nc AdvanceNonceAccount accs m = (Inr (), ?accs, m1)"
    and m1: "unat (remaining m1) = unat (remaining m) - 150"
    using advance_step [of accs nc s m c] Suc.prems by auto
  have left: "150 * n \<le> unat (remaining m1)" using m1 Suc.prems(4) by simp
  have "holds_nonce nc ?s (?accs ! 0)" using Suc.prems(1) holds_set_nonce [OF assms(1)] by simp
  then obtain accs' m' where "sysprog.run c nc (replicate n AdvanceNonceAccount) ?accs m1 = (Inr (), accs', m')"
    "holds_nonce nc (?s\<lparr>ns_nonce := (next_nonce c (ns_fee ?s) ^^ n) (ns_nonce ?s)\<rparr>) (accs' ! 0)"
    using Suc.IH [of ?accs ?s m1, OF _ _ _ left] Suc.prems(1,3) by auto
  then show ?case using step by (simp add: funpow_swap1)
qed auto

text \<open>A nonce account initialised from empty data and then advanced \<open>n\<close> times holds the \<open>n\<close>-fold hash
  chain starting at zero, keeps the authority it was given and the fee of 5000 motes per signature, and
  needs \<open>200 + 150 * n\<close> compute units.\<close>

theorem nonce_chain:
  assumes "bincode_codec (serialize nc) (deserialize nc) (\<lambda>_. NONCE_SIZE) (\<lambda>_. True)"
    and "accs \<noteq> []" and "data_bytes (acc_data (accs ! 0)) = []" and "200 + 150 * n \<le> unat (remaining m)"
  shows "\<exists>accs' m'. sysprog.run c nc (InitializeNonceAccount k # replicate n AdvanceNonceAccount) accs m
      = (Inr (), accs', m')
    \<and> holds_nonce nc \<lparr>ns_initialized = True, ns_authority = k, ns_nonce = (next_nonce c 5000 ^^ n) 0,
        ns_fee = 5000\<rparr> (accs' ! 0)"
proof -
  let ?s = "\<lparr>ns_initialized = True, ns_authority = k, ns_nonce = 0, ns_fee = 5000\<rparr>"
  obtain a m1 where init: "system_process c nc (InitializeNonceAccount k) accs m
      = (Inr (), accs[0 := set_nonce nc ?s a], m1)" and "unat (remaining m1) = unat (remaining m) - 200"
    using initialize_step [OF assms(2,3), of m c nc k] assms(4) by auto
  then have left: "150 * n \<le> unat (remaining m1)" using assms(4) by simp
  have "holds_nonce nc ?s (accs[0 := set_nonce nc ?s a] ! 0)"
    using assms(2) holds_set_nonce [OF assms(1)] by simp
  then show ?thesis
    using advance_many [OF assms(1) _ _ _ left, of "accs[0 := set_nonce nc ?s a]" ?s c] assms(2) init by auto
qed

text \<open>The authority of a nonce account is never consulted: whoever submits the instruction, with the
  nonce account as the only account, installs any new authority in an initialised nonce account.\<close>

theorem authorize_nonce_unchecked:
  assumes "bincode_codec (serialize nc) (deserialize nc) (\<lambda>_. NONCE_SIZE) (\<lambda>_. True)"
    and "holds_nonce nc s a" and "ns_initialized s" and "100 \<le> remaining m"
  shows "\<exists>a' m'. system_process c nc (AuthorizeNonceAccount k) [a] m = (Inr (), [a'], m')
    \<and> holds_nonce nc (s\<lparr>ns_authority := k\<rparr>) a'"
  using assms(2-4) holds_set_nonce [OF assms(1), of "s\<lparr>ns_authority := k\<rparr>" a]
  by (simp add: system_process_def process_authorize_nonce_def charge_cases holds_nonce_def data_len_def not_less)

text \<open>The documented encoding of the nonce state meets the codec laws.\<close>

definition nonce_tuple :: "nonce_state \<Rightarrow> bool \<times> pubkey \<times> hash32 \<times> u64" where
  "nonce_tuple s = (ns_initialized s, ns_authority s, ns_nonce s, ns_fee s)"

fun nonce_untuple :: "bool \<times> pubkey \<times> hash32 \<times> u64 \<Rightarrow> nonce_state" where
  "nonce_untuple (i, a, n, f) = \<lparr>ns_initialized = i, ns_authority = a, ns_nonce = n, ns_fee = f\<rparr>"

definition e_nonce :: "nonce_state \<Rightarrow> u8 list" where
  "e_nonce = e_pair e_bool (e_pair as_bytes (e_pair as_bytes (le_bytes 8))) \<circ> nonce_tuple"

definition d_nonce :: "nonce_state decoder" where
  "d_nonce = d_map nonce_untuple (d_pair d_bool (d_pair d_key (d_pair d_key (d_word 8))))"

definition nonce_bincode :: "nonce_state codec" where
  "nonce_bincode = \<lparr>serialize = (\<lambda>s. Some (e_nonce s)), deserialize = (\<lambda>bs. map_option fst (d_nonce bs))\<rparr>"

lemma nonce_tuple_inverse:
  "nonce_untuple (nonce_tuple s) = s" "nonce_tuple (nonce_untuple t) = t"
  by (simp add: nonce_tuple_def) (cases t, simp add: nonce_tuple_def)

lemma codec_nonce: "prefix_codec e_nonce d_nonce (\<lambda>_. True)"
proof -
  have fields: "prefix_codec (e_pair e_bool (e_pair as_bytes (e_pair as_bytes (le_bytes 8))))
     (d_pair d_bool (d_pair d_key (d_pair d_key (d_word 8 :: u64 decoder))))
     (\<lambda>(i, a, n, f). True \<and> True \<and> True \<and> True)"
    using codec_pair [OF codec_bool codec_pair [OF codec_key codec_pair [OF codec_key codec_word [of 8, where ?'a = 64]]]]
    by (simp add: case_prod_beta')
  show ?thesis
    using codec_map [OF fields, of nonce_untuple nonce_tuple]
    by (simp add: e_nonce_def d_nonce_def nonce_tuple_inverse o_def case_prod_beta')
qed

interpretation nonce_bin: bincode_codec "serialize nonce_bincode" "deserialize nonce_bincode"
    "\<lambda>_. NONCE_SIZE" "\<lambda>_. True"
  unfolding nonce_bincode_def codec.simps
  by (rule prefix_codec_bincode [OF codec_nonce])
    (simp add: e_nonce_def e_pair_def e_bool_def length_as_bytes NONCE_SIZE_def)

theorem nonce_chain_witness:
  "\<exists>accs' m'. sysprog.run toy_crypto nonce_bincode
        (InitializeNonceAccount 7 # replicate 2 AdvanceNonceAccount) [account_new 5] (meter_new compute_budget_default)
      = (Inr (), accs', m')
    \<and> holds_nonce nonce_bincode \<lparr>ns_initialized = True, ns_authority = 7, ns_nonce = 40, ns_fee = 5000\<rparr> (accs' ! 0)"
proof -
  have units: "200 + 150 * 2 \<le> unat (remaining (meter_new compute_budget_default))"
    by (simp add: meter_new_def compute_budget_default_def DEFAULT_COMPUTE_UNITS_def)
  have chain: "(next_nonce toy_crypto 5000 ^^ 2) 0 = 40"
    by (simp add: next_nonce_def toy_crypto_def length_as_bytes numeral_2_eq_2)
  have empty: "[account_new 5] \<noteq> []" "data_bytes (acc_data ([account_new 5] ! 0)) = []"
    by (simp_all add: account_new_def data_new_def)
  show ?thesis
    using nonce_chain [OF nonce_bin.bincode_codec_axioms empty units, of toy_crypto 7] unfolding chain .
qed

theorem authorize_nonce_unchecked_witness:
  "\<exists>a' m'. system_process toy_crypto nonce_bincode (AuthorizeNonceAccount 666)
      [set_nonce nonce_bincode \<lparr>ns_initialized = True, ns_authority = 7, ns_nonce = 0, ns_fee = 5000\<rparr> (account_new 5)]
      (meter_new compute_budget_default) = (Inr (), [a'], m')
    \<and> holds_nonce nonce_bincode \<lparr>ns_initialized = True, ns_authority = 666, ns_nonce = 0, ns_fee = 5000\<rparr> a'"
  using authorize_nonce_unchecked [OF nonce_bin.bincode_codec_axioms
      holds_set_nonce [OF nonce_bin.bincode_codec_axioms,
        of "\<lparr>ns_initialized = True, ns_authority = 7, ns_nonce = 0, ns_fee = 5000\<rparr>" "account_new 5"],
      of "meter_new compute_budget_default" toy_crypto 666]
  by (simp add: meter_new_def compute_budget_default_def DEFAULT_COMPUTE_UNITS_def)

end
