(* ===== verification/Token_Program.thy ===== *)
theory Token_Program
  imports System_Program
begin

text \<open>
  \<^verbatim>\<open>crates/dchat-programs/src/token.rs\<close>: mints, token accounts, the registry of token accounts, the
  instruction builders, the handlers and the associated token accounts. A Rust \<^verbatim>\<open>String\<close> is the
  list of its bytes. The \<^verbatim>\<open>bincode\<close> codecs of mints, token accounts and instructions are the
  fields of a \<open>token_codecs\<close> record; the theorems that read back what a handler wrote assume the laws of
  the locale \<open>bincode_codec\<close> of them, which the documented encoding meets (last section).
\<close>

section \<open>Registry\<close>

record token_account_registry =
  by_owner :: "pubkey \<rightharpoonup> pubkey list"
  by_mint :: "pubkey \<rightharpoonup> pubkey list"

definition registry_new :: token_account_registry where
  "registry_new = \<lparr>by_owner = Map.empty, by_mint = Map.empty\<rparr>"

definition entry_push :: "pubkey \<Rightarrow> pubkey \<Rightarrow> (pubkey \<rightharpoonup> pubkey list) \<Rightarrow> (pubkey \<rightharpoonup> pubkey list)" where
  "entry_push k v idx = idx(k \<mapsto> (case idx k of None \<Rightarrow> [] | Some vs \<Rightarrow> vs) @ [v])"

definition entry_get :: "pubkey \<Rightarrow> (pubkey \<rightharpoonup> pubkey list) \<Rightarrow> pubkey list" where
  "entry_get k idx = (case idx k of None \<Rightarrow> [] | Some vs \<Rightarrow> vs)"

definition entry_retain :: "pubkey \<Rightarrow> pubkey \<Rightarrow> (pubkey \<rightharpoonup> pubkey list) \<Rightarrow> (pubkey \<rightharpoonup> pubkey list)" where
  "entry_retain k v idx = (case idx k of None \<Rightarrow> idx | Some vs \<Rightarrow> idx(k \<mapsto> filter (\<lambda>a. a \<noteq> v) vs))"

definition register :: "pubkey \<Rightarrow> pubkey \<Rightarrow> pubkey \<Rightarrow> token_account_registry \<Rightarrow> token_account_registry" where
  "register account owner mint r =
     r\<lparr>by_owner := entry_push owner account (by_owner r), by_mint := entry_push mint account (by_mint r)\<rparr>"

definition get_by_owner :: "token_account_registry \<Rightarrow> pubkey \<Rightarrow> pubkey list" where
  "get_by_owner r owner = entry_get owner (by_owner r)"

definition get_by_mint :: "token_account_registry \<Rightarrow> pubkey \<Rightarrow> pubkey list" where
  "get_by_mint r mint = entry_get mint (by_mint r)"

definition unregister :: "pubkey \<Rightarrow> pubkey \<Rightarrow> pubkey \<Rightarrow> token_account_registry \<Rightarrow> token_account_registry" where
  "unregister account owner mint r =
     r\<lparr>by_owner := entry_retain owner account (by_owner r), by_mint := entry_retain mint account (by_mint r)\<rparr>"

section \<open>Mints and token accounts\<close>

definition MAX_DECIMALS :: u8 where "MAX_DECIMALS = 18"
definition MAX_NAME_LEN :: nat where "MAX_NAME_LEN = 32"
definition MAX_SYMBOL_LEN :: nat where "MAX_SYMBOL_LEN = 10"

record mint =
  mint_authority :: "pubkey option"
  mint_supply :: u64
  decimals :: u8
  is_initialized :: bool
  freeze_authority :: "pubkey option"
  mint_name :: string
  mint_symbol :: string

definition MINT_SIZE :: nat where "MINT_SIZE = 126"

text \<open>\<^verbatim>\<open>&s[..n]\<close> panics (\<open>None\<close>) when byte \<open>n\<close> is inside a UTF-8 sequence.\<close>

definition truncate_str :: "nat \<Rightarrow> string \<Rightarrow> string option" where
  "truncate_str n s =
     (if n < length s
      then let b = (of_char (s ! n) :: nat) in if 128 \<le> b \<and> b < 192 then None else Some (take n s)
      else Some s)"

definition mint_new :: "u8 \<Rightarrow> pubkey \<Rightarrow> pubkey option \<Rightarrow> string \<Rightarrow> string \<Rightarrow> mint option" where
  "mint_new dec auth freeze name symb =
     (case truncate_str MAX_NAME_LEN name of None \<Rightarrow> None
      | Some name' \<Rightarrow>
         (case truncate_str MAX_SYMBOL_LEN symb of None \<Rightarrow> None
          | Some symb' \<Rightarrow> Some \<lparr>mint_authority = Some auth, mint_supply = 0, decimals = dec, is_initialized = True,
              freeze_authority = freeze, mint_name = name', mint_symbol = symb'\<rparr>))"

definition mint_new_without_metadata :: "u8 \<Rightarrow> pubkey \<Rightarrow> pubkey option \<Rightarrow> mint option" where
  "mint_new_without_metadata dec auth freeze = mint_new dec auth freeze [] []"

definition mint_from_bytes :: "mint codec \<Rightarrow> u8 list \<Rightarrow> mint program_result" where
  "mint_from_bytes mc bs =
     (if length bs < MINT_SIZE then Inl InvalidAccountData
      else case deserialize mc bs of None \<Rightarrow> Inl InvalidAccountData | Some x \<Rightarrow> Inr x)"

definition mint_to_bytes :: "mint codec \<Rightarrow> mint \<Rightarrow> u8 list" where
  "mint_to_bytes mc x = resize MINT_SIZE 0 (case serialize mc x of None \<Rightarrow> [] | Some bs \<Rightarrow> bs)"

datatype token_state = TokUninitialized | TokInitialized | TokFrozen

record token_account =
  ta_mint :: pubkey
  ta_owner :: pubkey
  ta_amount :: u64
  ta_delegate :: "pubkey option"
  ta_delegated_amount :: u64
  ta_state :: token_state
  ta_is_native :: "u64 option"
  ta_close_authority :: "pubkey option"

definition TOKEN_SIZE :: nat where "TOKEN_SIZE = 165"

definition token_account_new :: "pubkey \<Rightarrow> pubkey \<Rightarrow> token_account" where
  "token_account_new mint owner = \<lparr>ta_mint = mint, ta_owner = owner, ta_amount = 0, ta_delegate = None,
     ta_delegated_amount = 0, ta_state = TokInitialized, ta_is_native = None, ta_close_authority = None\<rparr>"

definition token_from_bytes :: "token_account codec \<Rightarrow> u8 list \<Rightarrow> token_account program_result" where
  "token_from_bytes tc bs =
     (if length bs < TOKEN_SIZE then Inl InvalidAccountData
      else case deserialize tc bs of None \<Rightarrow> Inl InvalidAccountData | Some x \<Rightarrow> Inr x)"

definition token_to_bytes :: "token_account codec \<Rightarrow> token_account \<Rightarrow> u8 list" where
  "token_to_bytes tc x = resize TOKEN_SIZE 0 (case serialize tc x of None \<Rightarrow> [] | Some bs \<Rightarrow> bs)"

definition is_frozen :: "token_account \<Rightarrow> bool" where
  "is_frozen a = (ta_state a = TokFrozen)"

section \<open>Instructions\<close>

datatype authority_type = AuthMintTokens | AuthFreezeAccount | AuthAccountOwner | AuthCloseAccount

datatype token_instruction =
    InitializeMint u8 pubkey "pubkey option" string string
  | InitializeAccount
  | InitializeAccount2 pubkey
  | InitializeMultisig u8
  | TokenTransfer u64
  | Approve u64
  | Revoke
  | SetAuthority authority_type "pubkey option"
  | MintTo u64
  | Burn u64
  | CloseAccount
  | FreezeAccount
  | ThawAccount
  | TransferChecked u64 u8
  | ApproveChecked u64 u8
  | MintToChecked u64 u8
  | BurnChecked u64 u8
  | SyncNative

record token_codecs =
  mint_codec :: "mint codec"
  account_codec :: "token_account codec"
  ix_codec :: "token_instruction codec"

definition token_ix :: "token_codecs \<Rightarrow> account_meta list \<Rightarrow> token_instruction \<Rightarrow> instruction" where
  "token_ix cs metas ix = \<lparr>ix_program_id = TOKEN_PROGRAM_ID, ix_accounts = metas,
     ix_data = (case serialize (ix_codec cs) ix of None \<Rightarrow> [] | Some bs \<Rightarrow> bs)\<rparr>"

definition initialize_mint_ix ::
    "token_codecs \<Rightarrow> pubkey \<Rightarrow> pubkey \<Rightarrow> pubkey option \<Rightarrow> u8 \<Rightarrow> string \<Rightarrow> string \<Rightarrow> instruction" where
  "initialize_mint_ix cs mint auth freeze dec name symb =
     token_ix cs [meta_new mint False, meta_new_readonly SYSVAR_RENT_ID False]
       (InitializeMint dec auth freeze name symb)"

definition initialize_mint_simple :: "token_codecs \<Rightarrow> pubkey \<Rightarrow> pubkey \<Rightarrow> pubkey option \<Rightarrow> u8 \<Rightarrow> instruction" where
  "initialize_mint_simple cs mint auth freeze dec = initialize_mint_ix cs mint auth freeze dec [] []"

definition initialize_account_ix :: "token_codecs \<Rightarrow> pubkey \<Rightarrow> pubkey \<Rightarrow> pubkey \<Rightarrow> instruction" where
  "initialize_account_ix cs account mint owner =
     token_ix cs [meta_new account False, meta_new_readonly mint False, meta_new_readonly owner False,
         meta_new_readonly SYSVAR_RENT_ID False] InitializeAccount"

definition token_transfer_ix :: "token_codecs \<Rightarrow> pubkey \<Rightarrow> pubkey \<Rightarrow> pubkey \<Rightarrow> u64 \<Rightarrow> instruction" where
  "token_transfer_ix cs src dest auth amount =
     token_ix cs [meta_new src False, meta_new dest False, meta_new_readonly auth True] (TokenTransfer amount)"

definition transfer_checked_ix ::
    "token_codecs \<Rightarrow> pubkey \<Rightarrow> pubkey \<Rightarrow> pubkey \<Rightarrow> pubkey \<Rightarrow> u64 \<Rightarrow> u8 \<Rightarrow> instruction" where
  "transfer_checked_ix cs src mint dest auth amount dec =
     token_ix cs [meta_new src False, meta_new_readonly mint False, meta_new dest False,
         meta_new_readonly auth True] (TransferChecked amount dec)"

definition approve_ix :: "token_codecs \<Rightarrow> pubkey \<Rightarrow> pubkey \<Rightarrow> pubkey \<Rightarrow> u64 \<Rightarrow> instruction" where
  "approve_ix cs src delegate owner amount =
     token_ix cs [meta_new src False, meta_new_readonly delegate False, meta_new_readonly owner True]
       (Approve amount)"

definition revoke_ix :: "token_codecs \<Rightarrow> pubkey \<Rightarrow> pubkey \<Rightarrow> instruction" where
  "revoke_ix cs src owner = token_ix cs [meta_new src False, meta_new_readonly owner True] Revoke"

definition mint_to_ix :: "token_codecs \<Rightarrow> pubkey \<Rightarrow> pubkey \<Rightarrow> pubkey \<Rightarrow> u64 \<Rightarrow> instruction" where
  "mint_to_ix cs mint dest auth amount =
     token_ix cs [meta_new mint False, meta_new dest False, meta_new_readonly auth True] (MintTo amount)"

definition burn_ix :: "token_codecs \<Rightarrow> pubkey \<Rightarrow> pubkey \<Rightarrow> pubkey \<Rightarrow> u64 \<Rightarrow> instruction" where
  "burn_ix cs account mint owner amount =
     token_ix cs [meta_new account False, meta_new mint False, meta_new_readonly owner True] (Burn amount)"

definition close_account_ix :: "token_codecs \<Rightarrow> pubkey \<Rightarrow> pubkey \<Rightarrow> pubkey \<Rightarrow> instruction" where
  "close_account_ix cs account dest owner =
     token_ix cs [meta_new account False, meta_new dest False, meta_new_readonly owner True] CloseAccount"

definition freeze_account_ix :: "token_codecs \<Rightarrow> pubkey \<Rightarrow> pubkey \<Rightarrow> pubkey \<Rightarrow> instruction" where
  "freeze_account_ix cs account mint auth =
     token_ix cs [meta_new account False, meta_new_readonly mint False, meta_new_readonly auth True] FreezeAccount"

definition thaw_account_ix :: "token_codecs \<Rightarrow> pubkey \<Rightarrow> pubkey \<Rightarrow> pubkey \<Rightarrow> instruction" where
  "thaw_account_ix cs account mint auth =
     token_ix cs [meta_new account False, meta_new_readonly mint False, meta_new_readonly auth True] ThawAccount"

section \<open>The handlers\<close>

text \<open>\<^verbatim>\<open>Mint::from_bytes(accounts[i].data.as_slice())?\<close>, the same for token accounts, and
  \<^verbatim>\<open>.ok_or(ProgramError::ArithmeticOverflow)?\<close>\<close>

definition with_mint ::
    "token_codecs \<Rightarrow> nat \<Rightarrow> account list \<Rightarrow> compute_meter \<Rightarrow> (mint \<Rightarrow> native_result) \<Rightarrow> native_result" where
  "with_mint cs i accs m k =
     (case mint_from_bytes (mint_codec cs) (data_bytes (acc_data (accs ! i))) of
        Inl e \<Rightarrow> (Inl e, accs, m) | Inr x \<Rightarrow> k x)"

definition with_token ::
    "token_codecs \<Rightarrow> nat \<Rightarrow> account list \<Rightarrow> compute_meter \<Rightarrow> (token_account \<Rightarrow> native_result) \<Rightarrow> native_result" where
  "with_token cs i accs m k =
     (case token_from_bytes (account_codec cs) (data_bytes (acc_data (accs ! i))) of
        Inl e \<Rightarrow> (Inl e, accs, m) | Inr x \<Rightarrow> k x)"

definition or_overflow :: "u64 option \<Rightarrow> account list \<Rightarrow> compute_meter \<Rightarrow> (u64 \<Rightarrow> native_result) \<Rightarrow> native_result" where
  "or_overflow v accs m k = (case v of None \<Rightarrow> (Inl ArithmeticOverflow, accs, m) | Some x \<Rightarrow> k x)"

definition set_mint :: "token_codecs \<Rightarrow> mint \<Rightarrow> account \<Rightarrow> account" where
  "set_mint cs x a = a\<lparr>acc_data := set_from_bytes (mint_to_bytes (mint_codec cs) x) (acc_data a)\<rparr>"

definition set_token :: "token_codecs \<Rightarrow> token_account \<Rightarrow> account \<Rightarrow> account" where
  "set_token cs x a = a\<lparr>acc_data := set_from_bytes (token_to_bytes (account_codec cs) x) (acc_data a)\<rparr>"

definition mint_exists :: "token_codecs \<Rightarrow> account \<Rightarrow> bool" where
  "mint_exists cs a =
     (if MINT_SIZE \<le> data_len (acc_data a)
      then case mint_from_bytes (mint_codec cs) (data_bytes (acc_data a)) of
        Inr existing \<Rightarrow> is_initialized existing | Inl _ \<Rightarrow> False
      else False)"

text \<open>\<open>the\<close> stands for the panic of \<^verbatim>\<open>Mint::new\<close>; the length checks before it rule it out.\<close>

definition process_initialize_mint ::
    "token_codecs \<Rightarrow> u8 \<Rightarrow> pubkey \<Rightarrow> pubkey option \<Rightarrow> string \<Rightarrow> string
      \<Rightarrow> account list \<Rightarrow> compute_meter \<Rightarrow> native_result" where
  "process_initialize_mint cs dec auth freeze name symb accs m =
     (if accs = [] then (Inl NotEnoughAccountKeys, accs, m)
      else if MAX_DECIMALS < dec then (Inl InvalidDecimals, accs, m)
      else if MAX_NAME_LEN < length name then (Inl InvalidAccountData, accs, m)
      else if MAX_SYMBOL_LEN < length symb then (Inl InvalidAccountData, accs, m)
      else if mint_exists cs (accs ! 0) then (Inl AccountAlreadyInitialized, accs, m)
      else (Inr (), accs[0 := set_mint cs (the (mint_new dec auth freeze name symb)) (accs ! 0)], m))"

text \<open>The common rest of the two account initialisers.\<close>

definition init_token_account ::
    "token_codecs \<Rightarrow> pubkey \<Rightarrow> account list \<Rightarrow> compute_meter \<Rightarrow> native_result" where
  "init_token_account cs owner accs m =
     with_mint cs 1 accs m (\<lambda>x.
       if \<not> is_initialized x then (Inl UninitializedMint, accs, m)
       else (Inr (), accs[0 := (set_token cs (token_account_new (acc_key (accs ! 1)) owner) (accs ! 0))
               \<lparr>acc_owner := TOKEN_PROGRAM_ID\<rparr>], m))"

definition process_initialize_account :: "token_codecs \<Rightarrow> account list \<Rightarrow> compute_meter \<Rightarrow> native_result" where
  "process_initialize_account cs accs m =
     (if length accs < 3 then (Inl NotEnoughAccountKeys, accs, m)
      else init_token_account cs (acc_key (accs ! 2)) accs m)"

definition process_initialize_account2 ::
    "token_codecs \<Rightarrow> pubkey \<Rightarrow> account list \<Rightarrow> compute_meter \<Rightarrow> native_result" where
  "process_initialize_account2 cs owner accs m =
     (if length accs < 2 then (Inl NotEnoughAccountKeys, accs, m)
      else init_token_account cs owner accs m)"

text \<open>The authority check of a transfer; a delegate spends the delegated amount.\<close>

definition authorize_transfer :: "pubkey \<Rightarrow> u64 \<Rightarrow> token_account \<Rightarrow> token_account program_result" where
  "authorize_transfer auth amount src =
     (if ta_owner src \<noteq> auth
      then (case ta_delegate src of
          Some d \<Rightarrow> (if d = auth
             then (if ta_delegated_amount src < amount then Inl InsufficientDelegatedFunds
                   else Inr (src\<lparr>ta_delegated_amount := ta_delegated_amount src - amount\<rparr>))
             else Inl InvalidAccountOwner)
        | None \<Rightarrow> Inl InvalidAccountOwner)
      else Inr src)"

definition process_token_transfer ::
    "token_codecs \<Rightarrow> u64 \<Rightarrow> account list \<Rightarrow> compute_meter \<Rightarrow> native_result" where
  "process_token_transfer cs amount accs m =
     (if length accs < 3 then (Inl NotEnoughAccountKeys, accs, m)
      else with_token cs 0 accs m (\<lambda>src. with_token cs 1 accs m (\<lambda>dest.
        if is_frozen src \<or> is_frozen dest then (Inl AccountFrozen, accs, m)
        else case authorize_transfer (acc_key (accs ! 2)) amount src of
          Inl e \<Rightarrow> (Inl e, accs, m)
        | Inr src \<Rightarrow>
           (if ta_mint src \<noteq> ta_mint dest then (Inl MintMismatch, accs, m)
            else if ta_amount src < amount then (Inl InsufficientFunds, accs, m)
            else or_overflow (checked_sub (ta_amount src) amount) accs m (\<lambda>s.
              or_overflow (checked_add (ta_amount dest) amount) accs m (\<lambda>d.
                (Inr (), accs[0 := set_token cs (src\<lparr>ta_amount := s\<rparr>) (accs ! 0),
                              1 := set_token cs (dest\<lparr>ta_amount := d\<rparr>) (accs ! 1)], m)))))))"

definition process_transfer_checked ::
    "token_codecs \<Rightarrow> u64 \<Rightarrow> u8 \<Rightarrow> account list \<Rightarrow> compute_meter \<Rightarrow> native_result" where
  "process_transfer_checked cs amount dec accs m =
     (if length accs < 4 then (Inl NotEnoughAccountKeys, accs, m)
      else with_mint cs 1 accs m (\<lambda>x.
        if decimals x \<noteq> dec then (Inl InvalidDecimals, accs, m)
        else with_token cs 0 accs m (\<lambda>src. with_token cs 2 accs m (\<lambda>dest.
          if ta_owner src \<noteq> acc_key (accs ! 3) \<and> ta_delegate src \<noteq> Some (acc_key (accs ! 3))
          then (Inl InvalidAuthority, accs, m)
          else if ta_mint src \<noteq> ta_mint dest then (Inl MintMismatch, accs, m)
          else if is_frozen src then (Inl TokenAccountFrozen, accs, m)
          else if ta_amount src < amount then (Inl InsufficientFunds, accs, m)
          else charge 100 accs m (\<lambda>m.
            or_overflow (checked_sub (ta_amount src) amount) accs m (\<lambda>s.
              or_overflow (checked_add (ta_amount dest) amount) accs m (\<lambda>d.
                (Inr (), accs[0 := set_token cs (src\<lparr>ta_amount := s\<rparr>) (accs ! 0),
                              2 := set_token cs (dest\<lparr>ta_amount := d\<rparr>) (accs ! 2)], m))))))))"

definition process_approve :: "token_codecs \<Rightarrow> u64 \<Rightarrow> account list \<Rightarrow> compute_meter \<Rightarrow> native_result" where
  "process_approve cs amount accs m =
     (if length accs < 3 then (Inl NotEnoughAccountKeys, accs, m)
      else with_token cs 0 accs m (\<lambda>src.
        if ta_owner src \<noteq> acc_key (accs ! 2) then (Inl InvalidAccountOwner, accs, m)
        else (Inr (), accs[0 := set_token cs (src\<lparr>ta_delegate := Some (acc_key (accs ! 1)),
                 ta_delegated_amount := amount\<rparr>) (accs ! 0)], m)))"

definition process_revoke :: "token_codecs \<Rightarrow> account list \<Rightarrow> compute_meter \<Rightarrow> native_result" where
  "process_revoke cs accs m =
     (if length accs < 2 then (Inl NotEnoughAccountKeys, accs, m)
      else with_token cs 0 accs m (\<lambda>src.
        if ta_owner src \<noteq> acc_key (accs ! 1) then (Inl InvalidAccountOwner, accs, m)
        else (Inr (), accs[0 := set_token cs (src\<lparr>ta_delegate := None, ta_delegated_amount := 0\<rparr>) (accs ! 0)], m)))"

definition process_mint_to :: "token_codecs \<Rightarrow> u64 \<Rightarrow> account list \<Rightarrow> compute_meter \<Rightarrow> native_result" where
  "process_mint_to cs amount accs m =
     (if length accs < 3 then (Inl NotEnoughAccountKeys, accs, m)
      else with_mint cs 0 accs m (\<lambda>x. with_token cs 1 accs m (\<lambda>dest.
        if mint_authority x \<noteq> Some (acc_key (accs ! 2)) then (Inl InvalidMintAuthority, accs, m)
        else if ta_mint dest \<noteq> acc_key (accs ! 0) then (Inl MintMismatch, accs, m)
        else if is_frozen dest then (Inl AccountFrozen, accs, m)
        else or_overflow (checked_add (mint_supply x) amount) accs m (\<lambda>s.
          or_overflow (checked_add (ta_amount dest) amount) accs m (\<lambda>d.
            (Inr (), accs[0 := set_mint cs (x\<lparr>mint_supply := s\<rparr>) (accs ! 0),
                          1 := set_token cs (dest\<lparr>ta_amount := d\<rparr>) (accs ! 1)], m))))))"

definition process_burn :: "token_codecs \<Rightarrow> u64 \<Rightarrow> account list \<Rightarrow> compute_meter \<Rightarrow> native_result" where
  "process_burn cs amount accs m =
     (if length accs < 3 then (Inl NotEnoughAccountKeys, accs, m)
      else with_token cs 0 accs m (\<lambda>src. with_mint cs 1 accs m (\<lambda>x.
        if ta_owner src \<noteq> acc_key (accs ! 2) then (Inl InvalidAccountOwner, accs, m)
        else if ta_mint src \<noteq> acc_key (accs ! 1) then (Inl MintMismatch, accs, m)
        else if ta_amount src < amount then (Inl InsufficientFunds, accs, m)
        else or_overflow (checked_sub (ta_amount src) amount) accs m (\<lambda>s.
          or_overflow (checked_sub (mint_supply x) amount) accs m (\<lambda>d.
            (Inr (), accs[0 := set_token cs (src\<lparr>ta_amount := s\<rparr>) (accs ! 0),
                          1 := set_mint cs (x\<lparr>mint_supply := d\<rparr>) (accs ! 1)], m))))))"

definition process_close_account :: "token_codecs \<Rightarrow> account list \<Rightarrow> compute_meter \<Rightarrow> native_result" where
  "process_close_account cs accs m =
     (if length accs < 3 then (Inl NotEnoughAccountKeys, accs, m)
      else with_token cs 0 accs m (\<lambda>src.
        if ta_owner src \<noteq> acc_key (accs ! 2) then (Inl InvalidAccountOwner, accs, m)
        else if ta_amount src \<noteq> 0 then (Inl NonZeroBalance, accs, m)
        else or_overflow (checked_add (acc_motes (accs ! 1)) (acc_motes (accs ! 0))) accs m (\<lambda>v.
          (Inr (), accs[1 := (accs ! 1)\<lparr>acc_motes := v\<rparr>,
             0 := (accs ! 0)\<lparr>acc_motes := 0, acc_data := data_clear (acc_data (accs ! 0)),
                    acc_owner := SYSTEM_PROGRAM_ID\<rparr>], m))))"

text \<open>Freezing and thawing differ in the state they write.\<close>

definition set_token_state ::
    "token_codecs \<Rightarrow> token_state \<Rightarrow> account list \<Rightarrow> compute_meter \<Rightarrow> native_result" where
  "set_token_state cs st accs m =
     (if length accs < 3 then (Inl NotEnoughAccountKeys, accs, m)
      else with_token cs 0 accs m (\<lambda>a. with_mint cs 1 accs m (\<lambda>x.
        if freeze_authority x \<noteq> Some (acc_key (accs ! 2)) then (Inl InvalidFreezeAuthority, accs, m)
        else (Inr (), accs[0 := set_token cs (a\<lparr>ta_state := st\<rparr>) (accs ! 0)], m))))"

definition process_freeze_account :: "token_codecs \<Rightarrow> account list \<Rightarrow> compute_meter \<Rightarrow> native_result" where
  "process_freeze_account cs = set_token_state cs TokFrozen"

definition process_thaw_account :: "token_codecs \<Rightarrow> account list \<Rightarrow> compute_meter \<Rightarrow> native_result" where
  "process_thaw_account cs = set_token_state cs TokInitialized"

definition token_execute ::
    "token_codecs \<Rightarrow> token_instruction \<Rightarrow> account list \<Rightarrow> compute_meter \<Rightarrow> native_result" where
  "token_execute cs ix accs m =
     (case ix of
        InitializeMint dec auth freeze name symb \<Rightarrow> process_initialize_mint cs dec auth freeze name symb accs m
      | InitializeAccount \<Rightarrow> process_initialize_account cs accs m
      | InitializeAccount2 owner \<Rightarrow> process_initialize_account2 cs owner accs m
      | TokenTransfer amount \<Rightarrow> process_token_transfer cs amount accs m
      | TransferChecked amount dec \<Rightarrow> process_transfer_checked cs amount dec accs m
      | Approve amount \<Rightarrow> process_approve cs amount accs m
      | Revoke \<Rightarrow> process_revoke cs accs m
      | MintTo amount \<Rightarrow> process_mint_to cs amount accs m
      | Burn amount \<Rightarrow> process_burn cs amount accs m
      | CloseAccount \<Rightarrow> process_close_account cs accs m
      | FreezeAccount \<Rightarrow> process_freeze_account cs accs m
      | ThawAccount \<Rightarrow> process_thaw_account cs accs m
      | _ \<Rightarrow> (Inr (), accs, m))"

definition token_process :: "token_codecs \<Rightarrow> u8 list \<Rightarrow> account list \<Rightarrow> compute_meter \<Rightarrow> native_result" where
  "token_process cs data accs m =
     (case deserialize (ix_codec cs) data of
        None \<Rightarrow> (Inl InvalidInstructionData, accs, m)
      | Some ix \<Rightarrow> charge 100 accs m (\<lambda>m. token_execute cs ix accs m))"

section \<open>Associated token accounts\<close>

definition ata_derive_address :: "crypto \<Rightarrow> pubkey \<Rightarrow> pubkey \<Rightarrow> pubkey program_result" where
  "ata_derive_address c wallet mint =
     (case find_program_address c [as_bytes wallet, as_bytes TOKEN_PROGRAM_ID, as_bytes mint] ATA_PROGRAM_ID of
        Inl e \<Rightarrow> Inl e | Inr pda \<Rightarrow> Inr (pda_address pda))"

definition ata_instruction :: "crypto \<Rightarrow> u8 \<Rightarrow> pubkey \<Rightarrow> pubkey \<Rightarrow> pubkey \<Rightarrow> instruction program_result" where
  "ata_instruction c tag payer wallet mint =
     (case ata_derive_address c wallet mint of
        Inl e \<Rightarrow> Inl e
      | Inr ata \<Rightarrow> Inr \<lparr>ix_program_id = ATA_PROGRAM_ID,
          ix_accounts = [meta_new payer True, meta_new ata False, meta_new_readonly wallet False,
            meta_new_readonly mint False, meta_new_readonly SYSTEM_PROGRAM_ID False,
            meta_new_readonly TOKEN_PROGRAM_ID False],
          ix_data = [tag]\<rparr>)"

definition ata_create_instruction :: "crypto \<Rightarrow> pubkey \<Rightarrow> pubkey \<Rightarrow> pubkey \<Rightarrow> instruction program_result" where
  "ata_create_instruction c = ata_instruction c 0"

definition ata_create_idempotent_instruction ::
    "crypto \<Rightarrow> pubkey \<Rightarrow> pubkey \<Rightarrow> pubkey \<Rightarrow> instruction program_result" where
  "ata_create_idempotent_instruction c = ata_instruction c 1"

section \<open>The contract of native programs\<close>

lemma set_keeps [simp]:
  "identity (set_mint cs x a) = identity a" "acc_motes (set_mint cs x a) = acc_motes a"
  "acc_key (set_mint cs x a) = acc_key a"
  "identity (set_token cs y a) = identity a" "acc_motes (set_token cs y a) = acc_motes a"
  "acc_key (set_token cs y a) = acc_key a"
  by (simp_all add: set_mint_def set_token_def)

lemma within_with_mint [intro]:
  "(\<And>x. mint_from_bytes (mint_codec cs) (data_bytes (acc_data (accs ! i))) = Inr x \<Longrightarrow> within_contract accs m (k x))
    \<Longrightarrow> within_contract accs m (with_mint cs i accs m k)"
  by (auto simp: with_mint_def split: sum.splits)

lemma within_with_token [intro]:
  "(\<And>x. token_from_bytes (account_codec cs) (data_bytes (acc_data (accs ! i))) = Inr x \<Longrightarrow> within_contract accs m (k x))
    \<Longrightarrow> within_contract accs m (with_token cs i accs m k)"
  by (auto simp: with_token_def split: sum.splits)

lemma within_or_overflow [intro]:
  "(\<And>x. v = Some x \<Longrightarrow> within_contract accs m (k x)) \<Longrightarrow> within_contract accs m (or_overflow v accs m k)"
  by (auto simp: or_overflow_def split: option.splits)

lemmas within_rules = within_charge within_with_mint within_with_token within_or_overflow
  within_set within_set_two

lemma within_initialize_mint: "within_contract accs m (process_initialize_mint cs dec auth fr name symb accs m)"
  unfolding process_initialize_mint_def by (auto intro!: within_rules)

lemma within_init: "2 \<le> length accs \<Longrightarrow> within_contract accs m (init_token_account cs owner accs m)"
  unfolding init_token_account_def by (auto intro!: within_rules)

lemma within_initialize_account:
  "within_contract accs m (process_initialize_account cs accs m)"
  "within_contract accs m (process_initialize_account2 cs owner accs m)"
  unfolding process_initialize_account_def process_initialize_account2_def by (auto intro!: within_init)

lemma within_token_transfer: "within_contract accs m (process_token_transfer cs amount accs m)"
  unfolding process_token_transfer_def by (auto intro!: within_rules split: sum.splits)

lemma within_transfer_checked: "within_contract accs m (process_transfer_checked cs amount dec accs m)"
  unfolding process_transfer_checked_def by (auto intro!: within_rules)

lemma within_approve: "within_contract accs m (process_approve cs amount accs m)"
  unfolding process_approve_def by (auto intro!: within_rules)

lemma within_revoke: "within_contract accs m (process_revoke cs accs m)"
  unfolding process_revoke_def by (auto intro!: within_rules)

lemma within_mint_to: "within_contract accs m (process_mint_to cs amount accs m)"
  unfolding process_mint_to_def by (auto intro!: within_rules)

lemma within_burn: "within_contract accs m (process_burn cs amount accs m)"
  unfolding process_burn_def by (auto intro!: within_rules)

lemma within_token_state: "within_contract accs m (set_token_state cs st accs m)"
  unfolding set_token_state_def by (auto intro!: within_rules)

lemma close_total:
  assumes "2 \<le> length accs" and "unat (acc_motes (accs ! 1)) + unat (acc_motes (accs ! 0)) < 2 ^ 64"
    and "acc_motes a = acc_motes (accs ! 1) + acc_motes (accs ! 0)" and "acc_motes b = 0"
  shows "motes_total (accs[1 := a, 0 := b]) = motes_total accs"
proof -
  have "motes_total (accs[1 := a]) + unat (acc_motes (accs ! 1)) = motes_total accs + unat (acc_motes a)"
    using assms(1) by (intro motes_total_update) auto
  moreover have "motes_total (accs[1 := a, 0 := b]) + unat (acc_motes (accs ! 0)) = motes_total (accs[1 := a])"
    using motes_total_update [of 0 "accs[1 := a]" b] assms(1,4) by fastforce
  ultimately show ?thesis using assms(2,3) by (simp add: unat_add_no_overflow)
qed

lemma within_close_account: "within_contract accs m (process_close_account cs accs m)"
proof -
  have "within_contract accs m (Inr (), accs[1 := a, 0 := b], m)"
    if "2 \<le> length accs" "checked_add (acc_motes (accs ! 1)) (acc_motes (accs ! 0)) = Some (acc_motes a)"
      "acc_motes b = 0" "identity a = identity (accs ! 1)" "identity b = identity (accs ! 0)" for a b
  proof -
    have "same_accounts accs (accs[1 := a])"
      using that by (intro same_accounts_update) auto
    then have "same_accounts accs (accs[1 := a, 0 := b])"
      using that by (intro same_accounts_update) auto
    then show ?thesis
      using that close_total [of accs a b] by (simp add: within_contract_def checked_add_Some_iff)
  qed
  then show ?thesis
    unfolding process_close_account_def by (auto intro!: within_with_token within_or_overflow)
qed

lemmas within_token = within_initialize_mint within_initialize_account within_token_transfer
  within_transfer_checked within_approve within_revoke within_mint_to within_burn within_close_account
  within_token_state

lemma within_token_execute: "within_contract accs m (token_execute cs ix accs m)"
  unfolding token_execute_def process_freeze_account_def process_thaw_account_def
  by (cases ix) (simp_all add: within_token)

lemma within_token_process: "within_contract accs m (token_process cs data accs m)"
  unfolding token_process_def by (auto intro!: within_charge within_token_execute split: option.splits)

interpretation tokprog: native_processor "token_process cs" for cs
  by (rule native_processorI) (rule within_token_process)

section \<open>What the codecs promise\<close>

definition option_size :: "nat \<Rightarrow> 'a option \<Rightarrow> nat" where
  "option_size n x = (case x of None \<Rightarrow> 1 | Some _ \<Rightarrow> 1 + n)"

definition mint_size :: "mint \<Rightarrow> nat" where
  "mint_size x = option_size 32 (mint_authority x) + 8 + 1 + 1 + option_size 32 (freeze_authority x)
     + (8 + length (mint_name x)) + (8 + length (mint_symbol x))"

definition token_size :: "token_account \<Rightarrow> nat" where
  "token_size x = 32 + 32 + 8 + option_size 32 (ta_delegate x) + 8 + 4 + option_size 8 (ta_is_native x)
     + option_size 32 (ta_close_authority x)"

lemma token_size_fits: "token_size x \<le> TOKEN_SIZE"
  by (auto simp: token_size_def option_size_def TOKEN_SIZE_def split: option.splits)

text \<open>The laws of \<^verbatim>\<open>bincode\<close> at the two types; \<open>utf8\<close> is what the strings of a mint satisfy.\<close>

definition mint_valid :: "(string \<Rightarrow> bool) \<Rightarrow> mint \<Rightarrow> bool" where
  "mint_valid utf8 x \<longleftrightarrow> utf8 (mint_name x) \<and> utf8 (mint_symbol x)"

definition token_codecs_ok :: "(string \<Rightarrow> bool) \<Rightarrow> token_codecs \<Rightarrow> bool" where
  "token_codecs_ok utf8 cs \<longleftrightarrow>
     bincode_codec (serialize (mint_codec cs)) (deserialize (mint_codec cs)) mint_size (mint_valid utf8)
     \<and> bincode_codec (serialize (account_codec cs)) (deserialize (account_codec cs)) token_size (\<lambda>_. True)"

lemma mint_roundtrip:
  assumes "token_codecs_ok utf8 cs" and "mint_valid utf8 x"
  shows "mint_from_bytes (mint_codec cs) (mint_to_bytes (mint_codec cs) x)
    = (if mint_size x \<le> MINT_SIZE then Inr x else Inl InvalidAccountData)"
proof -
  have codec: "bincode_codec (serialize (mint_codec cs)) (deserialize (mint_codec cs)) mint_size (mint_valid utf8)"
    using assms(1) by (simp add: token_codecs_ok_def)
  obtain bs where "serialize (mint_codec cs) x = Some bs"
    using bincode_codec.enc_total [OF codec assms(2)] by auto
  then show ?thesis
    using bincode_codec.dec_resized [OF codec assms(2)]
    by (simp add: mint_from_bytes_def mint_to_bytes_def)
qed

lemma token_roundtrip:
  assumes "token_codecs_ok utf8 cs"
  shows "token_from_bytes (account_codec cs) (token_to_bytes (account_codec cs) x) = Inr x"
proof -
  have codec: "bincode_codec (serialize (account_codec cs)) (deserialize (account_codec cs)) token_size (\<lambda>_. True)"
    using assms(1) by (simp add: token_codecs_ok_def)
  obtain bs where "serialize (account_codec cs) x = Some bs"
    using bincode_codec.enc_total [OF codec] by auto
  then show ?thesis
    using bincode_codec.dec_resized [OF codec] token_size_fits [of x]
    by (simp add: token_from_bytes_def token_to_bytes_def)
qed

text \<open>A mint read from a buffer no larger than its own size fits when written back, also with another
  supply.\<close>

lemma mint_read_fits:
  assumes "token_codecs_ok utf8 cs" and "mint_from_bytes (mint_codec cs) bs = Inr x" and "length bs \<le> MINT_SIZE"
  shows "mint_valid utf8 x \<and> mint_size x \<le> MINT_SIZE"
proof -
  have codec: "bincode_codec (serialize (mint_codec cs)) (deserialize (mint_codec cs)) mint_size (mint_valid utf8)"
    using assms(1) by (simp add: token_codecs_ok_def)
  have "deserialize (mint_codec cs) bs = Some x"
    using assms(2) by (auto simp: mint_from_bytes_def split: if_splits option.splits)
  then show ?thesis using bincode_codec.dec_valid [OF codec] assms(3) by fastforce
qed

section \<open>Supply and balances\<close>

definition mint_of :: "token_codecs \<Rightarrow> account \<Rightarrow> mint option" where
  "mint_of cs a =
     (if length (data_bytes (acc_data a)) < TOKEN_SIZE
      then case mint_from_bytes (mint_codec cs) (data_bytes (acc_data a)) of Inr x \<Rightarrow> Some x | Inl _ \<Rightarrow> None
      else None)"

definition token_of :: "token_codecs \<Rightarrow> account \<Rightarrow> token_account option" where
  "token_of cs a =
     (case token_from_bytes (account_codec cs) (data_bytes (acc_data a)) of Inr x \<Rightarrow> Some x | Inl _ \<Rightarrow> None)"

text \<open>The supply of the mint with key \<open>k\<close> less the balances of its token accounts, for one account and for
  a list.\<close>

definition gap :: "token_codecs \<Rightarrow> pubkey \<Rightarrow> account \<Rightarrow> int" where
  "gap cs k a =
     (case mint_of cs a of Some x \<Rightarrow> if acc_key a = k then uint (mint_supply x) else 0 | None \<Rightarrow> 0)
     - (case token_of cs a of Some y \<Rightarrow> if ta_mint y = k then uint (ta_amount y) else 0 | None \<Rightarrow> 0)"

definition uncovered_supply :: "token_codecs \<Rightarrow> pubkey \<Rightarrow> account list \<Rightarrow> int" where
  "uncovered_supply cs k accs = sum_list (map (gap cs k) accs)"

text \<open>The position of the account that an instruction changes as a mint, and that this account has the size of one. The processor checks a minimum length only.\<close>

fun mint_position :: "token_instruction \<Rightarrow> nat option" where
  "mint_position (MintTo _) = Some 0"
| "mint_position (Burn _) = Some 1"
| "mint_position _ = None"

definition mint_sized :: "account \<Rightarrow> bool" where
  "mint_sized a \<longleftrightarrow> length (data_bytes (acc_data a)) \<le> MINT_SIZE"

definition unused_account :: "token_codecs \<Rightarrow> account \<Rightarrow> bool" where
  "unused_account cs a = (mint_of cs a = None \<and> token_of cs a = None)"

fun initializes :: "token_instruction \<Rightarrow> bool" where
  "initializes (InitializeMint _ _ _ _ _) = True"
| "initializes InitializeAccount = True"
| "initializes (InitializeAccount2 _) = True"
| "initializes _ = False"

lemma uint_checked_sub: "checked_sub a b = Some c \<Longrightarrow> uint c = uint a - uint b"
  using checked_sub_unat [of a b c] unfolding uint_nat by linarith

lemma uint_checked_add: "checked_add a b = Some c \<Longrightarrow> uint c = uint a + uint b"
  using checked_add_unat [of a b c] unfolding uint_nat by linarith

lemma gap_read_token:
  assumes "token_from_bytes (account_codec cs) (data_bytes (acc_data a)) = Inr y"
  shows "gap cs k a = - (if ta_mint y = k then uint (ta_amount y) else 0)"
proof -
  have "mint_of cs a = None"
    using assms by (auto simp: token_from_bytes_def mint_of_def split: if_splits)
  then show ?thesis using assms by (simp add: gap_def token_of_def)
qed

lemma gap_read_mint:
  assumes "mint_from_bytes (mint_codec cs) (data_bytes (acc_data a)) = Inr x" and "mint_sized a"
  shows "gap cs k a = (if acc_key a = k then uint (mint_supply x) else 0)"
proof -
  have "token_of cs a = None" "mint_of cs a = Some x"
    using assms by (auto simp: mint_sized_def token_of_def token_from_bytes_def mint_of_def MINT_SIZE_def TOKEN_SIZE_def)
  then show ?thesis by (simp add: gap_def)
qed

lemma gap_set_token:
  assumes "token_codecs_ok utf8 cs" and "data_bytes (acc_data a) = token_to_bytes (account_codec cs) y"
  shows "gap cs k a = - (if ta_mint y = k then uint (ta_amount y) else 0)"
  using gap_read_token [of cs a y] token_roundtrip [OF assms(1), of y] assms(2) by simp

lemma gap_set_mint:
  assumes "token_codecs_ok utf8 cs" and "mint_valid utf8 x"
    and "mint_size x \<le> MINT_SIZE \<or> mint_supply x = 0"
  shows "gap cs k (set_mint cs x a) = (if acc_key a = k then uint (mint_supply x) else 0)"
proof -
  have len: "length (mint_to_bytes (mint_codec cs) x) = MINT_SIZE" by (simp add: mint_to_bytes_def)
  then have "token_of cs (set_mint cs x a) = None"
    by (simp add: token_of_def token_from_bytes_def set_mint_def MINT_SIZE_def TOKEN_SIZE_def)
  then show ?thesis
    using mint_roundtrip [OF assms(1,2)] assms(3) len
    by (auto simp: gap_def mint_of_def set_mint_def MINT_SIZE_def TOKEN_SIZE_def)
qed

lemma gap_write_mint:
  assumes "token_codecs_ok utf8 cs" and "mint_from_bytes (mint_codec cs) (data_bytes (acc_data a)) = Inr x"
    and "mint_sized a"
  shows "gap cs k (set_mint cs (x\<lparr>mint_supply := s\<rparr>) b) = (if acc_key b = k then uint s else 0)"
  using gap_set_mint [OF assms(1), of "x\<lparr>mint_supply := s\<rparr>"] mint_read_fits [OF assms(1,2)] assms(3)
  by (simp add: mint_valid_def mint_size_def mint_sized_def)

text \<open>A handler that keeps the gap of every mint when it succeeds, with a rule for each way it goes on.\<close>

definition keeps_gap :: "token_codecs \<Rightarrow> account list \<Rightarrow> native_result \<Rightarrow> bool" where
  "keeps_gap cs accs res = (case res of (r, accs', m') \<Rightarrow>
     r = Inr () \<longrightarrow> (\<forall>k. uncovered_supply cs k accs' = uncovered_supply cs k accs))"

lemma keeps_error [simp, intro]: "keeps_gap cs accs (Inl e, accs', m')"
  by (simp add: keeps_gap_def)

lemma keeps_skip [simp, intro]: "keeps_gap cs accs (Inr (), accs, m)"
  by (simp add: keeps_gap_def)

lemma keeps_charge: "(\<And>m'. keeps_gap cs accs (k m')) \<Longrightarrow> keeps_gap cs accs (charge units accs m k)"
  by (simp add: charge_cases)

lemma keeps_with_mint:
  "(\<And>x. mint_from_bytes (mint_codec cs) (data_bytes (acc_data (accs ! i))) = Inr x \<Longrightarrow> keeps_gap cs accs (k x))
    \<Longrightarrow> keeps_gap cs accs (with_mint cs i accs m k)"
  by (auto simp: with_mint_def split: sum.splits)

lemma keeps_with_token:
  "(\<And>y. token_from_bytes (account_codec cs) (data_bytes (acc_data (accs ! i))) = Inr y \<Longrightarrow> keeps_gap cs accs (k y))
    \<Longrightarrow> keeps_gap cs accs (with_token cs i accs m k)"
  by (auto simp: with_token_def split: sum.splits)

lemma keeps_or_overflow:
  "(\<And>x. v = Some x \<Longrightarrow> keeps_gap cs accs (k x)) \<Longrightarrow> keeps_gap cs accs (or_overflow v accs m k)"
  by (auto simp: or_overflow_def split: option.splits)

lemma keeps_set:
  assumes "i < length accs" and "\<And>k. gap cs k a = gap cs k (accs ! i)"
  shows "keeps_gap cs accs (Inr (), accs[i := a], m)"
  using assms by (simp add: keeps_gap_def uncovered_supply_def sum_list_map_update)

lemma keeps_two:
  assumes "i < length accs" and "j < length accs" and "i \<noteq> j"
    and "\<And>k. gap cs k a + gap cs k b = gap cs k (accs ! i) + gap cs k (accs ! j)"
  shows "keeps_gap cs accs (Inr (), accs[i := a, j := b], m)"
proof -
  have "uncovered_supply cs k (accs[i := a, j := b]) = uncovered_supply cs k accs" for k
    using assms(1-3) assms(4) [of k] by (simp add: uncovered_supply_def sum_list_map_update)
  then show ?thesis by (simp add: keeps_gap_def)
qed

lemmas keeps_rules = keeps_charge keeps_with_mint keeps_with_token keeps_or_overflow

lemma set_token_bytes [simp]: "data_bytes (acc_data (set_token cs y a)) = token_to_bytes (account_codec cs) y"
  by (simp add: set_token_def)

lemma authorize_keeps:
  "authorize_transfer auth amount src = Inr src' \<Longrightarrow> ta_mint src' = ta_mint src \<and> ta_amount src' = ta_amount src"
  by (auto simp: authorize_transfer_def split: if_splits option.splits)

lemma keeps_token_transfer:
  assumes "token_codecs_ok utf8 cs"
  shows "keeps_gap cs accs (process_token_transfer cs amount accs m)"
  unfolding process_token_transfer_def
  by (auto intro!: keeps_rules keeps_two split: sum.splits dest!: authorize_keeps
      simp: gap_set_token [OF assms] gap_read_token uint_checked_sub uint_checked_add)

lemma keeps_transfer_checked:
  assumes "token_codecs_ok utf8 cs"
  shows "keeps_gap cs accs (process_transfer_checked cs amount dec accs m)"
  unfolding process_transfer_checked_def
  by (auto intro!: keeps_rules keeps_two
      simp: gap_set_token [OF assms] gap_read_token uint_checked_sub uint_checked_add)

lemma keeps_approve:
  assumes "token_codecs_ok utf8 cs"
  shows "keeps_gap cs accs (process_approve cs amount accs m)" "keeps_gap cs accs (process_revoke cs accs m)"
  unfolding process_approve_def process_revoke_def
  by (auto intro!: keeps_rules keeps_set simp: gap_set_token [OF assms] gap_read_token)

lemma keeps_token_state:
  assumes "token_codecs_ok utf8 cs"
  shows "keeps_gap cs accs (set_token_state cs st accs m)"
  unfolding set_token_state_def
  by (auto intro!: keeps_rules keeps_set simp: gap_set_token [OF assms] gap_read_token)

lemma keeps_mint_to:
  assumes "token_codecs_ok utf8 cs" and "accs \<noteq> [] \<Longrightarrow> mint_sized (accs ! 0)"
  shows "keeps_gap cs accs (process_mint_to cs amount accs m)"
proof (cases "length accs < 3")
  case False
  then have "mint_sized (accs ! 0)" using assms(2) by force
  then show ?thesis
    unfolding process_mint_to_def using False
    by (auto intro!: keeps_rules keeps_two
        simp: gap_set_token [OF assms(1)] gap_read_token gap_read_mint gap_write_mint [OF assms(1)] uint_checked_add)
qed (simp add: process_mint_to_def)

lemma keeps_burn:
  assumes "token_codecs_ok utf8 cs" and "1 < length accs \<Longrightarrow> mint_sized (accs ! 1)"
  shows "keeps_gap cs accs (process_burn cs amount accs m)"
proof (cases "length accs < 3")
  case False
  then have "mint_sized (accs ! 1)" using assms(2) by force
  then show ?thesis
    unfolding process_burn_def using False
    by (auto intro!: keeps_rules keeps_two
        simp: gap_set_token [OF assms(1)] gap_read_token gap_read_mint gap_write_mint [OF assms(1)] uint_checked_sub)
qed (simp add: process_burn_def)

lemma keeps_initialize_account:
  assumes "token_codecs_ok utf8 cs" and "accs \<noteq> [] \<Longrightarrow> unused_account cs (accs ! 0)"
  shows "keeps_gap cs accs (init_token_account cs owner accs m)"
proof (cases "accs = []")
  case False
  have "gap cs k (accs ! 0) = 0" for k
    using assms(2) [OF False] by (simp add: unused_account_def gap_def)
  then show ?thesis
    unfolding init_token_account_def using False
    by (auto intro!: keeps_rules keeps_set simp: gap_set_token [OF assms(1)] token_account_new_def)
qed (auto simp: init_token_account_def with_mint_def split: sum.splits)

text \<open>The panic of \<^verbatim>\<open>Mint::new\<close> is out of reach of the processor, which never truncates.\<close>

lemma mint_new_short:
  assumes "length name \<le> MAX_NAME_LEN" and "length symb \<le> MAX_SYMBOL_LEN"
  shows "mint_new dec auth freeze name symb = Some \<lparr>mint_authority = Some auth, mint_supply = 0,
    decimals = dec, is_initialized = True, freeze_authority = freeze, mint_name = name, mint_symbol = symb\<rparr>"
  using assms by (simp add: mint_new_def truncate_str_def)

lemma keeps_initialize_mint:
  assumes "token_codecs_ok utf8 cs" and "utf8 name" and "utf8 symb"
    and "accs \<noteq> [] \<Longrightarrow> unused_account cs (accs ! 0)"
  shows "keeps_gap cs accs (process_initialize_mint cs dec auth freeze name symb accs m)"
proof (cases "accs = []")
  case False
  have "gap cs k (accs ! 0) = 0" for k
    using assms(4) [OF False] by (simp add: unused_account_def gap_def)
  then show ?thesis
    unfolding process_initialize_mint_def using False assms(2,3)
    by (auto intro!: keeps_set simp: mint_new_short gap_set_mint [OF assms(1)] mint_valid_def)
qed (simp add: process_initialize_mint_def)

lemma keeps_close_account: "keeps_gap cs accs (process_close_account cs accs m)"
proof -
  have other: "gap cs k ((accs ! Suc 0)\<lparr>acc_motes := v\<rparr>) = gap cs k (accs ! Suc 0)" for k v
    by (simp add: gap_def mint_of_def token_of_def split: sum.splits)
  have cleared: "gap cs k (a\<lparr>acc_motes := 0, acc_data := data_clear d, acc_owner := p\<rparr>) = 0" for k a d p
    by (simp add: gap_def mint_of_def token_of_def mint_from_bytes_def token_from_bytes_def
        MINT_SIZE_def TOKEN_SIZE_def)
  show ?thesis
    unfolding process_close_account_def
    by (auto intro!: keeps_rules keeps_two simp: other cleared gap_read_token)
qed

fun ix_utf8 :: "(string \<Rightarrow> bool) \<Rightarrow> token_instruction \<Rightarrow> bool" where
  "ix_utf8 utf8 (InitializeMint _ _ _ name symb) = (utf8 name \<and> utf8 symb)"
| "ix_utf8 utf8 _ = True"

lemma keeps_token_execute:
  assumes "token_codecs_ok utf8 cs" and "\<And>i. mint_position ix = Some i \<Longrightarrow> i < length accs \<Longrightarrow> mint_sized (accs ! i)" and "ix_utf8 utf8 ix"
    and "initializes ix \<Longrightarrow> accs \<noteq> [] \<Longrightarrow> unused_account cs (accs ! 0)"
  shows "keeps_gap cs accs (token_execute cs ix accs m)"
  unfolding token_execute_def process_initialize_account_def process_initialize_account2_def
    process_freeze_account_def process_thaw_account_def
  using assms(2-4)
  by (cases ix) (auto simp: keeps_initialize_mint [OF assms(1)] keeps_initialize_account [OF assms(1)]
      keeps_token_transfer [OF assms(1)] keeps_transfer_checked [OF assms(1)] keeps_approve [OF assms(1)]
      keeps_mint_to [OF assms(1)] keeps_burn [OF assms(1)] keeps_close_account
      keeps_token_state [OF assms(1)])

text \<open>C8. Every token instruction that succeeds leaves, for every mint, the difference between its supply and
  the sum of the balances held in it as it was: transfers move balances, minting and burning change both
  sides alike, approving, freezing, thawing and closing change neither. Two conditions on the accounts, which
  the processor does not check: the account that an initialising instruction overwrites was not in use, and
  the account given as the mint of MintTo or Burn is not larger than a mint (the processor checks a minimum
  length, so a token account whose bytes read as a mint is taken for one and overwritten). The serialization
  obeys the laws of bincode, and the texts of the instruction are UTF-8.\<close>

theorem token_supply_conserved:
  assumes "token_codecs_ok utf8 cs"
    and "deserialize (ix_codec cs) data = Some ix" and "ix_utf8 utf8 ix"
    and "\<And>i. mint_position ix = Some i \<Longrightarrow> i < length accs \<Longrightarrow> length (data_bytes (acc_data (accs ! i))) \<le> MINT_SIZE"
    and "initializes ix \<Longrightarrow> accs \<noteq> [] \<Longrightarrow> unused_account cs (accs ! 0)"
    and "token_process cs data accs m = (Inr (), accs', m')"
  shows "uncovered_supply cs k accs' = uncovered_supply cs k accs"
proof -
  have "keeps_gap cs accs (charge 100 accs m (token_execute cs ix accs))"
    by (rule keeps_charge) (rule keeps_token_execute [OF assms(1) _ assms(3,5)], use assms(4) in \<open>auto simp: mint_sized_def\<close>)
  then show ?thesis using assms(2,6) by (simp add: token_process_def keeps_gap_def)
qed

text \<open>Why the size of the mint is a condition: an account of the size of a token account passes for a mint when its bytes begin like one, and minting then writes a mint
  over it, so that whatever it held as a token account is gone.\<close>

lemma token_sized_mint_accepted:
  assumes "token_codecs_ok utf8 cs" and "mint_valid utf8 x" and "mint_size x \<le> MINT_SIZE" and "serialize (mint_codec cs) x = Some bs"
  shows "mint_from_bytes (mint_codec cs) (bs @ replicate (TOKEN_SIZE - length bs) 0) = Inr x"
proof -
  have codec: "bincode_codec (serialize (mint_codec cs)) (deserialize (mint_codec cs)) mint_size (mint_valid utf8)"
    using assms(1) by (simp add: token_codecs_ok_def)
  have "deserialize (mint_codec cs) (bs @ replicate (TOKEN_SIZE - length bs) 0) = Some x" using bincode_codec.dec_enc [OF codec assms(2,4)] .
  then show ?thesis by (simp add: mint_from_bytes_def MINT_SIZE_def TOKEN_SIZE_def)
qed

lemma mint_to_overwrites:
  assumes "process_mint_to cs amount accs m = (Inr (), accs', m')"
  shows "token_of cs (accs' ! 0) = None"
proof -
  have "0 < length accs" "\<exists>x s y. accs' = accs[0 := set_mint cs (x\<lparr>mint_supply := s\<rparr>) (accs ! 0), 1 := y]"
    using assms by (auto simp: process_mint_to_def with_mint_def with_token_def or_overflow_def split: if_splits sum.splits option.splits)
  then show ?thesis by (auto simp: token_of_def token_from_bytes_def set_mint_def mint_to_bytes_def MINT_SIZE_def TOKEN_SIZE_def)
qed

text \<open>\<^verbatim>\<open>Transfer\<close> succeeds exactly when neither account is frozen, both hold the same mint, the signer given
  as third account is the owner or a delegate with a sufficient allowance, the balance suffices and the
  credit does not overflow; a delegate's allowance shrinks by the amount moved.\<close>

theorem token_transfer_spec:
  assumes "3 \<le> length accs"
    and "token_from_bytes (account_codec cs) (data_bytes (acc_data (accs ! 0))) = Inr src"
    and "token_from_bytes (account_codec cs) (data_bytes (acc_data (accs ! 1))) = Inr dest"
  shows "token_execute cs (TokenTransfer amount) accs m = (Inr (), accs', m') \<longleftrightarrow>
    \<not> is_frozen src \<and> \<not> is_frozen dest \<and> ta_mint src = ta_mint dest
    \<and> unat amount \<le> unat (ta_amount src) \<and> unat (ta_amount dest) + unat amount < 2 ^ 64
    \<and> (ta_owner src = acc_key (accs ! 2)
       \<or> ta_delegate src = Some (acc_key (accs ! 2)) \<and> amount \<le> ta_delegated_amount src)
    \<and> accs' = accs[
        0 := set_token cs (src\<lparr>
              ta_delegated_amount := (if ta_owner src = acc_key (accs ! 2) then ta_delegated_amount src
                else ta_delegated_amount src - amount),
              ta_amount := ta_amount src - amount\<rparr>) (accs ! 0),
        1 := set_token cs (dest\<lparr>ta_amount := ta_amount dest + amount\<rparr>) (accs ! 1)]
    \<and> m' = m"
  using assms
  by (auto simp: token_execute_def process_token_transfer_def with_token_def authorize_transfer_def
      or_overflow_def checked_sub_def checked_add_def word_le_nat_alt word_less_nat_alt
      split: option.splits if_splits)

text \<open>\<^verbatim>\<open>TransferChecked\<close> accepts the delegate of the source but never looks at the delegated amount nor at
  the state of the destination: a delegate approved for nothing moves the whole balance, into a frozen
  account, and its allowance is left as it was.\<close>

theorem transfer_checked_ignores_allowance:
  assumes "4 \<le> length accs" and "100 \<le> remaining m"
    and "mint_from_bytes (mint_codec cs) (data_bytes (acc_data (accs ! 1))) = Inr x"
    and "token_from_bytes (account_codec cs) (data_bytes (acc_data (accs ! 0))) = Inr src"
    and "token_from_bytes (account_codec cs) (data_bytes (acc_data (accs ! 2))) = Inr dest"
    and "ta_delegate src = Some (acc_key (accs ! 3))" and "ta_delegated_amount src = 0"
    and "\<not> is_frozen src" and "is_frozen dest" and "ta_mint src = ta_mint dest"
    and "unat (ta_amount dest) + unat (ta_amount src) < 2 ^ 64"
  shows "\<exists>m'. token_execute cs (TransferChecked (ta_amount src) (decimals x)) accs m = (Inr (), accs[
      0 := set_token cs (src\<lparr>ta_amount := 0\<rparr>) (accs ! 0),
      2 := set_token cs (dest\<lparr>ta_amount := ta_amount dest + ta_amount src\<rparr>) (accs ! 2)], m')"
  using assms
  by (auto simp: token_execute_def process_transfer_checked_def with_token_def with_mint_def charge_cases
      or_overflow_def checked_sub_def checked_add_def not_less)

text \<open>Any token account can be initialised again, by anyone, under any owner: the handler does not look
  at what the account holds. The balance is lost while the supply of its mint stays.\<close>

theorem initialize_account_wipes_balance:
  assumes "token_codecs_ok utf8 cs" and "2 \<le> length accs"
    and "token_from_bytes (account_codec cs) (data_bytes (acc_data (accs ! 0))) = Inr y"
    and "ta_mint y = acc_key (accs ! 1)"
    and "mint_from_bytes (mint_codec cs) (data_bytes (acc_data (accs ! 1))) = Inr x" and "is_initialized x"
  shows "\<exists>accs'. token_execute cs (InitializeAccount2 owner) accs m = (Inr (), accs', m)
    \<and> token_of cs (accs' ! 0) = Some (token_account_new (acc_key (accs ! 1)) owner)
    \<and> uncovered_supply cs (acc_key (accs ! 1)) accs'
      = uncovered_supply cs (acc_key (accs ! 1)) accs + uint (ta_amount y)"
proof -
  let ?t = "token_account_new (acc_key (accs ! 1)) owner"
  let ?a = "(set_token cs ?t (accs ! 0))\<lparr>acc_owner := TOKEN_PROGRAM_ID\<rparr>"
  have "0 < length accs" using assms(2) by auto
  then have "uncovered_supply cs (acc_key (accs ! 1)) (accs[0 := ?a])
      = uncovered_supply cs (acc_key (accs ! 1)) accs + uint (ta_amount y)"
    using gap_read_token [OF assms(3)] gap_set_token [OF assms(1), of ?a ?t] assms(4)
    by (simp add: uncovered_supply_def sum_list_map_update token_account_new_def)
  moreover have "token_execute cs (InitializeAccount2 owner) accs m = (Inr (), accs[0 := ?a], m)"
    using assms(2,5,6)
    by (simp add: token_execute_def process_initialize_account2_def init_token_account_def with_mint_def)
  moreover have "token_of cs (accs[0 := ?a] ! 0) = Some ?t"
    using \<open>0 < length accs\<close> token_roundtrip [OF assms(1), of ?t] by (simp add: token_of_def)
  ultimately show ?thesis by blast
qed

text \<open>Freezing checks the freeze authority of the mint account it is given, but not that the token account
  belongs to that mint: the freeze authority of any mint freezes the accounts of every other.\<close>

theorem freeze_with_foreign_mint:
  assumes "token_codecs_ok utf8 cs" and "3 \<le> length accs"
    and "token_from_bytes (account_codec cs) (data_bytes (acc_data (accs ! 0))) = Inr y"
    and "mint_from_bytes (mint_codec cs) (data_bytes (acc_data (accs ! 1))) = Inr x"
    and "ta_mint y \<noteq> acc_key (accs ! 1)" and "freeze_authority x = Some (acc_key (accs ! 2))"
  shows "\<exists>accs'. token_execute cs FreezeAccount accs m = (Inr (), accs', m)
    \<and> token_of cs (accs' ! 0) = Some (y\<lparr>ta_state := TokFrozen\<rparr>)"
proof -
  have "0 < length accs" using assms(2) by auto
  then show ?thesis
    using assms(2-) token_roundtrip [OF assms(1), of "y\<lparr>ta_state := TokFrozen\<rparr>"]
    by (simp add: token_execute_def process_freeze_account_def set_token_state_def with_token_def
        with_mint_def token_of_def)
qed

text \<open>What a successful \<^verbatim>\<open>InitializeMint\<close> leaves behind can be read back as the mint it was asked for only
  when there is no freeze authority or name and symbol together have at most 34 bytes; otherwise the
  encoding does not fit the 126 bytes of the account, is cut, and the mint is unusable from then on.\<close>

theorem initialize_mint_readable:
  assumes "token_codecs_ok utf8 cs" and "utf8 name" and "utf8 symb"
    and "token_execute cs (InitializeMint dec auth freeze name symb) accs m = (Inr (), accs', m')"
  shows "mint_from_bytes (mint_codec cs) (data_bytes (acc_data (accs' ! 0))) =
    (if freeze = None \<or> length name + length symb \<le> 34
     then Inr \<lparr>mint_authority = Some auth, mint_supply = 0, decimals = dec, is_initialized = True,
       freeze_authority = freeze, mint_name = name, mint_symbol = symb\<rparr>
     else Inl InvalidAccountData)"
proof -
  let ?x = "\<lparr>mint_authority = Some auth, mint_supply = 0, decimals = dec, is_initialized = True,
       freeze_authority = freeze, mint_name = name, mint_symbol = symb\<rparr>"
  have ok: "accs \<noteq> []" "length name \<le> MAX_NAME_LEN" "length symb \<le> MAX_SYMBOL_LEN"
    and accs': "accs' = accs[0 := set_mint cs ?x (accs ! 0)]"
    using assms(4)
    by (auto simp: token_execute_def process_initialize_mint_def mint_new_short split: if_splits)
  have "mint_valid utf8 ?x" using assms(2,3) by (simp add: mint_valid_def)
  moreover have "mint_size ?x \<le> MINT_SIZE \<longleftrightarrow> freeze = None \<or> length name + length symb \<le> 34"
    using ok(2,3)
    by (auto simp: mint_size_def option_size_def MINT_SIZE_def MAX_NAME_LEN_def MAX_SYMBOL_LEN_def
        split: option.splits)
  ultimately show ?thesis
    using mint_roundtrip [OF assms(1), of ?x] ok(1) by (simp add: accs' set_mint_def)
qed

section \<open>The documented encoding meets the laws\<close>

type_synonym mint_fields = "pubkey option \<times> u64 \<times> u8 \<times> bool \<times> pubkey option \<times> string \<times> string"

definition mint_tuple :: "mint \<Rightarrow> mint_fields" where
  "mint_tuple x = (mint_authority x, mint_supply x, decimals x, is_initialized x, freeze_authority x,
     mint_name x, mint_symbol x)"

fun mint_untuple :: "mint_fields \<Rightarrow> mint" where
  "mint_untuple (a, s, d, i, f, n, y) = \<lparr>mint_authority = a, mint_supply = s, decimals = d, is_initialized = i,
     freeze_authority = f, mint_name = n, mint_symbol = y\<rparr>"

lemma mint_tuple_inverse: "mint_untuple (mint_tuple x) = x" "mint_tuple (mint_untuple p) = p"
  by (simp add: mint_tuple_def) (cases p, simp add: mint_tuple_def)

definition e_mint :: "mint \<Rightarrow> u8 list" where
  "e_mint = e_pair (e_option as_bytes) (e_pair (le_bytes 8) (e_pair (le_bytes 1) (e_pair e_bool
     (e_pair (e_option as_bytes) (e_pair e_string e_string))))) \<circ> mint_tuple"

definition d_mint :: "mint decoder" where
  "d_mint = d_map mint_untuple (d_pair (d_option d_key) (d_pair (d_word 8) (d_pair (d_word 1) (d_pair d_bool
     (d_pair (d_option d_key) (d_pair d_string d_string))))))"

lemmas codec_word8 = codec_word [of 1, where ?'a = 8]
lemmas codec_word64 = codec_word [of 8, where ?'a = 64]

lemma option_True [simp]: "(case x of None \<Rightarrow> True | Some _ \<Rightarrow> True) = True"
  by (cases x) simp_all

lemma codec_mint: "prefix_codec e_mint d_mint (mint_valid string_ok)"
proof -
  have fields: "prefix_codec
      (e_pair (e_option as_bytes) (e_pair (le_bytes 8) (e_pair (le_bytes 1) (e_pair e_bool
        (e_pair (e_option as_bytes) (e_pair e_string e_string))))))
      (d_pair (d_option d_key) (d_pair (d_word 8 :: u64 decoder) (d_pair (d_word 1 :: u8 decoder) (d_pair d_bool
        (d_pair (d_option d_key) (d_pair d_string d_string))))))
      (\<lambda>(a, s, d, i, f, n, y). string_ok n \<and> string_ok y)"
    using codec_pair [OF codec_option [OF codec_key] codec_pair [OF codec_word64 codec_pair [OF codec_word8
      codec_pair [OF codec_bool codec_pair [OF codec_option [OF codec_key] codec_pair [OF codec_string codec_string]]]]]]
    by (simp add: case_prod_beta')
  have valid: "mint_valid string_ok = (\<lambda>(a, s, d, i, f, n, y). string_ok n \<and> string_ok y) \<circ> mint_tuple"
    by (simp add: fun_eq_iff mint_valid_def mint_tuple_def)
  show ?thesis
    using codec_map [OF fields, of mint_untuple mint_tuple]
    unfolding valid e_mint_def d_mint_def by (simp add: mint_tuple_inverse)
qed

lemma length_e_option: "(\<And>a. length (e a) = n) \<Longrightarrow> length (e_option e x) = option_size n x"
  by (cases x) (simp_all add: e_option_def option_size_def)

lemma length_e_mint: "length (e_mint x) = mint_size x"
  by (simp add: e_mint_def mint_tuple_def e_pair_def mint_size_def length_e_option [OF length_as_bytes]
      length_e_string e_bool_def)

type_synonym token_fields = "pubkey \<times> pubkey \<times> u64 \<times> pubkey option \<times> u64 \<times> token_state \<times> u64 option \<times> pubkey option"

definition token_tuple :: "token_account \<Rightarrow> token_fields" where
  "token_tuple x = (ta_mint x, ta_owner x, ta_amount x, ta_delegate x, ta_delegated_amount x, ta_state x,
     ta_is_native x, ta_close_authority x)"

fun token_untuple :: "token_fields \<Rightarrow> token_account" where
  "token_untuple (k, w, a, d, da, s, n, c) = \<lparr>ta_mint = k, ta_owner = w, ta_amount = a, ta_delegate = d,
     ta_delegated_amount = da, ta_state = s, ta_is_native = n, ta_close_authority = c\<rparr>"

lemma token_tuple_inverse: "token_untuple (token_tuple x) = x" "token_tuple (token_untuple p) = p"
  by (simp add: token_tuple_def) (cases p rule: token_untuple.cases, simp add: token_tuple_def)

definition state_tags :: "(token_state \<times> u32) list" where
  "state_tags = [(TokUninitialized, 0), (TokInitialized, 1), (TokFrozen, 2)]"

definition e_token :: "token_account \<Rightarrow> u8 list" where
  "e_token = e_pair as_bytes (e_pair as_bytes (e_pair (le_bytes 8) (e_pair (e_option as_bytes)
     (e_pair (le_bytes 8) (e_pair (e_tag state_tags) (e_pair (e_option (le_bytes 8)) (e_option as_bytes))))))) \<circ> token_tuple"

definition d_token :: "token_account decoder" where
  "d_token = d_map token_untuple (d_pair d_key (d_pair d_key (d_pair (d_word 8) (d_pair (d_option d_key)
     (d_pair (d_word 8) (d_pair (d_tag state_tags) (d_pair (d_option (d_word 8)) (d_option d_key))))))))"

lemma codec_state: "prefix_codec (e_tag state_tags) (d_tag state_tags) (\<lambda>_. True)"
proof (rule codec_tag)
  show "s \<in> fst ` set state_tags" for s by (cases s) (simp_all add: state_tags_def)
qed (simp_all add: state_tags_def)

lemma codec_token: "prefix_codec e_token d_token (\<lambda>_. True)"
proof -
  have fields: "prefix_codec
      (e_pair as_bytes (e_pair as_bytes (e_pair (le_bytes 8) (e_pair (e_option as_bytes)
        (e_pair (le_bytes 8) (e_pair (e_tag state_tags) (e_pair (e_option (le_bytes 8)) (e_option as_bytes))))))))
      (d_pair d_key (d_pair d_key (d_pair (d_word 8 :: u64 decoder) (d_pair (d_option d_key)
        (d_pair (d_word 8 :: u64 decoder) (d_pair (d_tag state_tags) (d_pair (d_option (d_word 8 :: u64 decoder)) (d_option d_key))))))))
      (\<lambda>_. True)"
    using codec_pair [OF codec_key codec_pair [OF codec_key codec_pair [OF codec_word64 codec_pair [OF codec_option [OF codec_key]
      codec_pair [OF codec_word64 codec_pair [OF codec_state codec_pair [OF codec_option [OF codec_word64] codec_option [OF codec_key]]]]]]]]
    by (simp add: case_prod_beta')
  show ?thesis
    using codec_map [OF fields, of token_untuple token_tuple]
    by (simp add: e_token_def d_token_def token_tuple_inverse o_def)
qed

lemma length_e_token: "length (e_token x) = token_size x"
  by (simp add: e_token_def token_tuple_def e_pair_def token_size_def length_as_bytes
      length_e_option [OF length_as_bytes] length_e_option [OF length_le_bytes])

text \<open>For the instructions the examples need only transfers.\<close>

definition token_bincode :: token_codecs where
  "token_bincode = \<lparr>
     mint_codec = \<lparr>serialize = (\<lambda>x. Some (e_mint x)), deserialize = (\<lambda>bs. map_option fst (d_mint bs))\<rparr>,
     account_codec = \<lparr>serialize = (\<lambda>x. Some (e_token x)), deserialize = (\<lambda>bs. map_option fst (d_token bs))\<rparr>,
     ix_codec = \<lparr>serialize = (\<lambda>ix. case ix of TokenTransfer n \<Rightarrow> Some ([4, 0, 0, 0] @ le_bytes 8 n) | _ \<Rightarrow> None),
       deserialize = (\<lambda>bs. if take 4 bs = [4, 0, 0, 0] \<and> length bs = 12
         then Some (TokenTransfer (of_le_bytes (drop 4 bs))) else None)\<rparr>\<rparr>"

interpretation mint_bin: bincode_codec "serialize (mint_codec token_bincode)"
    "deserialize (mint_codec token_bincode)" mint_size "mint_valid string_ok"
  unfolding token_bincode_def token_codecs.simps codec.simps
  by (rule prefix_codec_bincode [OF codec_mint]) (rule length_e_mint)

interpretation token_bin: bincode_codec "serialize (account_codec token_bincode)"
    "deserialize (account_codec token_bincode)" token_size "\<lambda>_. True"
  unfolding token_bincode_def token_codecs.simps codec.simps
  by (rule prefix_codec_bincode [OF codec_token]) (rule length_e_token)

lemma token_bincode_ok: "token_codecs_ok string_ok token_bincode"
  using mint_bin.bincode_codec_axioms token_bin.bincode_codec_axioms by (simp add: token_codecs_ok_def)

section \<open>Witnesses\<close>

definition demo_mint_key :: pubkey where "demo_mint_key = 2 ^ 255"

definition demo_mint :: mint where
  "demo_mint = \<lparr>mint_authority = Some 20, mint_supply = 100, decimals = 9, is_initialized = True,
     freeze_authority = Some 20, mint_name = ''Demo'', mint_symbol = ''DM''\<rparr>"

definition demo_holder :: "pubkey \<Rightarrow> u64 \<Rightarrow> token_account" where
  "demo_holder owner amount = (token_account_new demo_mint_key owner)\<lparr>ta_amount := amount\<rparr>"

definition token_acc :: "pubkey \<Rightarrow> token_account \<Rightarrow> account" where
  "token_acc k y = set_token token_bincode y (account_new k)"

definition mint_acc :: "pubkey \<Rightarrow> mint \<Rightarrow> account" where
  "mint_acc k x = set_mint token_bincode x (account_new k)"

definition demo_meter :: compute_meter where
  "demo_meter = meter_new compute_budget_default"

lemma demo_meter_units: "remaining demo_meter = 200000"
  by (simp add: demo_meter_def meter_new_def compute_budget_default_def DEFAULT_COMPUTE_UNITS_def)

lemma token_acc_read [simp]:
  "token_from_bytes (account_codec token_bincode) (data_bytes (acc_data (token_acc k y))) = Inr y"
  "acc_key (token_acc k y) = k"
  using token_roundtrip [OF token_bincode_ok, of y] by (simp_all add: token_acc_def account_new_def)

lemma token_acc_write [simp]: "set_token token_bincode y (token_acc k z) = token_acc k y"
  by (simp add: token_acc_def set_token_def set_from_bytes_def)

lemma account_new_key [simp]: "acc_key (account_new k) = k"
  by (simp add: account_new_def)

lemma mint_acc_read [simp]:
  "mint_valid string_ok x \<Longrightarrow> mint_size x \<le> MINT_SIZE \<Longrightarrow>
    mint_from_bytes (mint_codec token_bincode) (data_bytes (acc_data (mint_acc k x))) = Inr x"
  "acc_key (mint_acc k x) = k"
  using mint_roundtrip [OF token_bincode_ok, of x]
  by (simp_all add: mint_acc_def set_mint_def account_new_def)

lemma demo_mint_ok [simp]: "mint_valid string_ok demo_mint" "mint_size demo_mint \<le> MINT_SIZE"
  by (simp_all add: mint_valid_def demo_mint_def string_ok_def ascii_def mint_size_def option_size_def MINT_SIZE_def)

lemma as_bytes_first: "as_bytes k = ucast (drop_bit 248 k) # rev (le_bytes 31 k)"
  using upt_Suc_append [of 0 31] by (simp add: as_bytes_def le_bytes_def del: upt_Suc)

text \<open>Token accounts of the example mint, whose key starts with a byte above one, do not pass for mints.\<close>

lemma token_acc_no_mint:
  assumes "ta_mint y = demo_mint_key"
  shows "mint_from_bytes (mint_codec token_bincode) (data_bytes (acc_data (token_acc k y))) = Inl InvalidAccountData"
proof -
  have "ucast (drop_bit 248 (2 ^ 255 :: pubkey)) = (128 :: u8)" by (simp add: drop_bit_eq_div)
  then obtain rest where "e_token y = 128 # rest"
    using assms by (simp add: e_token_def token_tuple_def e_pair_def as_bytes_first demo_mint_key_def)
  then have "d_mint (resize TOKEN_SIZE 0 (e_token y)) = None"
    by (simp add: d_mint_def d_map_def d_pair_def d_option_def resize_def TOKEN_SIZE_def)
  then show ?thesis
    by (simp add: token_acc_def set_token_def token_to_bytes_def token_bincode_def mint_from_bytes_def)
qed

theorem token_transfer_spec_witness:
  "token_execute token_bincode (TokenTransfer 30)
      [token_acc 31 (demo_holder 21 70), token_acc 32 (demo_holder 22 5), account_new 21] demo_meter
    = (Inr (), [token_acc 31 (demo_holder 21 40), token_acc 32 (demo_holder 22 35), account_new 21], demo_meter)"
  using token_transfer_spec [of "[token_acc 31 (demo_holder 21 70), token_acc 32 (demo_holder 22 5), account_new 21]"
      token_bincode "demo_holder 21 70" "demo_holder 22 5" 30 demo_meter
      "[token_acc 31 (demo_holder 21 40), token_acc 32 (demo_holder 22 35), account_new 21]" demo_meter]
  by (simp add: demo_holder_def token_account_new_def is_frozen_def)

theorem token_supply_conserved_witness:
  "\<exists>accs' m'. token_process token_bincode (ix_data (token_transfer_ix token_bincode 31 32 21 30))
        [token_acc 31 (demo_holder 21 70), token_acc 32 (demo_holder 22 5), account_new 21] demo_meter
      = (Inr (), accs', m')
    \<and> accs' ! 1 = token_acc 32 (demo_holder 22 35)
    \<and> uncovered_supply token_bincode demo_mint_key accs' = - 75"
proof -
  let ?accs = "[token_acc 31 (demo_holder 21 70), token_acc 32 (demo_holder 22 5), account_new 21]"
  let ?data = "ix_data (token_transfer_ix token_bincode 31 32 21 30)"
  have ix: "deserialize (ix_codec token_bincode) ?data = Some (TokenTransfer 30)"
    by (simp add: token_transfer_ix_def token_ix_def token_bincode_def of_le_bytes_le_bytes)
  obtain accs' m' where run: "token_process token_bincode ?data ?accs demo_meter = (Inr (), accs', m')"
    and moved: "accs' ! 1 = token_acc 32 (demo_holder 22 35)"
    by (simp add: token_process_def ix charge_cases demo_meter_units token_execute_def process_token_transfer_def
        with_token_def or_overflow_def checked_sub_def checked_add_def authorize_transfer_def
        demo_holder_def token_account_new_def is_frozen_def)
  have "uncovered_supply token_bincode demo_mint_key ?accs = - 75"
    by (simp add: uncovered_supply_def gap_read_token [OF token_acc_read(1)] demo_holder_def token_account_new_def)
      (simp add: gap_def mint_of_def token_of_def mint_from_bytes_def token_from_bytes_def account_new_def
        data_new_def MINT_SIZE_def TOKEN_SIZE_def)
  then show ?thesis
    using token_supply_conserved [OF token_bincode_ok ix _ _ _ run, of demo_mint_key] run moved by simp
qed

theorem transfer_checked_ignores_allowance_witness:
  "\<exists>m'. token_execute token_bincode (TransferChecked 70 9)
      [token_acc 31 ((demo_holder 21 70)\<lparr>ta_delegate := Some 66\<rparr>), mint_acc demo_mint_key demo_mint,
       token_acc 32 ((demo_holder 22 5)\<lparr>ta_state := TokFrozen\<rparr>), account_new 66] demo_meter
    = (Inr (), [token_acc 31 ((demo_holder 21 0)\<lparr>ta_delegate := Some 66\<rparr>), mint_acc demo_mint_key demo_mint,
       token_acc 32 ((demo_holder 22 75)\<lparr>ta_state := TokFrozen\<rparr>), account_new 66], m')"
  using transfer_checked_ignores_allowance [of
      "[token_acc 31 ((demo_holder 21 70)\<lparr>ta_delegate := Some 66\<rparr>), mint_acc demo_mint_key demo_mint,
       token_acc 32 ((demo_holder 22 5)\<lparr>ta_state := TokFrozen\<rparr>), account_new 66]" demo_meter token_bincode
      demo_mint "(demo_holder 21 70)\<lparr>ta_delegate := Some 66\<rparr>" "(demo_holder 22 5)\<lparr>ta_state := TokFrozen\<rparr>"]
  by (simp add: demo_holder_def token_account_new_def is_frozen_def demo_meter_units)
    (simp add: demo_mint_def)

theorem initialize_account_wipes_balance_witness:
  "\<exists>accs'. token_execute token_bincode (InitializeAccount2 66)
      [token_acc 31 (demo_holder 21 70), mint_acc demo_mint_key demo_mint] demo_meter = (Inr (), accs', demo_meter)
    \<and> token_of token_bincode (accs' ! 0) = Some (token_account_new demo_mint_key 66)
    \<and> uncovered_supply token_bincode demo_mint_key accs' = uncovered_supply token_bincode demo_mint_key
        [token_acc 31 (demo_holder 21 70), mint_acc demo_mint_key demo_mint] + 70"
  using initialize_account_wipes_balance [OF token_bincode_ok, of
      "[token_acc 31 (demo_holder 21 70), mint_acc demo_mint_key demo_mint]" "demo_holder 21 70" demo_mint 66 demo_meter]
  by (simp add: demo_holder_def token_account_new_def) (simp add: demo_mint_def)

theorem freeze_with_foreign_mint_witness:
  "\<exists>accs'. token_execute token_bincode FreezeAccount
      [token_acc 31 (demo_holder 21 70), mint_acc 99 demo_mint, account_new 20] demo_meter = (Inr (), accs', demo_meter)
    \<and> token_of token_bincode (accs' ! 0) = Some ((demo_holder 21 70)\<lparr>ta_state := TokFrozen\<rparr>)"
  using freeze_with_foreign_mint [OF token_bincode_ok, of
      "[token_acc 31 (demo_holder 21 70), mint_acc 99 demo_mint, account_new 20]" "demo_holder 21 70" demo_mint demo_meter]
  by (simp add: demo_holder_def token_account_new_def) (simp add: demo_mint_def demo_mint_key_def)

theorem initialize_mint_readable_witness:
  "\<exists>accs'. token_execute token_bincode (InitializeMint 9 20 (Some 20) ''A name of thirty-two characters.'' ''SYM'')
      [account_new 40] demo_meter = (Inr (), accs', demo_meter)
    \<and> mint_from_bytes (mint_codec token_bincode) (data_bytes (acc_data (accs' ! 0))) = Inl InvalidAccountData"
proof -
  let ?n = "''A name of thirty-two characters.''"
  obtain accs' where run: "token_execute token_bincode (InitializeMint 9 20 (Some 20) ?n ''SYM'')
      [account_new 40] demo_meter = (Inr (), accs', demo_meter)"
    by (simp add: token_execute_def process_initialize_mint_def mint_exists_def account_new_def data_new_def
        data_len_def MAX_DECIMALS_def MAX_NAME_LEN_def MAX_SYMBOL_LEN_def MINT_SIZE_def)
  have "string_ok ?n" "string_ok ''SYM''" by (simp_all add: string_ok_def ascii_def)
  then show ?thesis using initialize_mint_readable [OF token_bincode_ok _ _ run] run by simp
qed

end
