(* ===== verification/Scheduler.thy ===== *)
theory Scheduler
  imports Pda "HOL-Library.Multiset" "HOL-Library.Sublist"
begin

text \<open>
  \<^verbatim>\<open>crates/dchat-programs/src/scheduler.rs\<close>: the read and write sets of a batch, the account lock
  manager, and the scheduler that packs pending transactions into batches whose members do not
  conflict. Each method holds the mutexes of what it touches from start to end, so it is one function on
  the scheduler's state; \<^verbatim>\<open>try_acquire_locks\<close> is the exception: it checks under one pair of guards and
  acquires under another. It is given as the two steps it makes, as their composition for a single
  caller, and in the last section interleaved with itself. The wall-clock fields (\<^verbatim>\<open>acquired_at\<close>,
  \<^verbatim>\<open>lock_timeout\<close>) are left out: no operation of the manager acts on them.
\<close>

section \<open>Read and write sets\<close>

record extraction =
  ex_read :: "pubkey list"
  ex_write :: "pubkey list"
  seen_read :: "pubkey set"
  seen_write :: "pubkey set"

definition extract_read :: "pubkey \<Rightarrow> extraction \<Rightarrow> extraction" where
  "extract_read k s =
     (if k \<notin> seen_write s \<and> k \<notin> seen_read s
      then s\<lparr>seen_read := insert k (seen_read s), ex_read := ex_read s @ [k]\<rparr> else s)"

definition extract_write :: "pubkey \<Rightarrow> extraction \<Rightarrow> extraction" where
  "extract_write k s =
     (if k \<notin> seen_write s
      then let s' = s\<lparr>seen_write := insert k (seen_write s), ex_write := ex_write s @ [k]\<rparr> in
        (if k \<in> seen_read s'
         then s'\<lparr>seen_read := seen_read s' - {k}, ex_read := filter (\<lambda>x. x \<noteq> k) (ex_read s')\<rparr> else s')
      else s)"

definition extract_index :: "pubkey list \<Rightarrow> u8 set \<Rightarrow> u8 \<Rightarrow> extraction \<Rightarrow> extraction" where
  "extract_index keys writable idx s =
     (case get keys (unat idx) of None \<Rightarrow> s
      | Some k \<Rightarrow> if idx \<in> writable then extract_write k s else extract_read k s)"

definition extract_instruction ::
    "pubkey list \<Rightarrow> u8 set \<Rightarrow> compiled_instruction \<Rightarrow> extraction \<Rightarrow> extraction" where
  "extract_instruction keys writable ix s =
     (let s = (case get keys (unat (program_id_index ix)) of None \<Rightarrow> s | Some k \<Rightarrow> extract_read k s)
      in fold (extract_index keys writable) (ci_accounts ix) s)"

definition extract_account_keys_with_context ::
    "compiled_instruction list \<Rightarrow> pubkey list \<Rightarrow> u8 set \<Rightarrow> pubkey list \<times> pubkey list" where
  "extract_account_keys_with_context ixs keys writable =
     (let s = fold (extract_instruction keys writable) ixs
        \<lparr>ex_read = [], ex_write = [], seen_read = {}, seen_write = {}\<rparr>
      in (ex_read s, ex_write s))"

definition extract_account_keys_from_batch :: "instruction_batch \<Rightarrow> pubkey list \<times> pubkey list" where
  "extract_account_keys_from_batch b =
     extract_account_keys_with_context (batch_instructions b) (account_keys b) (set (writable_indices b))"

section \<open>Locks\<close>

datatype lock_type = ReadLock | WriteLock

record account_lock =
  lk_account :: pubkey
  lk_type :: lock_type
  lk_holder :: u64

record lock_tables =
  read_locks :: "pubkey \<rightharpoonup> u64 set"
  write_locks :: "pubkey \<rightharpoonup> u64"

definition locks_new :: lock_tables where
  "locks_new = \<lparr>read_locks = Map.empty, write_locks = Map.empty\<rparr>"

definition has_readers :: "lock_tables \<Rightarrow> pubkey \<Rightarrow> bool" where
  "has_readers t k = (case read_locks t k of None \<Rightarrow> False | Some rs \<Rightarrow> rs \<noteq> {})"

text \<open>The first block of \<^verbatim>\<open>try_acquire_locks\<close>: the check.\<close>

definition locks_free :: "lock_tables \<Rightarrow> pubkey list \<Rightarrow> pubkey list \<Rightarrow> bool" where
  "locks_free t reads writes =
     (list_all (\<lambda>k. write_locks t k = None \<and> \<not> has_readers t k) writes
      \<and> list_all (\<lambda>k. write_locks t k = None) reads)"

definition add_reader :: "u64 \<Rightarrow> pubkey \<Rightarrow> lock_tables \<Rightarrow> lock_tables" where
  "add_reader i k t = t\<lparr>read_locks :=
     (read_locks t)(k \<mapsto> insert i (case read_locks t k of None \<Rightarrow> {} | Some rs \<Rightarrow> rs))\<rparr>"

text \<open>The second block: the acquisition.\<close>

definition take_locks :: "u64 \<Rightarrow> pubkey list \<Rightarrow> pubkey list \<Rightarrow> lock_tables \<Rightarrow> lock_tables" where
  "take_locks i reads writes t =
     fold (add_reader i) reads
       (fold (\<lambda>k t. t\<lparr>write_locks := (write_locks t)(k \<mapsto> i)\<rparr>) writes t)"

definition granted_locks :: "u64 \<Rightarrow> pubkey list \<Rightarrow> pubkey list \<Rightarrow> account_lock list" where
  "granted_locks i reads writes =
     map (\<lambda>k. \<lparr>lk_account = k, lk_type = WriteLock, lk_holder = i\<rparr>) writes
     @ map (\<lambda>k. \<lparr>lk_account = k, lk_type = ReadLock, lk_holder = i\<rparr>) reads"

definition try_acquire_locks ::
    "u64 \<Rightarrow> pubkey list \<Rightarrow> pubkey list \<Rightarrow> lock_tables \<Rightarrow> account_lock list program_result \<times> lock_tables" where
  "try_acquire_locks i reads writes t =
     (if locks_free t reads writes
      then (Inr (granted_locks i reads writes), take_locks i reads writes t)
      else (Inl AccountLocked, t))"

definition release_lock :: "u64 \<Rightarrow> account_lock \<Rightarrow> lock_tables \<Rightarrow> lock_tables" where
  "release_lock i l t =
     (case lk_type l of
        ReadLock \<Rightarrow>
          (case read_locks t (lk_account l) of None \<Rightarrow> t
           | Some rs \<Rightarrow> t\<lparr>read_locks := (read_locks t)(lk_account l :=
               (if rs - {i} = {} then None else Some (rs - {i})))\<rparr>)
      | WriteLock \<Rightarrow>
          (if write_locks t (lk_account l) = Some i
           then t\<lparr>write_locks := (write_locks t)(lk_account l := None)\<rparr> else t))"

definition release_locks :: "u64 \<Rightarrow> account_lock list \<Rightarrow> lock_tables \<Rightarrow> lock_tables" where
  "release_locks i ls t = fold (release_lock i) ls t"

definition is_locked :: "lock_tables \<Rightarrow> pubkey \<Rightarrow> bool" where
  "is_locked t k = (write_locks t k \<noteq> None \<or> has_readers t k)"

definition cleanup_expired :: "lock_tables \<Rightarrow> nat" where
  "cleanup_expired t = card (dom (read_locks t)) + card (dom (write_locks t))"

definition clear_all :: "lock_tables \<Rightarrow> lock_tables" where
  "clear_all t = t\<lparr>read_locks := Map.empty, write_locks := Map.empty\<rparr>"

section \<open>Transactions and batches\<close>

record scheduled_transaction =
  tx_id :: u64
  read_accounts :: "pubkey list"
  write_accounts :: "pubkey list"
  tx_batch :: instruction_batch
  priority :: u32
  attempts :: u32

definition scheduled_new :: "u64 \<Rightarrow> instruction_batch \<Rightarrow> u32 \<Rightarrow> scheduled_transaction" where
  "scheduled_new i b p =
     (let (rs, ws) = extract_account_keys_from_batch b in
      \<lparr>tx_id = i, read_accounts = rs, write_accounts = ws, tx_batch = b, priority = p, attempts = 0\<rparr>)"

definition new_with_accounts ::
    "u64 \<Rightarrow> instruction_batch \<Rightarrow> pubkey list \<Rightarrow> pubkey list \<Rightarrow> u32 \<Rightarrow> scheduled_transaction" where
  "new_with_accounts i b rs ws p =
     \<lparr>tx_id = i, read_accounts = rs, write_accounts = ws, tx_batch = b, priority = p, attempts = 0\<rparr>"

definition conflicts_with :: "scheduled_transaction \<Rightarrow> scheduled_transaction \<Rightarrow> bool" where
  "conflicts_with a b =
     (list_ex (\<lambda>w. w \<in> set (write_accounts b)) (write_accounts a)
      \<or> list_ex (\<lambda>w. w \<in> set (read_accounts b)) (write_accounts a)
      \<or> list_ex (\<lambda>r. r \<in> set (write_accounts b)) (read_accounts a))"

record execution_batch =
  eb_id :: u64
  eb_transactions :: "scheduled_transaction list"
  eb_total_priority :: u64

definition execution_batch_new :: "u64 \<Rightarrow> execution_batch" where
  "execution_batch_new i = \<lparr>eb_id = i, eb_transactions = [], eb_total_priority = 0\<rparr>"

definition try_add :: "scheduled_transaction \<Rightarrow> execution_batch \<Rightarrow> bool \<times> execution_batch" where
  "try_add tx b =
     (if list_ex (conflicts_with tx) (eb_transactions b) then (False, b)
      else (True, b\<lparr>eb_total_priority := eb_total_priority b + ucast (priority tx),
              eb_transactions := eb_transactions b @ [tx]\<rparr>))"

section \<open>The scheduler\<close>

record scheduler_config =
  max_parallelism :: nat
  max_batch_size :: nat
  lock_timeout_ms :: u64
  log_conflicts :: bool
  deterministic_resolution :: bool

definition scheduler_config_default :: scheduler_config where
  "scheduler_config_default = \<lparr>max_parallelism = 8, max_batch_size = 64, lock_timeout_ms = 5000,
     log_conflicts = True, deterministic_resolution = True\<rparr>"

record scheduler =
  config :: scheduler_config
  lock_manager :: lock_tables
  pending :: "scheduled_transaction list"
  next_tx_id :: u64
  next_batch_id :: u64
  conflict_count :: u64

definition scheduler_new :: "scheduler_config \<Rightarrow> scheduler" where
  "scheduler_new c = \<lparr>config = c, lock_manager = locks_new, pending = [], next_tx_id = 0,
     next_batch_id = 0, conflict_count = 0\<rparr>"

definition submit :: "instruction_batch \<Rightarrow> u32 \<Rightarrow> scheduler \<Rightarrow> u64 \<times> scheduler" where
  "submit b p s =
     (let i = next_tx_id s in
      (i, s\<lparr>next_tx_id := i + 1, pending := pending s @ [scheduled_new i b p]\<rparr>))"

text \<open>The \<^verbatim>\<open>while let Some(tx) = pending.pop_front()\<close> loop: the batch, the transactions put back and the
  conflicts counted.\<close>

fun schedule_loop ::
    "scheduler_config \<Rightarrow> scheduled_transaction list \<Rightarrow> execution_batch \<Rightarrow> scheduled_transaction list \<Rightarrow> u64
      \<Rightarrow> execution_batch \<times> scheduled_transaction list \<times> u64" where
  "schedule_loop c [] b rest n = (b, rest, n)"
| "schedule_loop c (tx # txs) b rest n =
     (if max_batch_size c \<le> length (eb_transactions b) then schedule_loop c txs b (rest @ [tx]) n
      else case try_add tx b of
        (True, b') \<Rightarrow> schedule_loop c txs b' rest n
      | (False, b') \<Rightarrow> schedule_loop c txs b' (rest @ [tx]) (if log_conflicts c then n + 1 else n))"

definition schedule_batch :: "scheduler \<Rightarrow> execution_batch option \<times> scheduler" where
  "schedule_batch s =
     (if pending s = [] then (None, s)
      else let (b, rest, n) = schedule_loop (config s) (pending s) (execution_batch_new (next_batch_id s)) []
                 (conflict_count s);
               s = s\<lparr>next_batch_id := next_batch_id s + 1, conflict_count := n, pending := rest\<rparr>;
               (b, s) = (if eb_transactions b = []
                 then case pending s of [] \<Rightarrow> (b, s)
                   | tx # txs \<Rightarrow> (b\<lparr>eb_transactions := [tx]\<rparr>, s\<lparr>pending := txs\<rparr>)
                 else (b, s))
           in if eb_transactions b = [] then (None, s) else (Some b, s))"

text \<open>Locks for the transactions of a batch, one after the other; the accumulator holds what was granted
  so far, and is released when one is refused.\<close>

definition release_granted ::
    "(u64 \<times> account_lock list) list \<Rightarrow> lock_tables \<Rightarrow> lock_tables" where
  "release_granted gs t = fold (\<lambda>(i, ls). release_locks i ls) gs t"

fun acquire_loop ::
    "scheduled_transaction list \<Rightarrow> (u64 \<times> account_lock list) list \<Rightarrow> lock_tables
      \<Rightarrow> account_lock list list program_result \<times> lock_tables" where
  "acquire_loop [] gs t = (Inr (map snd gs), t)"
| "acquire_loop (tx # txs) gs t =
     (case try_acquire_locks (tx_id tx) (read_accounts tx) (write_accounts tx) t of
        (Inr ls, t') \<Rightarrow> acquire_loop txs (gs @ [(tx_id tx, ls)]) t'
      | (Inl e, t') \<Rightarrow> (Inl e, release_granted gs t'))"

definition acquire_batch_locks ::
    "execution_batch \<Rightarrow> scheduler \<Rightarrow> account_lock list list program_result \<times> scheduler" where
  "acquire_batch_locks b s =
     (let (r, t) = acquire_loop (eb_transactions b) [] (lock_manager s) in (r, s\<lparr>lock_manager := t\<rparr>))"

definition release_batch_locks :: "execution_batch \<Rightarrow> account_lock list list \<Rightarrow> scheduler \<Rightarrow> scheduler" where
  "release_batch_locks b lss s =
     s\<lparr>lock_manager := fold (\<lambda>(tx, ls). release_locks (tx_id tx) ls) (zip (eb_transactions b) lss) (lock_manager s)\<rparr>"

definition requeue :: "scheduled_transaction \<Rightarrow> scheduler \<Rightarrow> scheduler" where
  "requeue tx s =
     (let tx = tx\<lparr>attempts := attempts tx + 1\<rparr>;
          tx = tx\<lparr>priority := saturating_sub (priority tx) (attempts tx)\<rparr>
      in s\<lparr>pending := pending s @ [tx]\<rparr>)"

definition pending_count :: "scheduler \<Rightarrow> nat" where
  "pending_count s = length (pending s)"

definition scheduler_clear :: "scheduler \<Rightarrow> scheduler" where
  "scheduler_clear s = s\<lparr>pending := [], lock_manager := clear_all (lock_manager s)\<rparr>"

section \<open>Extraction is exact\<close>

definition extraction_ok :: "extraction \<Rightarrow> bool" where
  "extraction_ok s \<longleftrightarrow> seen_read s = set (ex_read s) \<and> seen_write s = set (ex_write s)
     \<and> distinct (ex_read s) \<and> distinct (ex_write s) \<and> set (ex_read s) \<inter> set (ex_write s) = {}"

text \<open>\<open>extracts R W f\<close>: the step \<open>f\<close> adds the references \<open>R\<close>, of which \<open>W\<close> are writes.\<close>

definition extracts :: "pubkey set \<Rightarrow> pubkey set \<Rightarrow> (extraction \<Rightarrow> extraction) \<Rightarrow> bool" where
  "extracts R W f \<longleftrightarrow> (\<forall>s. extraction_ok s \<longrightarrow> extraction_ok (f s)
     \<and> set (ex_write (f s)) = set (ex_write s) \<union> W
     \<and> set (ex_read (f s)) \<union> set (ex_write (f s)) = set (ex_read s) \<union> set (ex_write s) \<union> R)"

lemma extracts_skip: "extracts {} {} (\<lambda>s. s)"
  by (simp add: extracts_def)

lemma extracts_read: "extracts {k} {} (extract_read k)"
  by (auto simp: extracts_def extract_read_def extraction_ok_def)

lemma extracts_write: "extracts {k} {k} (extract_write k)"
  by (auto simp: extracts_def extract_write_def extraction_ok_def Let_def)

lemma extracts_comp: "extracts R W f \<Longrightarrow> extracts R' W' g \<Longrightarrow> extracts (R \<union> R') (W \<union> W') (\<lambda>s. g (f s))"
proof -
  assume f: "extracts R W f" and g: "extracts R' W' g"
  have "extraction_ok (g (f s)) \<and> set (ex_write (g (f s))) = set (ex_write s) \<union> (W \<union> W')
     \<and> set (ex_read (g (f s))) \<union> set (ex_write (g (f s))) = set (ex_read s) \<union> set (ex_write s) \<union> (R \<union> R')"
    if "extraction_ok s" for s
    using f [unfolded extracts_def, rule_format, OF that] g [unfolded extracts_def, rule_format, of "f s"]
    by (intro conjI) (metis Un_assoc)+
  then show ?thesis unfolding extracts_def by blast
qed

lemma extracts_fold:
  assumes "\<And>x. x \<in> set xs \<Longrightarrow> extracts (R x) (W x) (f x)"
  shows "extracts (\<Union>x\<in>set xs. R x) (\<Union>x\<in>set xs. W x) (fold f xs)"
  using assms
proof (induction xs)
  case Nil
  then show ?case using extracts_skip by (simp add: id_def)
next
  case (Cons x xs)
  then show ?case using extracts_comp [of "R x" "W x" "f x"] by (simp add: o_def)
qed

definition key_at :: "pubkey list \<Rightarrow> u8 \<Rightarrow> pubkey set" where
  "key_at keys idx = (case get keys (unat idx) of None \<Rightarrow> {} | Some k \<Rightarrow> {k})"

text \<open>The accounts a batch refers to, programs included, and those it refers to by a writable index.\<close>

definition batch_refs :: "instruction_batch \<Rightarrow> pubkey set" where
  "batch_refs b = (\<Union>ix\<in>set (batch_instructions b).
     key_at (account_keys b) (program_id_index ix) \<union> (\<Union>i\<in>set (ci_accounts ix). key_at (account_keys b) i))"

definition batch_writes :: "instruction_batch \<Rightarrow> pubkey set" where
  "batch_writes b = (\<Union>ix\<in>set (batch_instructions b). \<Union>i\<in>set (ci_accounts ix).
     if i \<in> set (writable_indices b) then key_at (account_keys b) i else {})"

lemma extracts_index:
  "extracts (key_at keys i) (if i \<in> wr then key_at keys i else {}) (extract_index keys wr i)"
  using extracts_skip extracts_read extracts_write
  by (cases "get keys (unat i)") (auto simp: extract_index_def [abs_def] key_at_def)

lemma extracts_instruction:
  "extracts (key_at keys (program_id_index ix) \<union> (\<Union>i\<in>set (ci_accounts ix). key_at keys i))
     (\<Union>i\<in>set (ci_accounts ix). if i \<in> wr then key_at keys i else {}) (extract_instruction keys wr ix)"
proof -
  have prog: "extracts (key_at keys (program_id_index ix)) {}
      (\<lambda>s. case get keys (unat (program_id_index ix)) of None \<Rightarrow> s | Some k \<Rightarrow> extract_read k s)"
    using extracts_skip extracts_read by (auto simp: key_at_def split: option.splits)
  have accs: "extracts (\<Union>i\<in>set (ci_accounts ix). key_at keys i)
      (\<Union>i\<in>set (ci_accounts ix). if i \<in> wr then key_at keys i else {})
      (fold (extract_index keys wr) (ci_accounts ix))"
    by (rule extracts_fold) (rule extracts_index)
  show ?thesis using extracts_comp [OF prog accs] by (simp add: extract_instruction_def [abs_def])
qed

lemma extract_exact:
  "case extract_account_keys_from_batch b of (rs, ws) \<Rightarrow>
     distinct rs \<and> distinct ws \<and> set ws = batch_writes b \<and> set rs = batch_refs b - batch_writes b"
proof -
  let ?wr = "set (writable_indices b)" and ?keys = "account_keys b"
  let ?init = "\<lparr>ex_read = [], ex_write = [], seen_read = {}, seen_write = {}\<rparr>"
  have all: "extracts (batch_refs b) (batch_writes b) (fold (extract_instruction ?keys ?wr) (batch_instructions b))"
    unfolding batch_refs_def batch_writes_def by (rule extracts_fold) (rule extracts_instruction)
  let ?s = "fold (extract_instruction ?keys ?wr) (batch_instructions b) ?init"
  have "extraction_ok ?init" by (simp add: extraction_ok_def)
  then have ok: "extraction_ok ?s" and "set (ex_write ?s) = set (ex_write ?init) \<union> batch_writes b"
    and "set (ex_read ?s) \<union> set (ex_write ?s) = set (ex_read ?init) \<union> set (ex_write ?init) \<union> batch_refs b"
    using all unfolding extracts_def by blast+
  then have "set (ex_write ?s) = batch_writes b" "set (ex_read ?s) = batch_refs b - batch_writes b"
    unfolding extraction_ok_def by auto
  then show ?thesis
    using ok by (simp add: extract_account_keys_from_batch_def extract_account_keys_with_context_def
        extraction_ok_def Let_def)
qed

text \<open>The lock sets of a transaction are exact: no account is listed twice, an account is to be
  write-locked if and only if some instruction refers to it through a writable index, and read-locked if and
  only if it is otherwise referred to or invoked as a program; no account is in both sets.\<close>

theorem extract_account_keys_exact:
  "case extract_account_keys_from_batch b of (rs, ws) \<Rightarrow>
     distinct rs \<and> distinct ws \<and> set ws = batch_writes b \<and> set rs = batch_refs b - batch_writes b"
  by (rule extract_exact)

section \<open>Batches do not conflict\<close>

definition compatible :: "scheduled_transaction list \<Rightarrow> bool" where
  "compatible txs = sorted_wrt (\<lambda>a b. \<not> conflicts_with a b) txs"

lemma conflicts_sym: "conflicts_with a b \<longleftrightarrow> conflicts_with b a"
  by (auto simp: conflicts_with_def list_ex_iff)

lemma compatible_add:
  "compatible (txs @ [tx]) \<longleftrightarrow> compatible txs \<and> \<not> list_ex (conflicts_with tx) txs"
  using conflicts_sym by (auto simp: compatible_def sorted_wrt_append list_ex_iff)

text \<open>What one pass over the queue does.\<close>

definition pass_ok ::
    "scheduler_config \<Rightarrow> scheduled_transaction list \<Rightarrow> execution_batch \<Rightarrow> scheduled_transaction list
      \<Rightarrow> execution_batch \<Rightarrow> scheduled_transaction list \<Rightarrow> bool" where
  "pass_ok c txs b rest b' rest' \<longleftrightarrow> (\<exists>added kept.
     eb_transactions b' = eb_transactions b @ added \<and> rest' = rest @ kept
     \<and> subseq added txs \<and> subseq kept txs \<and> mset added + mset kept = mset txs
     \<and> (compatible (eb_transactions b) \<longrightarrow> compatible (eb_transactions b'))
     \<and> length (eb_transactions b') \<le> max (length (eb_transactions b)) (max_batch_size c)
     \<and> (\<forall>tx\<in>set kept. max_batch_size c \<le> length (eb_transactions b')
          \<or> list_ex (conflicts_with tx) (eb_transactions b')))"

lemma pass_step_back:
  assumes "pass_ok c txs b (rest @ [tx]) b' rest'"
    and "max_batch_size c \<le> length (eb_transactions b) \<or> list_ex (conflicts_with tx) (eb_transactions b)"
  shows "pass_ok c (tx # txs) b rest b' rest'"
proof -
  obtain added kept where p: "eb_transactions b' = eb_transactions b @ added" "rest' = (rest @ [tx]) @ kept"
    "subseq added txs" "subseq kept txs" "mset added + mset kept = mset txs"
    "compatible (eb_transactions b) \<longrightarrow> compatible (eb_transactions b')"
    "length (eb_transactions b') \<le> max (length (eb_transactions b)) (max_batch_size c)"
    "\<forall>tx\<in>set kept. max_batch_size c \<le> length (eb_transactions b') \<or> list_ex (conflicts_with tx) (eb_transactions b')"
    using assms(1) unfolding pass_ok_def by blast
  then show ?thesis
    using assms(2) unfolding pass_ok_def
    by (intro exI [of _ added] exI [of _ "tx # kept"]) auto
qed

lemma pass_step_add:
  assumes "pass_ok c txs (b\<lparr>eb_total_priority := p, eb_transactions := eb_transactions b @ [tx]\<rparr>) rest b' rest'"
    and "length (eb_transactions b) < max_batch_size c" and "\<not> list_ex (conflicts_with tx) (eb_transactions b)"
  shows "pass_ok c (tx # txs) b rest b' rest'"
proof -
  obtain added kept where p: "eb_transactions b' = (eb_transactions b @ [tx]) @ added" "rest' = rest @ kept"
    "subseq added txs" "subseq kept txs" "mset added + mset kept = mset txs"
    "compatible (eb_transactions b @ [tx]) \<longrightarrow> compatible (eb_transactions b')"
    "length (eb_transactions b') \<le> max (length (eb_transactions b @ [tx])) (max_batch_size c)"
    "\<forall>tx\<in>set kept. max_batch_size c \<le> length (eb_transactions b') \<or> list_ex (conflicts_with tx) (eb_transactions b')"
    using assms(1) unfolding pass_ok_def by auto
  then show ?thesis
    using assms(2,3) compatible_add [of "eb_transactions b" tx] unfolding pass_ok_def
    by (intro exI [of _ "tx # added"] exI [of _ kept]) auto
qed

lemma schedule_loop_pass:
  assumes "schedule_loop c txs b rest n = (b', rest', n')"
  shows "pass_ok c txs b rest b' rest'"
  using assms
proof (induction c txs b rest n rule: schedule_loop.induct)
  case (1 c b rest n)
  then show ?case by (auto simp: pass_ok_def)
next
  case (2 c tx txs b rest n)
  consider (full) "max_batch_size c \<le> length (eb_transactions b)"
    | (clash) "length (eb_transactions b) < max_batch_size c" "list_ex (conflicts_with tx) (eb_transactions b)"
    | (add) "length (eb_transactions b) < max_batch_size c" "\<not> list_ex (conflicts_with tx) (eb_transactions b)"
    by linarith
  then show ?case
  proof cases
    case full
    then show ?thesis using 2 by (intro pass_step_back) auto
  next
    case clash
    then show ?thesis using 2 by (intro pass_step_back) (auto simp: try_add_def)
  next
    case add
    then show ?thesis using 2 by (intro pass_step_add) (auto simp: try_add_def)
  qed
qed

text \<open>The specification of one scheduling round on a non-empty queue.\<close>

definition round_ok :: "scheduler \<Rightarrow> execution_batch \<Rightarrow> scheduler \<Rightarrow> bool" where
  "round_ok s b s' \<longleftrightarrow>
     compatible (eb_transactions b)
     \<and> mset (eb_transactions b) + mset (pending s') = mset (pending s)
     \<and> subseq (eb_transactions b) (pending s) \<and> subseq (pending s') (pending s)
     \<and> eb_transactions b \<noteq> [] \<and> hd (eb_transactions b) = hd (pending s)
     \<and> length (eb_transactions b) \<le> max 1 (max_batch_size (config s))
     \<and> (\<forall>tx\<in>set (pending s'). max_batch_size (config s) \<le> length (eb_transactions b)
          \<or> list_ex (conflicts_with tx) (eb_transactions b))
     \<and> config s' = config s \<and> lock_manager s' = lock_manager s \<and> next_tx_id s' = next_tx_id s
     \<and> next_batch_id s' = next_batch_id s + 1 \<and> eb_id b = next_batch_id s"

lemma schedule_loop_id: "schedule_loop c txs b rest n = (b', rest', n') \<Longrightarrow> eb_id b' = eb_id b"
  by (induction c txs b rest n rule: schedule_loop.induct)
    (auto simp: try_add_def split: if_splits)

lemma round_none_fits:
  assumes "max_batch_size (config s) = 0" and "pending s \<noteq> []"
  shows "\<exists>b s'. schedule_batch s = (Some b, s') \<and> round_ok s b s'"
proof -
  let ?b = "execution_batch_new (next_batch_id s)"
  obtain b rest n where loop: "schedule_loop (config s) (pending s) ?b [] (conflict_count s) = (b, rest, n)"
    using prod_cases3 by blast
  obtain kept where b: "eb_transactions b = []" and rest: "rest = kept" "subseq kept (pending s)" "mset kept = mset (pending s)"
    using schedule_loop_pass [OF loop] assms(1) by (auto simp: pass_ok_def execution_batch_new_def)
  have "kept = pending s" using rest(2,3) by (metis size_mset subseq_same_length)
  then obtain tx txs where "rest = tx # txs" "pending s = tx # txs" using rest(1) assms(2) by (cases "pending s") auto
  then show ?thesis
    using assms b loop schedule_loop_id [OF loop]
    by (auto simp: schedule_batch_def round_ok_def compatible_def execution_batch_new_def)
qed

lemma round_some_fit:
  assumes "0 < max_batch_size (config s)" and "pending s = tx # txs"
  shows "\<exists>b s'. schedule_batch s = (Some b, s') \<and> round_ok s b s'"
proof -
  let ?b = "(execution_batch_new (next_batch_id s))\<lparr>eb_total_priority := ucast (priority tx), eb_transactions := [tx]\<rparr>"
  obtain b rest n where loop: "schedule_loop (config s) txs ?b [] (conflict_count s) = (b, rest, n)"
    using prod_cases3 by blast
  have first: "schedule_loop (config s) (tx # txs) (execution_batch_new (next_batch_id s)) [] (conflict_count s)
      = (b, rest, n)"
    using loop assms(1) by (simp add: try_add_def execution_batch_new_def)
  have "compatible [tx]" by (simp add: compatible_def)
  then obtain added where "eb_transactions b = tx # added" "subseq added txs" "subseq rest txs"
    "mset added + mset rest = mset txs" "compatible (eb_transactions b)"
    "length (eb_transactions b) \<le> max 1 (max_batch_size (config s))"
    "\<forall>tx\<in>set rest. max_batch_size (config s) \<le> length (eb_transactions b) \<or> list_ex (conflicts_with tx) (eb_transactions b)"
    using schedule_loop_pass [OF loop] by (auto simp: pass_ok_def)
  then show ?thesis
    using assms first schedule_loop_id [OF first]
    by (auto simp: schedule_batch_def round_ok_def execution_batch_new_def)
qed

lemma schedule_batch_round: "pending s \<noteq> [] \<Longrightarrow> \<exists>b s'. schedule_batch s = (Some b, s') \<and> round_ok s b s'"
  using round_none_fits [of s] round_some_fit [of s] by (cases "pending s") auto

text \<open>C2. A scheduling round with transactions pending always yields a batch. Its transactions are pairwise free
  of write-write and read-write conflicts; together with what stays queued they are exactly the transactions
  that were pending, each kept in order; the oldest is among them, so none waits forever; and whatever stays
  queued conflicts with the batch, unless the batch is full.\<close>

theorem schedule_batch_correct:
  assumes "pending s \<noteq> []"
  shows "\<exists>b s'. schedule_batch s = (Some b, s')
     \<and> compatible (eb_transactions b)
     \<and> mset (eb_transactions b) + mset (pending s') = mset (pending s)
     \<and> subseq (eb_transactions b) (pending s) \<and> subseq (pending s') (pending s)
     \<and> hd (eb_transactions b) = hd (pending s)
     \<and> length (eb_transactions b) \<le> max 1 (max_batch_size (config s))
     \<and> (\<forall>tx\<in>set (pending s'). max_batch_size (config s) \<le> length (eb_transactions b)
          \<or> list_ex (conflicts_with tx) (eb_transactions b))"
  using schedule_batch_round [OF assms] unfolding round_ok_def by blast

text \<open>Scheduling until the queue is empty.\<close>

fun drain :: "nat \<Rightarrow> scheduler \<Rightarrow> execution_batch list \<times> scheduler" where
  "drain 0 s = ([], s)"
| "drain (Suc n) s = (case schedule_batch s of (None, s') \<Rightarrow> ([], s')
     | (Some b, s') \<Rightarrow> (case drain n s' of (bs, s'') \<Rightarrow> (b # bs, s'')))"

lemma drain_ok:
  assumes "length (pending s) \<le> n"
  shows "\<exists>bs s'. drain n s = (bs, s') \<and> pending s' = [] \<and> length bs \<le> length (pending s)
    \<and> mset (concat (map eb_transactions bs)) = mset (pending s)
    \<and> (\<forall>b\<in>set bs. compatible (eb_transactions b))"
  using assms
proof (induction n arbitrary: s)
  case (Suc n)
  show ?case
  proof (cases "pending s = []")
    case True
    then show ?thesis by (simp add: schedule_batch_def)
  next
    case False
    obtain b s1 where step: "schedule_batch s = (Some b, s1)" and ok: "round_ok s b s1"
      using schedule_batch_round [OF False] by blast
    have len: "length (eb_transactions b) + length (pending s1) = length (pending s)"
      using ok unfolding round_ok_def by (metis size_mset size_union)
    moreover have "0 < length (eb_transactions b)" using ok by (simp add: round_ok_def)
    ultimately have fuel: "length (pending s1) \<le> n" using Suc.prems by linarith
    obtain bs s' where rest: "drain n s1 = (bs, s')" "pending s' = []" "length bs \<le> length (pending s1)"
      "mset (concat (map eb_transactions bs)) = mset (pending s1)"
      "\<forall>b\<in>set bs. compatible (eb_transactions b)"
      using Suc.IH [OF fuel] by blast
    have "length (b # bs) \<le> length (pending s)"
      using rest(3) len \<open>0 < length (eb_transactions b)\<close> unfolding list.size by linarith
    then show ?thesis
      using step rest ok by (auto simp: round_ok_def)
  qed
qed simp

text \<open>C13. Calling the scheduler as often as there are transactions pending empties the queue: the batches
  it returns contain every pending transaction exactly once, whatever the batch size.\<close>

theorem scheduler_drains:
  "\<exists>bs s'. drain (length (pending s)) s = (bs, s') \<and> pending s' = []
    \<and> mset (concat (map eb_transactions bs)) = mset (pending s)
    \<and> list_all (\<lambda>b. compatible (eb_transactions b)) bs"
  using drain_ok [of s "length (pending s)"] by (auto simp: list_all_iff)

section \<open>The lock manager keeps conflicting transactions apart\<close>

text \<open>The abstract service: a list of granted requests, no two of which conflict.\<close>

record request =
  rq_id :: u64
  rq_reads :: "pubkey list"
  rq_writes :: "pubkey list"

definition clash :: "request \<Rightarrow> request \<Rightarrow> bool" where
  "clash a b \<longleftrightarrow> set (rq_writes a) \<inter> (set (rq_writes b) \<union> set (rq_reads b)) \<noteq> {}
     \<or> set (rq_reads a) \<inter> set (rq_writes b) \<noteq> {}"

locale lock_service =
  fixes acquire :: "request \<Rightarrow> 's \<Rightarrow> bool \<times> 's"
    and release :: "request \<Rightarrow> 's \<Rightarrow> 's"
    and held :: "'s \<Rightarrow> request set \<Rightarrow> bool"
  assumes grants: "held s H \<Longrightarrow> rq_id r \<notin> rq_id ` H \<Longrightarrow> \<forall>h\<in>H. \<not> clash r h \<Longrightarrow>
      \<exists>s'. acquire r s = (True, s') \<and> held s' (insert r H)"
    and refuses: "held s H \<Longrightarrow> h \<in> H \<Longrightarrow> clash r h \<Longrightarrow> acquire r s = (False, s)"
    and releases: "held s H \<Longrightarrow> r \<in> H \<Longrightarrow> held (release r s) (H - {r})"
    and unique: "held s H \<Longrightarrow> held s' H \<Longrightarrow> s = s'"
begin

text \<open>Requests in sequence: all are granted, or those granted are given back.\<close>

fun acquire_all :: "request list \<Rightarrow> request list \<Rightarrow> 's \<Rightarrow> bool \<times> 's" where
  "acquire_all [] got s = (True, s)"
| "acquire_all (r # rs) got s = (case acquire r s of
     (True, s') \<Rightarrow> acquire_all rs (got @ [r]) s'
   | (False, s') \<Rightarrow> (False, fold release got s'))"

lemma release_all:
  assumes "held s (H \<union> set rs)" and "distinct rs" and "H \<inter> set rs = {}"
  shows "held (fold release rs s) H"
  using assms
proof (induction rs arbitrary: s)
  case (Cons r rs)
  have "held (release r s) ((H \<union> set (r # rs)) - {r})"
    using Cons.prems(1) by (intro releases) auto
  moreover have "(H \<union> set (r # rs)) - {r} = H \<union> set rs" using Cons.prems(2,3) by auto
  ultimately show ?case using Cons by simp
qed simp

lemma acquire_all_undo:
  assumes "held s (H \<union> set got)" and "held s0 H" and "distinct (map rq_id (got @ rs))"
    and "rq_id ` H \<inter> rq_id ` set (got @ rs) = {}"
  shows "case acquire_all rs got s of
      (True, s') \<Rightarrow> held s' (H \<union> set got \<union> set rs) | (False, s') \<Rightarrow> s' = s0"
  using assms
proof (induction rs arbitrary: got s)
  case (Cons r rs)
  have fresh: "rq_id r \<notin> rq_id ` (H \<union> set got)" using Cons.prems(3,4) by auto
  show ?case
  proof (cases "\<forall>h\<in>H \<union> set got. \<not> clash r h")
    case True
    obtain s' where s': "acquire r s = (True, s')" "held s' (insert r (H \<union> set got))"
      using grants [OF Cons.prems(1) fresh True] by blast
    have "insert r (H \<union> set got) = H \<union> set (got @ [r])"
      "H \<union> set (got @ [r]) \<union> set rs = H \<union> set got \<union> set (r # rs)" by auto
    then show ?thesis
      using Cons.IH [of s' "got @ [r]"] Cons.prems s' by (simp split: prod.splits bool.splits)
  next
    case False
    then obtain h where "h \<in> H \<union> set got" "clash r h" by blast
    then have refused: "acquire r s = (False, s)" using refuses [OF Cons.prems(1)] by blast
    have "distinct got" "H \<inter> set got = {}"
      using Cons.prems(3,4) by (auto simp: distinct_map)
    then have "held (fold release got s) H" using release_all Cons.prems(1) by blast
    then show ?thesis using refused unique Cons.prems(2) by simp
  qed
qed simp

lemma acquire_all_granted:
  assumes "held s (H \<union> set got)" and "distinct (map rq_id (got @ rs))"
    and "rq_id ` H \<inter> rq_id ` set (got @ rs) = {}"
    and "sorted_wrt (\<lambda>a b. \<not> clash b a) (got @ rs)" and "\<forall>r\<in>set rs. \<forall>h\<in>H. \<not> clash r h"
  shows "\<exists>s'. acquire_all rs got s = (True, s') \<and> held s' (H \<union> set got \<union> set rs)"
  using assms
proof (induction rs arbitrary: got s)
  case (Cons r rs)
  have "rq_id r \<notin> rq_id ` (H \<union> set got)" using Cons.prems(2,3) by auto
  moreover have "\<forall>h\<in>H \<union> set got. \<not> clash r h"
    using Cons.prems(4,5) by (auto simp: sorted_wrt_append)
  ultimately obtain s' where s': "acquire r s = (True, s')" "held s' (insert r (H \<union> set got))"
    using grants [OF Cons.prems(1)] by blast
  have "insert r (H \<union> set got) = H \<union> set (got @ [r])"
    "H \<union> set (got @ [r]) \<union> set rs = H \<union> set got \<union> set (r # rs)" by auto
  then show ?case using Cons.IH [of s' "got @ [r]"] Cons.prems s' by simp
qed simp

end

text \<open>What the tables look like when exactly the requests \<open>H\<close> are held.\<close>

definition readers :: "request set \<Rightarrow> pubkey \<Rightarrow> u64 set" where
  "readers H k = {rq_id h |h. h \<in> H \<and> k \<in> set (rq_reads h)}"

definition tables_hold :: "lock_tables \<Rightarrow> request set \<Rightarrow> bool" where
  "tables_hold t H \<longleftrightarrow> inj_on rq_id H \<and> (\<forall>a\<in>H. \<forall>b\<in>H. a \<noteq> b \<longrightarrow> \<not> clash a b)
     \<and> (\<forall>k i. write_locks t k = Some i \<longleftrightarrow> (\<exists>h\<in>H. rq_id h = i \<and> k \<in> set (rq_writes h)))
     \<and> (\<forall>k. read_locks t k = (if readers H k = {} then None else Some (readers H k)))"

definition acquire_request :: "request \<Rightarrow> lock_tables \<Rightarrow> bool \<times> lock_tables" where
  "acquire_request r t = (case try_acquire_locks (rq_id r) (rq_reads r) (rq_writes r) t of
     (Inr _, t') \<Rightarrow> (True, t') | (Inl _, t') \<Rightarrow> (False, t'))"

definition release_request :: "request \<Rightarrow> lock_tables \<Rightarrow> lock_tables" where
  "release_request r = release_locks (rq_id r) (granted_locks (rq_id r) (rq_reads r) (rq_writes r))"

lemma take_writes:
  "write_locks (fold (\<lambda>k t. t\<lparr>write_locks := (write_locks t)(k \<mapsto> i)\<rparr>) ws t) k
     = (if k \<in> set ws then Some i else write_locks t k)"
  "read_locks (fold (\<lambda>k t. t\<lparr>write_locks := (write_locks t)(k \<mapsto> i)\<rparr>) ws t) = read_locks t"
  by (induction ws arbitrary: t) auto

lemma take_reads:
  "write_locks (fold (add_reader i) rs t) = write_locks t"
  "read_locks (fold (add_reader i) rs t) k
     = (if k \<in> set rs then Some (insert i (case read_locks t k of None \<Rightarrow> {} | Some R \<Rightarrow> R)) else read_locks t k)"
  by (induction rs arbitrary: t) (auto simp: add_reader_def split: option.splits)

lemma take_locks_tables:
  "write_locks (take_locks i rs ws t) k = (if k \<in> set ws then Some i else write_locks t k)"
  "read_locks (take_locks i rs ws t) k
     = (if k \<in> set rs then Some (insert i (case read_locks t k of None \<Rightarrow> {} | Some R \<Rightarrow> R)) else read_locks t k)"
  by (simp_all add: take_locks_def take_reads take_writes)

lemma release_writes:
  "write_locks (fold (release_lock i) (map (\<lambda>k. \<lparr>lk_account = k, lk_type = WriteLock, lk_holder = j\<rparr>) ws) t) k
     = (if k \<in> set ws \<and> write_locks t k = Some i then None else write_locks t k)"
  "read_locks (fold (release_lock i) (map (\<lambda>k. \<lparr>lk_account = k, lk_type = WriteLock, lk_holder = j\<rparr>) ws) t) = read_locks t"
  by (induction ws arbitrary: t) (auto simp: release_lock_def)

lemma release_reads:
  "write_locks (fold (release_lock i) (map (\<lambda>k. \<lparr>lk_account = k, lk_type = ReadLock, lk_holder = j\<rparr>) rs) t) = write_locks t"
  "read_locks (fold (release_lock i) (map (\<lambda>k. \<lparr>lk_account = k, lk_type = ReadLock, lk_holder = j\<rparr>) rs) t) k
     = (if k \<in> set rs then (case read_locks t k of None \<Rightarrow> None
          | Some R \<Rightarrow> if R - {i} = {} then None else Some (R - {i})) else read_locks t k)"
  by (induction rs arbitrary: t) (auto simp: release_lock_def split: option.splits)

lemma release_request_tables:
  "write_locks (release_request r t) k
     = (if k \<in> set (rq_writes r) \<and> write_locks t k = Some (rq_id r) then None else write_locks t k)"
  "read_locks (release_request r t) k
     = (if k \<in> set (rq_reads r) then (case read_locks t k of None \<Rightarrow> None
          | Some R \<Rightarrow> if R - {rq_id r} = {} then None else Some (R - {rq_id r})) else read_locks t k)"
  by (simp_all add: release_request_def release_locks_def granted_locks_def release_reads release_writes)

lemma hold_readers: "tables_hold t H \<Longrightarrow> has_readers t k \<longleftrightarrow> readers H k \<noteq> {}"
  by (simp add: tables_hold_def has_readers_def)

lemma locks_free_iff:
  assumes "tables_hold t H"
  shows "locks_free t (rq_reads r) (rq_writes r) \<longleftrightarrow> (\<forall>h\<in>H. \<not> clash r h)"
proof -
  have w: "write_locks t k = None \<longleftrightarrow> (\<forall>h\<in>H. k \<notin> set (rq_writes h))" for k
    using assms unfolding tables_hold_def by (metis not_None_eq option.distinct(1))
  have r: "readers H k \<noteq> {} \<longleftrightarrow> (\<exists>h\<in>H. k \<in> set (rq_reads h))" for k
    unfolding readers_def by blast
  show ?thesis
    unfolding locks_free_def list_all_iff hold_readers [OF assms] w r clash_def by blast
qed

lemma readers_insert:
  "readers (insert r H) k = (if k \<in> set (rq_reads r) then insert (rq_id r) (readers H k) else readers H k)"
  unfolding readers_def by auto

lemma clash_sym: "clash a b \<longleftrightarrow> clash b a"
  unfolding clash_def by blast

lemma readers_remove:
  assumes "inj_on rq_id H" and "r \<in> H"
  shows "readers (H - {r}) k = readers H k - (if k \<in> set (rq_reads r) then {rq_id r} else {})"
proof -
  have "rq_id h = rq_id r \<Longrightarrow> h \<in> H \<Longrightarrow> h = r" for h using assms by (auto dest: inj_onD)
  then show ?thesis unfolding readers_def by auto
qed

lemma hold_grant:
  assumes "tables_hold t H" and "rq_id r \<notin> rq_id ` H" and "\<forall>h\<in>H. \<not> clash r h"
  shows "tables_hold (take_locks (rq_id r) (rq_reads r) (rq_writes r) t) (insert r H)"
proof -
  let ?t = "take_locks (rq_id r) (rq_reads r) (rq_writes r) t"
  have "write_locks ?t k = Some i \<longleftrightarrow> (\<exists>h\<in>insert r H. rq_id h = i \<and> k \<in> set (rq_writes h))" for k i
    using assms(1,3) unfolding tables_hold_def take_locks_tables clash_def by auto
  moreover have "read_locks ?t k = (if readers (insert r H) k = {} then None else Some (readers (insert r H) k))" for k
    using assms(1) by (simp add: tables_hold_def take_locks_tables readers_insert)
  moreover have "inj_on rq_id (insert r H)" using assms(1,2) by (auto simp: tables_hold_def)
  moreover have "\<forall>a\<in>insert r H. \<forall>b\<in>insert r H. a \<noteq> b \<longrightarrow> \<not> clash a b"
    using assms(1,3) clash_sym unfolding tables_hold_def by blast
  ultimately show ?thesis unfolding tables_hold_def by blast
qed

lemma hold_release:
  assumes "tables_hold t H" and "r \<in> H"
  shows "tables_hold (release_request r t) (H - {r})"
proof -
  have inj: "inj_on rq_id H" and apart: "\<And>a b. a \<in> H \<Longrightarrow> b \<in> H \<Longrightarrow> a \<noteq> b \<Longrightarrow> \<not> clash a b"
    and w: "\<And>k i. write_locks t k = Some i \<longleftrightarrow> (\<exists>h\<in>H. rq_id h = i \<and> k \<in> set (rq_writes h))"
    and rd: "\<And>k. read_locks t k = (if readers H k = {} then None else Some (readers H k))"
    using assms(1) unfolding tables_hold_def by blast+
  have only: "h = r" if "h \<in> H" "k \<in> set (rq_writes h)" "k \<in> set (rq_writes r)" for h k
    using apart [OF that(1) assms(2)] that unfolding clash_def by blast
  have own: "write_locks t k = Some (rq_id r)" if "k \<in> set (rq_writes r)" for k
    using w assms(2) that by blast
  have "write_locks (release_request r t) k = Some i \<longleftrightarrow> (\<exists>h\<in>H - {r}. rq_id h = i \<and> k \<in> set (rq_writes h))" for k i
  proof (cases "k \<in> set (rq_writes r)")
    case True
    then show ?thesis using own only by (auto simp: release_request_tables)
  next
    case False
    then show ?thesis using w [of k i] by (auto simp: release_request_tables)
  qed
  moreover have "read_locks (release_request r t) k
      = (if readers (H - {r}) k = {} then None else Some (readers (H - {r}) k))" for k
    using rd [of k] by (auto simp: release_request_tables readers_remove [OF inj assms(2)])
  moreover have "inj_on rq_id (H - {r})" using inj by (auto intro: inj_on_diff)
  ultimately show ?thesis using apart unfolding tables_hold_def by blast
qed

lemma hold_unique:
  assumes "tables_hold t H" and "tables_hold t' H"
  shows "t = t'"
proof (rule lock_tables.equality)
  show "read_locks t = read_locks t'" using assms by (auto simp: tables_hold_def)
  have "write_locks t k = Some i \<longleftrightarrow> write_locks t' k = Some i" for k i
    using assms unfolding tables_hold_def by blast
  then show "write_locks t = write_locks t'" by (metis ext not_None_eq option.exhaust)
qed simp

interpretation manager: lock_service acquire_request release_request tables_hold
proof
  fix t t' H r h
  show "tables_hold t H \<Longrightarrow> rq_id r \<notin> rq_id ` H \<Longrightarrow> \<forall>h\<in>H. \<not> clash r h \<Longrightarrow>
      \<exists>t'. acquire_request r t = (True, t') \<and> tables_hold t' (insert r H)"
    using locks_free_iff [of t H r] hold_grant [of t H r]
    by (simp add: acquire_request_def try_acquire_locks_def)
  show "tables_hold t H \<Longrightarrow> h \<in> H \<Longrightarrow> clash r h \<Longrightarrow> acquire_request r t = (False, t)"
    using locks_free_iff [of t H r] by (auto simp: acquire_request_def try_acquire_locks_def)
  show "tables_hold t H \<Longrightarrow> r \<in> H \<Longrightarrow> tables_hold (release_request r t) (H - {r})"
    by (rule hold_release)
  show "tables_hold t H \<Longrightarrow> tables_hold t' H \<Longrightarrow> t = t'"
    by (rule hold_unique)
qed

section \<open>Locking a batch\<close>

definition request_of :: "scheduled_transaction \<Rightarrow> request" where
  "request_of tx = \<lparr>rq_id = tx_id tx, rq_reads = read_accounts tx, rq_writes = write_accounts tx\<rparr>"

definition granted_of :: "scheduled_transaction \<Rightarrow> account_lock list" where
  "granted_of tx = granted_locks (tx_id tx) (read_accounts tx) (write_accounts tx)"

lemma clash_request: "clash (request_of a) (request_of b) \<longleftrightarrow> conflicts_with a b"
  by (auto simp: clash_def request_of_def conflicts_with_def list_ex_iff)

lemma release_granted_requests:
  "release_granted (map (\<lambda>tx. (tx_id tx, granted_of tx)) txs) t = fold release_request (map request_of txs) t"
  by (induction txs arbitrary: t)
    (simp_all add: release_granted_def release_request_def request_of_def granted_of_def)

lemma acquire_request_tx:
  "try_acquire_locks (tx_id tx) (read_accounts tx) (write_accounts tx) t =
     (if locks_free t (read_accounts tx) (write_accounts tx)
      then (Inr (granted_of tx), take_locks (tx_id tx) (read_accounts tx) (write_accounts tx) t)
      else (Inl AccountLocked, t))"
  "acquire_request (request_of tx) t =
     (if locks_free t (read_accounts tx) (write_accounts tx)
      then (True, take_locks (tx_id tx) (read_accounts tx) (write_accounts tx) t) else (False, t))"
  by (simp_all add: acquire_request_def try_acquire_locks_def request_of_def granted_of_def)

lemma acquire_loop_requests:
  "acquire_loop txs (map (\<lambda>tx. (tx_id tx, granted_of tx)) got) t =
     (case manager.acquire_all (map request_of txs) (map request_of got) t of
        (True, t') \<Rightarrow> (Inr (map granted_of (got @ txs)), t')
      | (False, t') \<Rightarrow> (Inl AccountLocked, t'))"
proof (induction txs arbitrary: got t)
  case Nil
  then show ?case by (simp add: o_def)
next
  case (Cons tx txs)
  show ?case
  proof (cases "locks_free t (read_accounts tx) (write_accounts tx)")
    case True
    then show ?thesis
      using Cons [of "got @ [tx]" "take_locks (tx_id tx) (read_accounts tx) (write_accounts tx) t",
          unfolded append_assoc append.simps]
      by (simp add: acquire_request_tx)
  next
    case False
    then show ?thesis by (simp add: acquire_request_tx release_granted_requests)
  qed
qed

lemma release_batch_requests:
  "fold (\<lambda>(tx, ls). release_locks (tx_id tx) ls) (zip txs (map granted_of txs)) t
     = fold release_request (map request_of txs) t"
  by (induction txs arbitrary: t) (simp_all add: release_request_def request_of_def granted_of_def)

text \<open>C5. Locking a scheduled batch: when no other holder of a lock conflicts with it, the locks of all its
  transactions are granted, and releasing them restores the lock tables exactly.\<close>

theorem batch_locks_cycle:
  assumes "compatible (eb_transactions b)" and "distinct (map tx_id (eb_transactions b))"
    and "tables_hold (lock_manager s) H" and "rq_id ` H \<inter> tx_id ` set (eb_transactions b) = {}"
    and "\<forall>tx\<in>set (eb_transactions b). \<forall>h\<in>H. \<not> clash (request_of tx) h"
  shows "\<exists>lss s'. acquire_batch_locks b s = (Inr lss, s')
    \<and> tables_hold (lock_manager s') (H \<union> request_of ` set (eb_transactions b))
    \<and> release_batch_locks b lss s' = s"
proof -
  let ?txs = "eb_transactions b" and ?rs = "map request_of (eb_transactions b)"
  have ids: "distinct (map rq_id ?rs)" using assms(2) by (simp add: request_of_def o_def)
  have apart: "sorted_wrt (\<lambda>a b. \<not> clash b a) ?rs"
    using assms(1) conflicts_sym by (simp add: compatible_def sorted_wrt_map clash_request)
  have fresh: "rq_id ` H \<inter> rq_id ` set ?rs = {}"
    using assms(4) by (auto simp: request_of_def)
  obtain t where t: "manager.acquire_all ?rs [] (lock_manager s) = (True, t)" "tables_hold t (H \<union> set ?rs)"
    using manager.acquire_all_granted [of "lock_manager s" H "[]" ?rs,
        unfolded append.simps list.set Un_empty_right] assms(3,5) ids apart fresh by auto
  have "H \<inter> set ?rs = {}" using fresh by blast
  moreover have "distinct ?rs" using ids unfolding distinct_map [of rq_id ?rs] by blast
  ultimately have "tables_hold (fold release_request ?rs t) H"
    using manager.release_all t(2) by blast
  then have restored: "fold release_request ?rs t = lock_manager s"
    using hold_unique assms(3) by blast
  have "acquire_batch_locks b s = (Inr (map granted_of ?txs), s\<lparr>lock_manager := t\<rparr>)"
    using acquire_loop_requests [of ?txs "[]" "lock_manager s"] t(1) by (simp add: acquire_batch_locks_def)
  then show ?thesis
    using t(2) restored by (simp add: release_batch_locks_def release_batch_requests)
qed

text \<open>A batch whose locks are refused leaves no lock behind: whether or not it can be locked, the scheduler
  either holds the locks of all its transactions or is unchanged.\<close>

theorem batch_locks_all_or_nothing:
  assumes "distinct (map tx_id (eb_transactions b))" and "tables_hold (lock_manager s) H"
    and "rq_id ` H \<inter> tx_id ` set (eb_transactions b) = {}"
    and "acquire_batch_locks b s = (r, s')"
  shows "(\<exists>e. r = Inl e) \<and> s' = s
    \<or> (\<exists>lss. r = Inr lss) \<and> tables_hold (lock_manager s') (H \<union> request_of ` set (eb_transactions b))"
proof -
  let ?txs = "eb_transactions b" and ?rs = "map request_of (eb_transactions b)"
  have ids: "distinct (map rq_id ?rs)" using assms(1) by (simp add: request_of_def o_def)
  have fresh: "rq_id ` H \<inter> rq_id ` set ?rs = {}" using assms(3) by (auto simp: request_of_def)
  obtain g t where acq: "manager.acquire_all ?rs [] (lock_manager s) = (g, t)" by fastforce
  have "case manager.acquire_all ?rs [] (lock_manager s) of
      (True, t') \<Rightarrow> tables_hold t' (H \<union> set [] \<union> set ?rs) | (False, t') \<Rightarrow> t' = lock_manager s"
    by (rule manager.acquire_all_undo) (use assms(2) ids fresh in simp_all)
  then have "if g then tables_hold t (H \<union> set ?rs) else t = lock_manager s"
    using acq by (simp split: if_splits bool.splits)
  then show ?thesis
    using acquire_loop_requests [of ?txs "[]" "lock_manager s"] acq assms(4)
    by (cases g) (auto simp: acquire_batch_locks_def)
qed

section \<open>Concurrent acquisition\<close>

text \<open>Several threads calling \<^verbatim>\<open>try_acquire_locks\<close> on one manager. Each of its two blocks is atomic, since it
  holds the guards of both tables; between them the guards are dropped.\<close>

datatype acquirer = Wanting request | Checked request | Holding request | Denied request

record lock_system =
  ls_tables :: lock_tables
  ls_threads :: "acquirer list"

inductive lock_step :: "lock_system \<Rightarrow> lock_system \<Rightarrow> bool" where
  check_free: "i < length (ls_threads s) \<Longrightarrow> ls_threads s ! i = Wanting r \<Longrightarrow>
    locks_free (ls_tables s) (rq_reads r) (rq_writes r) \<Longrightarrow>
    lock_step s (s\<lparr>ls_threads := (ls_threads s)[i := Checked r]\<rparr>)"
| check_taken: "i < length (ls_threads s) \<Longrightarrow> ls_threads s ! i = Wanting r \<Longrightarrow>
    \<not> locks_free (ls_tables s) (rq_reads r) (rq_writes r) \<Longrightarrow>
    lock_step s (s\<lparr>ls_threads := (ls_threads s)[i := Denied r]\<rparr>)"
| acquire: "i < length (ls_threads s) \<Longrightarrow> ls_threads s ! i = Checked r \<Longrightarrow>
    lock_step s (s\<lparr>ls_tables := take_locks (rq_id r) (rq_reads r) (rq_writes r) (ls_tables s),
      ls_threads := (ls_threads s)[i := Holding r]\<rparr>)"
| release: "i < length (ls_threads s) \<Longrightarrow> ls_threads s ! i = Holding r \<Longrightarrow>
    lock_step s (s\<lparr>ls_tables := release_request r (ls_tables s),
      ls_threads := (ls_threads s)[i := Wanting r]\<rparr>)"

inductive lock_reachable :: "request list \<Rightarrow> lock_system \<Rightarrow> bool" for rs where
  start: "lock_reachable rs \<lparr>ls_tables = locks_new, ls_threads = map Wanting rs\<rparr>"
| step: "lock_reachable rs s \<Longrightarrow> lock_step s s' \<Longrightarrow> lock_reachable rs s'"

lemma locks_new_free: "locks_free locks_new rs ws"
  by (simp add: locks_free_def locks_new_def has_readers_def list_all_iff)

lemma both_checked:
  "lock_reachable [r1, r2] \<lparr>ls_tables = locks_new, ls_threads = [Checked r1, Checked r2]\<rparr>"
proof -
  let ?s = "\<lambda>a b. \<lparr>ls_tables = locks_new, ls_threads = [a, b]\<rparr>"
  have "lock_step (?s (Wanting r1) (Wanting r2)) (?s (Checked r1) (Wanting r2))"
    using check_free [of 0 "?s (Wanting r1) (Wanting r2)" r1] locks_new_free by simp
  moreover have "lock_step (?s (Checked r1) (Wanting r2)) (?s (Checked r1) (Checked r2))"
    using check_free [of 1 "?s (Checked r1) (Wanting r2)" r2] locks_new_free by simp
  moreover have "lock_reachable [r1, r2] (?s (Wanting r1) (Wanting r2))"
    using lock_reachable.start [of "[r1, r2]"] by simp
  ultimately show ?thesis by (blast intro: lock_reachable.step)
qed

text \<open>The check and the acquisition of \<^verbatim>\<open>try_acquire_locks\<close> are not one atomic step: any two
  requests, conflicting ones included, can both be granted when the two callers check before either acquires;
  the write lock then names only one of them.\<close>

theorem try_acquire_race:
  "\<exists>s. lock_reachable [r1, r2] s \<and> ls_threads s = [Holding r1, Holding r2]
    \<and> list_all (\<lambda>k. write_locks (ls_tables s) k = Some (rq_id r2)) (rq_writes r2)"
proof -
  let ?t1 = "take_locks (rq_id r1) (rq_reads r1) (rq_writes r1) locks_new"
  let ?t2 = "take_locks (rq_id r2) (rq_reads r2) (rq_writes r2) ?t1"
  let ?s = "\<lambda>t a b. \<lparr>ls_tables = t, ls_threads = [a, b]\<rparr>"
  have "lock_step (?s locks_new (Checked r1) (Checked r2)) (?s ?t1 (Holding r1) (Checked r2))"
    using acquire [of 0 "?s locks_new (Checked r1) (Checked r2)" r1] by simp
  moreover have "lock_step (?s ?t1 (Holding r1) (Checked r2)) (?s ?t2 (Holding r1) (Holding r2))"
    using acquire [of 1 "?s ?t1 (Holding r1) (Checked r2)" r2] by simp
  ultimately have "lock_reachable [r1, r2] (?s ?t2 (Holding r1) (Holding r2))"
    using both_checked by (blast intro: lock_reachable.step)
  moreover have "list_all (\<lambda>k. write_locks ?t2 k = Some (rq_id r2)) (rq_writes r2)"
    by (simp add: take_locks_tables list_all_iff)
  ultimately show ?thesis by (metis lock_system.select_convs)
qed

section \<open>Witnesses\<close>

definition demo_tx :: "u64 \<Rightarrow> pubkey list \<Rightarrow> pubkey list \<Rightarrow> scheduled_transaction" where
  "demo_tx i rs ws = new_with_accounts i \<lparr>account_keys = [], signer_indices = [], writable_indices = [],
     batch_instructions = [], recent_blockhash = 0, intent_id = None\<rparr> rs ws 100"

definition demo_scheduler :: scheduler where
  "demo_scheduler = (scheduler_new scheduler_config_default)
     \<lparr>pending := [demo_tx 0 [7] [1], demo_tx 1 [] [7], demo_tx 2 [7] [2]]\<rparr>"

lemma demo_round:
  "schedule_batch demo_scheduler =
     (Some \<lparr>eb_id = 0, eb_transactions = [demo_tx 0 [7] [1], demo_tx 2 [7] [2]], eb_total_priority = 200\<rparr>,
      demo_scheduler\<lparr>next_batch_id := 1, conflict_count := 1, pending := [demo_tx 1 [] [7]]\<rparr>)"
  by (simp add: schedule_batch_def demo_scheduler_def scheduler_new_def scheduler_config_default_def
      execution_batch_new_def try_add_def conflicts_with_def demo_tx_def new_with_accounts_def)

theorem schedule_batch_correct_witness:
  "\<exists>b s'. schedule_batch demo_scheduler = (Some b, s') \<and> compatible (eb_transactions b)
     \<and> eb_transactions b = [demo_tx 0 [7] [1], demo_tx 2 [7] [2]] \<and> pending s' = [demo_tx 1 [] [7]]"
proof -
  have "pending demo_scheduler \<noteq> []" by (simp add: demo_scheduler_def)
  then obtain b s' where "schedule_batch demo_scheduler = (Some b, s')" "compatible (eb_transactions b)"
    using schedule_batch_correct by blast
  then show ?thesis by (auto simp: demo_round)
qed

definition demo_batch :: execution_batch where
  "demo_batch = \<lparr>eb_id = 0, eb_transactions = [demo_tx 0 [7] [1], demo_tx 2 [7] [2]], eb_total_priority = 200\<rparr>"

lemma demo_batch_ok:
  "compatible (eb_transactions demo_batch)" "distinct (map tx_id (eb_transactions demo_batch))"
  "tables_hold (lock_manager demo_scheduler) {}"
  by (simp_all add: demo_batch_def compatible_def conflicts_with_def demo_tx_def new_with_accounts_def
      tables_hold_def demo_scheduler_def scheduler_new_def locks_new_def readers_def)

theorem batch_locks_cycle_witness:
  "\<exists>lss s'. acquire_batch_locks demo_batch demo_scheduler = (Inr lss, s')
    \<and> tables_hold (lock_manager s') (request_of ` {demo_tx 0 [7] [1], demo_tx 2 [7] [2]})
    \<and> release_batch_locks demo_batch lss s' = demo_scheduler"
  using batch_locks_cycle [OF demo_batch_ok] by (simp add: demo_batch_def)

theorem batch_locks_all_or_nothing_witness:
  "\<exists>r s'. acquire_batch_locks \<lparr>eb_id = 0, eb_transactions = [demo_tx 0 [] [1], demo_tx 1 [] [1]], eb_total_priority = 0\<rparr>
      demo_scheduler = (r, s') \<and> r = Inl AccountLocked \<and> s' = demo_scheduler"
proof -
  let ?b = "\<lparr>eb_id = 0, eb_transactions = [demo_tx 0 [] [1], demo_tx 1 [] [1]], eb_total_priority = 0\<rparr>"
  obtain s' where run: "acquire_batch_locks ?b demo_scheduler = (Inl AccountLocked, s')"
    by (simp add: acquire_batch_locks_def try_acquire_locks_def locks_free_def demo_tx_def new_with_accounts_def
        demo_scheduler_def scheduler_new_def locks_new_def has_readers_def take_locks_def)
  moreover have "distinct (map tx_id (eb_transactions ?b))" by (simp add: demo_tx_def new_with_accounts_def)
  ultimately show ?thesis
    using batch_locks_all_or_nothing [OF _ demo_batch_ok(3), of ?b] by simp
qed

end
