(* ===== verification/Events.thy ===== *)
theory Events
  imports Pda
begin

text \<open>
  \<^verbatim>\<open>crates/dchat-programs/src/events.rs\<close>: events and their index, account deltas, execution receipts with
  their hash, the event collector of a transaction with its checkpoints, and event filters. An
  eight-byte discriminator is a 64-bit word. The text of an error (\<^verbatim>\<open>to_string\<close>, generated by the
  \<^verbatim>\<open>thiserror\<close> macro) is a parameter of \<open>receipt_failure\<close>.
\<close>

section \<open>Events\<close>

definition event_id_generate :: "crypto \<Rightarrow> hash32 \<Rightarrow> pubkey \<Rightarrow> u32 \<Rightarrow> hash32" where
  "event_id_generate c tx_hash program_id idx =
     blake3 c (as_bytes tx_hash @ as_bytes program_id @ le_bytes 4 idx)"

record program_event =
  ev_id :: hash32
  ev_program_id :: pubkey
  ev_discriminator :: u64
  ev_data :: "u8 list"
  ev_slot :: u64
  ev_index :: u32
  ev_is_cpi :: bool
  ev_cpi_depth :: u8

definition event_new ::
    "crypto \<Rightarrow> hash32 \<Rightarrow> pubkey \<Rightarrow> u64 \<Rightarrow> u8 list \<Rightarrow> u64 \<Rightarrow> u32 \<Rightarrow> u8 \<Rightarrow> program_event" where
  "event_new c tx_hash program_id discriminator bytes slot idx cpi_depth =
     \<lparr>ev_id = event_id_generate c tx_hash program_id idx, ev_program_id = program_id,
      ev_discriminator = discriminator, ev_data = bytes, ev_slot = slot, ev_index = idx,
      ev_is_cpi = (cpi_depth > 0), ev_cpi_depth = cpi_depth\<rparr>"

definition event_size :: "program_event \<Rightarrow> nat" where
  "event_size e = 32 + 32 + 8 + length (ev_data e) + 8 + 4 + 1 + 1"

record event_index =
  by_discriminator :: "u64 \<rightharpoonup> hash32 list"
  by_program :: "pubkey \<rightharpoonup> hash32 list"

definition push_entry :: "'k \<Rightarrow> 'v \<Rightarrow> ('k \<rightharpoonup> 'v list) \<Rightarrow> ('k \<rightharpoonup> 'v list)" where
  "push_entry k v idx = idx(k \<mapsto> (case idx k of None \<Rightarrow> [] | Some vs \<Rightarrow> vs) @ [v])"

definition find_entry :: "'k \<Rightarrow> ('k \<rightharpoonup> 'v list) \<Rightarrow> 'v list" where
  "find_entry k idx = (case idx k of None \<Rightarrow> [] | Some vs \<Rightarrow> vs)"

definition index_event :: "program_event \<Rightarrow> event_index \<Rightarrow> event_index" where
  "index_event e i =
     i\<lparr>by_discriminator := push_entry (ev_discriminator e) (ev_id e) (by_discriminator i),
       by_program := push_entry (ev_program_id e) (ev_id e) (by_program i)\<rparr>"

definition find_by_discriminator :: "event_index \<Rightarrow> u64 \<Rightarrow> hash32 list" where
  "find_by_discriminator i d = find_entry d (by_discriminator i)"

definition find_by_program :: "event_index \<Rightarrow> pubkey \<Rightarrow> hash32 list" where
  "find_by_program i p = find_entry p (by_program i)"

record log_entry =
  log_message :: string
  log_program_id :: pubkey
  log_depth :: u8

section \<open>Deltas and receipts\<close>

record account_delta =
  ad_pubkey :: pubkey
  ad_prev_owner :: pubkey
  ad_new_owner :: pubkey
  ad_prev_motes :: u64
  ad_new_motes :: u64
  ad_prev_data_hash :: hash32
  ad_new_data_hash :: hash32
  ad_reallocated :: bool
  ad_prev_size :: nat
  ad_new_size :: nat

definition delta_compute ::
    "crypto \<Rightarrow> pubkey \<Rightarrow> pubkey \<Rightarrow> pubkey \<Rightarrow> u64 \<Rightarrow> u64 \<Rightarrow> u8 list \<Rightarrow> u8 list \<Rightarrow> account_delta" where
  "delta_compute c pk prev_owner new_owner prev_motes new_motes prev_data new_data =
     \<lparr>ad_pubkey = pk, ad_prev_owner = prev_owner, ad_new_owner = new_owner, ad_prev_motes = prev_motes,
      ad_new_motes = new_motes, ad_prev_data_hash = blake3 c prev_data, ad_new_data_hash = blake3 c new_data,
      ad_reallocated = (length prev_data \<noteq> length new_data), ad_prev_size = length prev_data,
      ad_new_size = length new_data\<rparr>"

definition is_modified :: "account_delta \<Rightarrow> bool" where
  "is_modified d = (ad_prev_owner d \<noteq> ad_new_owner d \<or> ad_prev_motes d \<noteq> ad_new_motes d
     \<or> ad_prev_data_hash d \<noteq> ad_new_data_hash d)"

record return_data_t =
  rd_program_id :: pubkey
  rd_data :: "u8 list"

definition RETURN_DATA_MAX :: nat where "RETURN_DATA_MAX = 1024"

definition return_data_new :: "pubkey \<Rightarrow> u8 list \<Rightarrow> return_data_t option" where
  "return_data_new p bs = (if RETURN_DATA_MAX < length bs then None else Some \<lparr>rd_program_id = p, rd_data = bs\<rparr>)"

record execution_receipt =
  rc_transaction_hash :: hash32
  rc_slot :: u64
  rc_success :: bool
  rc_error_code :: "u32 option"
  rc_error_message :: "string option"
  rc_compute_units_consumed :: u64
  rc_fee_paid :: u64
  rc_events :: "program_event list"
  rc_logs :: "log_entry list"
  rc_account_deltas :: "account_delta list"
  rc_return_data :: "return_data_t option"
  rc_programs_invoked :: "pubkey list"
  rc_receipt_hash :: hash32

definition receipt_preimage :: "execution_receipt \<Rightarrow> u8 list" where
  "receipt_preimage r = as_bytes (rc_transaction_hash r) @ le_bytes 8 (rc_slot r) @ [bool_byte (rc_success r)]
     @ (case rc_error_code r of None \<Rightarrow> [] | Some code \<Rightarrow> le_bytes 4 code)
     @ le_bytes 8 (rc_compute_units_consumed r) @ le_bytes 8 (rc_fee_paid r)
     @ concat (map (\<lambda>e. as_bytes (ev_id e)) (rc_events r))
     @ concat (map (\<lambda>d. as_bytes (ad_pubkey d) @ as_bytes (ad_new_data_hash d)) (rc_account_deltas r))"

definition receipt_compute_hash :: "crypto \<Rightarrow> execution_receipt \<Rightarrow> hash32" where
  "receipt_compute_hash c r = blake3 c (receipt_preimage r)"

definition receipt_success ::
    "crypto \<Rightarrow> hash32 \<Rightarrow> u64 \<Rightarrow> u64 \<Rightarrow> u64 \<Rightarrow> program_event list \<Rightarrow> log_entry list \<Rightarrow> account_delta list
      \<Rightarrow> return_data_t option \<Rightarrow> pubkey list \<Rightarrow> execution_receipt" where
  "receipt_success c tx_hash slot units fee evs ls deltas ret progs =
     (let r = \<lparr>rc_transaction_hash = tx_hash, rc_slot = slot, rc_success = True, rc_error_code = None,
          rc_error_message = None, rc_compute_units_consumed = units, rc_fee_paid = fee, rc_events = evs,
          rc_logs = ls, rc_account_deltas = deltas, rc_return_data = ret, rc_programs_invoked = progs,
          rc_receipt_hash = 0\<rparr>
      in r\<lparr>rc_receipt_hash := receipt_compute_hash c r\<rparr>)"

definition receipt_failure ::
    "crypto \<Rightarrow> (program_error \<Rightarrow> string) \<Rightarrow> hash32 \<Rightarrow> u64 \<Rightarrow> program_error \<Rightarrow> u64 \<Rightarrow> u64 \<Rightarrow> log_entry list
      \<Rightarrow> execution_receipt" where
  "receipt_failure c to_string tx_hash slot e units fee ls =
     (let r = \<lparr>rc_transaction_hash = tx_hash, rc_slot = slot, rc_success = False, rc_error_code = Some (to_code e),
          rc_error_message = Some (to_string e), rc_compute_units_consumed = units, rc_fee_paid = fee,
          rc_events = [], rc_logs = ls, rc_account_deltas = [], rc_return_data = None, rc_programs_invoked = [],
          rc_receipt_hash = 0\<rparr>
      in r\<lparr>rc_receipt_hash := receipt_compute_hash c r\<rparr>)"

definition receipt_verify :: "crypto \<Rightarrow> execution_receipt \<Rightarrow> bool" where
  "receipt_verify c r = (rc_receipt_hash r = receipt_compute_hash c r)"

section \<open>The collector\<close>

record event_collector =
  col_transaction_hash :: hash32
  col_slot :: u64
  col_events :: "program_event list"
  col_logs :: "log_entry list"
  col_event_index :: u32
  col_max_events :: u32
  col_max_log_bytes :: nat
  col_log_bytes :: nat

definition collector_new :: "hash32 \<Rightarrow> u64 \<Rightarrow> event_collector" where
  "collector_new tx_hash slot = \<lparr>col_transaction_hash = tx_hash, col_slot = slot, col_events = [], col_logs = [],
     col_event_index = 0, col_max_events = 256, col_max_log_bytes = 10 * 1024, col_log_bytes = 0\<rparr>"

definition emit_event ::
    "crypto \<Rightarrow> pubkey \<Rightarrow> u64 \<Rightarrow> u8 list \<Rightarrow> u8 \<Rightarrow> event_collector \<Rightarrow> (string + hash32) \<times> event_collector" where
  "emit_event c program_id discriminator bytes cpi_depth col =
     (if unat (col_max_events col) \<le> length (col_events col) then (Inl ''too many events'', col)
      else let e = event_new c (col_transaction_hash col) program_id discriminator bytes (col_slot col)
             (col_event_index col) cpi_depth
        in (Inr (ev_id e), col\<lparr>col_events := col_events col @ [e], col_event_index := col_event_index col + 1\<rparr>))"

definition collector_log :: "pubkey \<Rightarrow> string \<Rightarrow> u8 \<Rightarrow> event_collector \<Rightarrow> (string + unit) \<times> event_collector" where
  "collector_log program_id message depth col =
     (if col_max_log_bytes col < col_log_bytes col + length message then (Inl ''log buffer full'', col)
      else (Inr (), col\<lparr>col_logs := col_logs col @
              [\<lparr>log_message = message, log_program_id = program_id, log_depth = depth\<rparr>],
            col_log_bytes := col_log_bytes col + length message\<rparr>))"

record collector_checkpoint =
  cp_events_len :: nat
  cp_logs_len :: nat
  cp_event_index :: u32
  cp_log_bytes :: nat

definition checkpoint :: "event_collector \<Rightarrow> collector_checkpoint" where
  "checkpoint col = \<lparr>cp_events_len = length (col_events col), cp_logs_len = length (col_logs col),
     cp_event_index = col_event_index col, cp_log_bytes = col_log_bytes col\<rparr>"

definition clone_since :: "event_collector \<Rightarrow> collector_checkpoint \<Rightarrow> program_event list \<times> log_entry list" where
  "clone_since col cp = (drop (cp_events_len cp) (col_events col), drop (cp_logs_len cp) (col_logs col))"

definition rollback_to :: "collector_checkpoint \<Rightarrow> event_collector \<Rightarrow> event_collector" where
  "rollback_to cp col =
     col\<lparr>col_events := take (cp_events_len cp) (col_events col), col_logs := take (cp_logs_len cp) (col_logs col),
       col_event_index := cp_event_index cp, col_log_bytes := cp_log_bytes cp\<rparr>"

record event_filter =
  f_program_id :: "pubkey option"
  f_discriminator :: "u64 option"
  f_slot_range :: "(u64 \<times> u64) option"
  f_transaction_hash :: "hash32 option"
  f_limit :: "nat option"
  f_offset :: "nat option"

definition filter_matches :: "event_filter \<Rightarrow> program_event \<Rightarrow> bool" where
  "filter_matches f e =
     ((case f_program_id f of Some p \<Rightarrow> ev_program_id e = p | None \<Rightarrow> True)
      \<and> (case f_discriminator f of Some d \<Rightarrow> ev_discriminator e = d | None \<Rightarrow> True)
      \<and> (case f_slot_range f of Some (lo, hi) \<Rightarrow> \<not> (ev_slot e < lo \<or> hi < ev_slot e) | None \<Rightarrow> True))"

section \<open>Correctness\<close>

datatype collector_op = Emit pubkey u64 "u8 list" u8 | Log pubkey string u8

fun collect :: "crypto \<Rightarrow> collector_op \<Rightarrow> event_collector \<Rightarrow> event_collector" where
  "collect c (Emit p d bs depth) col = snd (emit_event c p d bs depth col)"
| "collect c (Log p msg depth) col = snd (collector_log p msg depth col)"

text \<open>\<open>later col col'\<close>: \<open>col'\<close> extends \<open>col\<close>.\<close>

definition later :: "event_collector \<Rightarrow> event_collector \<Rightarrow> bool" where
  "later col col' \<longleftrightarrow> (\<exists>es ls. col_events col' = col_events col @ es \<and> col_logs col' = col_logs col @ ls)
     \<and> col_transaction_hash col' = col_transaction_hash col \<and> col_slot col' = col_slot col
     \<and> col_max_events col' = col_max_events col \<and> col_max_log_bytes col' = col_max_log_bytes col"

lemma later_collect: "later col (collect c x col)"
  by (cases x) (simp_all add: later_def emit_event_def collector_log_def Let_def)

lemma later_trans: "later a b \<Longrightarrow> later b d \<Longrightarrow> later a d"
  unfolding later_def by (metis append.assoc)

lemma later_fold: "later col (fold (collect c) xs col)"
proof (induction xs arbitrary: col)
  case Nil
  then show ?case by (simp add: later_def)
next
  case (Cons x xs)
  then show ?case using later_trans [OF later_collect [of col c x] Cons.IH [of "collect c x col"]] by simp
qed

text \<open>Rolling a collector back to a checkpoint undoes whatever was emitted and logged since, exactly: the
  collector is the one the checkpoint was taken of, and what would have been returned to the caller as the
  side effects of the call is empty again.\<close>

theorem rollback_to_checkpoint:
  "rollback_to (checkpoint col) (fold (collect c) xs col) = col
   \<and> clone_since (rollback_to (checkpoint col) (fold (collect c) xs col)) (checkpoint col) = ([], [])"
proof -
  have "rollback_to (checkpoint col) (fold (collect c) xs col) = col"
    using later_fold [of col c xs] unfolding later_def
    by (auto simp: rollback_to_def checkpoint_def intro!: event_collector.equality)
  then show ?thesis by (simp add: clone_since_def checkpoint_def)
qed

text \<open>The receipt hash covers, of the account changes, only the keys and the new data: a receipt still
  verifies after the owners and mote balances in its deltas, its logs, its return data and the list of programs
  invoked have been replaced by anything else.\<close>

theorem receipt_hash_omits_motes:
  assumes "receipt_verify c r"
  shows "receipt_verify c (r\<lparr>rc_logs := ls, rc_return_data := ret, rc_programs_invoked := progs,
    rc_account_deltas := map (\<lambda>d. d\<lparr>ad_new_motes := f d, ad_new_owner := g d\<rparr>) (rc_account_deltas r)\<rparr>)"
  using assms by (simp add: receipt_verify_def receipt_compute_hash_def receipt_preimage_def o_def)

theorem receipt_hash_omits_motes_witness:
  "receipt_verify toy_crypto (receipt_success toy_crypto 1 2 100 5200 [] []
       [delta_compute toy_crypto 7 1 1 100 50 [] []] None [1])
   \<and> receipt_verify toy_crypto ((receipt_success toy_crypto 1 2 100 5200 [] []
       [delta_compute toy_crypto 7 1 1 100 50 [] []] None [1])
       \<lparr>rc_logs := [], rc_return_data := None, rc_programs_invoked := [],
        rc_account_deltas := [(delta_compute toy_crypto 7 1 1 100 50 [] [])\<lparr>ad_new_motes := 9999, ad_new_owner := 66\<rparr>]\<rparr>)"
proof -
  let ?r = "receipt_success toy_crypto 1 2 100 5200 [] [] [delta_compute toy_crypto 7 1 1 100 50 [] []] None [1]"
  have v: "receipt_verify toy_crypto ?r"
    by (simp add: receipt_verify_def receipt_success_def receipt_compute_hash_def receipt_preimage_def Let_def)
  show ?thesis
    using v receipt_hash_omits_motes [OF v, where ls = "[]" and ret = None and progs = "[]" and f = "\<lambda>_. 9999"
      and g = "\<lambda>_. 66"]
    by (simp add: receipt_success_def Let_def)
qed

end
