(* ===== verification/Runtime.thy ===== *)
theory Runtime
  imports Token_Program Scheduler Events
begin

text \<open>
  \<^verbatim>\<open>crates/dchat-programs/src/runtime.rs\<close>: the account bank, the program cache, the execution context of a
  transaction with its snapshots and rollback, native and bytecode instructions, transactions, and batches that
  run from a snapshot of the bank.

  The fields of \<open>runtime_env\<close> are what the runtime calls into and this theory does not model: the hash function and
  the \<^verbatim>\<open>bincode\<close> codecs, the marketplace and bot-registry processors (\<open>re_service\<close>), the bytecode validator,
  module loader and VM (\<open>re_validate\<close>, \<open>re_load_module\<close>, \<open>re_execute\<close>), the text of errors, and the iteration
  orders of the \<^verbatim>\<open>HashMap\<close>s. Rust leaves these open and makes them differ from one map to the next, even between two maps
  with the same entries, so \<open>re_iter env n\<close> is the order of the accounts of the \<open>n\<close>-th transaction that runs from \<open>env\<close>:
  each context has a map of its own, which is iterated for the deltas and again for the commit. The program cache is read through \<open>re_cache\<close>: a
  transaction never writes it. Cross-program invocation (\<^verbatim>\<open>invoke_cpi\<close>) is not modelled here. Timing is left out.
\<close>

section \<open>Program cache\<close>

record cached_program =
  cp_bytecode :: "u8 list"
  cp_hash :: hash32
  cp_executable :: bool
  cp_upgrade_authority :: "pubkey option"
  cp_cached_at :: u64

record program_cache =
  pc_programs :: "pubkey \<rightharpoonup> cached_program"
  pc_max_size :: nat

definition cache_new :: "nat \<Rightarrow> program_cache" where
  "cache_new n = \<lparr>pc_programs = Map.empty, pc_max_size = n\<rparr>"

definition cache_get :: "program_cache \<Rightarrow> pubkey \<Rightarrow> cached_program option" where
  "cache_get c k = pc_programs c k"

text \<open>\<open>next_key\<close> is \<^verbatim>\<open>keys().next()\<close>: some key of the map, whichever its iteration order puts first.\<close>

definition cache_insert ::
    "((pubkey \<rightharpoonup> cached_program) \<Rightarrow> pubkey option) \<Rightarrow> pubkey \<Rightarrow> cached_program \<Rightarrow> program_cache \<Rightarrow> program_cache" where
  "cache_insert next_key k p c =
     (let ps = pc_programs c;
          ps = (if pc_max_size c \<le> card (dom ps)
                then case next_key ps of None \<Rightarrow> ps | Some oldest \<Rightarrow> ps(oldest := None) else ps)
      in c\<lparr>pc_programs := ps(k \<mapsto> p)\<rparr>)"

definition cache_invalidate :: "pubkey \<Rightarrow> program_cache \<Rightarrow> program_cache" where
  "cache_invalidate k c = c\<lparr>pc_programs := (pc_programs c)(k := None)\<rparr>"

definition cache_clear :: "program_cache \<Rightarrow> program_cache" where
  "cache_clear c = c\<lparr>pc_programs := Map.empty\<rparr>"

section \<open>The account bank\<close>

text \<open>The trait \<^verbatim>\<open>AccountBank\<close> as an interface, and \<^verbatim>\<open>InMemoryAccountBank\<close> as its implementation.\<close>

locale account_bank =
  fixes load :: "'b \<Rightarrow> pubkey \<Rightarrow> account option"
    and store :: "pubkey \<Rightarrow> account \<Rightarrow> 'b \<Rightarrow> 'b"
  assumes load_store: "load (store k a b) k' = (if k' = k then Some a else load b k')"
begin

text \<open>Storing the entries of a map, in whatever order they come.\<close>

definition store_entries :: "pubkey list \<Rightarrow> (pubkey \<rightharpoonup> account) \<Rightarrow> 'b \<Rightarrow> 'b" where
  "store_entries ks m b = fold (\<lambda>k b. case m k of None \<Rightarrow> b | Some a \<Rightarrow> store k a b) ks b"

lemma load_store_entries:
  "load (store_entries ks m b) k = (if k \<in> set ks \<and> m k \<noteq> None then m k else load b k)"
proof (induction ks arbitrary: b)
  case (Cons j ks)
  then show ?case by (auto simp: store_entries_def load_store split: option.splits)
qed (simp add: store_entries_def)

end

type_synonym bank = "pubkey \<rightharpoonup> account"

definition bank_load :: "bank \<Rightarrow> pubkey \<Rightarrow> account option" where
  "bank_load b k = b k"

definition bank_store :: "pubkey \<Rightarrow> account \<Rightarrow> bank \<Rightarrow> bank" where
  "bank_store k a b = b(k \<mapsto> a)"

definition bank_load_many :: "bank \<Rightarrow> pubkey list \<Rightarrow> account option list" where
  "bank_load_many b ks = map (bank_load b) ks"

definition bank_store_many :: "(pubkey \<times> account) list \<Rightarrow> bank \<Rightarrow> bank" where
  "bank_store_many kas b = fold (\<lambda>(k, a). bank_store k a) kas b"

interpretation mem: account_bank bank_load bank_store
  by unfold_locales (simp add: bank_load_def bank_store_def)

section \<open>Execution context\<close>

record execution_context =
  cx_transaction_hash :: hash32
  cx_slot :: u64
  cx_timestamp :: u64
  cx_compute_budget :: compute_budget
  cx_meter :: compute_meter
  cx_borrow_tracker :: tracker
  cx_events :: event_collector
  cx_accounts :: "pubkey \<rightharpoonup> account"
  cx_snapshots :: "pubkey \<rightharpoonup> account"
  cx_account_metas :: "pubkey \<rightharpoonup> account_meta"
  cx_instructions_executed :: "pubkey list"
  cx_call_chain :: "pubkey list"
  cx_return_data :: "return_data_t option"
  cx_cpi_depth :: nat
  cx_fee_payer :: pubkey

definition context_new :: "hash32 \<Rightarrow> u64 \<Rightarrow> u64 \<Rightarrow> pubkey \<Rightarrow> compute_budget \<Rightarrow> execution_context" where
  "context_new tx_hash slot timestamp fee_payer b = \<lparr>cx_transaction_hash = tx_hash, cx_slot = slot,
     cx_timestamp = timestamp, cx_compute_budget = b, cx_meter = meter_new b, cx_borrow_tracker = Map.empty,
     cx_events = collector_new tx_hash slot, cx_accounts = Map.empty, cx_snapshots = Map.empty,
     cx_account_metas = Map.empty, cx_instructions_executed = [], cx_call_chain = [], cx_return_data = None,
     cx_cpi_depth = 0, cx_fee_payer = fee_payer\<rparr>"

definition add_meta :: "account_meta \<Rightarrow> (pubkey \<rightharpoonup> account_meta) \<Rightarrow> (pubkey \<rightharpoonup> account_meta)" where
  "add_meta meta ms = ms(meta_pubkey meta \<mapsto> (case ms (meta_pubkey meta) of
       None \<Rightarrow> meta
     | Some x \<Rightarrow> x\<lparr>is_signer := is_signer x \<or> is_signer meta, is_writable := is_writable x \<or> is_writable meta\<rparr>))"

definition account_or_new :: "account option \<Rightarrow> pubkey \<Rightarrow> account" where
  "account_or_new x k = (case x of None \<Rightarrow> account_new k | Some a \<Rightarrow> a)"

definition load_one :: "account_meta \<times> account option \<Rightarrow> execution_context \<Rightarrow> execution_context" where
  "load_one ma cx =
     (let k = meta_pubkey (fst ma); a = account_or_new (snd ma) k in
      cx\<lparr>cx_snapshots := (cx_snapshots cx)(k \<mapsto> a), cx_accounts := (cx_accounts cx)(k \<mapsto> a),
        cx_account_metas := add_meta (fst ma) (cx_account_metas cx)\<rparr>)"

definition load_accounts :: "bank \<Rightarrow> account_meta list \<Rightarrow> execution_context \<Rightarrow> execution_context" where
  "load_accounts b metas cx = fold load_one (zip metas (bank_load_many b (map meta_pubkey metas))) cx"

definition rollback :: "execution_context \<Rightarrow> execution_context" where
  "rollback cx = cx\<lparr>cx_accounts := cx_accounts cx ++ cx_snapshots cx, cx_snapshots := Map.empty\<rparr>"

definition delta_of :: "crypto \<Rightarrow> execution_context \<Rightarrow> pubkey \<Rightarrow> account_delta option" where
  "delta_of c cx k =
     (case (cx_accounts cx k, cx_snapshots cx k) of
        (Some current, Some snap) \<Rightarrow>
          (let d = delta_compute c k (acc_owner snap) (acc_owner current) (acc_motes snap) (acc_motes current)
             (data_bytes (acc_data snap)) (data_bytes (acc_data current))
           in if is_modified d then Some d else None)
      | _ \<Rightarrow> None)"

definition compute_deltas ::
    "crypto \<Rightarrow> ((pubkey \<rightharpoonup> account) \<Rightarrow> pubkey list) \<Rightarrow> execution_context \<Rightarrow> account_delta list" where
  "compute_deltas c iter cx = filter_map (delta_of c cx) (iter (cx_accounts cx))"

definition set_return_data :: "pubkey \<Rightarrow> u8 list \<Rightarrow> execution_context \<Rightarrow> unit program_result \<times> execution_context" where
  "set_return_data p bs cx =
     (if RETURN_DATA_MAX < length bs then (Inl ReturnDataTooLarge, cx)
      else (Inr (), cx\<lparr>cx_return_data := Some \<lparr>rd_program_id = p, rd_data = bs\<rparr>\<rparr>))"

section \<open>Instructions\<close>

type_synonym service =
  "pubkey \<Rightarrow> u8 list \<Rightarrow> u64 \<Rightarrow> account list \<Rightarrow> compute_meter
    \<Rightarrow> program_event list program_result \<times> account list \<times> compute_meter"

record runtime_env =
  re_crypto :: crypto
  re_system :: "system_instruction codec"
  re_nonce :: "nonce_state codec"
  re_token :: token_codecs
  re_service :: service
  re_cache :: "pubkey \<rightharpoonup> cached_program"
  re_validate :: "u8 list \<Rightarrow> unit program_result"
  re_load_module :: "u8 list \<Rightarrow> unit program_result"
  re_execute :: "pubkey \<Rightarrow> u8 list \<Rightarrow> u8 list \<Rightarrow> u8 list \<Rightarrow> compute_meter \<Rightarrow> u8 list program_result \<times> compute_meter"
  re_to_string :: "program_error \<Rightarrow> string"
  re_iter :: "nat \<Rightarrow> (pubkey \<rightharpoonup> account) \<Rightarrow> pubkey list"
  re_budget :: compute_budget
  re_parallel :: bool

text \<open>The environment of the next transaction: its map of accounts is the next one.\<close>

definition next_map :: "runtime_env \<Rightarrow> runtime_env" where
  "next_map env = env\<lparr>re_iter := \<lambda>n. re_iter env (Suc n)\<rparr>"

definition is_native_program :: "pubkey \<Rightarrow> bool" where
  "is_native_program p = (p = SYSTEM_PROGRAM_ID \<or> p = TOKEN_PROGRAM_ID \<or> p = LOADER_PROGRAM_ID
     \<or> p = ATA_PROGRAM_ID \<or> p = CAPABILITY_PROGRAM_ID \<or> p = PRIVACY_PROGRAM_ID
     \<or> p = MARKETPLACE_PROGRAM_ID \<or> p = BOT_REGISTRY_PROGRAM_ID)"

text \<open>Taking the accounts of an instruction out of the context: a key that is absent, or listed a second
  time, is skipped.\<close>

fun extract_accounts ::
    "pubkey list \<Rightarrow> (pubkey \<rightharpoonup> account) \<Rightarrow> (pubkey \<times> account) list \<times> (pubkey \<rightharpoonup> account)" where
  "extract_accounts [] m = ([], m)"
| "extract_accounts (k # ks) m =
     (case m k of None \<Rightarrow> extract_accounts ks m
      | Some a \<Rightarrow> (case extract_accounts ks (m(k := None)) of (ex, m') \<Rightarrow> ((k, a) # ex, m')))"

definition put_back :: "pubkey list \<Rightarrow> account list \<Rightarrow> (pubkey \<rightharpoonup> account) \<Rightarrow> (pubkey \<rightharpoonup> account)" where
  "put_back ks accs m = fold (\<lambda>(k, a) m. m(k \<mapsto> a)) (zip ks accs) m"

definition emit_all :: "crypto \<Rightarrow> nat \<Rightarrow> program_event list \<Rightarrow> event_collector \<Rightarrow> event_collector" where
  "emit_all c depth es col =
     fold (\<lambda>e col. snd (emit_event c (ev_program_id e) (ev_discriminator e) (ev_data e) (of_nat depth) col)) es col"

text \<open>An error of the instruction decoder or of a service returns at once, and the accounts taken out are
  not put back.\<close>

definition execute_native_program ::
    "runtime_env \<Rightarrow> instruction \<Rightarrow> execution_context \<Rightarrow> unit program_result \<times> execution_context" where
  "execute_native_program env ix cx =
     (case consume 100 (cx_meter cx) of
        (Inl e, m) \<Rightarrow> (Inl e, cx\<lparr>cx_meter := m\<rparr>)
      | (Inr _, m) \<Rightarrow>
         (let (extracted, rest) = extract_accounts (map meta_pubkey (ix_accounts ix)) (cx_accounts cx);
              keys = map fst extracted; accs = map snd extracted;
              cx = cx\<lparr>cx_meter := m, cx_accounts := rest\<rparr>;
              finish = (\<lambda>(r, accs', m') cx. (r, cx\<lparr>cx_meter := m', cx_accounts := put_back keys accs' (cx_accounts cx)\<rparr>))
          in if ix_program_id ix = SYSTEM_PROGRAM_ID
             then (case system_from_bytes (re_system env) (ix_data ix) of
                 Inl e \<Rightarrow> (Inl e, cx)
               | Inr six \<Rightarrow> finish (system_process (re_crypto env) (re_nonce env) six accs m) cx)
             else if ix_program_id ix = TOKEN_PROGRAM_ID
             then finish (token_process (re_token env) (ix_data ix) accs m) cx
             else if ix_program_id ix = MARKETPLACE_PROGRAM_ID \<or> ix_program_id ix = BOT_REGISTRY_PROGRAM_ID
             then (case re_service env (ix_program_id ix) (ix_data ix) (cx_slot cx) accs m of
                 (Inl e, _, m') \<Rightarrow> (Inl e, cx\<lparr>cx_meter := m'\<rparr>)
               | (Inr es, accs', m') \<Rightarrow>
                   finish (Inr (), accs', m')
                     (cx\<lparr>cx_events := emit_all (re_crypto env) (cx_cpi_depth cx) es (cx_events cx)\<rparr>))
             else finish (Inl UnsupportedProgram, accs, m) cx))"

definition serialize_account_infos :: "(pubkey \<rightharpoonup> account) \<Rightarrow> account_meta list \<Rightarrow> u8 list" where
  "serialize_account_infos accounts metas =
     le_bytes 4 (of_nat (length metas) :: u32)
     @ concat (map (\<lambda>meta. case accounts (meta_pubkey meta) of None \<Rightarrow> []
         | Some a \<Rightarrow> as_bytes (acc_key a) @ le_bytes 8 (acc_motes a)
             @ le_bytes 4 (of_nat (length (data_bytes (acc_data a))) :: u32) @ data_bytes (acc_data a)
             @ as_bytes (acc_owner a)
             @ [bool_byte (acc_executable a), bool_byte (is_signer meta), bool_byte (is_writable meta)]) metas)"

definition invoke_program ::
    "runtime_env \<Rightarrow> pubkey \<Rightarrow> u8 list \<Rightarrow> instruction \<Rightarrow> execution_context \<Rightarrow> unit program_result \<times> execution_context" where
  "invoke_program env p bytecode ix cx =
     (case re_validate env bytecode of Inl e \<Rightarrow> (Inl e, cx)
      | Inr _ \<Rightarrow>
         (case re_load_module env bytecode of Inl e \<Rightarrow> (Inl e, cx)
          | Inr _ \<Rightarrow>
             (case re_execute env p bytecode (ix_data ix) (serialize_account_infos (cx_accounts cx) (ix_accounts ix))
                (cx_meter cx) of
                (Inl e, m) \<Rightarrow> (Inl e, cx\<lparr>cx_meter := m\<rparr>)
              | (Inr _, m) \<Rightarrow> (Inr (), cx\<lparr>cx_meter := m\<rparr>))))"

definition find_program :: "runtime_env \<Rightarrow> execution_context \<Rightarrow> pubkey \<Rightarrow> cached_program program_result" where
  "find_program env cx p =
     (case re_cache env p of Some prog \<Rightarrow> Inr prog
      | None \<Rightarrow>
         (case cx_accounts cx p of None \<Rightarrow> Inl AccountNotFound
          | Some a \<Rightarrow> if \<not> acc_executable a then Inl AccountNotExecutable
              else Inr \<lparr>cp_bytecode = data_bytes (acc_data a), cp_hash = blake3 (re_crypto env) (data_bytes (acc_data a)),
                     cp_executable = True, cp_upgrade_authority = None, cp_cached_at = cx_slot cx\<rparr>))"

definition run_program ::
    "runtime_env \<Rightarrow> instruction \<Rightarrow> execution_context \<Rightarrow> unit program_result \<times> execution_context" where
  "run_program env ix cx =
     (if is_native_program (ix_program_id ix) then execute_native_program env ix cx
      else case find_program env cx (ix_program_id ix) of
        Inl e \<Rightarrow> (Inl e, cx)
      | Inr prog \<Rightarrow>
         (case re_validate env (cp_bytecode prog) of Inl e \<Rightarrow> (Inl e, cx)
          | Inr _ \<Rightarrow> invoke_program env (ix_program_id ix) (cp_bytecode prog) ix cx))"

definition execute_instruction_internal ::
    "runtime_env \<Rightarrow> instruction \<Rightarrow> execution_context \<Rightarrow> unit program_result \<times> execution_context" where
  "execute_instruction_internal env ix cx =
     (let (r, cx) = run_program env ix (cx\<lparr>cx_call_chain := cx_call_chain cx @ [ix_program_id ix]\<rparr>);
          cx = cx\<lparr>cx_call_chain := butlast (cx_call_chain cx)\<rparr>
      in case r of
           Inr _ \<Rightarrow> (r, cx\<lparr>cx_instructions_executed := cx_instructions_executed cx @ [ix_program_id ix]\<rparr>)
         | Inl _ \<Rightarrow> (r, cx))"

section \<open>Transactions\<close>

definition calculate_fee :: "compute_budget \<Rightarrow> u64" where
  "calculate_fee b = 5000 + max_units b div 1000"

fun execute_all ::
    "runtime_env \<Rightarrow> instruction list \<Rightarrow> execution_context \<Rightarrow> unit program_result \<times> execution_context" where
  "execute_all env [] cx = (Inr (), cx)"
| "execute_all env (ix # ixs) cx =
     (case execute_instruction_internal env ix cx of
        (Inr _, cx') \<Rightarrow> execute_all env ixs cx' | (Inl e, cx') \<Rightarrow> (Inl e, cx'))"

definition transaction_metas :: "instruction list \<Rightarrow> pubkey \<Rightarrow> account_meta list" where
  "transaction_metas ixs fee_payer = concat (map ix_accounts ixs) @ [meta_new fee_payer True]"

text \<open>The common part of the two ways to run a transaction, once its accounts are loaded: the receipt, and the
  context to commit when it succeeded.\<close>

definition run_loaded ::
    "runtime_env \<Rightarrow> instruction list \<Rightarrow> execution_context \<Rightarrow> execution_receipt \<times> execution_context option" where
  "run_loaded env ixs cx =
     (let fee = calculate_fee (cx_compute_budget cx);
          fail = receipt_failure (re_crypto env) (re_to_string env) (cx_transaction_hash cx) (cx_slot cx);
          charged = (case cx_accounts cx (cx_fee_payer cx) of
              None \<Rightarrow> Some cx
            | Some payer \<Rightarrow> if acc_motes payer < fee then None
                else Some (cx\<lparr>cx_accounts := (cx_accounts cx)
                  (cx_fee_payer cx \<mapsto> payer\<lparr>acc_motes := acc_motes payer - fee\<rparr>)\<rparr>))
      in case charged of
           None \<Rightarrow> (fail InsufficientFunds 0 0 [], None)
         | Some cx \<Rightarrow>
            (case execute_all env ixs cx of
               (Inl e, cx) \<Rightarrow>
                 (let cx = rollback cx in (fail e (consumed (cx_meter cx)) fee (col_logs (cx_events cx)), None))
             | (Inr _, cx) \<Rightarrow>
                 (receipt_success (re_crypto env) (cx_transaction_hash cx) (cx_slot cx) (consumed (cx_meter cx)) fee
                    (col_events (cx_events cx)) (col_logs (cx_events cx))
                    (compute_deltas (re_crypto env) (re_iter env 0) cx) (cx_return_data cx) (cx_instructions_executed cx),
                  Some cx)))"

definition execute_transaction ::
    "runtime_env \<Rightarrow> bank \<Rightarrow> instruction list \<Rightarrow> hash32 \<Rightarrow> u64 \<Rightarrow> u64 \<Rightarrow> pubkey \<Rightarrow> execution_receipt \<times> bank" where
  "execute_transaction env b ixs tx_hash slot timestamp fee_payer =
     (let cx = load_accounts b (transaction_metas ixs fee_payer)
          (context_new tx_hash slot timestamp fee_payer (re_budget env))
      in case run_loaded env ixs cx of
           (r, None) \<Rightarrow> (r, b)
         | (r, Some cx) \<Rightarrow> (r, mem.store_entries (re_iter env 0 (cx_accounts cx)) (cx_accounts cx) b))"

section \<open>Batches\<close>

definition tx_fee_payer :: "scheduled_transaction \<Rightarrow> pubkey" where
  "tx_fee_payer tx = (case account_keys (tx_batch tx) of [] \<Rightarrow> pubkey_zero | k # _ \<Rightarrow> k)"

definition batch_keys :: "execution_batch \<Rightarrow> pubkey set" where
  "batch_keys eb = (\<Union>tx\<in>set (eb_transactions eb). set (read_accounts tx) \<union> set (write_accounts tx)
     \<union> set (take 1 (account_keys (tx_batch tx))))"

definition load_batch_accounts_snapshot :: "bank \<Rightarrow> execution_batch \<Rightarrow> (pubkey \<rightharpoonup> account)" where
  "load_batch_accounts_snapshot b eb =
     (\<lambda>k. if k \<in> batch_keys eb then Some (account_or_new (bank_load b k) k) else None)"

definition load_from_snapshot ::
    "(pubkey \<rightharpoonup> account) \<Rightarrow> account_meta list \<Rightarrow> execution_context \<Rightarrow> execution_context" where
  "load_from_snapshot snap metas cx =
     fold (\<lambda>meta cx. let k = meta_pubkey meta; a = account_or_new (snap k) k in
       cx\<lparr>cx_snapshots := (cx_snapshots cx)(k \<mapsto> a), cx_accounts := (cx_accounts cx)(k \<mapsto> a)\<rparr>) metas cx"

definition execute_transaction_with_snapshot ::
    "runtime_env \<Rightarrow> (pubkey \<rightharpoonup> account) \<Rightarrow> instruction list \<Rightarrow> hash32 \<Rightarrow> u64 \<Rightarrow> u64 \<Rightarrow> pubkey
      \<Rightarrow> execution_receipt \<times> (pubkey \<rightharpoonup> account)" where
  "execute_transaction_with_snapshot env snap ixs tx_hash slot timestamp fee_payer =
     (let cx = load_from_snapshot snap (transaction_metas ixs fee_payer)
          (context_new tx_hash slot timestamp fee_payer (re_budget env))
      in case run_loaded env ixs cx of
           (r, None) \<Rightarrow> (r, Map.empty)
         | (r, Some cx) \<Rightarrow> (r, cx_accounts cx))"

definition run_scheduled ::
    "runtime_env \<Rightarrow> (pubkey \<rightharpoonup> account) \<Rightarrow> u64 \<Rightarrow> u64 \<Rightarrow> scheduled_transaction
      \<Rightarrow> execution_receipt \<times> (pubkey \<rightharpoonup> account)" where
  "run_scheduled env snap slot timestamp tx =
     execute_transaction_with_snapshot env snap (decompile_batch (tx_batch tx))
       (batch_hash (blake3 (re_crypto env)) (tx_batch tx)) slot timestamp (tx_fee_payer tx)"

definition commit_result :: "runtime_env \<Rightarrow> execution_receipt \<times> (pubkey \<rightharpoonup> account) \<Rightarrow> bank \<Rightarrow> bank" where
  "commit_result env res b =
     (if rc_success (fst res) then mem.store_entries (re_iter env 0 (snd res)) (snd res) b else b)"

text \<open>The transactions of a batch, each with a map of its own, and the commit of their results.\<close>

fun run_batch ::
    "runtime_env \<Rightarrow> (pubkey \<rightharpoonup> account) \<Rightarrow> u64 \<Rightarrow> u64 \<Rightarrow> scheduled_transaction list
      \<Rightarrow> (execution_receipt \<times> (pubkey \<rightharpoonup> account)) list" where
  "run_batch env snap slot timestamp [] = []"
| "run_batch env snap slot timestamp (tx # txs) =
     run_scheduled env snap slot timestamp tx # run_batch (next_map env) snap slot timestamp txs"

fun commit_batch :: "runtime_env \<Rightarrow> (execution_receipt \<times> (pubkey \<rightharpoonup> account)) list \<Rightarrow> bank \<Rightarrow> bank" where
  "commit_batch env [] b = b"
| "commit_batch env (res # results) b = commit_batch (next_map env) results (commit_result env res b)"

lemma schedule_batch_decreases:
  assumes "schedule_batch s = (Some eb, s')"
  shows "length (pending s') < length (pending s)"
proof -
  have "pending s \<noteq> []" using assms by (auto simp: schedule_batch_def)
  then have "round_ok s eb s'" using schedule_batch_round [of s] assms by simp
  then have "mset (eb_transactions eb) + mset (pending s') = mset (pending s)" "0 < length (eb_transactions eb)"
    by (simp_all add: round_ok_def)
  then show ?thesis by (metis add_less_same_cancel2 size_mset size_union less_add_same_cancel2)
qed

text \<open>The \<^verbatim>\<open>while let Some(batch) = scheduler.schedule_batch()\<close> loop. The transactions of a batch run in
  parallel, each from the same snapshot; their results are collected and committed in order.\<close>

function execute_rounds ::
    "runtime_env \<Rightarrow> u64 \<Rightarrow> u64 \<Rightarrow> bank \<Rightarrow> scheduler \<Rightarrow> execution_receipt list \<times> bank \<times> scheduler" where
  "execute_rounds env slot timestamp b s =
     (case schedule_batch s of
        (None, s') \<Rightarrow> ([], b, s')
      | (Some eb, s') \<Rightarrow>
         (let snap = load_batch_accounts_snapshot b eb;
              results = run_batch env snap slot timestamp (eb_transactions eb);
              b' = commit_batch env results b
          in case execute_rounds ((next_map ^^ length results) env) slot timestamp b' s' of (rs, b'', s'') \<Rightarrow> (map fst results @ rs, b'', s'')))"
  by pat_completeness auto
termination
  by (relation "measure (\<lambda>(_, _, _, _, s). length (pending s))")
    (auto intro!: schedule_batch_decreases [OF sym])

declare execute_rounds.simps [simp del]

fun execute_sequentially ::
    "runtime_env \<Rightarrow> u64 \<Rightarrow> u64 \<Rightarrow> scheduled_transaction list \<Rightarrow> bank \<Rightarrow> execution_receipt list \<times> bank" where
  "execute_sequentially env slot timestamp [] b = ([], b)"
| "execute_sequentially env slot timestamp (tx # txs) b =
     (case execute_transaction env b (decompile_batch (tx_batch tx))
        (batch_hash (blake3 (re_crypto env)) (tx_batch tx)) slot timestamp (tx_fee_payer tx) of
        (r, b') \<Rightarrow> (case execute_sequentially (next_map env) slot timestamp txs b' of (rs, b'') \<Rightarrow> (r # rs, b'')))"

definition execute_batch ::
    "runtime_env \<Rightarrow> bank \<Rightarrow> scheduler \<Rightarrow> scheduled_transaction list \<Rightarrow> u64 \<Rightarrow> u64
      \<Rightarrow> execution_receipt list \<times> bank \<times> scheduler" where
  "execute_batch env b s txs slot timestamp =
     (if \<not> re_parallel env \<or> length txs < 2
      then (case execute_sequentially env slot timestamp txs b of (rs, b') \<Rightarrow> (rs, b', s))
      else let s = fold (\<lambda>tx s. snd (submit (tx_batch tx) (priority tx) s)) txs s
           in execute_rounds env slot timestamp b s)"

section \<open>The single-instruction entry point\<close>

definition load_program ::
    "crypto \<Rightarrow> ((pubkey \<rightharpoonup> cached_program) \<Rightarrow> pubkey option) \<Rightarrow> bank \<Rightarrow> pubkey \<Rightarrow> program_cache
      \<Rightarrow> cached_program program_result \<times> program_cache" where
  "load_program c next_key b p cache =
     (case cache_get cache p of Some prog \<Rightarrow> (Inr prog, cache)
      | None \<Rightarrow>
         (case bank_load b p of None \<Rightarrow> (Inl AccountNotFound, cache)
          | Some a \<Rightarrow>
             (if \<not> acc_executable a then (Inl AccountNotExecutable, cache)
              else let prog = \<lparr>cp_bytecode = data_bytes (acc_data a), cp_hash = blake3 c (data_bytes (acc_data a)),
                     cp_executable = True, cp_upgrade_authority = None, cp_cached_at = 0\<rparr>
                in (Inr prog, cache_insert next_key p prog cache))))"

definition execute_instruction ::
    "runtime_env \<Rightarrow> ((pubkey \<rightharpoonup> cached_program) \<Rightarrow> pubkey option) \<Rightarrow> bank \<Rightarrow> instruction
      \<Rightarrow> execution_context \<times> program_cache \<Rightarrow> unit program_result \<times> execution_context \<times> program_cache" where
  "execute_instruction env next_key b ix st =
     (case instruction_validate ix of
        Inl e \<Rightarrow> (Inl e, st)
      | Inr _ \<Rightarrow>
         (let cx = load_accounts b (ix_accounts ix) (fst st);
              (found, cache) = load_program (re_crypto env) next_key b (ix_program_id ix) (snd st)
          in case found of
               Inl e \<Rightarrow> (Inl e, cx, cache)
             | Inr prog \<Rightarrow>
                (if \<not> cp_executable prog then (Inl AccountNotExecutable, cx, cache)
                 else let (r, cx) = invoke_program env (ix_program_id ix) (cp_bytecode prog) ix
                            (cx\<lparr>cx_call_chain := cx_call_chain cx @ [ix_program_id ix]\<rparr>);
                          cx = cx\<lparr>cx_call_chain := butlast (cx_call_chain cx)\<rparr>
                   in case r of
                        Inr _ \<Rightarrow> (r, cx\<lparr>cx_instructions_executed := cx_instructions_executed cx @ [ix_program_id ix]\<rparr>, cache)
                      | Inl _ \<Rightarrow> (r, cx, cache))))"

section \<open>Loading\<close>

text \<open>What an account reads as, present or not.\<close>

definition view :: "(pubkey \<rightharpoonup> account) \<Rightarrow> pubkey \<Rightarrow> account" where
  "view b k = account_or_new (b k) k"

definition loaded :: "(pubkey \<rightharpoonup> account) \<Rightarrow> pubkey set \<Rightarrow> (pubkey \<rightharpoonup> account)" where
  "loaded b K = (\<lambda>k. if k \<in> K then Some (view b k) else None)"

lemma load_accounts_context:
  "\<exists>ms. load_accounts b metas cx = cx\<lparr>cx_accounts := cx_accounts cx ++ loaded b (meta_pubkey ` set metas),
     cx_snapshots := cx_snapshots cx ++ loaded b (meta_pubkey ` set metas), cx_account_metas := ms\<rparr>"
proof (induction metas arbitrary: cx)
  case Nil
  have "cx ++ loaded b {} = cx" for cx by (simp add: loaded_def map_add_def fun_eq_iff)
  then show ?case by (intro exI [of _ "cx_account_metas cx"]) (simp add: load_accounts_def)
next
  case (Cons m ms)
  have upd: "f(meta_pubkey m \<mapsto> account_or_new (bank_load b (meta_pubkey m)) (meta_pubkey m))
      ++ loaded b (meta_pubkey ` set ms) = f ++ loaded b (meta_pubkey ` set (m # ms))" for f
    by (auto simp: loaded_def map_add_def fun_eq_iff view_def bank_load_def)
  have "load_accounts b (m # ms) cx = load_accounts b ms (load_one (m, bank_load b (meta_pubkey m)) cx)"
    by (simp add: load_accounts_def bank_load_many_def)
  moreover obtain mt where "load_accounts b ms (load_one (m, bank_load b (meta_pubkey m)) cx)
      = (load_one (m, bank_load b (meta_pubkey m)) cx)\<lparr>
        cx_accounts := cx_accounts (load_one (m, bank_load b (meta_pubkey m)) cx) ++ loaded b (meta_pubkey ` set ms),
        cx_snapshots := cx_snapshots (load_one (m, bank_load b (meta_pubkey m)) cx) ++ loaded b (meta_pubkey ` set ms),
        cx_account_metas := mt\<rparr>"
    using Cons.IH by blast
  ultimately show ?case by (intro exI [of _ mt]) (simp add: load_one_def Let_def upd)
qed

lemma load_from_snapshot_context:
  "load_from_snapshot snap metas cx = cx\<lparr>cx_accounts := cx_accounts cx ++ loaded snap (meta_pubkey ` set metas),
     cx_snapshots := cx_snapshots cx ++ loaded snap (meta_pubkey ` set metas)\<rparr>"
proof (induction metas arbitrary: cx)
  case Nil
  have "cx ++ loaded snap {} = cx" for cx by (simp add: loaded_def map_add_def fun_eq_iff)
  then show ?case by (simp add: load_from_snapshot_def)
next
  case (Cons m ms)
  have upd: "f(meta_pubkey m \<mapsto> account_or_new (snap (meta_pubkey m)) (meta_pubkey m))
      ++ loaded snap (meta_pubkey ` set ms) = f ++ loaded snap (meta_pubkey ` set (m # ms))" for f
    by (auto simp: loaded_def map_add_def fun_eq_iff view_def)
  let ?k = "meta_pubkey m" and ?a = "account_or_new (snap (meta_pubkey m)) (meta_pubkey m)"
  have "load_from_snapshot snap (m # ms) cx = load_from_snapshot snap ms
      (cx\<lparr>cx_snapshots := (cx_snapshots cx)(?k \<mapsto> ?a), cx_accounts := (cx_accounts cx)(?k \<mapsto> ?a)\<rparr>)"
    by (simp add: load_from_snapshot_def Let_def)
  also have "\<dots> = cx\<lparr>cx_accounts := (cx_accounts cx)(?k \<mapsto> ?a) ++ loaded snap (meta_pubkey ` set ms),
      cx_snapshots := (cx_snapshots cx)(?k \<mapsto> ?a) ++ loaded snap (meta_pubkey ` set ms)\<rparr>"
    unfolding Cons.IH by simp
  finally show ?case unfolding upd .
qed

text \<open>The keys a transaction loads, and the context it starts from.\<close>

definition tx_keys :: "instruction list \<Rightarrow> pubkey \<Rightarrow> pubkey set" where
  "tx_keys ixs fee_payer = meta_pubkey ` set (transaction_metas ixs fee_payer)"

definition start_context ::
    "(pubkey \<rightharpoonup> account) \<Rightarrow> compute_budget \<Rightarrow> instruction list \<Rightarrow> hash32 \<Rightarrow> u64 \<Rightarrow> u64 \<Rightarrow> pubkey \<Rightarrow> execution_context" where
  "start_context b bud ixs tx_hash slot timestamp fee_payer =
     (context_new tx_hash slot timestamp fee_payer bud)
       \<lparr>cx_accounts := loaded b (tx_keys ixs fee_payer), cx_snapshots := loaded b (tx_keys ixs fee_payer)\<rparr>"

lemma load_accounts_start:
  "\<exists>ms. load_accounts b (transaction_metas ixs fee_payer) (context_new tx_hash slot timestamp fee_payer bud)
     = (start_context b bud ixs tx_hash slot timestamp fee_payer)\<lparr>cx_account_metas := ms\<rparr>"
  using load_accounts_context [of b "transaction_metas ixs fee_payer" "context_new tx_hash slot timestamp fee_payer bud"]
  by (auto simp: start_context_def tx_keys_def context_new_def)

lemma load_from_snapshot_start:
  "load_from_snapshot b (transaction_metas ixs fee_payer) (context_new tx_hash slot timestamp fee_payer bud)
     = start_context b bud ixs tx_hash slot timestamp fee_payer"
  by (simp add: load_from_snapshot_context start_context_def tx_keys_def context_new_def)

section \<open>The accumulated metas are never read\<close>

abbreviation with_metas :: "(pubkey \<rightharpoonup> account_meta) \<Rightarrow> execution_context \<Rightarrow> execution_context" where
  "with_metas ms cx \<equiv> cx\<lparr>cx_account_metas := ms\<rparr>"

lemma native_ignores_metas:
  "execute_native_program env ix (with_metas ms cx) = apsnd (with_metas ms) (execute_native_program env ix cx)"
  by (simp add: execute_native_program_def Let_def split: sum.splits prod.splits)

lemma invoke_ignores_metas:
  "invoke_program env p bc ix (with_metas ms cx) = apsnd (with_metas ms) (invoke_program env p bc ix cx)"
  by (simp add: invoke_program_def split: sum.splits prod.splits)

lemma run_ignores_metas:
  "run_program env ix (with_metas ms cx) = apsnd (with_metas ms) (run_program env ix cx)"
proof -
  have "find_program env (with_metas ms cx) p = find_program env cx p" for p
    by (simp add: find_program_def split: option.splits)
  then show ?thesis
    by (simp add: run_program_def native_ignores_metas invoke_ignores_metas split: sum.splits)
qed

lemma internal_ignores_metas:
  "execute_instruction_internal env ix (with_metas ms cx)
     = apsnd (with_metas ms) (execute_instruction_internal env ix cx)"
proof -
  let ?cx = "cx\<lparr>cx_call_chain := cx_call_chain cx @ [ix_program_id ix]\<rparr>"
  obtain r cx1 where run: "run_program env ix ?cx = (r, cx1)" by (cases "run_program env ix ?cx")
  have eq: "(with_metas ms cx)\<lparr>cx_call_chain := cx_call_chain (with_metas ms cx) @ [ix_program_id ix]\<rparr>
      = with_metas ms ?cx" by simp
  show ?thesis
    unfolding execute_instruction_internal_def eq run_ignores_metas run by (cases r) (simp_all add: Let_def)
qed

lemma execute_all_ignores_metas:
  "execute_all env ixs (with_metas ms cx) = apsnd (with_metas ms) (execute_all env ixs cx)"
proof (induction ixs arbitrary: cx)
  case (Cons ix ixs)
  show ?case
  proof (cases "execute_instruction_internal env ix cx")
    case (Pair r cx1)
    then show ?thesis using Cons internal_ignores_metas [of env ix ms cx] by (cases r) simp_all
  qed
qed simp

definition charge_fee :: "execution_context \<Rightarrow> execution_context option" where
  "charge_fee cx = (case cx_accounts cx (cx_fee_payer cx) of
      None \<Rightarrow> Some cx
    | Some payer \<Rightarrow> if acc_motes payer < calculate_fee (cx_compute_budget cx) then None
        else Some (cx\<lparr>cx_accounts := (cx_accounts cx)(cx_fee_payer cx \<mapsto>
          payer\<lparr>acc_motes := acc_motes payer - calculate_fee (cx_compute_budget cx)\<rparr>)\<rparr>))"

lemma charge_fee_ignores_metas: "charge_fee (with_metas ms cx) = map_option (with_metas ms) (charge_fee cx)"
  by (simp add: charge_fee_def split: option.splits)

lemma run_loaded_cases:
  obtains (poor) "charge_fee cx = None" "run_loaded env ixs cx
      = (receipt_failure (re_crypto env) (re_to_string env) (cx_transaction_hash cx) (cx_slot cx) InsufficientFunds 0 0 [], None)"
  | (failed) cx1 e cx2 where "charge_fee cx = Some cx1" "execute_all env ixs cx1 = (Inl e, cx2)"
      "run_loaded env ixs cx = (receipt_failure (re_crypto env) (re_to_string env) (cx_transaction_hash cx) (cx_slot cx) e
        (consumed (cx_meter cx2)) (calculate_fee (cx_compute_budget cx)) (col_logs (cx_events cx2)), None)"
  | (ok) cx1 cx2 where "charge_fee cx = Some cx1" "execute_all env ixs cx1 = (Inr (), cx2)"
      "run_loaded env ixs cx = (receipt_success (re_crypto env) (cx_transaction_hash cx2) (cx_slot cx2)
        (consumed (cx_meter cx2)) (calculate_fee (cx_compute_budget cx)) (col_events (cx_events cx2))
        (col_logs (cx_events cx2)) (compute_deltas (re_crypto env) (re_iter env 0) cx2) (cx_return_data cx2)
        (cx_instructions_executed cx2), Some cx2)"
proof (cases "charge_fee cx")
  case None
  then show ?thesis
    using poor by (auto simp: run_loaded_def charge_fee_def Let_def split: option.splits if_splits)
next
  case (Some cx1)
  obtain r cx2 where all: "execute_all env ixs cx1 = (r, cx2)" by (cases "execute_all env ixs cx1")
  show ?thesis
  proof (cases r)
    case (Inl e)
    then show ?thesis
      using Some all failed [of cx1 e cx2]
      by (auto simp: run_loaded_def charge_fee_def rollback_def Let_def split: option.splits if_splits)
  next
    case (Inr u)
    then show ?thesis
      using Some all ok [of cx1 cx2]
      by (auto simp: run_loaded_def charge_fee_def Let_def split: option.splits if_splits)
  qed
qed

lemma deltas_ignore_metas: "compute_deltas c it (with_metas ms cx) = compute_deltas c it cx"
proof -
  have "delta_of c (with_metas ms cx) = delta_of c cx"
    by (simp add: fun_eq_iff delta_of_def split: option.splits)
  then show ?thesis by (simp add: compute_deltas_def)
qed

lemma run_loaded_ignores_metas:
  "run_loaded env ixs (with_metas ms cx) = apsnd (map_option (with_metas ms)) (run_loaded env ixs cx)"
proof (cases rule: run_loaded_cases [of cx env ixs])
  case poor
  then show ?thesis
    using charge_fee_ignores_metas [of ms cx] by (cases rule: run_loaded_cases [of "with_metas ms cx" env ixs]) simp_all
next
  case (failed cx1 e cx2)
  then show ?thesis
    using charge_fee_ignores_metas [of ms cx] execute_all_ignores_metas [of env ixs ms cx1]
    by (cases rule: run_loaded_cases [of "with_metas ms cx" env ixs]) simp_all
next
  case (ok cx1 cx2)
  then show ?thesis
    using charge_fee_ignores_metas [of ms cx] execute_all_ignores_metas [of env ixs ms cx1]
    by (cases rule: run_loaded_cases [of "with_metas ms cx" env ixs]) (auto simp: deltas_ignore_metas)
qed

section \<open>Running from the bank and running from a snapshot agree\<close>

lemma execute_transaction_start:
  "execute_transaction env b ixs tx_hash slot timestamp fee_payer =
     (case run_loaded env ixs (start_context b (re_budget env) ixs tx_hash slot timestamp fee_payer) of
        (r, None) \<Rightarrow> (r, b)
      | (r, Some cx) \<Rightarrow> (r, mem.store_entries (re_iter env 0 (cx_accounts cx)) (cx_accounts cx) b))"
proof -
  let ?cx = "start_context b (re_budget env) ixs tx_hash slot timestamp fee_payer"
  obtain ms where ms: "load_accounts b (transaction_metas ixs fee_payer)
      (context_new tx_hash slot timestamp fee_payer (re_budget env)) = with_metas ms ?cx"
    using load_accounts_start by blast
  obtain r res where "run_loaded env ixs ?cx = (r, res)" by (cases "run_loaded env ixs ?cx")
  then show ?thesis
    using ms run_loaded_ignores_metas [of env ixs ms ?cx] by (cases res) (simp_all add: execute_transaction_def)
qed

lemma execute_with_snapshot_start:
  "execute_transaction_with_snapshot env snap ixs tx_hash slot timestamp fee_payer =
     (case run_loaded env ixs (start_context snap (re_budget env) ixs tx_hash slot timestamp fee_payer) of
        (r, None) \<Rightarrow> (r, Map.empty)
      | (r, Some cx) \<Rightarrow> (r, cx_accounts cx))"
  by (simp add: execute_transaction_with_snapshot_def load_from_snapshot_start Let_def)

lemma start_context_cong:
  assumes "\<And>k. k \<in> tx_keys ixs fee_payer \<Longrightarrow> view b k = view b' k"
  shows "start_context b bud ixs tx_hash slot timestamp fee_payer = start_context b' bud ixs tx_hash slot timestamp fee_payer"
proof -
  have "loaded b (tx_keys ixs fee_payer) = loaded b' (tx_keys ixs fee_payer)"
    using assms by (simp add: loaded_def fun_eq_iff)
  then show ?thesis by (simp add: start_context_def)
qed

lemma receipt_success_flag [simp]:
  "rc_success (receipt_success c h s u f es ls ds rd ps)" "\<not> rc_success (receipt_failure c ts h s e u f ls)"
  by (simp_all add: receipt_success_def receipt_failure_def Let_def)

lemma run_loaded_flag: "run_loaded env ixs cx = (r, res) \<Longrightarrow> rc_success r \<longleftrightarrow> res \<noteq> None"
  by (cases rule: run_loaded_cases [of cx env ixs]) auto

section \<open>The iteration order matters only to the order of the deltas\<close>

text \<open>An iteration of a map gives each of its keys once.\<close>

definition iterates_once :: "runtime_env \<Rightarrow> bool" where
  "iterates_once env \<longleftrightarrow> (\<forall>n m. finite (dom m) \<longrightarrow> distinct (re_iter env n m) \<and> set (re_iter env n m) = dom m)"

lemma iterates_once_next: "iterates_once env \<Longrightarrow> iterates_once (next_map env)"
  by (simp add: iterates_once_def next_map_def)

text \<open>Two receipts that differ at most in the order of the account deltas, each with the hash of its own contents.\<close>

definition same_receipt :: "crypto \<Rightarrow> execution_receipt \<Rightarrow> execution_receipt \<Rightarrow> bool" where
  "same_receipt c r r' \<longleftrightarrow> r\<lparr>rc_account_deltas := [], rc_receipt_hash := 0\<rparr> = r'\<lparr>rc_account_deltas := [], rc_receipt_hash := 0\<rparr>
     \<and> mset (rc_account_deltas r) = mset (rc_account_deltas r') \<and> receipt_verify c r \<and> receipt_verify c r'"

lemma same_receipt_success: "same_receipt c r r' \<Longrightarrow> rc_success r \<longleftrightarrow> rc_success r'"
  unfolding same_receipt_def by (metis execution_receipt.select_convs(3) execution_receipt.surjective
      execution_receipt.update_convs(10) execution_receipt.update_convs(13))

abbreviation with_orders ::
    "(nat \<Rightarrow> (pubkey \<rightharpoonup> account) \<Rightarrow> pubkey list) \<Rightarrow> runtime_env \<Rightarrow> runtime_env" where
  "with_orders it env \<equiv> env\<lparr>re_iter := it\<rparr>"

lemma orders_select:
  "re_crypto (with_orders it env) = re_crypto env" "re_system (with_orders it env) = re_system env"
  "re_nonce (with_orders it env) = re_nonce env" "re_token (with_orders it env) = re_token env"
  "re_service (with_orders it env) = re_service env" "re_cache (with_orders it env) = re_cache env"
  "re_validate (with_orders it env) = re_validate env" "re_load_module (with_orders it env) = re_load_module env"
  "re_execute (with_orders it env) = re_execute env"
  by simp_all

lemma execute_all_orders [simp]: "execute_all (with_orders it env) ixs cx = execute_all env ixs cx"
proof (induction ixs arbitrary: cx)
  case (Cons ix ixs)
  have "execute_instruction_internal (with_orders it env) ix cx = execute_instruction_internal env ix cx"
    unfolding execute_instruction_internal_def run_program_def execute_native_program_def invoke_program_def
      find_program_def orders_select by (rule refl)
  then show ?case using Cons by (simp split: prod.splits sum.splits)
qed simp

lemma native_finite:
  assumes "execute_native_program env ix cx = (r, cx')" and "finite (dom (cx_accounts cx))"
  shows "finite (dom (cx_accounts cx'))"
proof -
  have ex: "finite (dom m')" if "extract_accounts ks m = (ex, m')" "finite (dom m)" for ks m m' ex
    using that by (induction ks arbitrary: m ex) (auto split: option.splits prod.splits)
  have put: "finite (dom (put_back ks accs m))" if "finite (dom m)" for ks accs m
  proof -
    have "finite (dom (fold (\<lambda>(k, a) m. m(k \<mapsto> a)) kas m))" for kas
      using that by (induction kas arbitrary: m) auto
    then show ?thesis by (simp add: put_back_def)
  qed
  show ?thesis
    using assms ex put
    by (auto simp: execute_native_program_def Let_def split: prod.splits sum.splits if_splits)
qed

lemma execute_all_finite:
  "execute_all env ixs cx = (r, cx') \<Longrightarrow> finite (dom (cx_accounts cx)) \<Longrightarrow> finite (dom (cx_accounts cx'))"
proof (induction ixs arbitrary: cx)
  case (Cons ix ixs)
  have run: "finite (dom (cx_accounts cx'))" if "run_program env ix cx = (r, cx')" "finite (dom (cx_accounts cx))" for cx r cx'
    using that native_finite by (auto simp: run_program_def invoke_program_def split: if_splits sum.splits prod.splits)
  have "finite (dom (cx_accounts cx1))" if "execute_instruction_internal env ix cx = (q, cx1)" for q cx1
    using that Cons.prems(2) run [of "cx\<lparr>cx_call_chain := cx_call_chain cx @ [ix_program_id ix]\<rparr>"]
    by (auto simp: execute_instruction_internal_def Let_def split: prod.splits sum.splits)
  then show ?case using Cons.prems(1) Cons.IH by (auto split: prod.splits sum.splits)
qed simp

lemma mset_filter_map: "mset xs = mset ys \<Longrightarrow> mset (filter_map f xs) = mset (filter_map f ys)"
proof -
  have "mset (filter_map f zs) = image_mset (\<lambda>x. the (f x)) (filter_mset (\<lambda>x. f x \<noteq> None) (mset zs))" for zs
    by (induction zs) (auto split: option.splits)
  then show "mset xs = mset ys \<Longrightarrow> mset (filter_map f xs) = mset (filter_map f ys)" by simp
qed

lemma receipts_verify:
  "receipt_verify c (receipt_success c h s u f es ls ds rd ps)" "receipt_verify c (receipt_failure c ts h s e u f ls)"
  by (simp_all add: receipt_verify_def receipt_success_def receipt_failure_def receipt_compute_hash_def
      receipt_preimage_def Let_def)

lemma run_loaded_orders:
  assumes "iterates_once env" and "iterates_once (with_orders it env)" and "finite (dom (cx_accounts cx))"
  shows "same_receipt (re_crypto env) (fst (run_loaded env ixs cx)) (fst (run_loaded (with_orders it env) ixs cx))"
    and "snd (run_loaded (with_orders it env) ixs cx) = snd (run_loaded env ixs cx)"
    and "snd (run_loaded env ixs cx) = Some cx' \<Longrightarrow> finite (dom (cx_accounts cx'))"
proof -
  have charged: "finite (dom (cx_accounts cx1))" if "charge_fee cx = Some cx1" for cx1
    using that assms(3) by (auto simp: charge_fee_def split: option.splits if_splits)
  have deltas: "mset (compute_deltas c (re_iter env 0) cx2) = mset (compute_deltas c (it 0) cx2)"
    if "finite (dom (cx_accounts cx2))" for c cx2
  proof -
    have "mset (re_iter env 0 (cx_accounts cx2)) = mset (it 0 (cx_accounts cx2))"
      using assms(1,2) that by (intro set_eq_iff_mset_eq_distinct [THEN iffD1]) (simp_all add: iterates_once_def)
    then show ?thesis unfolding compute_deltas_def by (rule mset_filter_map)
  qed
  have "same_receipt (re_crypto env) (fst (run_loaded env ixs cx)) (fst (run_loaded (with_orders it env) ixs cx))
    \<and> snd (run_loaded (with_orders it env) ixs cx) = snd (run_loaded env ixs cx)
    \<and> (snd (run_loaded env ixs cx) = Some cx' \<longrightarrow> finite (dom (cx_accounts cx')))"
  proof (cases rule: run_loaded_cases [of cx env ixs])
    case poor
    then show ?thesis
      by (cases rule: run_loaded_cases [of cx "with_orders it env" ixs]) (simp_all add: same_receipt_def receipts_verify)
  next
    case (failed cx1 e cx2)
    then show ?thesis
      by (cases rule: run_loaded_cases [of cx "with_orders it env" ixs]) (simp_all add: same_receipt_def receipts_verify)
  next
    case (ok cx1 cx2)
    have fin: "finite (dom (cx_accounts cx2))" using execute_all_finite [OF ok(2) charged [OF ok(1)]] .
    then show ?thesis
      using ok deltas [OF fin] by (cases rule: run_loaded_cases [of cx "with_orders it env" ixs])
        (simp_all add: same_receipt_def receipts_verify, simp add: receipt_success_def Let_def)
  qed
  then show "same_receipt (re_crypto env) (fst (run_loaded env ixs cx)) (fst (run_loaded (with_orders it env) ixs cx))"
    and "snd (run_loaded (with_orders it env) ixs cx) = snd (run_loaded env ixs cx)"
    and "snd (run_loaded env ixs cx) = Some cx' \<Longrightarrow> finite (dom (cx_accounts cx'))" by blast+
qed

lemma store_all:
  assumes "set ks = dom m"
  shows "mem.store_entries ks m b = b ++ m"
proof
  fix k
  show "mem.store_entries ks m b k = (b ++ m) k"
    using mem.load_store_entries [of ks m b k] assms by (auto simp: bank_load_def map_add_def split: option.splits)
qed

lemma start_context_finite: "finite (dom (cx_accounts (start_context b bud ixs h slot ts p)))"
proof -
  have "dom (loaded b K) \<subseteq> K" for K by (auto simp: loaded_def split: if_splits)
  moreover have "finite (tx_keys ixs p)" by (simp add: tx_keys_def)
  ultimately show ?thesis using finite_subset by (auto simp: start_context_def)
qed

lemma snapshot_equiv:
  assumes "\<And>k. k \<in> tx_keys ixs fee_payer \<Longrightarrow> view snap k = view b k"
    and "iterates_once env" and "iterates_once (with_orders it env)"
  shows "let (r, b') = execute_transaction env b ixs tx_hash slot timestamp fee_payer;
      res = execute_transaction_with_snapshot (with_orders it env) snap ixs tx_hash slot timestamp fee_payer
    in same_receipt (re_crypto env) r (fst res) \<and> b' = commit_result (with_orders it env) res b"
proof -
  let ?cx = "start_context snap (re_budget env) ixs tx_hash slot timestamp fee_payer"
  have eq: "start_context b (re_budget env) ixs tx_hash slot timestamp fee_payer = ?cx"
    using assms(1) by (intro start_context_cong) simp
  note orders = run_loaded_orders [OF assms(2,3), where cx = ?cx and ixs = ixs, OF start_context_finite]
  obtain r res where one: "run_loaded env ixs ?cx = (r, res)" by (cases "run_loaded env ixs ?cx")
  then obtain r' where two: "run_loaded (with_orders it env) ixs ?cx = (r', res)" and same: "same_receipt (re_crypto env) r r'"
    using orders by (metis prod.collapse fst_conv snd_conv)
  show ?thesis
  proof (cases res)
    case None
    then have "\<not> rc_success r'" using run_loaded_flag [OF two] by simp
    then show ?thesis
      using one two same None
      by (simp add: execute_transaction_start execute_with_snapshot_start eq commit_result_def)
  next
    case (Some cx2)
    then have "rc_success r'" using run_loaded_flag [OF two] by simp
    moreover have "finite (dom (cx_accounts cx2))" using orders(3) one Some by simp
    then have "set (re_iter env 0 (cx_accounts cx2)) = dom (cx_accounts cx2)" "set (it 0 (cx_accounts cx2)) = dom (cx_accounts cx2)"
      using assms(2,3) by (simp_all add: iterates_once_def)
    ultimately show ?thesis
      using one two same Some
      by (simp add: execute_transaction_start execute_with_snapshot_start eq commit_result_def store_all)
  qed
qed

text \<open>C14. Executing a transaction from a snapshot and committing its result is executing it on the bank, whenever the
  snapshot and the bank agree on the accounts the transaction names and on its fee payer: the bank is the same, and so
  are the receipts but for the order of the account deltas and the receipt hash, which covers them in that order. The two
  runs may iterate their hash maps in different orders, each giving every key once.\<close>

theorem snapshot_execution_equivalent:
  assumes "\<And>k. k \<in> tx_keys ixs fee_payer \<Longrightarrow> view snap k = view b k"
    and "iterates_once env" and "iterates_once (with_orders it env)"
  shows "let (r, b') = execute_transaction env b ixs tx_hash slot timestamp fee_payer;
      res = execute_transaction_with_snapshot (with_orders it env) snap ixs tx_hash slot timestamp fee_payer
    in same_receipt (re_crypto env) r (fst res) \<and> b' = commit_result (with_orders it env) res b"
  by (rule snapshot_equiv [OF _ assms(2,3)]) (rule assms(1))

text \<open>C16. A transaction that fails, for whatever reason, leaves the bank as it was and reports no events and no account
  changes. The fee its receipt reports is zero when the payer had fewer motes than the fee, in which case no instruction
  ran, and otherwise the full fee, although the bank is not charged.\<close>

theorem failed_transaction_keeps_bank:
  assumes "execute_transaction env b ixs tx_hash slot timestamp fee_payer = (r, b')" and "\<not> rc_success r"
  shows "b' = b \<and> rc_events r = [] \<and> rc_account_deltas r = []
    \<and> rc_fee_paid r = (if acc_motes (view b fee_payer) < calculate_fee (re_budget env) then 0 else calculate_fee (re_budget env))"
proof -
  let ?cx = "start_context b (re_budget env) ixs tx_hash slot timestamp fee_payer"
  have bud: "cx_compute_budget ?cx = re_budget env" by (simp add: start_context_def context_new_def)
  have "fee_payer \<in> tx_keys ixs fee_payer" by (simp add: tx_keys_def transaction_metas_def meta_new_def)
  then have "charge_fee ?cx = None \<longleftrightarrow> acc_motes (view b fee_payer) < calculate_fee (re_budget env)"
    by (simp add: charge_fee_def start_context_def context_new_def loaded_def)
  then show ?thesis
    using assms bud unfolding execute_transaction_start
    by (cases rule: run_loaded_cases [of ?cx env ixs]) (auto simp: receipt_failure_def Let_def)
qed

section \<open>When a parallel round is serializable\<close>

definition scheduled_keys :: "scheduled_transaction \<Rightarrow> pubkey set" where
  "scheduled_keys tx = tx_keys (decompile_batch (tx_batch tx)) (tx_fee_payer tx)"

text \<open>Committing \<open>res\<close> leaves the account \<open>k\<close> as the snapshot has it.\<close>

definition leaves :: "(pubkey \<rightharpoonup> account) \<Rightarrow> execution_receipt \<times> (pubkey \<rightharpoonup> account) \<Rightarrow> pubkey \<Rightarrow> bool" where
  "leaves snap res k = (rc_success (fst res) \<longrightarrow> (case snd res k of None \<Rightarrow> True | Some a \<Rightarrow> a = view snap k))"

lemma view_commit:
  assumes "leaves snap res k" and "view b k = view snap k"
  shows "view (commit_result env res b) k = view snap k"
proof (cases "rc_success (fst res)")
  case True
  have "view (commit_result env res b) k
      = (if k \<in> set (re_iter env 0 (snd res)) \<and> snd res k \<noteq> None then view (snd res) k else view b k)"
    using True mem.load_store_entries [of "re_iter env 0 (snd res)" "snd res" b k]
    by (auto simp: commit_result_def view_def bank_load_def)
  moreover have "view (snd res) k = view snap k" if some: "snd res k \<noteq> None"
  proof -
    obtain a where "snd res k = Some a" using some by blast
    then show ?thesis using True assms(1) by (simp add: leaves_def view_def [of "snd res"] account_or_new_def)
  qed
  ultimately show ?thesis using assms(2) by simp
qed (use assms in \<open>simp add: commit_result_def\<close>)

lemma next_orders: "next_map (with_orders it env) = with_orders (\<lambda>n. it (Suc n)) (next_map env)"
  by (simp add: next_map_def)

lemma next_as_orders: "next_map env = with_orders (\<lambda>n. re_iter env (Suc n)) env"
  by (simp add: next_map_def)

lemma run_scheduled_orders:
  assumes "iterates_once env" and "iterates_once (with_orders it env)"
  shows "same_receipt (re_crypto env) (fst (run_scheduled env snap slot ts tx)) (fst (run_scheduled (with_orders it env) snap slot ts tx))"
    and "snd (run_scheduled (with_orders it env) snap slot ts tx) = snd (run_scheduled env snap slot ts tx)"
    and "leaves snap (run_scheduled (with_orders it env) snap slot ts tx) k
      \<longleftrightarrow> leaves snap (run_scheduled env snap slot ts tx) k"
proof -
  let ?ixs = "decompile_batch (tx_batch tx)"
  let ?cx = "start_context snap (re_budget env) ?ixs (batch_hash (blake3 (re_crypto env)) (tx_batch tx)) slot ts (tx_fee_payer tx)"
  note orders = run_loaded_orders [OF assms, where cx = ?cx and ixs = ?ixs, OF start_context_finite]
  obtain r res where one: "run_loaded env ?ixs ?cx = (r, res)" by (cases "run_loaded env ?ixs ?cx")
  then obtain r' where two: "run_loaded (with_orders it env) ?ixs ?cx = (r', res)" and same: "same_receipt (re_crypto env) r r'"
    using orders by (metis prod.collapse fst_conv snd_conv)
  show same': "same_receipt (re_crypto env) (fst (run_scheduled env snap slot ts tx)) (fst (run_scheduled (with_orders it env) snap slot ts tx))"
    and snd': "snd (run_scheduled (with_orders it env) snap slot ts tx) = snd (run_scheduled env snap slot ts tx)"
    using one two same by (simp_all add: run_scheduled_def execute_with_snapshot_start split: option.splits)
  show "leaves snap (run_scheduled (with_orders it env) snap slot ts tx) k
      \<longleftrightarrow> leaves snap (run_scheduled env snap slot ts tx) k"
    unfolding leaves_def snd' same_receipt_success [OF same'] ..
qed

text \<open>The round, its transactions and its commits with the orders \<open>it\<close>, against the transactions one after the other with
  those of \<open>env\<close>.\<close>

lemma round_serial:
  assumes "\<And>tx k. tx \<in> set txs \<Longrightarrow> k \<in> scheduled_keys tx \<Longrightarrow> view b k = view snap k"
    and "sorted_wrt (\<lambda>t u. \<forall>k\<in>scheduled_keys u. leaves snap (run_scheduled env snap slot timestamp t) k) txs"
    and "iterates_once env" and "iterates_once (with_orders it env)"
  shows "let (rs, b') = execute_sequentially env slot timestamp txs b;
      results = run_batch (with_orders it env) snap slot timestamp txs
    in list_all2 (same_receipt (re_crypto env)) rs (map fst results) \<and> b' = commit_batch (with_orders it env) results b"
  using assms
proof (induction txs arbitrary: b env it)
  case (Cons tx txs)
  let ?res = "run_scheduled (with_orders it env) snap slot timestamp tx"
  let ?b = "commit_result (with_orders it env) ?res b" and ?it = "\<lambda>n. it (Suc n)"
  obtain r where first: "execute_transaction env b (decompile_batch (tx_batch tx))
      (batch_hash (blake3 (re_crypto env)) (tx_batch tx)) slot timestamp (tx_fee_payer tx) = (r, ?b)"
    and same: "same_receipt (re_crypto env) r (fst ?res)"
    using snapshot_equiv [of "decompile_batch (tx_batch tx)" "tx_fee_payer tx" snap b env it
        "batch_hash (blake3 (re_crypto env)) (tx_batch tx)" slot timestamp] Cons.prems(1) [of tx] Cons.prems(3,4)
    by (auto simp: run_scheduled_def scheduled_keys_def Let_def split: prod.splits)
  have once: "iterates_once (next_map env)" "iterates_once (with_orders ?it (next_map env))"
    using iterates_once_next [OF Cons.prems(3)] iterates_once_next [OF Cons.prems(4)] by (simp_all add: next_orders)
  have leave: "leaves snap (run_scheduled (next_map env) snap slot timestamp t) k
      \<longleftrightarrow> leaves snap (run_scheduled env snap slot timestamp t) k" for t k
    unfolding next_as_orders using once(1) Cons.prems(3) by (intro run_scheduled_orders(3)) (simp_all add: next_as_orders)
  have "view ?b k = view snap k" if "u \<in> set txs" "k \<in> scheduled_keys u" for u k
    using that Cons.prems(1,2) run_scheduled_orders(3) [OF Cons.prems(3,4)] by (intro view_commit) auto
  then have "let (rs, b') = execute_sequentially (next_map env) slot timestamp txs ?b;
      results = run_batch (with_orders ?it (next_map env)) snap slot timestamp txs
    in list_all2 (same_receipt (re_crypto (next_map env))) rs (map fst results)
      \<and> b' = commit_batch (with_orders ?it (next_map env)) results ?b"
    using Cons.prems(2) once by (intro Cons.IH) (auto simp: leave)
  then show ?case using first same by (simp add: Let_def next_orders split_beta next_map_def)
qed simp

lemma decompiled_keys:
  "meta_pubkey ` set (ix_accounts (decompile_instruction b ci)) = (\<Union>i\<in>set (ci_accounts ci). key_at (account_keys b) i)"
proof -
  have "meta_pubkey ` set (filter_map (decompile_account b) is) = (\<Union>i\<in>set is. key_at (account_keys b) i)" for "is"
    by (induction "is") (auto simp: decompile_account_def key_at_def split: option.splits)
  then show ?thesis by (simp add: decompile_instruction_def)
qed

definition from_batch :: "scheduled_transaction \<Rightarrow> bool" where
  "from_batch tx \<longleftrightarrow> (read_accounts tx, write_accounts tx) = extract_account_keys_from_batch (tx_batch tx)
     \<and> account_keys (tx_batch tx) \<noteq> []"

lemma scheduled_keys_covered:
  assumes "from_batch tx" and "tx \<in> set (eb_transactions eb)"
  shows "scheduled_keys tx \<subseteq> batch_keys eb"
proof
  fix k
  assume "k \<in> scheduled_keys tx"
  then consider (payer) "k = tx_fee_payer tx"
    | (acc) "k \<in> (\<Union>ci\<in>set (batch_instructions (tx_batch tx)). \<Union>i\<in>set (ci_accounts ci). key_at (account_keys (tx_batch tx)) i)"
    unfolding scheduled_keys_def tx_keys_def transaction_metas_def decompile_batch_def
    using decompiled_keys by (fastforce simp: meta_new_def)
  then show "k \<in> batch_keys eb"
  proof cases
    case payer
    then show ?thesis
      using assms by (auto simp: from_batch_def tx_fee_payer_def batch_keys_def neq_Nil_conv intro!: bexI [of _ tx])
  next
    case acc
    then have "k \<in> batch_refs (tx_batch tx)" by (auto simp: batch_refs_def)
    then have "k \<in> set (read_accounts tx) \<union> set (write_accounts tx)"
      using extract_exact [of "tx_batch tx"] assms(1) by (auto simp: from_batch_def)
    then show ?thesis using assms(2) by (auto simp: batch_keys_def)
  qed
qed

section \<open>A concrete runtime\<close>

text \<open>An instance of the parameters, with a one-byte encoding of system transfers, and a bank with one funded account.\<close>

definition toy_env :: runtime_env where
  "toy_env = \<lparr>re_crypto = toy_crypto,
     re_system = \<lparr>serialize = (\<lambda>_. None), deserialize = (\<lambda>bs. case bs of [n] \<Rightarrow> Some (SystemTransfer (ucast n)) | _ \<Rightarrow> None)\<rparr>,
     re_nonce = nonce_bincode, re_token = token_bincode,
     re_service = (\<lambda>_ _ _ accs m. (Inl UnsupportedProgram, accs, m)),
     re_cache = Map.empty, re_validate = (\<lambda>_. Inr ()), re_load_module = (\<lambda>_. Inr ()),
     re_execute = (\<lambda>_ _ _ _ m. (Inr [], m)), re_to_string = (\<lambda>_. []),
     re_iter = (\<lambda>n m. sorted_list_of_set (dom m)), re_budget = compute_budget_default, re_parallel = True\<rparr>"

definition toy_bank :: bank where
  "toy_bank = [11 \<mapsto> account_new_with_data 11 5000000 [] SYSTEM_PROGRAM_ID]"

definition toy_transfer :: instruction where
  "toy_transfer = instruction_new SYSTEM_PROGRAM_ID [meta_signer_writable 11, meta_writable 12] [70]"

definition toy_loader_call :: instruction where
  "toy_loader_call = instruction_new LOADER_PROGRAM_ID [] []"

definition descending :: "nat \<Rightarrow> (pubkey \<rightharpoonup> account) \<Rightarrow> pubkey list" where
  "descending n m = rev (sorted_list_of_set (dom m))"

lemma toy_iterates_once: "iterates_once toy_env" "iterates_once (with_orders descending toy_env)"
  by (simp_all add: iterates_once_def toy_env_def descending_def)

theorem snapshot_execution_equivalent_witness:
  "let (r, b') = execute_transaction toy_env (toy_bank(99 \<mapsto> account_new 99)) [toy_transfer] 1 2 3 11;
      res = execute_transaction_with_snapshot (with_orders descending toy_env) toy_bank [toy_transfer] 1 2 3 11
    in same_receipt (re_crypto toy_env) r (fst res)
      \<and> b' = commit_result (with_orders descending toy_env) res (toy_bank(99 \<mapsto> account_new 99))"
  by (rule snapshot_execution_equivalent [OF _ toy_iterates_once])
    (auto simp: tx_keys_def transaction_metas_def toy_transfer_def instruction_new_def meta_signer_writable_def
      meta_writable_def meta_new_def view_def)

lemma toy_fee: "calculate_fee compute_budget_default = 5200"
  by (simp add: calculate_fee_def compute_budget_default_def DEFAULT_COMPUTE_UNITS_def)

lemma toy_loader_fails:
  "\<exists>r b'. execute_transaction toy_env toy_bank [toy_loader_call] 1 2 3 11 = (r, b') \<and> \<not> rc_success r \<and> rc_fee_paid r = 5200"
proof -
  have "account_or_new (toy_bank 11) 11 = account_new_with_data 11 5000000 [] SYSTEM_PROGRAM_ID"
    by (simp add: toy_bank_def account_or_new_def)
  then show ?thesis
    by (simp add: execute_transaction_start run_loaded_def start_context_def context_new_def tx_keys_def loaded_def view_def
        transaction_metas_def toy_loader_call_def instruction_new_def meta_new_def account_new_with_data_def calculate_fee_def
        toy_env_def execute_instruction_internal_def run_program_def is_native_program_def execute_native_program_def
        consume_def meter_new_def compute_budget_default_def DEFAULT_COMPUTE_UNITS_def receipt_failure_def Let_def
        SYSTEM_PROGRAM_ID_def TOKEN_PROGRAM_ID_def LOADER_PROGRAM_ID_def MARKETPLACE_PROGRAM_ID_def
        BOT_REGISTRY_PROGRAM_ID_def split: sum.splits)
qed

theorem failed_transaction_keeps_bank_witness:
  "\<exists>r. execute_transaction toy_env toy_bank [toy_loader_call] 1 2 3 11 = (r, toy_bank)
     \<and> \<not> rc_success r \<and> rc_fee_paid r = 5200 \<and> rc_account_deltas r = []"
proof -
  obtain r b' where run: "execute_transaction toy_env toy_bank [toy_loader_call] 1 2 3 11 = (r, b')"
    and failed: "\<not> rc_success r" and "rc_fee_paid r = 5200"
    using toy_loader_fails by blast
  with failed_transaction_keeps_bank [OF run failed] show ?thesis by simp
qed

end
