(* ===== verification/Runtime_Safety.thy ===== *)
theory Runtime_Safety
  imports Runtime
begin

text \<open>
  What the runtime guarantees of a transaction: the motes of the bank are conserved up to the fee, the compute budget
  bounds what is consumed, and which checks the runtime leaves out. The marketplace and bot-registry processors enter
  through \<open>re_service\<close>, under the contract \<open>service_provider\<close>; \<open>Platform\<close> shows that their models keep it. Bytecode
  programs are included, since the runtime discards what the VM returns.
\<close>

section \<open>The contract of the services\<close>

locale service_provider =
  fixes svc :: service
  assumes svc_same: "svc p data slot accs m = (r, accs', m') \<Longrightarrow> same_accounts accs accs'"
    and svc_meter: "svc p data slot accs m = (r, accs', m') \<Longrightarrow> meter_ok m \<Longrightarrow> meter_ok m' \<and> budget m' = budget m"
    and svc_total: "svc p data slot accs m = (Inr es, accs', m') \<Longrightarrow> motes_total accs' = motes_total accs"

section \<open>Motes are conserved\<close>

definition motes_of :: "account \<Rightarrow> nat" where
  "motes_of a = unat (acc_motes a)"

lemma motes_total_list: "motes_total accs = sum_list (map motes_of accs)"
  by (simp add: motes_total_def motes_of_def [abs_def] o_def)

lemma extract_accounts_spec:
  assumes "extract_accounts ks m = (ex, m')" and "finite (dom m)"
  shows "finite (dom m') \<and> distinct (map fst ex) \<and> set (map fst ex) \<inter> dom m' = {}
    \<and> dom m = dom m' \<union> set (map fst ex)
    \<and> map_total motes_of m = map_total motes_of m' + motes_total (map snd ex)"
  using assms
proof (induction ks arbitrary: m ex)
  case (Cons k ks)
  show ?case
  proof (cases "m k")
    case None
    then show ?thesis using Cons by simp
  next
    case (Some a)
    obtain ex1 where ex1: "extract_accounts ks (m(k := None)) = (ex1, m')" "ex = (k, a) # ex1"
      using Cons.prems(1) Some by (auto split: prod.splits)
    have fin: "finite (dom (m(k := None)))" using Cons.prems(2) by simp
    note IH = Cons.IH [OF ex1(1) fin]
    have dom: "dom m = insert k (dom (m(k := None)))" "k \<notin> dom (m(k := None))" using Some by auto
    then have "k \<notin> dom m'" "k \<notin> set (map fst ex1)" using IH by blast+
    then show ?thesis
      using IH dom(1) map_total_remove [OF Cons.prems(2) Some, of motes_of]
      unfolding ex1(2) by (simp only: motes_total_list list.map fst_conv snd_conv distinct.simps sum_list.Cons) auto
  qed
qed (simp add: motes_total_list)

lemma put_back_spec:
  assumes "length accs = length ks" and "distinct ks" and "set ks \<inter> dom m = {}" and "finite (dom m)"
  shows "dom (put_back ks accs m) = dom m \<union> set ks
    \<and> map_total motes_of (put_back ks accs m) = map_total motes_of m + motes_total accs"
  using assms
proof (induction ks accs arbitrary: m rule: list_induct2')
  case (4 k ks a accs)
  have "put_back (k # ks) (a # accs) m = put_back ks accs (m(k \<mapsto> a))" by (simp add: put_back_def)
  moreover have "map_total motes_of (m(k \<mapsto> a)) = motes_of a + map_total motes_of m"
    using 4 by (intro map_total_fresh) auto
  moreover have "set ks \<inter> dom (m(k \<mapsto> a)) = {}" "finite (dom (m(k \<mapsto> a)))" using 4(3-5) by auto
  ultimately show ?case using 4 by (auto simp: motes_total_list)
qed (simp_all add: put_back_def motes_total_list)

definition same_totals :: "execution_context \<Rightarrow> execution_context \<Rightarrow> bool" where
  "same_totals cx cx' \<longleftrightarrow> dom (cx_accounts cx') = dom (cx_accounts cx)
     \<and> map_total motes_of (cx_accounts cx') = map_total motes_of (cx_accounts cx)"

lemma native_success:
  assumes "execute_native_program env ix cx = (r, cx')"
  obtains (early) e m1 where "consume 100 (cx_meter cx) = (Inl e, m1)" "r = Inl e" "cx_meter cx' = m1"
  | (rejected) e m1 where "consume 100 (cx_meter cx) = (Inr (), m1)" "r = Inl e" "cx_meter cx' = m1"
  | (processed) ex rest accs' m1 m2 where
    "extract_accounts (map meta_pubkey (ix_accounts ix)) (cx_accounts cx) = (ex, rest)"
    "consume 100 (cx_meter cx) = (Inr (), m1)"
    "(\<exists>six. system_process (re_crypto env) (re_nonce env) six (map snd ex) m1 = (r, accs', m2))
      \<or> token_process (re_token env) (ix_data ix) (map snd ex) m1 = (r, accs', m2)"
    "cx_accounts cx' = put_back (map fst ex) accs' rest" "cx_meter cx' = m2"
  | (served) ex rest q accs' m1 m2 where
    "extract_accounts (map meta_pubkey (ix_accounts ix)) (cx_accounts cx) = (ex, rest)"
    "consume 100 (cx_meter cx) = (Inr (), m1)"
    "re_service env (ix_program_id ix) (ix_data ix) (cx_slot cx) (map snd ex) m1 = (q, accs', m2)"
    "r = Inr () \<Longrightarrow> (\<exists>es. q = Inr es) \<and> cx_accounts cx' = put_back (map fst ex) accs' rest" "cx_meter cx' = m2"
proof -
  obtain ex rest where ex: "extract_accounts (map meta_pubkey (ix_accounts ix)) (cx_accounts cx) = (ex, rest)" by fastforce
  obtain q m1 where m1: "consume 100 (cx_meter cx) = (q, m1)" by fastforce
  note unf = execute_native_program_def Let_def
  show ?thesis
  proof (cases q)
    case (Inl e)
    have "execute_native_program env ix cx = (Inl e, cx\<lparr>cx_meter := m1\<rparr>)" by (simp add: unf m1 Inl)
    then show ?thesis using assms(1) m1 Inl by (intro early) auto
  next
    case (Inr u)
    let ?cx = "cx\<lparr>cx_meter := m1, cx_accounts := rest\<rparr>"
    let ?finish = "\<lambda>(r, accs', m'). (r, ?cx\<lparr>cx_meter := m', cx_accounts := put_back (map fst ex) accs' rest\<rparr>)"
    have m1: "consume 100 (cx_meter cx) = (Inr (), m1)" using m1 Inr by simp
    have finish: thesis if run: "execute_native_program env ix cx = ?finish res"
      "(\<exists>six. res = system_process (re_crypto env) (re_nonce env) six (map snd ex) m1)
       \<or> res = token_process (re_token env) (ix_data ix) (map snd ex) m1" for res
    proof -
      obtain q' accs' m2 where "res = (q', accs', m2)" by (cases res)
      then show ?thesis using run assms(1) by (intro processed [OF ex m1, of accs' m2]) auto
    qed
    have reject: thesis if "execute_native_program env ix cx = (Inl e, cx')" "cx_meter cx' = m1" for e cx'
      using that assms(1) by (intro rejected [OF m1]) auto
    consider (system) "ix_program_id ix = SYSTEM_PROGRAM_ID"
      | (token) "ix_program_id ix \<noteq> SYSTEM_PROGRAM_ID" "ix_program_id ix = TOKEN_PROGRAM_ID"
      | (service) "ix_program_id ix = MARKETPLACE_PROGRAM_ID \<or> ix_program_id ix = BOT_REGISTRY_PROGRAM_ID"
        "ix_program_id ix \<noteq> SYSTEM_PROGRAM_ID" "ix_program_id ix \<noteq> TOKEN_PROGRAM_ID"
      | (other) "ix_program_id ix \<noteq> MARKETPLACE_PROGRAM_ID" "ix_program_id ix \<noteq> BOT_REGISTRY_PROGRAM_ID"
        "ix_program_id ix \<noteq> SYSTEM_PROGRAM_ID" "ix_program_id ix \<noteq> TOKEN_PROGRAM_ID" by blast
    then show ?thesis
    proof cases
      case system
      show ?thesis
      proof (cases "system_from_bytes (re_system env) (ix_data ix)")
        case (Inl e)
        have "execute_native_program env ix cx = (Inl e, ?cx)" by (simp add: unf m1 ex system Inl)
        then show ?thesis by (rule reject) simp
      next
        case (Inr six)
        have "execute_native_program env ix cx = ?finish (system_process (re_crypto env) (re_nonce env) six (map snd ex) m1)"
          by (simp add: unf m1 ex system Inr split: prod.split)
        then show ?thesis by (rule finish) blast
      qed
    next
      case token
      have "execute_native_program env ix cx = ?finish (token_process (re_token env) (ix_data ix) (map snd ex) m1)"
        using token(1) by (simp add: unf m1 ex token(2) split: prod.split)
      then show ?thesis by (rule finish) blast
    next
      case service
      obtain q' accs' m2 where res: "re_service env (ix_program_id ix) (ix_data ix) (cx_slot cx) (map snd ex) m1 = (q', accs', m2)"
        by (cases "re_service env (ix_program_id ix) (ix_data ix) (cx_slot cx) (map snd ex) m1") auto
      have "execute_native_program env ix cx = (case q' of Inl e \<Rightarrow> (Inl e, ?cx\<lparr>cx_meter := m2\<rparr>)
          | Inr es \<Rightarrow> (Inr (), ?cx\<lparr>cx_events := emit_all (re_crypto env) (cx_cpi_depth cx) es (cx_events cx), cx_meter := m2,
              cx_accounts := put_back (map fst ex) accs' rest\<rparr>))"
        using service(2,3) by (simp add: unf m1 ex service(1) res split: sum.split)
      then show ?thesis using assms(1) by (intro served [OF ex m1 res]) (auto split: sum.splits)
    next
      case other
      have "execute_native_program env ix cx = ?finish (Inl UnsupportedProgram, map snd ex, m1)"
        using other by (simp add: unf m1 ex)
      then show ?thesis by (intro reject [of UnsupportedProgram]) auto
    qed
  qed
qed

lemma put_back_same_totals:
  assumes "extract_accounts ks (cx_accounts cx) = (ex, rest)" and "finite (dom (cx_accounts cx))"
    and "same_accounts (map snd ex) accs'" and "motes_total accs' = motes_total (map snd ex)"
    and "cx_accounts cx' = put_back (map fst ex) accs' rest"
  shows "same_totals cx cx'"
proof -
  have "length accs' = length (map fst ex)" using same_accounts_length [OF assms(3)] by simp
  then show ?thesis
    using put_back_spec [of accs' "map fst ex" rest] extract_accounts_spec [OF assms(1,2)] assms(4,5)
    by (simp add: same_totals_def)
qed

lemma native_same_totals:
  assumes "execute_native_program env ix cx = (Inr (), cx')" and "finite (dom (cx_accounts cx))"
    and "service_provider (re_service env)"
  shows "same_totals cx cx'"
  using assms(1)
proof (cases rule: native_success)
  case (processed ex rest accs' m1 m2)
  have "motes_total accs' = motes_total (map snd ex)" using processed(3) sysprog.proc_total tokprog.proc_total by metis
  moreover have "same_accounts (map snd ex) accs'" using processed(3) sysprog.proc_same tokprog.proc_same by metis
  ultimately show ?thesis using put_back_same_totals [OF processed(1) assms(2)] processed(4) by blast
next
  case (served ex rest q accs' m1 m2)
  then show ?thesis
    using put_back_same_totals [OF served(1) assms(2)] service_provider.svc_same [OF assms(3) served(3)]
      service_provider.svc_total [OF assms(3)] by metis
qed auto

lemma invoke_keeps_accounts: "invoke_program env p bc ix cx = (r, cx') \<Longrightarrow> cx_accounts cx' = cx_accounts cx"
  by (auto simp: invoke_program_def split: sum.splits prod.splits)

lemma internal_same_totals:
  assumes "execute_instruction_internal env ix cx = (Inr (), cx')" and "finite (dom (cx_accounts cx))"
    and "service_provider (re_service env)"
  shows "same_totals cx cx'"
proof -
  let ?cx = "cx\<lparr>cx_call_chain := cx_call_chain cx @ [ix_program_id ix]\<rparr>"
  obtain cx1 where run: "run_program env ix ?cx = (Inr (), cx1)" and cx': "cx_accounts cx' = cx_accounts cx1"
    using assms(1) by (auto simp: execute_instruction_internal_def Let_def split: prod.splits sum.splits)
  have "same_totals ?cx cx1"
  proof (cases "is_native_program (ix_program_id ix)")
    case True
    then show ?thesis using run assms(2-) native_same_totals [of env ix ?cx cx1] by (simp add: run_program_def)
  next
    case False
    then have "cx_accounts cx1 = cx_accounts ?cx"
      using run invoke_keeps_accounts by (auto simp: run_program_def split: sum.splits)
    then show ?thesis by (simp add: same_totals_def)
  qed
  then show ?thesis by (simp add: same_totals_def cx')
qed

lemma execute_all_same_totals:
  assumes "execute_all env ixs cx = (Inr (), cx')" and "finite (dom (cx_accounts cx))"
    and "service_provider (re_service env)"
  shows "same_totals cx cx'"
  using assms
proof (induction ixs arbitrary: cx)
  case Nil
  then show ?case by (simp add: same_totals_def)
next
  case (Cons ix ixs)
  obtain cx1 where one: "execute_instruction_internal env ix cx = (Inr (), cx1)" "execute_all env ixs cx1 = (Inr (), cx')"
    using Cons.prems(1) by (auto split: prod.splits sum.splits)
  have "same_totals cx cx1"
    using internal_same_totals [OF one(1)] Cons.prems(2,3) by simp
  moreover from this have "same_totals cx1 cx'"
    using Cons.IH [OF one(2)] Cons.prems(2,3) by (simp add: same_totals_def)
  ultimately show ?case by (simp add: same_totals_def)
qed

text \<open>Adding and removing whole maps.\<close>

lemma map_total_add:
  assumes "finite (dom b)" and "finite (dom m)" and "finite (dom m')" and "dom m = dom m'"
  shows "map_total f (b ++ m) + map_total f m' = map_total f (b ++ m') + map_total f m"
proof -
  have split: "map_total f (b ++ n) = (\<Sum>k\<in>dom b - dom n. f (the (b k))) + map_total f n" if "finite (dom n)" for n
  proof -
    have "map_total f (b ++ n) = (\<Sum>k\<in>dom b - dom n. f (the ((b ++ n) k))) + (\<Sum>k\<in>dom n. f (the ((b ++ n) k)))"
      unfolding map_total_def dom_map_add
      using assms(1) that by (subst sum.union_disjoint [symmetric]) (auto intro: sum.cong)
    also have "(\<Sum>k\<in>dom b - dom n. f (the ((b ++ n) k))) = (\<Sum>k\<in>dom b - dom n. f (the (b k)))"
      by (intro sum.cong) (auto simp: map_add_def split: option.splits)
    also have "(\<Sum>k\<in>dom n. f (the ((b ++ n) k))) = map_total f n"
      unfolding map_total_def by (intro sum.cong) (auto simp: map_add_def)
    finally show ?thesis .
  qed
  show ?thesis using split [OF assms(2)] split [OF assms(3)] assms(4) by simp
qed

lemma map_total_loaded:
  assumes "finite (dom b)" and "finite K"
  shows "map_total motes_of (b ++ loaded b K) = map_total motes_of b"
proof -
  have at_key: "motes_of (the ((b ++ loaded b K) k)) = (if k \<in> dom b then motes_of (the (b k)) else 0)"
    if "k \<in> dom b \<union> K" for k
    using that by (auto simp: map_add_def loaded_def view_def account_or_new_def motes_of_def account_new_def
        split: option.splits)
  have "dom (b ++ loaded b K) = dom b \<union> K" by (auto simp: loaded_def split: if_splits)
  then have "map_total motes_of (b ++ loaded b K) = (\<Sum>k\<in>dom b \<union> K. if k \<in> dom b then motes_of (the (b k)) else 0)"
    unfolding map_total_def using at_key by (auto intro: sum.cong)
  also have "\<dots> = (\<Sum>k\<in>dom b. motes_of (the (b k)))"
    using assms by (intro sum.mono_neutral_cong_right) auto
  finally show ?thesis by (simp add: map_total_def)
qed

lemma tx_keys_finite: "finite (tx_keys ixs p)" and payer_in_keys: "p \<in> tx_keys ixs p"
  by (auto simp: tx_keys_def transaction_metas_def meta_new_def)

lemma charge_fee_total:
  assumes "charge_fee (start_context b bud ixs h slot ts p) = Some cx"
  shows "dom (cx_accounts cx) = tx_keys ixs p
    \<and> map_total motes_of (cx_accounts cx) + unat (calculate_fee bud) = map_total motes_of (loaded b (tx_keys ixs p))"
proof -
  let ?fee = "calculate_fee bud" and ?K = "tx_keys ixs p"
  have dom: "dom (loaded b ?K) = ?K" by (auto simp: loaded_def split: if_splits)
  have payer: "loaded b ?K p = Some (view b p)" using payer_in_keys by (simp add: loaded_def)
  then have fee: "?fee \<le> acc_motes (view b p)"
    and cx: "cx_accounts cx = (loaded b ?K)(p \<mapsto> (view b p)\<lparr>acc_motes := acc_motes (view b p) - ?fee\<rparr>)"
    using assms by (auto simp: charge_fee_def start_context_def context_new_def split: if_splits)
  have "map_total motes_of (cx_accounts cx) + motes_of (view b p)
      = map_total motes_of (loaded b ?K) + motes_of ((view b p)\<lparr>acc_motes := acc_motes (view b p) - ?fee\<rparr>)"
    unfolding cx using map_total_upd [of "loaded b ?K" p "view b p" motes_of] payer tx_keys_finite dom by simp
  moreover have "unat (acc_motes (view b p) - ?fee) = unat (acc_motes (view b p)) - unat ?fee" "unat ?fee \<le> unat (acc_motes (view b p))"
    using fee by (simp_all add: unat_sub word_le_nat_alt)
  ultimately show ?thesis using dom payer_in_keys [of p ixs] cx by (auto simp: motes_of_def)
qed

text \<open>The iteration order of every map lists its keys.\<close>

definition iterates :: "runtime_env \<Rightarrow> bool" where
  "iterates env \<longleftrightarrow> (\<forall>n m. finite (dom m) \<longrightarrow> set (re_iter env n m) = dom m)"

lemma execute_transaction_success:
  assumes "execute_transaction env b ixs h slot ts p = (r, b')" and "rc_success r"
  obtains cx cx' where "charge_fee (start_context b (re_budget env) ixs h slot ts p) = Some cx"
    "execute_all env ixs cx = (Inr (), cx')" "rc_fee_paid r = calculate_fee (re_budget env)"
    "rc_compute_units_consumed r = consumed (cx_meter cx')"
    "b' = mem.store_entries (re_iter env 0 (cx_accounts cx')) (cx_accounts cx') b"
proof -
  let ?cx = "start_context b (re_budget env) ixs h slot ts p"
  have bud: "cx_compute_budget ?cx = re_budget env" by (simp add: start_context_def context_new_def)
  show ?thesis
    using assms unfolding execute_transaction_start
    by (cases rule: run_loaded_cases [of ?cx env ixs])
      (auto simp: bud receipt_success_def Let_def intro!: that)
qed

text \<open>A transaction that succeeds moves motes and burns the fee, no more.\<close>

lemma transaction_motes:
  assumes "execute_transaction env b ixs h slot ts p = (r, b')" and "rc_success r"
    and "finite (dom b)" and "service_provider (re_service env)" and "iterates env"
  shows "map_total motes_of b' + unat (rc_fee_paid r) = map_total motes_of b
    \<and> rc_fee_paid r = calculate_fee (re_budget env)"
proof -
  obtain cx cx' where cx: "charge_fee (start_context b (re_budget env) ixs h slot ts p) = Some cx"
    and all: "execute_all env ixs cx = (Inr (), cx')" and fee: "rc_fee_paid r = calculate_fee (re_budget env)"
    and b': "b' = mem.store_entries (re_iter env 0 (cx_accounts cx')) (cx_accounts cx') b"
    using execute_transaction_success [OF assms(1,2)] by blast
  note charged = charge_fee_total [OF cx]
  then have same: "same_totals cx cx'"
    using execute_all_same_totals [OF all _ assms(4)] tx_keys_finite by simp
  then have dom: "dom (cx_accounts cx') = tx_keys ixs p" using charged by (simp add: same_totals_def)
  have dom_loaded: "dom (loaded b (tx_keys ixs p)) = tx_keys ixs p" by (auto simp: loaded_def split: if_splits)
  have "b' = b ++ cx_accounts cx'"
    using b' assms(5) dom tx_keys_finite by (simp add: store_all iterates_def)
  then have "map_total motes_of b' + map_total motes_of (loaded b (tx_keys ixs p))
      = map_total motes_of b + map_total motes_of (cx_accounts cx')"
    using map_total_add [OF assms(3), of "cx_accounts cx'" "loaded b (tx_keys ixs p)" motes_of] dom dom_loaded
      map_total_loaded [OF assms(3) tx_keys_finite] tx_keys_finite by simp
  then show ?thesis using charged same fee by (simp add: same_totals_def)
qed

section \<open>Compute units\<close>

lemma native_meter:
  assumes "execute_native_program env ix cx = (r, cx')" and "service_provider (re_service env)" and "meter_ok (cx_meter cx)"
  shows "meter_ok (cx_meter cx') \<and> budget (cx_meter cx') = budget (cx_meter cx)"
proof -
  from assms(1) show ?thesis
  proof (cases rule: native_success)
    case early
    then show ?thesis using consume_meter_ok assms(3) by blast
  next
    case rejected
    then show ?thesis using consume_meter_ok assms(3) by blast
  next
    case (processed ex rest accs' m1 m2)
    then have "meter_ok m1 \<and> budget m1 = budget (cx_meter cx)" using consume_meter_ok assms(3) by blast
    then show ?thesis
      using processed(3,5) sysprog.proc_meter [of "re_crypto env" "re_nonce env" _ "map snd ex" m1 r accs' m2]
        tokprog.proc_meter [of "re_token env" "ix_data ix" "map snd ex" m1 r accs' m2] by auto
  next
    case (served ex rest q accs' m1 m2)
    then have "meter_ok m1 \<and> budget m1 = budget (cx_meter cx)" using consume_meter_ok assms(3) by blast
    then show ?thesis using service_provider.svc_meter [OF assms(2) served(3)] served(5) by simp
  qed
qed

abbreviation native_ix :: "instruction \<Rightarrow> bool" where
  "native_ix ix \<equiv> is_native_program (ix_program_id ix)"

lemma internal_meter:
  assumes "execute_instruction_internal env ix cx = (r, cx')" and "native_ix ix" and "meter_ok (cx_meter cx)"
    and "service_provider (re_service env)"
  shows "meter_ok (cx_meter cx') \<and> budget (cx_meter cx') = budget (cx_meter cx)"
proof -
  let ?cx = "cx\<lparr>cx_call_chain := cx_call_chain cx @ [ix_program_id ix]\<rparr>"
  obtain r1 cx1 where run: "execute_native_program env ix ?cx = (r1, cx1)" by (cases "execute_native_program env ix ?cx")
  then have "cx_meter cx' = cx_meter cx1"
    using assms(1,2) by (auto simp: execute_instruction_internal_def run_program_def Let_def split: sum.splits)
  then show ?thesis using native_meter [OF run assms(4)] assms(3) by simp
qed

lemma execute_all_meter:
  assumes "execute_all env ixs cx = (r, cx')" and "list_all native_ix ixs" and "meter_ok (cx_meter cx)"
    and "service_provider (re_service env)"
  shows "meter_ok (cx_meter cx') \<and> budget (cx_meter cx') = budget (cx_meter cx)"
  using assms
proof (induction ixs arbitrary: cx)
  case (Cons ix ixs)
  obtain r1 cx1 where one: "execute_instruction_internal env ix cx = (r1, cx1)"
    by (cases "execute_instruction_internal env ix cx")
  have cx1: "meter_ok (cx_meter cx1) \<and> budget (cx_meter cx1) = budget (cx_meter cx)"
    using internal_meter [OF one] Cons.prems(2-4) by simp
  show ?case
  proof (cases r1)
    case (Inl e)
    then show ?thesis using one cx1 Cons.prems(1) by simp
  next
    case (Inr u)
    then show ?thesis using one cx1 Cons.prems(1,2,4) Cons.IH [of cx1] by simp
  qed
qed simp

lemma charge_fee_meter: "charge_fee cx = Some cx' \<Longrightarrow> cx_meter cx' = cx_meter cx"
  by (auto simp: charge_fee_def split: option.splits if_splits)

lemma transaction_units:
  assumes "execute_transaction env b ixs h slot ts p = (r, b')" and "list_all native_ix ixs"
    and "service_provider (re_service env)"
  shows "unat (rc_compute_units_consumed r) \<le> unat (max_units (re_budget env))"
proof -
  let ?cx = "start_context b (re_budget env) ixs h slot ts p"
  have start: "meter_ok (cx_meter ?cx)" "budget (cx_meter ?cx) = re_budget env"
    using meter_ok_new by (simp_all add: start_context_def context_new_def meter_new_def)
  have bound: "unat (consumed (cx_meter cx2)) \<le> unat (max_units (re_budget env))"
    if "charge_fee ?cx = Some cx1" "execute_all env ixs cx1 = (q, cx2)" for cx1 q cx2
    using execute_all_meter [OF that(2) assms(2) _ assms(3)] charge_fee_meter [OF that(1)] start by (auto simp: meter_ok_def)
  show ?thesis
    using assms(1) bound unfolding execute_transaction_start
    by (cases rule: run_loaded_cases [of ?cx env ixs]) (auto simp: receipt_success_def receipt_failure_def Let_def)
qed

section \<open>Signer and writable flags\<close>

definition unflagged :: "instruction \<Rightarrow> instruction" where
  "unflagged ix = ix\<lparr>ix_accounts := map (\<lambda>meta. meta_readonly (meta_pubkey meta)) (ix_accounts ix)\<rparr>"

lemma unflagged_simps [simp]:
  "ix_program_id (unflagged ix) = ix_program_id ix" "ix_data (unflagged ix) = ix_data ix"
  "map meta_pubkey (ix_accounts (unflagged ix)) = map meta_pubkey (ix_accounts ix)"
  by (simp_all add: unflagged_def meta_readonly_def o_def)

lemma internal_unflagged:
  assumes "is_native_program (ix_program_id ix)"
  shows "execute_instruction_internal env (unflagged ix) cx = execute_instruction_internal env ix cx"
proof -
  have "execute_native_program env (unflagged ix) cx = execute_native_program env ix cx" for cx
    unfolding execute_native_program_def unflagged_simps ..
  then show ?thesis
    using assms unfolding execute_instruction_internal_def run_program_def unflagged_simps by simp
qed

lemma execute_all_unflagged:
  "list_all (is_native_program \<circ> ix_program_id) ixs \<Longrightarrow> execute_all env (map unflagged ixs) cx = execute_all env ixs cx"
  by (induction ixs arbitrary: cx) (auto simp: internal_unflagged split: prod.splits sum.splits)

lemma run_loaded_cong:
  assumes "execute_all env ixs = execute_all env ixs'"
  shows "run_loaded env ixs cx = run_loaded env ixs' cx"
  unfolding run_loaded_def assms ..

text \<open>No native program looks at the signer and writable flags: clearing every one of them, so that nobody signs and nothing
  may be written, changes neither the receipt nor the bank.\<close>

theorem native_flags_ignored:
  assumes "list_all (is_native_program \<circ> ix_program_id) ixs"
  shows "execute_transaction env b (map unflagged ixs) h slot ts p = execute_transaction env b ixs h slot ts p"
proof -
  have "set (ix_accounts (unflagged ix)) = (\<lambda>meta. meta_readonly (meta_pubkey meta)) ` set (ix_accounts ix)" for ix
    by (simp add: unflagged_def)
  then have "tx_keys (map unflagged ixs) p = tx_keys ixs p"
    by (simp add: tx_keys_def transaction_metas_def image_UN image_Un image_image meta_readonly_def)
  then have "start_context b bud (map unflagged ixs) h slot ts p = start_context b bud ixs h slot ts p" for bud
    by (simp add: start_context_def)
  moreover have "run_loaded env (map unflagged ixs) cx = run_loaded env ixs cx" for cx
    using execute_all_unflagged [OF assms] by (intro run_loaded_cong) (simp add: fun_eq_iff)
  ultimately show ?thesis by (simp add: execute_transaction_start)
qed

section \<open>Parallel rounds\<close>

text \<open>C3. A round that runs its transactions in parallel from one snapshot and then commits their results is serializable:
  it gives the bank of running them one after the other, and the same receipts but for the order of the account deltas
  within a receipt and the receipt hash over them, provided no transaction changes an account that a later one of the
  round names or pays its fee from. Every transaction has a hash map of its own on either side, and all of them may be
  iterated in different orders, each giving every key once.\<close>

theorem parallel_round_serializable:
  assumes "list_all from_batch (eb_transactions eb)" and "snap = load_batch_accounts_snapshot b eb"
    and "sorted_wrt (\<lambda>t u. \<forall>k\<in>scheduled_keys u. leaves snap (run_scheduled env snap slot timestamp t) k) (eb_transactions eb)"
    and "iterates_once env" and "iterates_once (with_orders it env)"
  shows "let (rs, b') = execute_sequentially env slot timestamp (eb_transactions eb) b;
      results = run_batch (with_orders it env) snap slot timestamp (eb_transactions eb)
    in list_all2 (same_receipt (re_crypto env)) rs (map fst results) \<and> b' = commit_batch (with_orders it env) results b"
proof (rule round_serial [OF _ assms(3-5)])
  fix tx k
  assume "tx \<in> set (eb_transactions eb)" "k \<in> scheduled_keys tx"
  then have "k \<in> batch_keys eb" using scheduled_keys_covered assms(1) by (auto simp: list_all_iff)
  then show "view b k = view snap k"
    by (simp add: assms(2) view_def load_batch_accounts_snapshot_def bank_load_def account_or_new_def)
qed

text \<open>The order does reach the receipt: two deltas of different accounts, swapped, give another preimage of the hash.\<close>

lemma delta_order_in_preimage:
  assumes "ad_pubkey d \<noteq> ad_pubkey d'"
  shows "receipt_preimage (r\<lparr>rc_account_deltas := [d, d']\<rparr>) \<noteq> receipt_preimage (r\<lparr>rc_account_deltas := [d', d]\<rparr>)"
proof
  assume "receipt_preimage (r\<lparr>rc_account_deltas := [d, d']\<rparr>) = receipt_preimage (r\<lparr>rc_account_deltas := [d', d]\<rparr>)"
  then have "as_bytes (ad_pubkey d) @ as_bytes (ad_new_data_hash d) @ as_bytes (ad_pubkey d') @ as_bytes (ad_new_data_hash d')
      = as_bytes (ad_pubkey d') @ as_bytes (ad_new_data_hash d') @ as_bytes (ad_pubkey d) @ as_bytes (ad_new_data_hash d)"
    by (simp add: receipt_preimage_def)
  moreover have "length (as_bytes (ad_pubkey d)) = length (as_bytes (ad_pubkey d'))" by (simp add: as_bytes_def)
  ultimately have "as_bytes (ad_pubkey d) = as_bytes (ad_pubkey d')" using append_eq_append_conv by blast
  then have "ad_pubkey d = ad_pubkey d'" using pubkey_slice_roundtrip by (metis Inr_inject)
  then show False using assms by simp
qed

text \<open>Transactions that name different accounts leave each other alone.\<close>

lemma run_scheduled_dom:
  assumes "service_provider (re_service env)" and "k \<notin> scheduled_keys tx"
  shows "leaves snap (run_scheduled env snap slot ts tx) k"
proof -
  let ?ixs = "decompile_batch (tx_batch tx)" and ?p = "tx_fee_payer tx"
  let ?cx = "start_context snap (re_budget env) ?ixs (batch_hash (blake3 (re_crypto env)) (tx_batch tx)) slot ts ?p"
  have "k \<notin> dom (cx_accounts cx2)" if "charge_fee ?cx = Some cx1" "execute_all env ?ixs cx1 = (Inr (), cx2)" for cx1 cx2
    using charge_fee_total [OF that(1)] execute_all_same_totals [OF that(2) _ assms(1)] tx_keys_finite assms(2)
    by (simp add: same_totals_def scheduled_keys_def)
  then have "rc_success (fst (run_scheduled env snap slot ts tx)) \<Longrightarrow> snd (run_scheduled env snap slot ts tx) k = None"
    unfolding run_scheduled_def execute_with_snapshot_start
    by (cases rule: run_loaded_cases [of ?cx env ?ixs]) (auto simp: domIff)
  then show ?thesis by (auto simp: leaves_def)
qed

section \<open>Fee payers are not locked\<close>

text \<open>A transaction without instructions: it only pays its fee.\<close>

definition pays_only :: "pubkey \<Rightarrow> instruction_batch \<Rightarrow> bool" where
  "pays_only p bt \<longleftrightarrow> batch_instructions bt = [] \<and> account_keys bt = [p]"

lemma pays_only_locks:
  assumes "pays_only p bt"
  shows "read_accounts (scheduled_new i bt pr) = []" "write_accounts (scheduled_new i bt pr) = []"
    "tx_batch (scheduled_new i bt pr) = bt"
proof -
  have "extract_account_keys_from_batch bt = ([], [])"
    using extract_exact [of bt] assms by (auto simp: batch_refs_def batch_writes_def pays_only_def split: prod.splits)
  then show "read_accounts (scheduled_new i bt pr) = []" "write_accounts (scheduled_new i bt pr) = []"
    "tx_batch (scheduled_new i bt pr) = bt" by (simp_all add: scheduled_new_def)
qed

lemma pays_only_run:
  assumes "pays_only p (tx_batch tx)" and "view snap p = a" and "calculate_fee (re_budget env) \<le> acc_motes a"
  shows "\<exists>r. run_scheduled env snap slot ts tx = (r, [p \<mapsto> a\<lparr>acc_motes := acc_motes a - calculate_fee (re_budget env)\<rparr>])
    \<and> rc_success r \<and> rc_fee_paid r = calculate_fee (re_budget env)"
proof -
  have keys: "tx_fee_payer tx = p" "decompile_batch (tx_batch tx) = []"
    using assms(1) by (simp_all add: tx_fee_payer_def decompile_batch_def pays_only_def)
  have "loaded snap (tx_keys [] p) = [p \<mapsto> a]"
    using assms(2) by (auto simp: loaded_def tx_keys_def transaction_metas_def meta_new_def)
  then show ?thesis
    using assms(3)
    by (auto simp: run_scheduled_def keys execute_with_snapshot_start run_loaded_def start_context_def context_new_def
        receipt_success_def Let_def split: option.splits)
qed

lemma schedule_two_free:
  assumes "pending s = [t1, t2]" and "2 \<le> max_batch_size (config s)"
    and "read_accounts t1 = []" "write_accounts t1 = []" "read_accounts t2 = []" "write_accounts t2 = []"
  shows "\<exists>eb s'. schedule_batch s = (Some eb, s') \<and> eb_transactions eb = [t1, t2] \<and> pending s' = []"
  using assms
  by (simp add: schedule_batch_def execution_batch_new_def try_add_def conflicts_with_def Let_def)

text \<open>The account that pays the fee is in no lock set, so two transactions with the same payer run in one parallel round,
  from the same snapshot, and the second commit overwrites the first: both receipts report the fee as paid, but the
  payer is charged it once.\<close>

theorem parallel_fee_charged_once:
  assumes "re_parallel env" and "iterates env" and "pays_only p (tx_batch t1)" and "pays_only p (tx_batch t2)"
    and "b p = Some a" and "calculate_fee (re_budget env) \<le> acc_motes a"
    and "pending s = []" and "2 \<le> max_batch_size (config s)"
  shows "\<exists>r1 r2 s'. execute_batch env b s [t1, t2] slot ts
      = ([r1, r2], b(p \<mapsto> a\<lparr>acc_motes := acc_motes a - calculate_fee (re_budget env)\<rparr>), s')
    \<and> rc_success r1 \<and> rc_success r2
    \<and> rc_fee_paid r1 = calculate_fee (re_budget env) \<and> rc_fee_paid r2 = calculate_fee (re_budget env)"
proof -
  define u1 where "u1 = scheduled_new (next_tx_id s) (tx_batch t1) (priority t1)"
  define u2 where "u2 = scheduled_new (next_tx_id s + 1) (tx_batch t2) (priority t2)"
  define q where "q = fold (\<lambda>tx s. snd (submit (tx_batch tx) (priority tx) s)) [t1, t2] s"
  let ?a = "a\<lparr>acc_motes := acc_motes a - calculate_fee (re_budget env)\<rparr>"
  have pend: "pending q = [u1, u2]" "config q = config s"
    using assms(7) by (simp_all add: q_def submit_def Let_def u1_def u2_def)
  have only: "pays_only p (tx_batch u1)" "pays_only p (tx_batch u2)"
    using assms(3,4) by (simp_all add: u1_def u2_def pays_only_locks)
  obtain eb s' where eb: "schedule_batch q = (Some eb, s')" "eb_transactions eb = [u1, u2]" "pending s' = []"
    using schedule_two_free [OF pend(1)] pend(2) assms(3,4,8) pays_only_locks by (auto simp: u1_def u2_def)
  define snap where "snap = load_batch_accounts_snapshot b eb"
  have "view snap p = a"
    using assms(3,5) eb(2) only(1)
    by (simp add: snap_def view_def load_batch_accounts_snapshot_def batch_keys_def bank_load_def account_or_new_def pays_only_def)
  have bud: "re_budget (next_map env) = re_budget env" by (simp add: next_map_def)
  from \<open>view snap p = a\<close> obtain r1 r2 where run: "run_scheduled env snap slot ts u1 = (r1, [p \<mapsto> ?a])" "rc_success r1"
      "rc_fee_paid r1 = calculate_fee (re_budget env)"
      "run_scheduled (next_map env) snap slot ts u2 = (r2, [p \<mapsto> ?a])" "rc_success r2"
      "rc_fee_paid r2 = calculate_fee (re_budget env)"
    using pays_only_run [OF only(1)] pays_only_run [OF only(2), where env = "next_map env"] assms(6) unfolding bud by metis
  have commit: "commit_result e (r, [p \<mapsto> ?a]) c = c(p \<mapsto> ?a)" if "rc_success r" "iterates e" for e r c
    using that by (simp add: commit_result_def store_all iterates_def)
  have iter: "iterates (next_map env)" using assms(2) by (simp add: iterates_def next_map_def)
  have "schedule_batch s' = (None, s')" using eb(3) by (simp add: schedule_batch_def)
  then have "execute_rounds e slot ts c s' = ([], c, s')" for e c by (simp add: execute_rounds.simps [of _ _ _ _ s'])
  then have "execute_rounds env slot ts b q = ([r1, r2], b(p \<mapsto> ?a), s')"
    using run commit [OF _ assms(2)] commit [OF _ iter]
    by (simp add: execute_rounds.simps [of _ _ _ _ q] eb(1,2) Let_def flip: snap_def)
  then show ?thesis using run assms(1) by (auto simp: execute_batch_def Let_def q_def)
qed

section \<open>Witnesses\<close>

lemma toy_iterates: "iterates toy_env"
  by (simp add: iterates_def toy_env_def)

lemma toy_budget: "re_budget toy_env = compute_budget_default"
  by (simp add: toy_env_def)

definition toy_payment :: instruction_batch where
  "toy_payment = \<lparr>account_keys = [11], signer_indices = [0], writable_indices = [0], batch_instructions = [],
     recent_blockhash = 0, intent_id = None\<rparr>"

theorem parallel_fee_charged_once_witness:
  "\<exists>r1 r2 s'. execute_batch toy_env toy_bank (scheduler_new scheduler_config_default)
      [scheduled_new 0 toy_payment 1, scheduled_new 1 toy_payment 1] 2 3
      = ([r1, r2], toy_bank(11 \<mapsto> account_new_with_data 11 4994800 [] SYSTEM_PROGRAM_ID), s')
    \<and> rc_success r1 \<and> rc_success r2 \<and> rc_fee_paid r1 = 5200 \<and> rc_fee_paid r2 = 5200"
proof -
  have only: "pays_only 11 toy_payment" by (simp add: pays_only_def toy_payment_def)
  have a: "toy_bank 11 = Some (account_new_with_data 11 5000000 [] SYSTEM_PROGRAM_ID)" by (simp add: toy_bank_def)
  have par: "re_parallel toy_env" by (simp add: toy_env_def)
  have s: "pending (scheduler_new scheduler_config_default) = []"
    "2 \<le> max_batch_size (config (scheduler_new scheduler_config_default))"
    by (simp_all add: scheduler_new_def scheduler_config_default_def)
  show ?thesis
    using parallel_fee_charged_once [of toy_env 11 "scheduled_new 0 toy_payment 1" "scheduled_new 1 toy_payment 1" toy_bank
        _ _ 2 3, OF par toy_iterates _ _ a _ s] only
    by (simp add: pays_only_locks [OF only] toy_budget toy_fee account_new_with_data_def)
qed

lemma toy_bank_finite: "finite (dom toy_bank)" and toy_transfer_native: "list_all native_ix [toy_transfer]"
  by (simp_all add: toy_bank_def toy_transfer_def instruction_new_def is_native_program_def)

lemma toy_services: "service_provider (re_service toy_env)"
  by unfold_locales (auto simp: toy_env_def)

theorem native_flags_ignored_witness:
  "execute_transaction toy_env toy_bank [unflagged toy_transfer] 1 2 3 11
     = execute_transaction toy_env toy_bank [toy_transfer] 1 2 3 11
   \<and> list_all (\<lambda>meta. \<not> is_signer meta \<and> \<not> is_writable meta) (ix_accounts (unflagged toy_transfer))"
  using native_flags_ignored [of "[toy_transfer]" toy_env toy_bank 1 2 3 11] toy_transfer_native
  by (simp add: unflagged_def toy_transfer_def instruction_new_def meta_readonly_def list_all_iff)

definition toy_pair :: "pubkey \<Rightarrow> pubkey \<Rightarrow> instruction_batch" where
  "toy_pair j k = \<lparr>account_keys = [j, k, SYSTEM_PROGRAM_ID], signer_indices = [0], writable_indices = [0, 1],
     batch_instructions = [\<lparr>program_id_index = 2, ci_accounts = [0, 1], ci_data = [70]\<rparr>],
     recent_blockhash = 0, intent_id = None\<rparr>"

definition toy_round :: execution_batch where
  "toy_round = \<lparr>eb_id = 0, eb_transactions = [scheduled_new 0 (toy_pair 11 12) 1, scheduled_new 1 (toy_pair 21 22) 1],
     eb_total_priority = 2\<rparr>"

lemma toy_pair_keys:
  "scheduled_keys (scheduled_new i (toy_pair j k) pr) = {j, k}"
  "from_batch (scheduled_new i (toy_pair j k) pr)"
  by (auto simp: scheduled_keys_def tx_keys_def transaction_metas_def scheduled_new_def toy_pair_def tx_fee_payer_def
      decompile_batch_def decompile_instruction_def decompile_account_def get_def meta_new_def from_batch_def
      split: prod.splits)

theorem parallel_round_serializable_witness:
  "let (rs, b') = execute_sequentially toy_env 2 3 (eb_transactions toy_round) toy_bank;
      results = run_batch (with_orders descending toy_env) (load_batch_accounts_snapshot toy_bank toy_round) 2 3 (eb_transactions toy_round)
    in list_all2 (same_receipt (re_crypto toy_env)) rs (map fst results) \<and> b' = commit_batch (with_orders descending toy_env) results toy_bank"
proof (rule parallel_round_serializable [OF _ refl _ toy_iterates_once])
  show "list_all from_batch (eb_transactions toy_round)" by (simp add: toy_round_def toy_pair_keys)
  show "sorted_wrt (\<lambda>t u. \<forall>k\<in>scheduled_keys u. leaves (load_batch_accounts_snapshot toy_bank toy_round)
      (run_scheduled toy_env (load_batch_accounts_snapshot toy_bank toy_round) 2 3 t) k) (eb_transactions toy_round)"
    by (simp add: toy_round_def toy_pair_keys run_scheduled_dom [OF toy_services])
qed

end
