(* ===== verification/Cpi.thy ===== *)
theory Cpi
  imports Runtime
begin

text \<open>
  Cross-program invocation: \<^verbatim>\<open>crates/dchat-programs/src/cpi.rs\<close> (results, contexts, the execution overlay and its guard,
  signer derivation, the privilege checker, the client side of an invocation) and \<^verbatim>\<open>ProgramRuntime::invoke_cpi\<close> of
  \<^verbatim>\<open>runtime.rs\<close>, which runs the callee. The executor that a \<^verbatim>\<open>CpiContext\<close> borrows is an argument of the definitions that
  call it, with the state it works on.
\<close>

section \<open>Costs and results\<close>

definition MAX_CPI_DEPTH :: nat where "MAX_CPI_DEPTH = 4"
definition CPI_BASE_COST :: u64 where "CPI_BASE_COST = 1000"
definition CPI_PER_ACCOUNT_COST :: u64 where "CPI_PER_ACCOUNT_COST = 50"
definition CPI_PER_DATA_BYTE_COST :: u64 where "CPI_PER_DATA_BYTE_COST = 1"
definition CPI_PDA_DERIVATION_COST :: u64 where "CPI_PDA_DERIVATION_COST = 500"
definition MAX_CPI_RETURN_DATA :: nat where "MAX_CPI_RETURN_DATA = 1024"
definition MAX_CPI_EVENTS :: nat where "MAX_CPI_EVENTS = 64"
definition MAX_CPI_LOGS :: nat where "MAX_CPI_LOGS = 64"

record cpi_result =
  cr_success :: bool
  cr_error_code :: "u32 option"
  cr_return_data :: "u8 list"
  cr_compute_consumed :: u64
  cr_events :: "program_event list"
  cr_logs :: "log_entry list"

definition cpi_success :: "u8 list \<Rightarrow> u64 \<Rightarrow> program_event list \<Rightarrow> log_entry list \<Rightarrow> cpi_result" where
  "cpi_success ret units evs ls = \<lparr>cr_success = True, cr_error_code = None, cr_return_data = ret,
     cr_compute_consumed = units, cr_events = evs, cr_logs = ls\<rparr>"

definition cpi_failure :: "u32 \<Rightarrow> u64 \<Rightarrow> log_entry list \<Rightarrow> cpi_result" where
  "cpi_failure code units ls = \<lparr>cr_success = False, cr_error_code = Some code, cr_return_data = [],
     cr_compute_consumed = units, cr_events = [], cr_logs = ls\<rparr>"

definition build_cpi_metas :: "account_info list \<Rightarrow> account_meta list" where
  "build_cpi_metas infos = map (\<lambda>a. \<lparr>meta_pubkey = info_key a, is_signer = info_is_signer a,
     is_writable = info_is_writable a\<rparr>) infos"

section \<open>Contexts\<close>

type_synonym seed_sets = "u8 list list list"

record cpi_context =
  cc_caller :: pubkey
  cc_accounts :: "account_info list"
  cc_depth :: nat
  cc_max_depth :: nat
  cc_call_chain :: "pubkey list"
  cc_signer_seeds :: seed_sets

definition cpi_context_new :: "pubkey \<Rightarrow> account_info list \<Rightarrow> cpi_context" where
  "cpi_context_new caller infos = \<lparr>cc_caller = caller, cc_accounts = infos, cc_depth = 0, cc_max_depth = MAX_CPI_DEPTH,
     cc_call_chain = [caller], cc_signer_seeds = []\<rparr>"

definition child :: "pubkey \<Rightarrow> cpi_context \<Rightarrow> cpi_context program_result" where
  "child callee ctx =
     (if cc_max_depth ctx \<le> cc_depth ctx then Inl CallDepthExceeded
      else if callee \<in> set (cc_call_chain ctx) then Inl ReentrancyDetected
      else Inr (ctx\<lparr>cc_caller := callee, cc_depth := cc_depth ctx + 1,
        cc_call_chain := cc_call_chain ctx @ [callee], cc_signer_seeds := []\<rparr>))"

definition with_signer :: "u8 list list \<Rightarrow> cpi_context \<Rightarrow> cpi_context" where
  "with_signer seeds ctx = ctx\<lparr>cc_signer_seeds := cc_signer_seeds ctx @ [seeds]\<rparr>"

definition cpi_get_account :: "cpi_context \<Rightarrow> pubkey \<Rightarrow> account_info program_result" where
  "cpi_get_account ctx key =
     (case find (\<lambda>a. info_key a = key) (cc_accounts ctx) of None \<Rightarrow> Inl AccountNotFound | Some a \<Rightarrow> Inr a)"

definition is_in_call_chain :: "cpi_context \<Rightarrow> pubkey \<Rightarrow> bool" where
  "is_in_call_chain ctx p \<longleftrightarrow> p \<in> set (cc_call_chain ctx)"

definition can_make_cpi :: "cpi_context \<Rightarrow> bool" where
  "can_make_cpi ctx \<longleftrightarrow> cc_depth ctx < cc_max_depth ctx"

section \<open>The execution overlay\<close>

record account_snapshot =
  as_key :: pubkey
  as_owner :: pubkey
  as_motes :: u64
  as_data :: "u8 list"
  as_executable :: bool
  as_rent_epoch :: u64
  as_state :: account_state

definition from_account :: "account \<Rightarrow> account_snapshot" where
  "from_account a = \<lparr>as_key = acc_key a, as_owner = acc_owner a, as_motes = acc_motes a, as_data = data_bytes (acc_data a),
     as_executable = acc_executable a, as_rent_epoch = acc_rent_epoch a, as_state = acc_state a\<rparr>"

definition restore_to :: "account_snapshot \<Rightarrow> account \<Rightarrow> account" where
  "restore_to s a = a\<lparr>acc_owner := as_owner s, acc_motes := as_motes s, acc_data := data_new (as_data s),
     acc_executable := as_executable s, acc_rent_epoch := as_rent_epoch s, acc_state := as_state s\<rparr>"

record overlay =
  ov_snapshots :: "pubkey \<rightharpoonup> account_snapshot"
  ov_meter_snapshot :: meter_snapshot
  ov_borrowed_accounts :: "(pubkey \<times> bool) list"
  ov_events :: "program_event list"
  ov_logs :: "log_entry list"
  ov_return_data :: "return_data_t option"
  ov_depth :: u8

definition overlay_new :: "compute_meter \<Rightarrow> u8 \<Rightarrow> overlay" where
  "overlay_new m d = \<lparr>ov_snapshots = Map.empty, ov_meter_snapshot = snapshot m, ov_borrowed_accounts = [],
     ov_events = [], ov_logs = [], ov_return_data = None, ov_depth = d\<rparr>"

definition snapshot_account :: "account \<Rightarrow> overlay \<Rightarrow> overlay" where
  "snapshot_account a ov =
     (case ov_snapshots ov (acc_key a) of
        None \<Rightarrow> ov\<lparr>ov_snapshots := (ov_snapshots ov)(acc_key a \<mapsto> from_account a)\<rparr>
      | Some _ \<Rightarrow> ov)"

definition record_borrow :: "pubkey \<Rightarrow> bool \<Rightarrow> overlay \<Rightarrow> overlay" where
  "record_borrow key mut ov = ov\<lparr>ov_borrowed_accounts := ov_borrowed_accounts ov @ [(key, mut)]\<rparr>"

definition add_event :: "program_event \<Rightarrow> overlay \<Rightarrow> unit program_result \<times> overlay" where
  "add_event e ov =
     (if MAX_CPI_EVENTS \<le> length (ov_events ov) then (Inl (Custom 1001), ov)
      else (Inr (), ov\<lparr>ov_events := ov_events ov @ [e]\<rparr>))"

definition add_log :: "log_entry \<Rightarrow> overlay \<Rightarrow> unit program_result \<times> overlay" where
  "add_log l ov =
     (if MAX_CPI_LOGS \<le> length (ov_logs ov) then (Inl LogBufferFull, ov)
      else (Inr (), ov\<lparr>ov_logs := ov_logs ov @ [l]\<rparr>))"

definition overlay_set_return_data :: "pubkey \<Rightarrow> u8 list \<Rightarrow> overlay \<Rightarrow> unit program_result \<times> overlay" where
  "overlay_set_return_data p bs ov =
     (if MAX_CPI_RETURN_DATA < length bs then (Inl ReturnDataTooLarge, ov)
      else (Inr (), ov\<lparr>ov_return_data := Some \<lparr>rd_program_id = p, rd_data = bs\<rparr>\<rparr>))"

definition take_contents :: "overlay \<Rightarrow> (program_event list \<times> log_entry list \<times> return_data_t option) \<times> overlay" where
  "take_contents ov = ((ov_events ov, ov_logs ov, ov_return_data ov),
     ov\<lparr>ov_events := [], ov_logs := [], ov_return_data := None\<rparr>)"

text \<open>The guard shares the meter, which is an argument where it is read; \<^verbatim>\<open>finalized\<close> only serves the check in \<^verbatim>\<open>drop\<close>.\<close>

record cpi_guard =
  gd_overlay :: overlay
  gd_finalized :: bool

definition guard_new :: "compute_meter \<Rightarrow> u8 \<Rightarrow> cpi_guard" where
  "guard_new m d = \<lparr>gd_overlay = overlay_new m d, gd_finalized = False\<rparr>"

definition guard_commit :: "cpi_guard \<Rightarrow> (program_event list \<times> log_entry list \<times> return_data_t option) \<times> cpi_guard" where
  "guard_commit g = (let (out, ov) = take_contents (gd_overlay g) in (out, \<lparr>gd_overlay = ov, gd_finalized = True\<rparr>))"

definition guard_rollback :: "(pubkey \<rightharpoonup> account) \<Rightarrow> cpi_guard \<Rightarrow> log_entry list \<times> (pubkey \<rightharpoonup> account) \<times> cpi_guard" where
  "guard_rollback accounts g =
     (ov_logs (gd_overlay g),
      (\<lambda>k. case (accounts k, ov_snapshots (gd_overlay g) k) of (Some a, Some s) \<Rightarrow> Some (restore_to s a) | _ \<Rightarrow> accounts k),
      g\<lparr>gd_finalized := True\<rparr>)"

definition compute_consumed :: "compute_meter \<Rightarrow> cpi_guard \<Rightarrow> u64" where
  "compute_consumed m g = saturating_sub (consumed m) (snap_consumed (ov_meter_snapshot (gd_overlay g)))"

section \<open>Signers and privileges\<close>

text \<open>The loop over the seed sets, in \<^verbatim>\<open>derive_pda_signers\<close> and in step 7 of \<^verbatim>\<open>invoke_cpi\<close>.\<close>

fun derive_loop ::
    "crypto \<Rightarrow> pubkey \<Rightarrow> seed_sets \<Rightarrow> pubkey set \<Rightarrow> compute_meter \<Rightarrow> pubkey set program_result \<times> compute_meter" where
  "derive_loop c caller [] signers m = (Inr signers, m)"
| "derive_loop c caller (seeds # rest) signers m =
     (if MAX_SEEDS < length seeds then (Inl InvalidSeeds, m)
      else if \<not> seeds_fit seeds then (Inl SeedTooLong, m)
      else case consume CPI_PDA_DERIVATION_COST m of
          (Inl e, m') \<Rightarrow> (Inl e, m')
        | (Inr _, m') \<Rightarrow>
           (case find_program_address c seeds caller of
              Inl e \<Rightarrow> (Inl e, m')
            | Inr pda \<Rightarrow> derive_loop c caller rest (insert (pda_address pda) signers) m'))"

definition derive_pda_signers :: "crypto \<Rightarrow> pubkey \<Rightarrow> seed_sets \<Rightarrow> compute_meter \<Rightarrow> pubkey set program_result \<times> compute_meter" where
  "derive_pda_signers c caller seed_sets m = derive_loop c caller seed_sets {} m"

text \<open>The check of the source looks at every signer and accepts whatever it finds.\<close>

definition validate_pda_signer_usage :: "pubkey set \<Rightarrow> instruction \<Rightarrow> unit program_result" where
  "validate_pda_signer_usage signers ix = Inr ()"

fun no_escalation :: "account_info list \<Rightarrow> pubkey set \<Rightarrow> account_meta list \<Rightarrow> unit program_result" where
  "no_escalation infos signers [] = Inr ()"
| "no_escalation infos signers (meta # metas) =
     (case find (\<lambda>a. info_key a = meta_pubkey meta) infos of
        None \<Rightarrow> Inl AccountNotFound
      | Some a \<Rightarrow>
         (if is_signer meta \<and> \<not> info_is_signer a \<and> meta_pubkey meta \<notin> signers then Inl MissingRequiredSignature
          else if is_writable meta \<and> \<not> info_is_writable a then Inl AccountNotWritable
          else no_escalation infos signers metas))"

definition check_no_escalation :: "account_info list \<Rightarrow> instruction \<Rightarrow> unit program_result" where
  "check_no_escalation infos ix = no_escalation infos {} (ix_accounts ix)"

definition check_no_escalation_with_pda :: "account_info list \<Rightarrow> instruction \<Rightarrow> pubkey set \<Rightarrow> unit program_result" where
  "check_no_escalation_with_pda infos ix signers = no_escalation infos signers (ix_accounts ix)"

section \<open>The client side\<close>

definition invoke_signed_internal ::
    "(pubkey \<Rightarrow> instruction \<Rightarrow> seed_sets \<Rightarrow> 's \<Rightarrow> cpi_result program_result \<times> 's) \<Rightarrow> instruction \<Rightarrow> seed_sets
      \<Rightarrow> cpi_context \<times> 's \<Rightarrow> cpi_result program_result \<times> cpi_context \<times> 's" where
  "invoke_signed_internal execute_cpi ix seeds st =
     (let ctx = fst st in
      if cc_max_depth ctx \<le> cc_depth ctx then (Inl CallDepthExceeded, st)
      else case instruction_validate ix of
        Inl e \<Rightarrow> (Inl e, st)
      | Inr _ \<Rightarrow>
         (if ix_program_id ix \<in> set (cc_call_chain ctx) then (Inl ReentrancyDetected, st)
          else let ctx = ctx\<lparr>cc_call_chain := cc_call_chain ctx @ [ix_program_id ix]\<rparr>;
                   (r, s) = execute_cpi (cc_caller ctx) ix seeds (snd st);
                   ctx = ctx\<lparr>cc_call_chain := butlast (cc_call_chain ctx)\<rparr>
               in (r, ctx, s)))"

definition cpi_invoke ::
    "(pubkey \<Rightarrow> instruction \<Rightarrow> seed_sets \<Rightarrow> 's \<Rightarrow> cpi_result program_result \<times> 's) \<Rightarrow> instruction
      \<Rightarrow> cpi_context \<times> 's \<Rightarrow> cpi_result program_result \<times> cpi_context \<times> 's" where
  "cpi_invoke execute_cpi ix st = invoke_signed_internal execute_cpi ix [] st"

definition can_borrow :: "tracker \<Rightarrow> pubkey \<Rightarrow> bool \<Rightarrow> bool" where
  "can_borrow t key mut = (if mut then can_borrow_mutable t key else can_borrow_immutable t key)"

fun seeds_signers :: "crypto \<Rightarrow> pubkey \<Rightarrow> seed_sets \<Rightarrow> pubkey set \<Rightarrow> pubkey set program_result" where
  "seeds_signers c caller [] signers = Inr signers"
| "seeds_signers c caller (seeds # rest) signers =
     (if MAX_SEEDS < length seeds then Inl InvalidSeeds
      else if \<not> seeds_fit seeds then Inl SeedTooLong
      else case find_program_address c seeds caller of
          Inl e \<Rightarrow> Inl e
        | Inr pda \<Rightarrow> seeds_signers c caller rest (insert (pda_address pda) signers))"

definition validate_cpi_call :: "crypto \<Rightarrow> cpi_context \<Rightarrow> instruction \<Rightarrow> seed_sets \<Rightarrow> pubkey set program_result" where
  "validate_cpi_call c ctx ix seed_sets =
     (if cc_max_depth ctx \<le> cc_depth ctx then Inl CallDepthExceeded
      else if ix_program_id ix \<in> set (cc_call_chain ctx) then Inl ReentrancyDetected
      else case instruction_validate ix of
        Inl e \<Rightarrow> Inl e
      | Inr _ \<Rightarrow>
         (case seeds_signers c (cc_caller ctx) seed_sets {} of
            Inl e \<Rightarrow> Inl e
          | Inr signers \<Rightarrow>
             (case traverse (\<lambda>meta. cpi_get_account ctx (meta_pubkey meta)) (ix_accounts ix) of
                Inl e \<Rightarrow> Inl e | Inr _ \<Rightarrow> Inr signers)))"

section \<open>The runtime side\<close>

record cpi_request =
  req_instruction :: instruction
  req_caller_program :: pubkey
  req_signer_seeds :: seed_sets

definition cpi_base_cost :: "instruction \<Rightarrow> u64" where
  "cpi_base_cost ix = CPI_BASE_COST + of_nat (length (ix_accounts ix)) * CPI_PER_ACCOUNT_COST
     + of_nat (length (ix_data ix)) * CPI_PER_DATA_BYTE_COST"

text \<open>Step 8: the privilege and borrow checks, account by account. An error returns at once, whatever was borrowed before.\<close>

definition check_privilege :: "(pubkey \<rightharpoonup> account_meta) \<Rightarrow> pubkey set \<Rightarrow> account_meta \<Rightarrow> unit program_result" where
  "check_privilege metas signers meta =
     (case metas (meta_pubkey meta) of
        None \<Rightarrow> Inl AccountNotFound
      | Some c \<Rightarrow>
         (if is_signer meta \<and> \<not> is_signer c \<and> meta_pubkey meta \<notin> signers then Inl MissingRequiredSignature
          else if is_writable meta \<and> \<not> is_writable c then Inl AccountNotWritable
          else Inr ()))"

definition borrow_meta :: "account_meta \<Rightarrow> tracker \<Rightarrow> unit program_result \<times> tracker" where
  "borrow_meta meta t =
     (if is_writable meta
      then (if \<not> can_borrow_mutable t (meta_pubkey meta) then (Inl BorrowsOverlap, t) else add_mutable_borrow (meta_pubkey meta) t)
      else (if \<not> can_borrow_immutable t (meta_pubkey meta) then (Inl BorrowsOverlap, t) else add_immutable_borrow (meta_pubkey meta) t))"

fun borrow_metas ::
    "(pubkey \<rightharpoonup> account_meta) \<Rightarrow> pubkey set \<Rightarrow> account_meta list \<Rightarrow> (pubkey \<times> bool) list \<Rightarrow> tracker
      \<Rightarrow> (pubkey \<times> bool) list program_result \<times> tracker" where
  "borrow_metas metas signers [] borrowed t = (Inr borrowed, t)"
| "borrow_metas metas signers (meta # rest) borrowed t =
     (case check_privilege metas signers meta of
        Inl e \<Rightarrow> (Inl e, t)
      | Inr _ \<Rightarrow>
         (case borrow_meta meta t of
            (Inl e, t') \<Rightarrow> (Inl e, t')
          | (Inr _, t') \<Rightarrow> borrow_metas metas signers rest (borrowed @ [(meta_pubkey meta, is_writable meta)]) t'))"

definition release_borrow :: "pubkey \<times> bool \<Rightarrow> tracker \<Rightarrow> tracker" where
  "release_borrow b t = (if snd b then release_mutable_borrow (fst b) t else release_immutable_borrow (fst b) t)"

definition touched_originals :: "instruction \<Rightarrow> (pubkey \<rightharpoonup> account) \<Rightarrow> (pubkey \<rightharpoonup> account)" where
  "touched_originals ix accounts =
     fold (\<lambda>meta m. if is_writable meta
       then (case accounts (meta_pubkey meta) of None \<Rightarrow> m | Some a \<Rightarrow> m(meta_pubkey meta \<mapsto> a)) else m)
       (ix_accounts ix) Map.empty"

definition cpi_callee :: "runtime_env \<Rightarrow> instruction \<Rightarrow> execution_context \<Rightarrow> unit program_result \<times> execution_context" where
  "cpi_callee env ix cx =
     (case find_program env cx (ix_program_id ix) of
        Inl e \<Rightarrow> (Inl e, cx)
      | Inr prog \<Rightarrow>
         (case re_validate env (cp_bytecode prog) of
            Inl e \<Rightarrow> (Inl e, cx)
          | Inr _ \<Rightarrow> invoke_program env (ix_program_id ix) (cp_bytecode prog) ix cx))"

text \<open>Steps 10 to 15 around a callee: \<open>callee\<close> is what runs between entering and leaving, \<open>prev_return\<close> and \<open>pre_consumed\<close>
  were read before.\<close>

definition cpi_enter :: "instruction \<Rightarrow> execution_context \<Rightarrow> execution_context" where
  "cpi_enter ix cx = cx\<lparr>cx_call_chain := cx_call_chain cx @ [ix_program_id ix], cx_cpi_depth := cx_cpi_depth cx + 1\<rparr>"

definition cpi_leave :: "(pubkey \<times> bool) list \<Rightarrow> execution_context \<Rightarrow> execution_context" where
  "cpi_leave borrowed cx = cx\<lparr>cx_call_chain := butlast (cx_call_chain cx), cx_cpi_depth := cx_cpi_depth cx - 1,
     cx_borrow_tracker := fold release_borrow borrowed (cx_borrow_tracker cx)\<rparr>"

definition cpi_return :: "u64 \<Rightarrow> collector_checkpoint \<Rightarrow> execution_context \<Rightarrow> cpi_result" where
  "cpi_return pre_consumed cp cx =
     (let ret = (case cx_return_data cx of None \<Rightarrow> [] | Some r \<Rightarrow> take MAX_CPI_RETURN_DATA (rd_data r));
          (evs, ls) = clone_since (cx_events cx) cp
      in cpi_success ret (saturating_sub (consumed (cx_meter cx)) pre_consumed) (take MAX_CPI_EVENTS evs) (take MAX_CPI_LOGS ls))"

definition cpi_undo ::
    "(pubkey \<rightharpoonup> account) \<Rightarrow> collector_checkpoint \<Rightarrow> return_data_t option \<Rightarrow> execution_context \<Rightarrow> execution_context" where
  "cpi_undo touched cp prev_return cx = cx\<lparr>cx_accounts := cx_accounts cx ++ touched,
     cx_events := rollback_to cp (cx_events cx), cx_return_data := prev_return\<rparr>"

definition cpi_frame ::
    "(execution_context \<Rightarrow> unit program_result \<times> execution_context) \<Rightarrow> instruction \<Rightarrow> (pubkey \<times> bool) list \<Rightarrow> u64
      \<Rightarrow> execution_context \<Rightarrow> cpi_result program_result \<times> execution_context" where
  "cpi_frame callee ix borrowed pre_consumed cx =
     (let touched = touched_originals ix (cx_accounts cx); cp = checkpoint (cx_events cx); prev_return = cx_return_data cx;
          (r, cx) = callee (cpi_enter ix cx); cx = cpi_leave borrowed cx
      in case r of
           Inr _ \<Rightarrow> (Inr (cpi_return pre_consumed cp cx), cx)
         | Inl e \<Rightarrow> (Inl e, cpi_undo touched cp prev_return cx))"

definition invoke_cpi ::
    "runtime_env \<Rightarrow> cpi_request \<Rightarrow> execution_context \<Rightarrow> cpi_result program_result \<times> execution_context" where
  "invoke_cpi env req cx =
     (let ix = req_instruction req in
      if MAX_CPI_DEPTH \<le> cx_cpi_depth cx then (Inl CallDepthExceeded, cx)
      else case instruction_validate ix of
        Inl e \<Rightarrow> (Inl e, cx)
      | Inr _ \<Rightarrow>
         (if cx_call_chain cx = [] then (Inl InvalidInstructionData, cx)
          else if req_caller_program req \<noteq> last (cx_call_chain cx) then (Inl InvalidInstructionData, cx)
          else if ix_program_id ix \<in> set (cx_call_chain cx) then (Inl ReentrancyDetected, cx)
          else case consume (cpi_base_cost ix) (cx_meter cx) of
              (Inl e, m) \<Rightarrow> (Inl e, cx\<lparr>cx_meter := m\<rparr>)
            | (Inr _, m) \<Rightarrow>
               (case derive_loop (re_crypto env) (last (cx_call_chain cx)) (req_signer_seeds req) {} m of
                  (Inl e, m) \<Rightarrow> (Inl e, cx\<lparr>cx_meter := m\<rparr>)
                | (Inr signers, m) \<Rightarrow>
                   (case borrow_metas (cx_account_metas cx) signers (ix_accounts ix) [] (cx_borrow_tracker cx) of
                      (Inl e, t) \<Rightarrow> (Inl e, cx\<lparr>cx_meter := m, cx_borrow_tracker := t\<rparr>)
                    | (Inr borrowed, t) \<Rightarrow>
                       cpi_frame (cpi_callee env ix) ix borrowed (consumed (cx_meter cx))
                         (cx\<lparr>cx_meter := m, cx_borrow_tracker := t\<rparr>)))))"

definition execute_cpi ::
    "runtime_env \<Rightarrow> pubkey \<Rightarrow> instruction \<Rightarrow> seed_sets \<Rightarrow> execution_context
      \<Rightarrow> cpi_result program_result \<times> execution_context" where
  "execute_cpi env caller ix seeds cx =
     invoke_cpi env \<lparr>req_instruction = ix, req_caller_program = caller, req_signer_seeds = seeds\<rparr> cx"

section \<open>Borrows taken and given back\<close>

text \<open>The tracker as the checks see it: an account without an entry has no borrows.\<close>

definition tracker_eq :: "tracker \<Rightarrow> tracker \<Rightarrow> bool" where
  "tracker_eq t t' \<longleftrightarrow> (\<forall>k. entry_or_default t k = entry_or_default t' k)"

lemma tracker_eq_refl: "tracker_eq t t"
  by (simp add: tracker_eq_def)

lemma entry_release:
  "entry_or_default (release_borrow (k, w) t) k' =
    (let st = entry_or_default t k' in if k' \<noteq> k then st
     else if w then st\<lparr>mutable := saturating_sub (mutable st) 1\<rparr> else st\<lparr>immutable := saturating_sub (immutable st) 1\<rparr>)"
  by (auto simp: release_borrow_def tracker_defs saturating_sub_def split: option.splits)

lemma entry_add:
  assumes "borrow_meta meta t = (Inr (), t')"
  shows "entry_or_default t' k =
    (let st = entry_or_default t k in if k \<noteq> meta_pubkey meta then st
     else if is_writable meta then st\<lparr>mutable := 1\<rparr> else st\<lparr>immutable := immutable st + 1\<rparr>)"
    and "is_writable meta \<Longrightarrow> entry_or_default t (meta_pubkey meta) = borrow_default"
    and "mutable (entry_or_default t (meta_pubkey meta)) = 0"
  using assms by (auto simp: borrow_meta_def tracker_defs split: if_splits option.splits)

lemma release_eq: "tracker_eq t t' \<Longrightarrow> tracker_eq (release_borrow b t) (release_borrow b t')"
  by (cases b) (simp add: tracker_eq_def entry_release)

lemma release_swap: "tracker_eq (release_borrow a (release_borrow b t)) (release_borrow b (release_borrow a t))"
  by (cases a; cases b) (simp add: tracker_eq_def entry_release Let_def)

lemma tracker_eq_trans: "tracker_eq t t' \<Longrightarrow> tracker_eq t' t'' \<Longrightarrow> tracker_eq t t''"
  by (simp add: tracker_eq_def)

lemma fold_release_eq: "tracker_eq t t' \<Longrightarrow> tracker_eq (fold release_borrow bs t) (fold release_borrow bs t')"
  by (induction bs arbitrary: t t') (simp_all add: release_eq)

lemma fold_release_swap: "tracker_eq (fold release_borrow bs (release_borrow b t)) (release_borrow b (fold release_borrow bs t))"
proof (induction bs arbitrary: t)
  case (Cons a bs)
  have "tracker_eq (fold release_borrow bs (release_borrow a (release_borrow b t)))
      (fold release_borrow bs (release_borrow b (release_borrow a t)))"
    by (rule fold_release_eq [OF release_swap])
  then show ?case using Cons.IH [of "release_borrow a t"] tracker_eq_trans by auto
qed (simp add: tracker_eq_refl)

text \<open>Counters of shared borrows that cannot wrap around while one instruction is processed.\<close>

definition tracker_small :: "nat \<Rightarrow> tracker \<Rightarrow> bool" where
  "tracker_small n t \<longleftrightarrow> (\<forall>k. unat (immutable (entry_or_default t k)) + n < 2 ^ 32)"

lemma small_inc:
  assumes "tracker_small (Suc n) t"
  shows "unat (immutable (entry_or_default t k) + 1) = unat (immutable (entry_or_default t k)) + 1"
proof -
  have "unat (immutable (entry_or_default t k)) + Suc n < 2 ^ 32" using assms unfolding tracker_small_def by blast
  then show ?thesis by (simp add: unat_add_no_overflow)
qed

lemma release_add:
  assumes "borrow_meta meta t = (Inr (), t')" and "tracker_small (Suc n) t"
  shows "tracker_eq (release_borrow (meta_pubkey meta, is_writable meta) t') t" and "tracker_small n t'"
proof -
  have small: "unat (immutable (entry_or_default t k)) + Suc n < 2 ^ 32" for k
    using assms(2) by (simp add: tracker_small_def)
  note inc = small_inc [OF assms(2)]
  have dec: "saturating_sub (immutable (entry_or_default t k) + 1) 1 = immutable (entry_or_default t k)" for k
    using inc [of k] by (simp add: saturating_sub_def word_le_nat_alt)
  show "tracker_eq (release_borrow (meta_pubkey meta, is_writable meta) t') t"
    using entry_add [OF assms(1)] dec
    by (auto simp: tracker_eq_def entry_release Let_def saturating_sub_def borrow_default_def)
  show "tracker_small n t'"
    unfolding tracker_small_def
  proof
    fix k
    show "unat (immutable (entry_or_default t' k)) + n < 2 ^ 32"
      using small [of k] inc [of k] by (auto simp: entry_add(1) [OF assms(1)] Let_def)
  qed
qed

lemma borrow_metas_release:
  assumes "borrow_metas metas signers ms bs t = (Inr bs', t')" and "tracker_small (length ms) t"
  shows "\<exists>ns. bs' = bs @ ns \<and> tracker_eq (fold release_borrow ns t') t"
  using assms
proof (induction ms arbitrary: bs t)
  case (Cons m ms)
  obtain t1 where ok: "check_privilege metas signers m = Inr ()" and add: "borrow_meta m t = (Inr (), t1)"
    and rest: "borrow_metas metas signers ms (bs @ [(meta_pubkey m, is_writable m)]) t1 = (Inr bs', t')"
    using Cons.prems(1) by (auto split: sum.splits prod.splits)
  note undo = release_add [OF add, of "length ms"]
  have small: "tracker_small (Suc (length ms)) t" using Cons.prems(2) by simp
  obtain ns where ns: "bs' = (bs @ [(meta_pubkey m, is_writable m)]) @ ns" "tracker_eq (fold release_borrow ns t') t1"
    using Cons.IH [OF rest undo(2) [OF small]] by blast
  have "tracker_eq (fold release_borrow ns (release_borrow (meta_pubkey m, is_writable m) t')) t"
    using fold_release_swap release_eq [OF ns(2)] undo(1) [OF small] tracker_eq_trans by blast
  then show ?case using ns(1) by (intro exI [of _ "(meta_pubkey m, is_writable m) # ns"]) simp
qed (simp add: tracker_eq_refl)

section \<open>What an accepted invocation has checked\<close>

lemma derive_loop_signers:
  assumes "derive_loop c caller seed_sets acc m = (Inr signers, m')" and "k \<in> signers"
  shows "k \<in> acc \<or> (\<exists>seeds\<in>set seed_sets. \<exists>pda. find_program_address c seeds caller = Inr pda \<and> pda_address pda = k)"
  using assms
proof (induction seed_sets arbitrary: acc m)
  case (Cons seeds rest)
  then show ?case by (fastforce split: if_splits prod.splits sum.splits)
qed simp

lemma borrow_metas_check:
  "borrow_metas metas signers ms bs t = (Inr bs', t') \<Longrightarrow> meta \<in> set ms \<Longrightarrow> check_privilege metas signers meta = Inr ()"
  by (induction ms arbitrary: bs t) (auto split: sum.splits prod.splits)

text \<open>An account borrowed for writing stays so while further accounts are borrowed, and none of them is the same.\<close>

lemma borrow_metas_locked:
  assumes "borrow_metas metas signers ms bs t = (Inr bs', t')" and "mutable (entry_or_default t k) \<noteq> 0"
  shows "mutable (entry_or_default t' k) \<noteq> 0 \<and> k \<notin> meta_pubkey ` set ms"
  using assms
proof (induction ms arbitrary: bs t)
  case (Cons m ms)
  obtain t1 where add: "borrow_meta m t = (Inr (), t1)"
    and rest: "borrow_metas metas signers ms (bs @ [(meta_pubkey m, is_writable m)]) t1 = (Inr bs', t')"
    using Cons.prems(1) by (auto split: sum.splits prod.splits)
  have "k \<noteq> meta_pubkey m" using entry_add(3) [OF add] Cons.prems(2) by auto
  moreover from this have "mutable (entry_or_default t1 k) \<noteq> 0"
    using entry_add(1) [OF add, of k] Cons.prems(2) by simp
  ultimately show ?case using Cons.IH [OF rest] by simp
qed simp

lemma borrow_metas_writable:
  assumes "borrow_metas metas signers ms bs t = (Inr bs', t')" and "m \<in> set ms" and "is_writable m"
  shows "mutable (entry_or_default t' (meta_pubkey m)) \<noteq> 0"
  using assms
proof (induction ms arbitrary: bs t)
  case (Cons x ms)
  obtain t1 where add: "borrow_meta x t = (Inr (), t1)"
    and rest: "borrow_metas metas signers ms (bs @ [(meta_pubkey x, is_writable x)]) t1 = (Inr bs', t')"
    using Cons.prems(1) by (auto split: sum.splits prod.splits)
  show ?case
  proof (cases "m = x")
    case True
    then have "mutable (entry_or_default t1 (meta_pubkey m)) \<noteq> 0"
      using entry_add(1) [OF add, of "meta_pubkey x"] Cons.prems(3) by simp
    then show ?thesis using borrow_metas_locked [OF rest] by blast
  next
    case False
    then show ?thesis using Cons.IH [OF rest] Cons.prems by simp
  qed
qed simp

text \<open>No account is listed twice when one of the two is writable.\<close>

definition exclusive_metas :: "account_meta list \<Rightarrow> bool" where
  "exclusive_metas ms \<longleftrightarrow> sorted_wrt (\<lambda>m m'. meta_pubkey m = meta_pubkey m' \<longrightarrow> \<not> is_writable m \<and> \<not> is_writable m') ms"

lemma borrow_metas_reading:
  assumes "borrow_metas metas signers ms bs t = (Inr bs', t')" and "m \<in> set ms" and "is_writable m"
    and "tracker_small (length ms) t"
  shows "immutable (entry_or_default t (meta_pubkey m)) = 0"
  using assms
proof (induction ms arbitrary: bs t)
  case (Cons x ms)
  obtain t1 where add: "borrow_meta x t = (Inr (), t1)"
    and rest: "borrow_metas metas signers ms (bs @ [(meta_pubkey x, is_writable x)]) t1 = (Inr bs', t')"
    using Cons.prems(1) by (auto split: sum.splits prod.splits)
  show ?case
  proof (cases "m = x")
    case True
    then show ?thesis using entry_add(2) [OF add] Cons.prems(3) by (simp add: borrow_default_def)
  next
    case False
    have small: "tracker_small (Suc (length ms)) t" using Cons.prems(4) by simp
    have now: "immutable (entry_or_default t1 (meta_pubkey m)) = 0"
      using Cons.IH [OF rest _ Cons.prems(3) release_add(2) [OF add small]] Cons.prems(2) False by simp
    show ?thesis
    proof (cases "meta_pubkey m = meta_pubkey x \<and> \<not> is_writable x")
      case True
      then have "immutable (entry_or_default t (meta_pubkey x)) + 1 = 0"
        using now entry_add(1) [OF add, of "meta_pubkey m"] by (simp add: Let_def)
      moreover have "unat (immutable (entry_or_default t (meta_pubkey x)) + 1) = unat (immutable (entry_or_default t (meta_pubkey x))) + 1"
        by (rule small_inc [OF small])
      ultimately show ?thesis by simp
    next
      case False
      then show ?thesis using now entry_add(1) [OF add, of "meta_pubkey m"] by (auto simp: Let_def split: if_splits)
    qed
  qed
qed simp

lemma borrow_metas_exclusive:
  assumes "borrow_metas metas signers ms bs t = (Inr bs', t')" and "tracker_small (length ms) t"
  shows "exclusive_metas ms"
  using assms
proof (induction ms arbitrary: bs t)
  case (Cons x ms)
  obtain t1 where add: "borrow_meta x t = (Inr (), t1)"
    and rest: "borrow_metas metas signers ms (bs @ [(meta_pubkey x, is_writable x)]) t1 = (Inr bs', t')"
    using Cons.prems(1) by (auto split: sum.splits prod.splits)
  have small: "tracker_small (Suc (length ms)) t" using Cons.prems(2) by simp
  note small1 = release_add(2) [OF add small]
  have "\<not> is_writable x \<and> \<not> is_writable m" if m: "m \<in> set ms" "meta_pubkey x = meta_pubkey m" for m
  proof
    show "\<not> is_writable x"
    proof
      assume "is_writable x"
      then have "mutable (entry_or_default t1 (meta_pubkey x)) \<noteq> 0" using entry_add(1) [OF add, of "meta_pubkey x"] by simp
      then show False using borrow_metas_locked [OF rest] m by auto
    qed
    then have "immutable (entry_or_default t1 (meta_pubkey m)) = immutable (entry_or_default t (meta_pubkey x)) + 1"
      using entry_add(1) [OF add, of "meta_pubkey m"] m(2) by (simp add: Let_def)
    moreover have "unat (immutable (entry_or_default t (meta_pubkey x)) + 1) = unat (immutable (entry_or_default t (meta_pubkey x))) + 1"
      by (rule small_inc [OF small])
    ultimately have "immutable (entry_or_default t1 (meta_pubkey m)) \<noteq> 0" by (metis add_is_0 one_neq_zero unat_0)
    then show "\<not> is_writable m" using borrow_metas_reading [OF rest m(1) _ small1] by blast
  qed
  then show ?case using Cons.IH [OF rest small1] by (auto simp: exclusive_metas_def)
qed (simp add: exclusive_metas_def)

section \<open>The phases of an invocation\<close>

text \<open>What the checks before step 9 let through.\<close>

definition cpi_admitted ::
    "runtime_env \<Rightarrow> cpi_request \<Rightarrow> execution_context \<Rightarrow> pubkey set \<Rightarrow> compute_meter \<Rightarrow> bool" where
  "cpi_admitted env req cx signers m \<longleftrightarrow>
     cx_cpi_depth cx < MAX_CPI_DEPTH \<and> instruction_validate (req_instruction req) = Inr ()
     \<and> cx_call_chain cx \<noteq> [] \<and> req_caller_program req = last (cx_call_chain cx)
     \<and> ix_program_id (req_instruction req) \<notin> set (cx_call_chain cx)
     \<and> (\<exists>m1. consume (cpi_base_cost (req_instruction req)) (cx_meter cx) = (Inr (), m1)
         \<and> derive_loop (re_crypto env) (last (cx_call_chain cx)) (req_signer_seeds req) {} m1 = (Inr signers, m))"

lemma admitted_small:
  assumes "cpi_admitted env req cx signers m" and "tracker_small MAX_ACCOUNTS_PER_INSTRUCTION t"
  shows "tracker_small (length (ix_accounts (req_instruction req))) t"
proof -
  have "length (ix_accounts (req_instruction req)) \<le> MAX_ACCOUNTS_PER_INSTRUCTION"
    using assms(1) by (auto simp: cpi_admitted_def instruction_validate_def split: if_splits)
  then show ?thesis using assms(2) unfolding tracker_small_def by (meson add_left_mono le_less_trans)
qed

lemma invoke_cpi_cases:
  obtains (refused) e m where "invoke_cpi env req cx = (Inl e, cx\<lparr>cx_meter := m\<rparr>)"
  | (unborrowed) signers m e t where "cpi_admitted env req cx signers m"
      "borrow_metas (cx_account_metas cx) signers (ix_accounts (req_instruction req)) [] (cx_borrow_tracker cx) = (Inl e, t)"
      "invoke_cpi env req cx = (Inl e, cx\<lparr>cx_meter := m, cx_borrow_tracker := t\<rparr>)"
  | (entered) signers m bs t where "cpi_admitted env req cx signers m"
      "borrow_metas (cx_account_metas cx) signers (ix_accounts (req_instruction req)) [] (cx_borrow_tracker cx) = (Inr bs, t)"
      "invoke_cpi env req cx = cpi_frame (cpi_callee env (req_instruction req)) (req_instruction req) bs (consumed (cx_meter cx))
         (cx\<lparr>cx_meter := m, cx_borrow_tracker := t\<rparr>)"
proof -
  let ?ix = "req_instruction req" and ?chain = "cx_call_chain cx"
  have same: "cx\<lparr>cx_meter := cx_meter cx\<rparr> = cx" by simp
  show ?thesis
  proof (cases "cx_cpi_depth cx < MAX_CPI_DEPTH \<and> instruction_validate ?ix = Inr () \<and> ?chain \<noteq> []
      \<and> req_caller_program req = last ?chain \<and> ix_program_id ?ix \<notin> set ?chain")
    case False
    then have "\<exists>e. invoke_cpi env req cx = (Inl e, cx)"
      by (auto simp: invoke_cpi_def Let_def not_less split: sum.splits)
    then show ?thesis using refused [of _ "cx_meter cx"] same by metis
  next
    case True
    obtain r1 m1 where c: "consume (cpi_base_cost ?ix) (cx_meter cx) = (r1, m1)" by fastforce
    show ?thesis
    proof (cases r1)
      case (Inl e)
      then show ?thesis using True c refused [of e m1] by (simp add: invoke_cpi_def Let_def)
    next
      case (Inr u)
      obtain r2 m2 where d: "derive_loop (re_crypto env) (last ?chain) (req_signer_seeds req) {} m1 = (r2, m2)" by fastforce
      show ?thesis
      proof (cases r2)
        case (Inl e)
        then show ?thesis using True c d \<open>r1 = Inr u\<close> refused [of e m2] by (simp add: invoke_cpi_def Let_def)
      next
        case ok: (Inr signers)
        obtain r3 t where b: "borrow_metas (cx_account_metas cx) signers (ix_accounts ?ix) [] (cx_borrow_tracker cx) = (r3, t)"
          by fastforce
        have adm: "cpi_admitted env req cx signers m2" using True c d Inr ok by (simp add: cpi_admitted_def)
        show ?thesis
        proof (cases r3)
          case (Inl e)
          then show ?thesis
            using True c d b \<open>r1 = Inr u\<close> ok by (intro unborrowed [OF adm]) (simp_all add: invoke_cpi_def Let_def)
        next
          case fin: (Inr bs)
          then show ?thesis
            using True c d b \<open>r1 = Inr u\<close> ok by (intro entered [OF adm]) (simp_all add: invoke_cpi_def Let_def)
        qed
      qed
    qed
  qed
qed

lemma callee_frame: "cpi_callee env ix cx = (r, cx') \<Longrightarrow> \<exists>m. cx' = cx\<lparr>cx_meter := m\<rparr>"
  by (auto simp: cpi_callee_def invoke_program_def split: sum.splits prod.splits)
    (metis execution_context.surjective execution_context.update_convs(5))+

lemma touched_writable:
  "touched_originals ix acc k = (if (\<exists>meta\<in>set (ix_accounts ix). is_writable meta \<and> meta_pubkey meta = k) then acc k else None)"
proof -
  have all: "fold (\<lambda>meta m. if is_writable meta
       then (case acc (meta_pubkey meta) of None \<Rightarrow> m | Some a \<Rightarrow> m(meta_pubkey meta \<mapsto> a)) else m) ms m k
      = (if (\<exists>meta\<in>set ms. is_writable meta \<and> meta_pubkey meta = k) \<and> acc k \<noteq> None then acc k else m k)" for ms m
    by (induction ms arbitrary: m) (auto split: option.splits)
  show ?thesis unfolding touched_originals_def all by auto
qed

section \<open>Theorems\<close>

text \<open>The metas of a context are those of the transaction it was loaded for: for each key the union of the flags of all its appearances, in whichever instruction.\<close>

lemma load_accounts_metas: "cx_account_metas (load_accounts b metas cx) = fold add_meta metas (cx_account_metas cx)"
proof (induction metas arbitrary: cx)
  case (Cons m ms)
  have "load_accounts b (m # ms) cx = load_accounts b ms (load_one (m, bank_load b (meta_pubkey m)) cx)"
    by (simp add: load_accounts_def bank_load_many_def)
  then show ?case by (simp add: Cons.IH load_one_def Let_def)
qed (simp add: load_accounts_def)

definition combined :: "account_meta list \<Rightarrow> (pubkey \<rightharpoonup> account_meta) \<Rightarrow> bool" where
  "combined metas ms \<longleftrightarrow> (\<forall>k c. ms k = Some c \<longrightarrow> (\<exists>a\<in>set metas. meta_pubkey a = k)
     \<and> (is_writable c \<longrightarrow> (\<exists>a\<in>set metas. meta_pubkey a = k \<and> is_writable a)) \<and> (is_signer c \<longrightarrow> (\<exists>a\<in>set metas. meta_pubkey a = k \<and> is_signer a)))"

lemma combined_add: "combined ms M \<Longrightarrow> combined (ms @ [m]) (add_meta m M)"
  unfolding combined_def add_meta_def by (auto split: option.splits if_splits)

lemma combined_fold: "combined ms (fold add_meta ms Map.empty)"
  by (induction ms rule: rev_induct) (auto simp: combined_add, simp add: combined_def)

text \<open>C9. A cross-program invocation that succeeds was allowed by the transaction: its depth is below the limit, it comes from the running program, the callee is not already on the
  call chain, no account is named twice when one of the two is writable, and every account it names appears in some instruction of the transaction (or is the fee payer), as
  writable only if it is writable in some instruction, as a signer only if it is a signer in some instruction or is an address derived from the id of the running program and the
  seeds given. The comparison is with the metas of all instructions of the transaction taken together, which is what the context keeps; the code calls them the caller's, but they are
  not limited to the accounts that the calling program was given. The borrow counters of the context are far enough from their 32-bit range not to wrap.\<close>

theorem cpi_no_escalation:
  assumes "invoke_cpi env req cx = (Inr res, cx')" and "tracker_small MAX_ACCOUNTS_PER_INSTRUCTION (cx_borrow_tracker cx)"
    and "cx_account_metas cx = cx_account_metas (load_accounts b (transaction_metas ixs payer) (context_new h slot ts payer bud))"
  shows "cx_cpi_depth cx < MAX_CPI_DEPTH \<and> req_caller_program req = last (cx_call_chain cx)
    \<and> ix_program_id (req_instruction req) \<notin> set (cx_call_chain cx) \<and> exclusive_metas (ix_accounts (req_instruction req))
    \<and> (\<forall>meta\<in>set (ix_accounts (req_instruction req)).
        (\<exists>c. cx_account_metas cx (meta_pubkey meta) = Some c \<and> (is_writable meta \<longrightarrow> is_writable c))
        \<and> (\<exists>a\<in>set (transaction_metas ixs payer). meta_pubkey a = meta_pubkey meta)
        \<and> (is_writable meta \<longrightarrow> (\<exists>a\<in>set (transaction_metas ixs payer). meta_pubkey a = meta_pubkey meta \<and> is_writable a))
        \<and> (is_signer meta \<longrightarrow> (\<exists>a\<in>set (transaction_metas ixs payer). meta_pubkey a = meta_pubkey meta \<and> is_signer a)
             \<or> (\<exists>seeds\<in>set (req_signer_seeds req). \<exists>pda.
                  find_program_address (re_crypto env) seeds (last (cx_call_chain cx)) = Inr pda \<and> pda_address pda = meta_pubkey meta)))"
proof (cases rule: invoke_cpi_cases [of env req cx])
  case (entered signers m bs t)
  let ?ix = "req_instruction req"
  obtain m1 where adm: "cx_cpi_depth cx < MAX_CPI_DEPTH" "instruction_validate ?ix = Inr ()"
    "req_caller_program req = last (cx_call_chain cx)" "ix_program_id ?ix \<notin> set (cx_call_chain cx)"
    and der: "derive_loop (re_crypto env) (last (cx_call_chain cx)) (req_signer_seeds req) {} m1 = (Inr signers, m)"
    using entered(1) by (auto simp: cpi_admitted_def)
  have excl: "exclusive_metas (ix_accounts ?ix)"
    by (rule borrow_metas_exclusive [OF entered(2) admitted_small [OF entered(1) assms(2)]])
  have priv: "\<exists>c. cx_account_metas cx (meta_pubkey meta) = Some c \<and> (is_writable meta \<longrightarrow> is_writable c)
      \<and> (is_signer meta \<longrightarrow> is_signer c \<or> meta_pubkey meta \<in> signers)" if "meta \<in> set (ix_accounts ?ix)" for meta
    using borrow_metas_check [OF entered(2) that] by (auto simp: check_privilege_def split: option.splits if_splits)
  have comb: "combined (transaction_metas ixs payer) (cx_account_metas cx)"
    using combined_fold by (simp add: assms(3) load_accounts_metas context_new_def)
  have seeds: "\<exists>seeds\<in>set (req_signer_seeds req). \<exists>pda. find_program_address (re_crypto env) seeds (last (cx_call_chain cx)) = Inr pda
      \<and> pda_address pda = k" if "k \<in> signers" for k
    using derive_loop_signers [OF der] that by blast
  have "(\<exists>c. cx_account_metas cx (meta_pubkey meta) = Some c \<and> (is_writable meta \<longrightarrow> is_writable c))
      \<and> (\<exists>a\<in>set (transaction_metas ixs payer). meta_pubkey a = meta_pubkey meta)
      \<and> (is_writable meta \<longrightarrow> (\<exists>a\<in>set (transaction_metas ixs payer). meta_pubkey a = meta_pubkey meta \<and> is_writable a))
      \<and> (is_signer meta \<longrightarrow> (\<exists>a\<in>set (transaction_metas ixs payer). meta_pubkey a = meta_pubkey meta \<and> is_signer a)
         \<or> (\<exists>seeds\<in>set (req_signer_seeds req). \<exists>pda.
              find_program_address (re_crypto env) seeds (last (cx_call_chain cx)) = Inr pda \<and> pda_address pda = meta_pubkey meta))"
    if meta: "meta \<in> set (ix_accounts ?ix)" for meta
  proof -
    obtain c where c: "cx_account_metas cx (meta_pubkey meta) = Some c" "is_writable meta \<longrightarrow> is_writable c"
        "is_signer meta \<longrightarrow> is_signer c \<or> meta_pubkey meta \<in> signers" using priv [OF meta] by blast
    from comb c(1) have "\<exists>a\<in>set (transaction_metas ixs payer). meta_pubkey a = meta_pubkey meta"
        "is_writable c \<longrightarrow> (\<exists>a\<in>set (transaction_metas ixs payer). meta_pubkey a = meta_pubkey meta \<and> is_writable a)"
        "is_signer c \<longrightarrow> (\<exists>a\<in>set (transaction_metas ixs payer). meta_pubkey a = meta_pubkey meta \<and> is_signer a)"
      unfolding combined_def by simp_all
    then show ?thesis using c seeds [of "meta_pubkey meta"] by blast
  qed
  then show ?thesis using adm excl by blast
qed (use assms(1) in simp_all)

text \<open>Only the first matching entry of the caller's list counts, in both checkers.\<close>

definition metas_of :: "account_info list \<Rightarrow> (pubkey \<rightharpoonup> account_meta)" where
  "metas_of infos = map_of (map (\<lambda>m. (meta_pubkey m, m)) (build_cpi_metas infos))"

lemma metas_of_find:
  "metas_of infos k = map_option (\<lambda>a. \<lparr>meta_pubkey = info_key a, is_signer = info_is_signer a, is_writable = info_is_writable a\<rparr>)
     (find (\<lambda>a. info_key a = k) infos)"
  by (induction infos) (simp_all add: metas_of_def build_cpi_metas_def)

text \<open>The stand-alone privilege checker and the inline check of the runtime agree: on a caller whose accounts the runtime has
  recorded, both accept the same instructions and otherwise report the same first error.\<close>

theorem privilege_checkers_agree:
  "check_no_escalation_with_pda infos ix signers =
     (case traverse (check_privilege (metas_of infos) signers) (ix_accounts ix) of Inl e \<Rightarrow> Inl e | Inr _ \<Rightarrow> Inr ())"
proof -
  have "no_escalation infos signers ms =
     (case traverse (check_privilege (metas_of infos) signers) ms of Inl e \<Rightarrow> Inl e | Inr _ \<Rightarrow> Inr ())" for ms
    by (induction ms) (auto simp: check_privilege_def metas_of_find split: option.splits sum.splits)
  then show ?thesis by (simp add: check_no_escalation_with_pda_def)
qed

text \<open>What a callee may do between entering and leaving: use the meter, emit events, set return data, change the accounts its
  instruction declares writable.\<close>

definition callee_ok :: "instruction \<Rightarrow> execution_context \<Rightarrow> execution_context \<Rightarrow> bool" where
  "callee_ok ix cx cx1 \<longleftrightarrow> cx_call_chain cx1 = cx_call_chain (cpi_enter ix cx) \<and> cx_cpi_depth cx1 = cx_cpi_depth (cpi_enter ix cx)
     \<and> cx_borrow_tracker cx1 = cx_borrow_tracker cx \<and> later (cx_events cx) (cx_events cx1)
     \<and> dom (cx_accounts cx1) \<subseteq> dom (cx_accounts cx)
     \<and> (\<forall>k. (\<exists>meta\<in>set (ix_accounts ix). is_writable meta \<and> meta_pubkey meta = k) \<or> cx_accounts cx1 k = cx_accounts cx k)"

lemma rollback_later: "later col col' \<Longrightarrow> rollback_to (checkpoint col) col' = col"
  unfolding later_def by (auto simp: rollback_to_def checkpoint_def intro!: event_collector.equality)

text \<open>C15. A callee that fails is undone: whatever it did to the accounts it may write, to the events and logs and to the return data
  is as before the call, the call chain and depth are restored and the borrows taken for the call are given back, while
  the compute units it used stay consumed.\<close>

theorem cpi_failure_undone:
  assumes "callee (cpi_enter ix cx) = (Inl e, cx1)" and "callee_ok ix cx cx1"
    and "borrow_metas metas signers (ix_accounts ix) [] t = (Inr bs, cx_borrow_tracker cx)"
    and "tracker_small (length (ix_accounts ix)) t"
  shows "\<exists>cx'. cpi_frame callee ix bs pre cx = (Inl e, cx') \<and> cx_accounts cx' = cx_accounts cx \<and> cx_events cx' = cx_events cx
    \<and> cx_return_data cx' = cx_return_data cx \<and> cx_call_chain cx' = cx_call_chain cx \<and> cx_cpi_depth cx' = cx_cpi_depth cx
    \<and> tracker_eq (cx_borrow_tracker cx') t \<and> cx_meter cx' = cx_meter cx1"
proof -
  have acc: "cx_accounts cx1 ++ touched_originals ix (cx_accounts cx) = cx_accounts cx"
  proof
    fix k
    show "(cx_accounts cx1 ++ touched_originals ix (cx_accounts cx)) k = cx_accounts cx k"
      using assms(2) by (auto simp: callee_ok_def map_add_def touched_writable domIff split: option.splits if_splits)
  qed
  have "tracker_eq (fold release_borrow bs (cx_borrow_tracker cx)) t"
    using borrow_metas_release [OF assms(3,4)] by simp
  then show ?thesis
    using assms(1,2) acc
    by (simp add: cpi_frame_def Let_def cpi_undo_def cpi_leave_def callee_ok_def cpi_enter_def rollback_later)
qed

lemma entered_frame:
  assumes "borrow_metas metas signers (ix_accounts ix) [] t0 = (Inr bs, cx_borrow_tracker cx)"
    and "tracker_small (length (ix_accounts ix)) t0"
    and "cpi_frame (cpi_callee env ix) ix bs pre cx = (r, cx')"
  shows "\<exists>m t. cx' = cx\<lparr>cx_meter := m, cx_borrow_tracker := t\<rparr> \<and> tracker_eq t t0"
proof -
  obtain r1 cx1 where run: "cpi_callee env ix (cpi_enter ix cx) = (r1, cx1)" by fastforce
  obtain m where cx1: "cx1 = (cpi_enter ix cx)\<lparr>cx_meter := m\<rparr>" using callee_frame [OF run] by blast
  have acc: "cx_accounts cx ++ touched_originals ix (cx_accounts cx) = cx_accounts cx"
    by (auto simp: map_add_def touched_writable fun_eq_iff split: option.splits if_splits)
  have ev: "rollback_to (checkpoint (cx_events cx)) (cx_events cx) = cx_events cx"
    by (rule rollback_later) (simp add: later_def)
  let ?cx = "cx\<lparr>cx_meter := m, cx_borrow_tracker := fold release_borrow bs (cx_borrow_tracker cx)\<rparr>"
  have "cx' = ?cx"
    using assms(3) run cx1 acc ev
    by (cases r1) (auto simp: cpi_frame_def Let_def cpi_undo_def cpi_leave_def cpi_enter_def intro!: execution_context.equality)
  then show ?thesis using borrow_metas_release [OF assms(1,2)] by auto
qed

text \<open>Whatever comes of a cross-program invocation, all it leaves behind in the caller's context are compute units spent and
  borrows; and the borrows are as before, except when step 8 itself refused an account.\<close>

theorem cpi_leaves_context:
  assumes "invoke_cpi env req cx = (r, cx')" and "tracker_small MAX_ACCOUNTS_PER_INSTRUCTION (cx_borrow_tracker cx)"
  shows "\<exists>m t. cx' = cx\<lparr>cx_meter := m, cx_borrow_tracker := t\<rparr>
    \<and> (tracker_eq t (cx_borrow_tracker cx)
       \<or> (\<exists>signers e. r = Inl e \<and> borrow_metas (cx_account_metas cx) signers (ix_accounts (req_instruction req)) []
            (cx_borrow_tracker cx) = (Inl e, t)))"
proof (cases rule: invoke_cpi_cases [of env req cx])
  case (refused e m)
  then have "cx' = cx\<lparr>cx_meter := m, cx_borrow_tracker := cx_borrow_tracker cx\<rparr>" using assms(1) by simp
  then show ?thesis using tracker_eq_refl by blast
next
  case (unborrowed signers m e t)
  then have "cx' = cx\<lparr>cx_meter := m, cx_borrow_tracker := t\<rparr>" "r = Inl e" using assms(1) by simp_all
  then show ?thesis using unborrowed(2) by blast
next
  case (entered signers m bs t)
  let ?ix = "req_instruction req"
  note admitted_small [OF entered(1) assms(2)]
  moreover have "borrow_metas (cx_account_metas cx) signers (ix_accounts ?ix) [] (cx_borrow_tracker cx)
      = (Inr bs, cx_borrow_tracker (cx\<lparr>cx_meter := m, cx_borrow_tracker := t\<rparr>))" using entered(2) by simp
  moreover have "cpi_frame (cpi_callee env ?ix) ?ix bs (consumed (cx_meter cx)) (cx\<lparr>cx_meter := m, cx_borrow_tracker := t\<rparr>)
      = (r, cx')" using entered(3) assms(1) by simp
  ultimately obtain m' t' where "cx' = (cx\<lparr>cx_meter := m, cx_borrow_tracker := t\<rparr>)\<lparr>cx_meter := m', cx_borrow_tracker := t'\<rparr>"
      "tracker_eq t' (cx_borrow_tracker cx)"
    using entered_frame by blast
  then show ?thesis by (intro exI [of _ m'] exI [of _ t']) simp
qed

lemma borrow_metas_stuck:
  assumes "mutable (entry_or_default t k) \<noteq> 0" and "k \<in> meta_pubkey ` set ms"
  shows "\<exists>e t'. borrow_metas metas signers ms bs t = (Inl e, t')"
proof (cases "borrow_metas metas signers ms bs t")
  case (Pair r t')
  then show ?thesis using borrow_metas_locked [OF _ assms(1)] assms(2) by (cases r) auto
qed

lemma borrow_metas_append:
  assumes "borrow_metas metas signers pre bs t = (Inr bs1, t1)" and "check_privilege metas signers bad = Inl e"
  shows "borrow_metas metas signers (pre @ bad # post) bs t = (Inl e, t1)"
  using assms by (induction pre arbitrary: bs t) (auto split: sum.splits prod.splits)

text \<open>When an account is refused, the borrows taken for the accounts before it are never given back: a writable account among
  them stays borrowed, and from then on every invocation in the transaction that names it is refused.\<close>

theorem cpi_refusal_leaks_borrows:
  assumes "cpi_admitted env req cx signers m" and "ix_accounts (req_instruction req) = pre @ bad # post"
    and "borrow_metas (cx_account_metas cx) signers pre [] (cx_borrow_tracker cx) = (Inr bs, t)"
    and "check_privilege (cx_account_metas cx) signers bad = Inl e" and "w \<in> set pre" and "is_writable w"
  shows "\<exists>cx'. invoke_cpi env req cx = (Inl e, cx') \<and> cx_borrow_tracker cx' = t
    \<and> (\<forall>req'. meta_pubkey w \<in> meta_pubkey ` set (ix_accounts (req_instruction req')) \<longrightarrow>
         (\<exists>e' cx''. invoke_cpi env req' cx' = (Inl e', cx'')))"
proof -
  have all: "borrow_metas (cx_account_metas cx) signers (ix_accounts (req_instruction req)) [] (cx_borrow_tracker cx) = (Inl e, t)"
    unfolding assms(2) by (rule borrow_metas_append [OF assms(3,4)])
  let ?cx = "cx\<lparr>cx_meter := m, cx_borrow_tracker := t\<rparr>"
  have "invoke_cpi env req cx = (Inl e, ?cx)"
    using assms(1) all by (auto simp: cpi_admitted_def invoke_cpi_def Let_def)
  moreover have "\<exists>e' cx''. invoke_cpi env req' ?cx = (Inl e', cx'')"
    if "meta_pubkey w \<in> meta_pubkey ` set (ix_accounts (req_instruction req'))" for req'
  proof (cases rule: invoke_cpi_cases [of env req' ?cx])
    case (entered signers' m' bs' t')
    have "mutable (entry_or_default t (meta_pubkey w)) \<noteq> 0" by (rule borrow_metas_writable [OF assms(3,5,6)])
    then show ?thesis
      using borrow_metas_stuck [OF _ that, of t "cx_account_metas cx" signers' "[]"] entered(2) by simp
  qed auto
  ultimately show ?thesis by auto
qed

section \<open>Witnesses\<close>

definition cpi_env :: runtime_env where
  "cpi_env = toy_env\<lparr>re_cache := [77 \<mapsto> \<lparr>cp_bytecode = [0], cp_hash = 0, cp_executable = True,
     cp_upgrade_authority = None, cp_cached_at = 0\<rparr>]\<rparr>"

definition cpi_cx :: execution_context where
  "cpi_cx = (context_new 1 2 3 11 compute_budget_default)\<lparr>cx_call_chain := [50],
     cx_account_metas := [11 \<mapsto> meta_signer_writable 11, 12 \<mapsto> meta_writable 12]\<rparr>"

definition cpi_req :: "account_meta list \<Rightarrow> cpi_request" where
  "cpi_req metas = \<lparr>req_instruction = instruction_new 77 metas [], req_caller_program = 50, req_signer_seeds = []\<rparr>"

lemmas cpi_run_defs = cpi_env_def cpi_cx_def cpi_req_def toy_env_def context_new_def instruction_new_def
  meta_signer_writable_def meta_writable_def meta_readonly_def cpi_base_cost_def CPI_BASE_COST_def CPI_PER_ACCOUNT_COST_def
  CPI_PER_DATA_BYTE_COST_def MAX_CPI_DEPTH_def instruction_validate_def MAX_ACCOUNTS_PER_INSTRUCTION_def
  MAX_INSTRUCTION_DATA_SIZE_def consume_def meter_new_def compute_budget_default_def DEFAULT_COMPUTE_UNITS_def
  check_privilege_def borrow_meta_def tracker_defs

lemma cpi_demo: "\<exists>res cx'. invoke_cpi cpi_env (cpi_req [meta_signer_writable 11, meta_readonly 12]) cpi_cx = (Inr res, cx')"
  by (simp add: invoke_cpi_def cpi_run_defs cpi_frame_def cpi_enter_def cpi_callee_def find_program_def invoke_program_def)

lemma cpi_cx_small: "tracker_small MAX_ACCOUNTS_PER_INSTRUCTION (cx_borrow_tracker cpi_cx)"
  by (simp add: tracker_small_def cpi_cx_def context_new_def entry_or_default_def borrow_default_def
      MAX_ACCOUNTS_PER_INSTRUCTION_def)

text \<open>The program 50 was given account 12 only; account 11 belongs to the instruction of another program of the transaction. It passes 11 on as writable and as a signer
  all the same.\<close>

definition cpi_two_ixs :: "instruction list" where
  "cpi_two_ixs = [instruction_new 40 [meta_signer_writable 11] [], instruction_new 50 [meta_writable 12] []]"

lemma cpi_two_metas:
  "cx_account_metas cpi_cx = cx_account_metas (load_accounts b (transaction_metas cpi_two_ixs 11) (context_new 1 2 3 11 compute_budget_default))"
  by (simp add: load_accounts_metas cpi_cx_def context_new_def cpi_two_ixs_def transaction_metas_def instruction_new_def add_meta_def meta_new_def
      meta_signer_writable_def meta_writable_def fun_eq_iff)

lemma cpi_beyond_caller:
  "last (cx_call_chain cpi_cx) = 50 \<and> (\<forall>ix\<in>set cpi_two_ixs. ix_program_id ix = 50 \<longrightarrow> 11 \<notin> meta_pubkey ` set (ix_accounts ix))
    \<and> (\<exists>res cx'. invoke_cpi cpi_env (cpi_req [meta_signer_writable 11, meta_readonly 12]) cpi_cx = (Inr res, cx'))"
  using cpi_demo by (simp add: cpi_cx_def cpi_two_ixs_def instruction_new_def meta_signer_writable_def meta_writable_def)

theorem cpi_no_escalation_witness:
  "\<exists>res cx'. invoke_cpi cpi_env (cpi_req [meta_signer_writable 11, meta_readonly 12]) cpi_cx = (Inr res, cx')
    \<and> exclusive_metas [meta_signer_writable 11, meta_readonly 12] \<and> cx_cpi_depth cpi_cx < MAX_CPI_DEPTH"
proof -
  obtain res cx' where run: "invoke_cpi cpi_env (cpi_req [meta_signer_writable 11, meta_readonly 12]) cpi_cx = (Inr res, cx')"
    using cpi_demo by blast
  then show ?thesis using cpi_no_escalation [OF run cpi_cx_small cpi_two_metas] by (simp add: cpi_req_def instruction_new_def)
qed

theorem cpi_leaves_context_witness:
  "\<exists>res m t. invoke_cpi cpi_env (cpi_req [meta_signer_writable 11, meta_readonly 12]) cpi_cx
      = (Inr res, cpi_cx\<lparr>cx_meter := m, cx_borrow_tracker := t\<rparr>) \<and> tracker_eq t Map.empty"
proof -
  obtain res cx' where run: "invoke_cpi cpi_env (cpi_req [meta_signer_writable 11, meta_readonly 12]) cpi_cx = (Inr res, cx')"
    using cpi_demo by blast
  moreover have "cx_borrow_tracker cpi_cx = Map.empty" by (simp add: cpi_cx_def context_new_def)
  ultimately show ?thesis using cpi_leaves_context [OF run cpi_cx_small] by auto
qed

theorem cpi_refusal_leaks_borrows_witness:
  "\<exists>cx'. invoke_cpi cpi_env (cpi_req [meta_writable 11, meta_writable 99]) cpi_cx = (Inl AccountNotFound, cx')
    \<and> (\<exists>e cx''. invoke_cpi cpi_env (cpi_req [meta_readonly 11]) cx' = (Inl e, cx''))"
proof -
  let ?req = "cpi_req [meta_writable 11, meta_writable 99]"
  let ?m = "(meter_new compute_budget_default)\<lparr>remaining := 198900, consumed := 1100\<rparr>"
  have adm: "cpi_admitted cpi_env ?req cpi_cx {} ?m" by (simp add: cpi_admitted_def cpi_run_defs)
  have ok: "\<exists>bs t. borrow_metas (cx_account_metas cpi_cx) {} [meta_writable 11] [] (cx_borrow_tracker cpi_cx) = (Inr bs, t)"
    by (simp add: cpi_run_defs)
  then obtain bs t where bs: "borrow_metas (cx_account_metas cpi_cx) {} [meta_writable 11] [] (cx_borrow_tracker cpi_cx) = (Inr bs, t)"
    by blast
  have bad: "check_privilege (cx_account_metas cpi_cx) {} (meta_writable 99) = Inl AccountNotFound" by (simp add: cpi_run_defs)
  have ix: "ix_accounts (req_instruction ?req) = [meta_writable 11] @ meta_writable 99 # []"
    by (simp add: cpi_req_def instruction_new_def)
  show ?thesis
    using cpi_refusal_leaks_borrows [OF adm ix bs bad, of "meta_writable 11"]
    by (fastforce simp: cpi_req_def instruction_new_def meta_writable_def meta_readonly_def)
qed

text \<open>A callee that empties the account it may write and then fails.\<close>

definition rogue_callee :: "execution_context \<Rightarrow> unit program_result \<times> execution_context" where
  "rogue_callee cx = (Inl InsufficientFunds, cx\<lparr>cx_accounts := (cx_accounts cx)(11 \<mapsto> account_new 11),
     cx_events := snd (emit_event toy_crypto 77 5 [] 1 (cx_events cx)), cx_return_data := None\<rparr>)"

theorem cpi_failure_undone_witness:
  "\<exists>bs cx'. cpi_frame rogue_callee (instruction_new 77 [meta_writable 11] []) bs 0
      (cpi_cx\<lparr>cx_accounts := toy_bank, cx_borrow_tracker := [11 \<mapsto> \<lparr>immutable = 0, mutable = 1\<rparr>]\<rparr>)
      = (Inl InsufficientFunds, cx')
    \<and> cx_accounts cx' = toy_bank \<and> cx_events cx' = cx_events cpi_cx \<and> tracker_eq (cx_borrow_tracker cx') Map.empty"
proof -
  let ?ix = "instruction_new 77 [meta_writable 11] []"
  let ?cx = "cpi_cx\<lparr>cx_accounts := toy_bank, cx_borrow_tracker := [11 \<mapsto> \<lparr>immutable = 0, mutable = 1\<rparr>]\<rparr>"
  have bor: "borrow_metas [11 \<mapsto> meta_writable 11] {} (ix_accounts ?ix) [] Map.empty = (Inr [(11, True)], cx_borrow_tracker ?cx)"
    by (simp add: cpi_run_defs)
  have small: "tracker_small (length (ix_accounts ?ix)) Map.empty"
    by (simp add: tracker_small_def entry_or_default_def borrow_default_def instruction_new_def)
  have "later (cx_events ?cx) (snd (emit_event toy_crypto 77 5 [] 1 (cx_events ?cx)))"
    by (simp add: later_def emit_event_def Let_def)
  then have ok: "callee_ok ?ix ?cx (snd (rogue_callee (cpi_enter ?ix ?cx)))"
    by (auto simp: callee_ok_def rogue_callee_def cpi_enter_def instruction_new_def meta_writable_def toy_bank_def)
  show ?thesis
    using cpi_failure_undone [OF _ ok bor small, of rogue_callee InsufficientFunds 0]
    by (auto simp: rogue_callee_def)
qed

end
