(* ===== verification/Services.thy ===== *)
theory Services
  imports Token_Program Events
begin

text \<open>
  What the marketplace and the bot registry (\<^verbatim>\<open>crates/dchat-programs/src/marketplace.rs\<close> and \<^verbatim>\<open>bot_registry.rs\<close>) have in
  common: a processor returns events beside the changed accounts, and keeps its state in accounts as a fixed number of
  bytes that start with an eight-byte discriminator. A slice out of range panics in the source; the outcome is then
  \<open>None\<close>.
\<close>

section \<open>Outcomes\<close>

type_synonym service_outcome = "(program_event list program_result \<times> account list \<times> compute_meter) option"

definition fail :: "program_error \<Rightarrow> account list \<Rightarrow> compute_meter \<Rightarrow> service_outcome" where
  "fail e accs m = Some (Inl e, accs, m)"

definition pay :: "u64 \<Rightarrow> account list \<Rightarrow> compute_meter \<Rightarrow> (compute_meter \<Rightarrow> service_outcome) \<Rightarrow> service_outcome" where
  "pay units accs m k = (case consume units m of (Inl e, m') \<Rightarrow> fail e accs m' | (Inr _, m') \<Rightarrow> k m')"

definition attempt :: "'a program_result \<Rightarrow> account list \<Rightarrow> compute_meter \<Rightarrow> ('a \<Rightarrow> service_outcome) \<Rightarrow> service_outcome" where
  "attempt r accs m k = (case r of Inl e \<Rightarrow> fail e accs m | Inr x \<Rightarrow> k x)"

text \<open>\<^verbatim>\<open>xs[..n]\<close>\<close>

definition slice_to :: "nat \<Rightarrow> 'a list \<Rightarrow> 'a list option" where
  "slice_to n xs = (if length xs < n then None else Some (take n xs))"

definition compute_discriminator :: "crypto \<Rightarrow> string \<Rightarrow> u64" where
  "compute_discriminator c name = of_le_bytes (take 8 (as_bytes (blake3 c (string_bytes (''event:'' @ name)))))"

definition service_event :: "crypto \<Rightarrow> pubkey \<Rightarrow> string \<Rightarrow> u8 list option \<Rightarrow> program_event" where
  "service_event c program name bytes = \<lparr>ev_id = 0, ev_program_id = program, ev_discriminator = compute_discriminator c name,
     ev_data = (case bytes of None \<Rightarrow> [] | Some bs \<Rightarrow> bs), ev_slot = 0, ev_index = 0, ev_is_cpi = False, ev_cpi_depth = 0\<rparr>"

text \<open>\<^verbatim>\<open>data.len() > 0 && data[0] != 0\<close>\<close>

definition in_use :: "account \<Rightarrow> bool" where
  "in_use a = (case data_bytes (acc_data a) of [] \<Rightarrow> False | b # _ \<Rightarrow> b \<noteq> 0)"

lemma fail_not_ok [simp]: "fail e accs m \<noteq> Some (Inr x, accs', m')"
  by (simp add: fail_def)

lemma pay_ok:
  "pay units accs m k = Some (Inr x, accs', m') \<longleftrightarrow> (\<exists>m1. consume units m = (Inr (), m1) \<and> k m1 = Some (Inr x, accs', m'))"
  by (auto simp: pay_def split: prod.splits sum.splits)

lemma attempt_ok:
  "attempt r accs m k = Some (Inr x, accs', m') \<longleftrightarrow> (\<exists>y. r = Inr y \<and> k y = Some (Inr x, accs', m'))"
  by (auto simp: attempt_def split: sum.splits)

lemmas service_ok = pay_ok attempt_ok

section \<open>State with a discriminator\<close>

definition tagged_from_bytes :: "nat \<Rightarrow> u8 list \<Rightarrow> 'a codec \<Rightarrow> u8 list \<Rightarrow> 'a program_result" where
  "tagged_from_bytes width disc cd bs =
     (if length bs < width then Inl InvalidAccountData
      else if take 8 bs \<noteq> disc then Inl InvalidAccountData
      else case deserialize cd bs of None \<Rightarrow> Inl InvalidAccountData | Some x \<Rightarrow> Inr x)"

definition tagged_to_bytes :: "nat \<Rightarrow> 'a codec \<Rightarrow> 'a \<Rightarrow> u8 list" where
  "tagged_to_bytes width cd x = resize width 0 (case serialize cd x of None \<Rightarrow> [] | Some bs \<Rightarrow> bs)"

text \<open>The contract of the serializer on such a type: values have the fixed size and start with their discriminator.\<close>

locale tagged_state = bincode_codec "serialize cd" "deserialize cd" "\<lambda>_. width" valid
  for cd :: "'a codec" and width :: nat and valid :: "'a \<Rightarrow> bool" and tag_of :: "'a \<Rightarrow> u8 list" +
  assumes dec_starts: "deserialize cd bs = Some x \<Longrightarrow> take 8 bs = tag_of x"
begin

lemma starts: "valid x \<Longrightarrow> serialize cd x = Some bs \<Longrightarrow> take 8 bs = tag_of x"
  using dec_starts dec_exact by blast

lemma to_bytes_plain:
  assumes "valid x"
  shows "\<exists>bs. serialize cd x = Some bs \<and> tagged_to_bytes width cd x = bs \<and> length bs = width"
  using enc_total [OF assms] by (auto simp: tagged_to_bytes_def resize_pads)

lemma tagged_roundtrip:
  assumes "valid x" and "tag_of x = disc"
  shows "tagged_from_bytes width disc cd (tagged_to_bytes width cd x) = Inr x"
proof -
  obtain bs where "serialize cd x = Some bs" "tagged_to_bytes width cd x = bs" "length bs = width"
    using to_bytes_plain [OF assms(1)] by blast
  then show ?thesis using starts [OF assms(1)] dec_exact [OF assms(1)] assms(2) by (simp add: tagged_from_bytes_def)
qed

lemma tagged_valid: "tagged_from_bytes width disc cd bs = Inr x \<Longrightarrow> valid x \<and> tag_of x = disc"
  using dec_valid dec_starts by (auto simp: tagged_from_bytes_def split: if_splits option.splits)

text \<open>A stored value never looks unused when its discriminator does not start with zero.\<close>

lemma tagged_in_use:
  assumes "valid x" and "tag_of x = b # rest" and "b \<noteq> 0"
  shows "in_use (a\<lparr>acc_data := set_from_bytes (tagged_to_bytes width cd x) d\<rparr>)"
proof -
  obtain bs where bs: "serialize cd x = Some bs" "tagged_to_bytes width cd x = bs" "length bs = width"
    using to_bytes_plain [OF assms(1)] by blast
  then have "take 8 bs = b # rest" using starts [OF assms(1)] assms(2) by simp
  then show ?thesis using assms(3) by (cases bs) (simp_all add: in_use_def bs(2))
qed

end

text \<open>Zeroed data is not a value.\<close>

lemma tagged_from_bytes_zero:
  assumes "width \<ge> 8" and "disc = b # rest" and "b \<noteq> 0"
  shows "tagged_from_bytes width disc cd (replicate width 0) = Inl InvalidAccountData"
  using assms by (cases width) (simp_all add: tagged_from_bytes_def)

section \<open>Arrays in the documented encoding\<close>

fun d_array :: "nat \<Rightarrow> 'a decoder \<Rightarrow> 'a list decoder" where
  "d_array 0 d bs = Some ([], bs)"
| "d_array (Suc n) d bs = (case d bs of None \<Rightarrow> None
     | Some (x, r) \<Rightarrow> (case d_array n d r of None \<Rightarrow> None | Some (xs, r') \<Rightarrow> Some (x # xs, r')))"

definition e_array :: "('a \<Rightarrow> u8 list) \<Rightarrow> 'a list \<Rightarrow> u8 list" where
  "e_array e xs = concat (map e xs)"

lemma codec_array:
  assumes "prefix_codec e d (\<lambda>_. True)"
  shows "prefix_codec (e_array e) (d_array n d) (\<lambda>xs. length xs = n)"
proof (rule prefix_codecI)
  note codec = prefix_codecD [OF assms]
  fix xs and rest :: "u8 list"
  show "length xs = n \<Longrightarrow> d_array n d (e_array e xs @ rest) = Some (xs, rest)"
    by (induction n arbitrary: xs) (auto simp: e_array_def length_Suc_conv codec(1))
next
  note codec = prefix_codecD [OF assms]
  fix bs :: "u8 list" and xs r
  show "d_array n d bs = Some (xs, r) \<Longrightarrow> length xs = n \<and> bs = e_array e xs @ r"
  proof (induction n arbitrary: bs xs)
    case (Suc n)
    then obtain x q ys where "d bs = Some (x, q)" "d_array n d q = Some (ys, r)" "xs = x # ys"
      by (auto split: option.splits prod.splits)
    then show ?case using Suc.IH codec(2) by (fastforce simp: e_array_def)
  qed (simp add: e_array_def)
qed

lemma length_e_array: "(\<And>x. length (e x) = k) \<Longrightarrow> length (e_array e xs) = k * length xs"
  by (induction xs) (simp_all add: e_array_def)

text \<open>A prefix codec whose encodings have a fixed length and start with the discriminator meets the contract.\<close>

lemma prefix_codec_tagged:
  assumes "prefix_codec e d ok" and "\<And>x. ok x \<Longrightarrow> length (e x) = n" and "\<And>x. ok x \<Longrightarrow> take 8 (e x) = tag x" and "8 \<le> n"
  shows "tagged_state \<lparr>serialize = (\<lambda>x. Some (e x)), deserialize = (\<lambda>bs. map_option fst (d bs))\<rparr> n ok tag"
proof -
  have "bincode_codec (\<lambda>x. Some (e x)) (\<lambda>bs. map_option fst (d bs)) (\<lambda>_. n) ok"
    by (rule prefix_codec_bincode [OF assms(1,2)])
  moreover have "take 8 bs = tag x" if dec: "map_option fst (d bs) = Some x" for bs x
  proof -
    obtain r where "ok x" "bs = e x @ r" using dec prefix_codecD(2) [OF assms(1)] by auto
    then show ?thesis using assms(2,3,4) by simp
  qed
  ultimately show ?thesis by (simp add: tagged_state_def tagged_state_axioms_def)
qed

text \<open>Derived addresses under the toy hash, which is the length of its input and never on the curve.\<close>

lemma toy_pda:
  assumes "length seeds \<le> MAX_SEEDS" and "seeds_fit seeds"
  shows "find_program_address toy_crypto seeds p = Inr \<lparr>pda_address = of_nat (length (concat seeds) + 54), pda_bump = 255\<rparr>"
  using assms
  by (simp add: find_program_address_def validate_seeds_def all_bumps_Cons create_program_address_internal_def
      is_on_curve_def toy_crypto_def pda_preimage_def string_bytes_def length_as_bytes)

end
