(* ===== verification/Bot_Registry.thy ===== *)
theory Bot_Registry
  imports Services
begin

unbundle bit_operations_syntax

text \<open>
  The bot registry program, \<^verbatim>\<open>crates/dchat-programs/src/bot_registry.rs\<close>: bots with an owner and a signing key, capability
  grants, and the check other programs make. The encodings of its accounts, instructions and events are the fields of
  \<open>bot_codecs\<close>.
\<close>

section \<open>State\<close>

definition MAX_ALLOWED_MINTS :: nat where "MAX_ALLOWED_MINTS = 8"
definition BOT_DISCRIMINATOR :: "u8 list" where "BOT_DISCRIMINATOR = [0x62, 0x6f, 0x74, 0x5f, 0x5f, 0x5f, 0x5f, 0x5f]"
definition CAPABILITY_DISCRIMINATOR :: "u8 list" where
  "CAPABILITY_DISCRIMINATOR = [0x63, 0x61, 0x70, 0x5f, 0x5f, 0x5f, 0x5f, 0x5f]"
definition BOT_SEED :: "u8 list" where "BOT_SEED = string_bytes ''bot''"
definition CAPABILITY_SEED :: "u8 list" where "CAPABILITY_SEED = string_bytes ''capability''"
definition BOT_ACCOUNT_SIZE :: nat where "BOT_ACCOUNT_SIZE = 93"
definition CAPABILITY_ACCOUNT_SIZE :: nat where "CAPABILITY_ACCOUNT_SIZE = 363"

datatype bot_status = BotActive | BotSuspended

definition bot_status_from_u8 :: "u8 \<Rightarrow> bot_status option" where
  "bot_status_from_u8 v = (if v = 0 then Some BotActive else if v = 1 then Some BotSuspended else None)"

record bot_account =
  bot_discriminator :: "u8 list"
  bot_owner :: pubkey
  bot_signing_pubkey :: pubkey
  bot_status :: bot_status
  bot_created_slot :: u64
  bot_nonce :: u64
  bot_bump :: u8

record capability_grant =
  gr_discriminator :: "u8 list"
  gr_bot_id :: pubkey
  gr_target_program :: pubkey
  gr_allowed_actions :: u64
  gr_has_max_amount :: bool
  gr_max_amount :: u64
  gr_mint_count :: u8
  gr_allowed_mints :: "pubkey list"
  gr_expiry_slot :: u64
  gr_nonce :: u64
  gr_bump :: u8

datatype bot_instruction =
    RegisterBot pubkey u64
  | RotateBotKey pubkey u64
  | Suspend u64
  | Unsuspend u64
  | GrantCapability pubkey u64 "u64 option" "pubkey list" u64 u64
  | RevokeCapability u64
  | VerifyCapability pubkey u64 "pubkey option" "u64 option"

datatype bot_event =
    BotRegistered pubkey pubkey pubkey
  | BotKeyRotated pubkey pubkey pubkey
  | BotSuspendedEvent pubkey
  | BotUnsuspended pubkey
  | CapabilityGranted pubkey pubkey pubkey u64 u64
  | CapabilityRevoked pubkey pubkey
  | CapabilityVerified pubkey pubkey u64 bool

fun bot_event_name :: "bot_event \<Rightarrow> string" where
  "bot_event_name (BotRegistered _ _ _) = ''BotRegistered''"
| "bot_event_name (BotKeyRotated _ _ _) = ''BotKeyRotated''"
| "bot_event_name (BotSuspendedEvent _) = ''BotSuspended''"
| "bot_event_name (BotUnsuspended _) = ''BotUnsuspended''"
| "bot_event_name (CapabilityGranted _ _ _ _ _) = ''CapabilityGranted''"
| "bot_event_name (CapabilityRevoked _ _) = ''CapabilityRevoked''"
| "bot_event_name (CapabilityVerified _ _ _ _) = ''CapabilityVerified''"

record bot_codecs =
  bc_bot :: "bot_account codec"
  bc_grant :: "capability_grant codec"
  bc_instruction :: "bot_instruction codec"
  bc_event :: "bot_event \<Rightarrow> u8 list option"

definition bot_event_emit :: "crypto \<Rightarrow> bot_codecs \<Rightarrow> bot_event \<Rightarrow> program_event" where
  "bot_event_emit c cs e = service_event c BOT_REGISTRY_PROGRAM_ID (bot_event_name e) (bc_event cs e)"

definition bot_new :: "pubkey \<Rightarrow> pubkey \<Rightarrow> u64 \<Rightarrow> u8 \<Rightarrow> bot_account" where
  "bot_new ownr signing slot bmp = \<lparr>bot_discriminator = BOT_DISCRIMINATOR, bot_owner = ownr, bot_signing_pubkey = signing,
     bot_status = BotActive, bot_created_slot = slot, bot_nonce = 0, bot_bump = bmp\<rparr>"

definition bot_from_bytes :: "bot_codecs \<Rightarrow> u8 list \<Rightarrow> bot_account program_result" where
  "bot_from_bytes cs = tagged_from_bytes BOT_ACCOUNT_SIZE BOT_DISCRIMINATOR (bc_bot cs)"

definition bot_to_bytes :: "bot_codecs \<Rightarrow> bot_account \<Rightarrow> u8 list" where
  "bot_to_bytes cs = tagged_to_bytes BOT_ACCOUNT_SIZE (bc_bot cs)"

definition bot_is_active :: "bot_account \<Rightarrow> bool" where
  "bot_is_active b = (bot_status b = BotActive)"

definition bot_increment_nonce :: "bot_account \<Rightarrow> bot_account" where
  "bot_increment_nonce b = b\<lparr>bot_nonce := saturating_add (bot_nonce b) 1\<rparr>"

definition grant_new ::
    "pubkey \<Rightarrow> pubkey \<Rightarrow> u64 \<Rightarrow> u64 option \<Rightarrow> pubkey list \<Rightarrow> u64 \<Rightarrow> u8 \<Rightarrow> capability_grant program_result" where
  "grant_new bot_key target actions max_amount mints expiry bmp =
     (if MAX_ALLOWED_MINTS < length mints then Inl InvalidInstructionData
      else Inr \<lparr>gr_discriminator = CAPABILITY_DISCRIMINATOR, gr_bot_id = bot_key, gr_target_program = target,
        gr_allowed_actions = actions, gr_has_max_amount = (max_amount \<noteq> None),
        gr_max_amount = (case max_amount of None \<Rightarrow> 0 | Some a \<Rightarrow> a), gr_mint_count = of_nat (length mints),
        gr_allowed_mints = mints @ replicate (MAX_ALLOWED_MINTS - length mints) pubkey_zero,
        gr_expiry_slot = expiry, gr_nonce = 0, gr_bump = bmp\<rparr>)"

definition grant_from_bytes :: "bot_codecs \<Rightarrow> u8 list \<Rightarrow> capability_grant program_result" where
  "grant_from_bytes cs = tagged_from_bytes CAPABILITY_ACCOUNT_SIZE CAPABILITY_DISCRIMINATOR (bc_grant cs)"

definition grant_to_bytes :: "bot_codecs \<Rightarrow> capability_grant \<Rightarrow> u8 list" where
  "grant_to_bytes cs = tagged_to_bytes CAPABILITY_ACCOUNT_SIZE (bc_grant cs)"

definition grant_is_expired :: "u64 \<Rightarrow> capability_grant \<Rightarrow> bool" where
  "grant_is_expired slot g = (0 < gr_expiry_slot g \<and> gr_expiry_slot g \<le> slot)"

definition is_action_allowed :: "u64 \<Rightarrow> capability_grant \<Rightarrow> bool" where
  "is_action_allowed action g = (gr_allowed_actions g AND action \<noteq> 0)"

text \<open>\<open>None\<close> when the slice of the allowed mints is out of range.\<close>

definition is_mint_allowed :: "pubkey \<Rightarrow> capability_grant \<Rightarrow> bool option" where
  "is_mint_allowed mnt g =
     (if gr_mint_count g = 0 then Some True
      else map_option (\<lambda>ms. mnt \<in> set ms) (slice_to (unat (gr_mint_count g)) (gr_allowed_mints g)))"

definition is_amount_allowed :: "u64 \<Rightarrow> capability_grant \<Rightarrow> bool" where
  "is_amount_allowed amount g = (if \<not> gr_has_max_amount g then True else amount \<le> gr_max_amount g)"

section \<open>Verification\<close>

definition derive_bot_pda :: "crypto \<Rightarrow> pubkey \<Rightarrow> u64 \<Rightarrow> (pubkey \<times> u8) program_result" where
  "derive_bot_pda c ownr idx =
     map_sum id (\<lambda>pda. (pda_address pda, pda_bump pda))
       (find_program_address c [BOT_SEED, as_bytes ownr, le_bytes 8 idx] BOT_REGISTRY_PROGRAM_ID)"

definition derive_capability_pda :: "crypto \<Rightarrow> pubkey \<Rightarrow> pubkey \<Rightarrow> (pubkey \<times> u8) program_result" where
  "derive_capability_pda c bot_key target =
     map_sum id (\<lambda>pda. (pda_address pda, pda_bump pda))
       (find_program_address c [CAPABILITY_SEED, as_bytes bot_key, as_bytes target] BOT_REGISTRY_PROGRAM_ID)"

definition verify_bot_capability ::
    "bot_codecs \<Rightarrow> account \<Rightarrow> account \<Rightarrow> pubkey \<Rightarrow> pubkey \<Rightarrow> u64 \<Rightarrow> pubkey option \<Rightarrow> u64 option \<Rightarrow> u64
      \<Rightarrow> bool program_result option" where
  "verify_bot_capability cs bot_acc cap_acc bot_signer target action mnt amount slot =
     (case bot_from_bytes cs (data_bytes (acc_data bot_acc)) of
        Inl e \<Rightarrow> Some (Inl e)
      | Inr b \<Rightarrow>
         if \<not> bot_is_active b then Some (Inr False)
         else if bot_signer \<noteq> bot_signing_pubkey b then Some (Inr False)
         else case grant_from_bytes cs (data_bytes (acc_data cap_acc)) of
           Inl e \<Rightarrow> Some (Inl e)
         | Inr g \<Rightarrow>
            if gr_bot_id g \<noteq> acc_key bot_acc then Some (Inr False)
            else if gr_target_program g \<noteq> target then Some (Inr False)
            else if grant_is_expired slot g then Some (Inr False)
            else if \<not> is_action_allowed action g then Some (Inr False)
            else (let amount_ok = (case amount of None \<Rightarrow> True | Some a \<Rightarrow> is_amount_allowed a g) in
              case mnt of
                None \<Rightarrow> Some (Inr amount_ok)
              | Some k \<Rightarrow>
                 (case is_mint_allowed k g of
                    None \<Rightarrow> None
                  | Some ok \<Rightarrow> Some (Inr (ok \<and> amount_ok)))))"

section \<open>Handlers\<close>

definition with_bot :: "bot_codecs \<Rightarrow> account list \<Rightarrow> compute_meter \<Rightarrow> (bot_account \<Rightarrow> service_outcome) \<Rightarrow> service_outcome" where
  "with_bot cs accs m k = attempt (bot_from_bytes cs (data_bytes (acc_data (accs ! 1)))) accs m k"

definition set_bot :: "bot_codecs \<Rightarrow> bot_account \<Rightarrow> account \<Rightarrow> account" where
  "set_bot cs b a = a\<lparr>acc_data := set_from_bytes (bot_to_bytes cs b) (acc_data a)\<rparr>"

definition process_register_bot ::
    "crypto \<Rightarrow> bot_codecs \<Rightarrow> u64 \<Rightarrow> pubkey \<Rightarrow> u64 \<Rightarrow> account list \<Rightarrow> compute_meter \<Rightarrow> service_outcome" where
  "process_register_bot c cs slot signing nonce accs m = pay 5000 accs m (\<lambda>m.
     if length accs < 2 then fail NotEnoughAccountKeys accs m
     else if nonce \<noteq> 0 then fail (Custom 1) accs m
     else if in_use (accs ! 1) then fail AccountAlreadyInitialized accs m
     else attempt (derive_bot_pda c (acc_key (accs ! 0)) 0) accs m (\<lambda>(pda, bmp).
       if acc_key (accs ! 1) \<noteq> pda then fail InvalidSeeds accs m
       else Some (Inr [bot_event_emit c cs (BotRegistered (acc_key (accs ! 1)) (acc_key (accs ! 0)) signing)],
         accs[1 := (set_bot cs (bot_new (acc_key (accs ! 0)) signing slot bmp) (accs ! 1))
           \<lparr>acc_owner := BOT_REGISTRY_PROGRAM_ID\<rparr>], m)))"

definition process_rotate_key ::
    "crypto \<Rightarrow> bot_codecs \<Rightarrow> pubkey \<Rightarrow> u64 \<Rightarrow> account list \<Rightarrow> compute_meter \<Rightarrow> service_outcome" where
  "process_rotate_key c cs new_key nonce accs m = pay 3000 accs m (\<lambda>m.
     if length accs < 2 then fail NotEnoughAccountKeys accs m
     else with_bot cs accs m (\<lambda>b.
       if bot_nonce b \<noteq> nonce then fail (Custom 1) accs m
       else if bot_owner b \<noteq> acc_key (accs ! 0) then fail (Custom 2) accs m
       else Some (Inr [bot_event_emit c cs (BotKeyRotated (acc_key (accs ! 1)) (bot_signing_pubkey b) new_key)],
         accs[1 := set_bot cs (bot_increment_nonce (b\<lparr>bot_signing_pubkey := new_key\<rparr>)) (accs ! 1)], m)))"

definition process_suspend :: "crypto \<Rightarrow> bot_codecs \<Rightarrow> u64 \<Rightarrow> account list \<Rightarrow> compute_meter \<Rightarrow> service_outcome" where
  "process_suspend c cs nonce accs m = pay 3000 accs m (\<lambda>m.
     if length accs < 2 then fail NotEnoughAccountKeys accs m
     else with_bot cs accs m (\<lambda>b.
       if bot_nonce b \<noteq> nonce then fail (Custom 1) accs m
       else if bot_owner b \<noteq> acc_key (accs ! 0) then fail (Custom 2) accs m
       else if bot_status b = BotSuspended then fail (Custom 3) accs m
       else Some (Inr [bot_event_emit c cs (BotSuspendedEvent (acc_key (accs ! 1)))],
         accs[1 := set_bot cs (bot_increment_nonce (b\<lparr>bot_status := BotSuspended\<rparr>)) (accs ! 1)], m)))"

definition process_unsuspend :: "crypto \<Rightarrow> bot_codecs \<Rightarrow> u64 \<Rightarrow> account list \<Rightarrow> compute_meter \<Rightarrow> service_outcome" where
  "process_unsuspend c cs nonce accs m = pay 3000 accs m (\<lambda>m.
     if length accs < 2 then fail NotEnoughAccountKeys accs m
     else with_bot cs accs m (\<lambda>b.
       if bot_nonce b \<noteq> nonce then fail (Custom 1) accs m
       else if bot_owner b \<noteq> acc_key (accs ! 0) then fail (Custom 2) accs m
       else if bot_status b = BotActive then fail (Custom 4) accs m
       else Some (Inr [bot_event_emit c cs (BotUnsuspended (acc_key (accs ! 1)))],
         accs[1 := set_bot cs (bot_increment_nonce (b\<lparr>bot_status := BotActive\<rparr>)) (accs ! 1)], m)))"

definition set_grant :: "bot_codecs \<Rightarrow> capability_grant \<Rightarrow> account \<Rightarrow> account" where
  "set_grant cs g a = a\<lparr>acc_data := set_from_bytes (grant_to_bytes cs g) (acc_data a)\<rparr>"

definition process_grant_capability ::
    "crypto \<Rightarrow> bot_codecs \<Rightarrow> pubkey \<Rightarrow> u64 \<Rightarrow> u64 option \<Rightarrow> pubkey list \<Rightarrow> u64 \<Rightarrow> u64 \<Rightarrow> account list \<Rightarrow> compute_meter
      \<Rightarrow> service_outcome" where
  "process_grant_capability c cs target actions max_amount mints expiry nonce accs m = pay 8000 accs m (\<lambda>m.
     if length accs < 3 then fail NotEnoughAccountKeys accs m
     else with_bot cs accs m (\<lambda>b.
       if nonce \<noteq> 0 then fail (Custom 1) accs m
       else if bot_owner b \<noteq> acc_key (accs ! 0) then fail (Custom 2) accs m
       else if in_use (accs ! 2) then fail AccountAlreadyInitialized accs m
       else attempt (derive_capability_pda c (acc_key (accs ! 1)) target) accs m (\<lambda>(pda, bmp).
         if acc_key (accs ! 2) \<noteq> pda then fail InvalidSeeds accs m
         else attempt (grant_new (acc_key (accs ! 1)) target actions max_amount mints expiry bmp) accs m (\<lambda>g.
           Some (Inr [bot_event_emit c cs (CapabilityGranted (acc_key (accs ! 1)) (acc_key (accs ! 2)) target actions expiry)],
             accs[2 := (set_grant cs g (accs ! 2))\<lparr>acc_owner := BOT_REGISTRY_PROGRAM_ID\<rparr>], m)))))"

definition process_revoke_capability ::
    "crypto \<Rightarrow> bot_codecs \<Rightarrow> u64 \<Rightarrow> account list \<Rightarrow> compute_meter \<Rightarrow> service_outcome" where
  "process_revoke_capability c cs nonce accs m = pay 5000 accs m (\<lambda>m.
     if length accs < 3 then fail NotEnoughAccountKeys accs m
     else with_bot cs accs m (\<lambda>b.
       if bot_owner b \<noteq> acc_key (accs ! 0) then fail (Custom 2) accs m
       else attempt (grant_from_bytes cs (data_bytes (acc_data (accs ! 2)))) accs m (\<lambda>g.
         if gr_nonce g \<noteq> nonce then fail (Custom 1) accs m
         else if gr_bot_id g \<noteq> acc_key (accs ! 1) then fail (Custom 5) accs m
         else Some (Inr [bot_event_emit c cs (CapabilityRevoked (acc_key (accs ! 1)) (acc_key (accs ! 2)))],
           accs[2 := (accs ! 2)\<lparr>acc_data := set_from_bytes (replicate CAPABILITY_ACCOUNT_SIZE 0) (acc_data (accs ! 2))\<rparr>],
           m))))"

definition process_verify_capability ::
    "crypto \<Rightarrow> bot_codecs \<Rightarrow> u64 \<Rightarrow> pubkey \<Rightarrow> u64 \<Rightarrow> pubkey option \<Rightarrow> u64 option \<Rightarrow> account list \<Rightarrow> compute_meter
      \<Rightarrow> service_outcome" where
  "process_verify_capability c cs slot target action mnt amount accs m = pay 5000 accs m (\<lambda>m.
     if length accs < 3 then fail NotEnoughAccountKeys accs m
     else case verify_bot_capability cs (accs ! 1) (accs ! 2) (acc_key (accs ! 0)) target action mnt amount slot of
        None \<Rightarrow> None
      | Some r \<Rightarrow> attempt r accs m (\<lambda>ok.
          Some (Inr [bot_event_emit c cs (CapabilityVerified (acc_key (accs ! 1)) target action ok)], accs, m)))"

fun bot_execute :: "crypto \<Rightarrow> bot_codecs \<Rightarrow> u64 \<Rightarrow> bot_instruction \<Rightarrow> account list \<Rightarrow> compute_meter \<Rightarrow> service_outcome" where
  "bot_execute c cs slot (RegisterBot signing n) = process_register_bot c cs slot signing n"
| "bot_execute c cs slot (RotateBotKey k n) = process_rotate_key c cs k n"
| "bot_execute c cs slot (Suspend n) = process_suspend c cs n"
| "bot_execute c cs slot (Unsuspend n) = process_unsuspend c cs n"
| "bot_execute c cs slot (GrantCapability t a mx ms x n) = process_grant_capability c cs t a mx ms x n"
| "bot_execute c cs slot (RevokeCapability n) = process_revoke_capability c cs n"
| "bot_execute c cs slot (VerifyCapability t a mnt amt) = process_verify_capability c cs slot t a mnt amt"

definition bot_process :: "crypto \<Rightarrow> bot_codecs \<Rightarrow> u8 list \<Rightarrow> u64 \<Rightarrow> account list \<Rightarrow> compute_meter \<Rightarrow> service_outcome" where
  "bot_process c cs bytes slot accs m =
     (case deserialize (bc_instruction cs) bytes of
        None \<Rightarrow> fail InvalidInstructionData accs m
      | Some ix \<Rightarrow> bot_execute c cs slot ix accs m)"

section \<open>What the serializer must provide\<close>

definition bot_valid :: "bot_account \<Rightarrow> bool" where
  "bot_valid b \<longleftrightarrow> length (bot_discriminator b) = 8"

definition grant_valid :: "capability_grant \<Rightarrow> bool" where
  "grant_valid g \<longleftrightarrow> length (gr_discriminator g) = 8 \<and> length (gr_allowed_mints g) = MAX_ALLOWED_MINTS"

definition bot_codecs_ok :: "bot_codecs \<Rightarrow> bool" where
  "bot_codecs_ok cs \<longleftrightarrow> tagged_state (bc_bot cs) BOT_ACCOUNT_SIZE bot_valid bot_discriminator
     \<and> tagged_state (bc_grant cs) CAPABILITY_ACCOUNT_SIZE grant_valid gr_discriminator"

lemma bot_read:
  assumes "bot_codecs_ok cs" and "bot_from_bytes cs bs = Inr b"
  shows "bot_discriminator b = BOT_DISCRIMINATOR"
  using tagged_state.tagged_valid [of "bc_bot cs" BOT_ACCOUNT_SIZE bot_valid bot_discriminator BOT_DISCRIMINATOR bs b] assms
  by (simp add: bot_codecs_ok_def bot_from_bytes_def)

lemma bot_stored:
  assumes "bot_codecs_ok cs" and "bot_discriminator b = BOT_DISCRIMINATOR"
  shows "bot_from_bytes cs (bot_to_bytes cs b) = Inr b"
proof -
  have "tagged_state (bc_bot cs) BOT_ACCOUNT_SIZE bot_valid bot_discriminator"
    using assms(1) by (simp add: bot_codecs_ok_def)
  moreover have "bot_valid b" using assms(2) by (simp add: bot_valid_def BOT_DISCRIMINATOR_def)
  ultimately show ?thesis
    unfolding bot_from_bytes_def bot_to_bytes_def using assms(2) by (rule tagged_state.tagged_roundtrip)
qed

lemma bot_in_use: "bot_from_bytes cs (data_bytes (acc_data a)) = Inr b \<Longrightarrow> in_use a"
  by (cases "data_bytes (acc_data a)")
    (auto simp: bot_from_bytes_def tagged_from_bytes_def in_use_def BOT_DISCRIMINATOR_def BOT_ACCOUNT_SIZE_def
      split: if_splits option.splits)

lemma grant_stored:
  assumes "bot_codecs_ok cs" and "grant_new k target actions mx mints expiry bmp = Inr g"
  shows "grant_from_bytes cs (grant_to_bytes cs g) = Inr g"
proof -
  have "tagged_state (bc_grant cs) CAPABILITY_ACCOUNT_SIZE grant_valid gr_discriminator"
    using assms(1) by (simp add: bot_codecs_ok_def)
  moreover have "grant_valid g" "gr_discriminator g = CAPABILITY_DISCRIMINATOR"
    using assms(2) by (auto simp: grant_new_def grant_valid_def CAPABILITY_DISCRIMINATOR_def split: if_splits)
  ultimately show ?thesis
    unfolding grant_from_bytes_def grant_to_bytes_def by (rule tagged_state.tagged_roundtrip)
qed

lemma grant_zeroed: "grant_from_bytes cs (replicate CAPABILITY_ACCOUNT_SIZE 0) = Inl InvalidAccountData"
  unfolding grant_from_bytes_def
  by (rule tagged_from_bytes_zero [of _ _ "0x63" "[0x61, 0x70, 0x5f, 0x5f, 0x5f, 0x5f, 0x5f]"])
    (simp_all add: CAPABILITY_ACCOUNT_SIZE_def CAPABILITY_DISCRIMINATOR_def)

lemma zeroed_not_in_use: "\<not> in_use (a\<lparr>acc_data := set_from_bytes (replicate CAPABILITY_ACCOUNT_SIZE 0) d\<rparr>)"
  by (simp add: in_use_def CAPABILITY_ACCOUNT_SIZE_def numeral_eq_Suc)

lemma set_bot_bytes [simp]: "data_bytes (acc_data (set_bot cs b a)) = bot_to_bytes cs b"
  by (simp add: set_bot_def)

lemma set_grant_bytes [simp]: "data_bytes (acc_data (set_grant cs g a)) = grant_to_bytes cs g"
  by (simp add: set_grant_def)

section \<open>Theorems\<close>

text \<open>The bot as it may look after an instruction by \<open>caller\<close>.\<close>

definition bot_follows :: "pubkey \<Rightarrow> bot_account \<Rightarrow> bot_account \<Rightarrow> bool" where
  "bot_follows caller b b' \<longleftrightarrow> bot_owner b' = bot_owner b \<and> bot_created_slot b' = bot_created_slot b \<and> bot_bump b' = bot_bump b
     \<and> (b' = b \<or> caller = bot_owner b \<and> bot_nonce b' = saturating_add (bot_nonce b) 1)"

text \<open>A registered bot keeps its owner for good, and only that owner manages it: whatever registry instruction succeeds, on
  whatever accounts, the bot changes (key, status) only when the first account is its owner, with the nonce stepped by
  one; and a grant account next to it changes only then, too. Registering over an existing bot fails.\<close>

theorem bot_managed_by_owner:
  assumes "bot_codecs_ok cs" and "bot_execute c cs slot ix accs m = Some (Inr es, accs', m')"
    and "bot_from_bytes cs (data_bytes (acc_data (accs ! 1))) = Inr b"
  shows "length accs' = length accs \<and> acc_key (accs' ! 1) = acc_key (accs ! 1)
    \<and> (\<exists>b'. bot_from_bytes cs (data_bytes (acc_data (accs' ! 1))) = Inr b' \<and> bot_follows (acc_key (accs ! 0)) b b')
    \<and> (accs' ! 2 = accs ! 2 \<or> acc_key (accs ! 0) = bot_owner b)"
proof -
  note rules = service_ok with_bot_def bot_follows_def bot_increment_nonce_def set_bot_def
  have stored: "bot_from_bytes cs (bot_to_bytes cs x) = Inr x" if "bot_discriminator x = bot_discriminator b" for x
    using bot_stored [OF assms(1)] bot_read [OF assms(1,3)] that by simp
  show ?thesis
  proof (cases ix)
    case (RegisterBot k n)
    then show ?thesis
      using assms(2) bot_in_use [OF assms(3)] by (auto simp: process_register_bot_def rules split: if_splits prod.splits)
  next
    case (VerifyCapability t a mnt amt)
    then show ?thesis
      using assms(2,3) by (auto simp: process_verify_capability_def rules split: if_splits option.splits)
  next
    case (GrantCapability t a mx ms x n)
    then show ?thesis
      using assms(2,3) by (auto simp: process_grant_capability_def rules split: if_splits prod.splits)
  next
    case (RevokeCapability n)
    then show ?thesis
      using assms(2,3) by (auto simp: process_revoke_capability_def rules split: if_splits)
  qed (use assms(2,3) in \<open>auto simp: process_rotate_key_def process_suspend_def process_unsuspend_def rules stored split: if_splits\<close>)
qed

text \<open>A capability just granted is exactly what a check finds: for an active bot and its signing key, the target program of the
  grant, one of the granted actions, before the expiry slot, a mint of the list if there is one and an amount up to the
  limit if there is one, and for nothing else. The check never panics on it.\<close>

theorem grant_then_verify:
  assumes "bot_codecs_ok cs" and "process_grant_capability c cs target actions mx mints expiry nonce accs m = Some (Inr es, accs', m')"
    and "bot_from_bytes cs (data_bytes (acc_data (accs ! 1))) = Inr b"
  shows "verify_bot_capability cs (accs' ! 1) (accs' ! 2) signer target' action mnt amt slot =
    Some (Inr (bot_is_active b \<and> signer = bot_signing_pubkey b \<and> target' = target \<and> \<not> (0 < expiry \<and> expiry \<le> slot)
      \<and> actions AND action \<noteq> 0 \<and> (case mnt of None \<Rightarrow> True | Some k \<Rightarrow> mints = [] \<or> k \<in> set mints)
      \<and> (case amt of None \<Rightarrow> True | Some a \<Rightarrow> (case mx of None \<Rightarrow> True | Some x \<Rightarrow> a \<le> x))))"
proof -
  obtain bmp g where g: "grant_new (acc_key (accs ! 1)) target actions mx mints expiry bmp = Inr g"
    and accs': "accs' = accs[2 := (set_grant cs g (accs ! 2))\<lparr>acc_owner := BOT_REGISTRY_PROGRAM_ID\<rparr>]" and len: "3 \<le> length accs"
    using assms(2,3) by (auto simp: process_grant_capability_def service_ok with_bot_def split: if_splits prod.splits)
  have read: "bot_from_bytes cs (data_bytes (acc_data (accs' ! 1))) = Inr b" "acc_key (accs' ! 1) = acc_key (accs ! 1)"
    "grant_from_bytes cs (data_bytes (acc_data (accs' ! 2))) = Inr g"
    using assms(3) len grant_stored [OF assms(1) g] by (simp_all add: accs')
  have fields: "gr_bot_id g = acc_key (accs ! 1)" "gr_target_program g = target" "gr_allowed_actions g = actions"
    "gr_expiry_slot g = expiry" "gr_has_max_amount g \<longleftrightarrow> mx \<noteq> None" "\<And>x. mx = Some x \<Longrightarrow> gr_max_amount g = x"
    and len_mints: "length mints \<le> 8" and mnts: "gr_mint_count g = of_nat (length mints)"
    "gr_allowed_mints g = mints @ replicate (8 - length mints) pubkey_zero"
    using g by (auto simp: grant_new_def MAX_ALLOWED_MINTS_def split: if_splits)
  have count: "unat (gr_mint_count g) = length mints" "gr_mint_count g = 0 \<longleftrightarrow> mints = []"
    using len_mints mnts(1) by (auto simp: unat_of_nat word_of_nat_eq_0_iff dest!: dvd_imp_le)
  have mint_ok: "is_mint_allowed k g = Some (mints = [] \<or> k \<in> set mints)" for k
    using count mnts(2) len_mints by (simp add: is_mint_allowed_def slice_to_def)
  show ?thesis
    unfolding verify_bot_capability_def
    using read fields mint_ok
    by (auto simp: grant_is_expired_def is_action_allowed_def is_amount_allowed_def Let_def split: option.splits)
qed

text \<open>Revoking a capability makes every later check of an active bot by its own key fail with an error, but frees the account
  again with the nonce at its start: the very same grant instruction, replayed, succeeds and restores the capability.\<close>

theorem revoked_grant_replayable:
  assumes "bot_codecs_ok cs" and "process_grant_capability c cs target actions mx mints expiry nonce accs m = Some (Inr es, accs1, m1)"
    and "process_revoke_capability c cs n accs1 m2 = Some (Inr es2, accs2, m3)"
    and "bot_from_bytes cs (data_bytes (acc_data (accs ! 1))) = Inr b" and "bot_is_active b"
    and "consume 8000 m4 = (Inr (), m5)"
  shows "verify_bot_capability cs (accs2 ! 1) (accs2 ! 2) (bot_signing_pubkey b) target action mnt amt slot = Some (Inl InvalidAccountData)
    \<and> process_grant_capability c cs target actions mx mints expiry nonce accs2 m4 = Some (Inr es, accs1, m5)"
proof -
  let ?zero = "\<lambda>a. a\<lparr>acc_data := set_from_bytes (replicate CAPABILITY_ACCOUNT_SIZE 0) (acc_data a)\<rparr>"
  obtain bmp pda g where g: "grant_new (acc_key (accs ! 1)) target actions mx mints expiry bmp = Inr g"
    and pda: "derive_capability_pda c (acc_key (accs ! 1)) target = Inr (pda, bmp)" "acc_key (accs ! 2) = pda"
    and basic: "nonce = 0" "bot_owner b = acc_key (accs ! 0)" "3 \<le> length accs"
    and es: "es = [bot_event_emit c cs (CapabilityGranted (acc_key (accs ! 1)) (acc_key (accs ! 2)) target actions expiry)]"
    and accs1: "accs1 = accs[2 := (set_grant cs g (accs ! 2))\<lparr>acc_owner := BOT_REGISTRY_PROGRAM_ID\<rparr>]"
    using assms(2,4) by (auto simp: process_grant_capability_def service_ok with_bot_def split: if_splits prod.splits)
  have accs2: "accs2 = accs1[2 := ?zero (accs1 ! 2)]"
    using assms(3) by (auto simp: process_revoke_capability_def service_ok with_bot_def split: if_splits)
  have at: "accs2 ! 0 = accs ! 0" "accs2 ! 1 = accs ! 1" "length accs2 = length accs" "acc_key (accs2 ! 2) = acc_key (accs ! 2)"
    "data_bytes (acc_data (accs2 ! 2)) = replicate CAPABILITY_ACCOUNT_SIZE 0" "\<not> in_use (accs2 ! 2)"
    using basic(3) zeroed_not_in_use by (simp_all add: accs2 accs1 set_grant_def)
  have again: "accs2[2 := (set_grant cs g (accs2 ! 2))\<lparr>acc_owner := BOT_REGISTRY_PROGRAM_ID\<rparr>] = accs1"
    using basic(3) by (simp add: accs2 accs1 set_grant_def set_from_bytes_def)
  have "verify_bot_capability cs (accs2 ! 1) (accs2 ! 2) (bot_signing_pubkey b) target action mnt amt slot = Some (Inl InvalidAccountData)"
    using assms(4,5) by (simp add: verify_bot_capability_def at grant_zeroed del: One_nat_def)
  moreover have "process_grant_capability c cs target actions mx mints expiry nonce accs2 m4 = Some (Inr es, accs1, m5)"
    using assms(4,6) basic pda g again es
    by (simp add: process_grant_capability_def pay_def attempt_def with_bot_def at del: One_nat_def)
  ultimately show ?thesis by blast
qed

section \<open>The documented encoding meets the laws\<close>

definition status_tags :: "(bot_status \<times> u32) list" where
  "status_tags = [(BotActive, 0), (BotSuspended, 1)]"

lemma codec_status: "prefix_codec (e_tag status_tags) (d_tag status_tags) (\<lambda>_. True)"
proof (rule codec_tag)
  show "s \<in> fst ` set status_tags" for s by (cases s) (simp_all add: status_tags_def)
qed (simp_all add: status_tags_def)

type_synonym bot_fields = "u8 list \<times> pubkey \<times> pubkey \<times> bot_status \<times> u64 \<times> u64 \<times> u8"

definition bot_tuple :: "bot_account \<Rightarrow> bot_fields" where
  "bot_tuple b = (bot_discriminator b, bot_owner b, bot_signing_pubkey b, bot_status b, bot_created_slot b, bot_nonce b, bot_bump b)"

fun bot_untuple :: "bot_fields \<Rightarrow> bot_account" where
  "bot_untuple (d, w, k, s, t, n, p) = \<lparr>bot_discriminator = d, bot_owner = w, bot_signing_pubkey = k, bot_status = s,
     bot_created_slot = t, bot_nonce = n, bot_bump = p\<rparr>"

lemma bot_tuple_inverse: "bot_untuple (bot_tuple b) = b" "bot_tuple (bot_untuple p) = p"
  by (simp add: bot_tuple_def) (cases p rule: bot_untuple.cases, simp add: bot_tuple_def)

definition e_bot :: "bot_account \<Rightarrow> u8 list" where
  "e_bot = e_pair (\<lambda>x. x) (e_pair as_bytes (e_pair as_bytes (e_pair (e_tag status_tags) (e_pair (le_bytes 8)
     (e_pair (le_bytes 8) (le_bytes 1)))))) \<circ> bot_tuple"

definition d_bot :: "bot_account decoder" where
  "d_bot = d_map bot_untuple (d_pair (d_bytes 8) (d_pair d_key (d_pair d_key (d_pair (d_tag status_tags) (d_pair (d_word 8)
     (d_pair (d_word 8) (d_word 1)))))))"

lemma codec_bot: "prefix_codec e_bot d_bot bot_valid"
proof -
  have fields: "prefix_codec
      (e_pair (\<lambda>x. x) (e_pair as_bytes (e_pair as_bytes (e_pair (e_tag status_tags) (e_pair (le_bytes 8) (e_pair (le_bytes 8) (le_bytes 1)))))))
      (d_pair (d_bytes 8) (d_pair d_key (d_pair d_key (d_pair (d_tag status_tags) (d_pair (d_word 8 :: u64 decoder)
        (d_pair (d_word 8 :: u64 decoder) (d_word 1 :: u8 decoder)))))))
      (\<lambda>(d, r). length d = 8)"
    using codec_pair [OF codec_bytes [of 8] codec_pair [OF codec_key codec_pair [OF codec_key codec_pair [OF codec_status
      codec_pair [OF codec_word64 codec_pair [OF codec_word64 codec_word8]]]]]]
    by (simp add: case_prod_beta')
  have valid: "bot_valid = (\<lambda>(d, r). length d = 8) \<circ> bot_tuple" by (simp add: fun_eq_iff bot_valid_def bot_tuple_def)
  show ?thesis
    using codec_map [OF fields, of bot_untuple bot_tuple] unfolding valid e_bot_def d_bot_def by (simp add: bot_tuple_inverse)
qed

type_synonym grant_fields =
  "u8 list \<times> pubkey \<times> pubkey \<times> u64 \<times> bool \<times> u64 \<times> u8 \<times> pubkey list \<times> u64 \<times> u64 \<times> u8"

definition grant_tuple :: "capability_grant \<Rightarrow> grant_fields" where
  "grant_tuple g = (gr_discriminator g, gr_bot_id g, gr_target_program g, gr_allowed_actions g, gr_has_max_amount g,
     gr_max_amount g, gr_mint_count g, gr_allowed_mints g, gr_expiry_slot g, gr_nonce g, gr_bump g)"

fun grant_untuple :: "grant_fields \<Rightarrow> capability_grant" where
  "grant_untuple (d, b, t, a, h, mx, c, ms, x, n, p) = \<lparr>gr_discriminator = d, gr_bot_id = b, gr_target_program = t,
     gr_allowed_actions = a, gr_has_max_amount = h, gr_max_amount = mx, gr_mint_count = c, gr_allowed_mints = ms,
     gr_expiry_slot = x, gr_nonce = n, gr_bump = p\<rparr>"

lemma grant_tuple_inverse: "grant_untuple (grant_tuple g) = g" "grant_tuple (grant_untuple p) = p"
  by (simp add: grant_tuple_def) (cases p rule: grant_untuple.cases, simp add: grant_tuple_def)

definition e_grant :: "capability_grant \<Rightarrow> u8 list" where
  "e_grant = e_pair (\<lambda>x. x) (e_pair as_bytes (e_pair as_bytes (e_pair (le_bytes 8) (e_pair e_bool (e_pair (le_bytes 8)
     (e_pair (le_bytes 1) (e_pair (e_array as_bytes) (e_pair (le_bytes 8) (e_pair (le_bytes 8) (le_bytes 1)))))))))) \<circ> grant_tuple"

definition d_grant :: "capability_grant decoder" where
  "d_grant = d_map grant_untuple (d_pair (d_bytes 8) (d_pair d_key (d_pair d_key (d_pair (d_word 8) (d_pair d_bool
     (d_pair (d_word 8) (d_pair (d_word 1) (d_pair (d_array 8 d_key) (d_pair (d_word 8) (d_pair (d_word 8) (d_word 1)))))))))))"

lemma codec_grant: "prefix_codec e_grant d_grant grant_valid"
proof -
  have fields: "prefix_codec
      (e_pair (\<lambda>x. x) (e_pair as_bytes (e_pair as_bytes (e_pair (le_bytes 8) (e_pair e_bool (e_pair (le_bytes 8)
        (e_pair (le_bytes 1) (e_pair (e_array as_bytes) (e_pair (le_bytes 8) (e_pair (le_bytes 8) (le_bytes 1)))))))))))
      (d_pair (d_bytes 8) (d_pair d_key (d_pair d_key (d_pair (d_word 8 :: u64 decoder) (d_pair d_bool
        (d_pair (d_word 8 :: u64 decoder) (d_pair (d_word 1 :: u8 decoder) (d_pair (d_array 8 d_key) (d_pair (d_word 8 :: u64 decoder)
        (d_pair (d_word 8 :: u64 decoder) (d_word 1 :: u8 decoder)))))))))))
      (\<lambda>(d, b, t, a, h, mx, c, ms, r). length d = 8 \<and> length ms = 8)"
    using codec_pair [OF codec_bytes [of 8] codec_pair [OF codec_key codec_pair [OF codec_key codec_pair [OF codec_word64
      codec_pair [OF codec_bool codec_pair [OF codec_word64 codec_pair [OF codec_word8 codec_pair [OF codec_array [OF codec_key, of 8]
      codec_pair [OF codec_word64 codec_pair [OF codec_word64 codec_word8]]]]]]]]]]
    by (simp add: case_prod_beta')
  have valid: "grant_valid = (\<lambda>(d, b, t, a, h, mx, c, ms, r). length d = 8 \<and> length ms = 8) \<circ> grant_tuple"
    by (simp add: fun_eq_iff grant_valid_def grant_tuple_def MAX_ALLOWED_MINTS_def)
  show ?thesis
    using codec_map [OF fields, of grant_untuple grant_tuple] unfolding valid e_grant_def d_grant_def
    by (simp add: grant_tuple_inverse)
qed

definition bot_bincode :: bot_codecs where
  "bot_bincode = \<lparr>
     bc_bot = \<lparr>serialize = (\<lambda>x. Some (e_bot x)), deserialize = (\<lambda>bs. map_option fst (d_bot bs))\<rparr>,
     bc_grant = \<lparr>serialize = (\<lambda>x. Some (e_grant x)), deserialize = (\<lambda>bs. map_option fst (d_grant bs))\<rparr>,
     bc_instruction = \<lparr>serialize = (\<lambda>_. None), deserialize = (\<lambda>_. None)\<rparr>, bc_event = (\<lambda>_. None)\<rparr>"

interpretation bot_bin: tagged_state "bc_bot bot_bincode" BOT_ACCOUNT_SIZE bot_valid bot_discriminator
proof (unfold bot_bincode_def bot_codecs.simps, rule prefix_codec_tagged [OF codec_bot])
  show "bot_valid x \<Longrightarrow> length (e_bot x) = BOT_ACCOUNT_SIZE" for x
    by (simp add: bot_valid_def e_bot_def bot_tuple_def e_pair_def length_as_bytes BOT_ACCOUNT_SIZE_def)
  show "bot_valid x \<Longrightarrow> take 8 (e_bot x) = bot_discriminator x" for x
    by (simp add: bot_valid_def e_bot_def bot_tuple_def e_pair_def)
qed (simp add: BOT_ACCOUNT_SIZE_def)

interpretation grant_bin: tagged_state "bc_grant bot_bincode" CAPABILITY_ACCOUNT_SIZE grant_valid gr_discriminator
proof (unfold bot_bincode_def bot_codecs.simps, rule prefix_codec_tagged [OF codec_grant])
  show "grant_valid x \<Longrightarrow> length (e_grant x) = CAPABILITY_ACCOUNT_SIZE" for x
    by (simp add: grant_valid_def e_grant_def grant_tuple_def e_pair_def length_as_bytes length_e_array [OF length_as_bytes]
        e_bool_def MAX_ALLOWED_MINTS_def CAPABILITY_ACCOUNT_SIZE_def)
  show "grant_valid x \<Longrightarrow> take 8 (e_grant x) = gr_discriminator x" for x
    by (simp add: grant_valid_def e_grant_def grant_tuple_def e_pair_def)
qed (simp add: CAPABILITY_ACCOUNT_SIZE_def)

lemma bot_bincode_ok: "bot_codecs_ok bot_bincode"
  using bot_bin.tagged_state_axioms grant_bin.tagged_state_axioms
    bot_bin.bincode_codec_axioms grant_bin.bincode_codec_axioms
  by (simp add: bot_codecs_ok_def tagged_state_def)

section \<open>Witnesses\<close>

definition demo_bot :: bot_account where
  "demo_bot = bot_new 11 33 5 255"

definition demo_bot_accounts :: "account list" where
  "demo_bot_accounts = [account_new 11, set_bot bot_bincode demo_bot (account_new 97), account_new 128]"

lemma demo_bot_read: "bot_from_bytes bot_bincode (data_bytes (acc_data (demo_bot_accounts ! 1))) = Inr demo_bot"
  using bot_stored [OF bot_bincode_ok, of demo_bot] by (simp add: demo_bot_accounts_def demo_bot_def bot_new_def)

lemma demo_capability_pda: "derive_capability_pda toy_crypto 97 t = Inr (128, 255)"
  using toy_pda [of "[CAPABILITY_SEED, as_bytes 97, as_bytes t]" BOT_REGISTRY_PROGRAM_ID]
  by (simp add: derive_capability_pda_def CAPABILITY_SEED_def string_bytes_def length_as_bytes MAX_SEEDS_def MAX_SEED_LEN_def)

abbreviation demo_units :: "u64 \<Rightarrow> compute_meter" where
  "demo_units n \<equiv> (meter_new compute_budget_default)\<lparr>remaining := 200000 - n, consumed := n\<rparr>"

lemma demo_grant:
  "\<exists>es accs' m'. process_grant_capability toy_crypto bot_bincode MARKETPLACE_PROGRAM_ID 1 (Some 500) [7] 0 0 demo_bot_accounts (demo_units 0)
     = Some (Inr es, accs', m') \<and> acc_key (accs' ! 0) = 11 \<and> acc_key (accs' ! 1) = 97 \<and> length accs' = 3
       \<and> accs' ! 1 = demo_bot_accounts ! 1"
proof -
  have keys: "acc_key (demo_bot_accounts ! 0) = 11" "acc_key (demo_bot_accounts ! 1) = 97" "acc_key (demo_bot_accounts ! 2) = 128"
    "length demo_bot_accounts = 3" "\<not> in_use (demo_bot_accounts ! 2)"
    by (simp_all add: demo_bot_accounts_def set_bot_def account_new_def in_use_def data_new_def)
  have "bot_owner demo_bot = 11" by (simp add: demo_bot_def bot_new_def)
  then show ?thesis
    using keys demo_bot_read
    by (simp add: process_grant_capability_def pay_def consume_def with_bot_def attempt_def demo_capability_pda grant_new_def
        MAX_ALLOWED_MINTS_def set_grant_def del: One_nat_def)
qed

theorem grant_then_verify_witness:
  "\<exists>es accs' m'. process_grant_capability toy_crypto bot_bincode MARKETPLACE_PROGRAM_ID 1 (Some 500) [7] 0 0 demo_bot_accounts (demo_units 0)
      = Some (Inr es, accs', m')
    \<and> verify_bot_capability bot_bincode (accs' ! 1) (accs' ! 2) 33 MARKETPLACE_PROGRAM_ID 1 (Some 7) (Some 500) 9 = Some (Inr True)
    \<and> verify_bot_capability bot_bincode (accs' ! 1) (accs' ! 2) 33 MARKETPLACE_PROGRAM_ID 1 (Some 7) (Some 501) 9 = Some (Inr False)"
proof -
  obtain es accs' m' where run: "process_grant_capability toy_crypto bot_bincode MARKETPLACE_PROGRAM_ID 1 (Some 500) [7] 0 0
      demo_bot_accounts (demo_units 0) = Some (Inr es, accs', m')" using demo_grant by blast
  show ?thesis
    using grant_then_verify [OF bot_bincode_ok run demo_bot_read] run
    by (simp add: demo_bot_def bot_new_def bot_is_active_def del: One_nat_def)
qed

theorem revoked_grant_replayable_witness:
  "\<exists>es accs1 m1 es2 accs2 m3. process_grant_capability toy_crypto bot_bincode MARKETPLACE_PROGRAM_ID 1 (Some 500) [7] 0 0 demo_bot_accounts
      (demo_units 0) = Some (Inr es, accs1, m1)
    \<and> process_revoke_capability toy_crypto bot_bincode 0 accs1 (demo_units 0) = Some (Inr es2, accs2, m3)
    \<and> process_grant_capability toy_crypto bot_bincode MARKETPLACE_PROGRAM_ID 1 (Some 500) [7] 0 0 accs2 (demo_units 0)
      = Some (Inr es, accs1, demo_units 8000)"
proof -
  obtain es accs1 m1 where run: "process_grant_capability toy_crypto bot_bincode MARKETPLACE_PROGRAM_ID 1 (Some 500) [7] 0 0
      demo_bot_accounts (demo_units 0) = Some (Inr es, accs1, m1)"
    and at: "acc_key (accs1 ! 0) = 11" "acc_key (accs1 ! 1) = 97" "length accs1 = 3" "accs1 ! 1 = demo_bot_accounts ! 1"
    using demo_grant by blast
  obtain g bmp where new: "grant_new 97 MARKETPLACE_PROGRAM_ID 1 (Some 500) [7] 0 bmp = Inr g"
    and "data_bytes (acc_data (accs1 ! 2)) = grant_to_bytes bot_bincode g"
    using run demo_bot_read at
    by (auto simp: process_grant_capability_def service_ok with_bot_def demo_bot_accounts_def set_bot_def account_new_def
        split: if_splits prod.splits)
  then have g: "grant_from_bytes bot_bincode (data_bytes (acc_data (accs1 ! 2))) = Inr g"
    using grant_stored [OF bot_bincode_ok new] by simp
  have fresh: "gr_nonce g = 0" "gr_bot_id g = 97" using new by (auto simp: grant_new_def split: if_splits)
  have "bot_owner demo_bot = 11" by (simp add: demo_bot_def bot_new_def)
  then obtain es2 accs2 m3 where rev: "process_revoke_capability toy_crypto bot_bincode 0 accs1 (demo_units 0) = Some (Inr es2, accs2, m3)"
    using at demo_bot_read g fresh
    by (simp add: process_revoke_capability_def pay_def consume_def with_bot_def attempt_def del: One_nat_def)
  have act: "bot_is_active demo_bot" by (simp add: demo_bot_def bot_new_def bot_is_active_def)
  have units: "consume 8000 (demo_units 0) = (Inr (), demo_units 8000)" by (simp add: consume_def)
  show ?thesis
    using revoked_grant_replayable [OF bot_bincode_ok run rev demo_bot_read act units] run rev by blast
qed

theorem bot_managed_by_owner_witness:
  "\<exists>es accs' m' b'. bot_execute toy_crypto bot_bincode 9 (Suspend 0) demo_bot_accounts (demo_units 0) = Some (Inr es, accs', m')
    \<and> bot_from_bytes bot_bincode (data_bytes (acc_data (accs' ! 1))) = Inr b' \<and> bot_follows 11 demo_bot b'"
proof -
  have keys: "acc_key (demo_bot_accounts ! 0) = 11" "length demo_bot_accounts = 3"
    by (simp_all add: demo_bot_accounts_def account_new_def)
  have "bot_owner demo_bot = 11" "bot_nonce demo_bot = 0" "bot_status demo_bot = BotActive" by (simp_all add: demo_bot_def bot_new_def)
  then obtain es accs' m' where run: "bot_execute toy_crypto bot_bincode 9 (Suspend 0) demo_bot_accounts (demo_units 0) = Some (Inr es, accs', m')"
    using keys demo_bot_read by (simp add: process_suspend_def pay_def consume_def with_bot_def attempt_def del: One_nat_def)
  then show ?thesis using bot_managed_by_owner [OF bot_bincode_ok run demo_bot_read] keys(1) by auto
qed

end
