(* ===== verification/Marketplace.thy ===== *)
theory Marketplace
  imports Bot_Registry
begin

unbundle bit_operations_syntax

text \<open>
  The marketplace program, \<^verbatim>\<open>crates/dchat-programs/src/marketplace.rs\<close>: listings, escrows with their state machine, the
  payout of the vault, and disputes, which a bot with a capability may resolve. Additions without a check wrap, as in the
  release profile. A \<^verbatim>\<open>String\<close> is the list of its bytes. The encodings are the fields of \<open>market_codecs\<close>.
\<close>

section \<open>State of an escrow\<close>

definition MAX_RECIPIENTS :: nat where "MAX_RECIPIENTS = 8"
definition MAX_TITLE_LENGTH :: nat where "MAX_TITLE_LENGTH = 128"
definition MAX_DESCRIPTION_LENGTH :: nat where "MAX_DESCRIPTION_LENGTH = 512"
definition ESCROW_DISCRIMINATOR :: "u8 list" where
  "ESCROW_DISCRIMINATOR = [0x65, 0x73, 0x63, 0x72, 0x6f, 0x77, 0x5f, 0x5f]"
definition LISTING_DISCRIMINATOR :: "u8 list" where
  "LISTING_DISCRIMINATOR = [0x6c, 0x69, 0x73, 0x74, 0x69, 0x6e, 0x67, 0x5f]"
definition VAULT_SEED :: "u8 list" where "VAULT_SEED = string_bytes ''vault''"
definition ESCROW_SEED :: "u8 list" where "ESCROW_SEED = string_bytes ''escrow''"
definition ESCROW_ACCOUNT_SIZE :: nat where "ESCROW_ACCOUNT_SIZE = 471"
definition LISTING_ACCOUNT_SIZE :: nat where "LISTING_ACCOUNT_SIZE = 770"

datatype escrow_state = Locked | Delivered | Disputed | Released | Refunded | Expired

fun can_transition_to :: "escrow_state \<Rightarrow> escrow_state \<Rightarrow> bool" where
  "can_transition_to Locked Delivered = True"
| "can_transition_to Locked Disputed = True"
| "can_transition_to Locked Released = True"
| "can_transition_to Locked Refunded = True"
| "can_transition_to Locked Expired = True"
| "can_transition_to Delivered Disputed = True"
| "can_transition_to Delivered Released = True"
| "can_transition_to Delivered Expired = True"
| "can_transition_to Disputed Released = True"
| "can_transition_to Disputed Refunded = True"
| "can_transition_to _ _ = False"

definition is_terminal :: "escrow_state \<Rightarrow> bool" where
  "is_terminal s = (s = Released \<or> s = Refunded \<or> s = Expired)"

definition escrow_state_from_u8 :: "u8 \<Rightarrow> escrow_state option" where
  "escrow_state_from_u8 v = (if v = 0 then Some Locked else if v = 1 then Some Delivered else if v = 2 then Some Disputed
     else if v = 3 then Some Released else if v = 4 then Some Refunded else if v = 5 then Some Expired else None)"

record recipient_split =
  rs_pubkey :: pubkey
  rs_share_bps :: u64

record escrow_account =
  esc_discriminator :: "u8 list"
  esc_buyer :: pubkey
  esc_recipient_count :: u8
  esc_recipients :: "recipient_split list"
  esc_mint :: pubkey
  esc_amount :: u64
  esc_state :: escrow_state
  esc_created_slot :: u64
  esc_expiry_slot :: u64
  esc_has_dispute :: bool
  esc_dispute_resolver :: pubkey
  esc_dispute_slot :: u64
  esc_nonce :: u64
  esc_bump :: u8

definition no_recipient :: recipient_split where
  "no_recipient = \<lparr>rs_pubkey = pubkey_zero, rs_share_bps = 0\<rparr>"

definition escrow_new ::
    "pubkey \<Rightarrow> recipient_split list \<Rightarrow> pubkey \<Rightarrow> u64 \<Rightarrow> u64 \<Rightarrow> u64 \<Rightarrow> pubkey \<Rightarrow> u8 \<Rightarrow> escrow_account program_result" where
  "escrow_new buyer recipients mnt amount slot expiry resolver bmp =
     (if recipients = [] \<or> MAX_RECIPIENTS < length recipients then Inl InvalidInstructionData
      else if sum_list (map rs_share_bps recipients) \<noteq> 10000 then Inl (Custom 1)
      else Inr \<lparr>esc_discriminator = ESCROW_DISCRIMINATOR, esc_buyer = buyer, esc_recipient_count = of_nat (length recipients),
        esc_recipients = recipients @ replicate (MAX_RECIPIENTS - length recipients) no_recipient, esc_mint = mnt,
        esc_amount = amount, esc_state = Locked, esc_created_slot = slot, esc_expiry_slot = expiry, esc_has_dispute = False,
        esc_dispute_resolver = resolver, esc_dispute_slot = 0, esc_nonce = 0, esc_bump = bmp\<rparr>)"

text \<open>\<open>None\<close> when the count is beyond the array, where the slice panics.\<close>

definition active_recipients :: "escrow_account \<Rightarrow> recipient_split list option" where
  "active_recipients e = slice_to (unat (esc_recipient_count e)) (esc_recipients e)"

definition validate_transition :: "escrow_state \<Rightarrow> escrow_account \<Rightarrow> unit program_result" where
  "validate_transition next_state e =
     (if is_terminal (esc_state e) then Inl (Custom 2)
      else if \<not> can_transition_to (esc_state e) next_state then Inl (Custom 3)
      else Inr ())"

definition escrow_is_expired :: "u64 \<Rightarrow> escrow_account \<Rightarrow> bool" where
  "escrow_is_expired slot e = (0 < esc_expiry_slot e \<and> esc_expiry_slot e \<le> slot)"

definition escrow_increment_nonce :: "escrow_account \<Rightarrow> escrow_account" where
  "escrow_increment_nonce e = e\<lparr>esc_nonce := saturating_add (esc_nonce e) 1\<rparr>"

section \<open>Listings\<close>

record listing_account =
  lst_discriminator :: "u8 list"
  lst_creator :: pubkey
  lst_escrow :: pubkey
  lst_title :: "u8 list"
  lst_description :: "u8 list"
  lst_price :: u64
  lst_mint :: pubkey
  lst_is_active :: bool
  lst_created_slot :: u64
  lst_nonce :: u64
  lst_bump :: u8

definition listing_new :: "pubkey \<Rightarrow> u8 list \<Rightarrow> u8 list \<Rightarrow> u64 \<Rightarrow> pubkey \<Rightarrow> u64 \<Rightarrow> u8 \<Rightarrow> listing_account program_result" where
  "listing_new creator title description price mnt slot bmp =
     (if MAX_TITLE_LENGTH < length title \<or> MAX_DESCRIPTION_LENGTH < length description then Inl InvalidInstructionData
      else Inr \<lparr>lst_discriminator = LISTING_DISCRIMINATOR, lst_creator = creator, lst_escrow = pubkey_zero,
        lst_title = title @ replicate (MAX_TITLE_LENGTH - length title) 0,
        lst_description = description @ replicate (MAX_DESCRIPTION_LENGTH - length description) 0,
        lst_price = price, lst_mint = mnt, lst_is_active = True, lst_created_slot = slot, lst_nonce = 0, lst_bump = bmp\<rparr>)"

text \<open>\<^verbatim>\<open>std::str::from_utf8\<close>: the table of well-formed byte sequences of the Unicode standard, by the first byte.\<close>

definition utf8_width :: "u8 \<Rightarrow> nat" where
  "utf8_width a = (if a < 0x80 then 1 else if 0xC2 \<le> a \<and> a \<le> 0xDF then 2 else if 0xE0 \<le> a \<and> a \<le> 0xEF then 3
     else if 0xF0 \<le> a \<and> a \<le> 0xF4 then 4 else 0)"

definition continuation :: "u8 \<Rightarrow> bool" where
  "continuation b = (0x80 \<le> b \<and> b \<le> 0xBF)"

definition second_byte_ok :: "u8 \<Rightarrow> u8 \<Rightarrow> bool" where
  "second_byte_ok a b = (continuation b \<and> (a = 0xE0 \<longrightarrow> 0xA0 \<le> b) \<and> (a = 0xED \<longrightarrow> b \<le> 0x9F)
     \<and> (a = 0xF0 \<longrightarrow> 0x90 \<le> b) \<and> (a = 0xF4 \<longrightarrow> b \<le> 0x8F))"

definition utf8_sequence :: "u8 \<Rightarrow> u8 list \<Rightarrow> bool" where
  "utf8_sequence a bs = (0 < utf8_width a \<and> utf8_width a \<le> Suc (length bs)
     \<and> (case take (utf8_width a - 1) bs of [] \<Rightarrow> True | b # cs \<Rightarrow> second_byte_ok a b \<and> list_all continuation cs))"

fun from_utf8_ok :: "u8 list \<Rightarrow> bool" where
  "from_utf8_ok [] = True"
| "from_utf8_ok (a # bs) = (utf8_sequence a bs \<and> from_utf8_ok (drop (utf8_width a - 1) bs))"

definition text_of :: "u8 list \<Rightarrow> u8 list" where
  "text_of bs = (let s = takeWhile (\<lambda>b. b \<noteq> 0) bs in if from_utf8_ok s then s else [])"

definition title_str :: "listing_account \<Rightarrow> u8 list" where
  "title_str l = text_of (lst_title l)"

definition description_str :: "listing_account \<Rightarrow> u8 list" where
  "description_str l = text_of (lst_description l)"

section \<open>Instructions and events\<close>

datatype market_instruction =
    CreateListing "u8 list" "u8 list" u64 pubkey u64
  | CreateEscrow "recipient_split list" u64 u64 pubkey u64
  | MarkDelivered u64
  | Release u64
  | Refund u64
  | RaiseDispute u64
  | ResolveDispute bool u64

datatype market_event =
    ListingCreated pubkey pubkey u64 pubkey
  | EscrowCreated pubkey pubkey u64 pubkey u64
  | EscrowDelivered pubkey pubkey
  | EscrowReleased pubkey pubkey u64
  | EscrowRefunded pubkey pubkey u64
  | DisputeRaised pubkey pubkey
  | DisputeResolved pubkey pubkey bool bool

fun market_event_name :: "market_event \<Rightarrow> string" where
  "market_event_name (ListingCreated _ _ _ _) = ''ListingCreated''"
| "market_event_name (EscrowCreated _ _ _ _ _) = ''EscrowCreated''"
| "market_event_name (EscrowDelivered _ _) = ''EscrowDelivered''"
| "market_event_name (EscrowReleased _ _ _) = ''EscrowReleased''"
| "market_event_name (EscrowRefunded _ _ _) = ''EscrowRefunded''"
| "market_event_name (DisputeRaised _ _) = ''DisputeRaised''"
| "market_event_name (DisputeResolved _ _ _ _) = ''DisputeResolved''"

record market_codecs =
  mk_escrow :: "escrow_account codec"
  mk_listing :: "listing_account codec"
  mk_instruction :: "market_instruction codec"
  mk_event :: "market_event \<Rightarrow> u8 list option"
  mk_tokens :: token_codecs
  mk_bots :: bot_codecs

definition market_unpack :: "market_codecs \<Rightarrow> u8 list \<Rightarrow> market_instruction program_result" where
  "market_unpack cs bs = (case deserialize (mk_instruction cs) bs of None \<Rightarrow> Inl InvalidInstructionData | Some ix \<Rightarrow> Inr ix)"

definition market_pack :: "market_codecs \<Rightarrow> market_instruction \<Rightarrow> u8 list" where
  "market_pack cs ix = (case serialize (mk_instruction cs) ix of None \<Rightarrow> [] | Some bs \<Rightarrow> bs)"

definition market_event_emit :: "crypto \<Rightarrow> market_codecs \<Rightarrow> market_event \<Rightarrow> program_event" where
  "market_event_emit c cs e = service_event c MARKETPLACE_PROGRAM_ID (market_event_name e) (mk_event cs e)"

definition escrow_from_bytes :: "market_codecs \<Rightarrow> u8 list \<Rightarrow> escrow_account program_result" where
  "escrow_from_bytes cs = tagged_from_bytes ESCROW_ACCOUNT_SIZE ESCROW_DISCRIMINATOR (mk_escrow cs)"

definition escrow_to_bytes :: "market_codecs \<Rightarrow> escrow_account \<Rightarrow> u8 list" where
  "escrow_to_bytes cs = tagged_to_bytes ESCROW_ACCOUNT_SIZE (mk_escrow cs)"

definition listing_from_bytes :: "market_codecs \<Rightarrow> u8 list \<Rightarrow> listing_account program_result" where
  "listing_from_bytes cs = tagged_from_bytes LISTING_ACCOUNT_SIZE LISTING_DISCRIMINATOR (mk_listing cs)"

definition listing_to_bytes :: "market_codecs \<Rightarrow> listing_account \<Rightarrow> u8 list" where
  "listing_to_bytes cs = tagged_to_bytes LISTING_ACCOUNT_SIZE (mk_listing cs)"

section \<open>Addresses\<close>

definition derive_escrow_pda :: "crypto \<Rightarrow> pubkey \<Rightarrow> u64 \<Rightarrow> (pubkey \<times> u8) program_result" where
  "derive_escrow_pda c buyer nonce_seed =
     map_sum id (\<lambda>pda. (pda_address pda, pda_bump pda))
       (find_program_address c [ESCROW_SEED, as_bytes buyer, le_bytes 8 nonce_seed] MARKETPLACE_PROGRAM_ID)"

definition derive_vault_pda :: "crypto \<Rightarrow> pubkey \<Rightarrow> (pubkey \<times> u8) program_result" where
  "derive_vault_pda c escrow =
     map_sum id (\<lambda>pda. (pda_address pda, pda_bump pda))
       (find_program_address c [VAULT_SEED, as_bytes escrow] MARKETPLACE_PROGRAM_ID)"

definition derive_listing_pda :: "crypto \<Rightarrow> pubkey \<Rightarrow> u64 \<Rightarrow> (pubkey \<times> u8) program_result" where
  "derive_listing_pda c creator nonce_seed =
     map_sum id (\<lambda>pda. (pda_address pda, pda_bump pda))
       (find_program_address c [string_bytes ''listing'', as_bytes creator, le_bytes 8 nonce_seed] MARKETPLACE_PROGRAM_ID)"

section \<open>Handlers\<close>

definition set_escrow :: "market_codecs \<Rightarrow> escrow_account \<Rightarrow> account \<Rightarrow> account" where
  "set_escrow cs e a = a\<lparr>acc_data := set_from_bytes (escrow_to_bytes cs e) (acc_data a)\<rparr>"

definition set_listing :: "market_codecs \<Rightarrow> listing_account \<Rightarrow> account \<Rightarrow> account" where
  "set_listing cs l a = a\<lparr>acc_data := set_from_bytes (listing_to_bytes cs l) (acc_data a)\<rparr>"

definition read_escrow :: "market_codecs \<Rightarrow> account list \<Rightarrow> nat \<Rightarrow> escrow_account program_result" where
  "read_escrow cs accs i = escrow_from_bytes cs (data_bytes (acc_data (accs ! i)))"

definition read_token :: "market_codecs \<Rightarrow> account list \<Rightarrow> nat \<Rightarrow> token_account program_result" where
  "read_token cs accs i = token_from_bytes (account_codec (mk_tokens cs)) (data_bytes (acc_data (accs ! i)))"

abbreviation write_token :: "market_codecs \<Rightarrow> nat \<Rightarrow> token_account \<Rightarrow> account list \<Rightarrow> account list" where
  "write_token cs i y accs \<equiv> accs[i := set_token (mk_tokens cs) y (accs ! i)]"

abbreviation write_escrow :: "market_codecs \<Rightarrow> nat \<Rightarrow> escrow_account \<Rightarrow> account list \<Rightarrow> account list" where
  "write_escrow cs i e accs \<equiv> accs[i := set_escrow cs e (accs ! i)]"

definition process_create_listing ::
    "crypto \<Rightarrow> market_codecs \<Rightarrow> u64 \<Rightarrow> u8 list \<Rightarrow> u8 list \<Rightarrow> u64 \<Rightarrow> pubkey \<Rightarrow> u64 \<Rightarrow> account list \<Rightarrow> compute_meter
      \<Rightarrow> service_outcome" where
  "process_create_listing c cs slot title description price mnt nonce accs m = pay 5000 accs m (\<lambda>m.
     if length accs < 2 then fail NotEnoughAccountKeys accs m
     else if nonce \<noteq> 0 then fail (Custom 4) accs m
     else if in_use (accs ! 1) then fail AccountAlreadyInitialized accs m
     else attempt (derive_listing_pda c (acc_key (accs ! 0)) 0) accs m (\<lambda>(pda, bmp).
       if acc_key (accs ! 1) \<noteq> pda then fail InvalidSeeds accs m
       else attempt (listing_new (acc_key (accs ! 0)) title description price mnt slot bmp) accs m (\<lambda>l.
         Some (Inr [market_event_emit c cs (ListingCreated (acc_key (accs ! 1)) (acc_key (accs ! 0)) price mnt)],
           accs[1 := (set_listing cs l (accs ! 1))\<lparr>acc_owner := MARKETPLACE_PROGRAM_ID\<rparr>], m))))"

definition vault_new :: "pubkey \<Rightarrow> pubkey \<Rightarrow> u64 \<Rightarrow> token_account" where
  "vault_new mnt escrow amount = \<lparr>ta_mint = mnt, ta_owner = escrow, ta_amount = amount, ta_delegate = None,
     ta_delegated_amount = 0, ta_state = TokInitialized, ta_is_native = None, ta_close_authority = None\<rparr>"

definition process_create_escrow ::
    "crypto \<Rightarrow> market_codecs \<Rightarrow> u64 \<Rightarrow> recipient_split list \<Rightarrow> u64 \<Rightarrow> u64 \<Rightarrow> pubkey \<Rightarrow> u64 \<Rightarrow> account list \<Rightarrow> compute_meter
      \<Rightarrow> service_outcome" where
  "process_create_escrow c cs slot recipients amount expiry resolver nonce accs m = pay 10000 accs m (\<lambda>m.
     if length accs < 6 then fail NotEnoughAccountKeys accs m
     else if nonce \<noteq> 0 then fail (Custom 4) accs m
     else if recipients = [] \<or> MAX_RECIPIENTS < length recipients then fail InvalidInstructionData accs m
     else if expiry \<noteq> 0 \<and> expiry \<le> slot then fail (Custom 5) accs m
     else attempt (derive_escrow_pda c (acc_key (accs ! 0)) 0) accs m (\<lambda>(escrow_key, bmp).
       if acc_key (accs ! 2) \<noteq> escrow_key then fail InvalidSeeds accs m
       else attempt (derive_vault_pda c (acc_key (accs ! 2))) accs m (\<lambda>(vault_key, _).
         if acc_key (accs ! 3) \<noteq> vault_key then fail InvalidSeeds accs m
         else if in_use (accs ! 2) then fail AccountAlreadyInitialized accs m
         else attempt (read_token cs accs 1) accs m (\<lambda>buyer_token.
           if ta_amount buyer_token < amount then fail InsufficientFunds accs m
           else if ta_mint buyer_token \<noteq> acc_key (accs ! 4) then fail (Custom 6) accs m
           else case checked_sub (ta_amount buyer_token) amount of
              None \<Rightarrow> fail InsufficientFunds accs m
            | Some left \<Rightarrow>
               (let accs1 = write_token cs 1 (buyer_token\<lparr>ta_amount := left\<rparr>) accs;
                    accs2 = accs1[3 := (set_token (mk_tokens cs) (vault_new (acc_key (accs ! 4)) escrow_key amount) (accs1 ! 3))
                      \<lparr>acc_owner := TOKEN_PROGRAM_ID\<rparr>]
                in attempt (escrow_new (acc_key (accs ! 0)) recipients (acc_key (accs ! 4)) amount slot expiry resolver bmp)
                  accs2 m (\<lambda>e.
                    Some (Inr [market_event_emit c cs (EscrowCreated (acc_key (accs ! 2)) (acc_key (accs ! 0)) amount
                        (acc_key (accs ! 4)) expiry)],
                      accs2[2 := (set_escrow cs e (accs2 ! 2))\<lparr>acc_owner := MARKETPLACE_PROGRAM_ID\<rparr>], m)))))))"

definition is_recipient :: "pubkey \<Rightarrow> recipient_split list \<Rightarrow> bool" where
  "is_recipient k rs = list_ex (\<lambda>r. rs_pubkey r = k) rs"

definition process_mark_delivered ::
    "crypto \<Rightarrow> market_codecs \<Rightarrow> u64 \<Rightarrow> account list \<Rightarrow> compute_meter \<Rightarrow> service_outcome" where
  "process_mark_delivered c cs nonce accs m = pay 3000 accs m (\<lambda>m.
     if length accs < 2 then fail NotEnoughAccountKeys accs m
     else attempt (read_escrow cs accs 1) accs m (\<lambda>e.
       if esc_nonce e \<noteq> nonce then fail (Custom 4) accs m
       else case active_recipients e of
          None \<Rightarrow> None
        | Some rs \<Rightarrow>
           if \<not> is_recipient (acc_key (accs ! 0)) rs then fail (Custom 7) accs m
           else attempt (validate_transition Delivered e) accs m (\<lambda>_.
             Some (Inr [market_event_emit c cs (EscrowDelivered (acc_key (accs ! 1)) (acc_key (accs ! 0)))],
               write_escrow cs 1 (escrow_increment_nonce (e\<lparr>esc_state := Delivered\<rparr>)) accs, m))))"

text \<open>The share of a recipient, computed on 128 bits and cut to 64.\<close>

definition share_of :: "u64 \<Rightarrow> recipient_split \<Rightarrow> u64" where
  "share_of amount r = of_nat (unat amount * unat (rs_share_bps r) div 10000)"

text \<open>The payout loop of a release: what is left in the vault, or the error, with the accounts as far as they were paid.\<close>

fun distribute ::
    "market_codecs \<Rightarrow> (nat \<times> u64 \<times> pubkey) list \<Rightarrow> u64 \<Rightarrow> account list \<Rightarrow> u64 program_result \<times> account list" where
  "distribute cs [] vault accs = (Inr vault, accs)"
| "distribute cs ((i, share, k) # ds) vault accs =
     (case read_token cs accs i of
        Inl e \<Rightarrow> (Inl e, accs)
      | Inr y \<Rightarrow>
         if ta_owner y \<noteq> k then (Inl (Custom 9), accs)
         else case checked_add (ta_amount y) share of
            None \<Rightarrow> (Inl (Custom 10), accs)
          | Some amount \<Rightarrow>
             (case checked_sub vault share of
                None \<Rightarrow> (Inl InsufficientFunds, accs)
              | Some vault' \<Rightarrow> distribute cs ds vault' (write_token cs i (y\<lparr>ta_amount := amount\<rparr>) accs)))"

definition distributions :: "nat \<Rightarrow> u64 \<Rightarrow> recipient_split list \<Rightarrow> (nat \<times> u64 \<times> pubkey) list" where
  "distributions base amount rs = map (\<lambda>(i, r). (base + i, share_of amount r, rs_pubkey r)) (List.enumerate 0 rs)"

definition process_release ::
    "crypto \<Rightarrow> market_codecs \<Rightarrow> u64 \<Rightarrow> u64 \<Rightarrow> account list \<Rightarrow> compute_meter \<Rightarrow> service_outcome" where
  "process_release c cs slot nonce accs m = pay 15000 accs m (\<lambda>m.
     if length accs < 4 then fail NotEnoughAccountKeys accs m
     else attempt (read_escrow cs accs 1) accs m (\<lambda>e.
       if esc_nonce e \<noteq> nonce then fail (Custom 4) accs m
       else if escrow_is_expired slot e then fail (Custom 8) accs m
       else if acc_key (accs ! 0) \<noteq> esc_buyer e then fail (Custom 7) accs m
       else attempt (validate_transition Released e) accs m (\<lambda>_.
         if length accs < 4 + unat (esc_recipient_count e) then fail NotEnoughAccountKeys accs m
         else case active_recipients e of
            None \<Rightarrow> None
          | Some rs \<Rightarrow> attempt (read_token cs accs 2) accs m (\<lambda>vault.
             case distribute cs (distributions 4 (esc_amount e) rs) (ta_amount vault) accs of
                (Inl err, accs') \<Rightarrow> fail err accs' m
              | (Inr left, accs') \<Rightarrow>
                 Some (Inr [market_event_emit c cs (EscrowReleased (acc_key (accs ! 1)) (acc_key (accs ! 0)) (esc_amount e))],
                   write_escrow cs 1 (escrow_increment_nonce (e\<lparr>esc_state := Released\<rparr>))
                     (write_token cs 2 (vault\<lparr>ta_amount := left\<rparr>) accs'), m)))))"

definition process_refund ::
    "crypto \<Rightarrow> market_codecs \<Rightarrow> u64 \<Rightarrow> u64 \<Rightarrow> account list \<Rightarrow> compute_meter \<Rightarrow> service_outcome" where
  "process_refund c cs slot nonce accs m = pay 10000 accs m (\<lambda>m.
     if length accs < 5 then fail NotEnoughAccountKeys accs m
     else attempt (read_escrow cs accs 1) accs m (\<lambda>e.
       if esc_nonce e \<noteq> nonce then fail (Custom 4) accs m
       else case active_recipients e of
          None \<Rightarrow> None
        | Some rs \<Rightarrow>
           if \<not> is_recipient (acc_key (accs ! 0)) rs \<and> \<not> (acc_key (accs ! 0) = esc_buyer e \<and> escrow_is_expired slot e)
           then fail (Custom 7) accs m
           else attempt (validate_transition Refunded e) accs m (\<lambda>_.
             attempt (read_token cs accs 2) accs m (\<lambda>vault.
             attempt (read_token cs accs 3) accs m (\<lambda>buyer_token.
               if ta_owner buyer_token \<noteq> esc_buyer e then fail (Custom 9) accs m
               else case checked_add (ta_amount buyer_token) (ta_amount vault) of
                  None \<Rightarrow> fail (Custom 10) accs m
                | Some amount \<Rightarrow>
                   Some (Inr [market_event_emit c cs (EscrowRefunded (acc_key (accs ! 1)) (acc_key (accs ! 0)) (ta_amount vault))],
                     write_escrow cs 1 (escrow_increment_nonce (e\<lparr>esc_state := Refunded\<rparr>))
                       (write_token cs 3 (buyer_token\<lparr>ta_amount := amount\<rparr>)
                         (write_token cs 2 (vault\<lparr>ta_amount := 0\<rparr>) accs)), m))))))"

definition process_raise_dispute ::
    "crypto \<Rightarrow> market_codecs \<Rightarrow> u64 \<Rightarrow> u64 \<Rightarrow> account list \<Rightarrow> compute_meter \<Rightarrow> service_outcome" where
  "process_raise_dispute c cs slot nonce accs m = pay 5000 accs m (\<lambda>m.
     if length accs < 2 then fail NotEnoughAccountKeys accs m
     else attempt (read_escrow cs accs 1) accs m (\<lambda>e.
       if esc_nonce e \<noteq> nonce then fail (Custom 4) accs m
       else case active_recipients e of
          None \<Rightarrow> None
        | Some rs \<Rightarrow>
           if acc_key (accs ! 0) \<noteq> esc_buyer e \<and> \<not> is_recipient (acc_key (accs ! 0)) rs then fail (Custom 7) accs m
           else attempt (validate_transition Disputed e) accs m (\<lambda>_.
             Some (Inr [market_event_emit c cs (DisputeRaised (acc_key (accs ! 1)) (acc_key (accs ! 0)))],
               write_escrow cs 1
                 (escrow_increment_nonce (e\<lparr>esc_state := Disputed, esc_has_dispute := True, esc_dispute_slot := slot\<rparr>)) accs,
               m))))"

datatype market_action = ActResolveDispute | ActCreateEscrow | ActRelease | ActRefund

fun action_flag :: "market_action \<Rightarrow> u64" where
  "action_flag ActResolveDispute = push_bit 0 1"
| "action_flag ActCreateEscrow = push_bit 1 1"
| "action_flag ActRelease = push_bit 2 1"
| "action_flag ActRefund = push_bit 3 1"

definition verify_bot_authorization ::
    "bot_codecs \<Rightarrow> account \<Rightarrow> account \<Rightarrow> account \<Rightarrow> pubkey \<Rightarrow> u64 \<Rightarrow> u64 \<Rightarrow> bool program_result" where
  "verify_bot_authorization cs signer bot_acc cap_acc target action slot =
     (case bot_from_bytes cs (data_bytes (acc_data bot_acc)) of
        Inl e \<Rightarrow> Inl e
      | Inr b \<Rightarrow>
         if bot_status b \<noteq> BotActive then Inr False
         else if acc_key signer \<noteq> bot_signing_pubkey b then Inr False
         else case grant_from_bytes cs (data_bytes (acc_data cap_acc)) of
            Inl e \<Rightarrow> Inl e
          | Inr g \<Rightarrow>
             if gr_bot_id g \<noteq> acc_key bot_acc then Inr False
             else if 0 < gr_expiry_slot g \<and> gr_expiry_slot g \<le> slot then Inr False
             else if gr_target_program g \<noteq> target then Inr False
             else if gr_allowed_actions g AND action = 0 then Inr False
             else Inr True)"

text \<open>The payout of a dispute is computed on unchanged accounts first: the new contents by index, and the vault's rest.\<close>

fun resolve_release ::
    "market_codecs \<Rightarrow> account list \<Rightarrow> (nat \<times> u64 \<times> pubkey) list \<Rightarrow> u64 \<Rightarrow> ((nat \<times> token_account) list \<times> u64) program_result" where
  "resolve_release cs accs [] vault = Inr ([], vault)"
| "resolve_release cs accs ((i, share, k) # ds) vault =
     (case read_token cs accs i of
        Inl e \<Rightarrow> Inl e
      | Inr y \<Rightarrow>
         if ta_owner y \<noteq> k then Inl (Custom 9)
         else case checked_add (ta_amount y) share of
            None \<Rightarrow> Inl (Custom 10)
          | Some amount \<Rightarrow>
             (case checked_sub vault share of
                None \<Rightarrow> Inl InsufficientFunds
              | Some vault' \<Rightarrow>
                 (case resolve_release cs accs ds vault' of
                    Inl e \<Rightarrow> Inl e
                  | Inr (ws, left) \<Rightarrow> Inr ((i, y\<lparr>ta_amount := amount\<rparr>) # ws, left))))"

definition resolve_refund ::
    "market_codecs \<Rightarrow> account list \<Rightarrow> nat \<Rightarrow> pubkey \<Rightarrow> u64 \<Rightarrow> ((nat \<times> token_account) list \<times> u64) program_result" where
  "resolve_refund cs accs base buyer vault =
     (case read_token cs accs base of
        Inl e \<Rightarrow> Inl e
      | Inr y \<Rightarrow>
         if ta_owner y \<noteq> buyer then Inl (Custom 9)
         else case checked_add (ta_amount y) vault of
            None \<Rightarrow> Inl (Custom 10)
          | Some amount \<Rightarrow> Inr ([(base, y\<lparr>ta_amount := amount\<rparr>)], 0))"

fun apply_distributions :: "market_codecs \<Rightarrow> (nat \<times> token_account) list \<Rightarrow> account list \<Rightarrow> account list" where
  "apply_distributions cs [] accs = accs"
| "apply_distributions cs ((i, y) # ws) accs = apply_distributions cs ws (write_token cs i y accs)"

definition bot_authorized :: "market_codecs \<Rightarrow> u64 \<Rightarrow> account list \<Rightarrow> escrow_account \<Rightarrow> bool" where
  "bot_authorized cs slot accs e =
     (acc_key (accs ! 0) \<noteq> esc_dispute_resolver e \<and> 6 \<le> length accs
       \<and> verify_bot_authorization (mk_bots cs) (accs ! 0) (accs ! 4) (accs ! 5) MARKETPLACE_PROGRAM_ID
           (action_flag ActResolveDispute) slot = Inr True)"

definition dispute_payout ::
    "market_codecs \<Rightarrow> bool \<Rightarrow> nat \<Rightarrow> escrow_account \<Rightarrow> recipient_split list \<Rightarrow> u64 \<Rightarrow> account list
      \<Rightarrow> (escrow_state \<times> (nat \<times> token_account) list \<times> u64) program_result" where
  "dispute_payout cs release base e rs vault accs =
     (if release then
        (case validate_transition Released e of
           Inl err \<Rightarrow> Inl err
         | Inr _ \<Rightarrow>
            if length accs < base + unat (esc_recipient_count e) then Inl NotEnoughAccountKeys
            else map_sum id (Pair Released) (resolve_release cs accs (distributions base vault rs) vault))
      else
        (case validate_transition Refunded e of
           Inl err \<Rightarrow> Inl err
         | Inr _ \<Rightarrow>
            if length accs \<le> base then Inl NotEnoughAccountKeys
            else map_sum id (Pair Refunded) (resolve_refund cs accs base (esc_buyer e) vault)))"

definition process_resolve_dispute ::
    "crypto \<Rightarrow> market_codecs \<Rightarrow> u64 \<Rightarrow> bool \<Rightarrow> u64 \<Rightarrow> account list \<Rightarrow> compute_meter \<Rightarrow> service_outcome" where
  "process_resolve_dispute c cs slot release nonce accs m = pay 15000 accs m (\<lambda>m.
     if length accs < 4 then fail NotEnoughAccountKeys accs m
     else attempt (read_escrow cs accs 1) accs m (\<lambda>e.
       case active_recipients e of
          None \<Rightarrow> None
        | Some rs \<Rightarrow>
           if esc_nonce e \<noteq> nonce then fail (Custom 4) accs m
           else if esc_state e \<noteq> Disputed then fail (Custom 11) accs m
           else if acc_key (accs ! 0) \<noteq> esc_dispute_resolver e \<and> \<not> bot_authorized cs slot accs e then fail (Custom 7) accs m
           else attempt (read_token cs accs 2) accs m (\<lambda>vault.
             attempt (dispute_payout cs release (if bot_authorized cs slot accs e then 6 else 4) e rs (ta_amount vault) accs) accs m
               (\<lambda>(new_state, ws, left).
                 let accs1 = apply_distributions cs ws accs;
                     accs2 = write_token cs 2 (vault\<lparr>ta_amount := left\<rparr>) accs1
                 in attempt (read_escrow cs accs2 1) accs2 m (\<lambda>e'.
                   Some (Inr [market_event_emit c cs
                       (DisputeResolved (acc_key (accs ! 1)) (acc_key (accs ! 0)) release (bot_authorized cs slot accs e))],
                     write_escrow cs 1 (escrow_increment_nonce (e'\<lparr>esc_state := new_state\<rparr>)) accs2, m))))))"

fun market_execute :: "crypto \<Rightarrow> market_codecs \<Rightarrow> u64 \<Rightarrow> market_instruction \<Rightarrow> account list \<Rightarrow> compute_meter \<Rightarrow> service_outcome" where
  "market_execute c cs slot (CreateListing t d p k n) = process_create_listing c cs slot t d p k n"
| "market_execute c cs slot (CreateEscrow rs a x r n) = process_create_escrow c cs slot rs a x r n"
| "market_execute c cs slot (MarkDelivered n) = process_mark_delivered c cs n"
| "market_execute c cs slot (Release n) = process_release c cs slot n"
| "market_execute c cs slot (Refund n) = process_refund c cs slot n"
| "market_execute c cs slot (RaiseDispute n) = process_raise_dispute c cs slot n"
| "market_execute c cs slot (ResolveDispute b n) = process_resolve_dispute c cs slot b n"

definition market_process :: "crypto \<Rightarrow> market_codecs \<Rightarrow> u8 list \<Rightarrow> u64 \<Rightarrow> account list \<Rightarrow> compute_meter \<Rightarrow> service_outcome" where
  "market_process c cs bytes slot accs m =
     (case market_unpack cs bytes of Inl e \<Rightarrow> fail e accs m | Inr ix \<Rightarrow> market_execute c cs slot ix accs m)"

section \<open>What the serializer must provide\<close>

definition escrow_valid :: "escrow_account \<Rightarrow> bool" where
  "escrow_valid e \<longleftrightarrow> length (esc_discriminator e) = 8 \<and> length (esc_recipients e) = MAX_RECIPIENTS"

definition market_codecs_ok :: "(string \<Rightarrow> bool) \<Rightarrow> market_codecs \<Rightarrow> bool" where
  "market_codecs_ok utf8 cs \<longleftrightarrow> tagged_state (mk_escrow cs) ESCROW_ACCOUNT_SIZE escrow_valid esc_discriminator
     \<and> token_codecs_ok utf8 (mk_tokens cs)"

lemma escrow_read:
  assumes "market_codecs_ok utf8 cs" and "read_escrow cs accs i = Inr e"
  shows "escrow_valid e" and "esc_discriminator e = ESCROW_DISCRIMINATOR"
  using tagged_state.tagged_valid [of "mk_escrow cs" ESCROW_ACCOUNT_SIZE escrow_valid esc_discriminator ESCROW_DISCRIMINATOR
      "data_bytes (acc_data (accs ! i))" e] assms
  by (simp_all add: market_codecs_ok_def escrow_from_bytes_def read_escrow_def)

lemma escrow_written:
  assumes "market_codecs_ok utf8 cs" and "escrow_valid e" and "esc_discriminator e = ESCROW_DISCRIMINATOR" and "i < length accs"
  shows "read_escrow cs (write_escrow cs i e accs) i = Inr e"
proof -
  have "tagged_state (mk_escrow cs) ESCROW_ACCOUNT_SIZE escrow_valid esc_discriminator"
    using assms(1) by (simp add: market_codecs_ok_def)
  then have "escrow_from_bytes cs (escrow_to_bytes cs e) = Inr e"
    unfolding escrow_from_bytes_def escrow_to_bytes_def using assms(2,3) by (rule tagged_state.tagged_roundtrip)
  then show ?thesis using assms(4) by (simp add: read_escrow_def set_escrow_def)
qed

lemma token_written:
  assumes "market_codecs_ok utf8 cs"
  shows "read_token cs (write_token cs i y accs) j = (if i = j \<and> i < length accs then Inr y else read_token cs accs j)"
  using token_roundtrip [of utf8 "mk_tokens cs" y] assms
  by (cases "i < length accs") (auto simp: market_codecs_ok_def read_token_def nth_list_update list_update_beyond)

lemma read_token_escrow [simp]: "i \<noteq> j \<Longrightarrow> read_token cs (write_escrow cs i e accs) j = read_token cs accs j"
  by (simp add: read_token_def)

lemma read_escrow_token [simp]: "i \<noteq> j \<Longrightarrow> read_escrow cs (write_token cs i y accs) j = read_escrow cs accs j"
  by (simp add: read_escrow_def)

lemma escrow_in_use: "read_escrow cs accs i = Inr e \<Longrightarrow> in_use (accs ! i)"
  by (cases "data_bytes (acc_data (accs ! i))")
    (auto simp: read_escrow_def escrow_from_bytes_def tagged_from_bytes_def in_use_def ESCROW_DISCRIMINATOR_def
      ESCROW_ACCOUNT_SIZE_def split: if_splits option.splits)

lemma acc_key_set_token [simp]: "acc_key (set_token tcs y a) = acc_key a"
  by (simp add: set_token_def)

lemma acc_key_set_escrow [simp]: "acc_key (set_escrow cs e a) = acc_key a"
  by (simp add: set_escrow_def)

section \<open>Payouts\<close>

definition held :: "market_codecs \<Rightarrow> account \<Rightarrow> int" where
  "held cs a = (case token_of (mk_tokens cs) a of None \<Rightarrow> 0 | Some y \<Rightarrow> uint (ta_amount y))"

definition tokens_held :: "market_codecs \<Rightarrow> account list \<Rightarrow> int" where
  "tokens_held cs accs = sum_list (map (held cs) accs)"

lemma held_read: "read_token cs accs i = Inr y \<Longrightarrow> held cs (accs ! i) = uint (ta_amount y)"
  by (simp add: read_token_def held_def token_of_def)

lemma held_set:
  assumes "market_codecs_ok utf8 cs"
  shows "held cs (set_token (mk_tokens cs) y a) = uint (ta_amount y)"
  using token_roundtrip [of utf8 "mk_tokens cs" y] assms by (simp add: market_codecs_ok_def held_def token_of_def)

lemma tokens_written:
  assumes "market_codecs_ok utf8 cs" and "read_token cs accs i = Inr z" and "2 \<le> i" and "i < length accs"
  shows "tokens_held cs (drop 2 (write_token cs i y accs)) = tokens_held cs (drop 2 accs) - uint (ta_amount z) + uint (ta_amount y)"
proof -
  have "drop 2 accs ! (i - 2) = accs ! i" using assms(3,4) by (simp only: nth_drop le_add_diff_inverse)
  then show ?thesis
    using assms sum_list_map_update [of "i - 2" "drop 2 accs" "held cs" "set_token (mk_tokens cs) y (accs ! i)"]
    by (simp only: tokens_held_def drop_update_swap held_read held_set if_False length_drop not_less diff_less_mono)
qed

definition paid :: "(nat \<times> u64 \<times> pubkey) list \<Rightarrow> nat" where
  "paid ds = sum_list (map (\<lambda>(_, share, _). unat share) ds)"

lemma keys_written [simp]: "map acc_key (write_token cs i y accs) = map acc_key accs"
  by (cases "i < length accs") (simp_all add: map_update list_update_beyond, metis list_update_id nth_map)

lemma distribute_Cons:
  assumes "distribute cs ((i, share, k) # ds) vault accs = (Inr left, accs')"
  obtains y where "read_token cs accs i = Inr y" and "ta_owner y = k" and "unat (ta_amount y) + unat share < 2 ^ 64"
    and "unat share \<le> unat vault" and "unat (vault - share) = unat vault - unat share"
    and "distribute cs ds (vault - share) (write_token cs i (y\<lparr>ta_amount := ta_amount y + share\<rparr>) accs) = (Inr left, accs')"
  using assms
  by (fastforce simp: rust_arith unat_sub_no_underflow word_le_nat_alt split: sum.splits if_splits option.splits)

lemma distribute_keeps:
  assumes "distribute cs ds vault accs = (Inr left, accs')"
  shows "length accs' = length accs \<and> map acc_key accs' = map acc_key accs \<and> (\<forall>j. j \<notin> fst ` set ds \<longrightarrow> accs' ! j = accs ! j)
    \<and> unat left + paid ds = unat vault"
  using assms
proof (induction ds arbitrary: vault accs)
  case (Cons d ds)
  obtain i share k where d: "d = (i, share, k)" by (cases d)
  from Cons.prems [unfolded d] show ?case
  proof (rule distribute_Cons, goal_cases)
    case (1 y)
    then show ?case using Cons.IH [OF 1(6)] by (auto simp: d paid_def)
  qed
qed (simp add: paid_def)

lemma distribute_conserves:
  assumes "market_codecs_ok utf8 cs" and "distribute cs ds vault accs = (Inr left, accs')"
    and "\<forall>d \<in> set ds. 2 \<le> fst d \<and> fst d < length accs"
  shows "tokens_held cs (drop 2 accs') = tokens_held cs (drop 2 accs) + paid ds"
  using assms(2,3)
proof (induction ds arbitrary: vault accs)
  case (Cons d ds)
  obtain i share k where d: "d = (i, share, k)" by (cases d)
  from Cons.prems(1) [unfolded d] show ?case
  proof (rule distribute_Cons, goal_cases)
    case (1 y)
    have "uint (ta_amount y + share) = uint (ta_amount y) + int (unat share)"
      using arg_cong [OF unat_add_no_overflow [of "ta_amount y" share], of int] 1(3) by simp
    moreover have "2 \<le> i" "i < length accs" using Cons.prems(2) d by auto
    ultimately show ?case
      using Cons.IH [OF 1(6)] tokens_written [OF assms(1) 1(1), of "y\<lparr>ta_amount := ta_amount y + share\<rparr>"] Cons.prems(2)
      by (simp add: d paid_def)
  qed
qed (simp add: paid_def)

text \<open>Every account of the list is paid its share once.\<close>

lemma distribute_pays:
  assumes "market_codecs_ok utf8 cs" and "distribute cs ds vault accs = (Inr left, accs')" and "distinct (map fst ds)"
    and "(i, share, k) \<in> set ds" and "i < length accs"
  shows "\<exists>y. read_token cs accs i = Inr y \<and> ta_owner y = k \<and> unat (ta_amount y) + unat share < 2 ^ 64
    \<and> read_token cs accs' i = Inr (y\<lparr>ta_amount := ta_amount y + share\<rparr>)"
  using assms(2-)
proof (induction ds arbitrary: vault accs)
  case (Cons d ds)
  obtain j s q where d: "d = (j, s, q)" by (cases d)
  from Cons.prems(1) [unfolded d] show ?case
  proof (rule distribute_Cons, goal_cases)
    case (1 y)
    show ?case
    proof (cases "i = j")
      case True
      then have "i \<notin> fst ` set ds" "share = s" "k = q" using Cons.prems(2,3) d by (auto simp: rev_image_eqI)
      then have "read_token cs accs' i = read_token cs (write_token cs j (y\<lparr>ta_amount := ta_amount y + s\<rparr>) accs) i"
        using distribute_keeps [OF 1(6)] by (simp add: read_token_def)
      then show ?thesis
        using 1 True Cons.prems(4) \<open>share = s\<close> \<open>k = q\<close> by (simp add: token_written [OF assms(1)])
    next
      case False
      then show ?thesis
        using Cons.IH [OF 1(6)] Cons.prems(2-4) d by (simp add: token_written [OF assms(1)])
    qed
  qed
qed simp

text \<open>The payout of a dispute, computed first and written afterwards, is the loop that pays in place.\<close>

lemma resolve_release_distribute:
  assumes "market_codecs_ok utf8 cs" and "distinct (map fst ds)"
  shows "(\<exists>ws. resolve_release cs accs ds vault = Inr (ws, left) \<and> accs' = apply_distributions cs ws accs)
    \<longleftrightarrow> distribute cs ds vault accs = (Inr left, accs')"
  using assms(2)
proof (induction ds arbitrary: vault accs)
  case (Cons d ds)
  obtain i share k where d: "d = (i, share, k)" by (cases d)
  have other: "resolve_release cs (write_token cs i y accs) ds v = resolve_release cs accs ds v" for y v
  proof -
    have "i \<notin> fst ` set ds" using Cons.prems d by auto
    then show ?thesis
      by (induction ds arbitrary: v) (auto simp: read_token_def split: sum.splits option.splits)
  qed
  have IH: "distribute cs ds v (write_token cs i y accs) = (Inr left, accs') \<longleftrightarrow>
      (\<exists>ws. resolve_release cs accs ds v = Inr (ws, left) \<and> accs' = apply_distributions cs ws (write_token cs i y accs))" for v y
    using Cons.IH [of "write_token cs i y accs" v] Cons.prems other by simp
  show ?case
    by (auto simp: d IH split: sum.splits option.splits prod.splits)
qed auto

section \<open>The contract behind an escrow\<close>

text \<open>What the parties rely on: who may move the escrow to which state, and when.\<close>

record contract =
  ct_buyer :: pubkey
  ct_sellers :: "pubkey set"
  ct_resolver :: pubkey
  ct_expiry :: u64
  ct_state :: escrow_state

definition contract_of :: "escrow_account \<Rightarrow> contract" where
  "contract_of e = \<lparr>ct_buyer = esc_buyer e, ct_sellers = rs_pubkey ` set (take (unat (esc_recipient_count e)) (esc_recipients e)),
     ct_resolver = esc_dispute_resolver e, ct_expiry = esc_expiry_slot e, ct_state = esc_state e\<rparr>"

definition overdue :: "u64 \<Rightarrow> contract \<Rightarrow> bool" where
  "overdue slot x = (0 < ct_expiry x \<and> ct_expiry x \<le> slot)"

inductive contract_step :: "pubkey \<Rightarrow> u64 \<Rightarrow> bool \<Rightarrow> contract \<Rightarrow> contract \<Rightarrow> bool" for caller slot by_bot where
  deliver: "caller \<in> ct_sellers x \<Longrightarrow> ct_state x = Locked \<Longrightarrow> contract_step caller slot by_bot x (x\<lparr>ct_state := Delivered\<rparr>)"
| release: "caller = ct_buyer x \<Longrightarrow> \<not> overdue slot x \<Longrightarrow> ct_state x \<in> {Locked, Delivered, Disputed}
    \<Longrightarrow> contract_step caller slot by_bot x (x\<lparr>ct_state := Released\<rparr>)"
| refund: "caller \<in> ct_sellers x \<or> caller = ct_buyer x \<and> overdue slot x \<Longrightarrow> ct_state x \<in> {Locked, Disputed}
    \<Longrightarrow> contract_step caller slot by_bot x (x\<lparr>ct_state := Refunded\<rparr>)"
| dispute: "caller = ct_buyer x \<or> caller \<in> ct_sellers x \<Longrightarrow> ct_state x \<in> {Locked, Delivered}
    \<Longrightarrow> contract_step caller slot by_bot x (x\<lparr>ct_state := Disputed\<rparr>)"
| resolve: "caller = ct_resolver x \<or> by_bot \<Longrightarrow> ct_state x = Disputed \<Longrightarrow> s \<in> {Released, Refunded}
    \<Longrightarrow> contract_step caller slot by_bot x (x\<lparr>ct_state := s\<rparr>)"

inductive_cases contract_stepE: "contract_step caller slot by_bot x x'"

fun steps_left :: "escrow_state \<Rightarrow> nat" where
  "steps_left Locked = 3"
| "steps_left Delivered = 2"
| "steps_left Disputed = 1"
| "steps_left _ = 0"

lemma contract_step_progress:
  "contract_step caller slot by_bot x x' \<Longrightarrow>
    steps_left (ct_state x') < steps_left (ct_state x) \<and> can_transition_to (ct_state x) (ct_state x') \<and> ct_state x' \<noteq> Expired"
  by (erule contract_stepE) auto

fun on_escrow :: "market_instruction \<Rightarrow> bool" where
  "on_escrow (CreateListing _ _ _ _ _) = False"
| "on_escrow (CreateEscrow _ _ _ _ _) = False"
| "on_escrow _ = True"

definition escrow_terms :: "escrow_account \<Rightarrow> escrow_account" where
  "escrow_terms e = e\<lparr>esc_state := Locked, esc_has_dispute := False, esc_dispute_slot := 0, esc_nonce := 0\<rparr>"

lemma active_recipients_ok:
  "active_recipients e = Some rs \<Longrightarrow> rs = take (unat (esc_recipient_count e)) (esc_recipients e)
    \<and> length rs = unat (esc_recipient_count e)"
  by (auto simp: active_recipients_def slice_to_def split: if_splits)

lemma is_recipient_iff: "active_recipients e = Some rs \<Longrightarrow> is_recipient k rs \<longleftrightarrow> k \<in> ct_sellers (contract_of e)"
  by (auto simp: is_recipient_def list_ex_iff contract_of_def dest!: active_recipients_ok)

lemma overdue_iff: "overdue slot (contract_of e) \<longleftrightarrow> escrow_is_expired slot e"
  by (simp add: overdue_def escrow_is_expired_def contract_of_def)

lemma validate_transition_ok: "validate_transition s e = Inr u \<longleftrightarrow> can_transition_to (esc_state e) s"
  by (cases "esc_state e") (auto simp: validate_transition_def is_terminal_def)

lemma can_transition_iff:
  "can_transition_to s Delivered \<longleftrightarrow> s = Locked" "can_transition_to s Disputed \<longleftrightarrow> s \<in> {Locked, Delivered}"
  "can_transition_to s Released \<longleftrightarrow> s \<in> {Locked, Delivered, Disputed}" "can_transition_to s Refunded \<longleftrightarrow> s \<in> {Locked, Disputed}"
  by (cases s; simp)+

text \<open>Writing the escrow back under the next state.\<close>

definition moves_to :: "market_codecs \<Rightarrow> account list \<Rightarrow> escrow_account \<Rightarrow> escrow_state \<Rightarrow> bool" where
  "moves_to cs accs' e s \<longleftrightarrow> (\<exists>e'. read_escrow cs accs' 1 = Inr e' \<and> esc_state e' = s
     \<and> esc_nonce e' = saturating_add (esc_nonce e) 1 \<and> escrow_terms e' = escrow_terms e)"

lemma moves_to_written:
  assumes "market_codecs_ok utf8 cs" and "read_escrow cs accs0 1 = Inr e" and "1 < length accs"
    and "esc_state e' = s" and "esc_nonce e' = esc_nonce e" and "escrow_terms e' = escrow_terms e"
  shows "moves_to cs (write_escrow cs 1 (escrow_increment_nonce e') accs) e s"
proof -
  let ?e = "escrow_increment_nonce e'"
  have same: "esc_discriminator (escrow_terms e') = esc_discriminator (escrow_terms e)"
    "esc_recipients (escrow_terms e') = esc_recipients (escrow_terms e)" using assms(6) by simp_all
  have "escrow_valid ?e" "esc_discriminator ?e = ESCROW_DISCRIMINATOR"
    using escrow_read [OF assms(1,2)] same by (simp_all add: escrow_valid_def escrow_increment_nonce_def escrow_terms_def)
  then have "read_escrow cs (write_escrow cs 1 ?e accs) 1 = Inr ?e" using escrow_written [OF assms(1) _ _ assms(3)] by blast
  moreover have "escrow_terms ?e = escrow_terms e" using assms(6) by (simp add: escrow_terms_def escrow_increment_nonce_def)
  ultimately show ?thesis using assms(4,5) by (simp add: moves_to_def escrow_increment_nonce_def del: One_nat_def)
qed

lemma contract_of_moved:
  assumes "moves_to cs accs' e s" and "contract_step k slot b (contract_of e) ((contract_of e)\<lparr>ct_state := s\<rparr>)"
  shows "\<exists>e'. read_escrow cs accs' 1 = Inr e' \<and> contract_step k slot b (contract_of e) (contract_of e')
    \<and> esc_nonce e' = saturating_add (esc_nonce e) 1 \<and> escrow_terms e' = escrow_terms e"
proof -
  obtain e' where e': "read_escrow cs accs' 1 = Inr e'" "esc_state e' = s" "esc_nonce e' = saturating_add (esc_nonce e) 1"
    "escrow_terms e' = escrow_terms e"
    using assms(1) by (auto simp: moves_to_def)
  have "contract_of e' = (contract_of (escrow_terms e'))\<lparr>ct_state := s\<rparr>" using e'(2) by (simp add: contract_of_def escrow_terms_def)
  also have "\<dots> = (contract_of e)\<lparr>ct_state := s\<rparr>" by (simp add: e'(4)) (simp add: contract_of_def escrow_terms_def)
  finally show ?thesis using e' assms(2) by auto
qed

section \<open>Successful instructions\<close>

lemma guard_ok: "(if p then fail e accs m else k) = Some (Inr es, accs', m') \<longleftrightarrow> \<not> p \<and> k = Some (Inr es, accs', m')"
  by simp

lemma panic_ok: "(case x of None \<Rightarrow> None | Some y \<Rightarrow> k y) = Some z \<longleftrightarrow> (\<exists>y. x = Some y \<and> k y = Some z)"
  by (cases x) auto

lemma mark_delivered_ok:
  assumes "process_mark_delivered c cs nonce accs m = Some (Inr es, accs', m')"
  obtains e rs where "read_escrow cs accs 1 = Inr e" and "1 < length accs" and "active_recipients e = Some rs"
    and "is_recipient (acc_key (accs ! 0)) rs" and "can_transition_to (esc_state e) Delivered"
    and "accs' = write_escrow cs 1 (escrow_increment_nonce (e\<lparr>esc_state := Delivered\<rparr>)) accs"
  using assms
  by (auto simp: process_mark_delivered_def service_ok validate_transition_ok simp del: One_nat_def split: if_splits option.splits)

lemma raise_dispute_ok:
  assumes "process_raise_dispute c cs slot nonce accs m = Some (Inr es, accs', m')"
  obtains e rs where "read_escrow cs accs 1 = Inr e" and "1 < length accs" and "active_recipients e = Some rs"
    and "acc_key (accs ! 0) = esc_buyer e \<or> is_recipient (acc_key (accs ! 0)) rs" and "can_transition_to (esc_state e) Disputed"
    and "accs' = write_escrow cs 1
      (escrow_increment_nonce (e\<lparr>esc_state := Disputed, esc_has_dispute := True, esc_dispute_slot := slot\<rparr>)) accs"
  using assms
  by (auto simp: process_raise_dispute_def service_ok validate_transition_ok simp del: One_nat_def split: if_splits option.splits)

lemma refund_ok:
  assumes "process_refund c cs slot nonce accs m = Some (Inr es, accs', m')"
  obtains e rs vault y where "read_escrow cs accs 1 = Inr e" and "5 \<le> length accs" and "active_recipients e = Some rs"
    and "is_recipient (acc_key (accs ! 0)) rs \<or> acc_key (accs ! 0) = esc_buyer e \<and> escrow_is_expired slot e"
    and "can_transition_to (esc_state e) Refunded" and "read_token cs accs 2 = Inr vault" and "read_token cs accs 3 = Inr y"
    and "ta_owner y = esc_buyer e" and "unat (ta_amount y) + unat (ta_amount vault) < 2 ^ 64"
    and "accs' = write_escrow cs 1 (escrow_increment_nonce (e\<lparr>esc_state := Refunded\<rparr>))
      (write_token cs 3 (y\<lparr>ta_amount := ta_amount y + ta_amount vault\<rparr>) (write_token cs 2 (vault\<lparr>ta_amount := 0\<rparr>) accs))"
  using assms
  by (auto simp: process_refund_def service_ok validate_transition_ok rust_arith simp del: One_nat_def
      split: if_splits option.splits)

lemma payout_cases_ok:
  "(case d of (Inl err, accs1) \<Rightarrow> fail err accs1 m | (Inr left, accs1) \<Rightarrow> f left accs1) = Some (Inr es, accs', m')
    \<longleftrightarrow> (\<exists>left accs1. d = (Inr left, accs1) \<and> f left accs1 = Some (Inr es, accs', m'))"
  by (auto split: prod.splits sum.splits)

lemma release_ok:
  assumes "process_release c cs slot nonce accs m = Some (Inr es, accs', m')"
  obtains e rs vault left accs1 where "read_escrow cs accs 1 = Inr e" and "4 + unat (esc_recipient_count e) \<le> length accs"
    and "\<not> escrow_is_expired slot e" and "acc_key (accs ! 0) = esc_buyer e" and "can_transition_to (esc_state e) Released"
    and "active_recipients e = Some rs" and "read_token cs accs 2 = Inr vault"
    and "distribute cs (distributions 4 (esc_amount e) rs) (ta_amount vault) accs = (Inr left, accs1)"
    and "accs' = write_escrow cs 1 (escrow_increment_nonce (e\<lparr>esc_state := Released\<rparr>))
      (write_token cs 2 (vault\<lparr>ta_amount := left\<rparr>) accs1)"
  using assms
  by (auto simp: process_release_def service_ok payout_cases_ok validate_transition_ok simp del: One_nat_def
      split: if_splits option.splits)

lemma distributions_at: "map fst (distributions base amount rs) = [base..<base + length rs]"
  by (rule nth_equalityI) (simp_all add: distributions_def nth_enumerate_eq)

lemma distributions_in: "d \<in> set (distributions base amount rs) \<Longrightarrow> base \<le> fst d \<and> fst d < base + length rs"
  using arg_cong [OF distributions_at, of set base amount rs] by (auto simp: image_iff set_eq_iff)

lemma apply_distributions_other:
  "j \<notin> fst ` set ws \<Longrightarrow> apply_distributions cs ws accs ! j = accs ! j \<and> length (apply_distributions cs ws accs) = length accs"
  by (induction cs ws accs rule: apply_distributions.induct) auto

lemma map_sum_Inr_iff: "map_sum id f r = Inr y \<longleftrightarrow> (\<exists>x. r = Inr x \<and> y = f x)"
  by (cases r) auto

lemma dispute_payout_ok:
  assumes "market_codecs_ok utf8 cs" and "dispute_payout cs release base e rs vault accs = Inr (s, ws, left)"
    and "active_recipients e = Some rs" and "4 \<le> base"
  shows "s = (if release then Released else Refunded) \<and> length (apply_distributions cs ws accs) = length accs
    \<and> (\<forall>j < base. apply_distributions cs ws accs ! j = accs ! j)
    \<and> tokens_held cs (drop 2 (apply_distributions cs ws accs)) + uint left = tokens_held cs (drop 2 accs) + uint vault"
proof (cases release)
  case True
  let ?ds = "distributions base vault rs"
  have res: "resolve_release cs accs ?ds vault = Inr (ws, left)" "s = Released" "base + length rs \<le> length accs"
    using assms(2) True active_recipients_ok [OF assms(3)]
    by (auto simp: dispute_payout_def map_sum_Inr_iff split: sum.splits if_splits)
  have run: "distribute cs ?ds vault accs = (Inr left, apply_distributions cs ws accs)"
    using resolve_release_distribute [OF assms(1), of ?ds accs vault left] res(1) by (auto simp: distributions_at)
  have "j \<notin> fst ` set ?ds" if "j < base" for j using distributions_in that by force
  moreover have "\<forall>d \<in> set ?ds. 2 \<le> fst d \<and> fst d < length accs" using distributions_in res(3) assms(4) by fastforce
  then have "tokens_held cs (drop 2 (apply_distributions cs ws accs)) = tokens_held cs (drop 2 accs) + paid ?ds"
    by (rule distribute_conserves [OF assms(1) run])
  moreover have "uint left + int (paid ?ds) = uint vault"
    using distribute_keeps [OF run] by (metis of_nat_add uint_nat)
  ultimately show ?thesis using distribute_keeps [OF run] res(2) True by auto
next
  case False
  then obtain y where y: "read_token cs accs base = Inr y" "base < length accs" "unat (ta_amount y) + unat vault < 2 ^ 64"
    "ws = [(base, y\<lparr>ta_amount := ta_amount y + vault\<rparr>)]" "left = 0" "s = Refunded"
    using assms(2) by (auto simp: dispute_payout_def resolve_refund_def rust_arith split: sum.splits if_splits option.splits)
  have "uint (ta_amount y + vault) = uint (ta_amount y) + uint vault"
    using arg_cong [OF unat_add_no_overflow [of "ta_amount y" vault], of int] y(3) by simp
  then show ?thesis
    using tokens_written [OF assms(1) y(1), of "y\<lparr>ta_amount := ta_amount y + vault\<rparr>"] y assms(4) False by simp
qed

lemma resolve_dispute_ok:
  assumes "market_codecs_ok utf8 cs" and "process_resolve_dispute c cs slot release nonce accs m = Some (Inr es, accs', m')"
  obtains e vault s left accs1 where "read_escrow cs accs 1 = Inr e" and "4 \<le> length accs" and "esc_state e = Disputed"
    and "acc_key (accs ! 0) = esc_dispute_resolver e \<or> bot_authorized cs slot accs e" and "s = (if release then Released else Refunded)"
    and "read_token cs accs 2 = Inr vault" and "length accs1 = length accs" and "accs1 ! 1 = accs ! 1" and "accs1 ! 2 = accs ! 2"
    and "tokens_held cs (drop 2 accs1) + uint left = tokens_held cs (drop 2 accs) + uint (ta_amount vault)"
    and "accs' = write_escrow cs 1 (escrow_increment_nonce (e\<lparr>esc_state := s\<rparr>)) (write_token cs 2 (vault\<lparr>ta_amount := left\<rparr>) accs1)"
proof -
  obtain e rs vault s ws left e' where run: "read_escrow cs accs 1 = Inr e" "4 \<le> length accs" "active_recipients e = Some rs"
    "esc_state e = Disputed" "acc_key (accs ! 0) = esc_dispute_resolver e \<or> bot_authorized cs slot accs e"
    "read_token cs accs 2 = Inr vault"
    "dispute_payout cs release (if bot_authorized cs slot accs e then 6 else 4) e rs (ta_amount vault) accs = Inr (s, ws, left)"
    and reread: "read_escrow cs (write_token cs 2 (vault\<lparr>ta_amount := left\<rparr>) (apply_distributions cs ws accs)) 1 = Inr e'"
    and accs': "accs' = write_escrow cs 1 (escrow_increment_nonce (e'\<lparr>esc_state := s\<rparr>))
      (write_token cs 2 (vault\<lparr>ta_amount := left\<rparr>) (apply_distributions cs ws accs))"
    using assms(2)
    by (auto simp: process_resolve_dispute_def service_ok guard_ok panic_ok Let_def not_less simp del: One_nat_def
        split del: if_split)
  note paid = dispute_payout_ok [OF assms(1) run(7,3)]
  have "e' = e" using reread run(1) paid by (simp add: read_escrow_def del: One_nat_def)
  then show thesis using that [of e s vault "apply_distributions cs ws accs" left] run paid accs' by (simp del: One_nat_def)
qed

section \<open>Theorems\<close>

lemma escrow_follows_contract:
  assumes "market_codecs_ok utf8 cs" and "market_execute c cs slot ix accs m = Some (Inr es, accs', m')" and "on_escrow ix"
    and "read_escrow cs accs 1 = Inr e"
  shows "\<exists>e'. read_escrow cs accs' 1 = Inr e'
    \<and> contract_step (acc_key (accs ! 0)) slot (bot_authorized cs slot accs e) (contract_of e) (contract_of e')
    \<and> esc_nonce e' = saturating_add (esc_nonce e) 1 \<and> escrow_terms e' = escrow_terms e"
proof -
  have terms: "escrow_terms (e\<lparr>esc_state := s\<rparr>) = escrow_terms e"
    "escrow_terms (e\<lparr>esc_state := s, esc_has_dispute := b, esc_dispute_slot := t\<rparr>) = escrow_terms e" for s b t
    by (simp_all add: escrow_terms_def)
  note written = moves_to_written [OF assms(1,4)]
  have state: "ct_state (contract_of e) = esc_state e" "ct_buyer (contract_of e) = esc_buyer e"
    "ct_resolver (contract_of e) = esc_dispute_resolver e" by (simp_all add: contract_of_def)
  show ?thesis
  proof (cases ix)
    case (MarkDelivered n)
    from assms(2) [unfolded MarkDelivered market_execute.simps] show ?thesis
    proof (cases rule: mark_delivered_ok)
      case (1 e0 rs)
      then have e: "e0 = e" using assms(4) by simp
      have moved: "moves_to cs accs' e Delivered" unfolding 1(6) e by (rule written) (use 1(2) in \<open>simp_all add: terms\<close>)
      show ?thesis
        using 1 e state is_recipient_iff [OF 1(3)] can_transition_iff by (intro contract_of_moved [OF moved] deliver) auto
    qed
  next
    case (Release n)
    from assms(2) [unfolded Release market_execute.simps] show ?thesis
    proof (cases rule: release_ok)
      case (1 e0 rs vault left accs1)
      then have e: "e0 = e" using assms(4) by simp
      have "1 < length accs1" using distribute_keeps [OF 1(8)] 1(2) by auto
      then have moved: "moves_to cs accs' e Released" unfolding 1(9) e by (intro written) (simp_all add: terms)
      show ?thesis
        using 1 e state overdue_iff can_transition_iff by (intro contract_of_moved [OF moved] release) auto
    qed
  next
    case (Refund n)
    from assms(2) [unfolded Refund market_execute.simps] show ?thesis
    proof (cases rule: refund_ok)
      case (1 e0 rs vault y)
      then have e: "e0 = e" using assms(4) by simp
      have moved: "moves_to cs accs' e Refunded" unfolding 1(10) e by (rule written) (use 1(2) in \<open>simp_all add: terms\<close>)
      show ?thesis
        using 1 e state is_recipient_iff [OF 1(3)] overdue_iff can_transition_iff by (intro contract_of_moved [OF moved] refund) auto
    qed
  next
    case (RaiseDispute n)
    from assms(2) [unfolded RaiseDispute market_execute.simps] show ?thesis
    proof (cases rule: raise_dispute_ok)
      case (1 e0 rs)
      then have e: "e0 = e" using assms(4) by simp
      have moved: "moves_to cs accs' e Disputed" unfolding 1(6) e by (rule written) (use 1(2) in \<open>simp_all add: terms\<close>)
      show ?thesis
        using 1 e state is_recipient_iff [OF 1(3)] can_transition_iff by (intro contract_of_moved [OF moved] dispute) auto
    qed
  next
    case (ResolveDispute b n)
    from assms(1) assms(2) [unfolded ResolveDispute market_execute.simps] show ?thesis
    proof (cases rule: resolve_dispute_ok)
      case (1 e0 vault s left accs1)
      then have e: "e0 = e" using assms(4) by simp
      have moved: "moves_to cs accs' e s" unfolding 1(11) e by (rule written) (use 1(2,7) in \<open>simp_all add: terms\<close>)
      show ?thesis using 1 e state by (intro contract_of_moved [OF moved] resolve) auto
    qed
  qed (use assms(3) in auto)
qed

text \<open>C4. Every instruction that succeeds on an escrow follows the contract of its parties: who called, at which slot and by
  which bot decides the state it moves to; the nonce is one higher, and buyer, recipients, shares, amount, mint, expiry
  and resolver stay what they were. Release is for the buyer alone, refund for a seller or the buyer of an overdue escrow; a bot
  acts only on disputes, although the account lists of Release and Refund name an authorized bot as well.\<close>

theorem market_refines_contract:
  assumes "market_codecs_ok utf8 cs" and "market_execute c cs slot ix accs m = Some (Inr es, accs', m')" and "on_escrow ix"
    and "read_escrow cs accs 1 = Inr e"
  shows "\<exists>e'. read_escrow cs accs' 1 = Inr e'
    \<and> contract_step (acc_key (accs ! 0)) slot (bot_authorized cs slot accs e) (contract_of e) (contract_of e')
    \<and> esc_nonce e' = saturating_add (esc_nonce e) 1 \<and> escrow_terms e' = escrow_terms e"
  using assms by (rule escrow_follows_contract)

fun pays_out :: "market_instruction \<Rightarrow> bool" where
  "pays_out (Release _) = True"
| "pays_out (Refund _) = True"
| "pays_out (ResolveDispute _ _) = True"
| "pays_out _ = False"

lemma drop_write_escrow [simp]: "drop 2 (accs[1 := a]) = drop 2 accs"
  by simp

text \<open>C11. Release, refund and the resolution of a dispute only move tokens: over the vault and all accounts after it, the sum of
  the token balances is the same before and after.\<close>

theorem payout_conserves_tokens:
  assumes "market_codecs_ok utf8 cs" and "market_execute c cs slot ix accs m = Some (Inr es, accs', m')" and "pays_out ix"
  shows "tokens_held cs (drop 2 accs') = tokens_held cs (drop 2 accs)"
proof (cases ix)
  case (Release n)
  from assms(2) [unfolded Release market_execute.simps] show ?thesis
  proof (cases rule: release_ok)
    case (1 e rs vault left accs1)
    let ?ds = "distributions 4 (esc_amount e) rs"
    note kept = distribute_keeps [OF 1(8)]
    have ds: "\<forall>d \<in> set ?ds. 2 \<le> fst d \<and> fst d < length accs"
      using distributions_in active_recipients_ok [OF 1(6)] 1(2) by fastforce
    have "2 \<notin> fst ` set ?ds" using distributions_in by force
    then have "accs1 ! 2 = accs ! 2" using kept by blast
    then have "read_token cs accs1 2 = Inr vault" using 1(7) by (simp add: read_token_def)
    moreover have "uint left + int (paid ?ds) = uint (ta_amount vault)" using kept by (metis of_nat_add uint_nat)
    ultimately show ?thesis
      using tokens_written [OF assms(1), of accs1 2 vault "vault\<lparr>ta_amount := left\<rparr>"] kept 1(2)
        distribute_conserves [OF assms(1) 1(8) ds]
      by (simp add: 1(9) del: One_nat_def)
  qed
next
  case (Refund n)
  from assms(2) [unfolded Refund market_execute.simps] show ?thesis
  proof (cases rule: refund_ok)
    case (1 e rs vault y)
    have "uint (ta_amount y + ta_amount vault) = uint (ta_amount y) + uint (ta_amount vault)"
      using arg_cong [OF unat_add_no_overflow [of "ta_amount y" "ta_amount vault"], of int] 1(9) by simp
    then show ?thesis
      using tokens_written [OF assms(1) 1(6), of "vault\<lparr>ta_amount := 0\<rparr>"] 1
        tokens_written [OF assms(1), of "write_token cs 2 (vault\<lparr>ta_amount := 0\<rparr>) accs" 3 y "y\<lparr>ta_amount := ta_amount y + ta_amount vault\<rparr>"]
      by (simp add: token_written [OF assms(1)] del: One_nat_def)
  qed
next
  case (ResolveDispute b n)
  from assms(1) assms(2) [unfolded ResolveDispute market_execute.simps] show ?thesis
  proof (cases rule: resolve_dispute_ok)
    case (1 e vault s left accs1)
    then have "read_token cs accs1 2 = Inr vault" by (simp add: read_token_def)
    then show ?thesis
      using tokens_written [OF assms(1), of accs1 2 vault "vault\<lparr>ta_amount := left\<rparr>"] 1 by (simp del: One_nat_def)
  qed
qed (use assms(3) in auto)

definition escrow_moves :: "market_codecs \<Rightarrow> escrow_account \<Rightarrow> escrow_account \<Rightarrow> bool" where
  "escrow_moves cs e e' \<longleftrightarrow> (\<exists>c slot ix accs m es accs' m'. on_escrow ix \<and> market_execute c cs slot ix accs m = Some (Inr es, accs', m')
     \<and> read_escrow cs accs 1 = Inr e \<and> read_escrow cs accs' 1 = Inr e')"

lemma escrow_moves_step:
  assumes "market_codecs_ok utf8 cs" and "escrow_moves cs e e'"
  shows "steps_left (esc_state e') < steps_left (esc_state e) \<and> esc_state e' \<noteq> Expired
    \<and> esc_nonce e' = saturating_add (esc_nonce e) 1 \<and> escrow_terms e' = escrow_terms e"
proof -
  obtain c slot ix accs m es accs' m' where "on_escrow ix" "market_execute c cs slot ix accs m = Some (Inr es, accs', m')"
    "read_escrow cs accs 1 = Inr e" "read_escrow cs accs' 1 = Inr e'"
    using assms(2) by (auto simp: escrow_moves_def)
  then obtain k b where "contract_step k slot b (contract_of e) (contract_of e')"
    and "esc_nonce e' = saturating_add (esc_nonce e) 1 \<and> escrow_terms e' = escrow_terms e"
    using escrow_follows_contract [OF assms(1)] by fastforce
  then show ?thesis using contract_step_progress by (fastforce simp: contract_of_def)
qed

text \<open>C10. Escrows end: on any account history, at most three instructions ever succeed on an escrow that starts locked, and after
  three it is released or refunded. Its terms never change, its nonce counts the steps, and no instruction ever leads to
  the state \<open>Expired\<close>.\<close>

theorem escrow_settles:
  assumes "market_codecs_ok utf8 cs" and "(escrow_moves cs ^^ n) e e'" and "esc_state e = Locked" and "esc_nonce e = 0"
  shows "n \<le> 3 \<and> (n = 3 \<longrightarrow> esc_state e' \<in> {Released, Refunded}) \<and> esc_state e' \<noteq> Expired
    \<and> esc_nonce e' = of_nat n \<and> escrow_terms e' = escrow_terms e"
proof -
  have "n + steps_left (esc_state e') \<le> 3 \<and> esc_state e' \<noteq> Expired \<and> unat (esc_nonce e') = n \<and> escrow_terms e' = escrow_terms e"
    using assms(2)
  proof (induction n arbitrary: e')
    case (Suc n)
    then obtain e1 where "(escrow_moves cs ^^ n) e e1" "escrow_moves cs e1 e'" by auto
    then show ?case using Suc.IH escrow_moves_step [OF assms(1)] by (fastforce simp: unat_saturating_add)
  qed (simp add: assms)
  moreover have "of_nat (unat (esc_nonce e')) = esc_nonce e'" by simp
  ultimately show ?thesis by (cases "esc_state e'") auto
qed

lemma share_of_exact: "unat (rs_share_bps r) \<le> 10000 \<Longrightarrow> unat (share_of a r) = unat a * unat (rs_share_bps r) div 10000"
proof -
  assume "unat (rs_share_bps r) \<le> 10000"
  then have "unat a * unat (rs_share_bps r) div 10000 \<le> unat a" by (metis div_le_mono div_mult_self_is_m mult.commute mult_le_mono1 zero_less_numeral)
  also have "\<dots> < 2 ^ 64" using unsigned_less [of a] by simp
  finally show ?thesis by (simp add: share_of_def unat_of_nat)
qed

lemma floors_bound:
  fixes ss :: "nat list"
  assumes "sum_list ss = d" and "0 < d" and "ss \<noteq> []"
  shows "sum_list (map (\<lambda>s. a * s div d) ss) \<le> a" and "a < sum_list (map (\<lambda>s. a * s div d) ss) + length ss"
proof -
  have "d * sum_list (map (\<lambda>s. a * s div d) ss) \<le> a * sum_list ss"
    by (induction ss) (simp_all add: algebra_simps, metis add_mono div_times_less_eq_dividend mult.commute)
  then show "sum_list (map (\<lambda>s. a * s div d) ss) \<le> a" using assms(1,2) by (simp add: mult.commute)
  have "ts \<noteq> [] \<Longrightarrow> a * sum_list ts < d * (sum_list (map (\<lambda>s. a * s div d) ts) + length ts)" for ts
  proof (induction ts)
    case (Cons t ts)
    have "a * t < d * (a * t div d) + d" using assms(2) by (metis add_less_cancel_left mod_less_divisor mult_div_mod_eq)
    then show ?case using Cons.IH by (cases "ts = []") (auto simp: algebra_simps intro: add_strict_mono)
  qed simp
  then show "a < sum_list (map (\<lambda>s. a * s div d) ss) + length ss" using assms by (metis mult.commute nat_mult_less_cancel1)
qed

text \<open>C29. What a release pays: with shares that add up to 10000 (as integers), recipient number \<open>i\<close> gets exactly the floor of
  amount times share over 10000, the vault loses exactly what was paid, and of the escrowed amount fewer units than
  there are recipients are left unpaid.\<close>

theorem release_pays_shares:
  assumes "market_codecs_ok utf8 cs" and "process_release c cs slot nonce accs m = Some (Inr es, accs', m')"
    and "read_escrow cs accs 1 = Inr e" and "active_recipients e = Some rs" and "sum_list (map (unat \<circ> rs_share_bps) rs) = 10000"
  shows "\<exists>vault left. read_token cs accs 2 = Inr vault \<and> read_token cs accs' 2 = Inr (vault\<lparr>ta_amount := left\<rparr>)
    \<and> (\<forall>i < length rs. \<exists>y share. read_token cs accs (4 + i) = Inr y \<and> ta_owner y = rs_pubkey (rs ! i)
         \<and> unat share = unat (esc_amount e) * unat (rs_share_bps (rs ! i)) div 10000
         \<and> unat (ta_amount y) + unat share < 2 ^ 64
         \<and> read_token cs accs' (4 + i) = Inr (y\<lparr>ta_amount := ta_amount y + share\<rparr>))
    \<and> (\<exists>dust < length rs. unat (ta_amount vault) + dust = unat left + unat (esc_amount e))"
proof -
  from assms(2) show ?thesis
  proof (cases rule: release_ok)
    case (1 e0 rs0 vault left accs1)
    let ?ds = "distributions 4 (esc_amount e) rs"
    have same: "e0 = e" "rs0 = rs" using 1 assms(3,4) by auto
    note run = 1(8) [unfolded same] and kept = distribute_keeps [OF 1(8) [unfolded same]]
    have len: "4 + length rs \<le> length accs" using 1(2) same active_recipients_ok [OF assms(4)] by simp
    have small: "unat (rs_share_bps r) \<le> 10000" if "r \<in> set rs" for r
      using member_le_sum_list [of "unat (rs_share_bps r)" "map (unat \<circ> rs_share_bps) rs"] that assms(5) by auto
    have after: "read_token cs accs' j = read_token cs accs1 j" if "3 \<le> j" for j
      using that by (simp add: 1(9) read_token_def del: One_nat_def)
    have vault': "read_token cs accs' 2 = Inr (vault\<lparr>ta_amount := left\<rparr>)"
      unfolding 1(9) by (subst read_token_escrow) (use kept len in \<open>simp_all add: token_written [OF assms(1)]\<close>)
    have pays: "\<exists>y. read_token cs accs (4 + i) = Inr y \<and> ta_owner y = rs_pubkey (rs ! i)
        \<and> unat (ta_amount y) + unat (share_of (esc_amount e) (rs ! i)) < 2 ^ 64
        \<and> read_token cs accs' (4 + i) = Inr (y\<lparr>ta_amount := ta_amount y + share_of (esc_amount e) (rs ! i)\<rparr>)"
      if "i < length rs" for i
    proof -
      have "(4 + i, share_of (esc_amount e) (rs ! i), rs_pubkey (rs ! i)) = ?ds ! i" "length ?ds = length rs"
        using that by (simp_all add: distributions_def nth_enumerate_eq)
      then have "(4 + i, share_of (esc_amount e) (rs ! i), rs_pubkey (rs ! i)) \<in> set ?ds" using that by (metis nth_mem)
      then show ?thesis
        using distribute_pays [OF assms(1) run] after len that by (simp add: distributions_at)
    qed
    have "paid ?ds = sum_list (map (\<lambda>r. unat (share_of (esc_amount e) r)) rs)"
      unfolding paid_def by (rule arg_cong [of _ _ sum_list], rule nth_equalityI) (simp_all add: distributions_def nth_enumerate_eq)
    also have "\<dots> = sum_list (map (\<lambda>s. unat (esc_amount e) * s div 10000) (map (unat \<circ> rs_share_bps) rs))"
      using small by (simp add: share_of_exact comp_def cong: map_cong)
    finally have total: "paid ?ds = \<dots>" .
    have "rs \<noteq> []" using assms(5) by auto
    then have "paid ?ds \<le> unat (esc_amount e)" "unat (esc_amount e) < paid ?ds + length rs"
      using floors_bound [OF assms(5), of "unat (esc_amount e)"] unfolding total by simp_all
    then have "\<exists>dust < length rs. unat (ta_amount vault) + dust = unat left + unat (esc_amount e)"
      using kept by (intro exI [of _ "unat (esc_amount e) - paid ?ds"]) auto
    moreover have "\<forall>i < length rs. \<exists>y share. read_token cs accs (4 + i) = Inr y \<and> ta_owner y = rs_pubkey (rs ! i)
         \<and> unat share = unat (esc_amount e) * unat (rs_share_bps (rs ! i)) div 10000 \<and> unat (ta_amount y) + unat share < 2 ^ 64
         \<and> read_token cs accs' (4 + i) = Inr (y\<lparr>ta_amount := ta_amount y + share\<rparr>)"
      using pays share_of_exact small nth_mem by metis
    ultimately show ?thesis using 1(7) vault' by blast
  qed
qed

text \<open>Creating an escrow locks exactly the amount: the buyer's token account loses it, the vault holds it for the derived
  escrow address (whatever the vault held before is overwritten), and the new escrow is locked at nonce zero with the
  given recipients, whose count and shares pass the checks.\<close>

theorem create_escrow_locks:
  assumes "market_codecs_ok utf8 cs"
    and "process_create_escrow c cs slot rs amount expiry resolver nonce accs m = Some (Inr es, accs', m')"
  shows "\<exists>y e bmp. read_token cs accs 1 = Inr y \<and> amount \<le> ta_amount y \<and> ta_mint y = acc_key (accs ! 4)
    \<and> derive_escrow_pda c (acc_key (accs ! 0)) 0 = Inr (acc_key (accs ! 2), bmp)
    \<and> read_token cs accs' 1 = Inr (y\<lparr>ta_amount := ta_amount y - amount\<rparr>)
    \<and> read_token cs accs' 3 = Inr (vault_new (ta_mint y) (acc_key (accs ! 2)) amount)
    \<and> read_escrow cs accs' 2 = Inr e \<and> esc_buyer e = acc_key (accs ! 0) \<and> esc_mint e = ta_mint y \<and> esc_amount e = amount
    \<and> esc_state e = Locked \<and> esc_nonce e = 0 \<and> active_recipients e = Some rs \<and> rs \<noteq> [] \<and> \<not> escrow_is_expired slot e"
proof -
  obtain y e bmp where y: "read_token cs accs 1 = Inr y" "amount \<le> ta_amount y" "ta_mint y = acc_key (accs ! 4)"
    and pda: "derive_escrow_pda c (acc_key (accs ! 0)) 0 = Inr (acc_key (accs ! 2), bmp)"
    and len: "6 \<le> length accs" and expiry: "expiry = 0 \<or> slot < expiry"
    and e: "escrow_new (acc_key (accs ! 0)) rs (acc_key (accs ! 4)) amount slot expiry resolver bmp = Inr e"
    and accs': "accs' = (let accs1 = write_token cs 1 (y\<lparr>ta_amount := ta_amount y - amount\<rparr>) accs;
        accs2 = accs1[3 := (set_token (mk_tokens cs) (vault_new (acc_key (accs ! 4)) (acc_key (accs ! 2)) amount) (accs1 ! 3))
          \<lparr>acc_owner := TOKEN_PROGRAM_ID\<rparr>]
        in accs2[2 := (set_escrow cs e (accs2 ! 2))\<lparr>acc_owner := MARKETPLACE_PROGRAM_ID\<rparr>])"
    using assms(2)
    by (auto simp: process_create_escrow_def service_ok guard_ok Let_def rust_arith not_less not_le simp del: One_nat_def
        split: option.splits prod.splits)
  have fields: "escrow_valid e" "esc_discriminator e = ESCROW_DISCRIMINATOR" "esc_buyer e = acc_key (accs ! 0)"
    "esc_mint e = acc_key (accs ! 4)" "esc_amount e = amount" "esc_state e = Locked" "esc_nonce e = 0" "esc_expiry_slot e = expiry"
    and rs: "rs \<noteq> []" "length rs \<le> 8" "esc_recipient_count e = of_nat (length rs)"
    "esc_recipients e = rs @ replicate (8 - length rs) no_recipient"
    using e by (auto simp: escrow_new_def escrow_valid_def ESCROW_DISCRIMINATOR_def MAX_RECIPIENTS_def split: if_splits)
  have "unat (esc_recipient_count e) = length rs" using rs(2) by (simp add: rs(3) unat_of_nat)
  then have active: "active_recipients e = Some rs" using rs(2,4) by (simp add: active_recipients_def slice_to_def)
  have tok: "token_from_bytes (account_codec (mk_tokens cs)) (token_to_bytes (account_codec (mk_tokens cs)) z) = Inr z" for z
    using assms(1) token_roundtrip by (auto simp: market_codecs_ok_def)
  have "read_escrow cs accs' 2 = Inr e"
    using escrow_written [OF assms(1) fields(1,2), of 2 accs] len by (simp add: accs' Let_def read_escrow_def set_escrow_def)
  moreover have "read_token cs accs' 1 = Inr (y\<lparr>ta_amount := ta_amount y - amount\<rparr>)"
    "read_token cs accs' 3 = Inr (vault_new (ta_mint y) (acc_key (accs ! 2)) amount)"
    using len y(3) by (simp_all add: accs' Let_def read_token_def tok del: One_nat_def)
  ultimately show ?thesis
    using y pda fields active rs(1) expiry by (auto simp: escrow_is_expired_def simp del: One_nat_def)
qed

text \<open>An escrow account is never created a second time, and its address depends on the buyer alone.\<close>

lemma escrow_not_recreated:
  "read_escrow cs accs 2 = Inr e \<Longrightarrow> process_create_escrow c cs slot rs amount expiry resolver nonce accs m \<noteq> Some (Inr es, accs', m')"
  by (drule escrow_in_use) (auto simp: process_create_escrow_def service_ok guard_ok split: prod.splits)

text \<open>Nothing ties the vault of a refund to the escrow: once the escrow has expired, its buyer takes back whatever token
  account stands at index 2, of any address, owner and mint, in full, even while a dispute is open.\<close>

theorem refund_from_any_vault:
  assumes "market_codecs_ok utf8 cs" and "read_escrow cs accs 1 = Inr e" and "esc_state e \<in> {Locked, Disputed}"
    and "escrow_is_expired slot e" and "acc_key (accs ! 0) = esc_buyer e" and "active_recipients e = Some rs"
    and "read_token cs accs 2 = Inr vault" and "read_token cs accs 3 = Inr y" and "ta_owner y = esc_buyer e"
    and "unat (ta_amount y) + unat (ta_amount vault) < 2 ^ 64" and "5 \<le> length accs" and "consume 10000 m = (Inr (), m')"
  shows "\<exists>es accs'. process_refund c cs slot (esc_nonce e) accs m = Some (Inr es, accs', m')
    \<and> read_token cs accs' 2 = Inr (vault\<lparr>ta_amount := 0\<rparr>)
    \<and> read_token cs accs' 3 = Inr (y\<lparr>ta_amount := ta_amount y + ta_amount vault\<rparr>) \<and> moves_to cs accs' e Refunded"
proof -
  let ?accs = "write_token cs 3 (y\<lparr>ta_amount := ta_amount y + ta_amount vault\<rparr>) (write_token cs 2 (vault\<lparr>ta_amount := 0\<rparr>) accs)"
  let ?accs' = "write_escrow cs 1 (escrow_increment_nonce (e\<lparr>esc_state := Refunded\<rparr>)) ?accs"
  have valid: "validate_transition Refunded e = Inr ()" using assms(3) by (auto simp: validate_transition_ok can_transition_iff)
  have sum: "checked_add (ta_amount y) (ta_amount vault) = Some (ta_amount y + ta_amount vault)"
    using assms(10) by (simp add: rust_arith)
  have "process_refund c cs slot (esc_nonce e) accs m = Some (Inr [market_event_emit c cs
      (EscrowRefunded (acc_key (accs ! 1)) (acc_key (accs ! 0)) (ta_amount vault))], ?accs', m')"
    using assms(2,4-9,11,12) valid sum by (simp add: process_refund_def pay_def attempt_def del: One_nat_def)
  moreover have "read_token cs ?accs' 2 = Inr (vault\<lparr>ta_amount := 0\<rparr>)"
    "read_token cs ?accs' 3 = Inr (y\<lparr>ta_amount := ta_amount y + ta_amount vault\<rparr>)"
    using assms(11) by (simp_all only: read_token_escrow token_written [OF assms(1)] length_list_update) simp_all
  moreover have "moves_to cs ?accs' e Refunded"
    using assms(11) by (intro moves_to_written [OF assms(1,2)]) (simp_all add: escrow_terms_def)
  ultimately show ?thesis by blast
qed

text \<open>The marketplace's own check of a bot is the registry's, made without a mint and an amount: the limits a grant sets on
  amount and mints are never enforced when a bot resolves a dispute.\<close>

theorem bot_checks_agree:
  "Some (verify_bot_authorization cs signer bot_acc cap_acc target action slot)
    = verify_bot_capability cs bot_acc cap_acc (acc_key signer) target action None None slot"
  by (auto simp: verify_bot_authorization_def verify_bot_capability_def bot_is_active_def grant_is_expired_def is_action_allowed_def
      split: sum.splits)

lemma utf8_sequence_no_zero:
  assumes "utf8_sequence a bs" and "a \<noteq> 0"
  shows "takeWhile (\<lambda>b. b \<noteq> 0) bs = take (utf8_width a - 1) bs @ takeWhile (\<lambda>b. b \<noteq> 0) (drop (utf8_width a - 1) bs)"
proof -
  have "b \<noteq> 0" if "b \<in> set (take (utf8_width a - 1) bs)" for b
    using assms(1) that
    by (cases "take (utf8_width a - 1) bs") (auto simp: utf8_sequence_def second_byte_ok_def continuation_def list_all_iff)
  then have "takeWhile (\<lambda>b. b \<noteq> 0) (take (utf8_width a - 1) bs @ drop (utf8_width a - 1) bs)
      = take (utf8_width a - 1) bs @ takeWhile (\<lambda>b. b \<noteq> 0) (drop (utf8_width a - 1) bs)"
    by (rule takeWhile_append2)
  then show ?thesis by (simp only: append_take_drop_id)
qed

lemma utf8_until_zero: "from_utf8_ok bs \<Longrightarrow> from_utf8_ok (takeWhile (\<lambda>b. b \<noteq> 0) bs)"
proof (induction bs rule: from_utf8_ok.induct)
  case (2 a bs)
  let ?n = "utf8_width a - 1"
  have seq: "utf8_sequence a bs" using 2(2) by simp
  show ?case
  proof (cases "a = 0")
    case False
    have cut: "takeWhile (\<lambda>b. b \<noteq> 0) bs = take ?n bs @ takeWhile (\<lambda>b. b \<noteq> 0) (drop ?n bs)"
      by (rule utf8_sequence_no_zero [OF seq False])
    have len: "length (take ?n bs) = ?n" using seq by (auto simp: utf8_sequence_def)
    then have "utf8_sequence a (takeWhile (\<lambda>b. b \<noteq> 0) bs)" using seq by (simp add: utf8_sequence_def cut)
    moreover have "from_utf8_ok (drop ?n (takeWhile (\<lambda>b. b \<noteq> 0) bs))" using 2 len by (simp add: cut)
    ultimately show ?thesis using False by simp
  qed simp
qed simp

lemma text_of_padded: "from_utf8_ok bs \<Longrightarrow> text_of (bs @ replicate n 0) = takeWhile (\<lambda>b. b \<noteq> 0) bs"
proof -
  have "takeWhile (\<lambda>b. b \<noteq> 0) (bs @ replicate n 0) = takeWhile (\<lambda>b. b \<noteq> (0::u8)) bs"
    by (induction bs) (cases n, simp_all)
  then show "from_utf8_ok bs \<Longrightarrow> ?thesis" using utf8_until_zero by (simp add: text_of_def)
qed

text \<open>Title and description of a new listing read back as they were given, up to the first zero byte: padding is cut off
  again, and a text that is valid UTF-8 never degrades to the empty string.\<close>

theorem listing_texts_read_back:
  assumes "listing_new creator title description price mnt slot bmp = Inr l" and "from_utf8_ok title" and "from_utf8_ok description"
  shows "title_str l = takeWhile (\<lambda>b. b \<noteq> 0) title \<and> description_str l = takeWhile (\<lambda>b. b \<noteq> 0) description
    \<and> length (lst_title l) = 128 \<and> length (lst_description l) = 512"
  using assms text_of_padded
  by (auto simp: listing_new_def title_str_def description_str_def MAX_TITLE_LENGTH_def MAX_DESCRIPTION_LENGTH_def split: if_splits)

section \<open>The documented encoding meets the laws\<close>

definition escrow_state_tags :: "(escrow_state \<times> u32) list" where
  "escrow_state_tags = [(Locked, 0), (Delivered, 1), (Disputed, 2), (Released, 3), (Refunded, 4), (Expired, 5)]"

lemma codec_escrow_state: "prefix_codec (e_tag escrow_state_tags) (d_tag escrow_state_tags) (\<lambda>_. True)"
proof (rule codec_tag)
  show "s \<in> fst ` set escrow_state_tags" for s by (cases s) (simp_all add: escrow_state_tags_def)
qed (simp_all add: escrow_state_tags_def)

definition split_tuple :: "recipient_split \<Rightarrow> pubkey \<times> u64" where
  "split_tuple r = (rs_pubkey r, rs_share_bps r)"

definition split_untuple :: "pubkey \<times> u64 \<Rightarrow> recipient_split" where
  "split_untuple p = \<lparr>rs_pubkey = fst p, rs_share_bps = snd p\<rparr>"

definition e_split :: "recipient_split \<Rightarrow> u8 list" where
  "e_split = e_pair as_bytes (le_bytes 8) \<circ> split_tuple"

definition d_split :: "recipient_split decoder" where
  "d_split = d_map split_untuple (d_pair d_key (d_word 8))"

lemma codec_split: "prefix_codec e_split d_split (\<lambda>_. True)"
  using codec_map [OF codec_pair [OF codec_key codec_word64], of split_untuple split_tuple]
  by (simp add: e_split_def d_split_def split_untuple_def split_tuple_def comp_def case_prod_beta')

type_synonym escrow_fields = "u8 list \<times> pubkey \<times> u8 \<times> recipient_split list \<times> pubkey \<times> u64 \<times> escrow_state \<times> u64 \<times> u64 \<times> bool
  \<times> pubkey \<times> u64 \<times> u64 \<times> u8"

definition escrow_tuple :: "escrow_account \<Rightarrow> escrow_fields" where
  "escrow_tuple e = (esc_discriminator e, esc_buyer e, esc_recipient_count e, esc_recipients e, esc_mint e, esc_amount e, esc_state e,
     esc_created_slot e, esc_expiry_slot e, esc_has_dispute e, esc_dispute_resolver e, esc_dispute_slot e, esc_nonce e, esc_bump e)"

fun escrow_untuple :: "escrow_fields \<Rightarrow> escrow_account" where
  "escrow_untuple (d, b, n, rs, k, a, s, t, x, h, r, u, v, p) = \<lparr>esc_discriminator = d, esc_buyer = b, esc_recipient_count = n,
     esc_recipients = rs, esc_mint = k, esc_amount = a, esc_state = s, esc_created_slot = t, esc_expiry_slot = x,
     esc_has_dispute = h, esc_dispute_resolver = r, esc_dispute_slot = u, esc_nonce = v, esc_bump = p\<rparr>"

lemma escrow_tuple_inverse: "escrow_untuple (escrow_tuple e) = e" "escrow_tuple (escrow_untuple p) = p"
  by (simp add: escrow_tuple_def) (cases p rule: escrow_untuple.cases, simp add: escrow_tuple_def)

definition e_escrow_tail :: "pubkey \<times> u64 \<times> escrow_state \<times> u64 \<times> u64 \<times> bool \<times> pubkey \<times> u64 \<times> u64 \<times> u8 \<Rightarrow> u8 list" where
  "e_escrow_tail = e_pair as_bytes (e_pair (le_bytes 8) (e_pair (e_tag escrow_state_tags) (e_pair (le_bytes 8) (e_pair (le_bytes 8)
     (e_pair e_bool (e_pair as_bytes (e_pair (le_bytes 8) (e_pair (le_bytes 8) (le_bytes 1)))))))))"

definition d_escrow_tail :: "(pubkey \<times> u64 \<times> escrow_state \<times> u64 \<times> u64 \<times> bool \<times> pubkey \<times> u64 \<times> u64 \<times> u8) decoder" where
  "d_escrow_tail = d_pair d_key (d_pair (d_word 8) (d_pair (d_tag escrow_state_tags) (d_pair (d_word 8) (d_pair (d_word 8)
     (d_pair d_bool (d_pair d_key (d_pair (d_word 8) (d_pair (d_word 8) (d_word 1)))))))))"

lemma codec_escrow_tail: "prefix_codec e_escrow_tail d_escrow_tail (\<lambda>_. True)"
  using codec_pair [OF codec_key codec_pair [OF codec_word64 codec_pair [OF codec_escrow_state codec_pair [OF codec_word64
    codec_pair [OF codec_word64 codec_pair [OF codec_bool codec_pair [OF codec_key codec_pair [OF codec_word64
    codec_pair [OF codec_word64 codec_word8]]]]]]]]]
  by (simp add: e_escrow_tail_def d_escrow_tail_def case_prod_beta')

definition e_escrow :: "escrow_account \<Rightarrow> u8 list" where
  "e_escrow = e_pair (\<lambda>x. x) (e_pair as_bytes (e_pair (le_bytes 1) (e_pair (e_array e_split) e_escrow_tail))) \<circ> escrow_tuple"

definition d_escrow :: "escrow_account decoder" where
  "d_escrow = d_map escrow_untuple (d_pair (d_bytes 8) (d_pair d_key (d_pair (d_word 1) (d_pair (d_array 8 d_split) d_escrow_tail))))"

lemma codec_escrow: "prefix_codec e_escrow d_escrow escrow_valid"
proof -
  have fields: "prefix_codec
      (e_pair (\<lambda>x. x) (e_pair as_bytes (e_pair (le_bytes 1) (e_pair (e_array e_split) e_escrow_tail))))
      (d_pair (d_bytes 8) (d_pair d_key (d_pair (d_word 1 :: u8 decoder) (d_pair (d_array 8 d_split) d_escrow_tail))))
      (\<lambda>(d, b, n, rs, r). length d = 8 \<and> length rs = 8)"
    using codec_pair [OF codec_bytes [of 8] codec_pair [OF codec_key codec_pair [OF codec_word8 codec_pair
      [OF codec_array [OF codec_split, of 8] codec_escrow_tail]]]]
    by (simp add: case_prod_beta')
  have valid: "escrow_valid = (\<lambda>(d, b, n, rs, r). length d = 8 \<and> length rs = 8) \<circ> escrow_tuple"
    by (simp add: fun_eq_iff escrow_valid_def escrow_tuple_def MAX_RECIPIENTS_def)
  show ?thesis
    using codec_map [OF fields, of escrow_untuple escrow_tuple] unfolding valid e_escrow_def d_escrow_def
    by (simp add: escrow_tuple_inverse)
qed

definition market_bincode :: market_codecs where
  "market_bincode = \<lparr>
     mk_escrow = \<lparr>serialize = (\<lambda>x. Some (e_escrow x)), deserialize = (\<lambda>bs. map_option fst (d_escrow bs))\<rparr>,
     mk_listing = \<lparr>serialize = (\<lambda>_. None), deserialize = (\<lambda>_. None)\<rparr>,
     mk_instruction = \<lparr>serialize = (\<lambda>_. None), deserialize = (\<lambda>_. None)\<rparr>, mk_event = (\<lambda>_. None),
     mk_tokens = token_bincode, mk_bots = bot_bincode\<rparr>"

interpretation escrow_bin: tagged_state "mk_escrow market_bincode" ESCROW_ACCOUNT_SIZE escrow_valid esc_discriminator
proof (unfold market_bincode_def market_codecs.simps, rule prefix_codec_tagged [OF codec_escrow])
  have "length (e_split r) = 40" for r by (simp add: e_split_def split_tuple_def e_pair_def length_as_bytes)
  then show "escrow_valid x \<Longrightarrow> length (e_escrow x) = ESCROW_ACCOUNT_SIZE" for x
    by (simp add: escrow_valid_def e_escrow_def e_escrow_tail_def escrow_tuple_def e_pair_def length_as_bytes length_e_array
        e_bool_def MAX_RECIPIENTS_def ESCROW_ACCOUNT_SIZE_def)
  show "escrow_valid x \<Longrightarrow> take 8 (e_escrow x) = esc_discriminator x" for x
    by (simp add: escrow_valid_def e_escrow_def escrow_tuple_def e_pair_def)
qed (simp add: ESCROW_ACCOUNT_SIZE_def)

lemma market_bincode_ok: "market_codecs_ok string_ok market_bincode"
  using escrow_bin.tagged_state_axioms escrow_bin.bincode_codec_axioms token_bincode_ok
  by (simp add: market_codecs_ok_def tagged_state_def) (simp add: market_bincode_def)

section \<open>Witnesses\<close>

definition demo_splits :: "recipient_split list" where
  "demo_splits = [\<lparr>rs_pubkey = 22, rs_share_bps = 7000\<rparr>, \<lparr>rs_pubkey = 23, rs_share_bps = 3000\<rparr>]"

definition demo_escrow :: escrow_account where
  "demo_escrow = \<lparr>esc_discriminator = ESCROW_DISCRIMINATOR, esc_buyer = 11, esc_recipient_count = 2,
     esc_recipients = demo_splits @ replicate 6 no_recipient, esc_mint = 7, esc_amount = 101, esc_state = Locked,
     esc_created_slot = 5, esc_expiry_slot = 50, esc_has_dispute = False, esc_dispute_resolver = 33, esc_dispute_slot = 0,
     esc_nonce = 0, esc_bump = 255\<rparr>"

definition demo_escrow_accounts :: "account list" where
  "demo_escrow_accounts = [account_new 11, set_escrow market_bincode demo_escrow (account_new 100), token_acc 101 (demo_holder 100 101),
     token_acc 44 (demo_holder 11 3), token_acc 102 (demo_holder 22 5), token_acc 103 (demo_holder 23 0)]"

lemma demo_escrow_read: "read_escrow market_bincode demo_escrow_accounts 1 = Inr demo_escrow"
proof -
  have "escrow_valid demo_escrow" "esc_discriminator demo_escrow = ESCROW_DISCRIMINATOR"
    by (simp_all add: escrow_valid_def demo_escrow_def demo_splits_def ESCROW_DISCRIMINATOR_def MAX_RECIPIENTS_def)
  then show ?thesis
    using escrow_written [OF market_bincode_ok, of demo_escrow 1 "[account_new 11, account_new 100]"]
    by (simp add: demo_escrow_accounts_def read_escrow_def)
qed

lemma mk_tokens_bincode [simp]: "mk_tokens market_bincode = token_bincode"
  by (simp add: market_bincode_def)

lemma demo_tokens_read:
  "read_token market_bincode demo_escrow_accounts 2 = Inr (demo_holder 100 101)"
  "read_token market_bincode demo_escrow_accounts 3 = Inr (demo_holder 11 3)"
  "read_token market_bincode demo_escrow_accounts 4 = Inr (demo_holder 22 5)"
  "read_token market_bincode demo_escrow_accounts 5 = Inr (demo_holder 23 0)"
  by (simp_all add: read_token_def demo_escrow_accounts_def)

lemma demo_accounts: "length demo_escrow_accounts = 6" "acc_key (demo_escrow_accounts ! 0) = 11"
  by (simp_all add: demo_escrow_accounts_def)

lemma demo_escrow_fields:
  "active_recipients demo_escrow = Some demo_splits" "\<not> escrow_is_expired 9 demo_escrow" "escrow_is_expired 60 demo_escrow"
  "esc_state demo_escrow = Locked" "esc_nonce demo_escrow = 0" "esc_buyer demo_escrow = 11" "unat (esc_recipient_count demo_escrow) = 2"
  "esc_amount demo_escrow = 101"
  by (simp_all add: demo_escrow_def active_recipients_def slice_to_def demo_splits_def escrow_is_expired_def)

lemma demo_distributions: "distributions 4 101 demo_splits = [(4, 70, 22), (5, 30, 23)]"
  by (simp add: distributions_def demo_splits_def share_of_def)

lemma demo_holder_fields [simp]: "ta_owner (demo_holder k a) = k" "ta_amount (demo_holder k a) = a"
  by (simp_all add: demo_holder_def token_account_new_def)

lemma read_token_other: "i \<noteq> j \<Longrightarrow> read_token cs (accs[i := a]) j = read_token cs accs j"
  by (simp add: read_token_def)

lemma demo_release:
  "\<exists>es accs' m'. process_release toy_crypto market_bincode 9 0 demo_escrow_accounts demo_meter = Some (Inr es, accs', m')"
proof -
  have "\<exists>accs1. distribute market_bincode [(4, 70, 22), (5, 30, 23)] 101 demo_escrow_accounts = (Inr 1, accs1)"
    by (simp add: demo_tokens_read read_token_other checked_add_def checked_sub_def)
  moreover have "validate_transition Released demo_escrow = Inr ()" by (simp add: validate_transition_ok demo_escrow_fields)
  ultimately show ?thesis
    using demo_escrow_read demo_tokens_read(1)
    by (auto simp: process_release_def pay_def attempt_def consume_def demo_meter_units demo_accounts demo_escrow_fields
        demo_distributions simp del: One_nat_def distribute.simps)
qed

theorem market_refines_contract_witness:
  "\<exists>es accs' m' e'. market_execute toy_crypto market_bincode 9 (Release 0) demo_escrow_accounts demo_meter = Some (Inr es, accs', m')
    \<and> read_escrow market_bincode accs' 1 = Inr e' \<and> esc_nonce e' = 1"
proof -
  obtain es accs' m' where run: "market_execute toy_crypto market_bincode 9 (Release 0) demo_escrow_accounts demo_meter = Some (Inr es, accs', m')"
    using demo_release by auto
  obtain e' where "read_escrow market_bincode accs' 1 = Inr e'" "esc_nonce e' = saturating_add (esc_nonce demo_escrow) 1"
    using market_refines_contract [OF market_bincode_ok run _ demo_escrow_read] by auto
  then show ?thesis using run by (auto simp: demo_escrow_fields saturating_add_def)
qed

theorem payout_conserves_tokens_witness:
  "\<exists>es accs' m'. market_execute toy_crypto market_bincode 9 (Release 0) demo_escrow_accounts demo_meter = Some (Inr es, accs', m')
    \<and> tokens_held market_bincode (drop 2 accs') = 109"
proof -
  obtain es accs' m' where run: "market_execute toy_crypto market_bincode 9 (Release 0) demo_escrow_accounts demo_meter = Some (Inr es, accs', m')"
    using demo_release by auto
  moreover have "tokens_held market_bincode (drop 2 demo_escrow_accounts) = 109"
    by (simp add: tokens_held_def held_def token_of_def demo_escrow_accounts_def)
  ultimately show ?thesis using payout_conserves_tokens [OF market_bincode_ok run] by auto
qed

theorem release_pays_shares_witness:
  "\<exists>es accs' m' y. process_release toy_crypto market_bincode 9 0 demo_escrow_accounts demo_meter = Some (Inr es, accs', m')
    \<and> read_token market_bincode accs' 4 = Inr y \<and> ta_amount y = 75"
proof -
  obtain es accs' m' where run: "process_release toy_crypto market_bincode 9 0 demo_escrow_accounts demo_meter = Some (Inr es, accs', m')"
    using demo_release by auto
  have "sum_list (map (unat \<circ> rs_share_bps) demo_splits) = 10000" "0 < length demo_splits" by (simp_all add: demo_splits_def)
  then have "\<exists>y share. read_token market_bincode demo_escrow_accounts (4 + 0) = Inr y
      \<and> unat share = unat (esc_amount demo_escrow) * unat (rs_share_bps (demo_splits ! 0)) div 10000
      \<and> read_token market_bincode accs' (4 + 0) = Inr (y\<lparr>ta_amount := ta_amount y + share\<rparr>)"
    using release_pays_shares [OF market_bincode_ok run demo_escrow_read demo_escrow_fields(1)] by meson
  then obtain share where "unat share = 70"
    and "read_token market_bincode accs' 4 = Inr ((demo_holder 22 5)\<lparr>ta_amount := 5 + share\<rparr>)"
    by (auto simp: demo_tokens_read demo_escrow_fields demo_splits_def)
  moreover have "share = 70" if "unat share = 70" for share :: u64 using that word_unat_eq_iff [of share 70] by simp
  ultimately show ?thesis using run by auto
qed

theorem escrow_settles_witness:
  "\<exists>e'. (escrow_moves market_bincode ^^ 1) demo_escrow e' \<and> esc_nonce e' = 1 \<and> escrow_terms e' = escrow_terms demo_escrow"
proof -
  obtain es accs' m' where run: "market_execute toy_crypto market_bincode 9 (Release 0) demo_escrow_accounts demo_meter = Some (Inr es, accs', m')"
    using demo_release by auto
  moreover obtain e' where "read_escrow market_bincode accs' 1 = Inr e'"
    using escrow_follows_contract [OF market_bincode_ok run _ demo_escrow_read] by auto
  ultimately have "(escrow_moves market_bincode ^^ 1) demo_escrow e'"
    using demo_escrow_read by (fastforce simp: escrow_moves_def simp del: One_nat_def intro: exI [of _ "Release 0"])
  then show ?thesis using escrow_settles [OF market_bincode_ok, of 1 demo_escrow e'] by (auto simp: demo_escrow_fields)
qed

theorem refund_from_any_vault_witness:
  "\<exists>es accs' m'. process_refund toy_crypto market_bincode 60 0 demo_escrow_accounts demo_meter = Some (Inr es, accs', m')
    \<and> read_token market_bincode accs' 3 = Inr (demo_holder 11 104)"
proof -
  obtain m' where units: "consume 10000 demo_meter = (Inr (), m')" by (simp add: consume_def demo_meter_units)
  show ?thesis
    using refund_from_any_vault [OF market_bincode_ok demo_escrow_read _ demo_escrow_fields(3) _ demo_escrow_fields(1)
        demo_tokens_read(1,2) _ _ _ units, of toy_crypto]
    by (auto simp: demo_escrow_fields demo_accounts) (simp add: demo_holder_def)
qed

theorem listing_texts_read_back_witness:
  "\<exists>l. listing_new 1 (string_bytes ''Old bike'') [0xC3, 0xA9, 0, 65] 10 7 3 255 = Inr l
    \<and> title_str l = string_bytes ''Old bike'' \<and> description_str l = [0xC3, 0xA9]"
proof -
  obtain l where l: "listing_new 1 (string_bytes ''Old bike'') [0xC3, 0xA9, 0, 65] 10 7 3 255 = Inr l"
    by (simp add: listing_new_def string_bytes_def MAX_TITLE_LENGTH_def MAX_DESCRIPTION_LENGTH_def)
  show ?thesis
    using listing_texts_read_back [OF l] l
    by (auto simp: string_bytes_def utf8_sequence_def utf8_width_def second_byte_ok_def continuation_def)
qed

definition demo_buyer_accounts :: "account list" where
  "demo_buyer_accounts = [account_new 11, token_acc 44 (demo_holder 11 300), account_new 100, account_new 91, account_new demo_mint_key,
     account_new TOKEN_PROGRAM_ID]"

lemma demo_escrow_pdas: "derive_escrow_pda toy_crypto 11 0 = Inr (100, 255)" "derive_vault_pda toy_crypto 100 = Inr (91, 255)"
  using toy_pda [of "[ESCROW_SEED, as_bytes 11, le_bytes 8 (0 :: u64)]" MARKETPLACE_PROGRAM_ID]
    toy_pda [of "[VAULT_SEED, as_bytes 100]" MARKETPLACE_PROGRAM_ID]
  by (simp_all add: derive_escrow_pda_def derive_vault_pda_def ESCROW_SEED_def VAULT_SEED_def string_bytes_def length_as_bytes
      MAX_SEEDS_def MAX_SEED_LEN_def)

theorem create_escrow_locks_witness:
  "\<exists>es accs' m'. process_create_escrow toy_crypto market_bincode 5 demo_splits 101 50 33 0 demo_buyer_accounts demo_meter
      = Some (Inr es, accs', m') \<and> read_token market_bincode accs' 1 = Inr (demo_holder 11 199)
    \<and> read_token market_bincode accs' 3 = Inr (vault_new demo_mint_key 100 101)"
proof -
  have accs: "length demo_buyer_accounts = 6" "acc_key (demo_buyer_accounts ! 0) = 11" "acc_key (demo_buyer_accounts ! 2) = 100"
    "acc_key (demo_buyer_accounts ! 3) = 91" "acc_key (demo_buyer_accounts ! 4) = demo_mint_key" "\<not> in_use (demo_buyer_accounts ! 2)"
    by (simp_all add: demo_buyer_accounts_def in_use_def account_new_def data_new_def)
  have buyer: "read_token market_bincode demo_buyer_accounts 1 = Inr (demo_holder 11 300)"
    by (simp add: read_token_def demo_buyer_accounts_def)
  have holder: "ta_mint (demo_holder 11 300) = demo_mint_key" by (simp add: demo_holder_def token_account_new_def)
  have splits: "demo_splits \<noteq> []" "length demo_splits = 2" "sum_list (map rs_share_bps demo_splits) = 10000"
    by (simp_all add: demo_splits_def)
  obtain e where e: "escrow_new 11 demo_splits demo_mint_key 101 5 50 33 255 = Inr e"
    using splits by (simp add: escrow_new_def MAX_RECIPIENTS_def)
  obtain es accs' m' where run: "process_create_escrow toy_crypto market_bincode 5 demo_splits 101 50 33 0 demo_buyer_accounts demo_meter
      = Some (Inr es, accs', m')"
    using accs buyer holder splits e
    by (auto simp: process_create_escrow_def pay_def attempt_def consume_def demo_meter_units demo_escrow_pdas checked_sub_def Let_def
        MAX_RECIPIENTS_def simp del: One_nat_def)
  show ?thesis
    using create_escrow_locks [OF market_bincode_ok run] run accs buyer holder
    by (auto simp del: One_nat_def) (simp add: demo_holder_def)
qed

end
