(* ===== verification/Platform.thy ===== *)
theory Platform
  imports Runtime_Safety Marketplace
begin

text \<open>
  The platform put together: the marketplace and the bot registry keep the contract the runtime relies on, so what
  \<open>Runtime_Safety\<close> shows of a transaction holds whatever native programs it calls.
\<close>

section \<open>Services leave motes and identities alone\<close>

definition untouched :: "account list \<Rightarrow> account list \<Rightarrow> bool" where
  "untouched accs accs' \<longleftrightarrow> same_accounts accs accs' \<and> map acc_motes accs' = map acc_motes accs"

lemma untouched_refl [simp, intro]: "untouched accs accs"
  by (simp add: untouched_def)

lemma untouched_total: "untouched accs accs' \<Longrightarrow> motes_total accs' = motes_total accs"
  unfolding untouched_def motes_total_def by (metis list.map_comp)

lemma untouched_update [simp]:
  assumes "untouched accs accs'" and "identity a = identity (accs' ! i)" and "acc_motes a = acc_motes (accs' ! i)"
  shows "untouched accs (accs'[i := a])"
proof (cases "i < length accs'")
  case True
  then show ?thesis
    using assms same_accounts_update [of accs accs' i a] by (simp add: untouched_def map_update) (metis list_update_id nth_map)
qed (use assms(1) in \<open>simp add: list_update_beyond\<close>)

lemma untouched_writes [simp]:
  "identity (set_token tcs y a) = identity a" "acc_motes (set_token tcs y a) = acc_motes a"
  "identity (set_escrow cs e a) = identity a" "acc_motes (set_escrow cs e a) = acc_motes a"
  "identity (set_listing cs l a) = identity a" "acc_motes (set_listing cs l a) = acc_motes a"
  "identity (set_bot bcs b a) = identity a" "acc_motes (set_bot bcs b a) = acc_motes a"
  "identity (set_grant bcs g a) = identity a" "acc_motes (set_grant bcs g a) = acc_motes a"
  "identity (a\<lparr>acc_owner := k\<rparr>) = identity a" "identity (a\<lparr>acc_data := d\<rparr>) = identity a"
  by (simp_all add: identity_def set_token_def set_escrow_def set_listing_def set_bot_def set_grant_def)

definition serves :: "account list \<Rightarrow> compute_meter \<Rightarrow> service_outcome \<Rightarrow> bool" where
  "serves accs m out = (case out of None \<Rightarrow> True | Some (r, accs', m') \<Rightarrow>
     untouched accs accs' \<and> (meter_ok m \<longrightarrow> meter_ok m' \<and> budget m' = budget m))"

lemma serves_none [simp, intro]: "serves accs m None"
  by (simp add: serves_def)

lemma serves_fail [intro]: "untouched accs accs' \<Longrightarrow> serves accs m (fail e accs' m)"
  by (simp add: serves_def fail_def)

lemma serves_ok [intro]: "untouched accs accs' \<Longrightarrow> serves accs m (Some (Inr es, accs', m))"
  by (simp add: serves_def)

lemma serves_pay [intro]:
  assumes "\<And>m'. serves accs m' (k m')"
  shows "serves accs m (pay units accs m k)"
proof -
  obtain r m' where c: "consume units m = (r, m')" by (cases "consume units m")
  show ?thesis
    using consume_meter_ok [OF c] assms [of m'] c
    by (cases r) (auto simp: pay_def fail_def serves_def split: option.splits prod.splits)
qed

lemma serves_attempt [intro]:
  assumes "untouched accs accs'" and "\<And>x. serves accs m (k x)"
  shows "serves accs m (attempt r accs' m k)"
  using assms by (auto simp: attempt_def split: sum.split)

lemma serves_if [intro]: "serves accs m a \<Longrightarrow> serves accs m b \<Longrightarrow> serves accs m (if p then a else b)"
  by simp

lemma serves_panic [intro]: "(\<And>x. serves accs m (k x)) \<Longrightarrow> serves accs m (case y of None \<Rightarrow> None | Some x \<Rightarrow> k x)"
  by (auto split: option.split)

lemma serves_checked [intro]:
  "untouched accs accs' \<Longrightarrow> (\<And>x. serves accs m (k x)) \<Longrightarrow> serves accs m (case y of None \<Rightarrow> fail e accs' m | Some x \<Rightarrow> k x)"
  by (auto split: option.split)

lemma serves_pair [intro]: "(\<And>a b. serves accs m (k a b)) \<Longrightarrow> serves accs m (case p of (a, b) \<Rightarrow> k a b)"
  by (cases p) simp

lemma serves_let [intro]: "serves accs m (k t) \<Longrightarrow> serves accs m (let x = t in k x)"
  by simp

lemma serves_bot [intro]: "(\<And>b. serves accs m (k b)) \<Longrightarrow> serves accs m (with_bot cs accs m k)"
  by (auto simp: with_bot_def)

lemmas serves_intros = serves_let serves_bot serves_pay serves_if serves_panic serves_checked serves_pair serves_attempt serves_fail serves_ok

lemma distribute_untouched: "untouched accs0 accs \<Longrightarrow> untouched accs0 (snd (distribute cs ds vault accs))"
  by (induction cs ds vault accs rule: distribute.induct) (auto split: sum.split option.split)

lemma apply_distributions_untouched: "untouched accs0 accs \<Longrightarrow> untouched accs0 (apply_distributions cs ws accs)"
  by (induction cs ws accs rule: apply_distributions.induct) auto

lemma payout_serves:
  assumes "\<And>left accs'. untouched accs accs' \<Longrightarrow> serves accs m (k left accs')"
  shows "serves accs m (case distribute cs ds v accs of (Inl err, accs') \<Rightarrow> fail err accs' m | (Inr left, accs') \<Rightarrow> k left accs')"
  using distribute_untouched [of accs accs cs ds v] assms by (auto split: prod.split sum.split)

lemma market_serves: "serves accs m (market_execute c cs slot ix accs m)"
proof (cases ix)
  case (CreateListing t d p k n)
  then show ?thesis by (simp add: process_create_listing_def) (intro serves_intros; simp)
next
  case (CreateEscrow rs a x r n)
  then show ?thesis by (simp only: process_create_escrow_def market_execute.simps) (intro serves_intros; simp)
next
  case (MarkDelivered n)
  then show ?thesis by (simp add: process_mark_delivered_def) (intro serves_intros; simp)
next
  case (Release n)
  then show ?thesis by (simp add: process_release_def) (intro payout_serves serves_intros; simp)
next
  case (Refund n)
  then show ?thesis by (simp add: process_refund_def) (intro serves_intros; simp)
next
  case (RaiseDispute n)
  then show ?thesis by (simp add: process_raise_dispute_def) (intro serves_intros; simp)
next
  case (ResolveDispute b n)
  then show ?thesis
    by (simp add: process_resolve_dispute_def Let_def) (intro serves_intros; simp add: apply_distributions_untouched)
qed

lemma bot_serves: "serves accs m (bot_execute c cs slot ix accs m)"
proof (cases ix)
  case (VerifyCapability t a mnt amt)
  then show ?thesis by (simp add: process_verify_capability_def) (intro serves_intros; simp)
next
  case (GrantCapability t a mx ms x n)
  then show ?thesis by (simp only: process_grant_capability_def bot_execute.simps) (intro serves_intros; simp)
next
  case (RegisterBot k n)
  then show ?thesis by (simp add: process_register_bot_def) (intro serves_intros; simp)
qed (simp_all add: process_rotate_key_def process_suspend_def process_unsuspend_def process_revoke_capability_def,
    (intro serves_intros; simp)+)

section \<open>The services as the runtime sees them\<close>

text \<open>How a panic of a processor reaches the runtime's caller is not in the source: \<open>panic\<close> stands for the error it is
  reported as.\<close>

definition platform_services :: "crypto \<Rightarrow> market_codecs \<Rightarrow> bot_codecs \<Rightarrow> program_error \<Rightarrow> service" where
  "platform_services c mc bc panic p data slot accs m =
     (case (if p = MARKETPLACE_PROGRAM_ID then market_process c mc data slot accs m else bot_process c bc data slot accs m) of
        None \<Rightarrow> (Inl panic, accs, m) | Some res \<Rightarrow> res)"

lemma platform_serves:
  assumes "platform_services c mc bc panic p data slot accs m = (r, accs', m')"
  shows "untouched accs accs' \<and> (meter_ok m \<longrightarrow> meter_ok m' \<and> budget m' = budget m)"
proof -
  have "serves accs m (market_process c mc data slot accs m)" "serves accs m (bot_process c bc data slot accs m)"
    by (auto simp: market_process_def bot_process_def market_serves bot_serves split: sum.split option.split)
  then show ?thesis
    using assms by (auto simp: platform_services_def serves_def split: if_splits option.splits)
qed

interpretation platform: service_provider "platform_services c mc bc panic" for c mc bc panic
proof
  fix p data slot accs m r accs' m' es
  show "platform_services c mc bc panic p data slot accs m = (r, accs', m') \<Longrightarrow> same_accounts accs accs'"
    using platform_serves by (fastforce simp: untouched_def)
  show "platform_services c mc bc panic p data slot accs m = (r, accs', m') \<Longrightarrow> meter_ok m \<Longrightarrow> meter_ok m' \<and> budget m' = budget m"
    using platform_serves by fastforce
  show "platform_services c mc bc panic p data slot accs m = (Inr es, accs', m') \<Longrightarrow> motes_total accs' = motes_total accs"
    using platform_serves untouched_total by fastforce
qed

text \<open>C1. A transaction that succeeds neither creates nor loses a mote, whatever programs it calls: the motes of all accounts of
  the bank together shrink by exactly the fee the receipt reports, which is \<open>5000 + max_units / 1000\<close>.\<close>

theorem transaction_conserves_motes:
  assumes "re_service env = platform_services c mc bc panic" and "execute_transaction env b ixs h slot ts p = (r, b')"
    and "rc_success r" and "finite (dom b)" and "iterates env"
  shows "map_total motes_of b' + unat (rc_fee_paid r) = map_total motes_of b
    \<and> rc_fee_paid r = calculate_fee (re_budget env)"
  using transaction_motes [OF assms(2,3,4) _ assms(5)] platform.service_provider_axioms assms(1) by metis

text \<open>C40. A transaction of native instructions never consumes more compute units than its budget allows, whether it succeeds or
  fails.\<close>

theorem transaction_units_bounded:
  assumes "re_service env = platform_services c mc bc panic" and "execute_transaction env b ixs h slot ts p = (r, b')"
    and "list_all native_ix ixs"
  shows "unat (rc_compute_units_consumed r) \<le> unat (max_units (re_budget env))"
  using transaction_units [OF assms(2,3)] platform.service_provider_axioms assms(1) by metis

section \<open>Witnesses\<close>

definition demo_env :: runtime_env where
  "demo_env = toy_env\<lparr>re_service := platform_services toy_crypto market_bincode bot_bincode UnsupportedProgram\<rparr>"

lemma demo_env_fields:
  "re_service demo_env = platform_services toy_crypto market_bincode bot_bincode UnsupportedProgram"
  "iterates demo_env" "re_budget demo_env = compute_budget_default"
  using toy_iterates by (simp_all add: demo_env_def iterates_def toy_env_def)

lemma demo_transfer_runs: "\<exists>r b'. execute_transaction demo_env toy_bank [toy_transfer] 1 2 3 11 = (r, b') \<and> rc_success r"
proof -
  have acc: "account_or_new (toy_bank 11) 11 = account_new_with_data 11 5000000 [] SYSTEM_PROGRAM_ID"
    "account_or_new (toy_bank 12) 12 = account_new 12"
    by (simp_all add: toy_bank_def account_or_new_def)
  show ?thesis
    by (simp add: execute_transaction_start run_loaded_def start_context_def context_new_def tx_keys_def loaded_def view_def
        transaction_metas_def toy_transfer_def instruction_new_def meta_new_def meta_signer_writable_def meta_writable_def
        account_new_with_data_def account_new_def acc calculate_fee_def demo_env_def toy_env_def execute_instruction_internal_def
        run_program_def is_native_program_def execute_native_program_def consume_def meter_new_def
        compute_budget_default_def DEFAULT_COMPUTE_UNITS_def Let_def SYSTEM_PROGRAM_ID_def system_from_bytes_def
        system_process_def process_transfer_def charge_cases move_motes_def checked_sub_def checked_add_def
        receipt_success_def split: sum.splits)
qed

theorem transaction_conserves_motes_witness:
  "\<exists>r b'. execute_transaction demo_env toy_bank [toy_transfer] 1 2 3 11 = (r, b') \<and> rc_success r
    \<and> map_total motes_of b' + 5200 = 5000000"
proof -
  obtain r b' where run: "execute_transaction demo_env toy_bank [toy_transfer] 1 2 3 11 = (r, b')" "rc_success r"
    using demo_transfer_runs by blast
  have "map_total motes_of toy_bank = 5000000"
    by (simp add: toy_bank_def map_total_def motes_of_def account_new_with_data_def)
  then show ?thesis
    using transaction_conserves_motes [OF demo_env_fields(1) run toy_bank_finite demo_env_fields(2)] run toy_fee
      demo_env_fields(3) by auto
qed

theorem transaction_units_bounded_witness:
  "unat (rc_compute_units_consumed (fst (execute_transaction demo_env toy_bank [toy_transfer] 1 2 3 11))) \<le> 200000"
  using transaction_units_bounded [OF demo_env_fields(1) _ toy_transfer_native, of toy_bank 1 2 3 11]
  by (cases "execute_transaction demo_env toy_bank [toy_transfer] 1 2 3 11")
    (simp add: demo_env_fields compute_budget_default_def DEFAULT_COMPUTE_UNITS_def)

end
