(* ===== verification/Merkle.thy ===== *)
theory Merkle
  imports Pda
begin

text \<open>
  Merkle roots and inclusion proofs of blocks: \<^verbatim>\<open>crates/dchat-blockchain/src/hash_merkle.rs\<close> and the domain-separated hashes of
  \<^verbatim>\<open>canonical.rs\<close>. blake3 is the field of the \<open>crypto\<close> record. Nothing is assumed about it: where a theorem is about
  collisions, the colliding inputs are computed.
\<close>

section \<open>Hashes and trees\<close>

definition DOMAIN_SEP_MERKLE_NODE_V1 :: "u8 list" where
  "DOMAIN_SEP_MERKLE_NODE_V1 = string_bytes ''dchat/merkle/node/v1''"

definition domain_hash :: "crypto \<Rightarrow> u8 list \<Rightarrow> u8 list \<Rightarrow> hash32" where
  "domain_hash c tag data = blake3 c (tag @ [0] @ data)"

definition domain_hash_parts :: "crypto \<Rightarrow> u8 list \<Rightarrow> u8 list list \<Rightarrow> hash32" where
  "domain_hash_parts c tag parts = blake3 c (tag @ [0] @ concat (map (\<lambda>p. p @ [0]) parts))"

definition merkle_node :: "crypto \<Rightarrow> hash32 \<Rightarrow> hash32 \<Rightarrow> hash32" where
  "merkle_node c l r = domain_hash_parts c DOMAIN_SEP_MERKLE_NODE_V1 [as_bytes l, as_bytes r]"

record merkle_proof_t =
  mp_path :: "hash32 list"
  mp_directions :: "bool list"

fun climb :: "crypto \<Rightarrow> hash32 \<Rightarrow> (hash32 \<times> bool) list \<Rightarrow> hash32" where
  "climb c current [] = current"
| "climb c current ((sib, is_right) # steps) =
     climb c (if is_right then merkle_node c sib current else merkle_node c current sib) steps"

definition proof_verify :: "crypto \<Rightarrow> merkle_proof_t \<Rightarrow> hash32 \<Rightarrow> hash32 \<Rightarrow> bool" where
  "proof_verify c p leaf expected_root =
     (if length (mp_path p) \<noteq> length (mp_directions p) then False
      else climb c leaf (zip (mp_path p) (mp_directions p)) = expected_root)"

text \<open>One turn of the loop: \<^verbatim>\<open>level.chunks(2)\<close>, where a single last node moves up unchanged.\<close>

fun next_level :: "crypto \<Rightarrow> hash32 list \<Rightarrow> hash32 list" where
  "next_level c [] = []"
| "next_level c [a] = [a]"
| "next_level c (a # b # rest) = merkle_node c a b # next_level c rest"

lemma length_next_level [simp]: "length (next_level c xs) = (length xs + 1) div 2"
  by (induction c xs rule: next_level.induct) simp_all

function reduce_levels :: "crypto \<Rightarrow> hash32 list \<Rightarrow> hash32 list" where
  "reduce_levels c level = (if 1 < length level then reduce_levels c (next_level c level) else level)"
  by pat_completeness auto
termination
  by (relation "measure (\<lambda>(c, level). length level)") auto

declare reduce_levels.simps [simp del]

definition merkle_root :: "crypto \<Rightarrow> hash32 list \<Rightarrow> hash32" where
  "merkle_root c leaves =
     (if leaves = [] then 0 else if length leaves = 1 then leaves ! 0 else reduce_levels c leaves ! 0)"

fun next_power_of_two :: "nat \<Rightarrow> nat" where
  "next_power_of_two n = (if n \<le> 1 then 1 else 2 * next_power_of_two ((n + 1) div 2))"

declare next_power_of_two.simps [simp del]

function proof_levels :: "crypto \<Rightarrow> nat \<Rightarrow> hash32 list \<Rightarrow> hash32 list \<Rightarrow> bool list \<Rightarrow> hash32 list \<times> bool list" where
  "proof_levels c idx level path directions =
     (if 1 < length level then
        (let sib = (if even idx then idx + 1 else idx - 1);
             (path, directions) = (if sib < length level then (path @ [level ! sib], directions @ [odd idx]) else (path, directions))
         in proof_levels c (idx div 2) (next_level c level) path directions)
      else (path, directions))"
  by pat_completeness auto
termination
  by (relation "measure (\<lambda>(c, idx, level, path, directions). length level)") auto

declare proof_levels.simps [simp del]

definition padded :: "hash32 list \<Rightarrow> hash32 list" where
  "padded leaves = leaves @ replicate (next_power_of_two (length leaves) - length leaves) 0"

definition merkle_proof :: "crypto \<Rightarrow> hash32 list \<Rightarrow> nat \<Rightarrow> (hash32 \<times> merkle_proof_t) option" where
  "merkle_proof c leaves leaf_index =
     (if length leaves \<le> leaf_index then None
      else if length leaves = 1 then Some (leaves ! leaf_index, \<lparr>mp_path = [], mp_directions = []\<rparr>)
      else let (path, directions) = proof_levels c leaf_index (padded leaves) [] []
           in Some (leaves ! leaf_index, \<lparr>mp_path = path, mp_directions = directions\<rparr>))"

section \<open>Proofs of full trees\<close>

lemma next_power_of_two_ge: "n \<le> next_power_of_two n"
proof (induction n rule: next_power_of_two.induct)
  case (1 n)
  then show ?case by (cases "n \<le> 1") (auto simp: next_power_of_two.simps [of n])
qed

lemma next_power_of_two_exp: "\<exists>k. next_power_of_two n = 2 ^ k"
proof (induction n rule: next_power_of_two.induct)
  case (1 n)
  show ?case
  proof (cases "n \<le> 1")
    case True
    then show ?thesis by (auto simp: next_power_of_two.simps [of n] intro: exI [of _ 0])
  next
    case False
    then obtain k where "next_power_of_two ((n + 1) div 2) = 2 ^ k" using 1 by auto
    then have "next_power_of_two n = 2 ^ Suc k" using False by (simp add: next_power_of_two.simps [of n])
    then show ?thesis ..
  qed
qed

lemma next_power_of_two_id: "next_power_of_two (2 ^ k) = 2 ^ k"
proof (induction k)
  case (Suc k)
  have "\<not> 2 ^ Suc k \<le> (1 :: nat)" "(2 ^ Suc k + 1) div 2 = (2 ^ k :: nat)"
    using one_less_power [of "2 :: nat" "Suc k"] by simp_all
  then show ?case using Suc by (subst next_power_of_two.simps) simp
qed (simp add: next_power_of_two.simps)

lemma length_padded: "\<exists>k. length (padded leaves) = 2 ^ k"
  using next_power_of_two_ge [of "length leaves"] next_power_of_two_exp [of "length leaves"] by (auto simp: padded_def)

lemma padded_full: "length leaves = 2 ^ k \<Longrightarrow> padded leaves = leaves"
  by (simp add: padded_def next_power_of_two_id)

lemma next_level_nth:
  "2 * j + 1 < length xs \<Longrightarrow> next_level c xs ! j = merkle_node c (xs ! (2 * j)) (xs ! (2 * j + 1))"
proof (induction c xs arbitrary: j rule: next_level.induct)
  case (3 c a b rest)
  then show ?case by (cases j) auto
qed auto

lemma proof_levels_spec:
  assumes "length level = 2 ^ k" and "i < 2 ^ k"
  shows "\<exists>ps ds. proof_levels c i level path dirs = (path @ ps, dirs @ ds) \<and> length ps = k \<and> length ds = k
    \<and> climb c (level ! i) (zip ps ds) = reduce_levels c level ! 0"
  using assms
proof (induction k arbitrary: i level path dirs)
  case 0
  then have "\<not> 1 < length level" "i = 0" by simp_all
  then show ?case by (simp add: proof_levels.simps [of c 0 level] reduce_levels.simps [of c level])
next
  case (Suc k)
  define sib where "sib = (if even i then i + 1 else i - 1)"
  have len: "1 < length level" "length (next_level c level) = 2 ^ k" "i div 2 < 2 ^ k"
    using Suc.prems one_less_power [of "2 :: nat" "Suc k"] by auto
  have half: "2 * (i div 2) + 1 < length level" using Suc.prems len(3) by simp
  have sib: "sib < length level" using Suc.prems half by (auto simp: sib_def elim!: oddE)
  obtain ps ds where IH: "proof_levels c (i div 2) (next_level c level) (path @ [level ! sib]) (dirs @ [odd i])
      = ((path @ [level ! sib]) @ ps, (dirs @ [odd i]) @ ds)" "length ps = k" "length ds = k"
      "climb c (next_level c level ! (i div 2)) (zip ps ds) = reduce_levels c (next_level c level) ! 0"
    using Suc.IH [OF len(2,3)] by blast
  have "next_level c level ! (i div 2) = (if odd i then merkle_node c (level ! sib) (level ! i) else merkle_node c (level ! i) (level ! sib))"
    using next_level_nth [OF half] by (auto simp: sib_def elim!: oddE)
  then have "climb c (level ! i) (zip (level ! sib # ps) (odd i # ds)) = reduce_levels c level ! 0"
    using IH(4) len(1) by (simp add: reduce_levels.simps [of c level])
  moreover have "proof_levels c i level path dirs = (path @ level ! sib # ps, dirs @ odd i # ds)"
    using IH(1) len(1) sib by (simp add: proof_levels.simps [of c i level] sib_def Let_def)
  ultimately show ?case using IH(2,3) by (intro exI [of _ "level ! sib # ps"] exI [of _ "odd i # ds"]) simp
qed

section \<open>Theorems\<close>

lemma merkle_root_padded:
  assumes "1 < length leaves"
  shows "merkle_root c (padded leaves) = reduce_levels c (padded leaves) ! 0"
  using assms by (auto simp: merkle_root_def padded_def)

text \<open>C39. Inclusion proofs are complete for the tree they are made of: for every index in range a proof exists, carries the leaf of
  that index, and verifies against the root of the leaves padded with zero hashes to a power of two, so against the
  root of the leaves themselves when their number is a power of two.\<close>

theorem merkle_proof_complete:
  assumes "i < length leaves"
  shows "\<exists>p. merkle_proof c leaves i = Some (leaves ! i, p) \<and> proof_verify c p (leaves ! i) (merkle_root c (padded leaves))
    \<and> (length leaves = 2 ^ k \<longrightarrow> proof_verify c p (leaves ! i) (merkle_root c leaves))"
proof (cases "length leaves = 1")
  case True
  then have "padded leaves = leaves" "i = 0" using padded_full [of leaves 0] assms by simp_all
  then show ?thesis using True assms by (auto simp: merkle_proof_def proof_verify_def merkle_root_def)
next
  case False
  then have len: "1 < length leaves" using assms by linarith
  obtain n where n: "length (padded leaves) = 2 ^ n" using length_padded by blast
  have i: "i < 2 ^ n" "padded leaves ! i = leaves ! i" using assms n by (auto simp: padded_def nth_append)
  obtain ps ds where "proof_levels c i (padded leaves) [] [] = (ps, ds)" "length ps = n" "length ds = n"
    "climb c (leaves ! i) (zip ps ds) = merkle_root c (padded leaves)"
    using proof_levels_spec [OF n i(1), of c "[]" "[]"] merkle_root_padded [OF len] i(2) by auto
  then show ?thesis using assms False padded_full by (auto simp: merkle_proof_def proof_verify_def)
qed

text \<open>The search for a collision along two paths to one root.\<close>

fun find_collision ::
    "crypto \<Rightarrow> hash32 \<Rightarrow> hash32 \<Rightarrow> (hash32 \<times> hash32 \<times> bool) list \<Rightarrow> ((hash32 \<times> hash32) \<times> hash32 \<times> hash32) option" where
  "find_collision c x y [] = None"
| "find_collision c x y ((s, t, is_right) # steps) =
     (let p = (if is_right then (s, x) else (x, s)); q = (if is_right then (t, y) else (y, t));
          hp = merkle_node c (fst p) (snd p); hq = merkle_node c (fst q) (snd q)
      in if p \<noteq> q \<and> hp = hq then Some (p, q) else find_collision c hp hq steps)"

lemma find_collision_found:
  assumes "length ps = length ds" and "length qs = length ds" and "x \<noteq> y"
    and "climb c x (zip ps ds) = climb c y (zip qs ds)"
  shows "\<exists>p q. find_collision c x y (zip ps (zip qs ds)) = Some (p, q) \<and> p \<noteq> q
    \<and> merkle_node c (fst p) (snd p) = merkle_node c (fst q) (snd q)"
  using assms
proof (induction ds arbitrary: ps qs x y)
  case (Cons d ds)
  obtain s ps' t qs' where ps: "ps = s # ps'" "qs = t # qs'" using Cons.prems(1,2) by (cases ps; cases qs) auto
  define p q where "p = (if d then (s, x) else (x, s))" and "q = (if d then (t, y) else (y, t))"
  have "p \<noteq> q" using Cons.prems(3) by (auto simp: p_def q_def)
  moreover have "climb c (merkle_node c (fst p) (snd p)) (zip ps' ds) = climb c (merkle_node c (fst q) (snd q)) (zip qs' ds)"
    using Cons.prems(4) by (cases d) (simp_all add: ps p_def q_def)
  ultimately show ?case
    using Cons.IH [of ps' qs' "merkle_node c (fst p) (snd p)" "merkle_node c (fst q) (snd q)"] Cons.prems(1,2)
    by (cases "merkle_node c (fst p) (snd p) = merkle_node c (fst q) (snd q)") (auto simp: ps Let_def simp flip: p_def q_def)
qed simp

text \<open>A root binds the leaf at each position: from two proofs with the same directions that verify different leaves against
  one root, two different inputs of the node hash with the same output can be computed.\<close>

theorem merkle_root_binding:
  assumes "proof_verify c p x rt" and "proof_verify c q y rt" and "mp_directions p = mp_directions q" and "x \<noteq> y"
  shows "\<exists>l r l' r'. find_collision c x y (zip (mp_path p) (zip (mp_path q) (mp_directions q))) = Some ((l, r), (l', r'))
    \<and> (l, r) \<noteq> (l', r') \<and> merkle_node c l r = merkle_node c l' r'"
  using find_collision_found [of "mp_path p" "mp_directions q" "mp_path q" x y c] assms
  by (auto simp: proof_verify_def split: if_splits)

text \<open>When the number of leaves is no power of two, the proofs and the root are of different trees: of three leaves, the proof
  of the last one verifies against the root only if the node hash maps it and the zero hash to itself, or collides.\<close>

theorem merkle_proof_fails_on_three:
  assumes "merkle_node c z 0 \<noteq> z" and "merkle_node c (merkle_node c x y) (merkle_node c z 0) \<noteq> merkle_node c (merkle_node c x y) z"
  shows "\<exists>p. merkle_proof c [x, y, z] 2 = Some (z, p) \<and> \<not> proof_verify c p z (merkle_root c [x, y, z])"
proof -
  have "next_power_of_two 3 = 4" by (simp add: next_power_of_two.simps)
  then have pad: "padded [x, y, z] = [x, y, z, 0]" by (simp add: padded_def numeral_3_eq_3)
  have p: "proof_levels c 2 [x, y, z, 0] [] [] = ([0, merkle_node c x y], [False, True])"
    by (simp add: proof_levels.simps)
  have "merkle_root c [x, y, z] = merkle_node c (merkle_node c x y) z"
    by (simp add: merkle_root_def reduce_levels.simps)
  then show ?thesis using assms p by (simp add: merkle_proof_def pad proof_verify_def)
qed

section \<open>Witnesses\<close>

text \<open>A hash that is the sum of its bytes.\<close>

definition sum_crypto :: crypto where
  "sum_crypto = \<lparr>blake3 = (\<lambda>bs. sum_list (map ucast bs)), decompresses = (\<lambda>_. False)\<rparr>"

theorem merkle_proof_complete_witness:
  "\<exists>p. merkle_proof sum_crypto [5, 6, 7, 8] 2 = Some (7, p) \<and> proof_verify sum_crypto p 7 (merkle_root sum_crypto [5, 6, 7, 8])"
  using merkle_proof_complete [of 2 "[5, 6, 7, 8]" sum_crypto 2] by auto

lemma sum_node: "merkle_node sum_crypto l r = sum_list (map ucast (DOMAIN_SEP_MERKLE_NODE_V1 @ as_bytes l @ as_bytes r))"
  by (simp add: merkle_node_def domain_hash_parts_def sum_crypto_def)

theorem merkle_root_binding_witness:
  "\<exists>l r l' r'. find_collision sum_crypto 5 6 [(6, 5, False)] = Some ((l, r), (l', r'))
    \<and> (l, r) \<noteq> (l', r') \<and> merkle_node sum_crypto l r = merkle_node sum_crypto l' r'"
proof -
  let ?r = "merkle_node sum_crypto 5 6"
  have "merkle_node sum_crypto 6 5 = ?r" by (simp add: sum_node add_ac)
  then have "proof_verify sum_crypto \<lparr>mp_path = [6], mp_directions = [False]\<rparr> 5 ?r"
    "proof_verify sum_crypto \<lparr>mp_path = [5], mp_directions = [False]\<rparr> 6 ?r" by (simp_all add: proof_verify_def)
  then show ?thesis using merkle_root_binding [of sum_crypto _ 5 ?r _ 6] by fastforce
qed

theorem merkle_proof_fails_on_three_witness:
  "\<exists>p. merkle_proof sum_crypto [1, 2, 3] 2 = Some (3, p) \<and> \<not> proof_verify sum_crypto p 3 (merkle_root sum_crypto [1, 2, 3])"
proof (rule merkle_proof_fails_on_three)
  show "merkle_node sum_crypto 3 0 \<noteq> 3" by code_simp
  show "merkle_node sum_crypto (merkle_node sum_crypto 1 2) (merkle_node sum_crypto 3 0)
      \<noteq> merkle_node sum_crypto (merkle_node sum_crypto 1 2) 3" by code_simp
qed

end
