(* ===== verification/Chain_Core.thy ===== *)
theory Chain_Core
  imports Pda
begin

text \<open>
  What the currency-chain components (crate \<^verbatim>\<open>dchat-blockchain\<close>) share: the error enum and the coin unit of
  \<^verbatim>\<open>dchat-core\<close>, user ids, points in time, and the operations of the signature library. The message texts of errors
  are left out. Ed25519 and SHA-256 are third-party code, so they are the fields of a record; a signature is 64 bytes,
  a key is 32 bytes.
\<close>

datatype core_error =
    Crypto | Network | Storage | Identity | Messaging | Chain | Governance | Config | Serialization | Io
  | InvalidInput | PermissionDenied | NotFound | AlreadyExists | Timeout | Internal

type_synonym 'a core_result = "core_error + 'a"

type_synonym user_id = "128 word"

text \<open>A \<^verbatim>\<open>DateTime<Utc>\<close> in nanoseconds since the epoch; a \<^verbatim>\<open>Duration\<close> is a difference of two.\<close>

type_synonym timestamp = int

definition duration_seconds :: "int \<Rightarrow> int" where
  "duration_seconds s = s * 1000000000"

definition duration_days :: "int \<Rightarrow> int" where
  "duration_days d = duration_seconds (d * 86400)"

definition MOTES_PER_DCHAT :: u64 where
  "MOTES_PER_DCHAT = 100000000"

record ed25519 =
  sha256 :: "u8 list \<Rightarrow> hash32"
  ed_sign :: "hash32 \<Rightarrow> u8 list \<Rightarrow> 512 word"
  ed_verify :: "hash32 \<Rightarrow> u8 list \<Rightarrow> 512 word \<Rightarrow> bool"
  ed_public :: "hash32 \<Rightarrow> hash32"
  ed_key_ok :: "hash32 \<Rightarrow> bool"

text \<open>\<^verbatim>\<open>Signature::to_bytes\<close> and \<^verbatim>\<open>Signature::from_bytes\<close> behind the length check of \<^verbatim>\<open>try_into\<close>.\<close>

definition signature_to_bytes :: "512 word \<Rightarrow> u8 list" where
  "signature_to_bytes s = le_bytes 64 s"

definition signature_from_slice :: "u8 list \<Rightarrow> (512 word) option" where
  "signature_from_slice bs = (if length bs = 64 then Some (of_le_bytes bs) else None)"

lemma signature_roundtrip [simp]: "signature_from_slice (signature_to_bytes s) = Some s"
  by (simp add: signature_from_slice_def signature_to_bytes_def of_le_bytes_le_bytes)

text \<open>What the library documents: the public key of a signing key decodes, and verifies what the signing key signs.\<close>

definition signs_correctly :: "ed25519 \<Rightarrow> bool" where
  "signs_correctly E \<longleftrightarrow> (\<forall>k m. ed_key_ok E (ed_public E k) \<and> ed_verify E (ed_public E k) m (ed_sign E k m))"

text \<open>A concrete instance for examples: the signature of a message is the key followed by the sum of the message's bytes.\<close>

definition toy_ed25519 :: ed25519 where
  "toy_ed25519 = \<lparr>sha256 = (\<lambda>bs. sum_list (map ucast bs)),
     ed_sign = (\<lambda>k m. word_cat k (sum_list (map ucast m) :: 256 word)),
     ed_verify = (\<lambda>k m s. s = word_cat k (sum_list (map ucast m) :: 256 word)),
     ed_public = (\<lambda>k. k), ed_key_ok = (\<lambda>_. True)\<rparr>"

lemma toy_signs_correctly: "signs_correctly toy_ed25519"
  by (simp add: signs_correctly_def toy_ed25519_def)

end
