(* ===== verification/Payment_Channels.thy ===== *)
theory Payment_Channels
  imports Chain_Core
begin

text \<open>
  Off-chain payment channels: \<^verbatim>\<open>crates/dchat-blockchain/src/payment_channels.rs\<close>. A channel locks a capacity of motes
  between a sender and a receiver; states signed by the sender move the balance, and a channel ends by a cooperative
  close or by a unilateral close that can be challenged for 48 hours. The clock, random ids and the signature library are
  parameters. The manager keeps its four tables behind locks; an operation is a function from tables to tables.
\<close>

section \<open>States and signatures\<close>

definition DISPUTE_WINDOW_SECONDS :: int where "DISPUTE_WINDOW_SECONDS = 48 * 60 * 60"
definition MIN_CHANNEL_CAPACITY :: u64 where "MIN_CHANNEL_CAPACITY = 10 * MOTES_PER_DCHAT"
definition MAX_CHANNEL_CAPACITY :: u64 where "MAX_CHANNEL_CAPACITY = 100000 * MOTES_PER_DCHAT"

record channel_state =
  cs_nonce :: u64
  sender_balance :: u64
  receiver_balance :: u64

definition channel_initial :: "u64 \<Rightarrow> channel_state" where
  "channel_initial capacity = \<lparr>cs_nonce = 0, sender_balance = capacity, receiver_balance = 0\<rparr>"

definition state_total :: "channel_state \<Rightarrow> u64" where
  "state_total s = sender_balance s + receiver_balance s"

record signed_update =
  upd_state :: channel_state
  sender_signature :: "u8 list"
  receiver_signature :: "u8 list option"
  upd_timestamp :: timestamp

definition compute_message :: "ed25519 \<Rightarrow> string \<Rightarrow> channel_state \<Rightarrow> u8 list" where
  "compute_message E channel_id s = as_bytes (sha256 E (string_bytes channel_id
     @ le_bytes 8 (cs_nonce s) @ le_bytes 8 (sender_balance s) @ le_bytes 8 (receiver_balance s)))"

definition new_from_sender :: "ed25519 \<Rightarrow> timestamp \<Rightarrow> channel_state \<Rightarrow> string \<Rightarrow> hash32 \<Rightarrow> signed_update" where
  "new_from_sender E now s channel_id sender_key =
     \<lparr>upd_state = s, sender_signature = signature_to_bytes (ed_sign E sender_key (compute_message E channel_id s)),
      receiver_signature = None, upd_timestamp = now\<rparr>"

definition add_receiver_signature :: "ed25519 \<Rightarrow> string \<Rightarrow> hash32 \<Rightarrow> signed_update \<Rightarrow> signed_update" where
  "add_receiver_signature E channel_id receiver_key u =
     u\<lparr>receiver_signature := Some (signature_to_bytes (ed_sign E receiver_key (compute_message E channel_id (upd_state u))))\<rparr>"

definition verify_sender_signature :: "ed25519 \<Rightarrow> string \<Rightarrow> hash32 \<Rightarrow> signed_update \<Rightarrow> unit core_result" where
  "verify_sender_signature E channel_id sender_key u =
     (case signature_from_slice (sender_signature u) of
        None \<Rightarrow> Inl InvalidInput
      | Some signature \<Rightarrow>
          if ed_verify E sender_key (compute_message E channel_id (upd_state u)) signature then Inr () else Inl InvalidInput)"

definition verify_receiver_signature :: "ed25519 \<Rightarrow> string \<Rightarrow> hash32 \<Rightarrow> signed_update \<Rightarrow> unit core_result" where
  "verify_receiver_signature E channel_id receiver_key u =
     (case receiver_signature u of
        None \<Rightarrow> Inl InvalidInput
      | Some sig_vec \<Rightarrow>
          (case signature_from_slice sig_vec of
             None \<Rightarrow> Inl InvalidInput
           | Some signature \<Rightarrow>
               if ed_verify E receiver_key (compute_message E channel_id (upd_state u)) signature then Inr () else Inl InvalidInput))"

definition is_bilateral :: "signed_update \<Rightarrow> bool" where
  "is_bilateral u \<longleftrightarrow> receiver_signature u \<noteq> None"

section \<open>A channel\<close>

datatype channel_status = Open | Closing | Closed | Disputed

record payment_channel =
  channel_id :: string
  sender_id :: user_id
  receiver_id :: user_id
  sender_key :: hash32
  receiver_key :: hash32
  capacity :: u64
  current_state :: channel_state
  latest_bilateral :: "signed_update option"
  ch_status :: channel_status
  opened_at :: timestamp
  last_update :: timestamp
  funding_tx_id :: "string option"

definition channel_new ::
    "string \<Rightarrow> timestamp \<Rightarrow> user_id \<Rightarrow> user_id \<Rightarrow> hash32 \<Rightarrow> hash32 \<Rightarrow> u64 \<Rightarrow> payment_channel core_result" where
  "channel_new uuid now sid rid skey rkey cap =
     (if cap < MIN_CHANNEL_CAPACITY then Inl InvalidInput
      else if cap > MAX_CHANNEL_CAPACITY then Inl InvalidInput
      else Inr \<lparr>channel_id = uuid, sender_id = sid, receiver_id = rid, sender_key = skey, receiver_key = rkey,
             capacity = cap, current_state = channel_initial cap, latest_bilateral = None, ch_status = Open,
             opened_at = now, last_update = now, funding_tx_id = None\<rparr>)"

definition get_sender_key :: "ed25519 \<Rightarrow> payment_channel \<Rightarrow> hash32 core_result" where
  "get_sender_key E ch = (if ed_key_ok E (sender_key ch) then Inr (sender_key ch) else Inl Internal)"

definition get_receiver_key :: "ed25519 \<Rightarrow> payment_channel \<Rightarrow> hash32 core_result" where
  "get_receiver_key E ch = (if ed_key_ok E (receiver_key ch) then Inr (receiver_key ch) else Inl Internal)"

text \<open>The last lines of \<^verbatim>\<open>update_state\<close> and of \<^verbatim>\<open>process_payment\<close>: the state is replaced, a fully signed update is kept.\<close>

definition apply_update :: "timestamp \<Rightarrow> signed_update \<Rightarrow> payment_channel \<Rightarrow> payment_channel" where
  "apply_update now u ch =
     ch\<lparr>current_state := upd_state u, last_update := now,
        latest_bilateral := (if is_bilateral u then Some u else latest_bilateral ch)\<rparr>"

definition update_state :: "ed25519 \<Rightarrow> timestamp \<Rightarrow> signed_update \<Rightarrow> payment_channel \<Rightarrow> payment_channel core_result" where
  "update_state E now u ch =
     (if ch_status ch \<noteq> Open then Inl InvalidInput
      else if cs_nonce (upd_state u) \<le> cs_nonce (current_state ch) then Inl InvalidInput
      else if state_total (upd_state u) \<noteq> capacity ch then Inl InvalidInput
      else case get_sender_key E ch of
        Inl e \<Rightarrow> Inl e
      | Inr skey \<Rightarrow>
          (case verify_sender_signature E (channel_id ch) skey u of
             Inl e \<Rightarrow> Inl e
           | Inr _ \<Rightarrow>
               if receiver_signature u \<noteq> None then
                 (case get_receiver_key E ch of
                    Inl e \<Rightarrow> Inl e
                  | Inr rkey \<Rightarrow>
                      (case verify_receiver_signature E (channel_id ch) rkey u of
                         Inl e \<Rightarrow> Inl e
                       | Inr _ \<Rightarrow> Inr (apply_update now u ch)))
               else Inr (apply_update now u ch)))"

text \<open>The state a payment of an amount leads to.\<close>

definition paid_state :: "u64 \<Rightarrow> channel_state \<Rightarrow> channel_state" where
  "paid_state amount s = \<lparr>cs_nonce = cs_nonce s + 1, sender_balance = sender_balance s - amount,
     receiver_balance = receiver_balance s + amount\<rparr>"

definition create_payment :: "ed25519 \<Rightarrow> timestamp \<Rightarrow> u64 \<Rightarrow> hash32 \<Rightarrow> payment_channel \<Rightarrow> signed_update core_result" where
  "create_payment E now amount skey ch =
     (if ch_status ch \<noteq> Open then Inl InvalidInput
      else if amount > sender_balance (current_state ch) then Inl InvalidInput
      else Inr (new_from_sender E now (paid_state amount (current_state ch)) (channel_id ch) skey))"

section \<open>The manager\<close>

record close_request =
  cr_channel_id :: string
  final_state :: signed_update
  initiator :: user_id
  cr_submitted_at :: timestamp
  dispute_deadline :: timestamp
  challenged :: bool
  cr_chain_tx_id :: "string option"

record close_challenge =
  cc_channel_id :: string
  newer_state :: signed_update
  challenger :: user_id
  cc_submitted_at :: timestamp
  cc_chain_tx_id :: "string option"

datatype channel_error =
    ChannelNotFound string | InvalidNonce u64 u64 | BalanceInvariantViolation u64 u64 | InvalidSenderSignature
  | InvalidReceiverSignature | NotChannelParty | CannotChallengeSelf | NoPendingClose | StateNotNewer | ChannelNotOpen
  | InsufficientCredits u64 u64 | DisputePeriodExpired | DisputePeriodActive | ChannelInternal

record fraud_event =
  fe_channel_id :: string
  fraudster :: user_id
  submitted_nonce :: u64
  actual_nonce :: u64
  detected_at :: timestamp
  slashed :: bool

record channel_manager =
  channels :: "string \<rightharpoonup> payment_channel"
  pending_closes :: "string \<rightharpoonup> close_request"
  challenges :: "string \<rightharpoonup> close_challenge"
  fraud_events :: "fraud_event list"

definition manager_new :: channel_manager where
  "manager_new = \<lparr>channels = Map.empty, pending_closes = Map.empty, challenges = Map.empty, fraud_events = []\<rparr>"

definition open_channel ::
    "string \<Rightarrow> timestamp \<Rightarrow> user_id \<Rightarrow> user_id \<Rightarrow> hash32 \<Rightarrow> hash32 \<Rightarrow> u64 \<Rightarrow> channel_manager
      \<Rightarrow> (channel_manager \<times> payment_channel) core_result" where
  "open_channel uuid now sid rid skey rkey cap m =
     (case channel_new uuid now sid rid skey rkey cap of
        Inl e \<Rightarrow> Inl e
      | Inr ch \<Rightarrow> Inr (m\<lparr>channels := (channels m)(channel_id ch \<mapsto> ch)\<rparr>, ch))"

definition get_channel :: "string \<Rightarrow> channel_manager \<Rightarrow> payment_channel core_result" where
  "get_channel cid m = (case channels m cid of None \<Rightarrow> Inl NotFound | Some ch \<Rightarrow> Inr ch)"

definition set_channel :: "string \<Rightarrow> payment_channel \<Rightarrow> channel_manager \<Rightarrow> channel_manager" where
  "set_channel cid ch m = m\<lparr>channels := (channels m)(cid \<mapsto> ch)\<rparr>"

definition update_channel_state ::
    "ed25519 \<Rightarrow> timestamp \<Rightarrow> string \<Rightarrow> signed_update \<Rightarrow> channel_manager \<Rightarrow> channel_manager core_result" where
  "update_channel_state E now cid u m =
     (case channels m cid of
        None \<Rightarrow> Inl NotFound
      | Some ch \<Rightarrow>
          (case update_state E now u ch of Inl e \<Rightarrow> Inl e | Inr ch' \<Rightarrow> Inr (set_channel cid ch' m)))"

text \<open>The transaction id is returned as the parts it is formatted from: channel, nonce and time.\<close>

definition process_payment ::
    "ed25519 \<Rightarrow> timestamp \<Rightarrow> string \<Rightarrow> signed_update \<Rightarrow> channel_manager
      \<Rightarrow> channel_error + (channel_manager \<times> string \<times> u64 \<times> timestamp)" where
  "process_payment E now cid u m =
     (case channels m cid of
        None \<Rightarrow> Inl (ChannelNotFound cid)
      | Some ch \<Rightarrow>
          if ch_status ch \<noteq> Open then Inl ChannelNotOpen
          else if cs_nonce (upd_state u) \<noteq> cs_nonce (current_state ch) + 1 then
            Inl (InvalidNonce (cs_nonce (current_state ch) + 1) (cs_nonce (upd_state u)))
          else if sender_balance (upd_state u) + receiver_balance (upd_state u) \<noteq> capacity ch then
            Inl (BalanceInvariantViolation (capacity ch) (sender_balance (upd_state u) + receiver_balance (upd_state u)))
          else case get_sender_key E ch of
            Inl _ \<Rightarrow> Inl ChannelInternal
          | Inr skey \<Rightarrow>
              (case verify_sender_signature E cid skey u of
                 Inl _ \<Rightarrow> Inl InvalidSenderSignature
               | Inr _ \<Rightarrow> Inr (set_channel cid (apply_update now u ch) m, cid, cs_nonce (upd_state u), now)))"

definition initiate_unilateral_close ::
    "ed25519 \<Rightarrow> timestamp \<Rightarrow> string \<Rightarrow> signed_update \<Rightarrow> user_id \<Rightarrow> channel_manager
      \<Rightarrow> channel_error + (channel_manager \<times> close_request)" where
  "initiate_unilateral_close E now cid fs who m =
     (case channels m cid of
        None \<Rightarrow> Inl (ChannelNotFound cid)
      | Some ch \<Rightarrow>
          if who \<noteq> sender_id ch \<and> who \<noteq> receiver_id ch then Inl NotChannelParty
          else case (if who = sender_id ch then get_sender_key E ch else get_receiver_key E ch) of
            Inl _ \<Rightarrow> Inl ChannelInternal
          | Inr key \<Rightarrow>
              (case (if who = sender_id ch then verify_sender_signature E cid key fs else Inr ()) of
                 Inl _ \<Rightarrow> Inl InvalidSenderSignature
               | Inr _ \<Rightarrow>
                   let req = \<lparr>cr_channel_id = cid, final_state = fs, initiator = who, cr_submitted_at = now,
                              dispute_deadline = now + duration_seconds DISPUTE_WINDOW_SECONDS,
                              challenged = False, cr_chain_tx_id = None\<rparr>;
                       m1 = set_channel cid (ch\<lparr>ch_status := Closing\<rparr>) m
                   in Inr (m1\<lparr>pending_closes := (pending_closes m1)(cid \<mapsto> req)\<rparr>, req)))"

text \<open>The writes at the end of \<^verbatim>\<open>challenge_close\<close>, each under a lock of its own.\<close>

definition record_challenge ::
    "timestamp \<Rightarrow> string \<Rightarrow> close_request \<Rightarrow> signed_update \<Rightarrow> user_id \<Rightarrow> channel_manager \<Rightarrow> channel_manager \<times> close_challenge" where
  "record_challenge now cid pending newer who m =
     (let ev = \<lparr>fe_channel_id = cid, fraudster = initiator pending, submitted_nonce = cs_nonce (upd_state (final_state pending)),
                actual_nonce = cs_nonce (upd_state newer), detected_at = now, slashed = False\<rparr>;
          c = \<lparr>cc_channel_id = cid, newer_state = newer, challenger = who, cc_submitted_at = now, cc_chain_tx_id = None\<rparr>
      in (\<lparr>channels = (channels m)(cid := map_option (\<lambda>ch. ch\<lparr>ch_status := Disputed, current_state := upd_state newer\<rparr>) (channels m cid)),
           pending_closes = (pending_closes m)(cid := map_option (\<lambda>r. r\<lparr>challenged := True\<rparr>) (pending_closes m cid)),
           challenges = (challenges m)(cid \<mapsto> c),
           fraud_events = fraud_events m @ [ev]\<rparr>, c))"

definition challenge_close ::
    "ed25519 \<Rightarrow> timestamp \<Rightarrow> string \<Rightarrow> signed_update \<Rightarrow> user_id \<Rightarrow> channel_manager
      \<Rightarrow> channel_error + (channel_manager \<times> close_challenge)" where
  "challenge_close E now cid newer who m =
     (case pending_closes m cid of
        None \<Rightarrow> Inl NoPendingClose
      | Some pending \<Rightarrow>
          if now \<ge> dispute_deadline pending then Inl DisputePeriodExpired
          else if who = initiator pending then Inl CannotChallengeSelf
          else if cs_nonce (upd_state newer) \<le> cs_nonce (upd_state (final_state pending)) then Inl StateNotNewer
          else case get_channel cid m of
            Inl _ \<Rightarrow> Inl (ChannelNotFound cid)
          | Inr ch \<Rightarrow>
              (case get_sender_key E ch of
                 Inl _ \<Rightarrow> Inl ChannelInternal
               | Inr skey \<Rightarrow>
                   (case get_receiver_key E ch of
                      Inl _ \<Rightarrow> Inl ChannelInternal
                    | Inr rkey \<Rightarrow>
                        (case verify_sender_signature E cid skey newer of
                           Inl _ \<Rightarrow> Inl InvalidSenderSignature
                         | Inr _ \<Rightarrow>
                             if receiver_signature newer = None then Inl ChannelInternal
                             else case verify_receiver_signature E cid rkey newer of
                               Inl _ \<Rightarrow> Inl InvalidReceiverSignature
                             | Inr _ \<Rightarrow> Inr (record_challenge now cid pending newer who m)))))"

definition finalize_unilateral_close ::
    "timestamp \<Rightarrow> string \<Rightarrow> channel_manager \<Rightarrow> channel_error + (channel_manager \<times> u64 \<times> u64)" where
  "finalize_unilateral_close now cid m =
     (case pending_closes m cid of
        None \<Rightarrow> Inl NoPendingClose
      | Some pending \<Rightarrow>
          if now < dispute_deadline pending then Inl DisputePeriodActive
          else if challenged pending then Inl ChannelInternal
          else Inr (m\<lparr>channels := (channels m)(cid := map_option (\<lambda>ch. ch\<lparr>ch_status := Closed\<rparr>) (channels m cid)),
                      pending_closes := (pending_closes m)(cid := None)\<rparr>,
                 sender_balance (upd_state (final_state pending)), receiver_balance (upd_state (final_state pending))))"

definition cooperative_close ::
    "ed25519 \<Rightarrow> string \<Rightarrow> signed_update \<Rightarrow> channel_manager \<Rightarrow> (channel_manager \<times> u64 \<times> u64) core_result" where
  "cooperative_close E cid fs m =
     (if \<not> is_bilateral fs then Inl InvalidInput
      else case channels m cid of
        None \<Rightarrow> Inl NotFound
      | Some ch \<Rightarrow>
          (case get_sender_key E ch of
             Inl e \<Rightarrow> Inl e
           | Inr skey \<Rightarrow>
               (case get_receiver_key E ch of
                  Inl e \<Rightarrow> Inl e
                | Inr rkey \<Rightarrow>
                    (case verify_sender_signature E cid skey fs of
                       Inl e \<Rightarrow> Inl e
                     | Inr _ \<Rightarrow>
                         (case verify_receiver_signature E cid rkey fs of
                            Inl e \<Rightarrow> Inl e
                          | Inr _ \<Rightarrow>
                              if state_total (upd_state fs) \<noteq> capacity ch then Inl InvalidInput
                              else Inr (set_channel cid (ch\<lparr>ch_status := Closed, current_state := upd_state fs\<rparr>) m,
                                     sender_balance (upd_state fs), receiver_balance (upd_state fs)))))))"

definition get_fraud_events :: "channel_manager \<Rightarrow> fraud_event list" where
  "get_fraud_events m = fraud_events m"

definition mark_fraud_slashed :: "string \<Rightarrow> channel_manager \<Rightarrow> channel_manager" where
  "mark_fraud_slashed cid m =
     m\<lparr>fraud_events := map (\<lambda>ev. if fe_channel_id ev = cid then ev\<lparr>slashed := True\<rparr> else ev) (fraud_events m)\<rparr>"

text \<open>\<^verbatim>\<open>values()\<close> of a hash map come in an order that is a parameter: the ids in the order of the iteration.\<close>

definition get_user_channels :: "string list \<Rightarrow> user_id \<Rightarrow> channel_manager \<Rightarrow> payment_channel list" where
  "get_user_channels ids user m = filter (\<lambda>c. sender_id c = user \<or> receiver_id c = user) (filter_map (channels m) ids)"

definition get_pending_close :: "string \<Rightarrow> channel_manager \<Rightarrow> close_request option" where
  "get_pending_close cid m = pending_closes m cid"

section \<open>Message credits\<close>

record credits_channel =
  mc_channel_id :: string
  pending_messages :: u64
  fee_per_message :: u64
  sender_signing_key :: "hash32 option"

definition DEFAULT_MESSAGE_FEE :: u64 where "DEFAULT_MESSAGE_FEE = MOTES_PER_DCHAT div 10"

definition credits_new :: "string \<Rightarrow> u64 option \<Rightarrow> credits_channel" where
  "credits_new cid fee = \<lparr>mc_channel_id = cid, pending_messages = 0,
     fee_per_message = (case fee of None \<Rightarrow> DEFAULT_MESSAGE_FEE | Some f \<Rightarrow> f), sender_signing_key = None\<rparr>"

definition set_sender_key :: "hash32 \<Rightarrow> credits_channel \<Rightarrow> credits_channel" where
  "set_sender_key key c = c\<lparr>sender_signing_key := Some key\<rparr>"

definition use_credit ::
    "ed25519 \<Rightarrow> timestamp \<Rightarrow> channel_manager \<Rightarrow> credits_channel \<Rightarrow> channel_error + (credits_channel \<times> signed_update)" where
  "use_credit E now m c =
     (case get_channel (mc_channel_id c) m of
        Inl _ \<Rightarrow> Inl (ChannelNotFound (mc_channel_id c))
      | Inr ch \<Rightarrow>
          if ch_status ch \<noteq> Open then Inl ChannelNotOpen
          else if sender_balance (current_state ch) < fee_per_message c then
            Inl (InsufficientCredits (sender_balance (current_state ch)) (fee_per_message c))
          else case sender_signing_key c of
            None \<Rightarrow> Inl ChannelInternal
          | Some key \<Rightarrow>
              (case create_payment E now (fee_per_message c) key ch of
                 Inl _ \<Rightarrow> Inl ChannelInternal
               | Inr u \<Rightarrow> Inr (c\<lparr>pending_messages := pending_messages c + 1\<rparr>, u)))"

text \<open>\<open>None\<close> is the panic of a division by zero.\<close>

definition remaining_credits :: "channel_manager \<Rightarrow> credits_channel \<Rightarrow> u64 option" where
  "remaining_credits m c =
     (case get_channel (mc_channel_id c) m of
        Inl _ \<Rightarrow> Some 0
      | Inr ch \<Rightarrow> if fee_per_message c = 0 then None else Some (sender_balance (current_state ch) div fee_per_message c))"

definition total_messages :: "credits_channel \<Rightarrow> u64" where
  "total_messages c = pending_messages c"
section \<open>Histories\<close>

text \<open>One completed call. A call that returns an error leaves the tables as they were. A version-4 id has not been used before.\<close>

inductive manager_step :: "ed25519 \<Rightarrow> channel_manager \<Rightarrow> channel_manager \<Rightarrow> bool" for E where
  step_open: "channels m uuid = None \<Longrightarrow> open_channel uuid now sid rid skey rkey cap m = Inr (m', ch) \<Longrightarrow> manager_step E m m'"
| step_update: "update_channel_state E now cid u m = Inr m' \<Longrightarrow> manager_step E m m'"
| step_pay: "process_payment E now cid u m = Inr (m', tx) \<Longrightarrow> manager_step E m m'"
| step_initiate: "initiate_unilateral_close E now cid u who m = Inr (m', req) \<Longrightarrow> manager_step E m m'"
| step_challenge: "challenge_close E now cid u who m = Inr (m', c) \<Longrightarrow> manager_step E m m'"
| step_finalize: "finalize_unilateral_close now cid m = Inr (m', bals) \<Longrightarrow> manager_step E m m'"
| step_cooperative: "cooperative_close E cid u m = Inr (m', bals) \<Longrightarrow> manager_step E m m'"
| step_slash: "manager_step E m (mark_fraud_slashed cid m)"

definition sender_signed :: "ed25519 \<Rightarrow> payment_channel \<Rightarrow> channel_state \<Rightarrow> bool" where
  "sender_signed E ch s \<longleftrightarrow> (\<exists>sg. ed_verify E (sender_key ch) (compute_message E (channel_id ch) s) sg)"

definition same_parties :: "payment_channel \<Rightarrow> payment_channel \<Rightarrow> bool" where
  "same_parties ch ch' \<longleftrightarrow> channel_id ch' = channel_id ch \<and> sender_id ch' = sender_id ch \<and> receiver_id ch' = receiver_id ch
     \<and> sender_key ch' = sender_key ch \<and> receiver_key ch' = receiver_key ch \<and> capacity ch' = capacity ch"

lemma same_parties_refl [simp]: "same_parties ch ch"
  by (simp add: same_parties_def)

lemma same_parties_trans: "same_parties a b \<Longrightarrow> same_parties b c \<Longrightarrow> same_parties a c"
  by (simp add: same_parties_def)

lemma verify_sender_ok:
  "verify_sender_signature E cid key u = Inr () \<longleftrightarrow>
     (\<exists>sg. signature_from_slice (sender_signature u) = Some sg \<and> ed_verify E key (compute_message E cid (upd_state u)) sg)"
  by (auto simp: verify_sender_signature_def split: option.splits)

text \<open>What an accepted update of an open channel says, whichever of the two calls accepted it.\<close>

definition accepted :: "ed25519 \<Rightarrow> string \<Rightarrow> payment_channel \<Rightarrow> signed_update \<Rightarrow> bool" where
  "accepted E cid ch u \<longleftrightarrow> ch_status ch = Open \<and> state_total (upd_state u) = capacity ch
     \<and> verify_sender_signature E cid (sender_key ch) u = Inr ()
     \<and> (cs_nonce (current_state ch) < cs_nonce (upd_state u) \<or> cs_nonce (upd_state u) = cs_nonce (current_state ch) + 1)"

lemma update_state_ok:
  assumes "update_state E now u ch = Inr ch'"
  shows "accepted E (channel_id ch) ch u \<and> cs_nonce (current_state ch) < cs_nonce (upd_state u) \<and> ch' = apply_update now u ch"
  using assms by (auto simp: update_state_def accepted_def get_sender_key_def get_receiver_key_def split: if_splits sum.splits)

lemma process_payment_ok:
  assumes "process_payment E now cid u m = Inr (m', tx)"
  shows "\<exists>ch. channels m cid = Some ch \<and> accepted E cid ch u \<and> cs_nonce (upd_state u) = cs_nonce (current_state ch) + 1
    \<and> m' = set_channel cid (apply_update now u ch) m"
  using assms
  by (auto simp: process_payment_def accepted_def get_sender_key_def state_total_def split: if_splits sum.splits option.splits)

lemma apply_update_parties [simp]: "same_parties ch (apply_update now u ch)"
  by (simp add: same_parties_def apply_update_def)

text \<open>How one step changes the channel of an id: not at all, by an accepted update, or out of the open state.\<close>

lemma step_channel:
  assumes "manager_step E m m'" and "channels m cid = Some ch" and "channel_id ch = cid"
  shows "\<exists>ch'. channels m' cid = Some ch' \<and> same_parties ch ch'
    \<and> (ch' = ch \<or> (\<exists>now u. accepted E cid ch u \<and> ch' = apply_update now u ch) \<or> ch_status ch' \<noteq> Open)"
  using assms
proof (cases rule: manager_step.cases)
  case (step_open uuid now sid rid skey rkey cap ch)
  then show ?thesis using assms by (auto simp: open_channel_def channel_new_def split: if_splits)
next
  case (step_update now cid' u)
  then show ?thesis using assms update_state_ok
    by (fastforce simp: update_channel_state_def set_channel_def split: option.splits sum.splits)
next
  case (step_pay now cid' u tx)
  then show ?thesis using assms process_payment_ok [OF step_pay]
    by (fastforce simp: set_channel_def)
next
  case (step_initiate now cid' u who req)
  then show ?thesis using assms
    by (auto simp: initiate_unilateral_close_def set_channel_def same_parties_def Let_def split: option.splits if_splits sum.splits)
next
  case (step_challenge now cid' u who c)
  then show ?thesis using assms
    by (auto simp: challenge_close_def record_challenge_def same_parties_def Let_def split: option.splits if_splits sum.splits)
next
  case (step_finalize now cid' bals)
  then show ?thesis using assms
    by (auto simp: finalize_unilateral_close_def same_parties_def split: option.splits if_splits)
next
  case (step_cooperative cid' u bals)
  then show ?thesis using assms
    by (auto simp: cooperative_close_def set_channel_def same_parties_def split: option.splits if_splits sum.splits)
next
  case (step_slash cid')
  then show ?thesis using assms by (auto simp: mark_fraud_slashed_def)
qed

text \<open>A channel that a step adds is new.\<close>

lemma step_new_channel:
  assumes "manager_step E m m'" and "channels m cid = None" and "channels m' cid = Some ch"
  shows "\<exists>now sid rid skey rkey cap. channel_new cid now sid rid skey rkey cap = Inr ch"
  using assms
proof (cases rule: manager_step.cases)
  case (step_open uuid now sid rid skey rkey cap ch')
  then show ?thesis using assms(2,3)
    by (fastforce simp: open_channel_def channel_new_def split: if_splits sum.splits)
next
  case (step_update now cid' u)
  then show ?thesis using assms by (auto simp: update_channel_state_def set_channel_def split: option.splits sum.splits if_splits)
next
  case (step_pay now cid' u tx)
  then show ?thesis using assms process_payment_ok [OF step_pay] by (auto simp: set_channel_def split: if_splits)
next
  case (step_initiate now cid' u who req)
  then show ?thesis using assms
    by (auto simp: initiate_unilateral_close_def set_channel_def Let_def split: option.splits if_splits sum.splits)
next
  case (step_challenge now cid' u who c)
  then show ?thesis using assms
    by (auto simp: challenge_close_def record_challenge_def Let_def split: option.splits if_splits sum.splits)
next
  case (step_finalize now cid' bals)
  then show ?thesis using assms by (auto simp: finalize_unilateral_close_def split: option.splits if_splits)
next
  case (step_cooperative cid' u bals)
  then show ?thesis using assms by (auto simp: cooperative_close_def set_channel_def split: option.splits if_splits sum.splits)
next
  case (step_slash cid')
  then show ?thesis using assms by (auto simp: mark_fraud_slashed_def)
qed

text \<open>The invariant of the table of channels.\<close>

definition channel_ok :: "ed25519 \<Rightarrow> string \<Rightarrow> payment_channel \<Rightarrow> bool" where
  "channel_ok E cid ch \<longleftrightarrow> channel_id ch = cid \<and> MIN_CHANNEL_CAPACITY \<le> capacity ch \<and> capacity ch \<le> MAX_CHANNEL_CAPACITY
     \<and> (ch_status ch = Open \<longrightarrow> state_total (current_state ch) = capacity ch
          \<and> (current_state ch = channel_initial (capacity ch) \<or> sender_signed E ch (current_state ch)))"

definition channels_ok :: "ed25519 \<Rightarrow> channel_manager \<Rightarrow> bool" where
  "channels_ok E m \<longleftrightarrow> (\<forall>cid ch. channels m cid = Some ch \<longrightarrow> channel_ok E cid ch)"

lemma channel_ok_new: "channel_new cid now sid rid skey rkey cap = Inr ch \<Longrightarrow> channel_ok E cid ch"
  by (auto simp: channel_new_def channel_ok_def state_total_def channel_initial_def split: if_splits)

lemma channel_ok_accepted:
  assumes "channel_ok E cid ch" and "accepted E cid ch u"
  shows "channel_ok E cid (apply_update now u ch)"
  using assms by (auto simp: channel_ok_def accepted_def apply_update_def sender_signed_def verify_sender_ok)

lemma channels_ok_step:
  assumes "manager_step E m m'" and "channels_ok E m"
  shows "channels_ok E m'"
  unfolding channels_ok_def
proof (intro allI impI)
  fix cid ch' assume ch': "channels m' cid = Some ch'"
  show "channel_ok E cid ch'"
  proof (cases "channels m cid")
    case None
    then show ?thesis using step_new_channel [OF assms(1) None ch'] channel_ok_new by blast
  next
    case (Some ch)
    then have ok: "channel_ok E cid ch" using assms(2) by (simp add: channels_ok_def)
    then have "channel_id ch = cid" by (simp add: channel_ok_def)
    from step_channel [OF assms(1) Some this] ch' ok show ?thesis
      by (auto simp: same_parties_def channel_ok_accepted) (auto simp: channel_ok_def)
  qed
qed

lemma channels_ok_run: "(manager_step E)\<^sup>*\<^sup>* m m' \<Longrightarrow> channels_ok E m \<Longrightarrow> channels_ok E m'"
  by (induction rule: rtranclp_induct) (auto intro: channels_ok_step)
section \<open>Properties of histories\<close>

text \<open>C37. Whatever calls are made on a new manager, an open channel keeps its id, a capacity within the limits, balances that add
  up to the capacity in 64-bit arithmetic, and a state that is the initial one or carries a signature of the sender.\<close>

theorem open_channel_invariant:
  assumes "(manager_step E)\<^sup>*\<^sup>* manager_new m" and "channels m cid = Some ch" and "ch_status ch = Open"
  shows "channel_id ch = cid \<and> MIN_CHANNEL_CAPACITY \<le> capacity ch \<and> capacity ch \<le> MAX_CHANNEL_CAPACITY
    \<and> state_total (current_state ch) = capacity ch
    \<and> (current_state ch = channel_initial (capacity ch)
       \<or> (\<exists>sg. ed_verify E (sender_key ch) (compute_message E cid (current_state ch)) sg))"
proof -
  have "channels_ok E m" by (rule channels_ok_run [OF assms(1)]) (simp add: channels_ok_def manager_new_def)
  then have "channel_ok E cid ch" using assms(2) by (simp add: channels_ok_def)
  then show ?thesis using assms(3) by (auto simp: channel_ok_def sender_signed_def)
qed

text \<open>The nonce of an open channel along a history.\<close>

definition nonce_of :: "payment_channel \<Rightarrow> u64" where
  "nonce_of ch = cs_nonce (current_state ch)"

lemma word_succ_cases: "x < x + 1 \<or> x = - 1" for x :: "'a::len word"
proof (cases "unat x + 1 < 2 ^ LENGTH('a)")
  case True
  then have "unat (x + 1) = unat x + 1" using unat_add_no_overflow [of x 1] by simp
  then show ?thesis by (simp add: word_less_nat_alt)
next
  case False
  moreover have "unat x < 2 ^ LENGTH('a)" by (rule unsigned_less)
  ultimately have "unat x = unat (- 1 :: 'a word)" unfolding unat_minus_one_max by linarith
  then show ?thesis by (simp add: word_unat_eq_iff)
qed

lemma accepted_nonce: "accepted E cid ch u \<Longrightarrow> nonce_of ch < cs_nonce (upd_state u) \<or> nonce_of ch = - 1"
  using word_succ_cases [of "nonce_of ch"] by (auto simp: accepted_def nonce_of_def)

text \<open>A history lists the managers one after the other; the counter of a channel was at its maximum in one of those from the position \<^term>\<open>i\<close> to just before \<^term>\<open>j\<close>.\<close>

definition wraps_within :: "string \<Rightarrow> channel_manager list \<Rightarrow> nat \<Rightarrow> nat \<Rightarrow> bool" where
  "wraps_within cid ms i j \<longleftrightarrow> (\<exists>k ch. i \<le> k \<and> k < j \<and> channels (ms ! k) cid = Some ch \<and> nonce_of ch = - 1)"

lemma history_run:
  assumes "successively (manager_step E) ms" and "i < length ms"
  shows "(manager_step E)\<^sup>*\<^sup>* (ms ! 0) (ms ! i)"
  using assms(2)
proof (induction i)
  case (Suc i)
  then have "manager_step E (ms ! i) (ms ! Suc i)" using assms(1) by (simp add: successively_conv_nth)
  then show ?case using Suc by (simp add: rtranclp.rtrancl_into_rtrancl)
qed simp

text \<open>C38. In every history of calls on a new manager (the id of a new channel, a random UUID in the code, is fresh), parties, keys and capacity of a channel never change from the time it exists, a channel never becomes open again, and the
  nonce orders the states of an open channel: of two managers of the history, the later one has the same state of the channel or one with a larger nonce, unless in some manager of
  this same history between the two the 64-bit counter of the channel stood at its maximum.\<close>

theorem channel_history:
  assumes "successively (manager_step E) ms" and "ms ! 0 = manager_new" and "i \<le> j" and "j < length ms" and "channels (ms ! i) cid = Some ch"
  shows "\<exists>ch'. channels (ms ! j) cid = Some ch' \<and> same_parties ch ch'
    \<and> (ch_status ch' = Open \<longrightarrow> ch_status ch = Open
         \<and> (current_state ch' = current_state ch \<or> nonce_of ch < nonce_of ch'
            \<or> (\<exists>k chk. i \<le> k \<and> k < j \<and> channels (ms ! k) cid = Some chk \<and> nonce_of chk = - 1)))"
  unfolding wraps_within_def [symmetric]
  using assms(3,4)
proof (induction j rule: dec_induct)
  case base
  then show ?case using assms(5) by auto
next
  case (step n)
  let ?w = "wraps_within cid ms i"
  from step obtain chn where chn: "channels (ms ! n) cid = Some chn" "same_parties ch chn" and IH: "ch_status chn = Open \<longrightarrow> ch_status ch = Open
      \<and> (current_state chn = current_state ch \<or> nonce_of ch < nonce_of chn \<or> ?w n)" by auto
  have "channels_ok E (ms ! n)"
    using channels_ok_run [OF history_run [OF assms(1), of n]] step.prems assms(2) by (simp add: channels_ok_def manager_new_def)
  then have "channel_id chn = cid" using chn(1) by (simp add: channels_ok_def channel_ok_def)
  moreover have "manager_step E (ms ! n) (ms ! Suc n)" using assms(1) step.prems by (simp add: successively_conv_nth)
  ultimately obtain ch' where ch': "channels (ms ! Suc n) cid = Some ch'" "same_parties chn ch'"
    and how: "ch' = chn \<or> (\<exists>now u. accepted E cid chn u \<and> ch' = apply_update now u chn) \<or> ch_status ch' \<noteq> Open"
    using step_channel [OF _ chn(1)] by blast
  have wrap: "?w n \<Longrightarrow> ?w (Suc n)" "nonce_of chn = - 1 \<Longrightarrow> ?w (Suc n)"
    using step.hyps chn(1) unfolding wraps_within_def by (meson less_Suc_eq)+
  have "ch_status ch = Open \<and> (current_state ch' = current_state ch \<or> nonce_of ch < nonce_of ch' \<or> ?w (Suc n))" if "ch_status ch' = Open"
    using how
  proof (elim disjE exE conjE)
    fix now u assume u: "accepted E cid chn u" "ch' = apply_update now u chn"
    then have "nonce_of chn < nonce_of ch' \<or> nonce_of chn = - 1" using accepted_nonce
      by (auto simp: nonce_of_def apply_update_def)
    then show ?thesis using IH wrap u by (auto simp: accepted_def nonce_of_def dest: order.strict_trans)
  qed (use that IH wrap in auto)
  then show ?case using ch' same_parties_trans [OF chn(2) ch'(2)] by blast
qed

text \<open>A payment is accepted only for the next nonce, with balances that add up to the capacity, and with the sender's signature
  on exactly the new state; the payee's balance then grows by what the payer's balance loses.\<close>

theorem payment_authorized:
  assumes "process_payment E now cid u m = Inr (m', tx)"
  shows "\<exists>ch ch' sg. channels m cid = Some ch \<and> channels m' cid = Some ch' \<and> ch_status ch = Open \<and> current_state ch' = upd_state u
    \<and> nonce_of ch' = nonce_of ch + 1
    \<and> ed_verify E (sender_key ch) (compute_message E cid (upd_state u)) sg
    \<and> (state_total (current_state ch) = capacity ch \<longrightarrow>
         receiver_balance (current_state ch') - receiver_balance (current_state ch)
           = sender_balance (current_state ch) - sender_balance (current_state ch'))"
  using process_payment_ok [OF assms]
  by (auto simp: accepted_def set_channel_def apply_update_def nonce_of_def verify_sender_ok state_total_def algebra_simps)
section \<open>Paying for messages\<close>

text \<open>An account from which a fixed fee is spent, as long as the funds last.\<close>

fun iterate :: "nat \<Rightarrow> ('s \<Rightarrow> 's option) \<Rightarrow> 's \<Rightarrow> 's option" where
  "iterate 0 f s = Some s"
| "iterate (Suc n) f s = (case f s of None \<Rightarrow> None | Some s' \<Rightarrow> iterate n f s')"

locale credit_account =
  fixes valid :: "'s \<Rightarrow> bool" and funds :: "'s \<Rightarrow> nat" and fee :: nat and spend :: "'s \<Rightarrow> 's option"
  assumes spend_iff: "valid s \<Longrightarrow> spend s \<noteq> None \<longleftrightarrow> fee \<le> funds s"
    and spend_keeps: "valid s \<Longrightarrow> spend s = Some s' \<Longrightarrow> valid s' \<and> funds s' = funds s - fee"
begin

lemma iterate_spend:
  assumes "valid s" and "n * fee \<le> funds s"
  shows "\<exists>s'. iterate n spend s = Some s' \<and> valid s' \<and> funds s' = funds s - n * fee"
  using assms
proof (induction n arbitrary: s)
  case (Suc n)
  then obtain s' where s': "spend s = Some s'" using spend_iff [of s] by auto
  then have "valid s'" "funds s' = funds s - fee" using spend_keeps Suc.prems(1) by auto
  then show ?case using Suc.IH [of s'] Suc.prems(2) s' by auto
qed simp

lemma iterate_spend_only:
  assumes "valid s" and "iterate n spend s \<noteq> None"
  shows "n * fee \<le> funds s"
  using assms
proof (induction n arbitrary: s)
  case (Suc n)
  then obtain s' where s': "spend s = Some s'" "iterate n spend s' \<noteq> None" by (auto split: option.splits)
  then have "valid s'" "funds s' = funds s - fee" "fee \<le> funds s" using spend_keeps spend_iff [of s] Suc.prems(1) by auto
  then show ?case using Suc.IH [of s'] s'(2) by auto
qed simp

lemma iterate_spend_iff: "valid s \<Longrightarrow> iterate n spend s \<noteq> None \<longleftrightarrow> n * fee \<le> funds s"
  using iterate_spend iterate_spend_only by blast

end

text \<open>One paid message: the credit is used and its update is processed by the manager.\<close>

definition pay_message :: "ed25519 \<Rightarrow> timestamp \<Rightarrow> channel_manager \<times> credits_channel \<Rightarrow> (channel_manager \<times> credits_channel) option" where
  "pay_message E now = (\<lambda>(m, c).
     case use_credit E now m c of
       Inl _ \<Rightarrow> None
     | Inr (c', u) \<Rightarrow> (case process_payment E now (mc_channel_id c) u m of Inl _ \<Rightarrow> None | Inr (m', _) \<Rightarrow> Some (m', c')))"

definition credit_funds :: "channel_manager \<times> credits_channel \<Rightarrow> nat" where
  "credit_funds = (\<lambda>(m, c). case channels m (mc_channel_id c) of None \<Rightarrow> 0 | Some ch \<Rightarrow> unat (sender_balance (current_state ch)))"

definition credits_valid :: "ed25519 \<Rightarrow> u64 \<Rightarrow> channel_manager \<times> credits_channel \<Rightarrow> bool" where
  "credits_valid E fee = (\<lambda>(m, c). signs_correctly E \<and> fee_per_message c = fee
     \<and> (\<exists>ch key. channels m (mc_channel_id c) = Some ch \<and> sender_signing_key c = Some key \<and> sender_key ch = ed_public E key
          \<and> channel_id ch = mc_channel_id c \<and> ch_status ch = Open \<and> state_total (current_state ch) = capacity ch))"

lemma upd_state_new_from_sender [simp]: "upd_state (new_from_sender E now s cid key) = s"
  by (simp add: new_from_sender_def)

lemma new_from_sender_verifies:
  "signs_correctly E \<Longrightarrow> verify_sender_signature E cid (ed_public E key) (new_from_sender E now s cid key) = Inr ()"
  by (simp add: verify_sender_signature_def new_from_sender_def signs_correctly_def)

lemma payment_accepted:
  assumes "signs_correctly E" and "channels m cid = Some ch" and "channel_id ch = cid" and "ch_status ch = Open"
    and "state_total (current_state ch) = capacity ch" and "sender_key ch = ed_public E key"
    and "amount \<le> sender_balance (current_state ch)"
  shows "\<exists>u. create_payment E now amount key ch = Inr u \<and> upd_state u = paid_state amount (current_state ch)
    \<and> process_payment E now' cid u m = Inr (set_channel cid (apply_update now' u ch) m, cid, cs_nonce (current_state ch) + 1, now')"
proof -
  let ?u = "new_from_sender E now (paid_state amount (current_state ch)) cid key"
  have "create_payment E now amount key ch = Inr ?u"
    using assms(3,4,7) by (simp add: create_payment_def not_less)
  moreover have "get_sender_key E ch = Inr (ed_public E key)"
    using assms(1,6) by (simp add: get_sender_key_def signs_correctly_def)
  moreover have "verify_sender_signature E cid (ed_public E key) ?u = Inr ()"
    by (rule new_from_sender_verifies [OF assms(1)])
  moreover have "sender_balance (upd_state ?u) + receiver_balance (upd_state ?u) = capacity ch"
    "cs_nonce (upd_state ?u) = cs_nonce (current_state ch) + 1"
    using assms(5) by (simp_all add: paid_state_def state_total_def)
  ultimately show ?thesis using assms(2,4) by (intro exI [of _ ?u]) (simp add: process_payment_def)
qed

lemma pay_message_ok:
  assumes "credits_valid E fee s" and "unat fee \<le> credit_funds s"
  shows "\<exists>s'. pay_message E now s = Some s' \<and> credits_valid E fee s' \<and> credit_funds s' = credit_funds s - unat fee"
proof -
  obtain m c where s: "s = (m, c)" by (cases s)
  obtain ch key where ch: "channels m (mc_channel_id c) = Some ch" "sender_signing_key c = Some key" "sender_key ch = ed_public E key"
    "channel_id ch = mc_channel_id c" "ch_status ch = Open" "state_total (current_state ch) = capacity ch"
    and E: "signs_correctly E" "fee_per_message c = fee"
    using assms(1) by (auto simp: s credits_valid_def)
  have le: "fee \<le> sender_balance (current_state ch)" using assms(2) ch(1) by (simp add: s credit_funds_def word_le_nat_alt)
  obtain u where u: "create_payment E now fee key ch = Inr u" "upd_state u = paid_state fee (current_state ch)"
    "process_payment E now (mc_channel_id c) u m
       = Inr (set_channel (mc_channel_id c) (apply_update now u ch) m, mc_channel_id c, cs_nonce (current_state ch) + 1, now)"
    using payment_accepted [OF E(1) ch(1,4,5,6,3) le] by blast
  have "use_credit E now m c = Inr (c\<lparr>pending_messages := pending_messages c + 1\<rparr>, u)"
    using ch le u(1) E(2) by (simp add: use_credit_def get_channel_def not_less)
  then have "pay_message E now s
      = Some (set_channel (mc_channel_id c) (apply_update now u ch) m, c\<lparr>pending_messages := pending_messages c + 1\<rparr>)"
    using u(3) by (simp add: s pay_message_def)
  moreover have "state_total (paid_state fee (current_state ch)) = capacity ch" using ch(6) by (simp add: state_total_def paid_state_def)
  ultimately show ?thesis using ch E le u(2)
    by (auto simp: s credits_valid_def credit_funds_def set_channel_def apply_update_def paid_state_def unat_sub_no_underflow)
qed

lemma pay_message_only:
  assumes "credits_valid E fee s" and "pay_message E now s = Some s'"
  shows "unat fee \<le> credit_funds s"
  using assms by (auto simp: credits_valid_def pay_message_def use_credit_def get_channel_def credit_funds_def word_le_nat_alt
      word_less_nat_alt not_less split: sum.splits if_splits)

interpretation credits: credit_account "credits_valid E fee" credit_funds "unat fee" "pay_message E now" for E fee now
proof
  fix s s' assume v: "credits_valid E fee s"
  show "pay_message E now s \<noteq> None \<longleftrightarrow> unat fee \<le> credit_funds s"
    using pay_message_ok [OF v] pay_message_only [OF v] by fastforce
  assume "pay_message E now s = Some s'"
  then show "credits_valid E fee s' \<and> credit_funds s' = credit_funds s - unat fee"
    using pay_message_ok [OF v] pay_message_only [OF v] by fastforce
qed

text \<open>A channel pays for exactly as many messages as \<^verbatim>\<open>remaining_credits\<close> says: that many calls in a row are accepted by the
  manager, and not one more.\<close>

theorem remaining_credits_exact:
  assumes "credits_valid E fee (m, c)" and "fee \<noteq> 0"
  shows "\<exists>k. remaining_credits m c = Some k \<and> (\<forall>n. iterate n (pay_message E now) (m, c) \<noteq> None \<longleftrightarrow> n \<le> unat k)"
proof -
  obtain ch where ch: "channels m (mc_channel_id c) = Some ch" "fee_per_message c = fee" using assms(1) by (auto simp: credits_valid_def)
  have pos: "unat fee > 0" using assms(2) by (simp add: unat_gt_0)
  let ?b = "sender_balance (current_state ch)"
  have "iterate n (pay_message E now) (m, c) \<noteq> None \<longleftrightarrow> n \<le> unat (?b div fee)" for n
    using credits.iterate_spend_iff [OF assms(1), of n now] pos ch(1)
    by (simp add: credit_funds_def unat_div less_eq_div_iff_mult_less_eq)
  then show ?thesis using ch assms(2) by (auto simp: remaining_credits_def get_channel_def)
qed
section \<open>Closing a channel\<close>

lemma signed_by_both:
  assumes "signs_correctly E" and "u = add_receiver_signature E cid rk (new_from_sender E now s cid sk)"
  shows "verify_sender_signature E cid (ed_public E sk) u = Inr ()" "verify_receiver_signature E cid (ed_public E rk) u = Inr ()"
    "is_bilateral u" "upd_state u = s"
  using assms by (simp_all add: verify_sender_signature_def verify_receiver_signature_def add_receiver_signature_def
      new_from_sender_def signs_correctly_def is_bilateral_def)

text \<open>A close with an old state is stopped by the other party: within the window a newer state that verifies under both keys is
  accepted, becomes the state of the channel, and is recorded as fraud of the initiator; the close can then not be
  finalized at any time.\<close>

theorem challenge_stops_close:
  assumes "pending_closes m cid = Some req" and "now < dispute_deadline req" and "who \<noteq> initiator req"
    and "channels m cid = Some ch" and "ed_key_ok E (sender_key ch)" and "ed_key_ok E (receiver_key ch)"
    and "cs_nonce (upd_state (final_state req)) < cs_nonce (upd_state u)"
    and "verify_sender_signature E cid (sender_key ch) u = Inr ()" and "verify_receiver_signature E cid (receiver_key ch) u = Inr ()"
  shows "\<exists>m' c ev. challenge_close E now cid u who m = Inr (m', c)
    \<and> channels m' cid = Some (ch\<lparr>ch_status := Disputed, current_state := upd_state u\<rparr>)
    \<and> fraud_events m' = fraud_events m @ [ev] \<and> fraudster ev = initiator req \<and> submitted_nonce ev < actual_nonce ev
    \<and> (\<forall>t. \<exists>e. finalize_unilateral_close t cid m' = Inl e)"
proof -
  have "receiver_signature u \<noteq> None" using assms(9) by (auto simp: verify_receiver_signature_def split: option.splits)
  then have "challenge_close E now cid u who m = Inr (record_challenge now cid req u who m)"
    using assms by (auto simp: challenge_close_def get_channel_def get_sender_key_def get_receiver_key_def)
  then show ?thesis using assms(1,4,7) by (simp add: record_challenge_def Let_def finalize_unilateral_close_def)
qed

text \<open>The receiver's unilateral close is not verified: whatever state and signature bytes the receiver submits, and whatever the
  status of the channel, the close is opened, and after the window it pays out the submitted balances.\<close>

theorem receiver_close_unverified:
  assumes "channels m cid = Some ch" and "receiver_id ch \<noteq> sender_id ch" and "ed_key_ok E (receiver_key ch)"
  shows "\<exists>m' req. initiate_unilateral_close E now cid u (receiver_id ch) m = Inr (m', req)
    \<and> (\<forall>t \<ge> now + duration_seconds DISPUTE_WINDOW_SECONDS. \<exists>m''. finalize_unilateral_close t cid m'
         = Inr (m'', sender_balance (upd_state u), receiver_balance (upd_state u)))"
  using assms by (simp add: initiate_unilateral_close_def get_receiver_key_def set_channel_def Let_def finalize_unilateral_close_def)

text \<open>A cooperative close looks at no nonce and at no status, and leaves a pending close in place: any state that both parties once
  signed closes the channel at once, and a unilateral close opened before pays out a second time.\<close>

theorem cooperative_close_replays:
  assumes "channels m cid = Some ch" and "ed_key_ok E (sender_key ch)" and "ed_key_ok E (receiver_key ch)"
    and "verify_sender_signature E cid (sender_key ch) u = Inr ()" and "verify_receiver_signature E cid (receiver_key ch) u = Inr ()"
    and "state_total (upd_state u) = capacity ch"
    and "pending_closes m cid = Some req" and "\<not> challenged req"
  shows "\<exists>m' m''. cooperative_close E cid u m = Inr (m', sender_balance (upd_state u), receiver_balance (upd_state u))
    \<and> finalize_unilateral_close (dispute_deadline req) cid m'
      = Inr (m'', sender_balance (upd_state (final_state req)), receiver_balance (upd_state (final_state req)))"
proof -
  have "is_bilateral u" using assms(5) by (auto simp: verify_receiver_signature_def is_bilateral_def split: option.splits)
  then show ?thesis using assms
    by (simp add: cooperative_close_def get_sender_key_def get_receiver_key_def set_channel_def finalize_unilateral_close_def)
qed

text \<open>The sum of the balances is compared with the capacity after wrapping around: the sender can sign a state in which both
  balances are above the capacity, and the payment is accepted.\<close>

theorem payment_sum_wraps:
  assumes "signs_correctly E" and "channels m cid = Some ch" and "ch_status ch = Open" and "sender_key ch = ed_public E key"
    and "capacity ch \<le> MAX_CHANNEL_CAPACITY"
    and "s = \<lparr>cs_nonce = cs_nonce (current_state ch) + 1, sender_balance = - 1, receiver_balance = capacity ch + 1\<rparr>"
  shows "\<exists>m' tx ch'. process_payment E now cid (new_from_sender E now s cid key) m = Inr (m', tx) \<and> channels m' cid = Some ch'
    \<and> current_state ch' = s
    \<and> unat (sender_balance s) + unat (receiver_balance s) = unat (capacity ch) + 2 ^ 64"
proof -
  let ?u = "new_from_sender E now s cid key"
  have "get_sender_key E ch = Inr (ed_public E key)" using assms(1,4) by (simp add: get_sender_key_def signs_correctly_def)
  then have "process_payment E now cid ?u m = Inr (set_channel cid (apply_update now ?u ch) m, cid, cs_nonce s, now)"
    using assms(2,3,6) new_from_sender_verifies [OF assms(1)] by (simp add: process_payment_def)
  moreover have "unat (capacity ch + 1) = unat (capacity ch) + 1"
  proof -
    have "unat (capacity ch) \<le> 10000000000000"
      using assms(5) by (simp add: word_le_nat_alt MAX_CHANNEL_CAPACITY_def MOTES_PER_DCHAT_def)
    then show ?thesis by (subst unat_add_no_overflow) simp_all
  qed
  ultimately show ?thesis
    by (simp add: set_channel_def apply_update_def) (simp add: assms(6) unat_minus_one_max)
qed

section \<open>Witnesses\<close>

definition demo_channel :: payment_channel where
  "demo_channel = \<lparr>channel_id = ''c'', sender_id = 1, receiver_id = 2, sender_key = 7, receiver_key = 9, capacity = 1000000000,
     current_state = channel_initial 1000000000, latest_bilateral = None, ch_status = Open, opened_at = 0, last_update = 0,
     funding_tx_id = None\<rparr>"

definition demo_manager :: channel_manager where
  "demo_manager = set_channel ''c'' demo_channel manager_new"

lemma demo_opened: "open_channel ''c'' 0 1 2 7 9 1000000000 manager_new = Inr (demo_manager, demo_channel)"
  by (simp add: open_channel_def channel_new_def demo_manager_def demo_channel_def set_channel_def
      MIN_CHANNEL_CAPACITY_def MAX_CHANNEL_CAPACITY_def MOTES_PER_DCHAT_def)

lemma demo_step: "manager_step E manager_new demo_manager"
  by (rule step_open [OF _ demo_opened]) (simp add: manager_new_def)

lemma demo_lookup [simp]: "channels demo_manager ''c'' = Some demo_channel" "ch_status demo_channel = Open"
  "sender_key demo_channel = ed_public toy_ed25519 7" "receiver_key demo_channel = ed_public toy_ed25519 9"
  "capacity demo_channel = 1000000000" "channel_id demo_channel = ''c''" "sender_id demo_channel = 1" "receiver_id demo_channel = 2"
  "current_state demo_channel = channel_initial 1000000000" "ed_key_ok toy_ed25519 k"
  by (simp_all add: demo_manager_def set_channel_def demo_channel_def toy_ed25519_def)

theorem open_channel_invariant_witness: "state_total (current_state demo_channel) = 1000000000"
  using open_channel_invariant [of toy_ed25519 demo_manager "''c''" demo_channel] demo_step by (auto intro: r_into_rtranclp)

lemma demo_payment:
  "\<exists>u. create_payment toy_ed25519 0 5 7 demo_channel = Inr u \<and> upd_state u = paid_state 5 (channel_initial 1000000000)
    \<and> process_payment toy_ed25519 0 ''c'' u demo_manager = Inr (set_channel ''c'' (apply_update 0 u demo_channel) demo_manager, ''c'', 1, 0)"
  using payment_accepted [OF toy_signs_correctly, of demo_manager "''c''" demo_channel 7 5 0 0]
  by (auto simp: channel_initial_def state_total_def)

text \<open>A history of three managers: new, with an open channel, and after a payment.\<close>

theorem channel_history_witness:
  "\<exists>m2 ch'. successively (manager_step toy_ed25519) [manager_new, demo_manager, m2] \<and> channels m2 ''c'' = Some ch' \<and> ch_status ch' = Open
    \<and> same_parties demo_channel ch' \<and> nonce_of demo_channel < nonce_of ch'"
proof -
  obtain u where u: "upd_state u = paid_state 5 (channel_initial 1000000000)"
    "process_payment toy_ed25519 0 ''c'' u demo_manager = Inr (set_channel ''c'' (apply_update 0 u demo_channel) demo_manager, ''c'', 1, 0)"
    using demo_payment by blast
  let ?m2 = "set_channel ''c'' (apply_update 0 u demo_channel) demo_manager"
  have run: "successively (manager_step toy_ed25519) [manager_new, demo_manager, ?m2]" using demo_step step_pay [OF u(2)] by simp
  have ch: "channels demo_manager ''c'' = Some demo_channel" "current_state demo_channel = channel_initial 1000000000" "ch_status demo_channel = Open" by simp_all
  have m2: "channels ?m2 ''c'' = Some (apply_update 0 u demo_channel)" by (simp add: set_channel_def)
  have st: "current_state (apply_update 0 u demo_channel) = paid_state 5 (channel_initial 1000000000)" "ch_status (apply_update 0 u demo_channel) = Open"
    using u(1) ch(3) by (simp_all add: apply_update_def)
  have no: "\<not> (\<exists>k chk. 1 \<le> k \<and> k < 2 \<and> channels ([manager_new, demo_manager, ?m2] ! k) ''c'' = Some chk \<and> nonce_of chk = - 1)"
    using ch by (auto simp: nonce_of_def channel_initial_def less_2_cases_iff)
  from channel_history [OF run, of 1 2 "''c''" demo_channel] no st m2 ch run show ?thesis
    by (intro exI [of _ ?m2] exI [of _ "apply_update 0 u demo_channel"]) (auto simp: paid_state_def channel_initial_def)
qed

theorem payment_authorized_witness:
  "\<exists>(u :: signed_update) ch' sg. receiver_balance (upd_state u) = 5 \<and> ed_verify toy_ed25519 7 (compute_message toy_ed25519 ''c'' (upd_state u)) sg
    \<and> nonce_of ch' = 1"
proof -
  obtain u where u: "upd_state u = paid_state 5 (channel_initial 1000000000)"
    "process_payment toy_ed25519 0 ''c'' u demo_manager = Inr (set_channel ''c'' (apply_update 0 u demo_channel) demo_manager, ''c'', 1, 0)"
    using demo_payment by blast
  from payment_authorized [OF u(2)] u(1) show ?thesis
    by - (rule exI [of _ u], auto simp: nonce_of_def paid_state_def channel_initial_def toy_ed25519_def)
qed

theorem remaining_credits_exact_witness:
  "\<exists>k. remaining_credits demo_manager (set_sender_key 7 (credits_new ''c'' None)) = Some k
    \<and> (\<forall>n. iterate n (pay_message toy_ed25519 0) (demo_manager, set_sender_key 7 (credits_new ''c'' None)) \<noteq> None \<longleftrightarrow> n \<le> unat k)"
proof (rule remaining_credits_exact)
  show "credits_valid toy_ed25519 DEFAULT_MESSAGE_FEE (demo_manager, set_sender_key 7 (credits_new ''c'' None))"
    by (simp add: credits_valid_def toy_signs_correctly set_sender_key_def credits_new_def state_total_def channel_initial_def)
  show "DEFAULT_MESSAGE_FEE \<noteq> 0" by (simp add: DEFAULT_MESSAGE_FEE_def MOTES_PER_DCHAT_def)
qed

definition demo_state :: channel_state where
  "demo_state = \<lparr>cs_nonce = 2, sender_balance = 400000000, receiver_balance = 600000000\<rparr>"

definition demo_both :: signed_update where
  "demo_both = add_receiver_signature toy_ed25519 ''c'' 9 (new_from_sender toy_ed25519 0 demo_state ''c'' 7)"

lemmas demo_both_ok = signed_by_both [OF toy_signs_correctly demo_both_def]

definition demo_closing :: channel_manager where
  "demo_closing = (case initiate_unilateral_close toy_ed25519 0 ''c'' (new_from_sender toy_ed25519 0 (channel_initial 1000000000) ''c'' 7) 1
     demo_manager of Inr (m, _) \<Rightarrow> m | Inl _ \<Rightarrow> demo_manager)"

lemma demo_pending:
  "\<exists>req. pending_closes demo_closing ''c'' = Some req \<and> initiator req = 1 \<and> dispute_deadline req = 172800000000000
    \<and> upd_state (final_state req) = channel_initial 1000000000 \<and> \<not> challenged req"
  "channels demo_closing ''c'' = Some (demo_channel\<lparr>ch_status := Closing\<rparr>)"
  using new_from_sender_verifies [OF toy_signs_correctly, of "''c''" 7]
  by (simp_all add: demo_closing_def initiate_unilateral_close_def get_sender_key_def Let_def set_channel_def
      duration_seconds_def DISPUTE_WINDOW_SECONDS_def new_from_sender_def)

theorem challenge_stops_close_witness:
  "\<exists>m' c ev. challenge_close toy_ed25519 1 ''c'' demo_both 2 demo_closing = Inr (m', c) \<and> fraud_events m' = fraud_events demo_closing @ [ev]
    \<and> fraudster ev = 1 \<and> (\<forall>t. \<exists>e. finalize_unilateral_close t ''c'' m' = Inl e)"
proof -
  obtain req where req: "pending_closes demo_closing ''c'' = Some req" "initiator req = 1" "dispute_deadline req = 172800000000000"
    "upd_state (final_state req) = channel_initial 1000000000" using demo_pending(1) by blast
  show ?thesis
    using challenge_stops_close [OF req(1) _ _ demo_pending(2), of 1 2 toy_ed25519 demo_both] demo_both_ok req
    by (auto simp: channel_initial_def demo_state_def)
qed

theorem receiver_close_unverified_witness:
  "\<exists>m' req m''. initiate_unilateral_close toy_ed25519 0 ''c''
      \<lparr>upd_state = \<lparr>cs_nonce = 0, sender_balance = 0, receiver_balance = - 1\<rparr>, sender_signature = [], receiver_signature = None,
       upd_timestamp = 0\<rparr> 2 demo_manager = Inr (m', req)
    \<and> finalize_unilateral_close 172800000000000 ''c'' m' = Inr (m'', 0, - 1)"
  using receiver_close_unverified [of demo_manager "''c''" demo_channel toy_ed25519 0
      "\<lparr>upd_state = \<lparr>cs_nonce = 0, sender_balance = 0, receiver_balance = - 1\<rparr>, sender_signature = [], receiver_signature = None,
       upd_timestamp = 0\<rparr>"] by (auto simp: duration_seconds_def DISPUTE_WINDOW_SECONDS_def)

theorem cooperative_close_replays_witness:
  "\<exists>m' m'' t. cooperative_close toy_ed25519 ''c'' demo_both demo_closing = Inr (m', 400000000, 600000000)
    \<and> finalize_unilateral_close t ''c'' m' = Inr (m'', 1000000000, 0)"
proof -
  obtain req where req: "pending_closes demo_closing ''c'' = Some req" "upd_state (final_state req) = channel_initial 1000000000"
    "\<not> challenged req" using demo_pending(1) by blast
  show ?thesis
    using cooperative_close_replays [OF demo_pending(2) _ _ _ _ _ req(1,3), of toy_ed25519 demo_both] demo_both_ok req(2)
    by (auto simp: demo_state_def channel_initial_def state_total_def)
qed

theorem payment_sum_wraps_witness:
  "\<exists>m' tx ch'. process_payment toy_ed25519 0 ''c''
      (new_from_sender toy_ed25519 0 \<lparr>cs_nonce = 1, sender_balance = - 1, receiver_balance = 1000000001\<rparr> ''c'' 7) demo_manager = Inr (m', tx)
    \<and> channels m' ''c'' = Some ch' \<and> sender_balance (current_state ch') = - 1"
  using payment_sum_wraps [OF toy_signs_correctly, of demo_manager "''c''" demo_channel 7
      "\<lparr>cs_nonce = 1, sender_balance = - 1, receiver_balance = 1000000001\<rparr>" 0]
  by (auto simp: channel_initial_def MAX_CHANNEL_CAPACITY_def MOTES_PER_DCHAT_def)

end
