(* ===== verification/Fee_Distribution.thy ===== *)
theory Fee_Distribution
  imports Chain_Core
begin

text \<open>
  Protocol fees: \<^verbatim>\<open>crates/dchat-blockchain/src/fee_distribution.rs\<close>. A fee is burned in part and split among a direct recipient
  and the pools of validators, relays, treasury and insurance; pools, a legacy table of pool balances and the accounting of
  the current block are updated together. A method on \<^verbatim>\<open>&mut self\<close> returns the state it leaves behind also when it fails, since
  the code updates field after field. Times and record ids are parameters.
\<close>

section \<open>Pools\<close>

definition VALIDATOR_FEE_SHARE_BPS :: u16 where "VALIDATOR_FEE_SHARE_BPS = 6800"
definition RELAY_FEE_SHARE_BPS :: u16 where "RELAY_FEE_SHARE_BPS = 2000"
definition TREASURY_FEE_SHARE_BPS :: u16 where "TREASURY_FEE_SHARE_BPS = 1000"
definition INSURANCE_FUND_ALLOCATION_BPS :: u16 where "INSURANCE_FUND_ALLOCATION_BPS = 200"
definition DEFAULT_BURN_RATE_BPS :: u16 where "DEFAULT_BURN_RATE_BPS = 100"

datatype pool_type = ValidatorRewards | RelayRewards | Treasury | InsuranceFund | StorageBonds | BurnSink

definition circulating_pools :: "pool_type list" where
  "circulating_pools = [ValidatorRewards, RelayRewards, Treasury, InsuranceFund, StorageBonds]"

definition all_pools :: "pool_type list" where
  "all_pools = [ValidatorRewards, RelayRewards, Treasury, InsuranceFund, StorageBonds, BurnSink]"

fun sink_address :: "pool_type \<Rightarrow> user_id" where
  "sink_address Treasury = 1"
| "sink_address ValidatorRewards = 2"
| "sink_address RelayRewards = 3"
| "sink_address BurnSink = 4"
| "sink_address InsuranceFund = 5"
| "sink_address StorageBonds = 6"

record pool_state =
  ps_pool_type :: "pool_type option"
  ps_balance :: u64
  pending_distributions :: u64
  total_deposited :: u64
  total_withdrawn :: u64
  epoch_accrual :: u64
  last_distribution_epoch :: u64
  ps_version :: u8

definition pool_new :: "pool_type \<Rightarrow> pool_state" where
  "pool_new t = \<lparr>ps_pool_type = Some t, ps_balance = 0, pending_distributions = 0, total_deposited = 0, total_withdrawn = 0,
     epoch_accrual = 0, last_distribution_epoch = 0, ps_version = 1\<rparr>"

definition deposit :: "u64 \<Rightarrow> pool_state \<Rightarrow> pool_state \<times> unit core_result" where
  "deposit amount p =
     (case checked_add (ps_balance p) amount of
        None \<Rightarrow> (p, Inl InvalidInput)
      | Some b \<Rightarrow> let p = p\<lparr>ps_balance := b\<rparr> in
          (case checked_add (total_deposited p) amount of
             None \<Rightarrow> (p, Inl InvalidInput)
           | Some d \<Rightarrow> let p = p\<lparr>total_deposited := d\<rparr> in
               (case checked_add (epoch_accrual p) amount of
                  None \<Rightarrow> (p, Inl InvalidInput)
                | Some a \<Rightarrow> (p\<lparr>epoch_accrual := a\<rparr>, Inr ()))))"

definition withdraw :: "u64 \<Rightarrow> pool_state \<Rightarrow> pool_state \<times> unit core_result" where
  "withdraw amount p =
     (if amount > ps_balance p then (p, Inl InvalidInput)
      else let p = p\<lparr>ps_balance := ps_balance p - amount\<rparr> in
        (case checked_add (total_withdrawn p) amount of
           None \<Rightarrow> (p, Inl InvalidInput)
         | Some w \<Rightarrow> (p\<lparr>total_withdrawn := w\<rparr>, Inr ())))"

definition allocate_pending :: "u64 \<Rightarrow> pool_state \<Rightarrow> pool_state core_result" where
  "allocate_pending amount p =
     (if amount > saturating_sub (ps_balance p) (pending_distributions p) then Inl InvalidInput
      else case checked_add (pending_distributions p) amount of
        None \<Rightarrow> Inl InvalidInput
      | Some x \<Rightarrow> Inr (p\<lparr>pending_distributions := x\<rparr>))"

definition clear_pending :: "u64 \<Rightarrow> pool_state \<Rightarrow> pool_state core_result" where
  "clear_pending amount p =
     (if amount > pending_distributions p then Inl InvalidInput
      else Inr (p\<lparr>pending_distributions := pending_distributions p - amount\<rparr>))"

definition reset_epoch_accrual :: "u64 \<Rightarrow> pool_state \<Rightarrow> pool_state" where
  "reset_epoch_accrual epoch p = p\<lparr>epoch_accrual := 0, last_distribution_epoch := epoch\<rparr>"

definition available_balance :: "pool_state \<Rightarrow> u64" where
  "available_balance p = saturating_sub (ps_balance p) (pending_distributions p)"

definition pool_hash :: "crypto \<Rightarrow> pool_state \<Rightarrow> hash32" where
  "pool_hash c p = blake3 c ([ps_version p] @ le_bytes 8 (ps_balance p) @ le_bytes 8 (pending_distributions p)
     @ le_bytes 8 (total_deposited p) @ le_bytes 8 (total_withdrawn p) @ le_bytes 8 (epoch_accrual p)
     @ le_bytes 8 (last_distribution_epoch p))"

record unified_pool_state =
  pools :: "pool_type \<rightharpoonup> pool_state"
  total_circulating :: u64
  up_total_burned :: u64
  up_genesis_supply :: u64
  up_current_epoch :: u64
  up_version :: u8

definition unified_new :: "u64 \<Rightarrow> unified_pool_state" where
  "unified_new genesis = \<lparr>pools = (\<lambda>t. if t \<in> set all_pools then Some (pool_new t) else None),
     total_circulating = genesis, up_total_burned = 0, up_genesis_supply = genesis, up_current_epoch = 0, up_version = 1\<rparr>"

definition deposit_to_pool :: "pool_type \<Rightarrow> u64 \<Rightarrow> unified_pool_state \<Rightarrow> unified_pool_state \<times> unit core_result" where
  "deposit_to_pool t amount s =
     (case pools s t of
        None \<Rightarrow> (s, Inl InvalidInput)
      | Some p \<Rightarrow>
          (case deposit amount p of
             (p', Inl e) \<Rightarrow> (s\<lparr>pools := (pools s)(t \<mapsto> p')\<rparr>, Inl e)
           | (p', Inr _) \<Rightarrow>
               let s = s\<lparr>pools := (pools s)(t \<mapsto> p')\<rparr> in
               if t = BurnSink then
                 (case checked_add (up_total_burned s) amount of
                    None \<Rightarrow> (s, Inl InvalidInput)
                  | Some b \<Rightarrow> let s = s\<lparr>up_total_burned := b\<rparr> in
                      if amount > total_circulating s then (s, Inl InvalidInput)
                      else (s\<lparr>total_circulating := total_circulating s - amount\<rparr>, Inr ()))
               else (s, Inr ())))"

definition withdraw_from_pool :: "pool_type \<Rightarrow> u64 \<Rightarrow> unified_pool_state \<Rightarrow> unified_pool_state \<times> unit core_result" where
  "withdraw_from_pool t amount s =
     (if t = BurnSink then (s, Inl InvalidInput)
      else case pools s t of
        None \<Rightarrow> (s, Inl InvalidInput)
      | Some p \<Rightarrow> (case withdraw amount p of (p', r) \<Rightarrow> (s\<lparr>pools := (pools s)(t \<mapsto> p')\<rparr>, r)))"

definition verify_conservation :: "unified_pool_state \<Rightarrow> unit core_result" where
  "verify_conservation s =
     (case checked_add (total_circulating s) (up_total_burned s) of
        None \<Rightarrow> Inl InvalidInput
      | Some g \<Rightarrow>
          if g \<noteq> up_genesis_supply s then Inl InvalidInput
          else case pools s BurnSink of
            None \<Rightarrow> Inr ()
          | Some p \<Rightarrow> if ps_balance p \<noteq> up_total_burned s then Inl InvalidInput else Inr ())"

text \<open>The binary hash trees of this file: a single last hash is combined with itself.\<close>

fun combine_pairs :: "crypto \<Rightarrow> hash32 list \<Rightarrow> hash32 list" where
  "combine_pairs c [] = []"
| "combine_pairs c [a] = [blake3 c (as_bytes a @ as_bytes a)]"
| "combine_pairs c (a # b # rest) = blake3 c (as_bytes a @ as_bytes b) # combine_pairs c rest"

lemma length_combine_pairs [simp]: "length (combine_pairs c xs) = (length xs + 1) div 2"
  by (induction c xs rule: combine_pairs.induct) simp_all

function combine_all :: "crypto \<Rightarrow> hash32 list \<Rightarrow> hash32 list" where
  "combine_all c hashes = (if 1 < length hashes then combine_all c (combine_pairs c hashes) else hashes)"
  by pat_completeness auto
termination
  by (relation "measure (\<lambda>(c, hashes). length hashes)") auto

declare combine_all.simps [simp del]

definition compute_state_root :: "crypto \<Rightarrow> unified_pool_state \<Rightarrow> hash32" where
  "compute_state_root c s =
     (let pool_hashes = map (pool_hash c) (filter_map (pools s) all_pools);
          meta = blake3 c ([up_version s] @ le_bytes 8 (total_circulating s) @ le_bytes 8 (up_total_burned s)
                   @ le_bytes 8 (up_genesis_supply s) @ le_bytes 8 (up_current_epoch s))
      in case combine_all c (pool_hashes @ [meta]) of [] \<Rightarrow> 0 | h # _ \<Rightarrow> h)"

definition unified_advance_epoch :: "unified_pool_state \<Rightarrow> unified_pool_state \<times> u64" where
  "unified_advance_epoch s =
     (let e = up_current_epoch s + 1
      in (s\<lparr>up_current_epoch := e, pools := (\<lambda>t. map_option (reset_epoch_accrual e) (pools s t))\<rparr>, e))"

record pool_delta =
  pd_pool_type :: pool_type
  deposited :: u64
  withdrawn :: u64
  net_change :: "64 word"

text \<open>The net change is an \<^verbatim>\<open>i64\<close>, a word read by \<^const>\<open>sint\<close>.\<close>

definition delta_new :: "pool_type \<Rightarrow> u64 \<Rightarrow> u64 \<Rightarrow> pool_delta" where
  "delta_new t d w = \<lparr>pd_pool_type = t, deposited = d, withdrawn = w, net_change = d - w\<rparr>"

record protocol_sinks =
  treasury :: user_id
  validator_pool :: user_id
  relay_pool :: user_id
  burn_sink :: user_id
  insurance_fund :: user_id
  storage_bonds :: user_id

definition sinks_default :: protocol_sinks where
  "sinks_default = \<lparr>treasury = sink_address Treasury, validator_pool = sink_address ValidatorRewards,
     relay_pool = sink_address RelayRewards, burn_sink = sink_address BurnSink, insurance_fund = sink_address InsuranceFund,
     storage_bonds = sink_address StorageBonds\<rparr>"

definition is_protocol_sink :: "protocol_sinks \<Rightarrow> user_id \<Rightarrow> bool" where
  "is_protocol_sink k u \<longleftrightarrow> u = treasury k \<or> u = validator_pool k \<or> u = relay_pool k \<or> u = burn_sink k
     \<or> u = insurance_fund k \<or> u = storage_bonds k"

definition pool_type_for_sink :: "protocol_sinks \<Rightarrow> user_id \<Rightarrow> pool_type option" where
  "pool_type_for_sink k u =
     (if u = treasury k then Some Treasury
      else if u = validator_pool k then Some ValidatorRewards
      else if u = relay_pool k then Some RelayRewards
      else if u = burn_sink k then Some BurnSink
      else if u = insurance_fund k then Some InsuranceFund
      else if u = storage_bonds k then Some StorageBonds
      else None)"

section \<open>Records and block accounting\<close>

datatype fee_type = MessageFee | TransferFee | ChannelCreationFee | PremiumFeatureFee | MarketplaceFee | StorageFee
  | ExecutionGasFee | ProgramRuntimeFee | StakingOperationFee

type_synonym uuid = "128 word"

record fee_record =
  fr_id :: uuid
  fr_type :: fee_type
  gross_amount :: u64
  burn_amount :: u64
  validator_share :: u64
  relay_share :: u64
  treasury_share :: u64
  insurance_share :: u64
  direct_recipient :: "user_id option"
  direct_recipient_amount :: u64
  payer :: user_id
  fr_block_height :: u64
  fr_timestamp :: timestamp
  fr_tx_id :: uuid

record block_accounting =
  ba_version :: u8
  ba_block_height :: u64
  ba_timestamp :: timestamp
  total_fees_collected :: u64
  ba_total_burned :: u64
  total_to_validator_pool :: u64
  total_to_relay_pool :: u64
  total_to_treasury :: u64
  total_to_insurance_fund :: u64
  total_direct_to_relays :: u64
  fee_records :: "fee_record list"
  pool_deltas :: "pool_delta list"
  pre_block_supply :: u64
  post_block_supply :: u64
  fee_records_merkle_root :: hash32
  pool_state_root :: hash32

definition accounting_new :: "timestamp \<Rightarrow> u64 \<Rightarrow> u64 \<Rightarrow> block_accounting" where
  "accounting_new now height supply0 = \<lparr>ba_version = 2, ba_block_height = height, ba_timestamp = now, total_fees_collected = 0,
     ba_total_burned = 0, total_to_validator_pool = 0, total_to_relay_pool = 0, total_to_treasury = 0,
     total_to_insurance_fund = 0, total_direct_to_relays = 0, fee_records = [], pool_deltas = [],
     pre_block_supply = supply0, post_block_supply = supply0, fee_records_merkle_root = 0, pool_state_root = 0\<rparr>"

definition add_fee_record :: "fee_record \<Rightarrow> block_accounting \<Rightarrow> block_accounting" where
  "add_fee_record r a =
     a\<lparr>total_fees_collected := saturating_add (total_fees_collected a) (gross_amount r),
       ba_total_burned := saturating_add (ba_total_burned a) (burn_amount r),
       total_to_validator_pool := saturating_add (total_to_validator_pool a) (validator_share r),
       total_to_relay_pool := saturating_add (total_to_relay_pool a) (relay_share r),
       total_to_treasury := saturating_add (total_to_treasury a) (treasury_share r),
       total_to_insurance_fund := saturating_add (total_to_insurance_fund a) (insurance_share r),
       total_direct_to_relays := saturating_add (total_direct_to_relays a) (direct_recipient_amount r),
       post_block_supply := saturating_sub (post_block_supply a) (burn_amount r),
       fee_records := fee_records a @ [r]\<rparr>"

definition compute_pool_deltas :: "block_accounting \<Rightarrow> block_accounting" where
  "compute_pool_deltas a =
     a\<lparr>pool_deltas := map (\<lambda>(t, x). delta_new t x 0) (filter (\<lambda>(t, x). x > 0)
         [(ValidatorRewards, total_to_validator_pool a), (RelayRewards, total_to_relay_pool a), (Treasury, total_to_treasury a),
          (InsuranceFund, total_to_insurance_fund a), (BurnSink, ba_total_burned a)])\<rparr>"

definition record_conserves :: "fee_record \<Rightarrow> bool" where
  "record_conserves r \<longleftrightarrow> burn_amount r + validator_share r + relay_share r + treasury_share r + insurance_share r
     + direct_recipient_amount r = gross_amount r"

definition accounting_verify :: "block_accounting \<Rightarrow> unit core_result" where
  "accounting_verify a =
     (if \<not> list_all record_conserves (fee_records a) then Inl InvalidInput
      else if post_block_supply a \<noteq> saturating_sub (pre_block_supply a) (ba_total_burned a) then Inl InvalidInput
      else Inr ())"

definition record_hash :: "crypto \<Rightarrow> fee_record \<Rightarrow> hash32" where
  "record_hash c r = blake3 c (rev (le_bytes 16 (fr_id r)) @ le_bytes 8 (gross_amount r) @ le_bytes 8 (burn_amount r)
     @ le_bytes 8 (validator_share r) @ le_bytes 8 (relay_share r) @ le_bytes 8 (treasury_share r))"

definition compute_merkle_root :: "crypto \<Rightarrow> block_accounting \<Rightarrow> block_accounting" where
  "compute_merkle_root c a =
     (if fee_records a = [] then a\<lparr>fee_records_merkle_root := 0\<rparr>
      else a\<lparr>fee_records_merkle_root := combine_all c (map (record_hash c) (fee_records a)) ! 0\<rparr>)"

section \<open>The manager\<close>

record fee_config =
  validator_share_bps :: u16
  relay_share_bps :: u16
  treasury_share_bps :: u16
  fc_burn_rate_bps :: u16
  insurance_fund_bps :: u16
  burn_on_rewards :: bool
  burn_on_internal :: bool
  genesis_supply :: u64

definition fee_config_default :: fee_config where
  "fee_config_default = \<lparr>validator_share_bps = VALIDATOR_FEE_SHARE_BPS, relay_share_bps = RELAY_FEE_SHARE_BPS,
     treasury_share_bps = TREASURY_FEE_SHARE_BPS, fc_burn_rate_bps = DEFAULT_BURN_RATE_BPS,
     insurance_fund_bps = INSURANCE_FUND_ALLOCATION_BPS, burn_on_rewards = False, burn_on_internal = False,
     genesis_supply = 10000000000000000000\<rparr>"

record fee_manager =
  fm_config :: fee_config
  fm_sinks :: protocol_sinks
  unified :: unified_pool_state
  pool_balances :: "user_id \<rightharpoonup> u64"
  current_accounting :: block_accounting
  block_history :: "u64 \<rightharpoonup> block_accounting"
  fm_current_block :: u64
  total_burned_all_time :: u64
  fm_current_epoch :: u64

definition fee_manager_new :: "timestamp \<Rightarrow> fee_config \<Rightarrow> fee_manager" where
  "fee_manager_new now cfg =
     (let k = sinks_default
      in \<lparr>fm_config = cfg, fm_sinks = k, unified = unified_new (genesis_supply cfg),
          pool_balances = Map.empty(treasury k \<mapsto> 0, validator_pool k \<mapsto> 0, relay_pool k \<mapsto> 0, burn_sink k \<mapsto> 0,
            insurance_fund k \<mapsto> 0, storage_bonds k \<mapsto> 0),
          current_accounting = accounting_new now 0 0, block_history = Map.empty, fm_current_block = 0,
          total_burned_all_time = 0, fm_current_epoch = 0\<rparr>)"

definition with_genesis_supply :: "timestamp \<Rightarrow> fee_config \<Rightarrow> u64 \<Rightarrow> fee_manager" where
  "with_genesis_supply now cfg g = fee_manager_new now (cfg\<lparr>genesis_supply := g\<rparr>)"

definition fee_advance_epoch :: "fee_manager \<Rightarrow> fee_manager \<times> u64" where
  "fee_advance_epoch m =
     (let e = fm_current_epoch m + 1
      in (m\<lparr>fm_current_epoch := e, unified := fst (unified_advance_epoch (unified m))\<rparr>, e))"

definition get_pool_epoch_accrual :: "fee_manager \<Rightarrow> pool_type \<Rightarrow> u64" where
  "get_pool_epoch_accrual m t = (case pools (unified m) t of None \<Rightarrow> 0 | Some p \<Rightarrow> epoch_accrual p)"

definition start_block :: "crypto \<Rightarrow> timestamp \<Rightarrow> u64 \<Rightarrow> u64 \<Rightarrow> fee_manager \<Rightarrow> fee_manager" where
  "start_block c now height current_supply m =
     (let m = (if fm_current_block m > 0 then
                 let a = (compute_pool_deltas (compute_merkle_root c (current_accounting m)))
                           \<lparr>pool_state_root := compute_state_root c (unified m)\<rparr>
                 in m\<lparr>current_accounting := a, block_history := (block_history m)(fm_current_block m \<mapsto> a)\<rparr>
               else m)
      in m\<lparr>fm_current_block := height, current_accounting := accounting_new now height current_supply\<rparr>)"

text \<open>The products are taken in 128 bits, where a 64-bit amount times a 16-bit rate cannot overflow; the quotient is cast back.\<close>

definition bps_of :: "u64 \<Rightarrow> u16 \<Rightarrow> u64" where
  "bps_of amount bps = of_nat (unat amount * unat bps div 10000)"

definition calculate_distribution ::
    "fee_config \<Rightarrow> u64 \<Rightarrow> bool \<Rightarrow> u16 option \<Rightarrow> u64 \<times> u64 \<times> u64 \<times> u64 \<times> u64 \<times> u64" where
  "calculate_distribution cfg gross apply_burn direct_bps =
     (let burn = (if apply_burn then bps_of gross (fc_burn_rate_bps cfg) else 0);
          after_burn = saturating_sub gross burn;
          direct = (case direct_bps of Some bps \<Rightarrow> bps_of after_burn bps | None \<Rightarrow> 0);
          protocol = saturating_sub after_burn direct;
          v = bps_of protocol (validator_share_bps cfg);
          r = bps_of protocol (relay_share_bps cfg);
          i = bps_of protocol (insurance_fund_bps cfg);
          t = saturating_sub (saturating_sub (saturating_sub protocol v) r) i
      in (burn, v, r, t, i, direct))"

definition calculate_distribution_compat :: "fee_config \<Rightarrow> u64 \<Rightarrow> bool \<Rightarrow> u16 option \<Rightarrow> u64 \<times> u64 \<times> u64 \<times> u64 \<times> u64" where
  "calculate_distribution_compat cfg gross apply_burn direct_bps =
     (case calculate_distribution cfg gross apply_burn direct_bps of (b, v, r, t, i, d) \<Rightarrow> (b, v, r, t + i, d))"

fun fee_policy :: "fee_type \<Rightarrow> bool \<times> u16 option" where
  "fee_policy MessageFee = (False, Some 10000)"
| "fee_policy TransferFee = (True, None)"
| "fee_policy ChannelCreationFee = (False, None)"
| "fee_policy MarketplaceFee = (True, Some 9000)"
| "fee_policy StorageFee = (False, None)"
| "fee_policy PremiumFeatureFee = (False, None)"
| "fee_policy ExecutionGasFee = (False, None)"
| "fee_policy ProgramRuntimeFee = (False, None)"
| "fee_policy StakingOperationFee = (False, None)"

text \<open>The five deposits of \<^verbatim>\<open>collect_fee\<close>: an amount of zero is skipped, the first error ends the call.\<close>

fun deposit_all :: "(pool_type \<times> u64) list \<Rightarrow> unified_pool_state \<Rightarrow> unified_pool_state \<times> unit core_result" where
  "deposit_all [] s = (s, Inr ())"
| "deposit_all ((t, x) # rest) s =
     (if x > 0 then (case deposit_to_pool t x s of (s', Inl e) \<Rightarrow> (s', Inl e) | (s', Inr _) \<Rightarrow> deposit_all rest s')
      else deposit_all rest s)"

definition credit_legacy :: "user_id \<Rightarrow> u64 \<Rightarrow> (user_id \<rightharpoonup> u64) \<Rightarrow> (user_id \<rightharpoonup> u64)" where
  "credit_legacy u x b = b(u := map_option (\<lambda>y. saturating_add y x) (b u))"

definition collect_fee ::
    "timestamp \<Rightarrow> uuid \<Rightarrow> fee_type \<Rightarrow> u64 \<Rightarrow> user_id \<Rightarrow> user_id option \<Rightarrow> uuid \<Rightarrow> fee_manager
      \<Rightarrow> fee_manager \<times> fee_record core_result" where
  "collect_fee now rid ft gross who direct tx m =
     (let (apply_burn, direct_bps) = fee_policy ft;
          (b, v, r, t, i, d) = calculate_distribution (fm_config m) gross apply_burn direct_bps
      in case deposit_all [(ValidatorRewards, v), (RelayRewards, r), (Treasury, t), (InsuranceFund, i), (BurnSink, b)] (unified m) of
        (s, Inl e) \<Rightarrow> (m\<lparr>unified := s\<rparr>, Inl e)
      | (s, Inr _) \<Rightarrow>
          let k = fm_sinks m;
              legacy = credit_legacy (burn_sink k) b (credit_legacy (insurance_fund k) i (credit_legacy (treasury k) t
                        (credit_legacy (relay_pool k) r (credit_legacy (validator_pool k) v (pool_balances m)))));
              rec = \<lparr>fr_id = rid, fr_type = ft, gross_amount = gross, burn_amount = b, validator_share = v, relay_share = r,
                     treasury_share = t, insurance_share = i, direct_recipient = direct, direct_recipient_amount = d,
                     payer = who, fr_block_height = fm_current_block m, fr_timestamp = now, fr_tx_id = tx\<rparr>
          in (m\<lparr>unified := s, pool_balances := legacy,
                total_burned_all_time := (if b > 0 then saturating_add (total_burned_all_time m) b else total_burned_all_time m),
                current_accounting := add_fee_record rec (current_accounting m)\<rparr>, Inr rec))"

definition get_legacy_balance :: "fee_manager \<Rightarrow> user_id \<Rightarrow> u64" where
  "get_legacy_balance m u = (case pool_balances m u of None \<Rightarrow> 0 | Some b \<Rightarrow> b)"

definition get_pool_balance_by_type :: "fee_manager \<Rightarrow> pool_type \<Rightarrow> u64" where
  "get_pool_balance_by_type m t = (case pools (unified m) t of None \<Rightarrow> 0 | Some p \<Rightarrow> available_balance p)"

definition fee_withdraw_from_pool :: "user_id \<Rightarrow> u64 \<Rightarrow> fee_manager \<Rightarrow> fee_manager \<times> u64 core_result" where
  "fee_withdraw_from_pool u amount m =
     (case pool_type_for_sink (fm_sinks m) u of
        None \<Rightarrow> (m, Inl InvalidInput)
      | Some t \<Rightarrow>
          (case withdraw_from_pool t amount (unified m) of
             (s, Inl e) \<Rightarrow> (m\<lparr>unified := s\<rparr>, Inl e)
           | (s, Inr _) \<Rightarrow>
               let m = m\<lparr>unified := s\<rparr> in
               (case pool_balances m u of
                  None \<Rightarrow> (m, Inl InvalidInput)
                | Some b \<Rightarrow>
                    if b < amount then (m, Inl InvalidInput)
                    else (m\<lparr>pool_balances := (pool_balances m)(u \<mapsto> b - amount)\<rparr>, Inr amount))))"

text \<open>The loop over the recipients, with what has been given out so far; the last one gets the rest.\<close>

fun share_out :: "u64 \<Rightarrow> u64 \<Rightarrow> u64 \<Rightarrow> (user_id \<times> u64) list \<Rightarrow> (user_id \<times> u64) list" where
  "share_out amount weight given [] = []"
| "share_out amount weight given ((u, w) # rest) =
     (let share = (if rest = [] then saturating_sub amount given else of_nat (unat amount * unat w div unat weight))
      in (u, share) # share_out amount weight (saturating_add given share) rest)"

definition distribute_rewards ::
    "pool_type \<Rightarrow> (user_id \<times> u64) list \<Rightarrow> u64 \<Rightarrow> fee_manager \<Rightarrow> fee_manager \<times> (user_id \<times> u64) list core_result" where
  "distribute_rewards t recipients amount m =
     (let weight = sum_list (map snd recipients)
      in if weight = 0 then (m, Inr [])
         else case pools (unified m) t of
           None \<Rightarrow> (m, Inl InvalidInput)
         | Some p \<Rightarrow>
             if available_balance p < amount then (m, Inl InvalidInput)
             else (case allocate_pending amount p of
                     Inl e \<Rightarrow> (m, Inl e)
                   | Inr p' \<Rightarrow> (m\<lparr>unified := (unified m)\<lparr>pools := (pools (unified m))(t \<mapsto> p')\<rparr>\<rparr>,
                                Inr (share_out amount weight 0 recipients))))"

definition complete_distribution :: "pool_type \<Rightarrow> u64 \<Rightarrow> fee_manager \<Rightarrow> fee_manager \<times> unit core_result" where
  "complete_distribution t amount m =
     (case pools (unified m) t of
        None \<Rightarrow> (m, Inl InvalidInput)
      | Some p \<Rightarrow>
          (case clear_pending amount p of
             Inl e \<Rightarrow> (m, Inl e)
           | Inr p' \<Rightarrow> (case withdraw amount p' of
               (p'', r) \<Rightarrow> (m\<lparr>unified := (unified m)\<lparr>pools := (pools (unified m))(t \<mapsto> p'')\<rparr>\<rparr>, r))))"

definition get_block_accounting :: "fee_manager \<Rightarrow> u64 \<Rightarrow> block_accounting option" where
  "get_block_accounting m h = block_history m h"

definition verify_current_block :: "fee_manager \<Rightarrow> unit core_result" where
  "verify_current_block m = accounting_verify (current_accounting m)"
section \<open>Splitting an amount\<close>

definition shares_ok :: "fee_config \<Rightarrow> bool" where
  "shares_ok cfg \<longleftrightarrow> unat (validator_share_bps cfg) + unat (relay_share_bps cfg) + unat (insurance_fund_bps cfg) \<le> 10000
     \<and> fc_burn_rate_bps cfg \<le> 10000"

lemma shares_ok_default: "shares_ok fee_config_default"
  by (simp add: shares_ok_def fee_config_default_def VALIDATOR_FEE_SHARE_BPS_def RELAY_FEE_SHARE_BPS_def
      INSURANCE_FUND_ALLOCATION_BPS_def DEFAULT_BURN_RATE_BPS_def)

lemma bps_le: "unat a * b div 10000 \<le> unat a" if "b \<le> 10000"
proof -
  have "unat a * b div 10000 \<le> unat a * 10000 div 10000" using that by (intro div_le_mono mult_le_mono) simp_all
  then show ?thesis by simp
qed

lemma unat_bps_of: "unat (bps_of a b) = unat a * unat b div 10000" if "unat b \<le> 10000"
proof -
  have "unat a < 2 ^ LENGTH(64)" by (rule unsigned_less)
  then have "unat a * unat b div 10000 < 2 ^ LENGTH(64)" using bps_le [OF that, of a] by linarith
  then show ?thesis by (simp add: bps_of_def unat_of_nat take_bit_nat_eq_self)
qed

lemma three_parts: "a * x div n + a * y div n + a * z div n \<le> a" if "x + y + z \<le> n" for a n x y z :: nat
proof (cases "n = 0")
  case False
  have "n * (a * x div n + a * y div n + a * z div n) \<le> a * x + a * y + a * z"
    by (simp add: add_mono distrib_left)
  also have "\<dots> \<le> n * a" using that by (metis distrib_left mult.commute mult_le_mono1)
  finally show ?thesis using False by simp
qed (use that in simp)

lemma distribution_sum:
  assumes "shares_ok cfg" and "\<And>bps. direct_bps = Some bps \<Longrightarrow> unat bps \<le> 10000"
    and "calculate_distribution cfg gross apply_burn direct_bps = (b, v, r, t, i, d)"
  shows "unat b + unat v + unat r + unat t + unat i + unat d = unat gross"
proof -
  define burn where "burn = (if apply_burn then bps_of gross (fc_burn_rate_bps cfg) else 0)"
  define after_burn where "after_burn = saturating_sub gross burn"
  define direct where "direct = (case direct_bps of Some bps \<Rightarrow> bps_of after_burn bps | None \<Rightarrow> 0)"
  define p where "p = saturating_sub after_burn direct"
  have burn: "unat burn \<le> unat gross"
    using assms(1) unat_bps_of [of "fc_burn_rate_bps cfg" gross] bps_le [of "unat (fc_burn_rate_bps cfg)" gross]
    by (auto simp: shares_ok_def word_le_nat_alt burn_def)
  have direct: "unat direct \<le> unat after_burn"
    using assms(2) unat_bps_of bps_le by (auto simp: direct_def split: option.splits)
  have le: "unat (validator_share_bps cfg) \<le> 10000" "unat (relay_share_bps cfg) \<le> 10000" "unat (insurance_fund_bps cfg) \<le> 10000"
    using assms(1) by (auto simp: shares_ok_def)
  have parts: "unat (bps_of p (validator_share_bps cfg)) + unat (bps_of p (relay_share_bps cfg))
      + unat (bps_of p (insurance_fund_bps cfg)) \<le> unat p"
    using assms(1) three_parts unfolding shares_ok_def unat_bps_of [OF le(1)] unat_bps_of [OF le(2)] unat_bps_of [OF le(3)] by blast
  have "calculate_distribution cfg gross apply_burn direct_bps = (burn, bps_of p (validator_share_bps cfg), bps_of p (relay_share_bps cfg),
      saturating_sub (saturating_sub (saturating_sub p (bps_of p (validator_share_bps cfg))) (bps_of p (relay_share_bps cfg)))
        (bps_of p (insurance_fund_bps cfg)), bps_of p (insurance_fund_bps cfg), direct)"
    by (simp only: calculate_distribution_def Let_def burn_def after_burn_def direct_def p_def)
  then have "b = burn" "d = direct" "v = bps_of p (validator_share_bps cfg)" "r = bps_of p (relay_share_bps cfg)"
    "i = bps_of p (insurance_fund_bps cfg)" "t = saturating_sub (saturating_sub (saturating_sub p v) r) i"
    using assms(3) by auto
  then show ?thesis using burn direct parts by (simp add: unat_saturating_sub p_def after_burn_def)
qed

lemma fee_policy_direct: "fee_policy ft = (ab, Some bps) \<Longrightarrow> unat bps \<le> 10000"
  by (cases ft) auto

text \<open>C33. The split of a fee is exact: burn, the four pool shares and the direct recipient's share add up to the amount paid, for
  every configuration whose shares are at most 100 percent and for every kind of fee.\<close>

theorem fee_split_exact:
  assumes "shares_ok cfg" and "fee_policy ft = (apply_burn, direct_bps)"
    and "calculate_distribution cfg gross apply_burn direct_bps = (b, v, r, t, i, d)"
  shows "unat b + unat v + unat r + unat t + unat i + unat d = unat gross"
proof (rule distribution_sum [OF assms(1) _ assms(3)])
  fix bps assume "direct_bps = Some bps"
  then show "unat bps \<le> 10000" using assms(2) fee_policy_direct by auto
qed

section \<open>Histories of the manager\<close>

text \<open>One call, with whether it is regular. Two kinds of call are not: a fee collection that returns an error (the deposits made before the error stay, so a refused burn or an
  overflow of a pool leaves the books unbalanced), and rewards paid out of the burn sink. Every other call is, whether it succeeds or fails.\<close>

inductive fee_call :: "crypto \<Rightarrow> bool \<Rightarrow> fee_manager \<Rightarrow> fee_manager \<Rightarrow> bool" for c where
  call_collect: "collect_fee now rid ft gross who direct tx m = (m', res) \<Longrightarrow> fee_call c (\<not> isl res) m m'"
| call_withdraw: "fee_withdraw_from_pool u amount m = (m', res') \<Longrightarrow> fee_call c True m m'"
| call_distribute: "distribute_rewards t recipients amount m = (m', res'') \<Longrightarrow> fee_call c True m m'"
| call_complete: "complete_distribution t amount m = (m', done') \<Longrightarrow> fee_call c (isl done' \<or> t \<noteq> BurnSink) m m'"
| call_epoch: "fee_advance_epoch m = (m', e) \<Longrightarrow> fee_call c True m m'"
| call_block: "fee_call c True m (start_block c now h current_supply m)"

definition any_call :: "crypto \<Rightarrow> fee_manager \<Rightarrow> fee_manager \<Rightarrow> bool" where
  "any_call c m m' \<longleftrightarrow> (\<exists>ok. fee_call c ok m m')"

definition accounting_ok :: "block_accounting \<Rightarrow> bool" where
  "accounting_ok a \<longleftrightarrow> list_all record_conserves (fee_records a) \<and> post_block_supply a = saturating_sub (pre_block_supply a) (ba_total_burned a)"

lemma accounting_verify_ok: "accounting_verify a = Inr () \<longleftrightarrow> accounting_ok a"
  by (simp add: accounting_verify_def accounting_ok_def)

lemma accounting_new_ok: "accounting_ok (accounting_new now h s)"
  by (simp add: accounting_ok_def accounting_new_def saturating_sub_def)

lemma saturating_sub_add: "saturating_sub (saturating_sub a b) x = saturating_sub a (saturating_add b x)"
  for a b x :: "'a::len word"
proof -
  have "unat a < 2 ^ LENGTH('a)" by (rule unsigned_less)
  then have "unat (saturating_sub (saturating_sub a b) x) = unat (saturating_sub a (saturating_add b x))"
    unfolding unat_saturating_sub unat_saturating_add by linarith
  then show ?thesis by (simp add: word_unat_eq_iff)
qed

lemma accounting_add_ok: "accounting_ok a \<Longrightarrow> record_conserves r \<Longrightarrow> accounting_ok (add_fee_record r a)"
  by (simp add: accounting_ok_def add_fee_record_def saturating_sub_add)

definition accounts_ok :: "fee_manager \<Rightarrow> bool" where
  "accounts_ok m \<longleftrightarrow> shares_ok (fm_config m) \<and> accounting_ok (current_accounting m)
     \<and> (\<forall>h a. block_history m h = Some a \<longrightarrow> accounting_ok a)"

lemma word_sum_of_unat:
  "unat b + unat v + unat r + unat t + unat i + unat d = unat g \<Longrightarrow> b + v + r + t + i + d = g" for b :: "'a::len word"
  by (drule arg_cong [of _ _ "of_nat :: nat \<Rightarrow> 'a word"]) simp

lemma collect_fee_accounts:
  assumes "accounts_ok m" and "collect_fee now rid ft gross who direct tx m = (m', res)"
  shows "accounts_ok m'"
proof -
  obtain ab db where pol: "fee_policy ft = (ab, db)" by (cases "fee_policy ft")
  obtain b v r t i d where dist: "calculate_distribution (fm_config m) gross ab db = (b, v, r, t, i, d)"
    by (cases "calculate_distribution (fm_config m) gross ab db")
  have "unat b + unat v + unat r + unat t + unat i + unat d = unat gross"
    using distribution_sum [OF _ _ dist] assms(1) fee_policy_direct pol by (auto simp: accounts_ok_def)
  then have sum: "b + v + r + t + i + d = gross" by (rule word_sum_of_unat)
  show ?thesis using assms sum
    by (auto simp: collect_fee_def pol dist Let_def accounts_ok_def record_conserves_def intro!: accounting_add_ok split: prod.splits sum.splits)
qed

lemma accounts_ok_kept:
  assumes "accounts_ok m" and "fm_config m' = fm_config m" and "current_accounting m' = current_accounting m" and "block_history m' = block_history m"
  shows "accounts_ok m'"
  using assms by (simp add: accounts_ok_def)

lemma start_block_accounts: "accounts_ok m \<Longrightarrow> accounts_ok (start_block c now h s m)"
  by (auto simp: start_block_def Let_def accounts_ok_def accounting_new_ok compute_pool_deltas_def compute_merkle_root_def
      accounting_ok_def accounting_new_def saturating_sub_def)

lemma fee_call_accounts:
  assumes "fee_call c ok m m'" and "accounts_ok m"
  shows "accounts_ok m'"
  using assms
proof (cases rule: fee_call.cases)
  case (call_collect now rid ft gross who direct tx res)
  then show ?thesis using assms collect_fee_accounts by blast
next
  case (call_withdraw u amount res')
  then show ?thesis using accounts_ok_kept [OF assms(2)]
    by (auto simp: fee_withdraw_from_pool_def Let_def split: option.splits prod.splits sum.splits if_splits)
next
  case (call_distribute t recipients amount res'')
  then show ?thesis using accounts_ok_kept [OF assms(2)]
    by (auto simp: distribute_rewards_def Let_def split: option.splits sum.splits if_splits)
next
  case (call_complete t amount done')
  then show ?thesis using accounts_ok_kept [OF assms(2)]
    by (auto simp: complete_distribution_def split: option.splits sum.splits prod.splits)
next
  case (call_epoch e)
  then show ?thesis using accounts_ok_kept [OF assms(2)] by (auto simp: fee_advance_epoch_def Let_def)
next
  case (call_block now h s)
  then show ?thesis using assms(2) start_block_accounts by blast
qed

text \<open>The accounting of a block always verifies: after any calls on a new manager, in whatever order and with whatever results,
  \<^verbatim>\<open>verify_current_block\<close> succeeds and so does the check of every finished block.\<close>

theorem block_accounting_verifies:
  assumes "shares_ok cfg" and "(any_call c)\<^sup>*\<^sup>* (fee_manager_new now cfg) m"
  shows "verify_current_block m = Inr () \<and> (\<forall>h a. get_block_accounting m h = Some a \<longrightarrow> accounting_verify a = Inr ())"
proof -
  have "accounts_ok m" using assms(2)
  proof (induction rule: rtranclp_induct)
    case base
    then show ?case using assms(1) by (simp add: fee_manager_new_def Let_def accounts_ok_def accounting_new_ok)
  next
    case (step m m')
    then show ?case using fee_call_accounts by (auto simp: any_call_def)
  qed
  then show ?thesis by (simp add: accounts_ok_def verify_current_block_def get_block_accounting_def accounting_verify_ok)
qed
section \<open>Conservation in the pools\<close>

definition pool_ok :: "pool_state \<Rightarrow> bool" where
  "pool_ok p \<longleftrightarrow> unat (ps_balance p) + unat (total_withdrawn p) = unat (total_deposited p)"

definition unified_ok :: "unified_pool_state \<Rightarrow> bool" where
  "unified_ok s \<longleftrightarrow> (\<forall>t. \<exists>p. pools s t = Some p \<and> pool_ok p \<and> (t = BurnSink \<longrightarrow> ps_balance p = up_total_burned s))
     \<and> unat (total_circulating s) + unat (up_total_burned s) = unat (up_genesis_supply s)"

lemma deposit_ok:
  assumes "deposit x p = (p', Inr u)"
  shows "unat (ps_balance p') = unat (ps_balance p) + unat x" "ps_balance p' = ps_balance p + x"
    "unat (total_deposited p') = unat (total_deposited p) + unat x" "total_withdrawn p' = total_withdrawn p"
    "pending_distributions p' = pending_distributions p"
proof -
  have b: "checked_add (ps_balance p) x = Some (ps_balance p')" and d: "checked_add (total_deposited p) x = Some (total_deposited p')"
    and rest: "total_withdrawn p' = total_withdrawn p" "pending_distributions p' = pending_distributions p"
    using assms by (auto simp: deposit_def Let_def split: option.splits)
  show "unat (ps_balance p') = unat (ps_balance p) + unat x" by (rule checked_add_unat [OF b])
  show "ps_balance p' = ps_balance p + x" using b by (simp add: checked_add_Some_iff)
  show "unat (total_deposited p') = unat (total_deposited p) + unat x" by (rule checked_add_unat [OF d])
  show "total_withdrawn p' = total_withdrawn p" "pending_distributions p' = pending_distributions p" by (fact rest)+
qed

lemma withdraw_ok:
  assumes "withdraw x p = (p', Inr u)"
  shows "unat (ps_balance p') = unat (ps_balance p) - unat x" "unat x \<le> unat (ps_balance p)"
    "total_deposited p' = total_deposited p" "unat (total_withdrawn p') = unat (total_withdrawn p) + unat x"
    "pending_distributions p' = pending_distributions p"
proof -
  have x: "x \<le> ps_balance p" "ps_balance p' = ps_balance p - x" and w: "checked_add (total_withdrawn p) x = Some (total_withdrawn p')"
    and rest: "total_deposited p' = total_deposited p" "pending_distributions p' = pending_distributions p"
    using assms by (auto simp: withdraw_def Let_def not_less split: option.splits if_splits)
  show "unat (ps_balance p') = unat (ps_balance p) - unat x" using x by (simp add: unat_sub_no_underflow)
  show "unat x \<le> unat (ps_balance p)" using x(1) by (simp add: word_le_nat_alt)
  show "unat (total_withdrawn p') = unat (total_withdrawn p) + unat x" by (rule checked_add_unat [OF w])
  show "total_deposited p' = total_deposited p" "pending_distributions p' = pending_distributions p" by (fact rest)+
qed

text \<open>A withdrawal within the balance succeeds: what was deposited bounds what has been withdrawn.\<close>

lemma withdraw_within: "pool_ok p \<Longrightarrow> x \<le> ps_balance p \<Longrightarrow> \<exists>p'. withdraw x p = (p', Inr ())"
proof -
  assume p: "pool_ok p" "x \<le> ps_balance p"
  have "unat (total_deposited p) < 2 ^ LENGTH(64)" by (rule unsigned_less)
  then have "unat (total_withdrawn p) + unat x < 2 ^ LENGTH(64)" using p unfolding pool_ok_def word_le_nat_alt by linarith
  then show ?thesis using p(2) by (simp add: withdraw_def Let_def checked_add_def not_less)
qed

lemma deposit_to_pool_ok:
  assumes "unified_ok s" and "deposit_to_pool t x s = (s', Inr u)"
  shows "unified_ok s'"
    "\<And>t' p'. pools s' t' = Some p' \<Longrightarrow> \<exists>p. pools s t' = Some p \<and> unat (ps_balance p') = unat (ps_balance p) + (if t' = t then unat x else 0)"
proof -
  obtain p where p: "pools s t = Some p" "pool_ok p" using assms(1) by (auto simp: unified_ok_def)
  obtain p' where p': "deposit x p = (p', Inr ())" "pools s' = (pools s)(t \<mapsto> p')" "up_genesis_supply s' = up_genesis_supply s"
    and burn: "if t = BurnSink then checked_add (up_total_burned s) x = Some (up_total_burned s') \<and> x \<le> total_circulating s
                 \<and> total_circulating s' = total_circulating s - x
               else up_total_burned s' = up_total_burned s \<and> total_circulating s' = total_circulating s"
    using assms(2) p(1) by (auto simp: deposit_to_pool_def Let_def split: prod.splits sum.splits if_splits option.splits)
  have "pool_ok p'" using p(2) deposit_ok [OF p'(1)] by (simp add: pool_ok_def)
  moreover have "t = BurnSink \<Longrightarrow> ps_balance p' = up_total_burned s'"
    using assms(1) p(1) burn deposit_ok(2) [OF p'(1)] by (auto simp: unified_ok_def checked_add_Some_iff)
  moreover have "unat (total_circulating s') + unat (up_total_burned s') = unat (up_genesis_supply s')"
    using assms(1) burn p'(3) checked_add_unat [of "up_total_burned s" x]
    by (cases "t = BurnSink") (auto simp: unified_ok_def unat_sub_no_underflow word_le_nat_alt)
  moreover have "q = BurnSink \<Longrightarrow> q \<noteq> t \<Longrightarrow> up_total_burned s' = up_total_burned s" for q using burn by simp
  ultimately show "unified_ok s'" using assms(1) p'(2) unfolding unified_ok_def by (metis fun_upd_other fun_upd_same)
  show "\<exists>p. pools s t' = Some p \<and> unat (ps_balance q) = unat (ps_balance p) + (if t' = t then unat x else 0)"
    if "pools s' t' = Some q" for t' q
    using that p(1) p'(2) deposit_ok(1) [OF p'(1)] by (auto split: if_splits)
qed

definition amount_for :: "(pool_type \<times> u64) list \<Rightarrow> pool_type \<Rightarrow> nat" where
  "amount_for ds t = (case map_of ds t of None \<Rightarrow> 0 | Some x \<Rightarrow> unat x)"

lemma amount_for_Cons:
  "distinct (map fst ((t, x) # ds)) \<Longrightarrow> amount_for ((t, x) # ds) q = (if q = t then unat x else 0) + amount_for ds q"
  by (auto simp: amount_for_def simp flip: map_of_eq_None_iff)

lemma deposit_all_ok:
  assumes "unified_ok s" and "deposit_all ds s = (s', Inr u)" and "distinct (map fst ds)"
  shows "unified_ok s' \<and> (\<forall>t p'. pools s' t = Some p' \<longrightarrow> (\<exists>p. pools s t = Some p
    \<and> unat (ps_balance p') = unat (ps_balance p) + amount_for ds t))"
  using assms
proof (induction ds arbitrary: s)
  case Nil
  then show ?case by (simp add: amount_for_def)
next
  case (Cons d ds)
  obtain t x where d: "d = (t, x)" by (cases d)
  have dist: "distinct (map fst ds)" "distinct (map fst ((t, x) # ds))" using Cons.prems(3) by (simp_all add: d)
  show ?case
  proof (cases "x = 0")
    case True
    then have "deposit_all ds s = (s', Inr u)" using Cons.prems(2) by (simp add: d)
    then show ?thesis using Cons.IH [OF Cons.prems(1) _ dist(1)] unfolding d amount_for_Cons [OF dist(2)] by (simp add: True)
  next
    case False
    then obtain s1 where s1: "deposit_to_pool t x s = (s1, Inr ())" "deposit_all ds s1 = (s', Inr u)"
      using Cons.prems(2) by (auto simp: d word_neq_0_conv split: prod.splits sum.splits)
    note first = deposit_to_pool_ok [OF Cons.prems(1) s1(1)]
    note rest = Cons.IH [OF first(1) s1(2) dist(1)]
    have "\<exists>p. pools s q = Some p \<and> unat (ps_balance p') = unat (ps_balance p) + amount_for (d # ds) q"
      if q: "pools s' q = Some p'" for q p'
    proof -
      obtain p1 where p1: "pools s1 q = Some p1" "unat (ps_balance p') = unat (ps_balance p1) + amount_for ds q" using rest q by blast
      then show ?thesis using first(2) [OF p1(1)] unfolding d amount_for_Cons [OF dist(2)] by auto
    qed
    then show ?thesis using rest by blast
  qed
qed

definition legacy_ok :: "fee_manager \<Rightarrow> bool" where
  "legacy_ok m \<longleftrightarrow> fm_sinks m = sinks_default \<and> (\<forall>t p. pools (unified m) t = Some p \<longrightarrow>
     (\<exists>b. pool_balances m (sink_address t) = Some b \<and> ps_balance p \<le> b))"

definition pools_ok :: "fee_manager \<Rightarrow> bool" where
  "pools_ok m \<longleftrightarrow> unified_ok (unified m) \<and> legacy_ok m"

lemma pools_okD:
  assumes "pools_ok m" and "pools (unified m) t = Some p"
  shows "pool_ok p" "\<exists>b. pool_balances m (sink_address t) = Some b \<and> ps_balance p \<le> b" "fm_sinks m = sinks_default"
proof -
  have "\<exists>q. pools (unified m) t = Some q \<and> pool_ok q" using assms(1) unfolding pools_ok_def unified_ok_def by blast
  then show "pool_ok p" using assms(2) by simp
  show "\<exists>b. pool_balances m (sink_address t) = Some b \<and> ps_balance p \<le> b" "fm_sinks m = sinks_default"
    using assms unfolding pools_ok_def legacy_ok_def by blast+
qed

lemma sink_inj [simp]: "sink_address t = sink_address t' \<longleftrightarrow> t = t'"
  by (cases t; cases t') simp_all

lemma sink_of_pool [simp]: "pool_type_for_sink sinks_default (sink_address t) = Some t"
  by (cases t) (simp_all add: pool_type_for_sink_def sinks_default_def)

lemma le_saturating_add:
  fixes a b x :: "'a::len word"
  assumes "a \<le> b" and "unat a' = unat a + unat x"
  shows "a' \<le> saturating_add b x"
proof -
  have "unat a' < 2 ^ LENGTH('a)" by (rule unsigned_less)
  then show ?thesis using assms unfolding word_le_nat_alt unat_saturating_add by linarith
qed

lemma collect_fee_pools:
  assumes "pools_ok m" and "collect_fee now rid ft gross who direct tx m = (m', Inr rec)"
  shows "pools_ok m'"
proof -
  obtain ab db where pol: "fee_policy ft = (ab, db)" by (cases "fee_policy ft")
  obtain b v r t i d where dist: "calculate_distribution (fm_config m) gross ab db = (b, v, r, t, i, d)"
    by (cases "calculate_distribution (fm_config m) gross ab db")
  let ?ds = "[(ValidatorRewards, v), (RelayRewards, r), (Treasury, t), (InsuranceFund, i), (BurnSink, b)]"
  obtain s where s: "deposit_all ?ds (unified m) = (s, Inr ())" "unified m' = s" "fm_sinks m' = fm_sinks m"
    "pool_balances m' = credit_legacy (burn_sink (fm_sinks m)) b (credit_legacy (insurance_fund (fm_sinks m)) i
       (credit_legacy (treasury (fm_sinks m)) t (credit_legacy (relay_pool (fm_sinks m)) r
         (credit_legacy (validator_pool (fm_sinks m)) v (pool_balances m)))))"
    using assms(2) by (auto simp: collect_fee_def pol dist Let_def simp del: deposit_all.simps split: prod.splits sum.splits)
  have ok: "unified_ok (unified m)" "legacy_ok m" using assms(1) by (auto simp: pools_ok_def)
  note dep = deposit_all_ok [OF ok(1) s(1)]
  have sinks: "fm_sinks m = sinks_default" using ok(2) by (simp add: legacy_ok_def)
  have "\<exists>y. pool_balances m' (sink_address q) = Some y \<and> ps_balance p' \<le> y" if q: "pools s q = Some p'" for q p'
  proof -
    obtain p where p: "pools (unified m) q = Some p"
      "unat (ps_balance p') = unat (ps_balance p) + amount_for ?ds q"
      using dep q by auto
    obtain y where y: "pool_balances m (sink_address q) = Some y" "ps_balance p \<le> y" using ok(2) p(1) by (auto simp: legacy_ok_def)
    show ?thesis using y p(2) le_saturating_add [OF y(2)]
      by (cases q) (simp_all add: s(4) sinks sinks_default_def credit_legacy_def amount_for_def word_le_nat_alt)
  qed
  then show ?thesis using dep s sinks by (auto simp: pools_ok_def legacy_ok_def)
qed

text \<open>A call that replaces one pool by one with a smaller or equal balance, all deposits accounted for.\<close>

lemma replace_pool_ok:
  assumes "pools_ok m" and "pools (unified m) t = Some p" and "pool_ok p'" and "ps_balance p' \<le> ps_balance p"
    and "t = BurnSink \<Longrightarrow> ps_balance p' = ps_balance p"
  shows "pools_ok (m\<lparr>unified := (unified m)\<lparr>pools := (pools (unified m))(t \<mapsto> p')\<rparr>\<rparr>)"
proof -
  have "\<exists>b. pool_balances m (sink_address t) = Some b \<and> ps_balance p \<le> b"
    using assms(1,2) unfolding pools_ok_def legacy_ok_def by blast
  then have "\<exists>b. pool_balances m (sink_address t) = Some b \<and> ps_balance p' \<le> b" using assms(4) by (meson order.trans)
  then show ?thesis using assms by (auto simp: pools_ok_def unified_ok_def legacy_ok_def)
qed
lemma withdraw_pools:
  assumes "pools_ok m" and "fee_withdraw_from_pool u x m = (m', Inr y)"
  shows "pools_ok m'"
proof -
  have sinks: "fm_sinks m = sinks_default" using assms(1) by (simp add: pools_ok_def legacy_ok_def)
  obtain t p p' b where t: "pool_type_for_sink sinks_default u = Some t" "t \<noteq> BurnSink" "pools (unified m) t = Some p"
    "withdraw x p = (p', Inr ())" "pool_balances m u = Some b" "x \<le> b"
    "m' = m\<lparr>unified := (unified m)\<lparr>pools := (pools (unified m))(t \<mapsto> p')\<rparr>, pool_balances := (pool_balances m)(u \<mapsto> b - x)\<rparr>"
    using assms(2) by (auto simp: fee_withdraw_from_pool_def withdraw_from_pool_def sinks Let_def not_less
        split: option.splits if_splits prod.splits sum.splits)
  have u: "u = sink_address t" using t(1) by (auto simp: pool_type_for_sink_def sinks_default_def split: if_splits)
  have ok: "unified_ok (unified m)" "legacy_ok m" using assms(1) by (auto simp: pools_ok_def)
  have p: "pool_ok p" "ps_balance p \<le> b" using pools_okD [OF assms(1) t(3)] t(5) by (auto simp: u)
  note w = withdraw_ok [OF t(4)]
  have "pool_ok p'" using p(1) w by (simp add: pool_ok_def)
  moreover have "ps_balance p' \<le> b - x" using p(2) w(1,2) t(6) by (simp add: word_le_nat_alt unat_sub_no_underflow)
  moreover have "\<exists>y. pool_balances m (sink_address q) = Some y \<and> ps_balance r \<le> y" if "pools (unified m) q = Some r" for q r
    using ok(2) that unfolding legacy_ok_def by blast
  ultimately show ?thesis using ok t(2) sinks by (auto simp: pools_ok_def unified_ok_def legacy_ok_def t(7) u)
qed

lemma withdraw_refused:
  assumes "pool_ok p" and "withdraw x p = (p', Inl e)"
  shows "p' = p"
proof (cases "x \<le> ps_balance p")
  case True
  then show ?thesis using withdraw_within [OF assms(1)] assms(2) by fastforce
qed (use assms(2) in \<open>simp add: withdraw_def not_le\<close>)

text \<open>A withdrawal that is refused changes nothing: the legacy table, which is checked last, never holds less than the pool.\<close>

lemma withdraw_refused_pools:
  assumes "pools_ok m" and "fee_withdraw_from_pool u x m = (m', Inl e)"
  shows "m' = m"
proof (cases "pool_type_for_sink (fm_sinks m) u")
  case (Some t)
  have sinks: "fm_sinks m = sinks_default" using assms(1) by (simp add: pools_ok_def legacy_ok_def)
  have u: "u = sink_address t" using Some unfolding sinks by (auto simp: pool_type_for_sink_def sinks_default_def split: if_splits)
  obtain p where p: "pools (unified m) t = Some p" using assms(1) by (auto simp: pools_ok_def unified_ok_def)
  obtain b where ok: "pool_ok p" "pool_balances m u = Some b" "ps_balance p \<le> b" using pools_okD [OF assms(1) p] by (auto simp: u)
  obtain p' r where w: "withdraw x p = (p', r)" by fastforce
  show ?thesis
  proof (cases r)
    case (Inl e')
    have same: "p' = p" using withdraw_refused [OF ok(1)] w Inl by simp
    have "(unified m)\<lparr>pools := (pools (unified m))(t \<mapsto> p)\<rparr> = unified m" using p by (simp add: fun_upd_idem)
    then show ?thesis using assms(2) Some p w Inl by (auto simp: fee_withdraw_from_pool_def withdraw_from_pool_def same split: if_splits)
  next
    case (Inr y)
    have "unat x \<le> unat (ps_balance p)" using withdraw_ok(2) w Inr by blast
    then have "\<not> b < x" using ok(3) by (simp add: word_le_nat_alt not_less)
    then show ?thesis using assms(2) Some p w Inr ok(2) by (auto simp: fee_withdraw_from_pool_def withdraw_from_pool_def Let_def split: if_splits)
  qed
qed (use assms(2) in \<open>simp add: fee_withdraw_from_pool_def\<close>)

lemma allocate_keeps: "allocate_pending x p = Inr p' \<Longrightarrow> ps_balance p' = ps_balance p \<and> pool_ok p' = pool_ok p"
  by (auto simp: allocate_pending_def pool_ok_def split: if_splits option.splits)

lemma clear_keeps: "clear_pending x p = Inr p' \<Longrightarrow> ps_balance p' = ps_balance p \<and> pool_ok p' = pool_ok p"
  by (auto simp: clear_pending_def pool_ok_def split: if_splits)

lemma distribute_pools:
  assumes "pools_ok m" and "distribute_rewards t rs x m = (m', res)"
  shows "pools_ok m'"
proof -
  have "pool_ok p" if "pools (unified m) t = Some p" for p by (rule pools_okD [OF assms(1) that])
  then show ?thesis using assms
    by (auto simp: distribute_rewards_def Let_def dest!: allocate_keeps intro!: replace_pool_ok split: if_splits option.splits sum.splits)
qed

lemma complete_pools:
  assumes "pools_ok m" and "complete_distribution t x m = (m', Inr u)" and "t \<noteq> BurnSink"
  shows "pools_ok m'"
proof -
  obtain p p1 p2 where p: "pools (unified m) t = Some p" "clear_pending x p = Inr p1" "withdraw x p1 = (p2, Inr ())"
    "m' = m\<lparr>unified := (unified m)\<lparr>pools := (pools (unified m))(t \<mapsto> p2)\<rparr>\<rparr>"
    using assms(2) by (auto simp: complete_distribution_def split: option.splits sum.splits prod.splits)
  have "pool_ok p" by (rule pools_okD [OF assms(1) p(1)])
  then have "pool_ok p2" "ps_balance p2 \<le> ps_balance p"
    using clear_keeps [OF p(2)] withdraw_ok [OF p(3)] by (auto simp: pool_ok_def word_le_nat_alt)
  then show ?thesis unfolding p(4) using replace_pool_ok [OF assms(1) p(1)] assms(3) by blast
qed

lemma complete_refused_pools:
  assumes "pools_ok m" and "complete_distribution t x m = (m', Inl e)"
  shows "pools_ok m'"
proof -
  obtain p where p: "pools (unified m) t = Some p" using assms(1) by (auto simp: pools_ok_def unified_ok_def)
  have ok: "pool_ok p" by (rule pools_okD [OF assms(1) p])
  show ?thesis
  proof (cases "clear_pending x p")
    case (Inl e')
    then show ?thesis using assms p by (simp add: complete_distribution_def)
  next
    case (Inr p1)
    then have p1: "ps_balance p1 = ps_balance p" "pool_ok p1" using clear_keeps [OF Inr] ok by simp_all
    obtain p2 where "withdraw x p1 = (p2, Inl e)" "m' = m\<lparr>unified := (unified m)\<lparr>pools := (pools (unified m))(t \<mapsto> p2)\<rparr>\<rparr>"
      using assms(2) p Inr by (auto simp: complete_distribution_def split: prod.splits)
    moreover from this(1) have "p2 = p1" by (rule withdraw_refused [OF p1(2)])
    ultimately show ?thesis using replace_pool_ok [OF assms(1) p p1(2)] p1(1) by simp
  qed
qed

lemma epoch_pools:
  assumes "pools_ok m" and "fee_advance_epoch m = (m', e)"
  shows "pools_ok m'"
proof -
  have "unified m' = fst (unified_advance_epoch (unified m))" "fm_sinks m' = fm_sinks m" "pool_balances m' = pool_balances m"
    using assms(2) by (auto simp: fee_advance_epoch_def Let_def)
  moreover have "\<exists>p. map_option (reset_epoch_accrual n) (pools (unified m) t) = Some p \<and> pool_ok p
      \<and> (t = BurnSink \<longrightarrow> ps_balance p = up_total_burned (unified m))" for t n
  proof -
    obtain p where "pools (unified m) t = Some p" "pool_ok p" "t = BurnSink \<longrightarrow> ps_balance p = up_total_burned (unified m)"
      using assms(1) unfolding pools_ok_def unified_ok_def by blast
    then show ?thesis by (simp add: reset_epoch_accrual_def pool_ok_def)
  qed
  ultimately show ?thesis using assms(1)
    by (auto simp: pools_ok_def unified_ok_def legacy_ok_def unified_advance_epoch_def Let_def reset_epoch_accrual_def)
qed

lemma start_block_pools: "pools_ok (start_block c now h s m) = pools_ok m"
  by (simp add: start_block_def Let_def pools_ok_def legacy_ok_def)

lemma fee_call_pools:
  assumes "fee_call c ok m m'" and "ok" and "pools_ok m"
  shows "pools_ok m'"
  using assms
proof (cases rule: fee_call.cases)
  case (call_collect now rid ft gross who direct tx res)
  then show ?thesis using assms collect_fee_pools by (cases res) auto
next
  case (call_withdraw u amount res')
  show ?thesis
  proof (cases res')
    case (Inl e)
    have "m' = m" using withdraw_refused_pools [OF assms(3), of u amount m' e] call_withdraw Inl by simp
    then show ?thesis using assms(3) by simp
  next
    case (Inr y)
    then show ?thesis using withdraw_pools [OF assms(3)] call_withdraw by blast
  qed
next
  case (call_distribute t recipients amount res'')
  then show ?thesis using assms distribute_pools by blast
next
  case (call_complete t amount done')
  show ?thesis
  proof (cases done')
    case (Inl e)
    then show ?thesis using complete_refused_pools [OF assms(3)] call_complete by blast
  next
    case (Inr y)
    then show ?thesis using complete_pools [OF assms(3)] call_complete assms(2) by simp
  qed
next
  case (call_epoch e)
  then show ?thesis using assms epoch_pools by blast
next
  case (call_block now h s)
  then show ?thesis using assms(3) by (simp add: start_block_pools)
qed

lemma fee_manager_new_pools: "pools_ok (fee_manager_new now cfg)"
proof -
  have "t \<in> set all_pools" for t by (cases t) (simp_all add: all_pools_def)
  moreover have "\<exists>b. pool_balances (fee_manager_new now cfg) (sink_address t) = Some b" for t
    by (cases t) (simp_all add: fee_manager_new_def Let_def sinks_default_def)
  ultimately show ?thesis
    by (auto simp: fee_manager_new_def Let_def pools_ok_def unified_ok_def legacy_ok_def unified_new_def pool_ok_def pool_new_def)
qed

lemma pools_ok_run: "(fee_call c True)\<^sup>*\<^sup>* m m' \<Longrightarrow> pools_ok m \<Longrightarrow> pools_ok m'"
  by (induction rule: rtranclp_induct) (auto intro: fee_call_pools)

lemma verify_conservation_ok: "unified_ok s \<Longrightarrow> verify_conservation s = Inr ()"
proof -
  assume ok: "unified_ok s"
  have "unat (up_genesis_supply s) < 2 ^ LENGTH(64)" by (rule unsigned_less)
  then have "checked_add (total_circulating s) (up_total_burned s) = Some (up_genesis_supply s)"
    using ok unat_add_no_overflow [of "total_circulating s" "up_total_burned s"]
    by (auto simp: checked_add_def unified_ok_def word_unat_eq_iff)
  then show ?thesis using ok by (fastforce simp: verify_conservation_def unified_ok_def split: option.splits)
qed

text \<open>C7. The pools conserve value: along any run of regular calls on a new manager, for any configuration, the circulating and the burned supply add up to the genesis supply,
  the burn sink holds what was burned, and every pool holds what was deposited and not withdrawn; the check \<^verbatim>\<open>verify_conservation\<close> never fails. Regular is every call, successful or
  refused, apart from two kinds: a fee collection that returns an error (a refused burn, or an overflow of a pool: the deposits made before the error stay) and a reward paid out of
  the burn sink, which nothing forbids. The second invariant that the comment of \<^verbatim>\<open>verify_conservation\<close> names, that the other pools hold no more than what circulates, is neither
  checked nor true.\<close>

theorem pools_conserve:
  assumes "(fee_call c True)\<^sup>*\<^sup>* (fee_manager_new now cfg) m"
  shows "verify_conservation (unified m) = Inr ()
    \<and> (\<forall>t. \<exists>p. pools (unified m) t = Some p \<and> unat (ps_balance p) + unat (total_withdrawn p) = unat (total_deposited p))"
proof -
  have "unified_ok (unified m)" using pools_ok_run [OF assms fee_manager_new_pools] by (simp add: pools_ok_def)
  then show ?thesis using verify_conservation_ok unfolding unified_ok_def pool_ok_def by blast
qed

text \<open>A withdrawal from the sink of a pool other than the burn sink succeeds exactly when the pool holds the amount: the legacy
  table, which is checked after the pool has been debited, never holds less than the pool.\<close>

theorem fee_withdraw_iff:
  assumes "(fee_call c True)\<^sup>*\<^sup>* (fee_manager_new now cfg) m" and "t \<noteq> BurnSink" and "pools (unified m) t = Some p"
  shows "snd (fee_withdraw_from_pool (sink_address t) x m) = (if x \<le> ps_balance p then Inr x else Inl InvalidInput)"
proof -
  have ok: "pools_ok m" using pools_ok_run [OF assms(1) fee_manager_new_pools] .
  obtain b where sinks: "fm_sinks m = sinks_default" and p: "pool_ok p"
    and b: "pool_balances m (sink_address t) = Some b" "ps_balance p \<le> b" using pools_okD [OF ok assms(3)] by blast
  show ?thesis
  proof (cases "x \<le> ps_balance p")
    case True
    then obtain p' where "withdraw x p = (p', Inr ())" using withdraw_within [OF p] by blast
    moreover have "\<not> b < x" using b(2) True by (meson leD order.trans)
    ultimately show ?thesis using assms(2,3) b(1) True
      by (simp add: fee_withdraw_from_pool_def sinks withdraw_from_pool_def Let_def)
  next
    case False
    then show ?thesis using assms(2,3)
      by (simp add: fee_withdraw_from_pool_def sinks withdraw_from_pool_def withdraw_def Let_def not_le)
  qed
qed
section \<open>Paying rewards\<close>

definition weight_sum :: "(user_id \<times> u64) list \<Rightarrow> nat" where
  "weight_sum rs = sum_list (map (\<lambda>r. unat (snd r)) rs)"

lemma weight_sum_simps [simp]: "weight_sum [] = 0" "weight_sum ((u, w) # rs) = unat w + weight_sum rs"
  by (simp_all add: weight_sum_def)

lemma div_superadd: "a div n + b div n \<le> (a + b) div n" for a b n :: nat
  by (cases "n = 0") (simp_all add: less_eq_div_iff_mult_less_eq distrib_left add_mono mult.commute)

lemma unat_sum_list:
  "weight_sum rs < 2 ^ LENGTH(64) \<Longrightarrow> unat (sum_list (map snd rs)) = weight_sum rs"
proof (induction rs)
  case (Cons r rs)
  obtain u w where r: "r = (u, w)" by (cases r)
  have "unat (sum_list (map snd rs)) = weight_sum rs" using Cons by (simp add: r)
  then show ?case using Cons.prems unat_add_no_overflow [of w "sum_list (map snd rs)"] by (simp add: r)
qed simp

text \<open>What one turn of the loop gives, and that the rest still fits.\<close>

lemma share_fits:
  fixes given amount w :: u64
  assumes "unat given + unat amount * (unat w + rest) div W \<le> unat amount" and "unat w \<le> W"
  shows "unat (of_nat (unat amount * unat w div W) :: u64) = unat amount * unat w div W"
    "unat (saturating_add given (of_nat (unat amount * unat w div W))) = unat given + unat amount * unat w div W"
    "unat given + unat amount * unat w div W + unat amount * rest div W \<le> unat amount"
proof -
  let ?s = "unat amount * unat w div W"
  have lt: "unat amount < 2 ^ LENGTH(64)" by (rule unsigned_less)
  have split: "?s + unat amount * rest div W \<le> unat amount * (unat w + rest) div W"
    using div_superadd [of "unat amount * unat w" W "unat amount * rest"] by (simp add: distrib_left)
  then have le: "unat given + ?s \<le> unat amount" using assms(1) by linarith
  then have "?s < 2 ^ LENGTH(64)" using lt by linarith
  then show s: "unat (of_nat ?s :: u64) = ?s" by (simp add: unat_of_nat take_bit_nat_eq_self)
  have "unat given + unat (of_nat ?s :: u64) < 2 ^ LENGTH(64)" using le lt s by linarith
  then show "unat (saturating_add given (of_nat ?s)) = unat given + ?s"
    using s by (simp add: saturating_add_def unat_add_no_overflow)
  show "unat given + ?s + unat amount * rest div W \<le> unat amount" using split assms(1) by linarith
qed

lemma share_out_sum:
  assumes "rs \<noteq> []" and "unat given + unat amount * weight_sum rs div unat W \<le> unat amount" and "weight_sum rs \<le> unat W"
  shows "unat given + sum_list (map (\<lambda>d. unat (snd d)) (share_out amount W given rs)) = unat amount"
  using assms
proof (induction rs arbitrary: given)
  case (Cons r rs)
  obtain u w where r: "r = (u, w)" by (cases r)
  have w: "unat w \<le> unat W" using Cons.prems(3) by (simp add: r)
  note fits = share_fits [OF Cons.prems(2) [unfolded r weight_sum_simps] w]
  show ?case
  proof (cases "rs = []")
    case True
    then show ?thesis using Cons.prems(2) by (simp add: r unat_saturating_sub)
  next
    case False
    then show ?thesis using Cons.IH [OF False, of "saturating_add given (of_nat (unat amount * unat w div unat W))"] fits Cons.prems(3)
      by (simp add: r Let_def)
  qed
qed simp

lemma share_out_recipients: "map fst (share_out amount W given rs) = map fst rs"
  by (induction amount W given rs rule: share_out.induct) (simp_all add: Let_def)

lemma share_out_nth:
  "i + 1 < length rs \<Longrightarrow> snd (share_out amount W given rs ! i) = of_nat (unat amount * unat (snd (rs ! i)) div unat W)"
proof (induction amount W given rs arbitrary: i rule: share_out.induct)
  case (2 amount W given u w rest)
  then show ?case by (cases i) (auto simp: Let_def)
qed simp

text \<open>Rewards are shared out without loss: when the weights fit into 64 bits and are not all zero, every recipient gets a
  share, all but the last in proportion to the weight rounded down, the shares add up to the amount, and exactly that
  amount is set aside in the pool.\<close>

theorem distribute_rewards_exact:
  assumes "distribute_rewards t rs amount m = (m', Inr ds)" and "weight_sum rs < 2 ^ 64" and "weight_sum rs \<noteq> 0"
    and "pools (unified m) t = Some p"
  shows "map fst ds = map fst rs \<and> sum_list (map (\<lambda>d. unat (snd d)) ds) = unat amount
    \<and> (\<forall>i. i + 1 < length rs \<longrightarrow> snd (ds ! i) = of_nat (unat amount * unat (snd (rs ! i)) div weight_sum rs))
    \<and> (\<exists>p'. pools (unified m') t = Some p' \<and> unat (pending_distributions p') = unat (pending_distributions p) + unat amount)"
proof -
  let ?W = "sum_list (map snd rs)"
  have W: "unat ?W = weight_sum rs" using unat_sum_list assms(2) by simp
  then have "?W \<noteq> 0" using assms(3) by auto
  then obtain p' where p': "allocate_pending amount p = Inr p'" "ds = share_out amount ?W 0 rs"
    "unified m' = (unified m)\<lparr>pools := (pools (unified m))(t \<mapsto> p')\<rparr>"
    using assms(1,4) by (auto simp: distribute_rewards_def Let_def split: if_splits sum.splits)
  have "rs \<noteq> []" using assms(3) by auto
  moreover have "unat amount * weight_sum rs div unat ?W \<le> unat amount" using W assms(3) by simp
  ultimately have "sum_list (map (\<lambda>d. unat (snd d)) ds) = unat amount" using share_out_sum [of rs 0 amount ?W] W p'(2) by simp
  moreover have "checked_add (pending_distributions p) amount = Some (pending_distributions p')"
    using p'(1) by (auto simp: allocate_pending_def split: if_splits option.splits)
  then have "unat (pending_distributions p') = unat (pending_distributions p) + unat amount" by (rule checked_add_unat)
  ultimately show ?thesis using share_out_nth p'(2,3) W by (simp add: share_out_recipients)
qed

text \<open>A withdrawal does not respect what has been set aside: after rewards of the whole balance have been allocated, the balance
  can still be withdrawn through the sink, and the allocated rewards can then not be paid.\<close>

theorem withdraw_ignores_pending:
  assumes "pools_ok m" and "t \<noteq> BurnSink" and "pools (unified m) t = Some p" and "ps_balance p \<noteq> 0" and "pending_distributions p = 0"
    and "w \<noteq> 0"
  shows "\<exists>m1 ds m2 m3. distribute_rewards t [(u, w)] (ps_balance p) m = (m1, Inr ds)
    \<and> fee_withdraw_from_pool (sink_address t) (ps_balance p) m1 = (m2, Inr (ps_balance p))
    \<and> complete_distribution t (ps_balance p) m2 = (m3, Inl InvalidInput)"
proof -
  let ?b = "ps_balance p" and ?p1 = "p\<lparr>pending_distributions := ps_balance p\<rparr>"
  note ok = pools_okD [OF assms(1,3)]
  obtain l where l: "pool_balances m (sink_address t) = Some l" "?b \<le> l" using ok(2) by blast
  define m1 where "m1 = m\<lparr>unified := (unified m)\<lparr>pools := (pools (unified m))(t \<mapsto> ?p1)\<rparr>\<rparr>"
  have "unat ?b < 2 ^ LENGTH(64)" by (rule unsigned_less)
  then have d: "distribute_rewards t [(u, w)] ?b m = (m1, Inr (share_out ?b w 0 [(u, w)]))"
    using assms(3,5,6) by (simp add: distribute_rewards_def Let_def available_balance_def saturating_sub_def allocate_pending_def
        checked_add_def m1_def)
  have "pool_ok ?p1" using ok(1) by (simp add: pool_ok_def)
  then obtain p2 where p2: "withdraw ?b ?p1 = (p2, Inr ())" using withdraw_within [of ?p1 ?b] by auto
  have p2_0: "ps_balance p2 = 0" "pending_distributions p2 = ?b" using withdraw_ok [OF p2] by (simp_all add: unat_eq_zero)
  define m2 where "m2 = m1\<lparr>unified := (unified m1)\<lparr>pools := (pools (unified m1))(t \<mapsto> p2)\<rparr>,
    pool_balances := (pool_balances m)(sink_address t \<mapsto> l - ?b)\<rparr>"
  have w: "fee_withdraw_from_pool (sink_address t) ?b m1 = (m2, Inr ?b)"
    using assms(2) l p2 ok(3)
    by (simp add: fee_withdraw_from_pool_def withdraw_from_pool_def Let_def m1_def m2_def not_less)
  have "\<exists>m3. complete_distribution t ?b m2 = (m3, Inl InvalidInput)"
    using p2_0 assms(4) by (simp add: complete_distribution_def clear_pending_def withdraw_def m2_def word_neq_0_conv)
  then show ?thesis using d w by blast
qed


text \<open>A deposit into the burn sink of more than circulates is refused after the sink and the burned total have been raised.\<close>

lemma checked_add_0 [simp]: "checked_add 0 x = Some x"
  by (simp add: checked_add_def)

lemma refused_burn:
  assumes "pools s BurnSink = Some (pool_new BurnSink)" and "up_total_burned s = 0" and "total_circulating s < b"
  shows "\<exists>p. deposit_to_pool BurnSink b s = (s\<lparr>pools := (pools s)(BurnSink \<mapsto> p), up_total_burned := b\<rparr>, Inl InvalidInput)"
  by (insert assms, simp add: deposit_to_pool_def deposit_def pool_new_def Let_def, intro exI, rule refl)

lemma deposit_other_pool:
  assumes "pools s t = Some (pool_new t)" and "t \<noteq> BurnSink"
  shows "\<exists>p. deposit_to_pool t x s = (s\<lparr>pools := (pools s)(t \<mapsto> p)\<rparr>, Inr ())"
  by (insert assms, simp add: deposit_to_pool_def deposit_def pool_new_def Let_def, intro exI, rule refl)

lemma deposit_all_refused:
  assumes "\<forall>t \<in> fst ` set ds. t \<noteq> BurnSink \<and> pools s t = Some (pool_new t)" and "distinct (map fst ds)"
    and "pools s BurnSink = Some (pool_new BurnSink)" and "up_total_burned s = 0" and "total_circulating s < b"
  shows "\<exists>s'. deposit_all (ds @ [(BurnSink, b)]) s = (s', Inl InvalidInput) \<and> up_total_burned s' = b
    \<and> total_circulating s' = total_circulating s \<and> up_genesis_supply s' = up_genesis_supply s"
  using assms
proof (induction ds arbitrary: s)
  case Nil
  have "b > 0" using Nil.prems(5) by (auto simp: word_less_nat_alt)
  then show ?case using refused_burn [OF Nil.prems(3,4,5)] by auto
next
  case (Cons d ds)
  obtain t x where d: "d = (t, x)" by (cases d)
  obtain p where p: "deposit_to_pool t x s = (s\<lparr>pools := (pools s)(t \<mapsto> p)\<rparr>, Inr ())"
    using deposit_other_pool [of s t] Cons.prems(1) by (auto simp: d)
  have "\<forall>q \<in> fst ` set ds. q \<noteq> BurnSink \<and> pools s q = Some (pool_new q) \<and> q \<noteq> t" "t \<noteq> BurnSink"
    using Cons.prems(1,2) by (auto simp: d)
  then show ?case
    using Cons.IH [of s] Cons.IH [of "s\<lparr>pools := (pools s)(t \<mapsto> p)\<rparr>"] Cons.prems(2-5) p by (auto simp: d)
qed

text \<open>A fee that would burn more than the circulating supply is refused, but only after the burn sink and the burned total have
  been raised: the check of conservation fails from then on.\<close>

theorem refused_burn_breaks_conservation:
  assumes "g < bps_of gross (fc_burn_rate_bps cfg)"
  shows "\<exists>m'. collect_fee now' rid TransferFee gross who direct tx (with_genesis_supply now cfg g) = (m', Inl InvalidInput)
    \<and> verify_conservation (unified m') = Inl InvalidInput"
proof -
  let ?m = "with_genesis_supply now cfg g"
  let ?cfg = "cfg\<lparr>genesis_supply := g\<rparr>"
  obtain b v r t i d where dist: "calculate_distribution ?cfg gross True None = (b, v, r, t, i, d)"
    by (cases "calculate_distribution ?cfg gross True None")
  then have b: "g < b" using assms by (auto simp: calculate_distribution_def Let_def)
  have fresh: "pools (unified ?m) q = Some (pool_new q)" for q
    by (cases q) (simp_all add: with_genesis_supply_def fee_manager_new_def Let_def unified_new_def all_pools_def)
  have m: "up_total_burned (unified ?m) = 0" "total_circulating (unified ?m) = g" "up_genesis_supply (unified ?m) = g" "fm_config ?m = ?cfg"
    by (simp_all add: with_genesis_supply_def fee_manager_new_def Let_def unified_new_def)
  obtain s where s: "deposit_all ([(ValidatorRewards, v), (RelayRewards, r), (Treasury, t), (InsuranceFund, i)] @ [(BurnSink, b)]) (unified ?m)
      = (s, Inl InvalidInput)" "up_total_burned s = b" "total_circulating s = g" "up_genesis_supply s = g"
    using deposit_all_refused [of "[(ValidatorRewards, v), (RelayRewards, r), (Treasury, t), (InsuranceFund, i)]" "unified ?m" b] b fresh m
    by auto
  then have "collect_fee now' rid TransferFee gross who direct tx ?m = (?m\<lparr>unified := s\<rparr>, Inl InvalidInput)"
    by (simp add: collect_fee_def m(4) dist Let_def del: deposit_all.simps)
  moreover have "verify_conservation s = Inl InvalidInput"
    using s b by (auto simp: verify_conservation_def checked_add_def split: option.splits)
  ultimately show ?thesis by auto
qed

text \<open>The pools other than the burn sink can hold more than circulates, although the comment of \<^verbatim>\<open>verify_conservation\<close> states the contrary as an invariant: a fee larger than the
  supply is collected, and the check passes.\<close>

lemma pools_exceed_circulating:
  "\<exists>m' rec p. collect_fee 0 1 StorageFee 10000 9 None 2 (with_genesis_supply 0 fee_config_default 100) = (m', Inr rec)
    \<and> verify_conservation (unified m') = Inr () \<and> total_circulating (unified m') = 100
    \<and> pools (unified m') ValidatorRewards = Some p \<and> ps_balance p = 6800"
proof -
  let ?m = "with_genesis_supply 0 fee_config_default 100"
  have fresh: "pools (unified ?m) q = Some (pool_new q)" for q
    by (cases q) (simp_all add: with_genesis_supply_def fee_manager_new_def Let_def unified_new_def all_pools_def)
  have m: "total_circulating (unified ?m) = 100" "up_genesis_supply (unified ?m) = 100" "up_total_burned (unified ?m) = 0"
      "fm_config ?m = fee_config_default\<lparr>genesis_supply := 100\<rparr>"
    by (simp_all add: with_genesis_supply_def fee_manager_new_def Let_def unified_new_def)
  have d: "calculate_distribution (fee_config_default\<lparr>genesis_supply := 100\<rparr>) 10000 False None = (0, 6800, 2000, 1000, 200, 0)"
    by (simp add: calculate_distribution_def fee_config_default_def bps_of_def Let_def saturating_sub_def VALIDATOR_FEE_SHARE_BPS_def
        RELAY_FEE_SHARE_BPS_def INSURANCE_FUND_ALLOCATION_BPS_def)
  show ?thesis
    by (simp add: collect_fee_def m d Let_def deposit_to_pool_def fresh deposit_def pool_new_def verify_conservation_def checked_add_def)
qed

section \<open>Witnesses\<close>

theorem fee_split_exact_witness:
  "\<exists>b v r t i d. calculate_distribution fee_config_default 1000 True (Some 9000) = (b, v, r, t, i, d)
    \<and> unat b + unat v + unat r + unat t + unat i + unat d = 1000"
proof -
  obtain b v r t i d where dist: "calculate_distribution fee_config_default 1000 True (Some 9000) = (b, v, r, t, i, d)"
    by (cases "calculate_distribution fee_config_default 1000 True (Some 9000)")
  from fee_split_exact [OF shares_ok_default _ this, of MarketplaceFee] dist show ?thesis by simp
qed

definition demo_fees :: fee_manager where
  "demo_fees = fst (collect_fee 0 1 StorageFee 10000 9 None 2 (fee_manager_new 0 fee_config_default))"

lemma demo_pools: "pools (unified (fee_manager_new 0 cfg)) t = Some (pool_new t)"
  by (cases t) (simp_all add: fee_manager_new_def Let_def unified_new_def all_pools_def)

lemma demo_split: "calculate_distribution fee_config_default 10000 False None = (0, 6800, 2000, 1000, 200, 0)"
  by (simp add: calculate_distribution_def fee_config_default_def bps_of_def Let_def saturating_sub_def VALIDATOR_FEE_SHARE_BPS_def
      RELAY_FEE_SHARE_BPS_def INSURANCE_FUND_ALLOCATION_BPS_def)

lemma demo_config: "fm_config (fee_manager_new 0 cfg) = cfg"
  by (simp add: fee_manager_new_def Let_def)

lemma demo_collect:
  "\<exists>rec. collect_fee 0 1 StorageFee 10000 9 None 2 (fee_manager_new 0 fee_config_default) = (demo_fees, Inr rec)"
  "\<exists>p. pools (unified demo_fees) ValidatorRewards = Some p \<and> ps_balance p = 6800 \<and> pending_distributions p = 0"
  by (simp_all add: demo_fees_def collect_fee_def demo_config demo_split Let_def deposit_to_pool_def demo_pools deposit_def pool_new_def)

lemma demo_call: "fee_call c True (fee_manager_new 0 fee_config_default) demo_fees"
  using demo_collect(1) call_collect by (metis isl_def sum.distinct(1))

theorem block_accounting_verifies_witness: "verify_current_block demo_fees = Inr ()"
proof -
  have "any_call toy_crypto (fee_manager_new 0 fee_config_default) demo_fees" using demo_call by (auto simp: any_call_def)
  from block_accounting_verifies [OF shares_ok_default r_into_rtranclp [of "any_call toy_crypto", OF this]] show ?thesis by blast
qed

theorem pools_conserve_witness: "verify_conservation (unified demo_fees) = Inr ()"
  using pools_conserve [OF r_into_rtranclp [of "fee_call toy_crypto True", OF demo_call]] by blast

theorem fee_withdraw_iff_witness: "snd (fee_withdraw_from_pool (sink_address ValidatorRewards) 6800 demo_fees) = Inr 6800"
proof -
  obtain p where p: "pools (unified demo_fees) ValidatorRewards = Some p" "ps_balance p = 6800" using demo_collect(2) by blast
  show ?thesis using fee_withdraw_iff [OF r_into_rtranclp [of "fee_call toy_crypto True", OF demo_call] _ p(1), of 6800] p(2) by simp
qed

theorem distribute_rewards_exact_witness:
  "\<exists>m' ds. distribute_rewards ValidatorRewards [(7, 1), (8, 2)] 1000 demo_fees = (m', Inr ds) \<and> map fst ds = [7, 8]
    \<and> sum_list (map (\<lambda>d. unat (snd d)) ds) = 1000"
proof -
  obtain p where p: "pools (unified demo_fees) ValidatorRewards = Some p" "ps_balance p = 6800" "pending_distributions p = 0"
    using demo_collect(2) by blast
  then obtain m' ds where d: "distribute_rewards ValidatorRewards [(7, 1), (8, 2)] 1000 demo_fees = (m', Inr ds)"
    by (simp add: distribute_rewards_def Let_def available_balance_def saturating_sub_def allocate_pending_def)
  show ?thesis using distribute_rewards_exact [OF d _ _ p(1)] d by simp
qed

theorem withdraw_ignores_pending_witness:
  "\<exists>m1 ds m2 m3. distribute_rewards ValidatorRewards [(7, 1)] 6800 demo_fees = (m1, Inr ds)
    \<and> fee_withdraw_from_pool (sink_address ValidatorRewards) 6800 m1 = (m2, Inr 6800)
    \<and> complete_distribution ValidatorRewards 6800 m2 = (m3, Inl InvalidInput)"
proof -
  have ok: "pools_ok demo_fees" using pools_ok_run [OF r_into_rtranclp [of "fee_call toy_crypto True", OF demo_call] fee_manager_new_pools] .
  obtain p where p: "pools (unified demo_fees) ValidatorRewards = Some p" "ps_balance p = 6800" "pending_distributions p = 0"
    using demo_collect(2) by blast
  show ?thesis using withdraw_ignores_pending [OF ok _ p(1) _ p(3), of 1 7] p(2) by simp
qed

theorem refused_burn_breaks_conservation_witness:
  "\<exists>m'. collect_fee 0 1 TransferFee 2000 9 None 2 (with_genesis_supply 0 fee_config_default 10) = (m', Inl InvalidInput)
    \<and> verify_conservation (unified m') = Inl InvalidInput"
  using refused_burn_breaks_conservation [of 10 2000 fee_config_default]
  by (simp add: bps_of_def fee_config_default_def DEFAULT_BURN_RATE_BPS_def)

end
