(* ===== verification/Tokenomics.thy ===== *)
theory Tokenomics
  imports Fee_Distribution
begin

text \<open>
  The token supply: \<^verbatim>\<open>crates/dchat-blockchain/src/tokenomics.rs\<close>. Minting, burning, liquidity pools and distribution schedules. Event
  ids and times are parameters, and so is the one computation in floating point, the inflation of a block.
\<close>

section \<open>State\<close>

record supply_config =
  initial_supply :: u64
  max_supply :: "u64 option"
  inflation_rate_bps :: u16
  inflation_interval_seconds :: u64
  sc_burn_rate_bps :: u16

definition supply_config_default :: supply_config where
  "supply_config_default = \<lparr>initial_supply = 100000000000, max_supply = Some 1000000000000, inflation_rate_bps = 500,
     inflation_interval_seconds = 15, sc_burn_rate_bps = 100\<rparr>"

datatype mint_reason = Genesis | BlockReward | RelayReward | Inflation | MarketplaceLiquidity | Airdrop | GovernanceReward | Faucet
datatype burn_reason = TransactionFee | Deflation | Slash | VoluntaryBurn
datatype recipient_type = Validators | RelayNodes | MarketplaceLiquidityPool | TreasuryFund | DevelopmentFund

record mint_event =
  me_id :: uuid
  me_amount :: u64
  me_reason :: mint_reason
  me_recipient :: "user_id option"
  me_block_height :: u64
  me_timestamp :: timestamp

record burn_event =
  be_id :: uuid
  be_amount :: u64
  be_reason :: burn_reason
  burner :: user_id
  be_block_height :: u64
  be_timestamp :: timestamp

record liquidity_pool =
  lp_id :: uuid
  lp_name :: string
  total_tokens :: u64
  available_tokens :: u64
  reserved_tokens :: u64
  pending_allocations :: u64
  lp_created_at :: timestamp
  last_replenish :: timestamp

record distribution_schedule =
  ds_id :: uuid
  ds_recipient_type :: recipient_type
  amount_per_interval :: u64
  interval_blocks :: u64
  start_block_at :: u64
  end_block :: "u64 option"
  total_distributed :: u64

record tokenomics =
  tk_config :: supply_config
  circulating_supply :: u64
  tk_total_burned :: u64
  mint_history :: "mint_event list"
  burn_history :: "burn_event list"
  liquidity_pools :: "uuid \<rightharpoonup> liquidity_pool"
  distribution_schedules :: "distribution_schedule list"
  tk_current_block :: u64

definition tokenomics_new :: "supply_config \<Rightarrow> tokenomics" where
  "tokenomics_new cfg = \<lparr>tk_config = cfg, circulating_supply = initial_supply cfg, tk_total_burned = 0, mint_history = [],
     burn_history = [], liquidity_pools = Map.empty, distribution_schedules = [], tk_current_block = 1\<rparr>"

section \<open>Operations\<close>

text \<open>The recipients of the genesis mint come with the id drawn for their event.\<close>

definition genesis_mint :: "timestamp \<Rightarrow> (uuid \<times> user_id \<times> u64) list \<Rightarrow> tokenomics \<Rightarrow> tokenomics \<times> uuid list" where
  "genesis_mint now rs k =
     (k\<lparr>mint_history := mint_history k @ map (\<lambda>(i, u, x). \<lparr>me_id = i, me_amount = x, me_reason = Genesis, me_recipient = Some u,
          me_block_height = tk_current_block k, me_timestamp = now\<rparr>) rs\<rparr>, map fst rs)"

definition mint_tokens ::
    "timestamp \<Rightarrow> uuid \<Rightarrow> u64 \<Rightarrow> mint_reason \<Rightarrow> user_id option \<Rightarrow> tokenomics \<Rightarrow> (tokenomics \<times> uuid) core_result" where
  "mint_tokens now i x why who k =
     (if (case max_supply (tk_config k) of None \<Rightarrow> False | Some mx \<Rightarrow> circulating_supply k + x > mx) then Inl InvalidInput
      else Inr (k\<lparr>circulating_supply := circulating_supply k + x,
                  mint_history := mint_history k @ [\<lparr>me_id = i, me_amount = x, me_reason = why, me_recipient = who,
                    me_block_height = tk_current_block k, me_timestamp = now\<rparr>]\<rparr>, i))"

definition burn_tokens ::
    "timestamp \<Rightarrow> uuid \<Rightarrow> u64 \<Rightarrow> burn_reason \<Rightarrow> user_id \<Rightarrow> tokenomics \<Rightarrow> (tokenomics \<times> uuid) core_result" where
  "burn_tokens now i x why who k =
     (if circulating_supply k < x then Inl InvalidInput
      else Inr (k\<lparr>circulating_supply := circulating_supply k - x, tk_total_burned := tk_total_burned k + x,
                  burn_history := burn_history k @ [\<lparr>be_id = i, be_amount = x, be_reason = why, burner = who,
                    be_block_height = tk_current_block k, be_timestamp = now\<rparr>]\<rparr>, i))"

definition create_liquidity_pool ::
    "timestamp \<Rightarrow> uuid \<Rightarrow> uuid \<Rightarrow> string \<Rightarrow> u64 \<Rightarrow> tokenomics \<Rightarrow> (tokenomics \<times> uuid) core_result" where
  "create_liquidity_pool now i pid name x k =
     (case mint_tokens now i x MarketplaceLiquidity None k of
        Inl e \<Rightarrow> Inl e
      | Inr (k', _) \<Rightarrow> Inr (k'\<lparr>liquidity_pools := (liquidity_pools k')(pid \<mapsto>
          \<lparr>lp_id = pid, lp_name = name, total_tokens = x, available_tokens = x, reserved_tokens = 0, pending_allocations = 0,
           lp_created_at = now, last_replenish = now\<rparr>)\<rparr>, pid))"

definition allocate_from_pool :: "uuid \<Rightarrow> u64 \<Rightarrow> tokenomics \<Rightarrow> tokenomics core_result" where
  "allocate_from_pool pid x k =
     (case liquidity_pools k pid of
        None \<Rightarrow> Inl NotFound
      | Some p \<Rightarrow>
          if available_tokens p < x then Inl InvalidInput
          else Inr (k\<lparr>liquidity_pools := (liquidity_pools k)(pid \<mapsto> p\<lparr>available_tokens := available_tokens p - x,
                 reserved_tokens := reserved_tokens p + x, pending_allocations := pending_allocations p + x\<rparr>)\<rparr>))"

definition release_allocation :: "uuid \<Rightarrow> u64 \<Rightarrow> tokenomics \<Rightarrow> tokenomics core_result" where
  "release_allocation pid x k =
     (case liquidity_pools k pid of
        None \<Rightarrow> Inl NotFound
      | Some p \<Rightarrow>
          if pending_allocations p < x then Inl InvalidInput
          else Inr (k\<lparr>liquidity_pools := (liquidity_pools k)(pid \<mapsto> p\<lparr>pending_allocations := pending_allocations p - x,
                 reserved_tokens := reserved_tokens p - x\<rparr>)\<rparr>))"

definition replenish_pool :: "timestamp \<Rightarrow> uuid \<Rightarrow> uuid \<Rightarrow> u64 \<Rightarrow> tokenomics \<Rightarrow> tokenomics \<times> unit core_result" where
  "replenish_pool now i pid x k =
     (case mint_tokens now i x MarketplaceLiquidity None k of
        Inl e \<Rightarrow> (k, Inl e)
      | Inr (k', _) \<Rightarrow>
          (case liquidity_pools k' pid of
             None \<Rightarrow> (k', Inl NotFound)
           | Some p \<Rightarrow> (k'\<lparr>liquidity_pools := (liquidity_pools k')(pid \<mapsto> p\<lparr>total_tokens := total_tokens p + x,
                 available_tokens := available_tokens p + x, last_replenish := now\<rparr>)\<rparr>, Inr ())))"

definition create_distribution_schedule ::
    "uuid \<Rightarrow> recipient_type \<Rightarrow> u64 \<Rightarrow> u64 \<Rightarrow> u64 option \<Rightarrow> tokenomics \<Rightarrow> tokenomics \<times> uuid" where
  "create_distribution_schedule i rt x blocks duration k =
     (k\<lparr>distribution_schedules := distribution_schedules k @ [\<lparr>ds_id = i, ds_recipient_type = rt, amount_per_interval = x,
          interval_blocks = blocks, start_block_at = tk_current_block k, end_block = map_option (\<lambda>d. tk_current_block k + d) duration,
          total_distributed = 0\<rparr>]\<rparr>, i)"

fun schedule_reason :: "recipient_type \<Rightarrow> mint_reason" where
  "schedule_reason Validators = BlockReward"
| "schedule_reason RelayNodes = RelayReward"
| "schedule_reason MarketplaceLiquidityPool = MarketplaceLiquidity"
| "schedule_reason TreasuryFund = Inflation"
| "schedule_reason DevelopmentFund = Inflation"

definition is_multiple_of :: "u64 \<Rightarrow> u64 \<Rightarrow> bool" where
  "is_multiple_of a n = (if n = 0 then a = 0 else a mod n = 0)"

definition schedule_due :: "u64 \<Rightarrow> distribution_schedule \<Rightarrow> bool" where
  "schedule_due block d \<longleftrightarrow> \<not> block < start_block_at d \<and> (case end_block d of None \<Rightarrow> True | Some e \<Rightarrow> \<not> block > e)
     \<and> is_multiple_of (block - start_block_at d) (interval_blocks d)"

text \<open>The loop over the schedules: those before the current one have been updated, the first refused mint ends the call.\<close>

fun run_schedules ::
    "timestamp \<Rightarrow> (nat \<Rightarrow> uuid) \<Rightarrow> u64 \<Rightarrow> distribution_schedule list \<Rightarrow> distribution_schedule list \<Rightarrow> tokenomics
      \<Rightarrow> tokenomics \<times> uuid list core_result" where
  "run_schedules now ids block before [] k = (k\<lparr>distribution_schedules := before\<rparr>, Inr [])"
| "run_schedules now ids block before (d # rest) k =
     (if schedule_due block d then
        (case mint_tokens now (ids (length before)) (amount_per_interval d) (schedule_reason (ds_recipient_type d)) None k of
           Inl e \<Rightarrow> (k\<lparr>distribution_schedules := before @ d # rest\<rparr>, Inl e)
         | Inr (k', i) \<Rightarrow>
             (case run_schedules now ids block
                     (before @ [d\<lparr>total_distributed := total_distributed d + amount_per_interval d\<rparr>]) rest k' of
                (k'', Inl e) \<Rightarrow> (k'', Inl e)
              | (k'', Inr is) \<Rightarrow> (k'', Inr (i # is))))
      else run_schedules now ids block (before @ [d]) rest k)"

text \<open>\<open>float_inflation\<close> is the conversion of \<^verbatim>\<open>supply * rate / 10000.0 / blocks_per_year\<close> to 64 bits; \<open>None\<close> is the panic of the division by an
  interval of zero seconds.\<close>

definition process_block_inflation ::
    "(u64 \<Rightarrow> u16 \<Rightarrow> u64 \<Rightarrow> u64) \<Rightarrow> timestamp \<Rightarrow> uuid \<Rightarrow> (nat \<Rightarrow> uuid) \<Rightarrow> tokenomics
      \<Rightarrow> (tokenomics \<times> uuid list core_result) option" where
  "process_block_inflation float_inflation now i ids k =
     (if inflation_interval_seconds (tk_config k) = 0 then None
      else
        let per_block = float_inflation (circulating_supply k) (inflation_rate_bps (tk_config k))
                          (31536000 div inflation_interval_seconds (tk_config k))
        in if per_block > 0 then
             (case mint_tokens now i per_block Inflation None k of
                Inl e \<Rightarrow> Some (k, Inl e)
              | Inr (k', _) \<Rightarrow>
                  (case run_schedules now ids (tk_current_block k) [] (distribution_schedules k') k' of
                     (k'', Inl e) \<Rightarrow> Some (k'', Inl e)
                   | (k'', Inr is) \<Rightarrow> Some (k'', Inr (i # is))))
           else Some (run_schedules now ids (tk_current_block k) [] (distribution_schedules k) k))"

definition record_mint :: "timestamp \<Rightarrow> uuid \<Rightarrow> u64 \<Rightarrow> mint_reason \<Rightarrow> tokenomics \<Rightarrow> tokenomics" where
  "record_mint now i x why k =
     k\<lparr>circulating_supply := saturating_add (circulating_supply k) x,
       mint_history := mint_history k @ [\<lparr>me_id = i, me_amount = x, me_reason = why, me_recipient = None,
         me_block_height = tk_current_block k, me_timestamp = now\<rparr>]\<rparr>"

definition get_mint_history :: "nat \<Rightarrow> tokenomics \<Rightarrow> mint_event list" where
  "get_mint_history n k = take n (rev (mint_history k))"

definition get_burn_history :: "nat \<Rightarrow> tokenomics \<Rightarrow> burn_event list" where
  "get_burn_history n k = take n (rev (burn_history k))"

definition get_effective_supply :: "tokenomics \<Rightarrow> u64" where
  "get_effective_supply k = circulating_supply k"

definition advance_block :: "tokenomics \<Rightarrow> tokenomics" where
  "advance_block k = k\<lparr>tk_current_block := tk_current_block k + 1\<rparr>"

section \<open>The supply ledger\<close>

text \<open>The supply that the two logs account for: mints other than the genesis distribution, less burns.\<close>

definition minted :: "tokenomics \<Rightarrow> u64" where
  "minted k = sum_list (map me_amount (filter (\<lambda>ev. me_reason ev \<noteq> Genesis) (mint_history k)))"

definition burned :: "tokenomics \<Rightarrow> u64" where
  "burned k = sum_list (map be_amount (burn_history k))"

text \<open>The ledger holds up to an amount \<^term>\<open>d\<close> that the logs do not show.\<close>

definition supply_ledger_ok :: "u64 \<Rightarrow> tokenomics \<Rightarrow> bool" where
  "supply_ledger_ok d k \<longleftrightarrow> circulating_supply k + tk_total_burned k = initial_supply (tk_config k) + minted k + d \<and> tk_total_burned k = burned k"

text \<open>One call, with the amount by which the supply moves apart from the logs. It is zero but for two kinds of call: a mint that is logged with the reason of the genesis
  distribution although it raises the supply, and \<^verbatim>\<open>record_mint\<close> where the supply saturates and grows by less than the amount logged. A call that fails and changes nothing is
  not a step.\<close>

definition unlogged :: "mint_reason \<Rightarrow> u64 \<Rightarrow> u64" where
  "unlogged why x = (if why = Genesis then x else 0)"

inductive supply_call :: "tokenomics \<Rightarrow> u64 \<Rightarrow> tokenomics \<Rightarrow> bool" where
  call_genesis: "supply_call k 0 (fst (genesis_mint now rs k))"
| call_mint: "mint_tokens now i x why who k = Inr (k', j) \<Longrightarrow> supply_call k (unlogged why x) k'"
| call_burn: "burn_tokens now i x bwhy bwho k = Inr (k', j) \<Longrightarrow> supply_call k 0 k'"
| call_pool: "create_liquidity_pool now i pid name x k = Inr (k', j) \<Longrightarrow> supply_call k 0 k'"
| call_allocate: "allocate_from_pool pid x k = Inr k' \<Longrightarrow> supply_call k 0 k'"
| call_release: "release_allocation pid x k = Inr k' \<Longrightarrow> supply_call k 0 k'"
| call_replenish: "replenish_pool now i pid x k = (k', res) \<Longrightarrow> supply_call k 0 k'"
| call_schedule: "supply_call k 0 (fst (create_distribution_schedule i rt x blocks duration k))"
| call_inflation: "process_block_inflation f now i ids k = Some (k', res') \<Longrightarrow> supply_call k 0 k'"
| call_record: "unat (circulating_supply k) + unat x < 2 ^ 64 \<Longrightarrow> supply_call k (unlogged why x) (record_mint now i x why k)"
| call_saturate: "2 ^ 64 \<le> unat (circulating_supply k) + unat x \<Longrightarrow>
    supply_call k (unlogged why x - (circulating_supply k + x + 1)) (record_mint now i x why k)"
| call_advance: "supply_call k 0 (advance_block k)"

inductive supply_run :: "supply_config \<Rightarrow> tokenomics \<Rightarrow> u64 list \<Rightarrow> bool" for cfg where
  supply_new: "supply_run cfg (tokenomics_new cfg) []"
| supply_step: "supply_run cfg k ds \<Longrightarrow> supply_call k d k' \<Longrightarrow> supply_run cfg k' (ds @ [d])"

lemma no_genesis_events:
  "filter (\<lambda>ev. me_reason ev \<noteq> Genesis) (map (\<lambda>(i, u, x). \<lparr>me_id = i, me_amount = x, me_reason = Genesis, me_recipient = Some u,
     me_block_height = b, me_timestamp = now\<rparr>) rs) = []"
  by (induction rs) auto

lemma genesis_minted [simp]: "minted (fst (genesis_mint now rs k)) = minted k"
  by (simp add: minted_def genesis_mint_def no_genesis_events)

lemma mint_ledger:
  assumes "mint_tokens now i x why who k = Inr (k', j)" and "supply_ledger_ok d k"
  shows "supply_ledger_ok (d + unlogged why x) k'"
  using assms by (auto simp: mint_tokens_def supply_ledger_ok_def minted_def burned_def unlogged_def algebra_simps split: if_splits)

lemma mint_ledger_logged:
  "mint_tokens now i x why who k = Inr (k', j) \<Longrightarrow> why \<noteq> Genesis \<Longrightarrow> supply_ledger_ok d k \<Longrightarrow> supply_ledger_ok d k'"
  using mint_ledger [of now i x why who k k' j d] by (simp add: unlogged_def)

lemma mint_pools: "mint_tokens now i x why who k = Inr (k', j) \<Longrightarrow> liquidity_pools k' = liquidity_pools k"
  by (auto simp: mint_tokens_def split: if_splits)

lemma ledger_update [simp]: "supply_ledger_ok d (k\<lparr>liquidity_pools := p\<rparr>) = supply_ledger_ok d k"
  "supply_ledger_ok d (k\<lparr>distribution_schedules := ds\<rparr>) = supply_ledger_ok d k"
  by (simp_all add: supply_ledger_ok_def minted_def burned_def)

lemma schedule_reason_not_genesis [simp]: "schedule_reason rt \<noteq> Genesis"
  by (cases rt) simp_all

lemma run_schedules_ledger:
  "supply_ledger_ok z k \<Longrightarrow> supply_ledger_ok z (fst (run_schedules now ids block before ds k))"
proof (induction now ids block before ds k rule: run_schedules.induct)
  case (2 now ids block before d rest k)
  show ?case
  proof (cases "schedule_due block d")
    case False
    then show ?thesis using 2 by simp
  next
    case due: True
    show ?thesis
    proof (cases "mint_tokens now (ids (length before)) (amount_per_interval d) (schedule_reason (ds_recipient_type d)) None k")
      case (Inl e)
      then show ?thesis using due 2(3) by simp
    next
      case (Inr r)
      obtain k' i where r: "r = (k', i)" by (cases r)
      have "supply_ledger_ok z k'" using mint_ledger_logged [OF Inr [unfolded r]] 2(3) by simp
      then show ?thesis using 2(1) [OF due Inr [unfolded r]] due Inr r by (auto split: prod.splits sum.splits)
    qed
  qed
qed simp

lemma inflation_ledger:
  assumes "process_block_inflation f now i ids k = Some (k', res)" and "supply_ledger_ok z k"
  shows "supply_ledger_ok z k'"
proof -
  have "supply_ledger_ok z (fst (run_schedules now ids b [] ds k))" for b ds using run_schedules_ledger [OF assms(2)] .
  moreover have "supply_ledger_ok z (fst (run_schedules now ids b [] ds k1))" if "mint_tokens now i x Inflation None k = Inr (k1, j)" for b ds x k1 j
    using run_schedules_ledger [OF mint_ledger_logged [OF that _ assms(2)]] by simp
  ultimately show ?thesis using assms
    by (auto simp: process_block_inflation_def Let_def split: if_splits sum.splits prod.splits) (metis fst_conv)+
qed

lemma supply_call_ledger: "supply_call k d k' \<Longrightarrow> supply_ledger_ok z k \<Longrightarrow> supply_ledger_ok (z + d) k'"
proof (induction rule: supply_call.induct)
  case (call_genesis k now rs)
  then show ?case using genesis_minted [of now rs k] by (auto simp: supply_ledger_ok_def burned_def) (auto simp: genesis_mint_def)
next
  case (call_mint now i x why who k k' j)
  then show ?case by (blast intro: mint_ledger)
next
  case (call_burn now i x bwhy bwho k k' j)
  then show ?case by (auto simp: burn_tokens_def supply_ledger_ok_def minted_def burned_def split: if_splits)
next
  case (call_pool now i pid name x k k' j)
  then show ?case by (auto simp: create_liquidity_pool_def split: sum.splits dest!: mint_ledger_logged)
next
  case (call_replenish now i pid x k k' res)
  then show ?case by (auto simp: replenish_pool_def split: sum.splits option.splits dest!: mint_ledger_logged)
next
  case (call_inflation f now i ids k k' res')
  then show ?case by (auto dest: inflation_ledger)
next
  case (call_record k x why now i)
  then have "saturating_add (circulating_supply k) x = circulating_supply k + x" by (simp add: saturating_add_def)
  then show ?case using call_record by (auto simp: record_mint_def supply_ledger_ok_def minted_def burned_def unlogged_def algebra_simps)
next
  case (call_saturate k x why now i)
  then have "saturating_add (circulating_supply k) x = - 1" by (simp add: saturating_add_def)
  then show ?case using call_saturate by (auto simp: record_mint_def supply_ledger_ok_def minted_def burned_def unlogged_def algebra_simps)
qed (auto simp: allocate_from_pool_def release_allocation_def create_distribution_schedule_def advance_block_def
    supply_ledger_ok_def minted_def burned_def split: option.splits if_splits)

text \<open>C34. The supply is what the logs say: after any calls on a new manager, the circulating supply plus the burned total is the initial supply plus all logged mints apart from
  those with the reason Genesis, plus what the calls moved past the logs, in 64-bit arithmetic, and the burned total is the sum of the logged burns. A call moves something past the logs
  only in two cases: mint_tokens or record_mint is called with the reason Genesis, and the amount counts although the log entry does not (genesis_mint itself logs such entries
  without touching the supply), or record_mint saturates at the largest 64-bit number, and the part beyond it is logged and lost.\<close>

theorem supply_matches_logs:
  assumes "supply_run cfg k ds"
  shows "circulating_supply k + tk_total_burned k = initial_supply (tk_config k) + minted k + sum_list ds \<and> tk_total_burned k = burned k"
proof -
  have "supply_ledger_ok (sum_list ds) k" using assms
  proof (induction rule: supply_run.induct)
    case supply_new
    then show ?case by (simp add: supply_ledger_ok_def tokenomics_new_def minted_def burned_def)
  next
    case (supply_step k ds d k')
    then show ?case using supply_call_ledger [of k d k' "sum_list ds"] by simp
  qed
  then show ?thesis unfolding supply_ledger_ok_def .
qed

text \<open>A mint that does not overflow keeps the cap.\<close>

theorem mint_keeps_cap:
  assumes "mint_tokens now i x why who k = Inr (k', j)" and "max_supply (tk_config k) = Some mx"
  shows "circulating_supply k' \<le> mx \<and> (unat (circulating_supply k) + unat x < 2 ^ 64 \<longrightarrow>
    unat (circulating_supply k') = unat (circulating_supply k) + unat x)"
  using assms by (auto simp: mint_tokens_def unat_add_no_overflow not_less split: if_splits)

text \<open>The cap is compared with the wrapped sum: minting the two's complement of the supply is accepted under every cap, and
  leaves a supply of zero.\<close>

theorem mint_wraps_supply:
  "\<exists>k'. mint_tokens now i (- circulating_supply k) why who k = Inr (k', i) \<and> circulating_supply k' = 0"
  by (auto simp: mint_tokens_def split: option.splits)

text \<open>Replenishing an unknown pool fails after the tokens have been minted.\<close>

theorem replenish_unknown_pool_mints:
  assumes "liquidity_pools k pid = None" and "mint_tokens now i x MarketplaceLiquidity None k = Inr (k', j)"
  shows "replenish_pool now i pid x k = (k', Inl NotFound) \<and> circulating_supply k' = circulating_supply k + x"
  using assms mint_pools [OF assms(2)] by (auto simp: replenish_pool_def) (auto simp: mint_tokens_def split: if_splits)

text \<open>A burn of 5, then a mint of 7 that is logged as genesis.\<close>

theorem supply_matches_logs_witness:
  "\<exists>k j k' j'. burn_tokens 0 1 5 Deflation 9 (tokenomics_new supply_config_default) = Inr (k, j) \<and> mint_tokens 0 2 7 Genesis None k = Inr (k', j')
    \<and> circulating_supply k' + tk_total_burned k' = initial_supply (tk_config k') + minted k' + 7 \<and> tk_total_burned k' = burned k'"
proof -
  obtain k j where k: "burn_tokens 0 1 5 Deflation 9 (tokenomics_new supply_config_default) = Inr (k, j)"
    by (simp add: burn_tokens_def tokenomics_new_def supply_config_default_def)
  then obtain k' j' where k': "mint_tokens 0 2 7 Genesis None k = Inr (k', j')"
    by (auto simp: burn_tokens_def mint_tokens_def tokenomics_new_def supply_config_default_def split: if_splits)
  have "supply_run supply_config_default k' (([] @ [0]) @ [unlogged Genesis 7])"
    by (intro supply_step [OF _ call_mint [OF k']] supply_step [OF _ call_burn [OF k]] supply_new)
  from supply_matches_logs [OF this] show ?thesis using k k' by (auto simp: unlogged_def)
qed

theorem mint_keeps_cap_witness:
  "\<exists>k j. mint_tokens 0 1 5 Faucet None (tokenomics_new supply_config_default) = Inr (k, j) \<and> circulating_supply k \<le> 1000000000000"
proof -
  obtain k j where k: "mint_tokens 0 1 5 Faucet None (tokenomics_new supply_config_default) = Inr (k, j)"
    by (simp add: mint_tokens_def tokenomics_new_def supply_config_default_def)
  then show ?thesis using mint_keeps_cap [OF k, of 1000000000000] by (simp add: tokenomics_new_def supply_config_default_def)
qed

theorem replenish_unknown_pool_mints_witness:
  "\<exists>k'. replenish_pool 0 1 2 5 (tokenomics_new supply_config_default) = (k', Inl NotFound) \<and> circulating_supply k' = 100000000005"
proof -
  obtain k' j where k: "mint_tokens 0 1 5 MarketplaceLiquidity None (tokenomics_new supply_config_default) = Inr (k', j)"
    by (simp add: mint_tokens_def tokenomics_new_def supply_config_default_def)
  show ?thesis using replenish_unknown_pool_mints [OF _ k, of 2] by (simp add: tokenomics_new_def supply_config_default_def)
qed

end
