(* ===== verification/Currency_Chain.thy ===== *)
theory Currency_Chain
  imports Tokenomics
begin

text \<open>
  The wallets of the currency chain: \<^verbatim>\<open>crates/dchat-blockchain/src/currency_chain.rs\<close>. Transfers, fees, stakes, rewards, storage
  bonds, genesis allocations, unbonding and the escrows of payment channels. Each method takes the write lock of the tables it
  changes; it is a function on the whole state here. Times (in seconds), transaction ids and the results of computations in
  floating point are parameters. The calls to a remote node are not modelled.
\<close>

section \<open>State\<close>

record currency_tx =
  tx_id :: uuid
  tx_type :: string
  tx_from :: user_id
  tx_to :: "user_id option"
  tx_amount :: u64
  tx_status :: string
  confirmations :: u32
  tx_block_height :: u64
  tx_created_at :: int

record wallet =
  w_user_id :: user_id
  balance :: u64
  staked :: u64
  rewards_pending :: u64

record stake_position =
  sp_user_id :: user_id
  sp_amount :: u64
  locked_until :: int
  rewards_earned :: u64

datatype bond_status = BondActive | BondUnbonding | BondWithdrawn | BondSlashed

record storage_bond =
  bond_id :: hash32
  user_key :: hash32
  bond_amount :: u64
  storage_bytes :: u64
  bond_duration_days :: u32
  expires_at :: int
  bond_tx_id :: uuid
  sb_status :: bond_status
  bond_created_at :: int

datatype escrow_status = EscrowActive | EscrowDisputing | EscrowSettled | EscrowDisputed

record channel_escrow =
  ce_channel_id :: string
  ce_sender_id :: user_id
  ce_receiver_id :: user_id
  ce_capacity :: u64
  ce_sender_balance :: u64
  ce_receiver_balance :: u64
  ce_status :: escrow_status
  ce_funding_tx_id :: uuid
  settlement_tx_id :: "uuid option"
  ce_created_at :: int
  ce_updated_at :: int
  ce_dispute_deadline :: "int option"

record vesting_schedule =
  cliff_days :: u32
  vesting_days :: u32
  vested :: u64
  start_timestamp :: int

record allocation_entry =
  category :: string
  al_total :: u64
  al_remaining :: u64
  al_vesting :: "vesting_schedule option"
  recipients :: "user_id list"

record genesis_transfer =
  gt_tx_id :: uuid
  gt_recipient :: user_id
  gt_amount :: u64
  source_category :: string
  gt_timestamp :: int
  remaining_after :: u64

record genesis_allocation_t =
  total_allocated :: u64
  ga_remaining :: u64
  allocations :: "string \<rightharpoonup> allocation_entry"
  transfers :: "genesis_transfer list"

datatype unbonding_status = UnbondPending | UnbondReady | UnbondCompleted | UnbondCancelled | UnbondSlashed

record unbonding_record =
  ub_id :: uuid
  ub_user_id :: user_id
  ub_amount :: u64
  initiated_at :: int
  available_at :: int
  node_type :: string
  ub_operator :: "user_id option"
  ub_status :: unbonding_status

record currency_chain =
  transactions :: "uuid \<rightharpoonup> currency_tx"
  chain_block :: u64
  wallets :: "user_id \<rightharpoonup> wallet"
  stakes :: "user_id \<rightharpoonup> stake_position"
  storage_bonds_tab :: "hash32 \<rightharpoonup> storage_bond"
  escrows :: "string \<rightharpoonup> channel_escrow"
  chain_tokenomics :: "tokenomics option"
  fee_distribution :: "fee_manager option"
  payment_records :: "string \<rightharpoonup> u64 \<times> string \<times> bool"
  redeemed_tokens :: "hash32 set"
  genesis_allocation :: genesis_allocation_t
  unbonding_queue :: "user_id \<rightharpoonup> unbonding_record list"
  address_counts :: "user_id \<rightharpoonup> u32"

section \<open>Wallets and transfers\<close>

definition empty_wallet :: "user_id \<Rightarrow> wallet" where
  "empty_wallet u = \<lparr>w_user_id = u, balance = 0, staked = 0, rewards_pending = 0\<rparr>"

text \<open>\<^verbatim>\<open>wallets.entry(u).or_insert_with(...)\<close>.\<close>

definition wallet_entry :: "(user_id \<rightharpoonup> wallet) \<Rightarrow> user_id \<Rightarrow> wallet" where
  "wallet_entry ws u = (case ws u of None \<Rightarrow> empty_wallet u | Some w \<Rightarrow> w)"

definition credit :: "user_id \<Rightarrow> u64 \<Rightarrow> (user_id \<rightharpoonup> wallet) \<Rightarrow> (user_id \<rightharpoonup> wallet)" where
  "credit u x ws = ws(u \<mapsto> (wallet_entry ws u)\<lparr>balance := balance (wallet_entry ws u) + x\<rparr>)"

definition debit :: "user_id \<Rightarrow> u64 \<Rightarrow> (user_id \<rightharpoonup> wallet) \<Rightarrow> (user_id \<rightharpoonup> wallet) core_result" where
  "debit u x ws =
     (case ws u of
        None \<Rightarrow> Inl NotFound
      | Some w \<Rightarrow> if balance w < x then Inl InvalidInput else Inr (ws(u \<mapsto> w\<lparr>balance := balance w - x\<rparr>)))"

definition add_tx :: "currency_tx \<Rightarrow> currency_chain \<Rightarrow> currency_chain" where
  "add_tx t c = c\<lparr>transactions := (transactions c)(tx_id t \<mapsto> t)\<rparr>"

definition pending_tx :: "uuid \<Rightarrow> string \<Rightarrow> user_id \<Rightarrow> user_id option \<Rightarrow> u64 \<Rightarrow> int \<Rightarrow> currency_tx" where
  "pending_tx i ty fr t x now = \<lparr>tx_id = i, tx_type = ty, tx_from = fr, tx_to = t, tx_amount = x, tx_status = ''pending'',
     confirmations = 0, tx_block_height = 0, tx_created_at = now\<rparr>"

definition confirmed_tx :: "uuid \<Rightarrow> string \<Rightarrow> user_id \<Rightarrow> user_id option \<Rightarrow> u64 \<Rightarrow> u64 \<Rightarrow> int \<Rightarrow> currency_tx" where
  "confirmed_tx i ty fr t x h now = \<lparr>tx_id = i, tx_type = ty, tx_from = fr, tx_to = t, tx_amount = x, tx_status = ''confirmed'',
     confirmations = 1, tx_block_height = h, tx_created_at = now\<rparr>"

definition create_wallet :: "user_id \<Rightarrow> u64 \<Rightarrow> currency_chain \<Rightarrow> currency_chain \<times> wallet" where
  "create_wallet u x c =
     (let w = (empty_wallet u)\<lparr>balance := x\<rparr> in (c\<lparr>wallets := (wallets c)(u \<mapsto> w)\<rparr>, w))"

definition get_balance :: "user_id \<Rightarrow> currency_chain \<Rightarrow> u64" where
  "get_balance u c = (case wallets c u of None \<Rightarrow> 0 | Some w \<Rightarrow> balance w)"

definition get_staked_amount :: "user_id \<Rightarrow> currency_chain \<Rightarrow> u64" where
  "get_staked_amount u c =
     (case stakes c u of
        Some p \<Rightarrow> sp_amount p
      | None \<Rightarrow> (case wallets c u of None \<Rightarrow> 0 | Some w \<Rightarrow> staked w))"

definition burn_of :: "currency_chain \<Rightarrow> u64 \<Rightarrow> u64" where
  "burn_of c amount = (amount * ucast (case chain_tokenomics c of Some k \<Rightarrow> sc_burn_rate_bps (tk_config k)
     | None \<Rightarrow> DEFAULT_BURN_RATE_BPS)) div 10000"

text \<open>\<^verbatim>\<open>let _ = tokenomics.burn_tokens(...)\<close>: the result is dropped.\<close>

definition burn_if_possible :: "timestamp \<Rightarrow> uuid \<Rightarrow> u64 \<Rightarrow> burn_reason \<Rightarrow> user_id \<Rightarrow> tokenomics option \<Rightarrow> tokenomics option" where
  "burn_if_possible now i x why u k =
     map_option (\<lambda>k. case burn_tokens now i x why u k of Inl _ \<Rightarrow> k | Inr (k', _) \<Rightarrow> k') k"

definition chain_transfer :: "int \<Rightarrow> uuid \<Rightarrow> uuid \<Rightarrow> user_id \<Rightarrow> user_id \<Rightarrow> u64 \<Rightarrow> currency_chain \<Rightarrow> (currency_chain \<times> uuid) core_result" where
  "chain_transfer now i bi src dst amount c =
     (case debit src amount (wallets c) of
        Inl e \<Rightarrow> Inl e
      | Inr ws \<Rightarrow>
          let b = burn_of c amount;
              c = c\<lparr>wallets := credit dst (amount - b) ws,
                    chain_tokenomics := (if b > 0 then burn_if_possible (duration_seconds now) bi b TransactionFee src (chain_tokenomics c)
                                         else chain_tokenomics c)\<rparr>
          in Inr (add_tx (pending_tx i ''payment'' src (Some dst) amount now) c, i))"

definition transfer_internal ::
    "int \<Rightarrow> uuid \<Rightarrow> user_id \<Rightarrow> user_id \<Rightarrow> u64 \<Rightarrow> string \<Rightarrow> currency_chain \<Rightarrow> (currency_chain \<times> uuid) core_result" where
  "transfer_internal now i src dst amount reason c =
     (case debit src amount (wallets c) of
        Inl e \<Rightarrow> Inl e
      | Inr ws \<Rightarrow> Inr (add_tx (confirmed_tx i (''internal:'' @ reason) src (Some dst) amount (chain_block c) now)
                        (c\<lparr>wallets := credit dst amount ws\<rparr>), i))"

fun pay_from_pool ::
    "int \<Rightarrow> pool_type \<Rightarrow> (uuid \<times> user_id \<times> u64) list \<Rightarrow> string \<Rightarrow> currency_chain
      \<Rightarrow> currency_chain \<times> (user_id \<times> uuid option \<times> bool) list" where
  "pay_from_pool now t [] reason c = (c, [])"
| "pay_from_pool now t ((i, u, x) # rest) reason c =
     (if x = 0 then (case pay_from_pool now t rest reason c of (c', rs) \<Rightarrow> (c', (u, None, True) # rs))
      else case transfer_internal now i (sink_address t) u x reason c of
        Inr (c1, j) \<Rightarrow> (case pay_from_pool now t rest reason c1 of (c', rs) \<Rightarrow> (c', (u, Some j, True) # rs))
      | Inl _ \<Rightarrow> (case pay_from_pool now t rest reason c of (c', rs) \<Rightarrow> (c', (u, None, False) # rs)))"

text \<open>A checked credit; the entry has been inserted when the addition fails.\<close>

definition checked_credit :: "user_id \<Rightarrow> u64 \<Rightarrow> (user_id \<rightharpoonup> wallet) \<Rightarrow> (user_id \<rightharpoonup> wallet) \<times> unit core_result" where
  "checked_credit u x ws =
     (let w = wallet_entry ws u
      in case checked_add (balance w) x of
           None \<Rightarrow> (ws(u \<mapsto> w), Inl InvalidInput)
         | Some b \<Rightarrow> (ws(u \<mapsto> w\<lparr>balance := b\<rparr>), Inr ()))"

definition fund_pool :: "pool_type \<Rightarrow> u64 \<Rightarrow> currency_chain \<Rightarrow> currency_chain \<times> unit core_result" where
  "fund_pool t x c =
     (if x = 0 then (c, Inr ())
      else case checked_credit (sink_address t) x (wallets c) of (ws, r) \<Rightarrow> (c\<lparr>wallets := ws\<rparr>, r))"

definition chain_pool_balance :: "pool_type \<Rightarrow> currency_chain \<Rightarrow> u64" where
  "chain_pool_balance t c = (case wallets c (sink_address t) of None \<Rightarrow> 0 | Some w \<Rightarrow> balance w)"

definition debit_for_protocol_fee :: "int \<Rightarrow> user_id \<Rightarrow> u64 \<Rightarrow> uuid \<Rightarrow> currency_chain \<Rightarrow> currency_chain core_result" where
  "debit_for_protocol_fee now who x i c =
     (if x = 0 then Inr c
      else case debit who x (wallets c) of
        Inl e \<Rightarrow> Inl e
      | Inr ws \<Rightarrow> Inr (add_tx (confirmed_tx i ''protocol_fee_debit'' who None x (chain_block c) now) (c\<lparr>wallets := ws\<rparr>)))"

definition credit_direct_recipient ::
    "int \<Rightarrow> uuid \<Rightarrow> user_id \<Rightarrow> u64 \<Rightarrow> string \<Rightarrow> currency_chain \<Rightarrow> currency_chain \<times> uuid core_result" where
  "credit_direct_recipient now i who x reason c =
     (if x = 0 then (c, Inr 0)
      else case checked_credit who x (wallets c) of
        (ws, Inl e) \<Rightarrow> (c\<lparr>wallets := ws\<rparr>, Inl e)
      | (ws, Inr _) \<Rightarrow> (add_tx (confirmed_tx i (''fee_credit:'' @ reason) 0 (Some who) x (chain_block c) now) (c\<lparr>wallets := ws\<rparr>), Inr i))"

record sink_amounts =
  sa_validator_pool :: u64
  sa_relay_pool :: u64
  sa_treasury :: u64
  sa_insurance_fund :: u64
  sa_burned :: u64
  sa_direct_recipient :: u64

definition debit_pool :: "pool_type \<Rightarrow> u64 \<Rightarrow> (user_id \<rightharpoonup> wallet) \<Rightarrow> (user_id \<rightharpoonup> wallet)" where
  "debit_pool t x ws =
     (if x > 0 then
        (case ws (sink_address t) of
           None \<Rightarrow> ws
         | Some w \<Rightarrow> ws(sink_address t \<mapsto> w\<lparr>balance := saturating_sub (balance w) x\<rparr>))
      else ws)"

definition refund_protocol_fee ::
    "int \<Rightarrow> uuid \<Rightarrow> user_id \<Rightarrow> u64 \<Rightarrow> sink_amounts \<Rightarrow> currency_chain \<Rightarrow> currency_chain \<times> uuid core_result" where
  "refund_protocol_fee now i who x sa c =
     (if x = 0 then (c, Inr 0)
      else
        let ws = debit_pool InsuranceFund (sa_insurance_fund sa) (debit_pool Treasury (sa_treasury sa)
                   (debit_pool RelayRewards (sa_relay_pool sa) (debit_pool ValidatorRewards (sa_validator_pool sa) (wallets c))))
        in case checked_credit who x ws of
             (ws', Inl e) \<Rightarrow> (c\<lparr>wallets := ws'\<rparr>, Inl e)
           | (ws', Inr _) \<Rightarrow> (add_tx (confirmed_tx i ''protocol_fee_refund'' 0 (Some who) x (chain_block c) now) (c\<lparr>wallets := ws'\<rparr>), Inr i))"

definition collect_message_fee ::
    "int \<Rightarrow> uuid \<Rightarrow> uuid \<Rightarrow> user_id \<Rightarrow> user_id \<Rightarrow> u64 \<Rightarrow> currency_chain \<Rightarrow> (currency_chain \<times> uuid) core_result" where
  "collect_message_fee now i rid sender relay fee c =
     (case debit sender fee (wallets c) of
        Inl e \<Rightarrow> Inl e
      | Inr ws \<Rightarrow>
          let fd = map_option (\<lambda>m. fst (collect_fee (duration_seconds now) rid MessageFee fee sender (Some relay) i m)) (fee_distribution c)
          in Inr (add_tx (confirmed_tx i ''message_fee'' sender (Some relay) fee (chain_block c) now)
                   (c\<lparr>wallets := credit relay fee ws, fee_distribution := fd\<rparr>), i))"

section \<open>Stakes and rewards\<close>

definition stake :: "int \<Rightarrow> uuid \<Rightarrow> user_id \<Rightarrow> u64 \<Rightarrow> int \<Rightarrow> currency_chain \<Rightarrow> (currency_chain \<times> uuid) core_result" where
  "stake now i u x lock c =
     (case wallets c u of
        None \<Rightarrow> Inl NotFound
      | Some w \<Rightarrow>
          if balance w < x then Inl InvalidInput
          else Inr (add_tx (pending_tx i ''stake'' u None x now)
                 (c\<lparr>wallets := (wallets c)(u \<mapsto> w\<lparr>balance := balance w - x, staked := staked w + x\<rparr>),
                    stakes := (stakes c)(u \<mapsto> \<lparr>sp_user_id = u, sp_amount = x, locked_until = now + lock, rewards_earned = 0\<rparr>)\<rparr>), i))"

definition chain_claim_rewards :: "int \<Rightarrow> uuid \<Rightarrow> user_id \<Rightarrow> currency_chain \<Rightarrow> (currency_chain \<times> uuid) core_result" where
  "chain_claim_rewards now i u c =
     (case wallets c u of
        None \<Rightarrow> Inl NotFound
      | Some w \<Rightarrow> Inr (add_tx (pending_tx i ''reward'' u None (rewards_pending w) now)
          (c\<lparr>wallets := (wallets c)(u \<mapsto> w\<lparr>balance := balance w + rewards_pending w, rewards_pending := 0\<rparr>)\<rparr>), i))"

text \<open>The type of the transaction is the debug name of the reason in lower case, which is a parameter.\<close>

definition mint_rewards ::
    "int \<Rightarrow> uuid \<Rightarrow> uuid \<Rightarrow> string \<Rightarrow> user_id \<Rightarrow> u64 \<Rightarrow> mint_reason \<Rightarrow> currency_chain \<Rightarrow> (currency_chain \<times> uuid) core_result" where
  "mint_rewards now i mi ty u x why c =
     (if x = 0 then Inl InvalidInput
      else
        let w = wallet_entry (wallets c) u
        in Inr (add_tx (confirmed_tx i ty 0 (Some u) x (chain_block c) now)
             (c\<lparr>chain_tokenomics := map_option (record_mint (duration_seconds now) mi x why) (chain_tokenomics c),
                wallets := (wallets c)(u \<mapsto> w\<lparr>rewards_pending := rewards_pending w + x\<rparr>)\<rparr>), i))"

definition auto_stake_for_node :: "int \<Rightarrow> uuid \<Rightarrow> user_id \<Rightarrow> u64 \<Rightarrow> u32 \<Rightarrow> currency_chain \<Rightarrow> (currency_chain \<times> uuid) core_result" where
  "auto_stake_for_node now i u x days c = (if x = 0 then Inl InvalidInput else stake now i u x (int (unat days) * 86400) c)"

definition new_rewards :: "wallet \<Rightarrow> u64 \<Rightarrow> u64 \<Rightarrow> u64 \<Rightarrow> u64" where
  "new_rewards w blocks messages epoch =
     staked w * 500 * epoch div (365 * 10000) + blocks * 10000000 + messages div 100 * 1000000"

definition accumulate_rewards :: "user_id \<Rightarrow> u64 \<Rightarrow> u64 \<Rightarrow> u64 \<Rightarrow> currency_chain \<Rightarrow> (currency_chain \<times> u64) core_result" where
  "accumulate_rewards u blocks messages epoch c =
     (case wallets c u of
        None \<Rightarrow> Inl NotFound
      | Some w \<Rightarrow>
          let w' = w\<lparr>rewards_pending := rewards_pending w + new_rewards w blocks messages epoch\<rparr>
          in Inr (c\<lparr>wallets := (wallets c)(u \<mapsto> w')\<rparr>, rewards_pending w'))"

definition slash_stake :: "int \<Rightarrow> uuid \<Rightarrow> uuid \<Rightarrow> user_id \<Rightarrow> u64 \<Rightarrow> currency_chain \<Rightarrow> (currency_chain \<times> uuid) core_result" where
  "slash_stake now i bi u x c =
     (if x = 0 then Inl InvalidInput
      else case wallets c u of
        None \<Rightarrow> Inl NotFound
      | Some w \<Rightarrow>
          if staked w < x then Inl InvalidInput
          else Inr (add_tx (confirmed_tx i ''slash'' u None x (chain_block c) now)
                 (c\<lparr>wallets := (wallets c)(u \<mapsto> w\<lparr>staked := staked w - x\<rparr>),
                    chain_tokenomics := burn_if_possible (duration_seconds now) bi x Slash u (chain_tokenomics c)\<rparr>), i))"
section \<open>Storage bonds\<close>

record bond_result =
  br_tx_id :: uuid
  br_bond_id :: hash32
  br_amount_locked :: u64
  br_expires_at :: int

definition create_storage_bond ::
    "int \<Rightarrow> uuid \<Rightarrow> user_id \<Rightarrow> hash32 \<Rightarrow> hash32 \<Rightarrow> u64 \<Rightarrow> u64 \<Rightarrow> u32 \<Rightarrow> currency_chain \<Rightarrow> (currency_chain \<times> bond_result) core_result" where
  "create_storage_bond now i u bid key x bytes days c =
     (if x = 0 then Inl InvalidInput
      else if days = 0 then Inl InvalidInput
      else if storage_bonds_tab c bid \<noteq> None then Inl InvalidInput
      else case wallets c u of
        None \<Rightarrow> Inl NotFound
      | Some w \<Rightarrow>
          if balance w < x then Inl InvalidInput
          else let exp = now + int (unat days) * 86400;
                   b = \<lparr>bond_id = bid, user_key = key, bond_amount = x, storage_bytes = bytes, bond_duration_days = days,
                        expires_at = exp, bond_tx_id = i, sb_status = BondActive, bond_created_at = now\<rparr>
               in Inr (add_tx (confirmed_tx i ''storage_bond'' u None x (chain_block c) now)
                    (c\<lparr>wallets := (wallets c)(u \<mapsto> w\<lparr>balance := balance w - x, staked := staked w + x\<rparr>),
                       storage_bonds_tab := (storage_bonds_tab c)(bid \<mapsto> b)\<rparr>),
                    \<lparr>br_tx_id = i, br_bond_id = bid, br_amount_locked = x, br_expires_at = exp\<rparr>))"

definition get_storage_bond :: "hash32 \<Rightarrow> currency_chain \<Rightarrow> storage_bond option" where
  "get_storage_bond bid c = storage_bonds_tab c bid"

definition initiate_unbonding :: "int \<Rightarrow> uuid \<Rightarrow> hash32 \<Rightarrow> u32 \<Rightarrow> currency_chain \<Rightarrow> (currency_chain \<times> uuid) core_result" where
  "initiate_unbonding now i bid days c =
     (case storage_bonds_tab c bid of
        None \<Rightarrow> Inl NotFound
      | Some b \<Rightarrow>
          if sb_status b \<noteq> BondActive then Inl InvalidInput
          else Inr (c\<lparr>storage_bonds_tab := (storage_bonds_tab c)(bid \<mapsto> b\<lparr>sb_status := BondUnbonding,
                 expires_at := now + int (unat days) * 86400, bond_tx_id := i\<rparr>)\<rparr>, i))"

text \<open>The bond has been marked as withdrawn when the wallet turns out to be missing.\<close>

definition complete_bond_withdrawal ::
    "int \<Rightarrow> uuid \<Rightarrow> user_id \<Rightarrow> hash32 \<Rightarrow> currency_chain \<Rightarrow> currency_chain \<times> (u64 \<times> uuid) core_result" where
  "complete_bond_withdrawal now i u bid c =
     (case storage_bonds_tab c bid of
        None \<Rightarrow> (c, Inl NotFound)
      | Some b \<Rightarrow>
          if sb_status b \<noteq> BondUnbonding then (c, Inl InvalidInput)
          else if now < expires_at b then (c, Inl InvalidInput)
          else
            let x = bond_amount b;
                c = c\<lparr>storage_bonds_tab := (storage_bonds_tab c)(bid \<mapsto> b\<lparr>sb_status := BondWithdrawn\<rparr>)\<rparr>
            in case wallets c u of
                 None \<Rightarrow> (c, Inl NotFound)
               | Some w \<Rightarrow>
                   (add_tx (confirmed_tx i ''bond_withdrawal'' 0 (Some u) x (chain_block c) now)
                      (c\<lparr>wallets := (wallets c)(u \<mapsto> w\<lparr>staked := saturating_sub (staked w) x, balance := balance w + x\<rparr>)\<rparr>), Inr (x, i)))"

section \<open>Genesis allocations\<close>

fun contains :: "string \<Rightarrow> string \<Rightarrow> bool" where
  "contains sub [] = (sub = [])"
| "contains sub (ch # s) = (take (length sub) (ch # s) = sub \<or> contains sub s)"

definition genesis_category :: "string \<Rightarrow> string" where
  "genesis_category s =
     (if contains ''validator'' s then ''foundation_validators''
      else if contains ''relay'' s then ''foundation_relays''
      else if contains ''treasury'' s then ''foundation_treasury''
      else if contains ''community'' s \<or> contains ''incentive'' s then ''community_incentives''
      else if contains ''grant'' s \<or> contains ''ecosystem'' s then ''ecosystem_grants''
      else if contains ''team'' s then ''team''
      else if contains ''public'' s \<or> contains ''faucet'' s \<or> contains ''airdrop'' s then ''public_distribution''
      else s)"

definition default_genesis_allocation :: "int \<Rightarrow> genesis_allocation_t" where
  "default_genesis_allocation now =
     (let supply0 = initial_supply supply_config_default;
          entry = (\<lambda>name part v. \<lparr>category = name, al_total = part, al_remaining = part, al_vesting = v, recipients = []\<rparr>);
          vest = (\<lambda>cliff days. Some \<lparr>cliff_days = cliff, vesting_days = days, vested = 0, start_timestamp = now\<rparr>)
      in \<lparr>total_allocated = supply0, ga_remaining = supply0,
          allocations = Map.empty(
            ''foundation_validators'' \<mapsto> entry ''foundation_validators'' (supply0 * 7 div 100) (vest 0 365),
            ''foundation_relays'' \<mapsto> entry ''foundation_relays'' (supply0 * 28 div 1000) (vest 0 365),
            ''foundation_treasury'' \<mapsto> entry ''foundation_treasury'' (supply0 * 15 div 100) None,
            ''community_incentives'' \<mapsto> entry ''community_incentives'' (supply0 * 30 div 100) (vest 0 (365 * 4)),
            ''ecosystem_grants'' \<mapsto> entry ''ecosystem_grants'' (supply0 * 15 div 100) None,
            ''team'' \<mapsto> entry ''team'' (supply0 * 15 div 100) (vest 365 (365 * 4)),
            ''public_distribution'' \<mapsto> entry ''public_distribution'' (supply0 * 5 div 100) None),
          transfers = []\<rparr>)"

text \<open>Integer division of Rust, which rounds towards zero.\<close>

definition div_trunc :: "int \<Rightarrow> int \<Rightarrow> int" where
  "div_trunc a b = (if 0 \<le> a then a div b else - ((- a) div b))"

text \<open>\<open>float_vested total elapsed days\<close> is \<^verbatim>\<open>(total as f64 * (elapsed as f64 / days as f64).min(1.0)) as u64\<close>, and the total as a double and
  back when there are no days to vest over.\<close>

definition vesting_allows :: "(u64 \<Rightarrow> u64 \<Rightarrow> u32 \<Rightarrow> u64) \<Rightarrow> int \<Rightarrow> u64 \<Rightarrow> allocation_entry \<Rightarrow> bool" where
  "vesting_allows float_vested now amount e =
     (case al_vesting e of
        None \<Rightarrow> True
      | Some v \<Rightarrow>
          let elapsed = div_trunc (now - start_timestamp v) 86400
          in if elapsed < int (unat (cliff_days v)) then False
             else
               let days = saturating_sub (vesting_days v) (cliff_days v);
                   after = of_int (max (elapsed - int (unat (cliff_days v))) 0);
                   max_vested = float_vested (al_total e) after days;
                   available = saturating_sub max_vested (al_total e - al_remaining e)
               in \<not> amount > available)"

definition transfer_from_genesis ::
    "(u64 \<Rightarrow> u64 \<Rightarrow> u32 \<Rightarrow> u64) \<Rightarrow> int \<Rightarrow> uuid \<Rightarrow> user_id \<Rightarrow> u64 \<Rightarrow> string \<Rightarrow> currency_chain \<Rightarrow> (currency_chain \<times> uuid) core_result" where
  "transfer_from_genesis float_vested now i u amount src c =
     (if amount = 0 then Inl InvalidInput
      else
        let cat = genesis_category src; g = genesis_allocation c
        in if ga_remaining g < amount then Inl InvalidInput
           else case allocations g cat of
             None \<Rightarrow> Inl InvalidInput
           | Some e \<Rightarrow>
               if al_remaining e < amount then Inl InvalidInput
               else if \<not> vesting_allows float_vested now amount e then Inl InvalidInput
               else
                 let e = e\<lparr>al_remaining := al_remaining e - amount, recipients := recipients e @ [u]\<rparr>;
                     g = g\<lparr>allocations := (allocations g)(cat \<mapsto> e), ga_remaining := ga_remaining g - amount,
                           transfers := transfers g @ [\<lparr>gt_tx_id = i, gt_recipient = u, gt_amount = amount, source_category = cat,
                             gt_timestamp = now, remaining_after = al_remaining e\<rparr>]\<rparr>
                 in Inr (add_tx (confirmed_tx i (''genesis_'' @ src) 0 (Some u) amount 0 now)
                      (c\<lparr>genesis_allocation := g, wallets := credit u amount (wallets c)\<rparr>), i))"

definition get_genesis_transfers_by_category :: "string \<Rightarrow> currency_chain \<Rightarrow> genesis_transfer list" where
  "get_genesis_transfers_by_category cat c = filter (\<lambda>t. source_category t = cat) (transfers (genesis_allocation c))"

section \<open>Unbonding stakes\<close>

definition cooldown_days :: "string \<Rightarrow> int" where
  "cooldown_days nt = (if nt = ''validator'' then 14 else 7)"

definition pending_unbond_total :: "unbonding_record list \<Rightarrow> u64" where
  "pending_unbond_total rs = sum_list (map ub_amount (filter (\<lambda>r. ub_status r = UnbondPending) rs))"

definition queue_of :: "currency_chain \<Rightarrow> user_id \<Rightarrow> unbonding_record list" where
  "queue_of c u = (case unbonding_queue c u of None \<Rightarrow> [] | Some rs \<Rightarrow> rs)"

text \<open>The queue entry of the operator has been created when the second check refuses.\<close>

definition initiate_stake_unbonding_with_type ::
    "int \<Rightarrow> uuid \<Rightarrow> user_id \<Rightarrow> u64 \<Rightarrow> string \<Rightarrow> currency_chain \<Rightarrow> currency_chain \<times> unbonding_record core_result" where
  "initiate_stake_unbonding_with_type now i u amount nt c =
     (case wallets c u of
        None \<Rightarrow> (c, Inl NotFound)
      | Some w \<Rightarrow>
          let x = (if amount = 0 then staked w else amount)
          in if x > staked w then (c, Inl InvalidInput)
             else
               let rs = queue_of c u; c = c\<lparr>unbonding_queue := (unbonding_queue c)(u \<mapsto> rs)\<rparr>
               in if x + pending_unbond_total rs > staked w then (c, Inl InvalidInput)
                  else
                    let r = \<lparr>ub_id = i, ub_user_id = u, ub_amount = x, initiated_at = now,
                             available_at = now + cooldown_days nt * 86400, node_type = nt, ub_operator = None,
                             ub_status = UnbondPending\<rparr>;
                        t = (pending_tx i (''initiate_unbonding_'' @ nt) u None x now)\<lparr>tx_block_height := chain_block c\<rparr>
                    in (add_tx t (c\<lparr>unbonding_queue := (unbonding_queue c)(u \<mapsto> rs @ [r])\<rparr>), Inr r))"

definition initiate_stake_unbonding ::
    "int \<Rightarrow> uuid \<Rightarrow> user_id \<Rightarrow> u64 \<Rightarrow> currency_chain \<Rightarrow> currency_chain \<times> unbonding_record core_result" where
  "initiate_stake_unbonding now i u amount c = initiate_stake_unbonding_with_type now i u amount ''validator'' c"

text \<open>The first loop of \<^verbatim>\<open>complete_unbonding\<close>: the records it leaves, and the total with the ids and amounts, or the error.\<close>

fun mark_ready ::
    "int \<Rightarrow> uuid option \<Rightarrow> unbonding_record list \<Rightarrow> unbonding_record list \<times> (u64 \<times> (uuid \<times> u64) list) core_result" where
  "mark_ready now target [] = ([], Inr (0, []))"
| "mark_ready now target (r # rs) =
     (if (case target of None \<Rightarrow> False | Some i \<Rightarrow> ub_id r \<noteq> i) \<or> ub_status r \<noteq> UnbondPending
         \<or> (now < available_at r \<and> target = None) then
        (case mark_ready now target rs of (rs', res) \<Rightarrow> (r # rs', res))
      else if now < available_at r then (r # rs, Inl InvalidInput)
      else (case mark_ready now target rs of
              (rs', Inl e) \<Rightarrow> (r\<lparr>ub_status := UnbondReady\<rparr> # rs', Inl e)
            | (rs', Inr (t, ids)) \<Rightarrow> (r\<lparr>ub_status := UnbondReady\<rparr> # rs', Inr (ub_amount r + t, (ub_id r, ub_amount r) # ids))))"

definition complete_unbonding :: "int \<Rightarrow> user_id \<Rightarrow> uuid option \<Rightarrow> currency_chain \<Rightarrow> currency_chain \<times> u64 core_result" where
  "complete_unbonding now u target c =
     (case unbonding_queue c u of
        None \<Rightarrow> (c, Inl NotFound)
      | Some rs \<Rightarrow>
          (case mark_ready now target rs of
             (rs', Inl e) \<Rightarrow> (c\<lparr>unbonding_queue := (unbonding_queue c)(u \<mapsto> rs')\<rparr>, Inl e)
           | (rs', Inr (withdrawn_sum, ids)) \<Rightarrow>
               let c = c\<lparr>unbonding_queue := (unbonding_queue c)(u \<mapsto> rs')\<rparr>
               in if withdrawn_sum = 0 then (c, Inl InvalidInput)
                  else case wallets c u of
                    None \<Rightarrow> (c, Inl NotFound)
                  | Some w \<Rightarrow>
                      let c = c\<lparr>wallets := (wallets c)(u \<mapsto> w\<lparr>staked := saturating_sub (staked w) withdrawn_sum, balance := balance w + withdrawn_sum\<rparr>),
                                unbonding_queue := (unbonding_queue c)(u \<mapsto>
                                  map (\<lambda>r. if ub_id r \<in> fst ` set ids then r\<lparr>ub_status := UnbondCompleted\<rparr> else r) rs')\<rparr>
                      in (fold (\<lambda>(i, x). add_tx (confirmed_tx i ''complete_unbonding'' u (Some u) x (chain_block c) now)) ids c, Inr withdrawn_sum)))"

definition get_pending_unbondings :: "user_id \<Rightarrow> currency_chain \<Rightarrow> unbonding_record list" where
  "get_pending_unbondings u c = filter (\<lambda>r. ub_status r = UnbondPending) (queue_of c u)"

fun cancel_first :: "uuid \<Rightarrow> unbonding_record list \<Rightarrow> unbonding_record list core_result" where
  "cancel_first i [] = Inl NotFound"
| "cancel_first i (r # rs) =
     (if ub_id r = i then
        (if ub_status r \<noteq> UnbondPending then Inl InvalidInput else Inr (r\<lparr>ub_status := UnbondCancelled\<rparr> # rs))
      else case cancel_first i rs of Inl e \<Rightarrow> Inl e | Inr rs' \<Rightarrow> Inr (r # rs'))"

definition cancel_unbonding :: "user_id \<Rightarrow> uuid \<Rightarrow> currency_chain \<Rightarrow> currency_chain core_result" where
  "cancel_unbonding u i c =
     (case unbonding_queue c u of
        None \<Rightarrow> Inl NotFound
      | Some rs \<Rightarrow>
          (case cancel_first i rs of Inl e \<Rightarrow> Inl e | Inr rs' \<Rightarrow> Inr (c\<lparr>unbonding_queue := (unbonding_queue c)(u \<mapsto> rs')\<rparr>)))"

text \<open>The users in the order in which the hash map is iterated are a parameter.\<close>

definition process_unbonding_queue :: "user_id list \<Rightarrow> int \<Rightarrow> currency_chain \<Rightarrow> (user_id \<times> uuid \<times> u64) list" where
  "process_unbonding_queue us now c =
     concat (map (\<lambda>u. map (\<lambda>r. (u, ub_id r, ub_amount r))
       (filter (\<lambda>r. ub_status r = UnbondPending \<and> now \<ge> available_at r) (queue_of c u))) us)"

section \<open>Escrows of payment channels\<close>

record lock_result =
  lr_tx_id :: uuid
  lr_channel_id :: string
  lr_amount_locked :: u64

record release_result =
  rr_tx_id :: uuid
  sender_refund :: u64
  receiver_payout :: u64

definition lock_channel_escrow ::
    "int \<Rightarrow> uuid \<Rightarrow> string \<Rightarrow> user_id \<Rightarrow> user_id \<Rightarrow> u64 \<Rightarrow> currency_chain \<Rightarrow> (currency_chain \<times> lock_result) core_result" where
  "lock_channel_escrow now i cid sid rid amount c =
     (if amount = 0 then Inl InvalidInput
      else if escrows c cid \<noteq> None then Inl InvalidInput
      else case debit sid amount (wallets c) of
        Inl e \<Rightarrow> Inl e
      | Inr ws \<Rightarrow>
          let esc = \<lparr>ce_channel_id = cid, ce_sender_id = sid, ce_receiver_id = rid, ce_capacity = amount, ce_sender_balance = amount,
                     ce_receiver_balance = 0, ce_status = EscrowActive, ce_funding_tx_id = i, settlement_tx_id = None,
                     ce_created_at = now, ce_updated_at = now, ce_dispute_deadline = None\<rparr>
          in Inr (add_tx (confirmed_tx i ''channel_escrow_lock'' sid (Some rid) amount (chain_block c) now)
               (c\<lparr>wallets := ws, escrows := (escrows c)(cid \<mapsto> esc)\<rparr>),
               \<lparr>lr_tx_id = i, lr_channel_id = cid, lr_amount_locked = amount\<rparr>))"

definition release_channel_escrow ::
    "int \<Rightarrow> uuid \<Rightarrow> string \<Rightarrow> u64 \<Rightarrow> u64 \<Rightarrow> bool \<Rightarrow> currency_chain \<Rightarrow> (currency_chain \<times> release_result) core_result" where
  "release_channel_escrow now i cid sb rb is_dispute c =
     (case escrows c cid of
        None \<Rightarrow> Inl NotFound
      | Some esc \<Rightarrow>
          if ce_status esc = EscrowSettled then Inl InvalidInput
          else if sb + rb \<noteq> ce_capacity esc then Inl InvalidInput
          else
            let esc' = esc\<lparr>ce_sender_balance := sb, ce_receiver_balance := rb,
                          ce_status := (if is_dispute then EscrowDisputed else EscrowSettled),
                          settlement_tx_id := Some i, ce_updated_at := now\<rparr>;
                ws = (if sb > 0 then credit (ce_sender_id esc) sb (wallets c) else wallets c);
                ws = (if rb > 0 then credit (ce_receiver_id esc) rb ws else ws)
            in Inr (add_tx (confirmed_tx i (if is_dispute then ''channel_escrow_dispute'' else ''channel_escrow_release'')
                      (ce_sender_id esc) (Some (ce_receiver_id esc)) rb (chain_block c) now)
                 (c\<lparr>escrows := (escrows c)(cid \<mapsto> esc'), wallets := ws\<rparr>),
                 \<lparr>rr_tx_id = i, sender_refund = sb, receiver_payout = rb\<rparr>))"

definition get_channel_escrow :: "string \<Rightarrow> currency_chain \<Rightarrow> channel_escrow option" where
  "get_channel_escrow cid c = escrows c cid"

definition initiate_channel_dispute :: "int \<Rightarrow> string \<Rightarrow> int \<Rightarrow> currency_chain \<Rightarrow> (currency_chain \<times> int) core_result" where
  "initiate_channel_dispute now cid window c =
     (case escrows c cid of
        None \<Rightarrow> Inl NotFound
      | Some esc \<Rightarrow>
          if ce_status esc \<noteq> EscrowActive then Inl InvalidInput
          else Inr (c\<lparr>escrows := (escrows c)(cid \<mapsto> esc\<lparr>ce_status := EscrowDisputing,
                 ce_dispute_deadline := Some (now + window), ce_updated_at := now\<rparr>)\<rparr>, now + window))"

section \<open>Redeemed tokens and the new chain\<close>

definition record_payment :: "string \<Rightarrow> u64 \<Rightarrow> string \<Rightarrow> currency_chain \<Rightarrow> currency_chain" where
  "record_payment h x r c = c\<lparr>payment_records := (payment_records c)(h \<mapsto> (x, r, True))\<rparr>"

definition is_token_redeemed :: "hash32 \<Rightarrow> currency_chain \<Rightarrow> bool" where
  "is_token_redeemed h c \<longleftrightarrow> h \<in> redeemed_tokens c"

definition mark_token_redeemed :: "hash32 \<Rightarrow> currency_chain \<Rightarrow> currency_chain" where
  "mark_token_redeemed h c = c\<lparr>redeemed_tokens := insert h (redeemed_tokens c)\<rparr>"

definition increment_address_count :: "user_id \<Rightarrow> currency_chain \<Rightarrow> currency_chain \<times> u32" where
  "increment_address_count u c =
     (let n = (case address_counts c u of None \<Rightarrow> 0 | Some n \<Rightarrow> n) + 1
      in (c\<lparr>address_counts := (address_counts c)(u \<mapsto> n)\<rparr>, n))"

definition chain_new :: "timestamp \<Rightarrow> int \<Rightarrow> tokenomics option \<Rightarrow> currency_chain" where
  "chain_new t0 now k =
     \<lparr>transactions = Map.empty, chain_block = 1,
      wallets = (\<lambda>u. if u \<in> sink_address ` set all_pools then Some (empty_wallet u) else None),
      stakes = Map.empty, storage_bonds_tab = Map.empty, escrows = Map.empty, chain_tokenomics = k,
      fee_distribution = Some (fee_manager_new t0 fee_config_default), payment_records = Map.empty, redeemed_tokens = {},
      genesis_allocation = default_genesis_allocation now, unbonding_queue = Map.empty, address_counts = Map.empty\<rparr>"

end
