(* ===== verification/Currency_Safety.thy ===== *)
theory Currency_Safety
  imports Currency_Chain
begin

text \<open>
  What the operations of the currency chain do to the amount of coins: the sum of all wallets (free, staked and pending), of the open
  escrows and of the undistributed genesis allocation. Every operation is one step of a ledger that creates and destroys known
  amounts; a history of steps balances. The last section shows where coins appear or are paid twice.
\<close>

section \<open>Ledgers\<close>

text \<open>A state with an amount, changed by steps that say how much they create and destroy.\<close>

inductive ledger_run :: "('s \<Rightarrow> nat \<Rightarrow> nat \<Rightarrow> 's \<Rightarrow> bool) \<Rightarrow> 's \<Rightarrow> nat \<Rightarrow> nat \<Rightarrow> 's \<Rightarrow> bool" for step where
  run_none: "ledger_run step s 0 0 s"
| run_step: "ledger_run step s cr de s' \<Longrightarrow> step s' x y s'' \<Longrightarrow> ledger_run step s (cr + x) (de + y) s''"

locale ledger =
  fixes valid :: "'s \<Rightarrow> bool" and amount :: "'s \<Rightarrow> nat" and bound :: nat and step :: "'s \<Rightarrow> nat \<Rightarrow> nat \<Rightarrow> 's \<Rightarrow> bool"
  assumes step_balance: "valid s \<Longrightarrow> amount s + x < bound \<Longrightarrow> step s x y s' \<Longrightarrow> valid s' \<and> amount s' + y = amount s + x"
begin

lemma run_balance:
  assumes "ledger_run step s cr de s'" and "valid s" and "amount s + cr < bound"
  shows "valid s' \<and> amount s' + de = amount s + cr"
  using assms
proof (induction rule: ledger_run.induct)
  case (run_step s cr de s' x y s'')
  then have "valid s'" "amount s' + de = amount s + cr" by auto
  moreover have "valid s'' \<and> amount s'' + y = amount s' + x"
    using step_balance [of s' x y s''] run_step.hyps(2) run_step.prems(2) calculation by auto
  ultimately show ?case by auto
qed simp

lemma run_conserves: "ledger_run step s 0 0 s' \<Longrightarrow> valid s \<Longrightarrow> amount s < bound \<Longrightarrow> amount s' = amount s"
  using run_balance [of s 0 0 s'] by simp

end

section \<open>The coins of the chain\<close>

definition wallet_value :: "wallet \<Rightarrow> nat" where
  "wallet_value w = unat (balance w) + unat (staked w) + unat (rewards_pending w)"

definition wealth :: "(user_id \<rightharpoonup> wallet) \<Rightarrow> nat" where
  "wealth = map_total wallet_value"

definition escrow_open :: "channel_escrow \<Rightarrow> bool" where
  "escrow_open e \<longleftrightarrow> ce_status e = EscrowActive \<or> ce_status e = EscrowDisputing"

definition escrow_value :: "channel_escrow \<Rightarrow> nat" where
  "escrow_value e = (if escrow_open e then unat (ce_capacity e) else 0)"

definition coins :: "currency_chain \<Rightarrow> nat" where
  "coins c = wealth (wallets c) + map_total escrow_value (escrows c) + unat (ga_remaining (genesis_allocation c))"

definition chain_finite :: "currency_chain \<Rightarrow> bool" where
  "chain_finite c \<longleftrightarrow> finite (dom (wallets c)) \<and> finite (dom (escrows c))"

lemma wealth_upd:
  assumes "finite (dom ws)"
  shows "wealth (ws(u \<mapsto> w)) + wallet_value (wallet_entry ws u) = wealth ws + wallet_value w"
proof (cases "ws u")
  case None
  then show ?thesis using map_total_fresh [OF assms None, of wallet_value w]
    by (simp add: wealth_def wallet_entry_def empty_wallet_def wallet_value_def)
next
  case (Some v)
  then show ?thesis using map_total_upd [OF assms Some, of wallet_value w] by (simp add: wealth_def wallet_entry_def)
qed

lemma wallet_value_le: "finite (dom ws) \<Longrightarrow> wallet_value (wallet_entry ws u) \<le> wealth ws"
  using wealth_upd [of ws u "empty_wallet u"] wealth_upd [of "ws(u := None)" u "wallet_entry ws u"]
  by (cases "ws u") (auto simp: wallet_entry_def empty_wallet_def wallet_value_def fun_upd_idem_iff)

lemma wallet_move:
  assumes "finite (dom ws)" and "ws u = Some w" and "wallet_value w' + d = wallet_value w + n"
  shows "wealth (ws(u \<mapsto> w')) + d = wealth ws + n"
  using wealth_upd [OF assms(1), of u w'] assms(2,3) by (simp add: wallet_entry_def)

lemma wealth_credit:
  assumes "finite (dom ws)" and "wealth ws + unat x < 2 ^ 64"
  shows "wealth (credit u x ws) = wealth ws + unat x"
proof -
  have "unat (balance (wallet_entry ws u)) + unat x < 2 ^ LENGTH(64)"
    using wallet_value_le [OF assms(1), of u] assms(2) by (simp add: wallet_value_def)
  then have "unat (balance (wallet_entry ws u) + x) = unat (balance (wallet_entry ws u)) + unat x" by (rule unat_add_no_overflow)
  then show ?thesis using wealth_upd [OF assms(1), of u "(wallet_entry ws u)\<lparr>balance := balance (wallet_entry ws u) + x\<rparr>"]
    by (simp add: credit_def wallet_value_def)
qed

lemma debit_ok:
  assumes "debit u x ws = Inr ws'" and "finite (dom ws)"
  shows "finite (dom ws')" "wealth ws' + unat x = wealth ws"
proof -
  obtain w where w: "ws u = Some w" "x \<le> balance w" "ws' = ws(u \<mapsto> w\<lparr>balance := balance w - x\<rparr>)"
    using assms(1) by (auto simp: debit_def not_less split: option.splits if_splits)
  show "finite (dom ws')" using w(3) assms(2) by simp
  show "wealth ws' + unat x = wealth ws"
    unfolding w(3) using wallet_move [OF assms(2) w(1), of "w\<lparr>balance := balance w - x\<rparr>" "unat x" 0] w(2)
    by (simp add: wallet_value_def unat_sub_no_underflow word_le_nat_alt)
qed

lemma finite_credit [simp]: "finite (dom ws) \<Longrightarrow> finite (dom (credit u x ws))"
  by (simp add: credit_def)

text \<open>A debit followed by a credit, of any amount.\<close>

lemma debit_credit:
  assumes "debit u x ws = Inr ws'" and "finite (dom ws)" and "wealth ws + (unat y - unat x) < 2 ^ 64"
  shows "wealth (credit v y ws') + (unat x - unat y) = wealth ws + (unat y - unat x)"
proof -
  note d = debit_ok [OF assms(1,2)]
  have "wealth ws' + unat y < 2 ^ 64" using d(2) assms(3) by linarith
  then show ?thesis using wealth_credit [OF d(1)] d(2) by simp
qed

lemma coins_add_tx [simp]: "coins (add_tx t c) = coins c" "chain_finite (add_tx t c) = chain_finite c"
  by (simp_all add: add_tx_def coins_def chain_finite_def)

lemma coins_wallets:
  "coins (c\<lparr>wallets := ws\<rparr>) + wealth (wallets c) = coins c + wealth ws"
  by (simp add: coins_def)

lemma wealth_le_coins: "wealth (wallets c) \<le> coins c"
  by (simp add: coins_def)

section \<open>Operations as ledger steps\<close>

definition burn_rate_ok :: "currency_chain \<Rightarrow> bool" where
  "burn_rate_ok c \<longleftrightarrow> (\<forall>k. chain_tokenomics c = Some k \<longrightarrow> sc_burn_rate_bps (tk_config k) \<le> 10000)"

text \<open>The burn never exceeds the amount, also when the product wraps around.\<close>

lemma burn_le:
  fixes x r :: u64
  assumes "unat r \<le> 10000"
  shows "unat (x * r div 10000) \<le> unat x"
proof -
  have "unat (x * r) \<le> unat x * unat r" by (simp add: unat_word_ariths)
  also have "\<dots> \<le> unat x * 10000" using assms by (rule mult_le_mono2)
  finally have "unat (x * r) div 10000 \<le> unat x" by linarith
  then show ?thesis by (simp add: unat_div)
qed

lemma unat_ucast_16_64 [simp]: "unat (ucast r :: u64) = unat r" for r :: u16
  by transfer (simp add: min_def)

lemma burn_of_le: "burn_rate_ok c \<Longrightarrow> unat (burn_of c x) \<le> unat x"
  unfolding burn_of_def
  by (rule burn_le) (auto simp: burn_rate_ok_def word_le_nat_alt DEFAULT_BURN_RATE_BPS_def split: option.splits)

lemma transfer_step:
  assumes "chain_transfer now i bi src dst x c = Inr (c', j)" and "chain_finite c"
    and "coins c + (unat (x - burn_of c x) - unat x) < 2 ^ 64"
  shows "chain_finite c' \<and> coins c' + (unat x - unat (x - burn_of c x)) = coins c + (unat (x - burn_of c x) - unat x)"
proof -
  obtain ws where ws: "debit src x (wallets c) = Inr ws" and c': "wallets c' = credit dst (x - burn_of c x) ws"
    "escrows c' = escrows c" "genesis_allocation c' = genesis_allocation c"
    using assms(1) by (auto simp: chain_transfer_def Let_def add_tx_def split: sum.splits)
  have fin: "finite (dom (wallets c))" "finite (dom (escrows c))" using assms(2) by (simp_all add: chain_finite_def)
  have "wealth (wallets c) + (unat (x - burn_of c x) - unat x) < 2 ^ 64" using wealth_le_coins [of c] assms(3) by linarith
  from debit_credit [OF ws fin(1) this, of dst] show ?thesis
    using debit_ok(1) [OF ws fin(1)] fin(2) by (simp add: coins_def chain_finite_def c')
qed

text \<open>With a burn rate of at most 100 percent a transfer destroys the burn and creates nothing.\<close>

lemma transfer_burns:
  assumes "burn_rate_ok c"
  shows "unat (x - burn_of c x) - unat x = 0" and "unat x - unat (x - burn_of c x) = unat (burn_of c x)"
proof -
  have le: "unat (burn_of c x) \<le> unat x" using burn_of_le [OF assms] .
  have "unat (x - burn_of c x) = unat x - unat (burn_of c x)" using le by (simp add: unat_sub_no_underflow word_le_nat_alt)
  then show "unat (x - burn_of c x) - unat x = 0" "unat x - unat (x - burn_of c x) = unat (burn_of c x)" using le by simp_all
qed

lemma debit_credit_step:
  assumes "debit src x (wallets c) = Inr ws" and "chain_finite c" and "coins c < 2 ^ 64"
    and "wallets c' = credit dst x ws" and "escrows c' = escrows c" and "genesis_allocation c' = genesis_allocation c"
  shows "chain_finite c' \<and> coins c' = coins c"
proof -
  have fin: "finite (dom (wallets c))" "finite (dom (escrows c))" using assms(2) by (simp_all add: chain_finite_def)
  have "wealth (wallets c) < 2 ^ 64" using wealth_le_coins [of c] assms(3) by linarith
  then have "wealth (wallets c') = wealth (wallets c)" using debit_credit [OF assms(1) fin(1), of x dst] by (simp add: assms(4))
  then show ?thesis using debit_ok(1) [OF assms(1) fin(1)] fin(2) assms(4-6) by (simp add: coins_def chain_finite_def)
qed

lemma wallet_step:
  assumes "wallet_value w' + d = wallet_value (wallet_entry (wallets c) u) + n" and "chain_finite c"
    and "wallets c' = (wallets c)(u \<mapsto> w')" and "escrows c' = escrows c" and "genesis_allocation c' = genesis_allocation c"
  shows "chain_finite c' \<and> coins c' + d = coins c + n"
proof -
  have fin: "finite (dom (wallets c))" "finite (dom (escrows c))" using assms(2) by (simp_all add: chain_finite_def)
  have "wealth (wallets c') + d = wealth (wallets c) + n" unfolding assms(3) using wealth_upd [OF fin(1), of u w'] assms(1) by linarith
  then show ?thesis using fin assms(3-5) by (simp add: coins_def chain_finite_def)
qed

lemma entry_bound: "chain_finite c \<Longrightarrow> wallet_value (wallet_entry (wallets c) u) \<le> coins c"
  using wallet_value_le [of "wallets c" u] wealth_le_coins [of c] by (simp add: chain_finite_def)

lemma entry_Some [simp]: "ws u = Some w \<Longrightarrow> wallet_entry ws u = w"
  by (simp add: wallet_entry_def)

text \<open>Moving an amount from the free to the staked part of a wallet and back.\<close>

lemma value_stake:
  assumes "x \<le> balance w" and "wallet_value w < 2 ^ 64"
  shows "wallet_value (w\<lparr>balance := balance w - x, staked := staked w + x\<rparr>) = wallet_value w"
proof -
  have "unat (staked w) + unat x < 2 ^ LENGTH(64)" using assms by (simp add: wallet_value_def word_le_nat_alt)
  then show ?thesis using assms(1) by (simp add: wallet_value_def unat_add_no_overflow unat_sub_no_underflow word_le_nat_alt)
qed

lemma value_unstake:
  assumes "wallet_value w + (unat x - unat (staked w)) < 2 ^ 64"
  shows "wallet_value (w\<lparr>staked := saturating_sub (staked w) x, balance := balance w + x\<rparr>) = wallet_value w + (unat x - unat (staked w))"
proof -
  have "unat (balance w) + unat x < 2 ^ LENGTH(64)" using assms by (simp add: wallet_value_def)
  then show ?thesis
    by (simp add: wallet_value_def unat_saturating_sub unat_add_no_overflow)
qed

lemma value_reward:
  assumes "wallet_value w + unat x < 2 ^ 64"
  shows "wallet_value (w\<lparr>rewards_pending := rewards_pending w + x\<rparr>) = wallet_value w + unat x"
proof -
  have "unat (rewards_pending w) + unat x < 2 ^ LENGTH(64)" using assms by (simp add: wallet_value_def)
  then show ?thesis by (simp add: wallet_value_def unat_add_no_overflow)
qed

lemma value_claim:
  assumes "wallet_value w < 2 ^ 64"
  shows "wallet_value (w\<lparr>balance := balance w + rewards_pending w, rewards_pending := 0\<rparr>) = wallet_value w"
proof -
  have "unat (balance w) + unat (rewards_pending w) < 2 ^ LENGTH(64)" using assms by (simp add: wallet_value_def)
  then show ?thesis by (simp add: wallet_value_def unat_add_no_overflow)
qed

lemma transfer_internal_step:
  assumes "transfer_internal now i src dst x reason c = Inr (c', j)" and "chain_finite c" and "coins c < 2 ^ 64"
  shows "chain_finite c' \<and> coins c' = coins c"
proof -
  obtain ws where "debit src x (wallets c) = Inr ws" "wallets c' = credit dst x ws" "escrows c' = escrows c"
    "genesis_allocation c' = genesis_allocation c"
    using assms(1) by (auto simp: transfer_internal_def add_tx_def split: sum.splits)
  then show ?thesis using debit_credit_step assms(2,3) by blast
qed

lemma pay_from_pool_step:
  "pay_from_pool now t ds reason c = (c', rs) \<Longrightarrow> chain_finite c \<Longrightarrow> coins c < 2 ^ 64 \<Longrightarrow> chain_finite c' \<and> coins c' = coins c"
proof (induction now t ds reason c arbitrary: c' rs rule: pay_from_pool.induct)
  case (2 now t i u x rest reason c)
  show ?case
  proof (cases "x = 0")
    case True
    then show ?thesis using 2 by (auto split: prod.splits)
  next
    case False
    show ?thesis
    proof (cases "transfer_internal now i (sink_address t) u x reason c")
      case (Inl e)
      then show ?thesis using 2 False by (auto split: prod.splits)
    next
      case (Inr r)
      obtain c1 j where r: "r = (c1, j)" by (cases r)
      have c1: "chain_finite c1" "coins c1 = coins c" using transfer_internal_step [OF Inr [unfolded r]] 2(5,6) by auto
      obtain c2 rs2 where rest: "pay_from_pool now t rest reason c1 = (c2, rs2)" by (cases "pay_from_pool now t rest reason c1")
      then have "c' = c2" using 2(4) False Inr r by simp
      moreover have "chain_finite c2 \<and> coins c2 = coins c1" using 2(3) [OF False Inr [unfolded r] refl rest c1(1)] c1(2) 2(6) by simp
      ultimately show ?thesis using c1 by simp
    qed
  qed
qed simp

lemma stake_step:
  assumes "stake now i u x lock c = Inr (c', j)" and "chain_finite c" and "coins c < 2 ^ 64"
  shows "chain_finite c' \<and> coins c' = coins c"
proof -
  obtain w where w: "wallets c u = Some w" "x \<le> balance w" "wallets c' = (wallets c)(u \<mapsto> w\<lparr>balance := balance w - x, staked := staked w + x\<rparr>)"
    "escrows c' = escrows c" "genesis_allocation c' = genesis_allocation c"
    using assms(1) by (auto simp: stake_def add_tx_def not_less split: option.splits if_splits)
  have "wallet_value w < 2 ^ 64" using entry_bound [OF assms(2), of u] assms(3) w(1) by simp
  then show ?thesis using wallet_step [OF _ assms(2) w(3-5), of 0 0] value_stake [OF w(2)] w(1) by simp
qed

lemma bond_step:
  assumes "create_storage_bond now i u bid key x bytes days c = Inr (c', r)" and "chain_finite c" and "coins c < 2 ^ 64"
  shows "chain_finite c' \<and> coins c' = coins c"
proof -
  obtain w where w: "wallets c u = Some w" "x \<le> balance w" "wallets c' = (wallets c)(u \<mapsto> w\<lparr>balance := balance w - x, staked := staked w + x\<rparr>)"
    "escrows c' = escrows c" "genesis_allocation c' = genesis_allocation c"
    using assms(1) by (auto simp: create_storage_bond_def Let_def add_tx_def not_less split: option.splits if_splits)
  have "wallet_value w < 2 ^ 64" using entry_bound [OF assms(2), of u] assms(3) w(1) by simp
  then show ?thesis using wallet_step [OF _ assms(2) w(3-5), of 0 0] value_stake [OF w(2)] w(1) by simp
qed

lemma bond_withdrawal_step:
  assumes "complete_bond_withdrawal now i u bid c = (c', Inr (x, j))" and "wallets c u = Some w"
    and "chain_finite c" and "coins c + (unat x - unat (staked w)) < 2 ^ 64"
  shows "chain_finite c' \<and> coins c' = coins c + (unat x - unat (staked w))"
proof -
  have w: "wallets c' = (wallets c)(u \<mapsto> w\<lparr>staked := saturating_sub (staked w) x, balance := balance w + x\<rparr>)"
    "escrows c' = escrows c" "genesis_allocation c' = genesis_allocation c"
    using assms(1,2) by (auto simp: complete_bond_withdrawal_def Let_def add_tx_def split: option.splits if_splits)
  have "wallet_value w + (unat x - unat (staked w)) < 2 ^ 64" using entry_bound [OF assms(3), of u] assms(2,4) by simp
  then show ?thesis using wallet_step [OF _ assms(3) w, of 0 "unat x - unat (staked w)"] value_unstake assms(2) by simp
qed

lemma fold_add_tx [simp]:
  "wallets (fold (\<lambda>(i, x). add_tx (t i x)) ids c) = wallets c" "escrows (fold (\<lambda>(i, x). add_tx (t i x)) ids c) = escrows c"
  "genesis_allocation (fold (\<lambda>(i, x). add_tx (t i x)) ids c) = genesis_allocation c"
  by (induction ids arbitrary: c) (auto simp: add_tx_def)

lemma complete_unbonding_step:
  assumes "complete_unbonding now u target c = (c', Inr x)" and "wallets c u = Some w"
    and "chain_finite c" and "coins c + (unat x - unat (staked w)) < 2 ^ 64"
  shows "chain_finite c' \<and> coins c' = coins c + (unat x - unat (staked w))"
proof -
  have w: "wallets c' = (wallets c)(u \<mapsto> w\<lparr>staked := saturating_sub (staked w) x, balance := balance w + x\<rparr>)"
    "escrows c' = escrows c" "genesis_allocation c' = genesis_allocation c"
    using assms(1,2) by (auto simp: complete_unbonding_def Let_def split: option.splits prod.splits sum.splits if_splits)
  have "wallet_value w + (unat x - unat (staked w)) < 2 ^ 64" using entry_bound [OF assms(3), of u] assms(2,4) by simp
  then show ?thesis using wallet_step [OF _ assms(3) w, of 0 "unat x - unat (staked w)"] value_unstake assms(2) by simp
qed
lemma genesis_step:
  assumes "transfer_from_genesis f now i u x src c = Inr (c', j)" and "chain_finite c" and "coins c < 2 ^ 64"
  shows "chain_finite c' \<and> coins c' = coins c"
proof -
  have c': "x \<le> ga_remaining (genesis_allocation c)" "wallets c' = credit u x (wallets c)" "escrows c' = escrows c"
    "ga_remaining (genesis_allocation c') = ga_remaining (genesis_allocation c) - x"
    using assms(1) by (auto simp: transfer_from_genesis_def Let_def add_tx_def not_less split: option.splits if_splits)
  have fin: "finite (dom (wallets c))" "finite (dom (escrows c))" using assms(2) by (simp_all add: chain_finite_def)
  have le: "unat x \<le> unat (ga_remaining (genesis_allocation c))" using c'(1) by (simp add: word_le_nat_alt)
  then have "wealth (wallets c) + unat x < 2 ^ 64" using assms(3) by (simp add: coins_def)
  then show ?thesis using wealth_credit [OF fin(1)] fin le c'
    by (simp add: coins_def chain_finite_def unat_sub_no_underflow)
qed

text \<open>An escrow that is replaced by one of another value.\<close>

lemma escrow_upd:
  assumes "finite (dom es)" and "es cid = Some e"
  shows "map_total escrow_value (es(cid \<mapsto> e')) + escrow_value e = map_total escrow_value es + escrow_value e'"
  by (rule map_total_upd [OF assms])

lemma lock_step:
  assumes "lock_channel_escrow now i cid sid rid x c = Inr (c', r)" and "chain_finite c"
  shows "chain_finite c' \<and> coins c' = coins c"
proof -
  obtain ws esc where c': "escrows c cid = None" "debit sid x (wallets c) = Inr ws" "wallets c' = ws" "escrows c' = (escrows c)(cid \<mapsto> esc)"
    "genesis_allocation c' = genesis_allocation c" "escrow_value esc = unat x"
    using assms(1) by (auto simp: lock_channel_escrow_def Let_def add_tx_def escrow_value_def escrow_open_def split: if_splits sum.splits)
  have fin: "finite (dom (wallets c))" "finite (dom (escrows c))" using assms(2) by (simp_all add: chain_finite_def)
  show ?thesis using debit_ok [OF c'(2) fin(1)] map_total_fresh [OF fin(2) c'(1), of escrow_value esc] c' fin(2)
    by (simp add: coins_def chain_finite_def)
qed

lemma release_wallets:
  assumes "release_channel_escrow now i cid sb rb disp c = Inr (c', r)" and "escrows c cid = Some e"
    and "finite (dom (wallets c))" and "wealth (wallets c) + unat sb + unat rb < 2 ^ 64"
  shows "finite (dom (wallets c'))" "wealth (wallets c') = wealth (wallets c) + unat sb + unat rb" "sb + rb = ce_capacity e"
    "\<exists>e'. escrows c' = (escrows c)(cid \<mapsto> e') \<and> ce_capacity e' = ce_capacity e
       \<and> ce_status e' = (if disp then EscrowDisputed else EscrowSettled)"
    "genesis_allocation c' = genesis_allocation c"
proof -
  define ws1 where "ws1 = (if sb > 0 then credit (ce_sender_id e) sb (wallets c) else wallets c)"
  have c': "wallets c' = (if rb > 0 then credit (ce_receiver_id e) rb ws1 else ws1)"
    using assms(1,2) by (auto simp: release_channel_escrow_def Let_def add_tx_def ws1_def split: if_splits)
  have w1: "finite (dom ws1)" "wealth ws1 = wealth (wallets c) + unat sb"
    using assms(3,4) wealth_credit [OF assms(3), of sb] by (auto simp: ws1_def word_gt_0)
  show "finite (dom (wallets c'))" "wealth (wallets c') = wealth (wallets c) + unat sb + unat rb"
    using w1 assms(4) wealth_credit [OF w1(1), of rb] by (auto simp: c' word_gt_0)
  show "sb + rb = ce_capacity e"
    "\<exists>e'. escrows c' = (escrows c)(cid \<mapsto> e') \<and> ce_capacity e' = ce_capacity e
       \<and> ce_status e' = (if disp then EscrowDisputed else EscrowSettled)"
    "genesis_allocation c' = genesis_allocation c"
    using assms(1,2) by (force simp: release_channel_escrow_def Let_def add_tx_def split: if_splits)+
qed

lemma release_step:
  assumes "release_channel_escrow now i cid sb rb disp c = Inr (c', r)" and "escrows c cid = Some e"
    and "chain_finite c" and "coins c + (unat sb + unat rb - escrow_value e) < 2 ^ 64"
  shows "chain_finite c' \<and> coins c' = coins c + (unat sb + unat rb - escrow_value e)"
proof -
  have fin: "finite (dom (wallets c))" "finite (dom (escrows c))" using assms(3) by (simp_all add: chain_finite_def)
  have "sb + rb = ce_capacity e" using assms(1,2) by (auto simp: release_channel_escrow_def split: if_splits)
  then have cap: "escrow_value e \<le> unat sb + unat rb"
    by (auto simp: escrow_value_def unat_word_ariths simp flip: \<open>sb + rb = ce_capacity e\<close>)
  have "map_total escrow_value (escrows c) = escrow_value e + map_total escrow_value ((escrows c)(cid := None))"
    using map_total_remove [OF fin(2) assms(2), of escrow_value] by simp
  then have "wealth (wallets c) + unat sb + unat rb < 2 ^ 64" using assms(4) cap by (simp add: coins_def)
  note rel = release_wallets [OF assms(1,2) fin(1) this]
  obtain e' where e': "escrows c' = (escrows c)(cid \<mapsto> e')" "escrow_value e' = 0"
    using rel(4) by (auto simp: escrow_value_def escrow_open_def split: if_splits)
  have "map_total escrow_value (escrows c') + escrow_value e = map_total escrow_value (escrows c)"
    unfolding e'(1) using escrow_upd [OF fin(2) assms(2), of e'] e'(2) by simp
  then show ?thesis using rel(1,2,5) e'(1) fin(2) cap by (simp add: coins_def chain_finite_def)
qed

lemma dispute_step:
  assumes "initiate_channel_dispute now cid window c = Inr (c', d)" and "chain_finite c"
  shows "chain_finite c' \<and> coins c' = coins c"
proof -
  obtain e e' where c': "escrows c cid = Some e" "escrows c' = (escrows c)(cid \<mapsto> e')" "escrow_value e' = escrow_value e"
    "wallets c' = wallets c" "genesis_allocation c' = genesis_allocation c"
    using assms(1) by (auto simp: initiate_channel_dispute_def escrow_value_def escrow_open_def split: option.splits if_splits)
  show ?thesis using escrow_upd [of "escrows c" cid e e'] assms(2) c' by (simp add: coins_def chain_finite_def)
qed

lemma same_coins:
  "wallets c' = wallets c \<Longrightarrow> escrows c' = escrows c \<Longrightarrow> genesis_allocation c' = genesis_allocation c
    \<Longrightarrow> (chain_finite c' \<longleftrightarrow> chain_finite c) \<and> coins c' = coins c"
  by (simp add: coins_def chain_finite_def)

lemma checked_credit_step:
  assumes "checked_credit u x (wallets c) = (wallets c', Inr un)" and "chain_finite c" and "escrows c' = escrows c"
    and "genesis_allocation c' = genesis_allocation c"
  shows "chain_finite c' \<and> coins c' = coins c + unat x"
proof -
  let ?w = "wallet_entry (wallets c) u"
  obtain b where b: "checked_add (balance ?w) x = Some b" "wallets c' = (wallets c)(u \<mapsto> ?w\<lparr>balance := b\<rparr>)"
    using assms(1) by (auto simp: checked_credit_def Let_def split: option.splits)
  have "wallet_value (?w\<lparr>balance := b\<rparr>) + 0 = wallet_value ?w + unat x" using checked_add_unat [OF b(1)] by (simp add: wallet_value_def)
  from wallet_step [OF this assms(2) b(2) assms(3,4)] show ?thesis by simp
qed

lemma checked_credit_refused:
  assumes "checked_credit u x ws = (ws', Inl e)" and "finite (dom ws)"
  shows "finite (dom ws') \<and> wealth ws' = wealth ws"
proof -
  have "ws' = ws(u \<mapsto> wallet_entry ws u)" using assms(1) by (auto simp: checked_credit_def Let_def split: option.splits)
  then show ?thesis using wealth_upd [OF assms(2), of u "wallet_entry ws u"] assms(2) by simp
qed

text \<open>What a refund takes back from a pool: at most what the wallet of the pool holds.\<close>

definition taken :: "pool_type \<Rightarrow> u64 \<Rightarrow> (user_id \<rightharpoonup> wallet) \<Rightarrow> nat" where
  "taken t x ws = (case ws (sink_address t) of None \<Rightarrow> 0 | Some w \<Rightarrow> min (unat (balance w)) (unat x))"

definition taken_back :: "sink_amounts \<Rightarrow> (user_id \<rightharpoonup> wallet) \<Rightarrow> nat" where
  "taken_back sa ws = taken ValidatorRewards (sa_validator_pool sa) ws + taken RelayRewards (sa_relay_pool sa) ws
     + taken Treasury (sa_treasury sa) ws + taken InsuranceFund (sa_insurance_fund sa) ws"

lemma debit_pool_takes:
  assumes "finite (dom ws)"
  shows "finite (dom (debit_pool t x ws))" and "wealth (debit_pool t x ws) + taken t x ws = wealth ws"
    and "t' \<noteq> t \<Longrightarrow> taken t' y (debit_pool t x ws) = taken t' y ws"
proof -
  show "finite (dom (debit_pool t x ws))" using assms by (auto simp: debit_pool_def split: option.splits)
  show "wealth (debit_pool t x ws) + taken t x ws = wealth ws"
  proof (cases "ws (sink_address t)")
    case (Some w)
    have "wallet_value (w\<lparr>balance := saturating_sub (balance w) x\<rparr>) + taken t x ws = wallet_value w + 0"
      by (simp add: Some taken_def wallet_value_def unat_saturating_sub min_def)
    from wallet_move [OF assms Some this] show ?thesis
      by (cases "x > 0") (auto simp: debit_pool_def Some taken_def word_gt_0)
  qed (simp add: debit_pool_def taken_def)
  show "t' \<noteq> t \<Longrightarrow> taken t' y (debit_pool t x ws) = taken t' y ws"
    by (auto simp: debit_pool_def taken_def split: option.splits)
qed

lemma refund_takes:
  assumes "finite (dom ws)"
    and "ws' = debit_pool InsuranceFund (sa_insurance_fund sa) (debit_pool Treasury (sa_treasury sa)
                 (debit_pool RelayRewards (sa_relay_pool sa) (debit_pool ValidatorRewards (sa_validator_pool sa) ws)))"
  shows "finite (dom ws') \<and> wealth ws' + taken_back sa ws = wealth ws"
proof -
  let ?w1 = "debit_pool ValidatorRewards (sa_validator_pool sa) ws"
  let ?w2 = "debit_pool RelayRewards (sa_relay_pool sa) ?w1"
  let ?w3 = "debit_pool Treasury (sa_treasury sa) ?w2"
  note d1 = debit_pool_takes [OF assms(1), where t = ValidatorRewards and x = "sa_validator_pool sa"]
  note d2 = debit_pool_takes [OF d1(1), where t = RelayRewards and x = "sa_relay_pool sa"]
  note d3 = debit_pool_takes [OF d2(1), where t = Treasury and x = "sa_treasury sa"]
  note d4 = debit_pool_takes [OF d3(1), where t = InsuranceFund and x = "sa_insurance_fund sa"]
  show ?thesis using d1(2) d2(2) d3(2) d4(1,2) unfolding assms(2) taken_back_def
    by (simp add: d1(3) d2(3) d3(3))
qed

text \<open>Every operation that changes the chain, successful or refused, with the amounts it creates and destroys. Refused calls of the other operations return the chain they were
  given. Beside mints, burns and fees, coins are created by a withdrawal of more than the wallet has staked, by a release of an escrow that has already paid or whose two balances
  overflow, by a transfer at a burn rate above 100 percent; a wallet that is created over an existing one destroys what that one held.\<close>

inductive chain_step :: "currency_chain \<Rightarrow> nat \<Rightarrow> nat \<Rightarrow> currency_chain \<Rightarrow> bool" where
  step_create: "create_wallet u x c = (c', w) \<Longrightarrow> chain_step c (unat x) (wallet_value (wallet_entry (wallets c) u)) c'"
| step_transfer: "chain_transfer now i bi src dst x c = Inr (c', j) \<Longrightarrow>
    chain_step c (unat (x - burn_of c x) - unat x) (unat x - unat (x - burn_of c x)) c'"
| step_internal: "transfer_internal now i src dst x reason c = Inr (c', j) \<Longrightarrow> chain_step c 0 0 c'"
| step_pay: "pay_from_pool now t ds reason c = (c', rs) \<Longrightarrow> chain_step c 0 0 c'"
| step_message_fee: "collect_message_fee now i rid sender relay x c = Inr (c', j) \<Longrightarrow> chain_step c 0 0 c'"
| step_fee_debit: "debit_for_protocol_fee now who x i c = Inr c' \<Longrightarrow> chain_step c 0 (unat x) c'"
| step_fund: "fund_pool t x c = (c', Inr un) \<Longrightarrow> chain_step c (unat x) 0 c'"
| step_fund_refused: "fund_pool t x c = (c', Inl er) \<Longrightarrow> chain_step c 0 0 c'"
| step_direct: "credit_direct_recipient now i who x reason c = (c', Inr j) \<Longrightarrow> chain_step c (unat x) 0 c'"
| step_direct_refused: "credit_direct_recipient now i who x reason c = (c', Inl er) \<Longrightarrow> chain_step c 0 0 c'"
| step_refund: "refund_protocol_fee now i who x sa c = (c', Inr j) \<Longrightarrow> x \<noteq> 0 \<Longrightarrow> chain_step c (unat x) (taken_back sa (wallets c)) c'"
| step_refund_nothing: "refund_protocol_fee now i who 0 sa c = (c', res) \<Longrightarrow> chain_step c 0 0 c'"
| step_refund_refused: "refund_protocol_fee now i who x sa c = (c', Inl er) \<Longrightarrow> chain_step c 0 (taken_back sa (wallets c)) c'"
| step_stake: "stake now i u x lock c = Inr (c', j) \<Longrightarrow> chain_step c 0 0 c'"
| step_claim: "chain_claim_rewards now i u c = Inr (c', j) \<Longrightarrow> chain_step c 0 0 c'"
| step_mint: "mint_rewards now i mi ty u x why c = Inr (c', j) \<Longrightarrow> chain_step c (unat x) 0 c'"
| step_accumulate: "accumulate_rewards u bl ms ep c = Inr (c', y) \<Longrightarrow> wallets c u = Some w \<Longrightarrow> chain_step c (unat (new_rewards w bl ms ep)) 0 c'"
| step_slash: "slash_stake now i bi u x c = Inr (c', j) \<Longrightarrow> chain_step c 0 (unat x) c'"
| step_bond: "create_storage_bond now i u bid key x bytes days c = Inr (c', br) \<Longrightarrow> chain_step c 0 0 c'"
| step_unbond: "initiate_unbonding now i bid days c = Inr (c', j) \<Longrightarrow> chain_step c 0 0 c'"
| step_withdraw_bond: "complete_bond_withdrawal now i u bid c = (c', Inr (x, j)) \<Longrightarrow> wallets c u = Some w \<Longrightarrow>
    chain_step c (unat x - unat (staked w)) 0 c'"
| step_bond_refused: "complete_bond_withdrawal now i u bid c = (c', Inl er) \<Longrightarrow> chain_step c 0 0 c'"
| step_genesis: "transfer_from_genesis f now i u x s c = Inr (c', j) \<Longrightarrow> chain_step c 0 0 c'"
| step_unstake: "initiate_stake_unbonding_with_type now i u x s c = (c', ub) \<Longrightarrow> chain_step c 0 0 c'"
| step_complete: "complete_unbonding now u target c = (c', Inr x) \<Longrightarrow> wallets c u = Some w \<Longrightarrow> chain_step c (unat x - unat (staked w)) 0 c'"
| step_complete_refused: "complete_unbonding now u target c = (c', Inl er) \<Longrightarrow> chain_step c 0 0 c'"
| step_cancel: "cancel_unbonding u i c = Inr c' \<Longrightarrow> chain_step c 0 0 c'"
| step_lock: "lock_channel_escrow now i cid sid rid x c = Inr (c', lr) \<Longrightarrow> chain_step c 0 0 c'"
| step_release: "release_channel_escrow now i cid sb rb disp c = Inr (c', rr) \<Longrightarrow> escrows c cid = Some e \<Longrightarrow>
    chain_step c (unat sb + unat rb - escrow_value e) 0 c'"
| step_dispute: "initiate_channel_dispute now cid window c = Inr (c', dl) \<Longrightarrow> chain_step c 0 0 c'"
| step_record: "chain_step c 0 0 (record_payment h x recipient c)"
| step_redeem: "chain_step c 0 0 (mark_token_redeemed th c)"
| step_count: "increment_address_count u c = (c', n) \<Longrightarrow> chain_step c 0 0 c'"

lemma chain_step_balance:
  assumes "chain_step c x y c'" and "chain_finite c" and "coins c + x < 2 ^ 64"
  shows "chain_finite c' \<and> coins c' + y = coins c + x"
  using assms
proof (induction rule: chain_step.induct)
  case (step_transfer now i bi src dst x c c' j)
  then show ?case using transfer_step by blast
next
  case (step_create u x c c' w)
  have w: "wallets c' = (wallets c)(u \<mapsto> (empty_wallet u)\<lparr>balance := x\<rparr>)" "escrows c' = escrows c" "genesis_allocation c' = genesis_allocation c"
    using step_create.hyps by (auto simp: create_wallet_def Let_def)
  show ?case using wallet_step [OF _ step_create.prems(1) w, of "wallet_value (wallet_entry (wallets c) u)" "unat x"]
    by (simp add: wallet_value_def empty_wallet_def)
next
  case (step_fund_refused t x c c' er)
  then show ?case using checked_credit_refused [of "sink_address t" x "wallets c" _ er]
    by (auto simp: fund_pool_def coins_def chain_finite_def split: if_splits prod.splits)
next
  case (step_direct_refused now i who x reason c c' er)
  then show ?case using checked_credit_refused [of who x "wallets c" _ er]
    by (auto simp: credit_direct_recipient_def coins_def chain_finite_def split: if_splits prod.splits sum.splits)
next
  case (step_refund now i who x sa c c' j)
  define ws where "ws = debit_pool InsuranceFund (sa_insurance_fund sa) (debit_pool Treasury (sa_treasury sa)
                 (debit_pool RelayRewards (sa_relay_pool sa) (debit_pool ValidatorRewards (sa_validator_pool sa) (wallets c))))"
  have got: "finite (dom ws)" "wealth ws + taken_back sa (wallets c) = wealth (wallets c)"
    using refund_takes [OF _ ws_def] step_refund.prems(1) by (simp_all add: chain_finite_def)
  obtain ws' where ws': "checked_credit who x ws = (ws', Inr ())" "wallets c' = ws'" "escrows c' = escrows c" "genesis_allocation c' = genesis_allocation c"
    using step_refund.hyps by (auto simp: refund_protocol_fee_def ws_def add_tx_def Let_def split: prod.splits sum.splits)
  have "chain_finite c' \<and> coins c' = coins (c\<lparr>wallets := ws\<rparr>) + unat x"
    by (rule checked_credit_step [of who x "c\<lparr>wallets := ws\<rparr>" c' "()"]) (use ws' got step_refund.prems(1) in \<open>simp_all add: chain_finite_def\<close>)
  then show ?case using got(2) by (simp add: coins_def)
next
  case (step_refund_refused now i who x sa c c' er)
  define ws where "ws = debit_pool InsuranceFund (sa_insurance_fund sa) (debit_pool Treasury (sa_treasury sa)
                 (debit_pool RelayRewards (sa_relay_pool sa) (debit_pool ValidatorRewards (sa_validator_pool sa) (wallets c))))"
  have got: "finite (dom ws)" "wealth ws + taken_back sa (wallets c) = wealth (wallets c)"
    using refund_takes [OF _ ws_def] step_refund_refused.prems(1) by (simp_all add: chain_finite_def)
  obtain ws' where ws': "checked_credit who x ws = (ws', Inl er)" "c' = c\<lparr>wallets := ws'\<rparr>"
    using step_refund_refused.hyps by (auto simp: refund_protocol_fee_def ws_def Let_def split: if_splits prod.splits sum.splits)
  then show ?case using checked_credit_refused [OF ws'(1) got(1)] got(2) step_refund_refused.prems(1) by (simp add: coins_def chain_finite_def)
next
  case (step_withdraw_bond now i u bid c c' x j w)
  then show ?case using bond_withdrawal_step by simp
next
  case (step_bond_refused now i u bid c c' er)
  then show ?case by (auto simp: complete_bond_withdrawal_def coins_def chain_finite_def Let_def split: option.splits if_splits)
next
  case (step_complete now u target c c' x w)
  then show ?case using complete_unbonding_step by simp
next
  case (step_complete_refused now u target c c' er)
  then show ?case by (auto simp: complete_unbonding_def coins_def chain_finite_def Let_def split: option.splits if_splits prod.splits sum.splits)
next
  case (step_release now i cid sb rb disp c c' rr e)
  then show ?case using release_step by simp
next
  case (step_message_fee now i rid sender relay x c c' j)
  then obtain ws where "debit sender x (wallets c) = Inr ws" "wallets c' = credit relay x ws" "escrows c' = escrows c"
    "genesis_allocation c' = genesis_allocation c" by (auto simp: collect_message_fee_def Let_def add_tx_def split: sum.splits)
  then show ?case using debit_credit_step step_message_fee.prems by simp
next
  case (step_fee_debit now who x i c c')
  show ?case
  proof (cases "x = 0")
    case False
    then obtain ws where ws: "debit who x (wallets c) = Inr ws" "wallets c' = ws" "escrows c' = escrows c"
      "genesis_allocation c' = genesis_allocation c"
      using step_fee_debit.hyps by (auto simp: debit_for_protocol_fee_def add_tx_def split: sum.splits)
    then show ?thesis using debit_ok [OF ws(1)] step_fee_debit.prems by (simp add: coins_def chain_finite_def)
  qed (use step_fee_debit in \<open>simp add: debit_for_protocol_fee_def\<close>)
next
  case (step_fund t x c c' un)
  then show ?case using checked_credit_step [of "sink_address t" x c c'] 
    by (auto simp: fund_pool_def split: if_splits prod.splits)
next
  case (step_direct now i who x reason c c' j)
  then show ?case using checked_credit_step [of who x c c']
    by (auto simp: credit_direct_recipient_def add_tx_def split: if_splits prod.splits sum.splits)
next
  case (step_claim now i u c c' j)
  then obtain w where w: "wallets c u = Some w"
    "wallets c' = (wallets c)(u \<mapsto> w\<lparr>balance := balance w + rewards_pending w, rewards_pending := 0\<rparr>)" "escrows c' = escrows c"
    "genesis_allocation c' = genesis_allocation c" by (auto simp: chain_claim_rewards_def add_tx_def split: option.splits)
  have "wallet_value w < 2 ^ 64" using entry_bound [OF step_claim.prems(1), of u] step_claim.prems(2) w(1) by simp
  then show ?case using wallet_step [OF _ step_claim.prems(1) w(2-4), of 0 0] value_claim w(1) by simp
next
  case (step_mint now i mi ty u x why c c' j)
  let ?w = "wallet_entry (wallets c) u"
  have w: "wallets c' = (wallets c)(u \<mapsto> ?w\<lparr>rewards_pending := rewards_pending ?w + x\<rparr>)" "escrows c' = escrows c"
    "genesis_allocation c' = genesis_allocation c" using step_mint.hyps by (auto simp: mint_rewards_def Let_def add_tx_def split: if_splits)
  have "wallet_value ?w + unat x < 2 ^ 64" using entry_bound [OF step_mint.prems(1), of u] step_mint.prems(2) by simp
  then show ?case using wallet_step [OF _ step_mint.prems(1) w, of 0 "unat x"] value_reward by simp
next
  case (step_accumulate u bl ms ep c c' y w)
  then have w: "wallets c' = (wallets c)(u \<mapsto> w\<lparr>rewards_pending := rewards_pending w + new_rewards w bl ms ep\<rparr>)"
    "escrows c' = escrows c" "genesis_allocation c' = genesis_allocation c" by (auto simp: accumulate_rewards_def Let_def)
  have "wallet_value w + unat (new_rewards w bl ms ep) < 2 ^ 64"
    using entry_bound [OF step_accumulate.prems(1), of u] step_accumulate.prems(2) step_accumulate.hyps(2) by simp
  then show ?case using wallet_step [OF _ step_accumulate.prems(1) w, of 0] value_reward step_accumulate.hyps(2) by simp
next
  case (step_slash now i bi u x c c' j)
  then obtain w where w: "wallets c u = Some w" "x \<le> staked w" "wallets c' = (wallets c)(u \<mapsto> w\<lparr>staked := staked w - x\<rparr>)"
    "escrows c' = escrows c" "genesis_allocation c' = genesis_allocation c"
    by (auto simp: slash_stake_def add_tx_def not_less split: option.splits if_splits)
  have "wallet_value (w\<lparr>staked := staked w - x\<rparr>) + unat x = wallet_value w"
    using w(2) by (simp add: wallet_value_def unat_sub_no_underflow word_le_nat_alt)
  then show ?case using wallet_step [OF _ step_slash.prems(1) w(3-5), of "unat x" 0] w(1) by simp
next
  case (step_unbond now i bid days c c' j)
  then show ?case by (auto simp: initiate_unbonding_def coins_def chain_finite_def split: option.splits if_splits)
next
  case (step_unstake now i u x s c c' ub)
  then show ?case by (auto simp: initiate_stake_unbonding_with_type_def Let_def coins_def chain_finite_def add_tx_def split: option.splits if_splits)
next
  case (step_cancel u i c c')
  then show ?case by (auto simp: cancel_unbonding_def coins_def chain_finite_def split: option.splits sum.splits)
next
  case (step_record c h x recipient)
  then show ?case by (simp add: record_payment_def coins_def chain_finite_def)
next
  case (step_redeem c th)
  then show ?case by (simp add: mark_token_redeemed_def coins_def chain_finite_def)
next
  case (step_count u c c' n)
  then show ?case by (auto simp: increment_address_count_def Let_def coins_def chain_finite_def)
qed (simp_all add: transfer_internal_step pay_from_pool_step stake_step bond_step genesis_step lock_step dispute_step refund_protocol_fee_def)

interpretation chain: ledger chain_finite coins "2 ^ 64" chain_step
  by unfold_locales (rule chain_step_balance)
section \<open>Theorems\<close>

text \<open>C6. The coins of the chain balance: along any history of the operations that change it, the sum of all wallets, open escrows and undistributed genesis allocation changes exactly
  by the amounts the steps create and destroy, as long as it stays below the range of the 64-bit counters; when they create and destroy nothing it is constant. Created are mints,
  rewards, funded pools, credited and refunded fees and the balance of a new wallet; destroyed are burns, slashed stake and debited fees. Some calls create or destroy coins without
  meaning to, and the steps count these as well: a withdrawal of a bond or an unbonding creates what it pays beyond the stake of the wallet, a release creates what it pays beyond the
  value of an escrow that is still open (all of it when the escrow has paid before), a transfer at a burn rate above 100 percent creates its wrapped credit, a refund destroys what it
  takes back from the pools, which need not be what it pays, and creating a wallet over an existing one destroys what that one held. A transfer at a burn rate of at most 100 percent
  destroys its burn and creates nothing, and so on for the others: in their regular use these amounts are zero. Delegation, which asks a remote node before it moves a balance to the
  stake, and the synchronisation with other nodes are not among the operations.\<close>

theorem coins_balance:
  assumes "ledger_run chain_step c created destroyed c'" and "chain_finite c" and "coins c + created < 2 ^ 64"
  shows "coins c' + destroyed = coins c + created"
  using chain.run_balance [OF assms] by simp

text \<open>The records of a queue after a withdrawal.\<close>

lemma mark_ready_settled:
  "mark_ready now None rs = (rs', Inr (x, ids)) \<Longrightarrow> r \<in> set rs' \<Longrightarrow> ub_status r = UnbondPending \<Longrightarrow> now < available_at r"
  by (induction now "None :: uuid option" rs arbitrary: rs' x ids rule: mark_ready.induct)
    (auto split: if_splits prod.splits sum.splits)

lemma mark_ready_idle:
  "(\<And>r. r \<in> set rs \<Longrightarrow> ub_status r = UnbondPending \<Longrightarrow> now < available_at r) \<Longrightarrow> mark_ready now None rs = (rs, Inr (0, []))"
  by (induction rs) auto

lemma mark_ready_sum:
  "mark_ready now None rs = (rs', Inr (x, ids)) \<Longrightarrow>
    x = sum_list (map ub_amount (filter (\<lambda>r. ub_status r = UnbondPending \<and> available_at r \<le> now) rs))"
  by (induction now "None :: uuid option" rs arbitrary: rs' x ids rule: mark_ready.induct)
    (auto split: if_splits prod.splits sum.splits simp: not_less)

lemma fold_add_tx_queue [simp]: "unbonding_queue (fold (\<lambda>(i, x). add_tx (t i x)) ids c) = unbonding_queue c"
  by (induction ids arbitrary: c) (auto simp: add_tx_def)

text \<open>An unbonding is paid after its cooldown, and once: a withdrawal of everything that is ready pays the sum of the pending
  records whose time has come, and the same call again pays nothing.\<close>

theorem unbonding_paid_once:
  assumes "complete_unbonding now u None c = (c', Inr x)"
  shows "x = sum_list (map ub_amount (filter (\<lambda>r. ub_status r = UnbondPending \<and> available_at r \<le> now) (queue_of c u)))
    \<and> snd (complete_unbonding now u None c') = Inl InvalidInput"
proof -
  obtain rs rs' ids w where q: "unbonding_queue c u = Some rs" "mark_ready now None rs = (rs', Inr (x, ids))" "wallets c u = Some w"
    and c': "unbonding_queue c' u = Some (map (\<lambda>r. if ub_id r \<in> fst ` set ids then r\<lparr>ub_status := UnbondCompleted\<rparr> else r) rs')"
    using assms by (auto simp: complete_unbonding_def Let_def split: option.splits prod.splits sum.splits if_splits)
  let ?rs2 = "map (\<lambda>r. if ub_id r \<in> fst ` set ids then r\<lparr>ub_status := UnbondCompleted\<rparr> else r) rs'"
  have "now < available_at r" if "r \<in> set ?rs2" "ub_status r = UnbondPending" for r
    using that mark_ready_settled [OF q(2)] by (auto split: if_splits)
  then have "mark_ready now None ?rs2 = (?rs2, Inr (0, []))" by (rule mark_ready_idle)
  then have "snd (complete_unbonding now u None c') = Inl InvalidInput" by (simp add: complete_unbonding_def c' Let_def)
  then show ?thesis using mark_ready_sum [OF q(2)] q(1) by (simp add: queue_of_def)
qed

text \<open>The withdrawal of a storage bond does not check whose bond it is: any user with a wallet withdraws any bond that is due, and if
  that user has no stake the amount is created out of nothing.\<close>

theorem bond_withdrawn_by_anyone:
  assumes "storage_bonds_tab c bid = Some b" and "sb_status b = BondUnbonding" and "expires_at b \<le> now"
    and "wallets c u = Some w" and "staked w = 0" and "chain_finite c" and "coins c + unat (bond_amount b) < 2 ^ 64"
  shows "\<exists>c'. complete_bond_withdrawal now i u bid c = (c', Inr (bond_amount b, i))
    \<and> coins c' = coins c + unat (bond_amount b)"
proof -
  let ?w = "w\<lparr>staked := 0, balance := balance w + bond_amount b\<rparr>"
  define c' where "c' = fst (complete_bond_withdrawal now i u bid c)"
  have res: "complete_bond_withdrawal now i u bid c = (c', Inr (bond_amount b, i))"
    and c': "wallets c' = (wallets c)(u \<mapsto> ?w)" "escrows c' = escrows c" "genesis_allocation c' = genesis_allocation c"
    using assms(1-5) by (simp_all add: c'_def complete_bond_withdrawal_def Let_def add_tx_def saturating_sub_def)
  have "unat (balance w) + unat (bond_amount b) < 2 ^ LENGTH(64)"
    using entry_bound [OF assms(6), of u] assms(4,7) by (simp add: wallet_value_def)
  then have "wallet_value ?w + 0 = wallet_value (wallet_entry (wallets c) u) + unat (bond_amount b)"
    using assms(4,5) by (simp add: wallet_value_def unat_add_no_overflow)
  from wallet_step [OF this assms(6) c'] res show ?thesis by auto
qed

text \<open>An escrow released in a dispute can be released again: the status it gets is not the one the release refuses. Every further
  release creates its capacity once more, and leaves the escrow as it was.\<close>

theorem disputed_escrow_released_again:
  assumes "escrows c cid = Some e" and "ce_status e = EscrowDisputed" and "unat sb + unat rb = unat (ce_capacity e)"
    and "chain_finite c" and "coins c + unat (ce_capacity e) < 2 ^ 64"
  shows "\<exists>c' r e'. release_channel_escrow now i cid sb rb True c = Inr (c', r) \<and> coins c' = coins c + unat (ce_capacity e)
    \<and> escrows c' cid = Some e' \<and> ce_status e' = EscrowDisputed \<and> ce_capacity e' = ce_capacity e"
proof -
  have fin: "finite (dom (wallets c))" "finite (dom (escrows c))" using assms(4) by (simp_all add: chain_finite_def)
  have "of_nat (unat sb + unat rb) = ce_capacity e" using assms(3) by simp
  then have "sb + rb = ce_capacity e" by simp
  then obtain c' r where rel: "release_channel_escrow now i cid sb rb True c = Inr (c', r)"
    using assms(1,2) by (simp add: release_channel_escrow_def Let_def)
  have "wealth (wallets c) + unat sb + unat rb < 2 ^ 64" using assms(3,5) by (simp add: coins_def)
  note w = release_wallets [OF rel assms(1) fin(1) this]
  obtain e' where e': "escrows c' = (escrows c)(cid \<mapsto> e')" "ce_capacity e' = ce_capacity e" "ce_status e' = EscrowDisputed"
    using w(4) by auto
  have "map_total escrow_value (escrows c') = map_total escrow_value (escrows c)"
    unfolding e'(1) using escrow_upd [OF fin(2) assms(1), of e'] e'(3) assms(2) by (simp add: escrow_value_def escrow_open_def)
  then have "coins c' = coins c + unat (ce_capacity e)" using w(2,5) assms(3) by (simp add: coins_def)
  then show ?thesis using rel e' by auto
qed

text \<open>A stake that is slashed while it is being unbonded is paid out all the same: the record in the queue is not reduced, so after
  the cooldown the slashed amount is created again.\<close>

theorem slashed_unbonding_paid:
  assumes "wallets c u = Some w" and "staked w = x" and "x \<noteq> 0" and "chain_finite c" and "coins c < 2 ^ 64" and "queue_of c u = []"
  shows "\<exists>c1 r c2 j c3. initiate_stake_unbonding now i u x c = (c1, Inr r) \<and> slash_stake now i' bi u x c1 = Inr (c2, j)
    \<and> coins c2 + unat x = coins c
    \<and> complete_unbonding (available_at r) u None c2 = (c3, Inr x) \<and> coins c3 = coins c"
proof -
  define r where "r = \<lparr>ub_id = i, ub_user_id = u, ub_amount = x, initiated_at = now, available_at = now + 1209600,
    node_type = ''validator'', ub_operator = None, ub_status = UnbondPending\<rparr>"
  define c1 where "c1 = fst (initiate_stake_unbonding now i u x c)"
  have init: "initiate_stake_unbonding now i u x c = (c1, Inr r)" and w1: "wallets c1 = wallets c" "escrows c1 = escrows c"
    "genesis_allocation c1 = genesis_allocation c" and q1: "unbonding_queue c1 u = Some [r]"
    using assms(1,2,3,6) by (simp_all add: c1_def r_def initiate_stake_unbonding_def initiate_stake_unbonding_with_type_def Let_def
        pending_unbond_total_def cooldown_days_def add_tx_def)
  have c1: "chain_finite c1" "coins c1 = coins c" using assms(4) same_coins [OF w1] by simp_all
  obtain c2 where slash: "slash_stake now i' bi u x c1 = Inr (c2, i')"
    and w2: "wallets c2 = (wallets c)(u \<mapsto> w\<lparr>staked := 0\<rparr>)" "unbonding_queue c2 u = Some [r]"
    using assms(1-3) w1(1) q1 by (simp add: slash_stake_def add_tx_def)
  have c2: "chain_finite c2" "coins c2 + unat x = coins c"
    using chain_step_balance [OF step_slash [OF slash]] c1 assms(5) by auto
  define c3 where "c3 = fst (complete_unbonding (available_at r) u None c2)"
  have paid: "complete_unbonding (available_at r) u None c2 = (c3, Inr x)"
    and c3: "wallets c3 = (wallets c2)(u \<mapsto> w\<lparr>staked := 0, balance := balance w + x\<rparr>)" "escrows c3 = escrows c2"
      "genesis_allocation c3 = genesis_allocation c2"
    using w2 assms(3) by (simp_all add: c3_def complete_unbonding_def Let_def r_def saturating_sub_def add_tx_def)
  have "unat (balance w) + unat x < 2 ^ LENGTH(64)"
    using entry_bound [OF assms(4), of u] assms(1,2,5) by (simp add: wallet_value_def)
  then have "wallet_value (w\<lparr>staked := 0, balance := balance w + x\<rparr>) + 0 = wallet_value (wallet_entry (wallets c2) u) + unat x"
    using w2(1) by (simp add: wallet_value_def unat_add_no_overflow)
  from wallet_step [OF this c2(1) c3] c2(2) have "coins c3 = coins c" by simp
  then show ?thesis using init slash paid c2(2) by blast
qed

text \<open>The stake that is reported for admission checks is the last amount staked: neither an earlier stake nor a slash changes it.\<close>

theorem reported_stake_is_last:
  assumes "stake now i u x lock c = Inr (c1, j)" and "slash_stake now' i' bi u y c1 = Inr (c2, j')"
  shows "get_staked_amount u c2 = x"
  using assms by (auto simp: stake_def slash_stake_def get_staked_amount_def add_tx_def split: option.splits if_splits)

section \<open>Witnesses\<close>

definition demo_chain :: currency_chain where
  "demo_chain = fst (create_wallet 9 1000 (fst (create_wallet 8 500 (chain_new 0 0 None))))"

lemma demo_wallets [simp]: "wallets demo_chain 9 = Some ((empty_wallet 9)\<lparr>balance := 1000\<rparr>)"
  "wallets demo_chain 8 = Some ((empty_wallet 8)\<lparr>balance := 500\<rparr>)" "escrows demo_chain = Map.empty"
  "storage_bonds_tab demo_chain = Map.empty" "unbonding_queue demo_chain = Map.empty" "chain_tokenomics demo_chain = None"
  by (simp_all add: demo_chain_def create_wallet_def chain_new_def Let_def)

lemma sinks_set: "sink_address ` set all_pools = {1, 2, 3, 4, 5, 6}"
  by (auto simp: all_pools_def)

lemma demo_finite: "chain_finite demo_chain"
proof -
  have "dom (wallets demo_chain) \<subseteq> insert 9 (insert 8 (sink_address ` set all_pools))"
    by (auto simp: demo_chain_def create_wallet_def chain_new_def Let_def split: if_splits)
  then show ?thesis by (auto simp: chain_finite_def intro: finite_subset)
qed

lemma demo_coins: "coins demo_chain = 100000001500"
proof -
  have "chain_finite (chain_new 0 0 None)" "wealth (wallets (chain_new 0 0 None)) = 0"
    by (auto simp: chain_finite_def chain_new_def wealth_def map_total_def dom_def empty_wallet_def wallet_value_def)
  then have "wealth (wallets demo_chain) = 1500"
    using wealth_upd [of "wallets (chain_new 0 0 None)" 8 "(empty_wallet 8)\<lparr>balance := 500\<rparr>"]
      wealth_upd [of "(wallets (chain_new 0 0 None))(8 \<mapsto> (empty_wallet 8)\<lparr>balance := 500\<rparr>)" 9 "(empty_wallet 9)\<lparr>balance := 1000\<rparr>"]
    by (simp add: demo_chain_def create_wallet_def Let_def chain_finite_def wallet_entry_def chain_new_def sinks_set empty_wallet_def wallet_value_def)
  then show ?thesis
    by (simp add: coins_def demo_chain_def create_wallet_def chain_new_def Let_def default_genesis_allocation_def supply_config_default_def)
qed

theorem coins_balance_witness:
  "\<exists>c' j. chain_transfer 0 1 2 9 8 1000 demo_chain = Inr (c', j) \<and> coins c' + 10 = coins demo_chain"
proof -
  obtain c' j where t: "chain_transfer 0 1 2 9 8 1000 demo_chain = Inr (c', j)"
    by (simp add: chain_transfer_def debit_def Let_def empty_wallet_def)
  have "chain_step demo_chain 0 (unat (burn_of demo_chain 1000)) c'"
    using step_transfer [OF t] transfer_burns [of demo_chain 1000] by (simp add: burn_rate_ok_def)
  moreover have "unat (burn_of demo_chain 1000) = 10" by (simp add: burn_of_def DEFAULT_BURN_RATE_BPS_def)
  ultimately have "ledger_run chain_step demo_chain (0 + 0) (0 + 10) c'" using run_step [OF run_none] by metis
  from coins_balance [OF this demo_finite] demo_coins t show ?thesis by simp
qed

definition demo_staked :: currency_chain where
  "demo_staked = (case stake 0 1 9 600 0 demo_chain of Inr (c, _) \<Rightarrow> c | Inl _ \<Rightarrow> demo_chain)"

lemma demo_staked_step: "stake 0 1 9 600 0 demo_chain = Inr (demo_staked, 1)"
  by (simp add: demo_staked_def stake_def empty_wallet_def)

lemma demo_staked_wallet:
  "\<exists>w. wallets demo_staked 9 = Some w \<and> staked w = 600" "queue_of demo_staked 9 = []" "chain_finite demo_staked" "coins demo_staked < 2 ^ 64"
  using stake_step [OF demo_staked_step demo_finite] demo_coins
  by (simp_all add: demo_staked_def stake_def empty_wallet_def add_tx_def queue_of_def)

theorem unbonding_paid_once_witness:
  "\<exists>c1 r c2. initiate_stake_unbonding 0 2 9 600 demo_staked = (c1, Inr r) \<and> complete_unbonding 1209600 9 None c1 = (c2, Inr 600)
    \<and> snd (complete_unbonding 1209600 9 None c2) = Inl InvalidInput"
proof -
  obtain w where w: "wallets demo_staked 9 = Some w" "staked w = 600" using demo_staked_wallet(1) by blast
  define c1 where "c1 = fst (initiate_stake_unbonding 0 2 9 600 demo_staked)"
  have i: "\<exists>r. initiate_stake_unbonding 0 2 9 600 demo_staked = (c1, Inr r)"
    using w demo_staked_wallet(2) by (simp add: c1_def initiate_stake_unbonding_def initiate_stake_unbonding_with_type_def Let_def
        pending_unbond_total_def)
  have "\<exists>c2. complete_unbonding 1209600 9 None c1 = (c2, Inr 600)"
    using w demo_staked_wallet(2) by (simp add: c1_def initiate_stake_unbonding_def initiate_stake_unbonding_with_type_def Let_def
        pending_unbond_total_def complete_unbonding_def add_tx_def cooldown_days_def)
  then obtain c2 where "complete_unbonding 1209600 9 None c1 = (c2, Inr 600)" by blast
  then show ?thesis using unbonding_paid_once [of 1209600 9 c1 c2 600] i by blast
qed

definition demo_bond :: storage_bond where
  "demo_bond = \<lparr>bond_id = 5, user_key = 0, bond_amount = 700, storage_bytes = 0, bond_duration_days = 1, expires_at = 10, bond_tx_id = 0,
     sb_status = BondUnbonding, bond_created_at = 0\<rparr>"

theorem bond_withdrawn_by_anyone_witness:
  "\<exists>c'. complete_bond_withdrawal 10 3 8 5 (demo_chain\<lparr>storage_bonds_tab := [5 \<mapsto> demo_bond]\<rparr>) = (c', Inr (700, 3))
    \<and> coins c' = coins demo_chain + 700"
proof -
  let ?c = "demo_chain\<lparr>storage_bonds_tab := [5 \<mapsto> demo_bond]\<rparr>"
  have c: "chain_finite ?c" "coins ?c = coins demo_chain" using same_coins [of ?c demo_chain] demo_finite by simp_all
  show ?thesis
    using bond_withdrawn_by_anyone [of ?c 5 demo_bond 10 8 "(empty_wallet 8)\<lparr>balance := 500\<rparr>" 3] c demo_coins
    by (simp add: demo_bond_def empty_wallet_def)
qed

definition demo_dispute :: channel_escrow where
  "demo_dispute = \<lparr>ce_channel_id = ''c'', ce_sender_id = 9, ce_receiver_id = 8, ce_capacity = 300, ce_sender_balance = 100,
     ce_receiver_balance = 200, ce_status = EscrowDisputed, ce_funding_tx_id = 0, settlement_tx_id = Some 1, ce_created_at = 0,
     ce_updated_at = 0, ce_dispute_deadline = None\<rparr>"

theorem disputed_escrow_released_again_witness:
  "\<exists>c' r. release_channel_escrow 0 4 ''c'' 100 200 True (demo_chain\<lparr>escrows := [''c'' \<mapsto> demo_dispute]\<rparr>) = Inr (c', r)
    \<and> coins c' = coins demo_chain + 300"
proof -
  let ?c = "demo_chain\<lparr>escrows := [''c'' \<mapsto> demo_dispute]\<rparr>"
  have "map_total escrow_value (escrows ?c) = 0"
    using map_total_fresh [of "Map.empty :: string \<rightharpoonup> channel_escrow" "''c''" escrow_value demo_dispute]
    by (simp add: escrow_value_def escrow_open_def demo_dispute_def)
  then have c: "chain_finite ?c" "coins ?c = coins demo_chain" using demo_finite by (simp_all add: chain_finite_def coins_def)
  show ?thesis
    using disputed_escrow_released_again [of ?c "''c''" demo_dispute 100 200 0 4] c demo_coins by (auto simp: demo_dispute_def)
qed

theorem slashed_unbonding_paid_witness:
  "\<exists>c1 r c2 j c3. initiate_stake_unbonding 0 2 9 600 demo_staked = (c1, Inr r) \<and> slash_stake 0 3 4 9 600 c1 = Inr (c2, j)
    \<and> complete_unbonding (available_at r) 9 None c2 = (c3, Inr 600) \<and> coins c3 = coins demo_staked"
proof -
  obtain w where w: "wallets demo_staked 9 = Some w" "staked w = 600" using demo_staked_wallet(1) by blast
  show ?thesis using slashed_unbonding_paid [OF w _ demo_staked_wallet(3,4,2), of 0 2 3 4] by auto
qed

theorem reported_stake_is_last_witness:
  "\<exists>c j. slash_stake 0 3 4 9 600 demo_staked = Inr (c, j) \<and> get_staked_amount 9 c = 600"
proof -
  obtain c j where s: "slash_stake 0 3 4 9 600 demo_staked = Inr (c, j)"
    using demo_staked_wallet(1) by (auto simp: slash_stake_def)
  show ?thesis using reported_stake_is_last [OF demo_staked_step s] s by blast
qed

end
