(* ===== verification/Staking.thy ===== *)
theory Staking
  imports Currency_Safety
begin

text \<open>
  Validator staking: \<^verbatim>\<open>crates/dchat-blockchain/src/staking.rs\<close>. The life cycle of a stake, the validator set, slashing by five of seven
  council signatures, rewards, and the calls to the currency chain that lock tokens and mint rewards. Times are
  nanoseconds; the text form of a user id and Ed25519 are parameters. The ordered map \<^verbatim>\<open>active_set\<close> is never written by the code.
\<close>

section \<open>Stakes\<close>

definition MIN_VALIDATOR_STAKE :: u64 where "MIN_VALIDATOR_STAKE = 10000 * MOTES_PER_DCHAT"
definition MAX_VALIDATOR_STAKE :: u64 where "MAX_VALIDATOR_STAKE = 100000000 * MOTES_PER_DCHAT"
definition UNSTAKE_COOLDOWN_SECONDS :: int where "UNSTAKE_COOLDOWN_SECONDS = 7 * 24 * 60 * 60"
definition MIN_COUNCIL_SIGNATURES :: nat where "MIN_COUNCIL_SIGNATURES = 5"

datatype slashing_severity = Minor | Moderate | Major | Critical | Malicious

fun slash_percentage :: "slashing_severity \<Rightarrow> u8" where
  "slash_percentage Minor = 1"
| "slash_percentage Moderate = 5"
| "slash_percentage Major = 15"
| "slash_percentage Critical = 50"
| "slash_percentage Malicious = 100"

fun severity_code :: "slashing_severity \<Rightarrow> u8" where
  "severity_code Minor = 0"
| "severity_code Moderate = 1"
| "severity_code Major = 2"
| "severity_code Critical = 3"
| "severity_code Malicious = 4"

definition is_permanent_ban :: "slashing_severity \<Rightarrow> bool" where
  "is_permanent_ban s \<longleftrightarrow> s = Malicious"

datatype validator_status = VPending | VActive | VInactive | VUnstaking | VSlashed | VBanned

record slashing_event =
  se_event_id :: uuid
  se_validator_id :: user_id
  se_severity :: slashing_severity
  se_reason :: string
  se_evidence :: "u8 list"
  council_signatures :: "(512 word) list"
  amount_slashed :: u64
  slashed_at :: timestamp

record validator_stake =
  validator_id :: user_id
  staked_amount :: u64
  validator_pubkey :: hash32
  vs_status :: validator_status
  staked_at :: timestamp
  activated_at :: "timestamp option"
  unstaking_initiated_at :: "timestamp option"
  unstaking_amount :: u64
  total_rewards_earned :: u64
  pending_rewards :: u64
  slashing_events :: "slashing_event list"
  total_slashed :: u64
  blocks_produced :: u64
  blocks_missed :: u64
  region :: "string option"
  endpoint :: "string option"

definition validator_new :: "timestamp \<Rightarrow> user_id \<Rightarrow> u64 \<Rightarrow> hash32 \<Rightarrow> validator_stake core_result" where
  "validator_new now u x key =
     (if x < MIN_VALIDATOR_STAKE then Inl InvalidInput
      else if x > MAX_VALIDATOR_STAKE then Inl InvalidInput
      else Inr \<lparr>validator_id = u, staked_amount = x, validator_pubkey = key, vs_status = VPending, staked_at = now,
             activated_at = None, unstaking_initiated_at = None, unstaking_amount = 0, total_rewards_earned = 0,
             pending_rewards = 0, slashing_events = [], total_slashed = 0, blocks_produced = 0, blocks_missed = 0,
             region = None, endpoint = None\<rparr>)"

definition activate :: "timestamp \<Rightarrow> validator_stake \<Rightarrow> validator_stake core_result" where
  "activate now v =
     (if vs_status v \<noteq> VPending then Inl InvalidInput
      else Inr (v\<lparr>vs_status := VActive, activated_at := Some now\<rparr>))"

definition initiate_unstake :: "timestamp \<Rightarrow> u64 \<Rightarrow> validator_stake \<Rightarrow> validator_stake core_result" where
  "initiate_unstake now x v =
     (if vs_status v \<noteq> VActive \<and> vs_status v \<noteq> VInactive then Inl InvalidInput
      else if x > staked_amount v then Inl InvalidInput
      else let remaining = staked_amount v - x in
        if remaining > 0 \<and> remaining < MIN_VALIDATOR_STAKE then Inl InvalidInput
        else let v = v\<lparr>vs_status := VUnstaking, unstaking_initiated_at := Some now, unstaking_amount := x\<rparr>
             in Inr (if remaining = 0 then v\<lparr>staked_amount := 0, vs_status := VInactive\<rparr> else v))"

text \<open>\<^verbatim>\<open>num_seconds\<close> of a duration in nanoseconds.\<close>

definition num_seconds :: "int \<Rightarrow> int" where
  "num_seconds d = div_trunc d 1000000000"

definition complete_unstake :: "timestamp \<Rightarrow> validator_stake \<Rightarrow> (validator_stake \<times> u64) core_result" where
  "complete_unstake now v =
     (if vs_status v \<noteq> VUnstaking then Inl InvalidInput
      else case unstaking_initiated_at v of
        None \<Rightarrow> Inl InvalidInput
      | Some t \<Rightarrow>
          if num_seconds (now - t) < UNSTAKE_COOLDOWN_SECONDS then Inl InvalidInput
          else Inr (v\<lparr>unstaking_amount := 0, unstaking_initiated_at := None,
                 vs_status := (if staked_amount v = 0 then VInactive else VActive)\<rparr>, unstaking_amount v))"

definition slash :: "slashing_event \<Rightarrow> validator_stake \<Rightarrow> validator_stake \<times> u64" where
  "slash ev v =
     (let x = staked_amount v * ucast (slash_percentage (se_severity ev)) div 100;
          v = v\<lparr>staked_amount := saturating_sub (staked_amount v) x, total_slashed := total_slashed v + x,
                slashing_events := slashing_events v @ [ev]\<rparr>
      in (v\<lparr>vs_status := (if is_permanent_ban (se_severity ev) then VBanned
                          else if staked_amount v < MIN_VALIDATOR_STAKE then VInactive else VSlashed)\<rparr>, x))"

definition add_reward :: "u64 \<Rightarrow> validator_stake \<Rightarrow> validator_stake" where
  "add_reward x v = v\<lparr>pending_rewards := pending_rewards v + x, total_rewards_earned := total_rewards_earned v + x\<rparr>"

definition claim_rewards :: "validator_stake \<Rightarrow> validator_stake \<times> u64" where
  "claim_rewards v = (v\<lparr>pending_rewards := 0\<rparr>, pending_rewards v)"

definition record_block_produced :: "validator_stake \<Rightarrow> validator_stake" where
  "record_block_produced v = v\<lparr>blocks_produced := blocks_produced v + 1\<rparr>"

definition record_block_missed :: "validator_stake \<Rightarrow> validator_stake" where
  "record_block_missed v = v\<lparr>blocks_missed := blocks_missed v + 1\<rparr>"

definition is_eligible :: "validator_stake \<Rightarrow> bool" where
  "is_eligible v \<longleftrightarrow> (vs_status v = VActive \<or> vs_status v = VSlashed) \<and> staked_amount v \<ge> MIN_VALIDATOR_STAKE"

section \<open>The manager\<close>

datatype staking_tx_type = TxStake | TxUnstake | TxIncreaseStake | TxClaimRewards | TxSlash

record staking_tx =
  st_tx_id :: uuid
  st_tx_type :: staking_tx_type
  st_validator_id :: user_id
  st_amount :: u64
  st_status :: string
  st_block_height :: u64
  st_created_at :: timestamp

record claim_receipt =
  rc_validator_id :: user_id
  rc_amount :: u64
  rc_tx_id :: string
  rc_claimed_at :: timestamp

record staking_manager =
  validators :: "user_id \<rightharpoonup> validator_stake"
  pending_transactions :: "uuid \<rightharpoonup> staking_tx"
  slashing_history :: "slashing_event list"
  sm_chain :: "currency_chain option"
  council_keys :: "hash32 list"

definition staking_new :: "currency_chain option \<Rightarrow> staking_manager" where
  "staking_new ch = \<lparr>validators = Map.empty, pending_transactions = Map.empty, slashing_history = [], sm_chain = ch, council_keys = []\<rparr>"

definition set_governance_council :: "hash32 list \<Rightarrow> staking_manager \<Rightarrow> staking_manager" where
  "set_governance_council keys m = m\<lparr>council_keys := keys\<rparr>"

definition slashing_message :: "crypto \<Rightarrow> (user_id \<Rightarrow> string) \<Rightarrow> user_id \<Rightarrow> slashing_severity \<Rightarrow> string \<Rightarrow> u8 list \<Rightarrow> u8 list" where
  "slashing_message cr show_id u sev reason ev =
     string_bytes (show_id u) @ [severity_code sev] @ string_bytes reason @ as_bytes (blake3 cr ev)"

text \<open>The inner loop: the first council member that has not signed yet and whose key verifies the signature.\<close>

fun find_signer :: "ed25519 \<Rightarrow> u8 list \<Rightarrow> 512 word \<Rightarrow> nat list \<Rightarrow> nat \<Rightarrow> hash32 list \<Rightarrow> nat option" where
  "find_signer E msg sg signed_by idx [] = None"
| "find_signer E msg sg signed_by idx (key # keys) =
     (if idx \<in> set signed_by then find_signer E msg sg signed_by (idx + 1) keys
      else if ed_verify E key msg sg then Some idx
      else find_signer E msg sg signed_by (idx + 1) keys)"

fun collect_signers :: "ed25519 \<Rightarrow> u8 list \<Rightarrow> hash32 list \<Rightarrow> (512 word) list \<Rightarrow> nat list \<Rightarrow> nat list" where
  "collect_signers E msg keys [] signed_by = signed_by"
| "collect_signers E msg keys (sg # sgs) signed_by =
     (case find_signer E msg sg signed_by 0 keys of
        None \<Rightarrow> collect_signers E msg keys sgs signed_by
      | Some idx \<Rightarrow> collect_signers E msg keys sgs (signed_by @ [idx]))"

definition verify_council_signatures ::
    "ed25519 \<Rightarrow> crypto \<Rightarrow> (user_id \<Rightarrow> string) \<Rightarrow> user_id \<Rightarrow> slashing_severity \<Rightarrow> string \<Rightarrow> u8 list \<Rightarrow> (512 word) list \<Rightarrow> staking_manager
      \<Rightarrow> unit core_result" where
  "verify_council_signatures E cr show_id u sev reason ev sgs m =
     (if council_keys m = [] then Inl InvalidInput
      else if length sgs < MIN_COUNCIL_SIGNATURES then Inl InvalidInput
      else if length (collect_signers E (slashing_message cr show_id u sev reason ev) (council_keys m) sgs []) < MIN_COUNCIL_SIGNATURES
      then Inl InvalidInput else Inr ())"

definition pending_staking_tx :: "uuid \<Rightarrow> staking_tx_type \<Rightarrow> user_id \<Rightarrow> u64 \<Rightarrow> timestamp \<Rightarrow> staking_tx" where
  "pending_staking_tx i ty u x now = \<lparr>st_tx_id = i, st_tx_type = ty, st_validator_id = u, st_amount = x, st_status = ''pending'',
     st_block_height = 0, st_created_at = now\<rparr>"

text \<open>The lock on the currency chain, when one is configured: the new chain and the id of its transaction.\<close>

definition lock_on_chain ::
    "timestamp \<Rightarrow> uuid \<Rightarrow> user_id \<Rightarrow> u64 \<Rightarrow> currency_chain option \<Rightarrow> (currency_chain option \<times> uuid option) core_result" where
  "lock_on_chain now ci u x ch =
     (case ch of
        None \<Rightarrow> Inr (None, None)
      | Some c \<Rightarrow> (case stake (num_seconds now) ci u x UNSTAKE_COOLDOWN_SECONDS c of
          Inl e \<Rightarrow> Inl e
        | Inr (c', j) \<Rightarrow> Inr (Some c', Some j)))"

definition submit_validator_stake ::
    "timestamp \<Rightarrow> uuid \<Rightarrow> uuid \<Rightarrow> user_id \<Rightarrow> u64 \<Rightarrow> hash32 \<Rightarrow> staking_manager \<Rightarrow> (staking_manager \<times> uuid) core_result" where
  "submit_validator_stake now ci i u x key m =
     (if x < MIN_VALIDATOR_STAKE then Inl InvalidInput
      else if x > MAX_VALIDATOR_STAKE then Inl InvalidInput
      else if validators m u \<noteq> None then Inl InvalidInput
      else case lock_on_chain now ci u x (sm_chain m) of
        Inl e \<Rightarrow> Inl e
      | Inr (ch, cj) \<Rightarrow>
          (case validator_new now u x key of
             Inl e \<Rightarrow> Inl e
           | Inr v \<Rightarrow>
               let j = (case cj of None \<Rightarrow> i | Some k \<Rightarrow> k)
               in Inr (m\<lparr>validators := (validators m)(u \<mapsto> v), sm_chain := ch,
                        pending_transactions := (pending_transactions m)(j \<mapsto> pending_staking_tx j TxStake u x now)\<rparr>, j)))"

definition submit_validator_unstake :: "timestamp \<Rightarrow> uuid \<Rightarrow> user_id \<Rightarrow> u64 \<Rightarrow> staking_manager \<Rightarrow> (staking_manager \<times> uuid) core_result" where
  "submit_validator_unstake now i u x m =
     (case validators m u of
        None \<Rightarrow> Inl NotFound
      | Some v \<Rightarrow> (case initiate_unstake now x v of
          Inl e \<Rightarrow> Inl e
        | Inr v' \<Rightarrow> Inr (m\<lparr>validators := (validators m)(u \<mapsto> v'),
            pending_transactions := (pending_transactions m)(i \<mapsto> pending_staking_tx i TxUnstake u x now)\<rparr>, i)))"

definition update_stake_amount ::
    "timestamp \<Rightarrow> uuid \<Rightarrow> uuid \<Rightarrow> user_id \<Rightarrow> u64 \<Rightarrow> staking_manager \<Rightarrow> (staking_manager \<times> uuid) core_result" where
  "update_stake_amount now ci i u x m =
     (case validators m u of
        None \<Rightarrow> Inl NotFound
      | Some v \<Rightarrow>
          let new_total = staked_amount v + x
          in if new_total > MAX_VALIDATOR_STAKE then Inl InvalidInput
             else case lock_on_chain now ci u x (sm_chain m) of
               Inl e \<Rightarrow> Inl e
             | Inr (ch, _) \<Rightarrow>
                 let v = v\<lparr>staked_amount := new_total,
                           vs_status := (if vs_status v = VInactive \<and> new_total \<ge> MIN_VALIDATOR_STAKE then VPending else vs_status v)\<rparr>
                 in Inr (m\<lparr>validators := (validators m)(u \<mapsto> v), sm_chain := ch,
                          pending_transactions := (pending_transactions m)(i \<mapsto> pending_staking_tx i TxIncreaseStake u x now)\<rparr>, i))"

definition query_validator_status :: "user_id \<Rightarrow> staking_manager \<Rightarrow> validator_stake core_result" where
  "query_validator_status u m = (case validators m u of None \<Rightarrow> Inl NotFound | Some v \<Rightarrow> Inr v)"

text \<open>The users in the order in which the hash map is iterated are a parameter.\<close>

definition get_active_validators :: "user_id list \<Rightarrow> staking_manager \<Rightarrow> validator_stake list" where
  "get_active_validators us m = filter is_eligible (filter_map (validators m) us)"

text \<open>\<^verbatim>\<open>sort_by\<close> is stable, as \<^const>\<open>sort_key\<close> is.\<close>

definition get_validator_set :: "user_id list \<Rightarrow> nat \<Rightarrow> staking_manager \<Rightarrow> validator_stake list" where
  "get_validator_set us n m = take n (sort_key (\<lambda>v. - int (unat (staked_amount v))) (get_active_validators us m))"

definition activate_validator :: "timestamp \<Rightarrow> user_id \<Rightarrow> staking_manager \<Rightarrow> staking_manager core_result" where
  "activate_validator now u m =
     (case validators m u of
        None \<Rightarrow> Inl NotFound
      | Some v \<Rightarrow> (case activate now v of Inl e \<Rightarrow> Inl e | Inr v' \<Rightarrow> Inr (m\<lparr>validators := (validators m)(u \<mapsto> v')\<rparr>)))"

definition manager_complete_unstake :: "timestamp \<Rightarrow> user_id \<Rightarrow> staking_manager \<Rightarrow> (staking_manager \<times> u64) core_result" where
  "manager_complete_unstake now u m =
     (case validators m u of
        None \<Rightarrow> Inl NotFound
      | Some v \<Rightarrow> (case complete_unstake now v of
          Inl e \<Rightarrow> Inl e
        | Inr (v', x) \<Rightarrow> Inr (m\<lparr>validators := (validators m)(u \<mapsto> v')\<rparr>, x)))"

definition slash_validator ::
    "ed25519 \<Rightarrow> crypto \<Rightarrow> (user_id \<Rightarrow> string) \<Rightarrow> timestamp \<Rightarrow> uuid \<Rightarrow> user_id \<Rightarrow> slashing_severity \<Rightarrow> string \<Rightarrow> u8 list \<Rightarrow> (512 word) list
      \<Rightarrow> staking_manager \<Rightarrow> (staking_manager \<times> u64) core_result" where
  "slash_validator E cr show_id now i u sev reason evi sgs m =
     (case verify_council_signatures E cr show_id u sev reason evi sgs m of
        Inl e \<Rightarrow> Inl e
      | Inr _ \<Rightarrow>
          let ev = \<lparr>se_event_id = i, se_validator_id = u, se_severity = sev, se_reason = reason, se_evidence = evi,
                    council_signatures = sgs, amount_slashed = 0, slashed_at = now\<rparr>
          in case validators m u of
               None \<Rightarrow> Inl NotFound
             | Some v \<Rightarrow> (case slash ev v of
                 (v', x) \<Rightarrow> Inr (m\<lparr>validators := (validators m)(u \<mapsto> v'),
                               slashing_history := slashing_history m @ [ev\<lparr>amount_slashed := x\<rparr>]\<rparr>, x)))"

definition distribute_reward :: "user_id \<Rightarrow> u64 \<Rightarrow> staking_manager \<Rightarrow> staking_manager core_result" where
  "distribute_reward u x m =
     (case validators m u of None \<Rightarrow> Inl NotFound | Some v \<Rightarrow> Inr (m\<lparr>validators := (validators m)(u \<mapsto> add_reward x v)\<rparr>))"

definition manager_claim_rewards :: "user_id \<Rightarrow> staking_manager \<Rightarrow> (staking_manager \<times> u64) core_result" where
  "manager_claim_rewards u m =
     (case validators m u of
        None \<Rightarrow> Inl NotFound
      | Some v \<Rightarrow> (case claim_rewards v of (v', x) \<Rightarrow> Inr (m\<lparr>validators := (validators m)(u \<mapsto> v')\<rparr>, x)))"

text \<open>
  A claim takes the lock on the validators twice, once to read the pending rewards and once to clear them; the mint in between is done
  without it. The chain that rewards are minted on is an argument of the call; the text of a transaction id is a parameter.
\<close>

definition claim_read :: "user_id \<Rightarrow> staking_manager \<Rightarrow> u64 core_result" where
  "claim_read u m = (case validators m u of None \<Rightarrow> Inl NotFound | Some v \<Rightarrow> Inr (pending_rewards v))"

definition claim_clear :: "timestamp \<Rightarrow> user_id \<Rightarrow> u64 \<Rightarrow> uuid \<Rightarrow> staking_manager \<Rightarrow> staking_manager" where
  "claim_clear now u x j m =
     m\<lparr>validators := (case validators m u of None \<Rightarrow> validators m | Some v \<Rightarrow> (validators m)(u \<mapsto> v\<lparr>pending_rewards := 0\<rparr>)),
       pending_transactions := (pending_transactions m)(j \<mapsto> (pending_staking_tx j TxClaimRewards u x now)\<lparr>st_status := ''confirmed''\<rparr>)\<rparr>"

definition claim_rewards_with_transfer ::
    "timestamp \<Rightarrow> uuid \<Rightarrow> uuid \<Rightarrow> (uuid \<Rightarrow> string) \<Rightarrow> string \<Rightarrow> user_id \<Rightarrow> staking_manager \<times> currency_chain
      \<Rightarrow> ((staking_manager \<times> currency_chain) \<times> claim_receipt) core_result" where
  "claim_rewards_with_transfer now ci mi show_uuid ty u = (\<lambda>(m, c).
     case claim_read u m of
       Inl e \<Rightarrow> Inl e
     | Inr x \<Rightarrow>
         if x = 0 then Inr ((m, c), \<lparr>rc_validator_id = u, rc_amount = 0, rc_tx_id = [], rc_claimed_at = now\<rparr>)
         else case mint_rewards (num_seconds now) ci mi ty u x BlockReward c of
           Inl e \<Rightarrow> Inl e
         | Inr (c', j) \<Rightarrow>
             Inr ((claim_clear now u x j m, c'), \<lparr>rc_validator_id = u, rc_amount = x, rc_tx_id = show_uuid j, rc_claimed_at = now\<rparr>))"

definition manager_block_produced :: "user_id \<Rightarrow> staking_manager \<Rightarrow> staking_manager" where
  "manager_block_produced u m =
     (case validators m u of None \<Rightarrow> m | Some v \<Rightarrow> m\<lparr>validators := (validators m)(u \<mapsto> record_block_produced v)\<rparr>)"

definition manager_block_missed :: "user_id \<Rightarrow> staking_manager \<Rightarrow> staking_manager" where
  "manager_block_missed u m =
     (case validators m u of None \<Rightarrow> m | Some v \<Rightarrow> m\<lparr>validators := (validators m)(u \<mapsto> record_block_missed v)\<rparr>)"

definition get_total_staked :: "user_id list \<Rightarrow> staking_manager \<Rightarrow> u64" where
  "get_total_staked us m = sum_list (map staked_amount (filter_map (validators m) us))"

definition get_slashing_history :: "staking_manager \<Rightarrow> slashing_event list" where
  "get_slashing_history m = slashing_history m"

section \<open>The council\<close>

lemma find_signer_sound:
  assumes "find_signer E msg sg signed_by i keys = Some j"
  shows "i \<le> j \<and> j < i + length keys \<and> j \<notin> set signed_by \<and> ed_verify E (keys ! (j - i)) msg sg"
  using assms
proof (induction keys arbitrary: i)
  case (Cons key keys)
  show ?case
  proof (cases "i \<notin> set signed_by \<and> ed_verify E key msg sg")
    case True
    with Cons.prems have "j = i" by simp
    with True show ?thesis by simp
  next
    case False
    with Cons.prems have "find_signer E msg sg signed_by (i + 1) keys = Some j"
      by (auto split: if_splits)
    from Cons.IH [OF this] show ?thesis
      by (auto simp: nth_Cons' diff_Suc split: nat.splits)
  qed
qed simp

definition signer_ok :: "ed25519 \<Rightarrow> u8 list \<Rightarrow> hash32 list \<Rightarrow> (512 word) list \<Rightarrow> nat list \<Rightarrow> bool" where
  "signer_ok E msg keys sgs js \<longleftrightarrow>
     distinct js \<and> (\<forall>j\<in>set js. j < length keys \<and> (\<exists>sg\<in>set sgs. ed_verify E (keys ! j) msg sg))"

lemma collect_signers_ok:
  assumes "signer_ok E msg keys all js" "set sgs \<subseteq> set all"
  shows "signer_ok E msg keys all (collect_signers E msg keys sgs js)"
  using assms
proof (induction sgs arbitrary: js)
  case (Cons sg sgs)
  show ?case
  proof (cases "find_signer E msg sg js 0 keys")
    case None
    with Cons show ?thesis by simp
  next
    case (Some j)
    from find_signer_sound [OF this] Cons.prems have "signer_ok E msg keys all (js @ [j])"
      by (auto simp: signer_ok_def)
    with Cons Some show ?thesis by simp
  qed
qed simp

lemma verified_signers:
  assumes "verify_council_signatures E cr sh u sev reason ev sgs m = Inr ok"
  shows "\<exists>J. J \<subseteq> {..<length (council_keys m)} \<and> MIN_COUNCIL_SIGNATURES \<le> card J
      \<and> (\<forall>j\<in>J. \<exists>sg\<in>set sgs. ed_verify E (council_keys m ! j) (slashing_message cr sh u sev reason ev) sg)"
proof -
  let ?js = "collect_signers E (slashing_message cr sh u sev reason ev) (council_keys m) sgs []"
  have "signer_ok E (slashing_message cr sh u sev reason ev) (council_keys m) sgs ?js"
    by (rule collect_signers_ok) (simp_all add: signer_ok_def)
  moreover have "MIN_COUNCIL_SIGNATURES \<le> length ?js"
    using assms by (auto simp: verify_council_signatures_def split: if_splits)
  ultimately show ?thesis
    by (intro exI [of _ "set ?js"]) (auto simp: signer_ok_def distinct_card)
qed

lemma slash_validatorE:
  assumes "slash_validator E cr sh now i u sev reason evi sgs m = Inr (m', x)"
  obtains ok v v' ev where "verify_council_signatures E cr sh u sev reason evi sgs m = Inr ok"
    and "validators m u = Some v" and "slash ev v = (v', x)" and "se_severity ev = sev" and "se_validator_id ev = u"
    and "m' = m\<lparr>validators := (validators m)(u \<mapsto> v'), slashing_history := slashing_history m @ [ev\<lparr>amount_slashed := x\<rparr>]\<rparr>"
  using assms by (auto simp: slash_validator_def Let_def split: sum.splits option.splits prod.splits)

section \<open>The invariant\<close>

text \<open>What a slash takes: the percentage of the stake, rounded down, without overflow as long as the stake is within the maximum.\<close>

lemma slash_amount_exact:
  assumes "s \<le> MAX_VALIDATOR_STAKE"
  shows "unat (s * ucast (slash_percentage sev) div 100) = unat s * unat (slash_percentage sev) div 100"
    and "s * ucast (slash_percentage sev) div 100 \<le> s"
proof -
  have s: "unat s \<le> 10 ^ 16"
    using assms by (simp add: MAX_VALIDATOR_STAKE_def MOTES_PER_DCHAT_def word_le_nat_alt)
  have p: "unat (ucast (slash_percentage sev) :: u64) = unat (slash_percentage sev)" "unat (slash_percentage sev) \<le> 100"
    by (cases sev; simp)+
  have "unat s * unat (slash_percentage sev) \<le> 10 ^ 16 * 100" using mult_le_mono [OF s p(2)] .
  then have "unat s * unat (ucast (slash_percentage sev) :: u64) < 2 ^ LENGTH(64)" by (simp add: p)
  then have "unat (s * ucast (slash_percentage sev)) = unat s * unat (slash_percentage sev)"
    using p(1) unat_mult_lem [of s "ucast (slash_percentage sev)"] by metis
  then show e: "unat (s * ucast (slash_percentage sev) div 100) = unat s * unat (slash_percentage sev) div 100"
    by (simp add: unat_div)
  have "unat s * unat (slash_percentage sev) div 100 \<le> unat s"
    using p(2) by (metis div_le_mono mult_le_mono2 nonzero_mult_div_cancel_right zero_neq_numeral)
  with e show "s * ucast (slash_percentage sev) div 100 \<le> s" by (simp add: word_le_nat_alt)
qed

definition slashed_sum :: "user_id \<Rightarrow> slashing_event list \<Rightarrow> u64" where
  "slashed_sum u evs = sum_list (map amount_slashed (filter (\<lambda>e. se_validator_id e = u) evs))"

definition validator_ok :: "staking_manager \<Rightarrow> user_id \<Rightarrow> validator_stake \<Rightarrow> bool" where
  "validator_ok m u v \<longleftrightarrow>
     validator_id v = u \<and> staked_amount v \<le> MAX_VALIDATOR_STAKE \<and> unstaking_amount v \<le> MAX_VALIDATOR_STAKE
     \<and> total_slashed v = slashed_sum u (slashing_history m)
     \<and> (vs_status v = VUnstaking \<longrightarrow> unstaking_initiated_at v \<noteq> None)"

definition staking_inv :: "staking_manager \<Rightarrow> bool" where
  "staking_inv m \<longleftrightarrow> (\<forall>u v. validators m u = Some v \<longrightarrow> validator_ok m u v)
     \<and> (\<forall>e\<in>set (slashing_history m). se_validator_id e \<in> dom (validators m))"

inductive staking_step :: "ed25519 \<Rightarrow> crypto \<Rightarrow> (user_id \<Rightarrow> string) \<Rightarrow> staking_manager \<Rightarrow> staking_manager \<Rightarrow> bool" for E cr sh where
  st_council: "staking_step E cr sh m (set_governance_council keys m)"
| st_stake: "submit_validator_stake now ci i u x key m = Inr (m', j) \<Longrightarrow> staking_step E cr sh m m'"
| st_unstake: "submit_validator_unstake now i u x m = Inr (m', j) \<Longrightarrow> staking_step E cr sh m m'"
| st_update: "update_stake_amount now ci i u x m = Inr (m', j) \<Longrightarrow> staking_step E cr sh m m'"
| st_activate: "activate_validator now u m = Inr m' \<Longrightarrow> staking_step E cr sh m m'"
| st_complete: "manager_complete_unstake now u m = Inr (m', x) \<Longrightarrow> staking_step E cr sh m m'"
| st_slash: "slash_validator E cr sh now i u sev reason evi sgs m = Inr (m', x) \<Longrightarrow> staking_step E cr sh m m'"
| st_reward: "distribute_reward u x m = Inr m' \<Longrightarrow> staking_step E cr sh m m'"
| st_claim: "manager_claim_rewards u m = Inr (m', x) \<Longrightarrow> staking_step E cr sh m m'"
| st_transfer: "claim_rewards_with_transfer now ci mi su ty u (m, c) = Inr ((m', c'), r) \<Longrightarrow> staking_step E cr sh m m'"
| st_produced: "staking_step E cr sh m (manager_block_produced u m)"
| st_missed: "staking_step E cr sh m (manager_block_missed u m)"

inductive_cases staking_stepE: "staking_step E cr sh m m'"

lemma staking_inv_lookup: "staking_inv m \<Longrightarrow> validators m u = Some v \<Longrightarrow> validator_ok m u v"
  by (simp add: staking_inv_def)

text \<open>An operation that writes one validator and leaves the history alone keeps the invariant when the new entry fits.\<close>

lemma staking_inv_put:
  assumes "staking_inv m" "validator_ok m u v"
    and "validators m' = (validators m)(u \<mapsto> v)" "slashing_history m' = slashing_history m"
  shows "staking_inv m'"
  using assms by (auto simp: staking_inv_def validator_ok_def)

lemma staking_inv_write:
  assumes "staking_inv m" "validators m u = Some v" "validator_ok m u v \<Longrightarrow> validator_ok m u v'"
  shows "staking_inv (m\<lparr>validators := (validators m)(u \<mapsto> v')\<rparr>)"
  using staking_inv_put [OF assms(1) assms(3) [OF staking_inv_lookup [OF assms(1,2)]]] by simp

lemma staking_inv_pending [simp]: "staking_inv (m\<lparr>pending_transactions := p\<rparr>) = staking_inv m"
  by (simp add: staking_inv_def validator_ok_def)

lemma staking_inv_council [simp]: "staking_inv (set_governance_council keys m) = staking_inv m"
  by (simp add: staking_inv_def validator_ok_def set_governance_council_def)

lemma slashed_sum_none:
  assumes "staking_inv m" "validators m u = None"
  shows "slashed_sum u (slashing_history m) = 0"
proof -
  have "filter (\<lambda>e. se_validator_id e = u) (slashing_history m) = []"
    using assms by (auto simp: staking_inv_def filter_empty_conv)
  then show ?thesis by (simp add: slashed_sum_def)
qed

lemma inv_stake:
  assumes "staking_inv m" "submit_validator_stake now ci i u x key m = Inr (m', j)"
  shows "staking_inv m'"
proof -
  from assms(2) obtain v where v: "validator_new now u x key = Inr v" "validators m' = (validators m)(u \<mapsto> v)"
    "slashing_history m' = slashing_history m" "validators m u = None"
    by (auto simp: submit_validator_stake_def Let_def split: if_splits sum.splits prod.splits)
  from v(1) slashed_sum_none [OF assms(1) v(4)] have "validator_ok m u v"
    by (auto simp: validator_ok_def validator_new_def split: if_splits)
  from staking_inv_put [OF assms(1) this v(2,3)] show ?thesis .
qed

lemma inv_unstake:
  assumes "staking_inv m" "submit_validator_unstake now i u x m = Inr (m', j)"
  shows "staking_inv m'"
proof -
  from assms(2) obtain v v' where v: "validators m u = Some v" "initiate_unstake now x v = Inr v'"
    "validators m' = (validators m)(u \<mapsto> v')" "slashing_history m' = slashing_history m"
    by (auto simp: submit_validator_unstake_def split: option.splits sum.splits)
  from v(2) staking_inv_lookup [OF assms(1) v(1)] have "validator_ok m u v'"
    by (auto simp: validator_ok_def initiate_unstake_def Let_def not_less split: if_splits)
  from staking_inv_put [OF assms(1) this v(3,4)] show ?thesis .
qed

lemma inv_update:
  assumes "staking_inv m" "update_stake_amount now ci i u x m = Inr (m', j)"
  shows "staking_inv m'"
proof -
  from assms(2) obtain v v' where v: "validators m u = Some v" "staked_amount v + x \<le> MAX_VALIDATOR_STAKE"
    "v' = v\<lparr>staked_amount := staked_amount v + x,
       vs_status := (if vs_status v = VInactive \<and> staked_amount v + x \<ge> MIN_VALIDATOR_STAKE then VPending else vs_status v)\<rparr>"
    "validators m' = (validators m)(u \<mapsto> v')" "slashing_history m' = slashing_history m"
    by (auto simp: update_stake_amount_def Let_def not_less split: option.splits sum.splits if_splits)
  from v(2,3) staking_inv_lookup [OF assms(1) v(1)] have "validator_ok m u v'"
    by (auto simp: validator_ok_def)
  from staking_inv_put [OF assms(1) this v(4,5)] show ?thesis .
qed

lemma inv_complete:
  assumes "staking_inv m" "manager_complete_unstake now u m = Inr (m', x)"
  shows "staking_inv m'"
proof -
  from assms(2) obtain v v' where v: "validators m u = Some v" "complete_unstake now v = Inr (v', x)"
    "validators m' = (validators m)(u \<mapsto> v')" "slashing_history m' = slashing_history m"
    by (auto simp: manager_complete_unstake_def split: option.splits sum.splits)
  from v(2) staking_inv_lookup [OF assms(1) v(1)] have "validator_ok m u v'"
    by (auto simp: validator_ok_def complete_unstake_def split: if_splits option.splits)
  from staking_inv_put [OF assms(1) this v(3,4)] show ?thesis .
qed

lemma saturating_sub_within: "saturating_sub (s :: u64) x \<le> s"
  by (simp add: word_le_nat_alt unat_saturating_sub)

lemma inv_slash:
  assumes inv: "staking_inv m" and "slash_validator E cr sh now i u sev reason evi sgs m = Inr (m', x)"
  shows "staking_inv m'"
  using assms(2)
proof (cases rule: slash_validatorE)
  case (1 ok v v' ev)
  from staking_inv_lookup [OF inv 1(2)] have v: "validator_ok m u v" .
  from 1(3) have v': "staked_amount v' = saturating_sub (staked_amount v) x" "total_slashed v' = total_slashed v + x"
    "validator_id v' = validator_id v" "unstaking_amount v' = unstaking_amount v" "vs_status v' \<noteq> VUnstaking"
    by (auto simp: slash_def Let_def split: if_splits)
  have "staked_amount v' \<le> MAX_VALIDATOR_STAKE"
    using v v'(1) saturating_sub_within order_trans unfolding validator_ok_def by metis
  with v v' 1 inv show ?thesis
    by (auto simp: staking_inv_def validator_ok_def slashed_sum_def)
qed

lemma inv_claim_clear:
  assumes "staking_inv m"
  shows "staking_inv (claim_clear now u x j m)"
proof (cases "validators m u")
  case (Some v)
  from staking_inv_write [OF assms Some, of "v\<lparr>pending_rewards := 0\<rparr>"] Some show ?thesis
    by (simp add: claim_clear_def validator_ok_def)
qed (use assms in \<open>simp add: claim_clear_def\<close>)

lemma staking_step_inv:
  assumes "staking_step E cr sh m m'" "staking_inv m"
  shows "staking_inv m'"
  using assms
proof (induction rule: staking_step.induct)
  case (st_activate now u m m')
  then show ?case
    by (auto simp: activate_validator_def activate_def validator_ok_def split: option.splits sum.splits if_splits
        intro: staking_inv_write)
next
  case (st_reward u x m m')
  then show ?case
    by (auto simp: distribute_reward_def add_reward_def validator_ok_def split: option.splits intro: staking_inv_write)
next
  case (st_claim u m m' x)
  then show ?case
    by (auto simp: manager_claim_rewards_def claim_rewards_def validator_ok_def split: option.splits intro: staking_inv_write)
next
  case (st_transfer now ci mi su ty u m c m' c' r)
  then show ?case
    by (auto simp: claim_rewards_with_transfer_def inv_claim_clear split: sum.splits if_splits)
next
  case (st_produced m u)
  then show ?case
    by (auto simp: manager_block_produced_def record_block_produced_def validator_ok_def split: option.splits intro: staking_inv_write)
next
  case (st_missed m u)
  then show ?case
    by (auto simp: manager_block_missed_def record_block_missed_def validator_ok_def split: option.splits intro: staking_inv_write)
qed (blast intro: inv_stake inv_unstake inv_update inv_complete inv_slash staking_inv_council [THEN iffD2])+

lemma staking_inv_new: "staking_inv (staking_new ch)"
  by (simp add: staking_inv_def staking_new_def)

lemma staking_run_inv: "(staking_step E cr sh)\<^sup>*\<^sup>* m m' \<Longrightarrow> staking_inv m \<Longrightarrow> staking_inv m'"
  by (induction rule: rtranclp_induct) (auto dest: staking_step_inv)

lemma slash_spec:
  assumes "slash ev v = (v', x)" "staked_amount v \<le> MAX_VALIDATOR_STAKE"
  shows "unat x = unat (staked_amount v) * unat (slash_percentage (se_severity ev)) div 100"
    and "unat (staked_amount v') = unat (staked_amount v) - unat x"
  using assms slash_amount_exact(1) [OF assms(2)] by (auto simp: slash_def Let_def unat_saturating_sub)

section \<open>Properties\<close>

text \<open>C32. A slash goes through only when at least five different positions of the council list hold keys under each of which one of the submitted signatures verifies on this
  validator, this severity, this reason and the hash of this evidence; signatures over other messages do not count. When the keys of the council are all different these are five
  different keys, and one signature repeated does not count twice. The code does not check that the keys are different: a key listed several times lets one repeated signature count
  several times.\<close>

theorem slash_needs_council:
  assumes "slash_validator E cr sh now i u sev reason evi sgs m = Inr (m', x)"
  shows "(\<exists>J. J \<subseteq> {..<length (council_keys m)} \<and> 5 \<le> card J
      \<and> (\<forall>j\<in>J. \<exists>sg\<in>set sgs. ed_verify E (council_keys m ! j) (slashing_message cr sh u sev reason evi) sg))
    \<and> (distinct (council_keys m) \<longrightarrow>
         (\<exists>K\<subseteq>set (council_keys m). 5 \<le> card K \<and> (\<forall>k\<in>K. \<exists>sg\<in>set sgs. ed_verify E k (slashing_message cr sh u sev reason evi) sg)))"
proof -
  have "verify_council_signatures E cr sh u sev reason evi sgs m = Inr ()" using assms by (elim slash_validatorE) simp
  from verified_signers [OF this] obtain J where J: "J \<subseteq> {..<length (council_keys m)}" "5 \<le> card J"
      "\<forall>j\<in>J. \<exists>sg\<in>set sgs. ed_verify E (council_keys m ! j) (slashing_message cr sh u sev reason evi) sg"
    unfolding MIN_COUNCIL_SIGNATURES_def by blast
  let ?K = "(!) (council_keys m) ` J"
  have "card ?K = card J" if "distinct (council_keys m)"
    using that J(1) by (intro card_image inj_on_nth) auto
  moreover have "?K \<subseteq> set (council_keys m)" using J(1) by auto
  ultimately show ?thesis using J by (intro conjI impI exI [of _ J] exI [of _ ?K]) auto
qed

text \<open>Five copies of one signature pass when the council lists one key five times.\<close>

lemma repeated_key_counts:
  assumes "council_keys m = replicate 5 k" and "ed_verify E k (slashing_message cr sh u sev reason ev) sg"
  shows "verify_council_signatures E cr sh u sev reason ev (replicate 5 sg) m = Inr ()"
  using assms by (simp add: verify_council_signatures_def MIN_COUNCIL_SIGNATURES_def numeral_eq_Suc)

text \<open>A manager without a council refuses every slash.\<close>

lemma no_council_no_slash:
  assumes "council_keys m = []"
  shows "slash_validator E cr sh now i u sev reason evi sgs m = Inl InvalidInput"
  using assms by (simp add: slash_validator_def verify_council_signatures_def)

text \<open>In every state the manager can reach, each stake is within the maximum, the total a validator has lost is the sum of its entries in
  the slashing history, and a slash takes exactly the percentage of its severity, rounded down, with no overflow.\<close>

theorem staking_reachable:
  assumes "(staking_step E cr sh)\<^sup>*\<^sup>* (staking_new ch) m" and "validators m u = Some v"
  shows "staked_amount v \<le> MAX_VALIDATOR_STAKE \<and> total_slashed v = slashed_sum u (get_slashing_history m)
    \<and> (\<forall>now i sev reason evi sgs m' x. slash_validator E cr sh now i u sev reason evi sgs m = Inr (m', x) \<longrightarrow>
      unat x = unat (staked_amount v) * unat (slash_percentage sev) div 100
      \<and> (\<exists>v'. validators m' u = Some v' \<and> unat (staked_amount v') = unat (staked_amount v) - unat x))"
proof -
  from staking_inv_lookup [OF staking_run_inv [OF assms(1) staking_inv_new] assms(2)] have ok: "validator_ok m u v" .
  then have s: "staked_amount v \<le> MAX_VALIDATOR_STAKE" "total_slashed v = slashed_sum u (get_slashing_history m)"
    by (simp_all add: validator_ok_def get_slashing_history_def)
  have "unat x = unat (staked_amount v) * unat (slash_percentage sev) div 100
      \<and> (\<exists>v'. validators m' u = Some v' \<and> unat (staked_amount v') = unat (staked_amount v) - unat x)"
    if "slash_validator E cr sh now i u sev reason evi sgs m = Inr (m', x)" for now i sev reason evi sgs m' x
    using that slash_spec s(1) assms(2) by (elim slash_validatorE) auto
  with s show ?thesis by blast
qed

text \<open>The validator set for consensus holds at most the given number of validators, all eligible, ordered by falling stake, and no
  eligible validator that is left out has more stake than one that is in.\<close>

theorem validator_set_top:
  shows "length (get_validator_set us n m) \<le> n
    \<and> set (get_validator_set us n m) \<subseteq> {v \<in> set (get_active_validators us m). is_eligible v}
    \<and> sorted_wrt (\<lambda>a b. staked_amount b \<le> staked_amount a) (get_validator_set us n m)
    \<and> (\<forall>v\<in>set (get_validator_set us n m). \<forall>w\<in>set (get_active_validators us m) - set (get_validator_set us n m).
         staked_amount w \<le> staked_amount v)"
proof -
  let ?k = "\<lambda>v. - int (unat (staked_amount v))"
  let ?s = "sort_key ?k (get_active_validators us m)"
  have e: "set (get_validator_set us n m) \<subseteq> {v \<in> set (get_active_validators us m). is_eligible v}"
    by (auto simp: get_validator_set_def get_active_validators_def dest: in_set_takeD)
  have s: "sorted_wrt (\<lambda>a b. staked_amount b \<le> staked_amount a) ?s"
    using sorted_sort_key [of ?k "get_active_validators us m"] by (simp add: sorted_wrt_map word_le_def)
  have top: "staked_amount w \<le> staked_amount v"
    if v: "v \<in> set (get_validator_set us n m)" and w: "w \<in> set (get_active_validators us m)" "w \<notin> set (get_validator_set us n m)" for v w
  proof -
    from w(1) have "w \<in> set (take n ?s @ drop n ?s)" by simp
    with w(2) have "w \<in> set (drop n ?s)" unfolding get_validator_set_def set_append by blast
    moreover have "sorted_wrt (\<lambda>a b. staked_amount b \<le> staked_amount a) (take n ?s @ drop n ?s)" using s by simp
    ultimately show ?thesis using v unfolding get_validator_set_def sorted_wrt_append by blast
  qed
  have "length (get_validator_set us n m) \<le> n" "sorted_wrt (\<lambda>a b. staked_amount b \<le> staked_amount a) (get_validator_set us n m)"
    using s by (simp_all add: get_validator_set_def sorted_wrt_take)
  with e top show ?thesis by blast
qed

text \<open>A partial unstake returns its amount after the cooldown but leaves the recorded stake and the currency chain as they were, so the
  validator stays active with its full stake and can ask for the same amount again.\<close>

theorem partial_unstake_keeps_stake:
  assumes "validators m u = Some v" "vs_status v = VActive" "x < staked_amount v" "MIN_VALIDATOR_STAKE \<le> staked_amount v - x"
    and "submit_validator_unstake now i u x m = Inr (m1, j)" and "UNSTAKE_COOLDOWN_SECONDS * 1000000000 \<le> later - now"
  shows "\<exists>m2 v2. manager_complete_unstake later u m1 = Inr (m2, x) \<and> sm_chain m2 = sm_chain m
    \<and> validators m2 u = Some v2 \<and> staked_amount v2 = staked_amount v \<and> vs_status v2 = VActive
    \<and> (\<exists>m3. submit_validator_unstake later k u x m2 = Inr (m3, k))"
proof -
  have pos: "0 < staked_amount v - x" using assms(3) by (auto simp: word_gt_0)
  then have nz: "staked_amount v \<noteq> x" by auto
  have "staked_amount v \<noteq> 0" using assms(3) by auto
  moreover have "\<not> num_seconds (later - now) < UNSTAKE_COOLDOWN_SECONDS"
    using assms(6) by (simp add: num_seconds_def div_trunc_def UNSTAKE_COOLDOWN_SECONDS_def)
  ultimately show ?thesis
    using assms(1-5) pos nz
    by (auto simp: submit_validator_unstake_def initiate_unstake_def manager_complete_unstake_def complete_unstake_def Let_def not_less
        split: if_splits)
qed

text \<open>After an unstake of everything the recorded stake is zero and no later call completes it: the status is already inactive, and
  completing asks for the unstaking status.\<close>

theorem full_unstake_never_completes:
  assumes "validators m u = Some v" and "submit_validator_unstake now i u (staked_amount v) m = Inr (m', j)"
  shows "manager_complete_unstake later u m' = Inl InvalidInput \<and> (\<exists>v'. validators m' u = Some v' \<and> staked_amount v' = 0)"
  using assms
  by (auto simp: submit_validator_unstake_def initiate_unstake_def manager_complete_unstake_def complete_unstake_def Let_def
      split: sum.splits if_splits)

text \<open>A ban is not permanent: a later slash of a banned validator by a lesser severity makes it inactive, after which new stake and an
  activation make it eligible again.\<close>

theorem ban_lifted_by_minor_slash:
  assumes "validators m u = Some v" "vs_status v = VBanned" "staked_amount v = 0" "sm_chain m = None" "sev \<noteq> Malicious"
    and "slash_validator E cr sh t1 i u sev reason evi sgs m = Inr (m1, y)"
  shows "\<exists>m2 m3 v3. update_stake_amount t2 ci k u MIN_VALIDATOR_STAKE m1 = Inr (m2, k) \<and> activate_validator t3 u m2 = Inr m3
    \<and> validators m3 u = Some v3 \<and> is_eligible v3"
  using assms(6)
proof (cases rule: slash_validatorE)
  case (1 ok w w' ev)
  then have w': "vs_status w' = VInactive" "staked_amount w' = 0"
    using assms(1-5) by (auto simp: slash_def Let_def is_permanent_ban_def MIN_VALIDATOR_STAKE_def MOTES_PER_DCHAT_def saturating_sub_def)
  have "\<not> MAX_VALIDATOR_STAKE < MIN_VALIDATOR_STAKE"
    by (simp add: MAX_VALIDATOR_STAKE_def MIN_VALIDATOR_STAKE_def MOTES_PER_DCHAT_def)
  with 1 w' assms(4) show ?thesis
    by (auto simp: update_stake_amount_def lock_on_chain_def activate_validator_def activate_def is_eligible_def Let_def)
qed

text \<open>Two overlapping claims of one validator mint its rewards twice: both read the pending amount before either clears it, and each
  adds it to the wallet.\<close>

theorem overlapping_claims_mint_twice:
  assumes "claim_read u m = Inr x" "x \<noteq> 0"
  shows "\<exists>c1 c2 w. mint_rewards s1 i1 k1 ty u x BlockReward c = Inr (c1, i1) \<and> mint_rewards s2 i2 k2 ty u x BlockReward c1 = Inr (c2, i2)
    \<and> wallets c2 u = Some w \<and> rewards_pending w = rewards_pending (wallet_entry (wallets c) u) + x + x
    \<and> claim_read u (claim_clear t2 u x i2 (claim_clear t1 u x i1 m)) = Inr 0"
  using assms by (auto simp: mint_rewards_def Let_def add_tx_def wallet_entry_def claim_read_def claim_clear_def split: option.splits)

section \<open>Examples\<close>

text \<open>A council of seven keys; with the example signature scheme a signature is the key followed by the sum of the message.\<close>

definition demo_council :: staking_manager where
  "demo_council = set_governance_council [1, 2, 3, 4, 5, 6, 7] (staking_new None)"

definition demo_validator :: validator_stake where
  "demo_validator = \<lparr>validator_id = 9, staked_amount = 2 * MIN_VALIDATOR_STAKE, validator_pubkey = 0, vs_status = VPending, staked_at = 0,
     activated_at = None, unstaking_initiated_at = None, unstaking_amount = 0, total_rewards_earned = 0, pending_rewards = 0,
     slashing_events = [], total_slashed = 0, blocks_produced = 0, blocks_missed = 0, region = None, endpoint = None\<rparr>"

definition demo_staking :: staking_manager where
  "demo_staking = (case submit_validator_stake 0 1 2 9 (2 * MIN_VALIDATOR_STAKE) 0 demo_council of Inr (m, _) \<Rightarrow> m | Inl _ \<Rightarrow> demo_council)"

lemma demo_validator_fields [simp]: "staked_amount demo_validator = 2 * MIN_VALIDATOR_STAKE" "vs_status demo_validator = VPending"
  "pending_rewards demo_validator = 0" "validator_new 0 9 (2 * MIN_VALIDATOR_STAKE) 0 = Inr demo_validator"
  by (simp_all add: demo_validator_def validator_new_def MIN_VALIDATOR_STAKE_def MAX_VALIDATOR_STAKE_def MOTES_PER_DCHAT_def)

lemma demo_bounds [simp]: "\<not> 2 * MIN_VALIDATOR_STAKE < MIN_VALIDATOR_STAKE" "\<not> MAX_VALIDATOR_STAKE < 2 * MIN_VALIDATOR_STAKE"
  "MIN_VALIDATOR_STAKE < 2 * MIN_VALIDATOR_STAKE" "2 * MIN_VALIDATOR_STAKE - MIN_VALIDATOR_STAKE = MIN_VALIDATOR_STAKE"
  by (simp_all add: MIN_VALIDATOR_STAKE_def MAX_VALIDATOR_STAKE_def MOTES_PER_DCHAT_def)

lemma demo_staking_fields [simp]: "validators demo_staking = [9 \<mapsto> demo_validator]" "council_keys demo_staking = [1, 2, 3, 4, 5, 6, 7]"
  "sm_chain demo_staking = None" "slashing_history demo_staking = []"
  by (simp_all add: demo_staking_def submit_validator_stake_def demo_council_def set_governance_council_def staking_new_def lock_on_chain_def
      Let_def)

lemma demo_staking_run: "(staking_step E cr sh)\<^sup>*\<^sup>* (staking_new None) demo_staking"
proof -
  have "submit_validator_stake 0 1 2 9 (2 * MIN_VALIDATOR_STAKE) 0 demo_council = Inr (demo_staking, 2)"
    by (simp add: demo_staking_def submit_validator_stake_def demo_council_def set_governance_council_def staking_new_def lock_on_chain_def
      Let_def)
  from st_stake [OF this] st_council [of E cr sh "staking_new None" "[1, 2, 3, 4, 5, 6, 7]"] show ?thesis
    unfolding demo_council_def by (meson converse_rtranclp_into_rtranclp r_into_rtranclp)
qed

lemma toy_verify: "ed_verify toy_ed25519 k msg (ed_sign toy_ed25519 k' msg) \<longleftrightarrow> k = k'"
proof -
  have "slice 256 (word_cat a b :: 512 word) = a" for a b :: hash32
    by (rule bit_word_eqI) (auto simp: bit_slice_iff bit_word_cat_iff word_size)
  then have "(word_cat k' b :: 512 word) = word_cat k b \<longleftrightarrow> k = k'" for b :: "256 word" by metis
  then show ?thesis by (simp add: toy_ed25519_def)
qed

definition demo_signatures :: "slashing_severity \<Rightarrow> (512 word) list" where
  "demo_signatures sev = map (\<lambda>k. ed_sign toy_ed25519 k (slashing_message toy_crypto (\<lambda>_. []) 9 sev [] [])) [1, 2, 3, 4, 5]"

lemma demo_slash:
  assumes "validators m 9 = Some v" "council_keys m = [1, 2, 3, 4, 5, 6, 7]"
  shows "\<exists>m' x. slash_validator toy_ed25519 toy_crypto (\<lambda>_. []) 0 5 9 sev [] [] (demo_signatures sev) m = Inr (m', x)"
proof -
  have "verify_council_signatures toy_ed25519 toy_crypto (\<lambda>_. []) 9 sev [] [] (demo_signatures sev) m = Inr ()"
    using assms(2) by (simp add: verify_council_signatures_def demo_signatures_def toy_verify MIN_COUNCIL_SIGNATURES_def)
  with assms(1) show ?thesis by (simp add: slash_validator_def Let_def split: prod.splits)
qed

theorem slash_needs_council_witness:
  "\<exists>m' x J. slash_validator toy_ed25519 toy_crypto (\<lambda>_. []) 0 5 9 Major [] [] (demo_signatures Major) demo_staking = Inr (m', x)
    \<and> J \<subseteq> {..<(7::nat)} \<and> 5 \<le> card J"
proof -
  obtain m' x where s: "slash_validator toy_ed25519 toy_crypto (\<lambda>_. []) 0 5 9 Major [] [] (demo_signatures Major) demo_staking = Inr (m', x)"
    using demo_slash [of demo_staking demo_validator Major] by auto
  moreover have "length (council_keys demo_staking) = 7" by simp
  ultimately show ?thesis using slash_needs_council [OF s] by metis
qed

theorem staking_reachable_witness:
  "\<exists>m' x. slash_validator toy_ed25519 toy_crypto (\<lambda>_. []) 0 5 9 Major [] [] (demo_signatures Major) demo_staking = Inr (m', x)
    \<and> unat x = 300000000000"
proof -
  obtain m' x where s: "slash_validator toy_ed25519 toy_crypto (\<lambda>_. []) 0 5 9 Major [] [] (demo_signatures Major) demo_staking = Inr (m', x)"
    using demo_slash [of demo_staking demo_validator Major] by auto
  have "unat x = unat (2 * MIN_VALIDATOR_STAKE) * unat (slash_percentage Major) div 100"
    using staking_reachable [OF demo_staking_run, of 9 demo_validator] s by (simp del: slash_percentage.simps)
  with s show ?thesis by (simp add: MIN_VALIDATOR_STAKE_def MOTES_PER_DCHAT_def)
qed

definition demo_active :: staking_manager where
  "demo_active = demo_staking\<lparr>validators := [9 \<mapsto> demo_validator\<lparr>vs_status := VActive\<rparr>]\<rparr>"

theorem validator_set_top_witness:
  "get_validator_set [9] 1 demo_active = [demo_validator\<lparr>vs_status := VActive\<rparr>] \<and> is_eligible (demo_validator\<lparr>vs_status := VActive\<rparr>)"
proof -
  have "get_validator_set [9] 1 demo_active = [demo_validator\<lparr>vs_status := VActive\<rparr>]"
    by (simp add: demo_active_def get_validator_set_def get_active_validators_def is_eligible_def not_less [symmetric])
  with validator_set_top [of "[9]" 1 demo_active] show ?thesis by simp
qed

theorem partial_unstake_keeps_stake_witness:
  "\<exists>m1 j m2 v2. submit_validator_unstake 0 3 9 MIN_VALIDATOR_STAKE demo_active = Inr (m1, j)
    \<and> manager_complete_unstake 604800000000000 9 m1 = Inr (m2, MIN_VALIDATOR_STAKE)
    \<and> validators m2 9 = Some v2 \<and> staked_amount v2 = 2 * MIN_VALIDATOR_STAKE"
proof -
  obtain m1 j where s: "submit_validator_unstake 0 3 9 MIN_VALIDATOR_STAKE demo_active = Inr (m1, j)"
    by (simp add: submit_validator_unstake_def initiate_unstake_def demo_active_def Let_def)
  from partial_unstake_keeps_stake [OF _ _ _ _ s, of "demo_validator\<lparr>vs_status := VActive\<rparr>" 604800000000000 0]
  show ?thesis using s by (auto simp: demo_active_def UNSTAKE_COOLDOWN_SECONDS_def)
qed

theorem full_unstake_never_completes_witness:
  "\<exists>m' j. submit_validator_unstake 0 3 9 (2 * MIN_VALIDATOR_STAKE) demo_active = Inr (m', j)
    \<and> manager_complete_unstake 604800000000000 9 m' = Inl InvalidInput"
proof -
  obtain m' j where s: "submit_validator_unstake 0 3 9 (2 * MIN_VALIDATOR_STAKE) demo_active = Inr (m', j)"
    by (simp add: submit_validator_unstake_def initiate_unstake_def demo_active_def Let_def)
  from full_unstake_never_completes [of demo_active 9 "demo_validator\<lparr>vs_status := VActive\<rparr>" 0 3 m' j] s show ?thesis
    by (simp add: demo_active_def)
qed

theorem ban_lifted_by_minor_slash_witness:
  "\<exists>m1 y m2 m3 v3.
    slash_validator toy_ed25519 toy_crypto (\<lambda>_. []) 0 5 9 Minor [] [] (demo_signatures Minor)
      (demo_staking\<lparr>validators := [9 \<mapsto> demo_validator\<lparr>vs_status := VBanned, staked_amount := 0\<rparr>]\<rparr>) = Inr (m1, y)
    \<and> update_stake_amount 0 0 6 9 MIN_VALIDATOR_STAKE m1 = Inr (m2, 6) \<and> activate_validator 0 9 m2 = Inr m3
    \<and> validators m3 9 = Some v3 \<and> is_eligible v3"
proof -
  let ?v = "demo_validator\<lparr>vs_status := VBanned, staked_amount := 0\<rparr>"
  let ?m = "demo_staking\<lparr>validators := [9 \<mapsto> ?v]\<rparr>"
  obtain m1 y where s: "slash_validator toy_ed25519 toy_crypto (\<lambda>_. []) 0 5 9 Minor [] [] (demo_signatures Minor) ?m = Inr (m1, y)"
    using demo_slash [of ?m ?v Minor] by auto
  from ban_lifted_by_minor_slash [OF _ _ _ _ _ s, of ?v 0 0 6 0] s show ?thesis by simp
qed

theorem overlapping_claims_mint_twice_witness:
  "\<exists>c1 c2 w. mint_rewards 0 1 2 [] 9 70 BlockReward demo_chain = Inr (c1, 1) \<and> mint_rewards 0 3 4 [] 9 70 BlockReward c1 = Inr (c2, 3)
    \<and> wallets c2 9 = Some w \<and> rewards_pending w = 140"
  using overlapping_claims_mint_twice [of 9 "demo_staking\<lparr>validators := [9 \<mapsto> demo_validator\<lparr>pending_rewards := 70\<rparr>]\<rparr>" 70 0 1 2 "[]" demo_chain 0 3 4 0 0]
  by (auto simp: claim_read_def wallet_entry_def empty_wallet_def)

end
