(* ===== verification/Motes_Text.thy ===== *)
theory Motes_Text
  imports Chain_Core "HOL-Library.Sublist"
begin

text \<open>
  Amounts of money and their text: \<^verbatim>\<open>crates/dchat-core/src/motes.rs\<close>. Printing with eight decimals and in the compact form, parsing,
  and that parsing gives back every amount printed in either form. Texts are ASCII; the string functions of the standard library the code uses
  (\<^verbatim>\<open>trim\<close>, \<^verbatim>\<open>trim_end_matches\<close>, \<^verbatim>\<open>find\<close>, \<^verbatim>\<open>u64::from_str\<close> with its optional sign, padding) are defined first. The conversion
  to a floating-point number is left out.
\<close>

section \<open>Standard library\<close>

definition checked_mul :: "'a::len word \<Rightarrow> 'a word \<Rightarrow> 'a word option" where
  "checked_mul a b = (if unat a * unat b < 2 ^ LENGTH('a) then Some (a * b) else None)"

definition is_whitespace :: "char \<Rightarrow> bool" where
  "is_whitespace c \<longleftrightarrow> c \<in> set [CHR '' '', CHR 0x09, CHR 0x0A, CHR 0x0B, CHR 0x0C, CHR 0x0D]"

definition trim :: "string \<Rightarrow> string" where
  "trim s = rev (dropWhile is_whitespace (rev (dropWhile is_whitespace s)))"

function strip_prefixes :: "string \<Rightarrow> string \<Rightarrow> string" where
  "strip_prefixes p s = (if p \<noteq> [] \<and> prefix p s then strip_prefixes p (drop (length p) s) else s)"
  by pat_completeness auto
termination
  by (relation "measure (\<lambda>(p, s). length s)") (auto simp: prefix_def)

declare strip_prefixes.simps [simp del]

definition trim_end_matches :: "string \<Rightarrow> string \<Rightarrow> string" where
  "trim_end_matches p s = rev (strip_prefixes (rev p) (rev s))"

definition digit :: "nat \<Rightarrow> char" where
  "digit d = char_of (48 + d)"

definition is_digit :: "char \<Rightarrow> bool" where
  "is_digit c \<longleftrightarrow> 48 \<le> (of_char c :: nat) \<and> (of_char c :: nat) \<le> 57"

definition digits_value :: "string \<Rightarrow> nat" where
  "digits_value s = foldl (\<lambda>n c. 10 * n + (of_char c - 48)) 0 s"

text \<open>
  \<^verbatim>\<open>u64::from_str\<close>: an optional plus sign, at least one digit, digits only, and no overflow. The source multiplies and adds digit by digit with
  checks; since prefixes have smaller values this fails exactly when the whole number does not fit.
\<close>

definition parse_u64 :: "string \<Rightarrow> u64 option" where
  "parse_u64 s =
     (let ds = (if s \<noteq> [] \<and> hd s = CHR ''+'' then tl s else s)
      in if ds \<noteq> [] \<and> list_all is_digit ds \<and> digits_value ds < 2 ^ 64 then Some (of_nat (digits_value ds)) else None)"

fun show_nat :: "nat \<Rightarrow> string" where
  "show_nat n = (if n < 10 then [digit n] else show_nat (n div 10) @ [digit (n mod 10)])"

declare show_nat.simps [simp del]

definition pad_left :: "nat \<Rightarrow> string \<Rightarrow> string" where
  "pad_left k s = replicate (k - length s) (CHR ''0'') @ s"

definition pad_right :: "nat \<Rightarrow> string \<Rightarrow> string" where
  "pad_right k s = s @ replicate (k - length s) (CHR ''0'')"

section \<open>Amounts\<close>

definition DCHAT_DECIMALS :: u8 where "DCHAT_DECIMALS = 8"

definition MAX_SUPPLY_MOTES :: u64 where "MAX_SUPPLY_MOTES = 100000000000 * MOTES_PER_DCHAT"

definition dchat_to_motes :: "u64 \<Rightarrow> u64" where
  "dchat_to_motes dchat = saturating_mul dchat MOTES_PER_DCHAT"

definition motes_to_whole_dchat :: "u64 \<Rightarrow> u64" where
  "motes_to_whole_dchat motes = motes div MOTES_PER_DCHAT"

definition motes_fractional :: "u64 \<Rightarrow> u64" where
  "motes_fractional motes = motes mod MOTES_PER_DCHAT"

definition motes_add :: "u64 \<Rightarrow> u64 \<Rightarrow> u64 option" where
  "motes_add a b = checked_add a b"

definition motes_sub :: "u64 \<Rightarrow> u64 \<Rightarrow> u64 option" where
  "motes_sub a b = checked_sub a b"

definition motes_mul :: "u64 \<Rightarrow> u64 \<Rightarrow> u64 option" where
  "motes_mul a b = checked_mul a b"

definition motes_div :: "u64 \<Rightarrow> u64 \<Rightarrow> u64" where
  "motes_div a b = (if b = 0 then 0 else a div b)"

definition format_motes :: "u64 \<Rightarrow> string" where
  "format_motes motes =
     (let whole = motes div MOTES_PER_DCHAT; fraction = motes mod MOTES_PER_DCHAT
      in show_nat (unat whole) @ ''.'' @ pad_left 8 (show_nat (unat fraction)) @ '' DCHAT'')"

definition format_motes_compact :: "u64 \<Rightarrow> string" where
  "format_motes_compact motes =
     (let whole = motes div MOTES_PER_DCHAT; fraction = motes mod MOTES_PER_DCHAT
      in if fraction = 0 then show_nat (unat whole) @ '' DCHAT''
         else let frac_str = pad_left 8 (show_nat (unat fraction))
              in show_nat (unat whole) @ ''.'' @ trim_end_matches ''0'' frac_str @ '' DCHAT'')"

text \<open>\<^verbatim>\<open>DisplayMotes\<close>: the compact form again, and the plain number for debugging.\<close>

definition display_motes :: "u64 \<Rightarrow> string" where
  "display_motes motes =
     (let whole = motes div MOTES_PER_DCHAT; fraction = motes mod MOTES_PER_DCHAT
      in if fraction = 0 then show_nat (unat whole) @ '' DCHAT''
         else let frac_str = pad_left 8 (show_nat (unat fraction))
              in show_nat (unat whole) @ ''.'' @ trim_end_matches ''0'' frac_str @ '' DCHAT'')"

definition debug_motes :: "u64 \<Rightarrow> string" where
  "debug_motes motes = ''Motes('' @ show_nat (unat motes) @ '')''"

definition parse_dchat :: "string \<Rightarrow> u64 option" where
  "parse_dchat text =
     (let s = trim (trim_end_matches ''DCHAT'' (trim_end_matches '' DCHAT'' (trim text)))
      in if s = [] then None
         else if CHR ''.'' \<in> set s then
           let whole_str = takeWhile (\<lambda>c. c \<noteq> CHR ''.'') s;
               frac_str = tl (dropWhile (\<lambda>c. c \<noteq> CHR ''.'') s)
           in case (if whole_str = [] then Some 0 else parse_u64 whole_str) of
                None \<Rightarrow> None
              | Some whole \<Rightarrow>
                  if length frac_str > 8 then None
                  else case parse_u64 (pad_right 8 frac_str) of
                    None \<Rightarrow> None
                  | Some fraction \<Rightarrow> (case checked_mul whole MOTES_PER_DCHAT of
                      None \<Rightarrow> None
                    | Some x \<Rightarrow> checked_add x fraction)
         else case parse_u64 s of None \<Rightarrow> None | Some whole \<Rightarrow> checked_mul whole MOTES_PER_DCHAT)"

section \<open>Digits\<close>

lemma digit_code: "d < 10 \<Longrightarrow> (of_char (digit d) :: nat) = 48 + d"
  by (simp add: digit_def)

lemma digit_is_digit [simp]: "d < 10 \<Longrightarrow> is_digit (digit d)"
  by (simp add: is_digit_def digit_code)

lemma is_digit_not:
  "is_digit c \<Longrightarrow> c \<noteq> CHR ''.'' \<and> c \<noteq> CHR ''+'' \<and> c \<noteq> CHR ''T'' \<and> \<not> is_whitespace c"
  by (auto simp: is_digit_def is_whitespace_def)

lemma zero_is_digit [simp]: "is_digit (CHR ''0'')"
  by (simp add: is_digit_def)

lemma digits_value_snoc: "digits_value (s @ [c]) = 10 * digits_value s + (of_char c - 48)"
  by (simp add: digits_value_def)

lemma digits_value_zeros: "digits_value (replicate k (CHR ''0'') @ s) = digits_value s"
proof -
  have "foldl (\<lambda>n c. 10 * n + (of_char c - 48)) 0 (replicate k (CHR ''0'')) = (0 :: nat)" by (induction k) simp_all
  then show ?thesis by (simp add: digits_value_def)
qed

lemma show_nat_spec: "show_nat n \<noteq> [] \<and> list_all is_digit (show_nat n) \<and> digits_value (show_nat n) = n"
proof (induction n rule: show_nat.induct)
  case (1 n)
  show ?case
  proof (cases "n < 10")
    case True
    then have "show_nat n = [digit n]" by (simp add: show_nat.simps [of n])
    with True show ?thesis by (simp add: digits_value_def digit_code)
  next
    case False
    then have "show_nat n = show_nat (n div 10) @ [digit (n mod 10)]" by (simp add: show_nat.simps [of n])
    with 1 [OF False] show ?thesis by (simp add: digits_value_snoc digit_code)
  qed
qed

lemmas show_nat_digits = show_nat_spec [THEN conjunct2, THEN conjunct1]
lemmas show_nat_value = show_nat_spec [THEN conjunct2, THEN conjunct2]

lemma length_show_nat: "n < 10 ^ k \<Longrightarrow> 0 < k \<Longrightarrow> length (show_nat n) \<le> k"
proof (induction k arbitrary: n)
  case (Suc k)
  show ?case
  proof (cases "n < 10")
    case True
    then show ?thesis by (simp add: show_nat.simps [of n])
  next
    case False
    then have "n div 10 < 10 ^ k" "0 < k" using Suc.prems(1) by (auto intro: gr0I)
    from Suc.IH [OF this] False show ?thesis by (simp add: show_nat.simps [of n])
  qed
qed simp

lemma parse_digits:
  assumes "ds \<noteq> []" "list_all is_digit ds" "digits_value ds < 2 ^ 64"
  shows "parse_u64 ds = Some (of_nat (digits_value ds))"
proof -
  have "hd ds \<noteq> CHR ''+''" using assms(1,2) is_digit_not [of "hd ds"] by (cases ds) auto
  with assms show ?thesis by (simp add: parse_u64_def)
qed

section \<open>Trimming\<close>

lemma trim_id:
  assumes "s \<noteq> []" "\<not> is_whitespace (hd s)" "\<not> is_whitespace (last s)"
  shows "trim s = s"
proof -
  have "dropWhile is_whitespace s = s" using assms(1,2) by (cases s) auto
  moreover have "dropWhile is_whitespace (rev s) = rev s" using assms(1,3) by (cases s rule: rev_cases) auto
  ultimately show ?thesis by (simp add: trim_def)
qed

lemma trim_end_matches_id: "p \<noteq> [] \<Longrightarrow> s \<noteq> [] \<Longrightarrow> last p \<noteq> last s \<Longrightarrow> trim_end_matches p s = s"
proof -
  assume "p \<noteq> []" "s \<noteq> []" "last p \<noteq> last s"
  then have "\<not> prefix (rev p) (rev s)" by (cases p rule: rev_cases; cases s rule: rev_cases) auto
  then show ?thesis by (simp add: trim_end_matches_def strip_prefixes.simps)
qed

lemma trim_end_matches_once:
  assumes "p \<noteq> []" "s \<noteq> []" "last p \<noteq> last s"
  shows "trim_end_matches p (s @ p) = s"
proof -
  have "strip_prefixes (rev p) (rev (s @ p)) = strip_prefixes (rev p) (rev s)"
    using assms(1) by (subst strip_prefixes.simps) simp
  then show ?thesis using trim_end_matches_id [OF assms] by (simp add: trim_end_matches_def)
qed

text \<open>A text that starts and ends with a digit is what is left of it followed by the unit.\<close>

lemma strip_unit:
  assumes "s \<noteq> []" "is_digit (hd s)" "is_digit (last s)"
  shows "trim (trim_end_matches ''DCHAT'' (trim_end_matches '' DCHAT'' (trim (s @ '' DCHAT'')))) = s"
proof -
  have ws: "\<not> is_whitespace (hd s)" "\<not> is_whitespace (last s)" "last s \<noteq> CHR ''T''"
    using assms is_digit_not by blast+
  have "trim (s @ '' DCHAT'') = s @ '' DCHAT''"
    using ws(1) assms(1) by (intro trim_id) (simp_all add: is_whitespace_def)
  moreover have "trim_end_matches '' DCHAT'' (s @ '' DCHAT'') = s"
    using assms(1) ws(3) trim_end_matches_once [of "'' DCHAT''" s] by simp
  moreover have "trim_end_matches ''DCHAT'' s = s"
    using assms(1) ws(3) trim_end_matches_id [of "''DCHAT''" s] by simp
  ultimately show ?thesis using trim_id [OF assms(1) ws(1,2)] by simp
qed


section \<open>Round trips\<close>

lemma unat_parts:
  fixes m :: u64
  shows "unat (m div MOTES_PER_DCHAT) = unat m div 100000000" and "unat (m mod MOTES_PER_DCHAT) = unat m mod 100000000"
  by (simp_all add: MOTES_PER_DCHAT_def unat_div unat_mod)

lemma unat_u64: "unat (m :: u64) < 2 ^ 64"
  using unsigned_less [of m] by simp

lemma rejoin:
  fixes m :: u64
  shows "checked_mul (m div MOTES_PER_DCHAT) MOTES_PER_DCHAT = Some (m div MOTES_PER_DCHAT * MOTES_PER_DCHAT)"
    and "checked_add (m div MOTES_PER_DCHAT * MOTES_PER_DCHAT) (m mod MOTES_PER_DCHAT) = Some m"
proof -
  have le: "unat m div 100000000 * 100000000 + unat m mod 100000000 = unat m" by simp
  have u: "unat MOTES_PER_DCHAT = 100000000" by (simp add: MOTES_PER_DCHAT_def)
  have b: "unat (m div MOTES_PER_DCHAT) * unat MOTES_PER_DCHAT < 2 ^ 64"
    using le unat_u64 [of m] unfolding u unat_parts by linarith
  then show "checked_mul (m div MOTES_PER_DCHAT) MOTES_PER_DCHAT = Some (m div MOTES_PER_DCHAT * MOTES_PER_DCHAT)"
    by (simp add: checked_mul_def)
  have p: "unat (m div MOTES_PER_DCHAT * MOTES_PER_DCHAT) = unat m div 100000000 * 100000000"
    using b unat_mult_lem [of "m div MOTES_PER_DCHAT" MOTES_PER_DCHAT] unfolding unat_parts u by simp
  have "unat (m div MOTES_PER_DCHAT * MOTES_PER_DCHAT) + unat (m mod MOTES_PER_DCHAT) < 2 ^ 64"
    using le unat_u64 [of m] unfolding p unat_parts by linarith
  moreover have "m div MOTES_PER_DCHAT * MOTES_PER_DCHAT + m mod MOTES_PER_DCHAT = m"
    by (rule word_mod_div_equality)
  ultimately show "checked_add (m div MOTES_PER_DCHAT * MOTES_PER_DCHAT) (m mod MOTES_PER_DCHAT) = Some m"
    by (simp add: checked_add_def)
qed

text \<open>A number printed as digits is parsed back, also with zeros before it.\<close>

lemma parse_shown:
  fixes w :: u64
  shows "parse_u64 (replicate k (CHR ''0'') @ show_nat (unat w)) = Some w"
proof -
  have "digits_value (replicate k (CHR ''0'') @ show_nat (unat w)) = unat w"
    by (simp add: digits_value_zeros show_nat_value)
  moreover have "list_all is_digit (replicate k (CHR ''0'') @ show_nat (unat w))"
    using show_nat_digits by (auto simp: list_all_iff)
  ultimately show ?thesis
    using parse_digits [of "replicate k (CHR ''0'') @ show_nat (unat w)"] show_nat_spec unat_u64 [of w] by simp
qed

lemma digits_ends: "s \<noteq> [] \<Longrightarrow> list_all is_digit s \<Longrightarrow> is_digit (hd s) \<and> is_digit (last s)"
  by (simp add: list_all_iff)

text \<open>An amount written as digits, a dot, and at most eight more digits that stand for the fraction when zeros are added.\<close>

lemma parse_dotted:
  assumes w: "w = show_nat (unat (m div MOTES_PER_DCHAT))" and f: "f \<noteq> []" "list_all is_digit f" "length f \<le> 8"
    and v: "parse_u64 (pad_right 8 f) = Some (m mod MOTES_PER_DCHAT)"
  shows "parse_dchat (w @ ''.'' @ f @ '' DCHAT'') = Some m"
proof -
  have wd: "w \<noteq> []" "list_all is_digit w" "parse_u64 w = Some (m div MOTES_PER_DCHAT)"
    using show_nat_spec [of "unat (m div MOTES_PER_DCHAT)"] parse_shown [of 0 "m div MOTES_PER_DCHAT"] w by simp_all
  let ?s = "w @ ''.'' @ f"
  have "is_digit (hd ?s)" "is_digit (last ?s)" using digits_ends wd(1,2) f(1,2) by simp_all
  then have strip: "trim (trim_end_matches ''DCHAT'' (trim_end_matches '' DCHAT'' (trim (w @ ''.'' @ f @ '' DCHAT'')))) = ?s"
    using strip_unit [of ?s] wd(1) by simp
  have nodot: "\<forall>c\<in>set w. c \<noteq> CHR ''.''" using wd(2) is_digit_not by (auto simp: list_all_iff)
  then have "takeWhile (\<lambda>c. c \<noteq> CHR ''.'') ?s = w" "dropWhile (\<lambda>c. c \<noteq> CHR ''.'') ?s = ''.'' @ f" by (simp_all add: takeWhile_append)
  then show ?thesis
    using wd f v rejoin [of m] unfolding parse_dchat_def Let_def strip by simp
qed

lemma fraction_digits:
  fixes m :: u64
  defines "f \<equiv> pad_left 8 (show_nat (unat (m mod MOTES_PER_DCHAT)))"
  shows "length f = 8" and "list_all is_digit f" and "parse_u64 f = Some (m mod MOTES_PER_DCHAT)"
proof -
  have "unat (m mod MOTES_PER_DCHAT) < 10 ^ 8" unfolding unat_parts by simp
  from length_show_nat [OF this] show "length f = 8" by (simp add: f_def pad_left_def)
  show "list_all is_digit f" using show_nat_digits by (auto simp: f_def pad_left_def list_all_iff)
  show "parse_u64 f = Some (m mod MOTES_PER_DCHAT)" unfolding f_def pad_left_def by (rule parse_shown)
qed

text \<open>Dropping trailing zeros and adding them again.\<close>

lemma strip_zeros:
  "strip_prefixes ''0'' s = dropWhile (\<lambda>c. c = CHR ''0'') s"
  by (induction s) (simp_all add: strip_prefixes.simps [of "''0''"])

lemma pad_right_trim: "pad_right (length f) (trim_end_matches ''0'' f) = f"
proof -
  let ?r = "rev f"
  have "?r = takeWhile (\<lambda>c. c = CHR ''0'') ?r @ dropWhile (\<lambda>c. c = CHR ''0'') ?r" by simp
  moreover have "takeWhile (\<lambda>c. c = CHR ''0'') ?r = replicate (length f - length (dropWhile (\<lambda>c. c = CHR ''0'') ?r)) (CHR ''0'')"
    using length_takeWhile_le [of "\<lambda>c. c = CHR ''0''" ?r]
    by (intro replicate_eqI) (auto simp: dropWhile_eq_drop dest: set_takeWhileD)
  ultimately have "f = rev (dropWhile (\<lambda>c. c = CHR ''0'') ?r) @ replicate (length f - length (dropWhile (\<lambda>c. c = CHR ''0'') ?r)) (CHR ''0'')"
    by (metis rev_append rev_replicate rev_rev_ident)
  then show ?thesis by (simp add: pad_right_def trim_end_matches_def strip_zeros)
qed

lemma trim_zeros_digits: "list_all is_digit f \<Longrightarrow> list_all is_digit (trim_end_matches ''0'' f) \<and> length (trim_end_matches ''0'' f) \<le> length f"
  by (auto simp: trim_end_matches_def strip_zeros list_all_iff length_dropWhile_le dest: set_dropWhileD
      intro: order_trans [OF length_dropWhile_le])

lemma replicate_padding: "replicate 6 c = [c, c, c, c, c, c]" "replicate 8 c = [c, c, c, c, c, c, c, c]"
  by (simp_all add: eval_nat_numeral)

text \<open>C27. Every amount survives printing and parsing: with eight decimals, in the compact form, and as displayed.\<close>

theorem amount_text_roundtrip:
  "parse_dchat (format_motes m) = Some m \<and> parse_dchat (format_motes_compact m) = Some m \<and> parse_dchat (display_motes m) = Some m"
proof -
  let ?w = "show_nat (unat (m div MOTES_PER_DCHAT))" and ?f = "pad_left 8 (show_nat (unat (m mod MOTES_PER_DCHAT)))"
  note fd = fraction_digits [of m]
  have "parse_dchat (?w @ ''.'' @ ?f @ '' DCHAT'') = Some m"
    using fd by (intro parse_dotted) (auto simp: pad_right_def)
  then have plain: "parse_dchat (format_motes m) = Some m" by (simp add: format_motes_def Let_def)
  have "parse_dchat (format_motes_compact m) = Some m"
  proof (cases "m mod MOTES_PER_DCHAT = 0")
    case True
    have "trim (trim_end_matches ''DCHAT'' (trim_end_matches '' DCHAT'' (trim (?w @ '' DCHAT'')))) = ?w"
      using strip_unit [of ?w] digits_ends [of ?w] show_nat_spec by simp
    moreover have "CHR ''.'' \<notin> set ?w" using show_nat_digits is_digit_not by (fastforce simp: list_all_iff)
    moreover have "checked_mul (m div MOTES_PER_DCHAT) MOTES_PER_DCHAT = Some m" using rejoin [of m] True by (simp add: checked_add_def split: if_splits)
    ultimately show ?thesis
      using True show_nat_spec parse_shown [of 0 "m div MOTES_PER_DCHAT"] by (simp add: format_motes_compact_def parse_dchat_def Let_def)
  next
    case False
    let ?t = "trim_end_matches ''0'' ?f"
    have again: "pad_right 8 ?t = ?f" using pad_right_trim [of ?f] fd(1) by simp
    have "?t \<noteq> []"
    proof
      assume "?t = []"
      with again have "?f = replicate 8 (CHR ''0'')" by (simp add: pad_right_def)
      then have "parse_u64 (replicate 8 (CHR ''0'')) = Some (m mod MOTES_PER_DCHAT)" using fd(3) by simp
      moreover have "parse_u64 (replicate 8 (CHR ''0'')) = Some 0"
        by (simp add: replicate_padding parse_u64_def digits_value_def is_digit_def)
      ultimately show False using False by simp
    qed
    then have "parse_dchat (?w @ ''.'' @ ?t @ '' DCHAT'') = Some m"
      using trim_zeros_digits [OF fd(2)] fd(1,3) again by (intro parse_dotted) auto
    then show ?thesis using False by (simp add: format_motes_compact_def Let_def)
  qed
  with plain show ?thesis by (simp add: display_motes_def format_motes_compact_def)
qed

text \<open>The sign that \<^verbatim>\<open>u64::from_str\<close> accepts passes inside a fraction, and a lone dot is an amount.\<close>

lemma parse_accepts_sign: "parse_dchat ''1.+5'' = Some 105000000" and parse_accepts_dot: "parse_dchat ''.'' = Some 0"
proof -
  have "trim (trim_end_matches ''DCHAT'' (trim_end_matches '' DCHAT'' (trim s))) = s"
    if "s \<in> {''1.+5'', ''.''}" for s
    using that trim_id [of s] trim_end_matches_id [of "''DCHAT''" s] trim_end_matches_id [of "'' DCHAT''" s]
    by (auto simp: is_whitespace_def)
  then show "parse_dchat ''1.+5'' = Some 105000000" and "parse_dchat ''.'' = Some 0"
    by (simp_all add: parse_dchat_def parse_u64_def pad_right_def digits_value_def is_digit_def checked_mul_def checked_add_def
        MOTES_PER_DCHAT_def replicate_padding)
qed

end
