(* ===== verification/Capability.thy ===== *)
theory Capability
  imports Instructions Pda
begin

text \<open>
  Capability tokens: \<^verbatim>\<open>crates/dchat-programs/src/capability.rs\<close>. Scopes, tokens with their limits, the registry with its two indexes, and the instruction
  builders. The serialized form of a scope and of an instruction (bincode) and blake3 are parameters; the clock, in whole seconds, is an argument; where
  the code iterates the map of tokens the order of the ids is one.
\<close>

section \<open>Scopes\<close>

type_synonym capability_id = hash32

record capability_scope =
  scope_program_id :: pubkey
  scope_accounts :: "pubkey list"
  scope_methods :: "string list"
  max_transfer_per_call :: "u64 option"
  max_transfer_total :: "u64 option"
  max_compute_per_call :: "u64 option"

record capability_action =
  action_program_id :: pubkey
  action_method :: string
  action_accounts :: "pubkey list"
  transfer_amount :: u64

definition generate_id :: "crypto \<Rightarrow> (capability_scope \<Rightarrow> u8 list) \<Rightarrow> pubkey \<Rightarrow> pubkey \<Rightarrow> capability_scope \<Rightarrow> u64 \<Rightarrow> capability_id" where
  "generate_id cr ser iss gr sc nonce = blake3 cr (as_bytes iss @ as_bytes gr @ ser sc @ le_bytes 8 nonce)"

definition for_program :: "pubkey \<Rightarrow> capability_scope" where
  "for_program p = \<lparr>scope_program_id = p, scope_accounts = [], scope_methods = [], max_transfer_per_call = None,
     max_transfer_total = None, max_compute_per_call = None\<rparr>"

definition with_accounts :: "pubkey list \<Rightarrow> capability_scope \<Rightarrow> capability_scope" where
  "with_accounts accs sc = sc\<lparr>scope_accounts := accs\<rparr>"

definition with_methods :: "string list \<Rightarrow> capability_scope \<Rightarrow> capability_scope" where
  "with_methods ms sc = sc\<lparr>scope_methods := ms\<rparr>"

definition with_max_transfer_per_call :: "u64 \<Rightarrow> capability_scope \<Rightarrow> capability_scope" where
  "with_max_transfer_per_call x sc = sc\<lparr>max_transfer_per_call := Some x\<rparr>"

definition with_max_transfer_total :: "u64 \<Rightarrow> capability_scope \<Rightarrow> capability_scope" where
  "with_max_transfer_total x sc = sc\<lparr>max_transfer_total := Some x\<rparr>"

definition with_max_compute_per_call :: "u64 \<Rightarrow> capability_scope \<Rightarrow> capability_scope" where
  "with_max_compute_per_call x sc = sc\<lparr>max_compute_per_call := Some x\<rparr>"

definition allows_action :: "capability_scope \<Rightarrow> capability_action \<Rightarrow> bool" where
  "allows_action sc act =
     (if scope_program_id sc \<noteq> action_program_id act then False
      else if scope_methods sc \<noteq> [] \<and> action_method act \<notin> set (scope_methods sc) then False
      else if scope_accounts sc \<noteq> [] \<and> list_ex (\<lambda>a. a \<notin> set (scope_accounts sc)) (action_accounts act) then False
      else case max_transfer_per_call sc of Some mx \<Rightarrow> \<not> transfer_amount act > mx | None \<Rightarrow> True)"

section \<open>Tokens\<close>

record capability_token =
  cap_id :: capability_id
  issuer :: pubkey
  grantee :: pubkey
  scope :: capability_scope
  cap_expires_at :: u64
  max_uses :: "u32 option"
  use_count :: u32
  total_transferred :: u64
  revoked :: bool
  cap_created_at :: u64
  cap_signature :: "512 word"

definition token_new ::
    "crypto \<Rightarrow> (capability_scope \<Rightarrow> u8 list) \<Rightarrow> u64 \<Rightarrow> pubkey \<Rightarrow> pubkey \<Rightarrow> capability_scope \<Rightarrow> u64 \<Rightarrow> u32 option \<Rightarrow> u64 \<Rightarrow> capability_token" where
  "token_new cr ser now iss gr sc expiry uses nonce =
     \<lparr>cap_id = generate_id cr ser iss gr sc nonce, issuer = iss, grantee = gr, scope = sc, cap_expires_at = expiry, max_uses = uses,
      use_count = 0, total_transferred = 0, revoked = False, cap_created_at = now, cap_signature = 0\<rparr>"

definition cap_is_valid :: "u64 \<Rightarrow> capability_token \<Rightarrow> unit program_result" where
  "cap_is_valid now t =
     (if revoked t then Inl CapabilityRevoked
      else if now > cap_expires_at t then Inl CapabilityExpired
      else case max_uses t of
        Some mx \<Rightarrow> if use_count t \<ge> mx then Inl CapabilityExhausted else Inr ()
      | None \<Rightarrow> Inr ())"

definition cap_allows :: "u64 \<Rightarrow> capability_action \<Rightarrow> capability_token \<Rightarrow> unit program_result" where
  "cap_allows now act t =
     (case cap_is_valid now t of
        Inl e \<Rightarrow> Inl e
      | Inr _ \<Rightarrow>
          if \<not> allows_action (scope t) act then Inl CapabilityOutOfScope
          else case max_transfer_total (scope t) of
            Some mx \<Rightarrow> if total_transferred t + transfer_amount act > mx then Inl CapabilityTransferLimitExceeded else Inr ()
          | None \<Rightarrow> Inr ())"

definition record_use :: "u64 \<Rightarrow> u64 \<Rightarrow> capability_token \<Rightarrow> capability_token program_result" where
  "record_use now x t =
     (case cap_is_valid now t of
        Inl e \<Rightarrow> Inl e
      | Inr _ \<Rightarrow> Inr (t\<lparr>use_count := use_count t + 1, total_transferred := total_transferred t + x\<rparr>))"

definition cap_revoke :: "capability_token \<Rightarrow> capability_token" where
  "cap_revoke t = t\<lparr>revoked := True\<rparr>"

definition cap_signing_message :: "(capability_scope \<Rightarrow> u8 list) \<Rightarrow> capability_token \<Rightarrow> u8 list" where
  "cap_signing_message ser t =
     string_bytes ''dchat-capability-v1:'' @ as_bytes (cap_id t) @ as_bytes (issuer t) @ as_bytes (grantee t) @ le_bytes 8 (cap_expires_at t)
     @ (case max_uses t of Some mx \<Rightarrow> le_bytes 4 mx | None \<Rightarrow> []) @ ser (scope t)"

definition set_signature :: "512 word \<Rightarrow> capability_token \<Rightarrow> capability_token" where
  "set_signature sg t = t\<lparr>cap_signature := sg\<rparr>"

section \<open>The registry\<close>

record capability_registry =
  capabilities :: "capability_id \<rightharpoonup> capability_token"
  by_grantee :: "pubkey \<rightharpoonup> capability_id list"
  by_issuer :: "pubkey \<rightharpoonup> capability_id list"

definition cap_registry_new :: capability_registry where
  "cap_registry_new = \<lparr>capabilities = Map.empty, by_grantee = Map.empty, by_issuer = Map.empty\<rparr>"

definition ids_of :: "pubkey \<Rightarrow> (pubkey \<rightharpoonup> capability_id list) \<Rightarrow> capability_id list" where
  "ids_of k ix = (case ix k of None \<Rightarrow> [] | Some ids \<Rightarrow> ids)"

definition index_push :: "pubkey \<Rightarrow> capability_id \<Rightarrow> (pubkey \<rightharpoonup> capability_id list) \<Rightarrow> (pubkey \<rightharpoonup> capability_id list)" where
  "index_push k i ix = ix(k \<mapsto> ids_of k ix @ [i])"

definition issue :: "capability_token \<Rightarrow> capability_registry \<Rightarrow> (capability_registry \<times> capability_id) program_result" where
  "issue t r =
     (if capabilities r (cap_id t) \<noteq> None then Inl DuplicateCapability
      else Inr (r\<lparr>by_grantee := index_push (grantee t) (cap_id t) (by_grantee r),
                  by_issuer := index_push (issuer t) (cap_id t) (by_issuer r),
                  capabilities := (capabilities r)(cap_id t \<mapsto> t)\<rparr>, cap_id t))"

definition registry_revoke :: "capability_id \<Rightarrow> pubkey \<Rightarrow> capability_registry \<Rightarrow> capability_registry program_result" where
  "registry_revoke i who r =
     (case capabilities r i of
        None \<Rightarrow> Inl CapabilityNotFound
      | Some t \<Rightarrow>
          if issuer t \<noteq> who then Inl CapabilityUnauthorized
          else Inr (r\<lparr>capabilities := (capabilities r)(i \<mapsto> cap_revoke t)\<rparr>))"

definition for_grantee :: "u64 \<Rightarrow> pubkey \<Rightarrow> capability_registry \<Rightarrow> capability_token list" where
  "for_grantee now k r =
     (case by_grantee r k of
        None \<Rightarrow> []
      | Some ids \<Rightarrow> filter (\<lambda>t. cap_is_valid now t = Inr ()) (filter_map (capabilities r) ids))"

definition issued_by :: "pubkey \<Rightarrow> capability_registry \<Rightarrow> capability_token list" where
  "issued_by k r = (case by_issuer r k of None \<Rightarrow> [] | Some ids \<Rightarrow> filter_map (capabilities r) ids)"

fun first_allowing :: "u64 \<Rightarrow> capability_action \<Rightarrow> capability_token list \<Rightarrow> capability_id program_result" where
  "first_allowing now act [] = Inl CapabilityNotFound"
| "first_allowing now act (t # ts) = (if cap_allows now act t = Inr () then Inr (cap_id t) else first_allowing now act ts)"

definition check_capability :: "u64 \<Rightarrow> pubkey \<Rightarrow> capability_action \<Rightarrow> capability_registry \<Rightarrow> capability_id program_result" where
  "check_capability now k act r = first_allowing now act (for_grantee now k r)"

definition use_capability ::
    "u64 \<Rightarrow> capability_id \<Rightarrow> pubkey \<Rightarrow> capability_action \<Rightarrow> capability_registry \<Rightarrow> capability_registry program_result" where
  "use_capability now i k act r =
     (case capabilities r i of
        None \<Rightarrow> Inl CapabilityNotFound
      | Some t \<Rightarrow>
          if grantee t \<noteq> k then Inl CapabilityUnauthorized
          else case cap_allows now act t of
            Inl e \<Rightarrow> Inl e
          | Inr _ \<Rightarrow> (case record_use now (transfer_amount act) t of
              Inl e \<Rightarrow> Inl e
            | Inr t' \<Rightarrow> Inr (r\<lparr>capabilities := (capabilities r)(i \<mapsto> t')\<rparr>)))"

definition retained :: "u64 \<Rightarrow> capability_token \<Rightarrow> bool" where
  "retained now t \<longleftrightarrow> cap_expires_at t > now \<or> \<not> revoked t"

definition cleanup_capabilities :: "u64 \<Rightarrow> capability_id list \<Rightarrow> capability_registry \<Rightarrow> capability_registry" where
  "cleanup_capabilities now ids r =
     (let caps = (\<lambda>i. case capabilities r i of None \<Rightarrow> None | Some t \<Rightarrow> if retained now t then Some t else None);
          kept = filter_map (\<lambda>i. map_option (Pair i) (caps i)) ids
      in r\<lparr>capabilities := caps,
           by_grantee := fold (\<lambda>(i, t). index_push (grantee t) i) kept Map.empty,
           by_issuer := fold (\<lambda>(i, t). index_push (issuer t) i) kept Map.empty\<rparr>)"

section \<open>Instructions\<close>

datatype capability_instruction =
    Issue pubkey capability_scope u64 "u32 option"
  | Revoke capability_id
  | Use capability_id capability_action
  | Extend capability_id u64

definition issue_instruction ::
    "(capability_instruction \<Rightarrow> u8 list) \<Rightarrow> u64 \<Rightarrow> pubkey \<Rightarrow> pubkey \<Rightarrow> capability_scope \<Rightarrow> u64 \<Rightarrow> u32 option \<Rightarrow> instruction" where
  "issue_instruction ser now iss gr sc duration uses =
     \<lparr>ix_program_id = CAPABILITY_PROGRAM_ID, ix_accounts = [meta_new iss True], ix_data = ser (Issue gr sc (now + duration) uses)\<rparr>"

definition revoke_instruction :: "(capability_instruction \<Rightarrow> u8 list) \<Rightarrow> pubkey \<Rightarrow> capability_id \<Rightarrow> instruction" where
  "revoke_instruction ser iss i =
     \<lparr>ix_program_id = CAPABILITY_PROGRAM_ID, ix_accounts = [meta_new iss True], ix_data = ser (Revoke i)\<rparr>"

section \<open>The indexes\<close>

text \<open>What an index promises for a field \<^term>\<open>k\<close> of tokens: under each key, exactly once each, the ids of the stored tokens with that key.\<close>

definition index_ok :: "(capability_token \<Rightarrow> pubkey) \<Rightarrow> (capability_id \<rightharpoonup> capability_token) \<Rightarrow> (pubkey \<rightharpoonup> capability_id list) \<Rightarrow> bool" where
  "index_ok k caps ix \<longleftrightarrow> (\<forall>a. distinct (ids_of a ix) \<and> set (ids_of a ix) = {i. \<exists>t. caps i = Some t \<and> k t = a})"

lemma index_okI:
  "(\<And>a. distinct (ids_of a ix)) \<Longrightarrow> (\<And>a i. i \<in> set (ids_of a ix) \<longleftrightarrow> (\<exists>t. caps i = Some t \<and> k t = a)) \<Longrightarrow> index_ok k caps ix"
  unfolding index_ok_def by blast

lemma index_ok_mem: "index_ok k caps ix \<Longrightarrow> i \<in> set (ids_of a ix) \<longleftrightarrow> (\<exists>t. caps i = Some t \<and> k t = a)"
  unfolding index_ok_def by blast

lemma ids_of_push: "ids_of a (index_push b i ix) = (if a = b then ids_of a ix @ [i] else ids_of a ix)"
  by (simp add: ids_of_def index_push_def)

lemma ids_of_empty [simp]: "ids_of a Map.empty = []"
  by (simp add: ids_of_def)

text \<open>The operations of the registry keep an index over any field that using and revoking a token leave alone.\<close>

locale token_index =
  fixes k :: "capability_token \<Rightarrow> pubkey"
  assumes key_revoke: "k (cap_revoke t) = k t"
    and key_use: "record_use now x t = Inr t' \<Longrightarrow> k t' = k t"
begin

lemma index_issue:
  assumes "index_ok k caps ix" and "caps i = None"
  shows "index_ok k (caps(i \<mapsto> t)) (index_push (k t) i ix)"
proof (rule index_okI)
  have "i \<notin> set (ids_of a ix)" for a using index_ok_mem [OF assms(1)] assms(2) by simp
  then show "distinct (ids_of a (index_push (k t) i ix))" for a
    using assms(1) by (simp add: ids_of_push index_ok_def)
  show "j \<in> set (ids_of a (index_push (k t) i ix)) \<longleftrightarrow> (\<exists>t'. (caps(i \<mapsto> t)) j = Some t' \<and> k t' = a)" for a j
    using index_ok_mem [OF assms(1), of j a] assms(2) by (auto simp: ids_of_push)
qed

lemma index_update: "index_ok k caps ix \<Longrightarrow> caps i = Some t \<Longrightarrow> k t' = k t \<Longrightarrow> index_ok k (caps(i \<mapsto> t')) ix"
  by (auto simp: index_ok_def)

lemma index_rebuild_fold:
  assumes "distinct (map fst kept)" and "set (map fst kept) \<inter> dom caps = {}" and "index_ok k caps ix"
  shows "index_ok k (caps ++ map_of kept) (fold (\<lambda>(i, t). index_push (k t) i) kept ix)"
  using assms
proof (induction kept arbitrary: caps ix)
  case (Cons p kept)
  obtain i t where p: "p = (i, t)" by (cases p)
  from Cons.prems p have i: "caps i = None" "i \<notin> set (map fst kept)" by auto
  have "distinct (map fst kept)" "set (map fst kept) \<inter> dom (caps(i \<mapsto> t)) = {}" using Cons.prems(1,2) p i(2) by simp_all
  note Cons.IH [OF this index_issue [OF Cons.prems(3) i(1), of t]]
  moreover have "caps(i \<mapsto> t) ++ map_of kept = caps ++ map_of ((i, t) # kept)"
    using i(2) by (auto simp: map_add_def fun_eq_iff dest: map_of_SomeD split: option.splits) (metis fst_conv image_eqI map_of_SomeD)+
  ultimately show ?case unfolding p by (simp only: fold_simps prod.case)
qed simp

lemma index_empty: "index_ok k Map.empty Map.empty"
  by (simp add: index_ok_def)

lemma index_rebuild:
  "distinct (map fst kept) \<Longrightarrow> index_ok k (map_of kept) (fold (\<lambda>(i, t). index_push (k t) i) kept Map.empty)"
  using index_rebuild_fold [OF _ _ index_empty, of kept] by simp

end

lemma record_use_fields:
  assumes "record_use now x t = Inr t'"
  shows "t' = t\<lparr>use_count := use_count t + 1, total_transferred := total_transferred t + x\<rparr>" and "cap_is_valid now t = Inr ()"
  using assms by (auto simp: record_use_def split: sum.splits)

interpretation grantees: token_index grantee
  by unfold_locales (auto simp: cap_revoke_def dest: record_use_fields)

interpretation issuers: token_index issuer
  by unfold_locales (auto simp: cap_revoke_def dest: record_use_fields)

section \<open>Well-formed registries\<close>

definition registry_ok :: "capability_registry \<Rightarrow> bool" where
  "registry_ok r \<longleftrightarrow> (\<forall>i t. capabilities r i = Some t \<longrightarrow> cap_id t = i)
     \<and> index_ok grantee (capabilities r) (by_grantee r) \<and> index_ok issuer (capabilities r) (by_issuer r)"

lemma registry_ok_new: "registry_ok cap_registry_new"
  by (simp add: registry_ok_def cap_registry_new_def grantees.index_empty issuers.index_empty)

lemma registry_ok_issue: "registry_ok r \<Longrightarrow> issue t r = Inr (r', i) \<Longrightarrow> registry_ok r'"
  by (auto simp: registry_ok_def issue_def grantees.index_issue issuers.index_issue split: if_splits)

lemma registry_ok_update:
  assumes "registry_ok r" and "capabilities r i = Some t" and "cap_id t' = cap_id t" "grantee t' = grantee t" "issuer t' = issuer t"
  shows "registry_ok (r\<lparr>capabilities := (capabilities r)(i \<mapsto> t')\<rparr>)"
  using assms by (auto simp: registry_ok_def intro: grantees.index_update issuers.index_update)

lemma registry_ok_revoke: "registry_ok r \<Longrightarrow> registry_revoke i who r = Inr r' \<Longrightarrow> registry_ok r'"
  by (auto simp: registry_revoke_def cap_revoke_def intro!: registry_ok_update split: option.splits if_splits)

text \<open>A use that goes through, and what it leaves.\<close>

lemma use_capabilityD:
  assumes "use_capability now i k act r = Inr r'"
  obtains t where "capabilities r i = Some t" and "grantee t = k" and "cap_allows now act t = Inr ()"
    and "r' = r\<lparr>capabilities := (capabilities r)(i \<mapsto> t\<lparr>use_count := use_count t + 1, total_transferred := total_transferred t + transfer_amount act\<rparr>)\<rparr>"
  using assms by (auto simp: use_capability_def record_use_def split: option.splits if_splits sum.splits)

lemma registry_ok_use: "registry_ok r \<Longrightarrow> use_capability now i k act r = Inr r' \<Longrightarrow> registry_ok r'"
  by (erule use_capabilityD) (auto intro!: registry_ok_update)

lemma map_of_kept:
  assumes "distinct ids" and "set ids = dom caps"
  shows "map_of (filter_map (\<lambda>i. map_option (Pair i) (caps' i)) ids) i = (if i \<in> dom caps then caps' i else None)"
    and "distinct (map fst (filter_map (\<lambda>i. map_option (Pair i) (caps' i)) ids))"
proof -
  have f: "set (map fst (filter_map (\<lambda>i. map_option (Pair i) (caps' i)) js)) \<subseteq> set js" for js
    by (induction js) (auto split: option.splits)
  have "map_of (filter_map (\<lambda>i. map_option (Pair i) (caps' i)) js) i = (if i \<in> set js then caps' i else None)" if "distinct js" for js
    using that
  proof (induction js)
    case (Cons j js)
    then show ?case using f [of js] by (auto split: option.splits simp: map_of_eq_None_iff)
  qed simp
  from this [OF assms(1)] show "map_of (filter_map (\<lambda>i. map_option (Pair i) (caps' i)) ids) i = (if i \<in> dom caps then caps' i else None)"
    using assms(2) by simp
  show "distinct (map fst (filter_map (\<lambda>i. map_option (Pair i) (caps' i)) ids))"
    using assms(1)
  proof (induction ids)
    case (Cons j js)
    then show ?case using f [of js] by (auto split: option.splits)
  qed simp
qed

lemma registry_ok_cleanup:
  assumes "registry_ok r" and "distinct ids" "set ids = dom (capabilities r)"
  shows "registry_ok (cleanup_capabilities now ids r)"
proof -
  let ?caps = "\<lambda>i. case capabilities r i of None \<Rightarrow> None | Some t \<Rightarrow> if retained now t then Some t else None"
  let ?kept = "filter_map (\<lambda>i. map_option (Pair i) (?caps i)) ids"
  have "map_of ?kept i = ?caps i" for i
    unfolding map_of_kept(1) [OF assms(2,3), of ?caps i] by (cases "capabilities r i") auto
  then have m: "map_of ?kept = ?caps" by blast
  note d = map_of_kept(2) [OF assms(2,3), of ?caps]
  have "\<forall>i t. ?caps i = Some t \<longrightarrow> cap_id t = i"
    using assms(1) by (auto simp: registry_ok_def split: option.splits if_splits)
  with grantees.index_rebuild [OF d] issuers.index_rebuild [OF d] show ?thesis
    by (simp add: cleanup_capabilities_def registry_ok_def m Let_def)
qed

section \<open>Runs of the registry\<close>

text \<open>
  A registry is driven by the four operations that change it; tokens are issued as \<^verbatim>\<open>CapabilityToken::new\<close> makes them, with any signature. (\<^verbatim>\<open>get_mut\<close>,
  which hands out a token to be changed at will, is left out.) Beside the registry a run keeps the log of the amounts moved under each token, from the time it was issued.
\<close>

definition fresh_token :: "crypto \<Rightarrow> (capability_scope \<Rightarrow> u8 list) \<Rightarrow> capability_token \<Rightarrow> bool" where
  "fresh_token cr ser t \<longleftrightarrow> (\<exists>now iss gr sc expiry uses nonce sg. t = set_signature sg (token_new cr ser now iss gr sc expiry uses nonce))"

type_synonym use_log = "(capability_id \<times> u64) list"

inductive registry_run :: "crypto \<Rightarrow> (capability_scope \<Rightarrow> u8 list) \<Rightarrow> capability_registry \<Rightarrow> use_log \<Rightarrow> bool" for cr ser where
  run_new: "registry_run cr ser cap_registry_new []"
| run_issue: "registry_run cr ser r l \<Longrightarrow> fresh_token cr ser t \<Longrightarrow> issue t r = Inr (r', i) \<Longrightarrow> registry_run cr ser r' (filter (\<lambda>p. fst p \<noteq> i) l)"
| run_revoke: "registry_run cr ser r l \<Longrightarrow> registry_revoke i who r = Inr r' \<Longrightarrow> registry_run cr ser r' l"
| run_use: "registry_run cr ser r l \<Longrightarrow> use_capability now i k act r = Inr r' \<Longrightarrow> registry_run cr ser r' ((i, transfer_amount act) # l)"
| run_cleanup: "registry_run cr ser r l \<Longrightarrow> distinct ids \<Longrightarrow> set ids = dom (capabilities r) \<Longrightarrow> registry_run cr ser (cleanup_capabilities now ids r) l"

text \<open>What was moved under one token.\<close>

definition moved_under :: "capability_id \<Rightarrow> use_log \<Rightarrow> u64 list" where
  "moved_under i l = map snd (filter (\<lambda>p. fst p = i) l)"

lemma moved_under_simps [simp]:
  "moved_under i [] = []"
  "moved_under i ((j, x) # l) = (if j = i then x # moved_under i l else moved_under i l)"
  "moved_under i (filter (\<lambda>p. fst p \<noteq> j) l) = (if i = j then [] else moved_under i l)"
  by (auto simp: moved_under_def filter_filter intro!: filter_False arg_cong [where f = "map snd"] filter_cong)

text \<open>A token accounts for its log: counters as machine words, limits as numbers. The limit on the total holds as a number when one more transfer cannot carry the sum past 64 bits.\<close>

definition accounts_for :: "u64 list \<Rightarrow> capability_token \<Rightarrow> bool" where
  "accounts_for xs t \<longleftrightarrow> use_count t = of_nat (length xs) \<and> total_transferred t = of_nat (sum_list (map unat xs))
     \<and> (\<forall>mx. max_uses t = Some mx \<longrightarrow> length xs \<le> unat mx)
     \<and> (\<forall>c. max_transfer_per_call (scope t) = Some c \<longrightarrow> (\<forall>x\<in>set xs. x \<le> c))
     \<and> (\<forall>c cap. max_transfer_per_call (scope t) = Some c \<and> max_transfer_total (scope t) = Some cap \<and> unat cap + unat c < 2 ^ 64
          \<longrightarrow> sum_list (map unat xs) \<le> unat cap)"

lemma accounts_for_fresh: "fresh_token cr ser t \<Longrightarrow> accounts_for [] t"
  by (auto simp: accounts_for_def fresh_token_def set_signature_def token_new_def)

lemma accounts_for_revoke [simp]: "accounts_for xs (cap_revoke t) = accounts_for xs t"
  by (simp add: accounts_for_def cap_revoke_def)

lemma cap_allows_limits:
  assumes "cap_allows now act t = Inr ()"
  shows "\<not> revoked t" and "now \<le> cap_expires_at t" and "allows_action (scope t) act" and "max_uses t = Some mx \<Longrightarrow> use_count t < mx"
    and "max_transfer_per_call (scope t) = Some c \<Longrightarrow> transfer_amount act \<le> c"
    and "max_transfer_total (scope t) = Some cap \<Longrightarrow> total_transferred t + transfer_amount act \<le> cap"
  using assms by (auto simp: cap_allows_def cap_is_valid_def allows_action_def split: sum.splits if_splits option.splits)

lemma accounts_for_use:
  assumes "accounts_for xs t" and "cap_allows now act t = Inr ()"
  shows "accounts_for (transfer_amount act # xs)
    (t\<lparr>use_count := use_count t + 1, total_transferred := total_transferred t + transfer_amount act\<rparr>)"
proof -
  let ?x = "transfer_amount act"
  note limits = cap_allows_limits [OF assms(2)]
  have tot: "total_transferred t + ?x = of_nat (sum_list (map unat (?x # xs)))"
    using assms(1) by (simp add: accounts_for_def add.commute)
  have uses: "length (?x # xs) \<le> unat mx" if "max_uses t = Some mx" for mx
  proof -
    have "length xs \<le> unat mx" "use_count t = of_nat (length xs)" using assms(1) that by (auto simp: accounts_for_def)
    moreover have "unat mx < 2 ^ 32" using unsigned_less [of mx] by simp
    ultimately have "unat (use_count t) = length xs" by (simp add: unat_of_nat take_bit_nat_eq_self)
    with limits(4) [OF that] show ?thesis by (simp add: word_less_nat_alt)
  qed
  have total: "sum_list (map unat (?x # xs)) \<le> unat cap"
    if s: "max_transfer_per_call (scope t) = Some c" "max_transfer_total (scope t) = Some cap" "unat cap + unat c < 2 ^ 64" for c cap
  proof -
    have "sum_list (map unat xs) \<le> unat cap" using assms(1) s by (auto simp: accounts_for_def)
    moreover have "unat ?x \<le> unat c" using limits(5) [OF s(1)] by (simp add: word_le_nat_alt)
    ultimately have "sum_list (map unat (?x # xs)) < 2 ^ 64" using s(3) by simp
    moreover have "unat (of_nat n :: u64) = n" if "n < 2 ^ 64" for n using that by (simp add: unat_of_nat take_bit_nat_eq_self)
    ultimately have "unat (total_transferred t + ?x) = sum_list (map unat (?x # xs))" unfolding tot by blast
    with limits(6) [OF s(2)] show ?thesis by (simp add: word_le_nat_alt)
  qed
  have call: "\<forall>x\<in>set (?x # xs). x \<le> c" if "max_transfer_per_call (scope t) = Some c" for c
    using assms(1) that limits(5) by (auto simp: accounts_for_def)
  have "use_count t + 1 = of_nat (length (?x # xs))" using assms(1) by (simp add: accounts_for_def)
  with tot uses total call show ?thesis unfolding accounts_for_def by simp
qed

lemma registry_run_inv:
  assumes "registry_run cr ser r l"
  shows "registry_ok r \<and> (\<forall>i t. capabilities r i = Some t \<longrightarrow> accounts_for (moved_under i l) t)"
  using assms
proof induction
  case run_new
  then show ?case by (simp add: registry_ok_new) (simp add: cap_registry_new_def)
next
  case (run_issue r l t r' i)
  then show ?case
    using registry_ok_issue [of r t r' i] accounts_for_fresh [of cr ser t] by (auto simp: issue_def split: if_splits)
next
  case (run_revoke r l i who r')
  then show ?case
    using registry_ok_revoke [of r i who r'] by (auto simp: registry_revoke_def split: option.splits if_splits)
next
  case (run_use r l now i k act r')
  from \<open>use_capability now i k act r = Inr r'\<close> show ?case
    by (rule use_capabilityD) (use run_use registry_ok_use [of r now i k act r'] accounts_for_use in auto)
next
  case (run_cleanup r l ids now)
  then show ?case
    using registry_ok_cleanup [of r ids now] by (auto simp: cleanup_capabilities_def Let_def split: option.splits if_splits)
qed

text \<open>C19. The registry is well formed in every run: a token is stored under its own id, and both indexes list, under each key and without repetition, exactly the ids of the
  stored tokens of that grantee or issuer. Issuing, using, revoking and cleaning up all keep this.\<close>

theorem registry_well_formed:
  assumes "registry_run cr ser r l"
  shows "registry_ok r"
  using registry_run_inv [OF assms] by blast

text \<open>C20. Each limit of a capability holds over its whole life in the registry, whether or not the other limits are set: with a maximum of uses it is used at most that often; with a
  limit per call no use moves more than that; and with a limit per call and one on the total whose sum fits in 64 bits the amounts moved under it add up to no more than the total
  (without a limit per call, or past 64 bits, the compared sum can wrap). The counters of the token are the number of uses and the amount moved, as 32- and 64-bit numbers. The
  histories are those of issuing, using, revoking and cleaning up; tokens are issued as token_new makes them, with both counters at zero and any signature, and no token is changed from
  outside through get_mut.\<close>

theorem capability_limits_hold:
  assumes "registry_run cr ser r l" and "capabilities r i = Some t"
  shows "(\<forall>mx. max_uses t = Some mx \<longrightarrow> length (moved_under i l) \<le> unat mx)
    \<and> (\<forall>c. max_transfer_per_call (scope t) = Some c \<longrightarrow> (\<forall>x\<in>set (moved_under i l). x \<le> c))
    \<and> (\<forall>c cap. max_transfer_per_call (scope t) = Some c \<and> max_transfer_total (scope t) = Some cap \<and> unat cap + unat c < 2 ^ 64
          \<longrightarrow> sum_list (map unat (moved_under i l)) \<le> unat cap)
    \<and> use_count t = of_nat (length (moved_under i l)) \<and> total_transferred t = of_nat (sum_list (map unat (moved_under i l)))"
  using registry_run_inv [OF assms(1)] assms(2) unfolding accounts_for_def by blast

section \<open>Checking and using\<close>

lemma first_allowing_Inr: "first_allowing now act ts = Inr i \<Longrightarrow> \<exists>t\<in>set ts. cap_allows now act t = Inr () \<and> cap_id t = i"
  by (induction ts) (auto split: if_splits)

lemma first_allowing_Inl: "first_allowing now act ts = Inl e \<Longrightarrow> e = CapabilityNotFound \<and> (\<forall>t\<in>set ts. cap_allows now act t \<noteq> Inr ())"
  by (induction ts) (auto split: if_splits)

lemma set_filter_map: "set (filter_map f xs) = {y. \<exists>x\<in>set xs. f x = Some y}"
  by (induction xs) (auto split: option.splits)

lemma set_for_grantee:
  assumes "registry_ok r"
  shows "set (for_grantee now k r) = {t. \<exists>i. capabilities r i = Some t \<and> grantee t = k \<and> cap_is_valid now t = Inr ()}"
proof -
  have "for_grantee now k r = filter (\<lambda>t. cap_is_valid now t = Inr ()) (filter_map (capabilities r) (ids_of k (by_grantee r)))"
    by (simp add: for_grantee_def ids_of_def split: option.splits)
  moreover have "index_ok grantee (capabilities r) (by_grantee r)" using assms by (simp add: registry_ok_def)
  ultimately show ?thesis by (auto simp: set_filter_map index_ok_mem)
qed

lemma cap_allows_valid: "cap_allows now act t = Inr () \<Longrightarrow> cap_is_valid now t = Inr ()"
  by (auto simp: cap_allows_def split: sum.splits)

lemma use_capability_iff:
  "(\<exists>r'. use_capability now i k act r = Inr r') \<longleftrightarrow> (\<exists>t. capabilities r i = Some t \<and> grantee t = k \<and> cap_allows now act t = Inr ())"
  using cap_allows_valid [of now act]
  by (auto simp: use_capability_def record_use_def split: option.splits if_splits sum.splits)

text \<open>The check and the use agree: in a well-formed registry the check of a grantee for an action answers with an id exactly when some capability can be used for it, and
  the id it answers with can be.\<close>

theorem check_capability_exact:
  assumes "registry_ok r"
  shows "(case check_capability now k act r of
      Inr i \<Rightarrow> \<exists>r'. use_capability now i k act r = Inr r'
    | Inl e \<Rightarrow> e = CapabilityNotFound \<and> (\<nexists>i r'. use_capability now i k act r = Inr r'))"
proof (cases "check_capability now k act r")
  case (Inl e)
  then have "e = CapabilityNotFound" "\<forall>t\<in>set (for_grantee now k r). cap_allows now act t \<noteq> Inr ()"
    unfolding check_capability_def by (auto dest: first_allowing_Inl)
  moreover have "\<nexists>i r'. use_capability now i k act r = Inr r'"
    using calculation(2) cap_allows_valid by (auto simp: use_capability_iff set_for_grantee [OF assms])
  ultimately show ?thesis by (simp add: Inl)
next
  case (Inr i)
  then obtain t where t: "t \<in> set (for_grantee now k r)" "cap_allows now act t = Inr ()" "cap_id t = i"
    unfolding check_capability_def by (auto dest: first_allowing_Inr)
  with assms have "capabilities r i = Some t" "grantee t = k"
    by (auto simp: set_for_grantee registry_ok_def)
  with t(2) show ?thesis by (auto simp: Inr use_capability_iff)
qed

section \<open>Revocation\<close>

inductive registry_step :: "capability_registry \<Rightarrow> capability_registry \<Rightarrow> bool" where
  st_issue: "issue t r = Inr (r', i) \<Longrightarrow> registry_step r r'"
| st_revoke: "registry_revoke i who r = Inr r' \<Longrightarrow> registry_step r r'"
| st_use: "use_capability now i k act r = Inr r' \<Longrightarrow> registry_step r r'"

lemma step_keeps_revoked:
  assumes "registry_step r r'" and "\<exists>t. capabilities r i = Some t \<and> revoked t"
  shows "\<exists>t. capabilities r' i = Some t \<and> revoked t"
  using assms
proof cases
  case (st_use now j k act)
  then show ?thesis using assms(2) by (auto elim!: use_capabilityD)
qed (auto simp: issue_def registry_revoke_def cap_revoke_def split: if_splits option.splits)

lemma steps_keep_revoked:
  "registry_step\<^sup>*\<^sup>* r r' \<Longrightarrow> \<exists>t. capabilities r i = Some t \<and> revoked t \<Longrightarrow> \<exists>t. capabilities r' i = Some t \<and> revoked t"
  by (induction rule: rtranclp_induct) (auto dest: step_keeps_revoked)

text \<open>Revoking is final for as long as the token is stored: from the moment its issuer revokes it no grantee can use it, whatever other operations come in between; only
  a clean-up, which drops revoked tokens that have also expired, frees its id.\<close>

theorem revoked_never_used:
  assumes "registry_revoke i who r = Inr r1" and "registry_step\<^sup>*\<^sup>* r1 r2"
  shows "use_capability now i k act r2 \<in> {Inl CapabilityRevoked, Inl CapabilityUnauthorized}"
proof -
  have "\<exists>t. capabilities r1 i = Some t \<and> revoked t"
    using assms(1) by (auto simp: registry_revoke_def cap_revoke_def split: option.splits if_splits)
  from steps_keep_revoked [OF assms(2) this] show ?thesis
    by (elim exE conjE) (simp add: use_capability_def cap_allows_def cap_is_valid_def)
qed

section \<open>Examples\<close>

text \<open>A capability to move at most 50 in one call and 100 in all, in at most 3 uses, issued by 1 to 2 and used once for 40.\<close>

definition demo_scope :: capability_scope where
  "demo_scope = with_max_transfer_per_call 50 (with_max_transfer_total 100 (for_program 7))"

definition demo_cap :: capability_token where
  "demo_cap = token_new toy_crypto (\<lambda>_. []) 0 1 2 demo_scope 1000 (Some 3) 0"

definition demo_action :: capability_action where
  "demo_action = \<lparr>action_program_id = 7, action_method = ''pay'', action_accounts = [], transfer_amount = 40\<rparr>"

definition demo_cap_used :: capability_token where
  "demo_cap_used = demo_cap\<lparr>use_count := 1, total_transferred := 40\<rparr>"

definition demo_registry :: "capability_token \<Rightarrow> capability_registry" where
  "demo_registry t = \<lparr>capabilities = [cap_id t \<mapsto> t], by_grantee = [grantee t \<mapsto> [cap_id t]], by_issuer = [issuer t \<mapsto> [cap_id t]]\<rparr>"

lemma demo_cap_fields: "grantee demo_cap = 2" "issuer demo_cap = 1" "scope demo_cap = demo_scope" "max_uses demo_cap = Some 3"
    "use_count demo_cap = 0" "total_transferred demo_cap = 0" "\<not> revoked demo_cap" "cap_expires_at demo_cap = 1000"
    "cap_id demo_cap_used = cap_id demo_cap" "grantee demo_cap_used = 2" "issuer demo_cap_used = 1" "scope demo_cap_used = demo_scope" "max_uses demo_cap_used = Some 3"
    "max_transfer_per_call demo_scope = Some 50" "max_transfer_total demo_scope = Some 100"
  by (simp_all add: demo_cap_def demo_cap_used_def token_new_def demo_scope_def with_max_transfer_per_call_def with_max_transfer_total_def for_program_def)

lemma demo_allows: "cap_allows 5 demo_action demo_cap = Inr ()"
  by (simp add: cap_allows_def cap_is_valid_def demo_cap_fields allows_action_def demo_action_def)
    (simp add: demo_scope_def with_max_transfer_per_call_def with_max_transfer_total_def for_program_def)

lemma demo_issue: "issue demo_cap cap_registry_new = Inr (demo_registry demo_cap, cap_id demo_cap)"
  by (simp add: issue_def cap_registry_new_def demo_registry_def index_push_def ids_of_def)

lemma demo_use: "use_capability 5 (cap_id demo_cap) 2 demo_action (demo_registry demo_cap) = Inr (demo_registry demo_cap_used)"
  using cap_allows_valid [OF demo_allows] demo_allows
  by (simp add: use_capability_def demo_registry_def record_use_def demo_cap_fields) (simp add: demo_cap_used_def demo_cap_fields demo_action_def)

lemma demo_registry_run: "registry_run toy_crypto (\<lambda>_. []) (demo_registry demo_cap_used) [(cap_id demo_cap, 40)]"
proof -
  have "demo_cap = set_signature 0 demo_cap" by (simp add: demo_cap_def token_new_def set_signature_def)
  then have "fresh_token toy_crypto (\<lambda>_. []) demo_cap" unfolding fresh_token_def demo_cap_def by blast
  from run_use [OF run_issue [OF run_new this demo_issue] demo_use] show ?thesis by (simp add: demo_action_def)
qed

theorem registry_well_formed_witness: "registry_ok (demo_registry demo_cap_used)"
  by (rule registry_well_formed [OF demo_registry_run])

theorem capability_limits_hold_witness:
  "moved_under (cap_id demo_cap) [(cap_id demo_cap, 40)] = [40] \<and> length [40 :: u64] \<le> unat (3 :: u32) \<and> sum_list (map unat [40 :: u64]) \<le> unat (100 :: u64)"
  using capability_limits_hold [OF demo_registry_run, of "cap_id demo_cap" demo_cap_used]
  by (simp add: demo_registry_def demo_cap_fields)

lemma demo_registry_ok: "registry_ok (demo_registry demo_cap)"
  using registry_ok_issue [OF registry_ok_new demo_issue] .

theorem check_capability_exact_witness:
  "case check_capability 5 2 demo_action (demo_registry demo_cap) of
      Inr i \<Rightarrow> \<exists>r'. use_capability 5 i 2 demo_action (demo_registry demo_cap) = Inr r'
    | Inl e \<Rightarrow> e = CapabilityNotFound \<and> (\<nexists>i r'. use_capability 5 i 2 demo_action (demo_registry demo_cap) = Inr r')"
  using check_capability_exact [OF demo_registry_ok] .

theorem revoked_never_used_witness:
  "use_capability 5 (cap_id demo_cap) 2 demo_action (demo_registry (cap_revoke demo_cap)) \<in> {Inl CapabilityRevoked, Inl CapabilityUnauthorized}"
proof -
  have "registry_revoke (cap_id demo_cap) 1 (demo_registry demo_cap) = Inr (demo_registry (cap_revoke demo_cap))"
    by (simp add: registry_revoke_def demo_registry_def demo_cap_fields) (simp add: cap_revoke_def demo_cap_fields)
  from revoked_never_used [OF this rtranclp.rtrancl_refl] show ?thesis .
qed

text \<open>Without a limit per call the sum that is compared with the limit on the total wraps: after a transfer of 40 a single call may move all but 40 of the 64-bit range.\<close>

lemma transfer_total_wraps:
  "cap_allows 5 \<lparr>action_program_id = 7, action_method = ''pay'', action_accounts = [], transfer_amount = - 40\<rparr>
     (demo_cap_used\<lparr>scope := with_max_transfer_total 100 (for_program 7)\<rparr>) = Inr ()"
  by (simp add: cap_allows_def cap_is_valid_def demo_cap_used_def demo_cap_fields allows_action_def with_max_transfer_total_def for_program_def word_le_nat_alt)

text \<open>A clean-up keeps a token that has expired, unless it was revoked as well.\<close>

lemma cleanup_keeps_expired: "now > cap_expires_at t \<Longrightarrow> \<not> revoked t \<Longrightarrow> capabilities r i = Some t \<Longrightarrow> capabilities (cleanup_capabilities now ids r) i = Some t"
  by (simp add: cleanup_capabilities_def Let_def retained_def)

end
