(* ===== verification/Messaging.thy ===== *)
theory Messaging
  imports Chain_Core
begin

text \<open>
  Messages of \<^verbatim>\<open>crates/dchat-messaging\<close>: the message type and its builder (\<^verbatim>\<open>types.rs\<close>), delivery in sequence order
  (\<^verbatim>\<open>ordering.rs\<close>), the bounded queues for offline users (\<^verbatim>\<open>queue.rs\<close>) and expiration policies (\<^verbatim>\<open>expiration.rs\<close>). A point of time is
  a number of nanoseconds; the clock and fresh ids are arguments. A \<^verbatim>\<open>usize\<close> has 64 bits.
\<close>

section \<open>Messages\<close>

type_synonym message_id = "128 word"
type_synonym channel_id = "128 word"

datatype message_content =
    Text string
  | Image "u8 list" string
  | File "u8 list" string string
  | Audio "u8 list" u64
  | Video "u8 list" u64 u32 u32
  | Sticker string string
  | SystemText string

datatype message_status = MsgCreated | MsgSent | MsgDelivered | MsgRead | MsgFailed | MsgExpired

datatype message_type = Direct user_id user_id | ChannelMsg user_id channel_id | SystemMsg string

record message =
  msg_id :: message_id
  msg_type :: message_type
  msg_content :: message_content
  encrypted_payload :: "u8 list"
  msg_timestamp :: timestamp
  msg_sequence :: "u64 option"
  msg_status :: message_status
  expires_at :: "timestamp option"
  msg_size :: u64

definition msg_is_expired :: "timestamp \<Rightarrow> message \<Rightarrow> bool" where
  "msg_is_expired now m = (case expires_at m of Some t \<Rightarrow> t < now | None \<Rightarrow> False)"

definition is_deliverable :: "timestamp \<Rightarrow> message \<Rightarrow> bool" where
  "is_deliverable now m \<longleftrightarrow> \<not> msg_is_expired now m \<and> msg_status m \<noteq> MsgExpired"

definition msg_sender :: "message \<Rightarrow> user_id option" where
  "msg_sender m = (case msg_type m of Direct s _ \<Rightarrow> Some s | ChannelMsg s _ \<Rightarrow> Some s | SystemMsg _ \<Rightarrow> None)"

definition msg_recipient :: "message \<Rightarrow> user_id option" where
  "msg_recipient m = (case msg_type m of Direct _ r \<Rightarrow> Some r | _ \<Rightarrow> None)"

record message_builder =
  b_type :: "message_type option"
  b_content :: "message_content option"
  b_payload :: "u8 list option"
  b_expires_at :: "timestamp option"

definition message_builder_new :: message_builder where
  "message_builder_new = \<lparr>b_type = None, b_content = None, b_payload = None, b_expires_at = None\<rparr>"

definition build_direct :: "user_id \<Rightarrow> user_id \<Rightarrow> message_builder \<Rightarrow> message_builder" where
  "build_direct s r b = b\<lparr>b_type := Some (Direct s r)\<rparr>"

definition build_channel :: "user_id \<Rightarrow> channel_id \<Rightarrow> message_builder \<Rightarrow> message_builder" where
  "build_channel s c b = b\<lparr>b_type := Some (ChannelMsg s c)\<rparr>"

definition build_content :: "message_content \<Rightarrow> message_builder \<Rightarrow> message_builder" where
  "build_content x b = b\<lparr>b_content := Some x\<rparr>"

definition build_payload :: "u8 list \<Rightarrow> message_builder \<Rightarrow> message_builder" where
  "build_payload bs b = b\<lparr>b_payload := Some bs\<rparr>"

definition build_expires_at :: "timestamp \<Rightarrow> message_builder \<Rightarrow> message_builder" where
  "build_expires_at t b = b\<lparr>b_expires_at := Some t\<rparr>"

definition build_expires_in :: "timestamp \<Rightarrow> int \<Rightarrow> message_builder \<Rightarrow> message_builder" where
  "build_expires_in now d b = b\<lparr>b_expires_at := Some (now + d)\<rparr>"

definition build :: "timestamp \<Rightarrow> message_id \<Rightarrow> message_builder \<Rightarrow> string + message" where
  "build now i b =
     (case b_type b of
        None \<Rightarrow> Inl ''Message type not set''
      | Some t \<Rightarrow> (case b_content b of
          None \<Rightarrow> Inl ''Content not set''
        | Some c \<Rightarrow> (case b_payload b of
            None \<Rightarrow> Inl ''Encrypted payload not set''
          | Some p \<Rightarrow> Inr \<lparr>msg_id = i, msg_type = t, msg_content = c, encrypted_payload = p, msg_timestamp = now, msg_sequence = None,
              msg_status = MsgCreated, expires_at = b_expires_at b, msg_size = of_nat (length p)\<rparr>)))"

section \<open>Ordering\<close>

record message_order =
  expected_sequences :: "string \<rightharpoonup> u64"
  pending_messages :: "string \<rightharpoonup> (u64 \<times> message_id) list"

definition order_new :: message_order where
  "order_new = \<lparr>expected_sequences = Map.empty, pending_messages = Map.empty\<rparr>"

definition next_number :: "u64 \<Rightarrow> u64" where
  "next_number s = s + 1"

text \<open>The closure given to \<^verbatim>\<open>retain\<close>, which advances the expected number while it filters.\<close>

fun deliver_loop :: "u64 \<Rightarrow> (u64 \<times> message_id) list \<Rightarrow> u64 \<times> (u64 \<times> message_id) list" where
  "deliver_loop e [] = (e, [])"
| "deliver_loop e ((s, i) # ps) =
     (if s = e then deliver_loop (next_number e) ps
      else case deliver_loop e ps of (e', qs) \<Rightarrow> (e', (s, i) # qs))"

text \<open>The number is present whenever this is called; the \<^verbatim>\<open>expect\<close> is the default value 0 here.\<close>

definition expected_of :: "string \<Rightarrow> message_order \<Rightarrow> u64" where
  "expected_of c mo = (case expected_sequences mo c of None \<Rightarrow> 0 | Some e \<Rightarrow> e)"

definition deliver_pending :: "string \<Rightarrow> message_order \<Rightarrow> message_order" where
  "deliver_pending c mo =
     (case pending_messages mo c of
        None \<Rightarrow> mo
      | Some ps \<Rightarrow> (case deliver_loop (expected_of c mo) (sort_key fst ps) of
          (e, qs) \<Rightarrow> mo\<lparr>expected_sequences := (expected_sequences mo)(c \<mapsto> e), pending_messages := (pending_messages mo)(c \<mapsto> qs)\<rparr>))"

definition pending_of :: "string \<Rightarrow> message_order \<Rightarrow> (u64 \<times> message_id) list" where
  "pending_of c mo = (case pending_messages mo c of None \<Rightarrow> [] | Some ps \<Rightarrow> ps)"

definition register_message :: "string \<Rightarrow> u64 \<Rightarrow> message_id \<Rightarrow> message_order \<Rightarrow> message_order \<times> bool" where
  "register_message c s i mo =
     (let e = expected_of c mo
      in if s = e then (deliver_pending c (mo\<lparr>expected_sequences := (expected_sequences mo)(c \<mapsto> next_number e)\<rparr>), True)
         else if s > e then
           (mo\<lparr>expected_sequences := (expected_sequences mo)(c \<mapsto> e),
               pending_messages := (pending_messages mo)(c \<mapsto> pending_of c mo @ [(s, i)])\<rparr>, False)
         else (mo\<lparr>expected_sequences := (expected_sequences mo)(c \<mapsto> e)\<rparr>, False))"

definition next_sequence :: "string \<Rightarrow> message_order \<Rightarrow> message_order \<times> u64" where
  "next_sequence c mo =
     (let e = expected_of c mo in (mo\<lparr>expected_sequences := (expected_sequences mo)(c \<mapsto> next_number e)\<rparr>, e))"

text \<open>The inner loop of \<^verbatim>\<open>check_gaps\<close>: the numbers from one up to below another.\<close>

function gap_range :: "u64 \<Rightarrow> u64 \<Rightarrow> u64 list" where
  "gap_range current s = (if current < s then current # gap_range (next_number current) s else [])"
  by pat_completeness auto

lemma unat_next:
  assumes "c < s"
  shows "unat (next_number c) = unat c + 1"
proof -
  have "unat c + unat (1 :: u64) < 2 ^ LENGTH(64)"
    using assms unsigned_less [of s, where 'a = nat] by (simp add: word_less_nat_alt)
  from unat_add_no_overflow [OF this] show ?thesis by (simp add: next_number_def)
qed

termination gap_range
  by (relation "measure (\<lambda>(c, s). unat s - unat c)") (auto simp: unat_next word_less_nat_alt)

declare gap_range.simps [simp del]

fun gap_loop :: "u64 \<Rightarrow> u64 list \<Rightarrow> u64 list" where
  "gap_loop current [] = []"
| "gap_loop current (s # ss) = gap_range current s @ gap_loop (next_number s) ss"

definition check_gaps :: "string \<Rightarrow> message_order \<Rightarrow> u64 list" where
  "check_gaps c mo =
     (case pending_messages mo c of
        None \<Rightarrow> []
      | Some ps \<Rightarrow> gap_loop (expected_of c mo) (sort (map fst ps)))"

definition order_pending_count :: "string \<Rightarrow> message_order \<Rightarrow> nat" where
  "order_pending_count c mo = length (pending_of c mo)"

section \<open>Queues\<close>

record message_queue =
  q_pending :: "message list"
  q_max_size :: u64
  q_total_bytes :: u64
  q_max_bytes :: u64

definition queue_new :: "u64 \<Rightarrow> u64 \<Rightarrow> message_queue" where
  "queue_new n b = \<lparr>q_pending = [], q_max_size = n, q_total_bytes = 0, q_max_bytes = b\<rparr>"

definition queue_push :: "message \<Rightarrow> message_queue \<Rightarrow> message_queue core_result" where
  "queue_push m q =
     (if unat (q_max_size q) \<le> length (q_pending q) then Inl Messaging
      else if q_total_bytes q + msg_size m > q_max_bytes q then Inl Messaging
      else Inr (q\<lparr>q_total_bytes := q_total_bytes q + msg_size m, q_pending := q_pending q @ [m]\<rparr>))"

definition queue_pop :: "message_queue \<Rightarrow> message_queue \<times> message option" where
  "queue_pop q =
     (case q_pending q of
        [] \<Rightarrow> (q, None)
      | m # ms \<Rightarrow> (q\<lparr>q_pending := ms, q_total_bytes := saturating_sub (q_total_bytes q) (msg_size m)\<rparr>, Some m))"

definition queue_peek :: "message_queue \<Rightarrow> message option" where
  "queue_peek q = (case q_pending q of [] \<Rightarrow> None | m # _ \<Rightarrow> Some m)"

text \<open>The closure given to \<^verbatim>\<open>retain\<close> lowers the number of bytes for every message it drops.\<close>

fun retain_fresh :: "timestamp \<Rightarrow> u64 \<Rightarrow> message list \<Rightarrow> u64 \<times> message list" where
  "retain_fresh now b [] = (b, [])"
| "retain_fresh now b (m # ms) =
     (if msg_is_expired now m then retain_fresh now (saturating_sub b (msg_size m)) ms
      else case retain_fresh now b ms of (b', ms') \<Rightarrow> (b', m # ms'))"

definition remove_expired :: "timestamp \<Rightarrow> message_queue \<Rightarrow> message_queue \<times> nat" where
  "remove_expired now q =
     (case retain_fresh now (q_total_bytes q) (q_pending q) of
        (b, ms) \<Rightarrow> (q\<lparr>q_pending := ms, q_total_bytes := b\<rparr>, length (q_pending q) - length ms))"

record offline_queue =
  queues :: "user_id \<rightharpoonup> message_queue"
  default_max_messages :: u64
  default_max_bytes :: u64

definition offline_new :: "u64 \<Rightarrow> u64 \<Rightarrow> offline_queue" where
  "offline_new n b = \<lparr>queues = Map.empty, default_max_messages = n, default_max_bytes = b\<rparr>"

definition offline_default :: offline_queue where
  "offline_default = offline_new 1000 10000000"

definition enqueue :: "user_id \<Rightarrow> message \<Rightarrow> offline_queue \<Rightarrow> offline_queue \<times> unit core_result" where
  "enqueue u m oq =
     (let q = (case queues oq u of None \<Rightarrow> queue_new (default_max_messages oq) (default_max_bytes oq) | Some q \<Rightarrow> q)
      in case queue_push m q of
        Inl e \<Rightarrow> (oq\<lparr>queues := (queues oq)(u \<mapsto> q)\<rparr>, Inl e)
      | Inr q' \<Rightarrow> (oq\<lparr>queues := (queues oq)(u \<mapsto> q')\<rparr>, Inr ()))"

function pop_all :: "message_queue \<Rightarrow> message list" where
  "pop_all q = (case queue_pop q of (q', Some m) \<Rightarrow> m # pop_all q' | (q', None) \<Rightarrow> [])"
  by pat_completeness auto
termination
  by (relation "measure (\<lambda>q. length (q_pending q))") (auto simp: queue_pop_def split: list.splits)

declare pop_all.simps [simp del]

definition dequeue_all :: "user_id \<Rightarrow> offline_queue \<Rightarrow> offline_queue \<times> message list" where
  "dequeue_all u oq =
     (case queues oq u of
        None \<Rightarrow> (oq, [])
      | Some q \<Rightarrow> (oq\<lparr>queues := (queues oq)(u := None)\<rparr>, pop_all q))"

definition offline_pending_count :: "user_id \<Rightarrow> offline_queue \<Rightarrow> nat" where
  "offline_pending_count u oq = (case queues oq u of None \<Rightarrow> 0 | Some q \<Rightarrow> length (q_pending q))"

definition offline_total_pending :: "offline_queue \<Rightarrow> nat" where
  "offline_total_pending oq = (\<Sum>u\<in>dom (queues oq). offline_pending_count u oq)"

definition cleanup_queues :: "timestamp \<Rightarrow> offline_queue \<Rightarrow> offline_queue \<times> nat" where
  "cleanup_queues now oq =
     (let cleaned = (\<lambda>u. map_option (\<lambda>q. fst (remove_expired now q)) (queues oq u))
      in (oq\<lparr>queues := (\<lambda>u. case cleaned u of None \<Rightarrow> None | Some q \<Rightarrow> if q_pending q = [] then None else Some q)\<rparr>,
          \<Sum>u\<in>dom (queues oq). (case queues oq u of None \<Rightarrow> 0 | Some q \<Rightarrow> snd (remove_expired now q))))"

section \<open>Expiration\<close>

datatype expiration_policy = NeverExpire | ExpireAfter int | ExpireAt timestamp | AfterRead | AfterViews u32

definition policy_should_expire :: "timestamp \<Rightarrow> message \<Rightarrow> u32 \<Rightarrow> expiration_policy \<Rightarrow> bool" where
  "policy_should_expire now m views p =
     (case p of
        NeverExpire \<Rightarrow> False
      | ExpireAfter d \<Rightarrow> (if msg_timestamp m \<le> now then d \<le> now - msg_timestamp m else False)
      | ExpireAt t \<Rightarrow> t \<le> now
      | AfterRead \<Rightarrow> views > 0
      | AfterViews k \<Rightarrow> views \<ge> k)"

record message_expiration =
  policies :: "message_id \<rightharpoonup> expiration_policy"
  view_counts :: "message_id \<rightharpoonup> u32"

definition expiration_new :: message_expiration where
  "expiration_new = \<lparr>policies = Map.empty, view_counts = Map.empty\<rparr>"

definition set_policy :: "message_id \<Rightarrow> expiration_policy \<Rightarrow> message_expiration \<Rightarrow> message_expiration" where
  "set_policy i p x = x\<lparr>policies := (policies x)(i \<mapsto> p)\<rparr>"

definition view_count :: "message_id \<Rightarrow> message_expiration \<Rightarrow> u32" where
  "view_count i x = (case view_counts x i of None \<Rightarrow> 0 | Some n \<Rightarrow> n)"

definition record_view :: "message_id \<Rightarrow> message_expiration \<Rightarrow> message_expiration" where
  "record_view i x = x\<lparr>view_counts := (view_counts x)(i \<mapsto> view_count i x + 1)\<rparr>"

definition should_expire :: "timestamp \<Rightarrow> message \<Rightarrow> message_expiration \<Rightarrow> bool" where
  "should_expire now m x =
     (if msg_is_expired now m then True
      else case policies x (msg_id m) of
        Some p \<Rightarrow> policy_should_expire now m (view_count (msg_id m) x) p
      | None \<Rightarrow> False)"

definition remove_expiration :: "message_id \<Rightarrow> message_expiration \<Rightarrow> message_expiration" where
  "remove_expiration i x = x\<lparr>policies := (policies x)(i := None), view_counts := (view_counts x)(i := None)\<rparr>"

definition cleanup_expiration :: "timestamp \<Rightarrow> message list \<Rightarrow> message_expiration \<Rightarrow> message_expiration" where
  "cleanup_expiration now ms x = fold remove_expiration (map msg_id (filter (\<lambda>m. should_expire now m x) ms)) x"


section \<open>Delivery in order\<close>

lemma unat_next': "s \<noteq> - 1 \<Longrightarrow> unat (next_number s) = unat s + 1"
  using unat_next [of s "- 1"] by (simp add: word_order.not_eq_extremum)

lemma next_le_iff: "e \<noteq> - 1 \<Longrightarrow> next_number e \<le> s \<longleftrightarrow> e < s"
  using unat_next' [of e] by (simp add: word_le_nat_alt word_less_nat_alt Suc_le_eq)

lemma deliver_none: "e \<notin> fst ` set ps \<Longrightarrow> deliver_loop e ps = (e, ps)"
  by (induction ps) auto

text \<open>
  What one pass over the sorted list of waiting messages does: it advances the expected number over the consecutive numbers present, stops before the first
  missing one, and keeps everything above.
\<close>

lemma deliver_loop_spec:
  assumes "deliver_loop e ps = (e', qs)" "sorted (map fst ps)" "\<forall>p\<in>set ps. fst p \<noteq> - 1"
  shows "e \<le> e' \<and> {e..<e'} \<subseteq> fst ` set ps \<and> e' \<notin> fst ` set ps \<and> set qs \<subseteq> set ps \<and> {p \<in> set ps. e' \<le> fst p} \<subseteq> set qs"
  using assms
proof (induction ps arbitrary: e qs)
  case (Cons p ps)
  obtain s i where p: "p = (s, i)" by (cases p)
  show ?case
  proof (cases "s = e")
    case True
    with Cons.prems p have d: "deliver_loop (next_number e) ps = (e', qs)" and e: "e \<noteq> - 1" by auto
    note IH = Cons.IH [OF d] Cons.prems(2,3)
    have le: "next_number e \<le> e'" and rest: "{next_number e..<e'} \<subseteq> fst ` set ps" "e' \<notin> fst ` set ps" "set qs \<subseteq> set ps"
      "{q \<in> set ps. e' \<le> fst q} \<subseteq> set qs" using IH by auto
    have lt: "e < e'" using le by (simp add: next_le_iff [OF e])
    have "{e..<e'} \<subseteq> insert e {next_number e..<e'}"
      by (auto simp: next_le_iff [OF e])
    with rest lt True p show ?thesis by auto
  next
    case False
    then obtain qs' where d: "deliver_loop e ps = (e', qs')" and q: "qs = (s, i) # qs'"
      using Cons.prems(1) p by (auto split: prod.splits)
    show ?thesis
    proof (cases "e < s")
      case True
      then have "e \<notin> fst ` set ps" using Cons.prems(2) p by auto
      from deliver_none [OF this] d have "e' = e" "qs' = ps" by simp_all
      with q p True \<open>e \<notin> fst ` set ps\<close> show ?thesis by auto
    next
      case False
      with \<open>s \<noteq> e\<close> have "s < e" by simp
      have "e \<le> e' \<and> {e..<e'} \<subseteq> fst ` set ps \<and> e' \<notin> fst ` set ps \<and> set qs' \<subseteq> set ps \<and> {p \<in> set ps. e' \<le> fst p} \<subseteq> set qs'"
        using Cons.IH [OF d] Cons.prems(2,3) by simp
      with \<open>s < e\<close> q p show ?thesis by auto
    qed
  qed
qed simp

text \<open>Without duplicates nothing stale is kept.\<close>

lemma deliver_loop_above:
  assumes "deliver_loop e ps = (e', qs)" "sorted (map fst ps)" "distinct (map fst ps)" "\<forall>p\<in>set ps. e \<le> fst p" "\<forall>p\<in>set ps. fst p \<noteq> - 1"
  shows "(\<forall>q\<in>set qs. e' < fst q) \<and> distinct (map fst qs)"
  using assms
proof (induction ps arbitrary: e qs)
  case (Cons p ps)
  obtain s i where p: "p = (s, i)" by (cases p)
  show ?case
  proof (cases "s = e")
    case True
    with Cons.prems p have d: "deliver_loop (next_number e) ps = (e', qs)" and e: "e \<noteq> - 1" by auto
    have "\<forall>q\<in>set ps. next_number e \<le> fst q"
      using Cons.prems(2,3) True p by (force simp: next_le_iff [OF e] less_le)
    from Cons.IH [OF d _ _ this] Cons.prems(2,3,5) show ?thesis by simp
  next
    case False
    with Cons.prems(4) p have "e < s" by auto
    then have "e \<notin> fst ` set (p # ps)" using Cons.prems(2) p by auto
    from deliver_none [OF this] Cons.prems(1) have "e' = e" "qs = p # ps" by simp_all
    with \<open>e \<notin> fst ` set (p # ps)\<close> Cons.prems(3,4) show ?thesis by (auto simp: less_le)
  qed
qed simp


subsection \<open>Refinement\<close>

text \<open>
  The abstract view of a conversation is the set of numbers received so far; the next number to deliver is the least one missing. \<open>order_rel\<close> relates it to the
  expected number and the waiting messages.
\<close>

definition mex :: "u64 set \<Rightarrow> u64" where
  "mex R = (LEAST n. n \<notin> R)"

definition order_rel :: "string \<Rightarrow> message_order \<Rightarrow> u64 set \<Rightarrow> bool" where
  "order_rel c mo R \<longleftrightarrow>
     - 1 \<notin> R \<and> {..<expected_of c mo} \<subseteq> R \<and> expected_of c mo \<notin> R
     \<and> fst ` set (pending_of c mo) \<subseteq> R \<and> {n \<in> R. expected_of c mo < n} \<subseteq> fst ` set (pending_of c mo)"

lemma order_rel_mex: "order_rel c mo R \<Longrightarrow> mex R = expected_of c mo"
  unfolding mex_def order_rel_def by (rule Least_equality) (auto simp: not_le [symmetric])

lemma order_rel_new: "order_rel c order_new {}"
  by (auto simp: order_rel_def order_new_def expected_of_def pending_of_def)

lemma expected_of_other [simp]: "c \<noteq> d \<Longrightarrow> expected_of c (mo\<lparr>expected_sequences := (expected_sequences mo)(d \<mapsto> e)\<rparr>) = expected_of c mo"
  "expected_of d (mo\<lparr>expected_sequences := (expected_sequences mo)(d \<mapsto> e)\<rparr>) = e"
  "expected_of c (mo\<lparr>pending_messages := pm\<rparr>) = expected_of c mo"
  by (simp_all add: expected_of_def)

lemma pending_of_upd [simp]: "pending_of c (mo\<lparr>pending_messages := (pending_messages mo)(d \<mapsto> ps)\<rparr>) = (if c = d then ps else pending_of c mo)"
  "pending_of c (mo\<lparr>expected_sequences := es\<rparr>) = pending_of c mo"
  "pending_of c (mo\<lparr>expected_sequences := es, pending_messages := (pending_messages mo)(d \<mapsto> ps)\<rparr>) = (if c = d then ps else pending_of c mo)"
  by (simp_all add: pending_of_def)

lemma deliver_pending_of:
  "expected_of c (deliver_pending d mo) = (if c = d then fst (deliver_loop (expected_of c mo) (sort_key fst (pending_of c mo))) else expected_of c mo)"
  "pending_of c (deliver_pending d mo) = (if c = d then snd (deliver_loop (expected_of c mo) (sort_key fst (pending_of c mo))) else pending_of c mo)"
  by (auto simp: deliver_pending_def expected_of_def pending_of_def split: option.splits prod.splits)

lemma register_other:
  assumes "c \<noteq> d"
  shows "expected_of c (fst (register_message d s i mo)) = expected_of c mo" "pending_of c (fst (register_message d s i mo)) = pending_of c mo"
  using assms by (auto simp: register_message_def Let_def deliver_pending_of)

lemma register_refines:
  assumes rel: "order_rel c mo R" and s: "s \<noteq> - 1"
  shows "order_rel c (fst (register_message c s i mo)) (insert s R) \<and> (snd (register_message c s i mo) \<longleftrightarrow> s = mex R)"
proof -
  let ?e = "expected_of c mo" and ?ps = "pending_of c mo"
  have m: "mex R = ?e" by (rule order_rel_mex [OF rel])
  consider "s = ?e" | "s > ?e" | "s < ?e" by fastforce
  then show ?thesis
  proof cases
    case 1
    obtain e' qs where d: "deliver_loop (next_number ?e) (sort_key fst ?ps) = (e', qs)" by fastforce
    have max: "\<forall>p\<in>set (sort_key fst ?ps). fst p \<noteq> - 1" using rel by (force simp: order_rel_def)
    from deliver_loop_spec [OF d sorted_sort_key max] have d': "next_number ?e \<le> e'" "{next_number ?e..<e'} \<subseteq> fst ` set ?ps"
      "e' \<notin> fst ` set ?ps" "set qs \<subseteq> set ?ps" "{p \<in> set ?ps. e' \<le> fst p} \<subseteq> set qs" by auto
    have le: "?e < e'" using d'(1) s 1 by (simp add: next_le_iff)
    have "n \<in> insert s R" if "n < e'" for n
    proof (cases "n \<le> ?e")
      case True
      then show ?thesis using rel 1 unfolding order_rel_def by (cases "n = ?e") auto
    next
      case False
      then have "next_number ?e \<le> n" using s 1 next_le_iff [of ?e n] by simp
      then have "n \<in> fst ` set ?ps" using d'(2) that by auto
      then show ?thesis using rel unfolding order_rel_def by blast
    qed
    then have below: "{..<e'} \<subseteq> insert s R" by blast
    have "e' \<notin> R" using d'(3) rel le by (auto simp: order_rel_def)
    moreover have "e' \<noteq> s" using le 1 by auto
    moreover have "{n \<in> insert s R. e' < n} \<subseteq> fst ` set qs"
      using rel d'(5) le 1 by (force simp: order_rel_def)
    moreover have "fst ` set qs \<subseteq> insert s R" using d'(4) rel unfolding order_rel_def by blast
    ultimately have "order_rel c (fst (register_message c s i mo)) (insert s R)"
      using rel below s 1 d by (auto simp: order_rel_def register_message_def Let_def deliver_pending_of)
    then show ?thesis using 1 m by (simp add: register_message_def)
  next
    case 2
    then show ?thesis using rel s m by (auto simp: order_rel_def register_message_def Let_def)
  next
    case 3
    then show ?thesis using rel s m by (auto simp: order_rel_def register_message_def Let_def)
  qed
qed

definition register_all :: "(string \<times> u64 \<times> message_id) list \<Rightarrow> message_order" where
  "register_all tr = fold (\<lambda>(c, s, i) mo. fst (register_message c s i mo)) tr order_new"

definition received :: "string \<Rightarrow> (string \<times> u64 \<times> message_id) list \<Rightarrow> u64 set" where
  "received c tr = {s. \<exists>i. (c, s, i) \<in> set tr}"

lemma register_all_snoc [simp]: "register_all (tr @ [(c, s, i)]) = fst (register_message c s i (register_all tr))"
  "register_all [] = order_new"
  by (simp_all add: register_all_def)

lemma received_snoc [simp]: "received c (tr @ [(d, s, i)]) = (if c = d then insert s (received c tr) else received c tr)" "received c [] = {}"
  by (auto simp: received_def)

lemma order_rel_other: "c \<noteq> d \<Longrightarrow> order_rel c (fst (register_message d s i mo)) R = order_rel c mo R"
  by (simp add: order_rel_def register_other)

lemma register_all_rel: "\<forall>x\<in>set tr. fst (snd x) \<noteq> - 1 \<Longrightarrow> order_rel c (register_all tr) (received c tr)"
proof (induction tr rule: rev_induct)
  case (snoc x tr)
  then show ?case by (cases x) (auto simp: register_refines order_rel_other)
qed (simp add: order_rel_new)

text \<open>C12. Delivery follows the sequence numbers whatever the order of arrival: after any sequence of registrations the number a conversation expects is the least
  one it has not received, a message is reported in order exactly when it carries that number, and every number received beyond it is waiting.
  (The largest 64-bit number, whose successor wraps, is left out.)\<close>

theorem message_order_refines:
  assumes "\<forall>x\<in>set tr. fst (snd x) \<noteq> - 1"
  shows "expected_of c (register_all tr) = mex (received c tr)
    \<and> (s \<noteq> - 1 \<longrightarrow> (snd (register_message c s i (register_all tr)) \<longleftrightarrow> s = mex (received c tr)))
    \<and> {n \<in> received c tr. mex (received c tr) < n} \<subseteq> fst ` set (pending_of c (register_all tr))"
proof -
  have r: "order_rel c (register_all tr) (received c tr)" by (rule register_all_rel [OF assms])
  then have m: "mex (received c tr) = expected_of c (register_all tr)" by (rule order_rel_mex)
  from register_refines [OF r, of s i] r show ?thesis unfolding m order_rel_def by blast
qed

theorem message_order_refines_witness:
  "expected_of ''c'' (register_all [(''c'', 1, 7), (''c'', 0, 8)]) = mex (received ''c'' [(''c'', 1, 7), (''c'', 0, 8)])
    \<and> snd (register_message ''c'' 2 9 (register_all [(''c'', 1, 7), (''c'', 0, 8)]))"
proof -
  let ?tr = "[(''c'', 1, 7), (''c'', 0, 8)] :: (string \<times> u64 \<times> message_id) list"
  have e: "expected_of ''c'' (register_all ?tr) = 2"
    by (simp add: register_all_def register_message_def order_new_def expected_of_def pending_of_def deliver_pending_def next_number_def Let_def)
  moreover have "expected_of ''c'' (register_all ?tr) = mex (received ''c'' ?tr)"
    "snd (register_message ''c'' 2 9 (register_all ?tr)) \<longleftrightarrow> 2 = mex (received ''c'' ?tr)"
    using message_order_refines [of ?tr "''c''" 2 9] by simp_all
  ultimately show ?thesis by simp
qed


subsection \<open>Gaps\<close>

lemma set_gap_range: "set (gap_range c s) = {c..<s}"
proof (induction c s rule: gap_range.induct)
  case (1 c s)
  show ?case
  proof (cases "c < s")
    case True
    then have "c \<noteq> - 1" using word_order.extremum [of s] by auto
    with 1 [OF True] True show ?thesis by (auto simp: gap_range.simps [of c] next_le_iff)
  qed (simp add: gap_range.simps)
qed

lemma set_gap_loop:
  assumes "sorted ss" "distinct ss" "\<forall>s\<in>set ss. e \<le> s" "- 1 \<notin> set ss"
  shows "set (gap_loop e ss) = {n. e \<le> n \<and> n \<notin> set ss \<and> (\<exists>s\<in>set ss. n < s)}"
  using assms
proof (induction ss arbitrary: e)
  case (Cons s ss)
  have s: "s \<noteq> - 1" using Cons.prems(4) by auto
  have above: "\<forall>x\<in>set ss. next_number s \<le> x" using Cons.prems(1,2) s by (auto simp: next_le_iff less_le)
  have "set (gap_loop (next_number s) ss) = {n. next_number s \<le> n \<and> n \<notin> set ss \<and> (\<exists>x\<in>set ss. n < x)}"
    using Cons.IH [OF _ _ above] Cons.prems by simp
  then show ?case
    using Cons.prems(1,2,3) s by (auto simp: set_gap_range next_le_iff intro: leI)
qed simp

text \<open>As long as no number of a conversation arrives twice, all waiting messages are ahead of the expected number.\<close>

definition order_clean :: "string \<Rightarrow> message_order \<Rightarrow> bool" where
  "order_clean c mo \<longleftrightarrow> (\<forall>p\<in>set (pending_of c mo). expected_of c mo < fst p) \<and> distinct (map fst (pending_of c mo))"

lemma register_clean:
  assumes rel: "order_rel c mo R" and cl: "order_clean c mo" and s: "s \<noteq> - 1" "s \<notin> R"
  shows "order_clean c (fst (register_message c s i mo))"
proof -
  let ?e = "expected_of c mo" and ?ps = "pending_of c mo"
  have "?e \<le> s" using rel s(2) by (auto simp: order_rel_def not_le [symmetric])
  then consider "s = ?e" | "s > ?e" by fastforce
  then show ?thesis
  proof cases
    case 1
    obtain e' qs where d: "deliver_loop (next_number ?e) (sort_key fst ?ps) = (e', qs)" by fastforce
    have "\<forall>p\<in>set (sort_key fst ?ps). next_number ?e \<le> fst p" "\<forall>p\<in>set (sort_key fst ?ps). fst p \<noteq> - 1"
      using cl rel s(1) 1 by (force simp: order_clean_def order_rel_def next_le_iff)+
    moreover have "distinct (map fst (sort_key fst ?ps))" using cl by (simp add: order_clean_def distinct_map)
    ultimately have "(\<forall>q\<in>set qs. e' < fst q) \<and> distinct (map fst qs)"
      using deliver_loop_above [OF d sorted_sort_key] by blast
    then show ?thesis using 1 d by (simp add: order_clean_def register_message_def Let_def deliver_pending_of)
  next
    case 2
    have "s \<notin> fst ` set ?ps" using rel s(2) by (auto simp: order_rel_def)
    with 2 cl show ?thesis by (auto simp: order_clean_def register_message_def Let_def)
  qed
qed

lemma register_all_clean:
  assumes "\<forall>x\<in>set tr. fst (snd x) \<noteq> - 1" "distinct (map (\<lambda>(c, s, i). (c, s)) tr)"
  shows "order_clean c (register_all tr)"
  using assms
proof (induction tr rule: rev_induct)
  case (snoc x tr)
  obtain d s i where x: "x = (d, s, i)" by (cases x)
  have IH: "order_clean c (register_all tr)" and rel: "order_rel c (register_all tr) (received c tr)"
    using snoc register_all_rel [of tr c] by simp_all
  show ?case
  proof (cases "c = d")
    case True
    have "s \<notin> received c tr" using snoc.prems(2) x True by (force simp: received_def)
    then show ?thesis using register_clean [OF rel IH] snoc.prems(1) x True by simp
  next
    case False
    then show ?thesis using IH x by (simp add: order_clean_def register_other)
  qed
qed (simp add: order_clean_def order_new_def pending_of_def)

text \<open>When no number arrives twice, the reported gaps of a conversation are exactly the numbers that are missing below some number received.\<close>

theorem check_gaps_exact:
  assumes "\<forall>x\<in>set tr. fst (snd x) \<noteq> - 1" and "distinct (map (\<lambda>(c, s, i). (c, s)) tr)"
  shows "set (check_gaps c (register_all tr)) = {n. n \<notin> received c tr \<and> (\<exists>m\<in>received c tr. n < m)}"
proof -
  let ?mo = "register_all tr"
  let ?e = "expected_of c ?mo" and ?P = "fst ` set (pending_of c ?mo)"
  have rel: "order_rel c ?mo (received c tr)" by (rule register_all_rel [OF assms(1)])
  have cl: "order_clean c ?mo" by (rule register_all_clean [OF assms])
  have R: "received c tr = {..<?e} \<union> ?P"
    using rel unfolding order_rel_def by (auto simp: image_iff) (metis (mono_tags, lifting) linorder_neqE mem_Collect_eq subsetD image_iff)+
  have "set (gap_loop ?e (sort (map fst (pending_of c ?mo)))) = {n. ?e \<le> n \<and> n \<notin> ?P \<and> (\<exists>s\<in>?P. n < s)}"
    using cl rel by (subst set_gap_loop) (auto simp: order_clean_def order_rel_def)
  then have "set (check_gaps c ?mo) = {n. ?e \<le> n \<and> n \<notin> ?P \<and> (\<exists>s\<in>?P. n < s)}"
    by (auto simp: check_gaps_def pending_of_def split: option.splits)
  also have "\<dots> = {n. n \<notin> received c tr \<and> (\<exists>m\<in>received c tr. n < m)}"
    unfolding R by (auto simp: not_less intro: order_less_le_trans)
  finally show ?thesis .
qed

lemmas order_eval = register_all_def register_message_def order_new_def expected_of_def pending_of_def deliver_pending_def next_number_def
  check_gaps_def Let_def gap_range.simps

theorem check_gaps_exact_witness:
  "set (check_gaps ''c'' (register_all [(''c'', 1, 7)])) = {n. n \<notin> received ''c'' [(''c'', 1, 7)] \<and> (\<exists>m\<in>received ''c'' [(''c'', 1, 7)]. n < m)}
    \<and> check_gaps ''c'' (register_all [(''c'', 1, 7)]) = [0]"
  using check_gaps_exact [of "[(''c'', 1, 7)]" "''c''"] by (simp add: order_eval)

text \<open>A duplicate is enough to report a number as missing that was delivered: with 1 received twice before 0, then 2 and 4, the number 2 is a reported gap.\<close>

theorem duplicate_reports_false_gap:
  "2 \<in> received ''c'' [(''c'', 1, a), (''c'', 1, b), (''c'', 0, d), (''c'', 2, f), (''c'', 4, g)]
   \<and> 2 \<in> set (check_gaps ''c'' (register_all [(''c'', 1, a), (''c'', 1, b), (''c'', 0, d), (''c'', 2, f), (''c'', 4, g)]))"
  by (simp add: order_eval received_def)

text \<open>Taking a number for sending advances the counter that incoming messages are compared with: the message that carries this number is then dropped.\<close>

theorem next_sequence_drops_message:
  assumes "next_sequence c mo = (mo', n)" "n \<noteq> - 1"
  shows "snd (register_message c n i mo') = False \<and> pending_of c (fst (register_message c n i mo')) = pending_of c mo"
proof -
  from assms(1) have mo': "mo' = mo\<lparr>expected_sequences := (expected_sequences mo)(c \<mapsto> next_number n)\<rparr>" by (auto simp: next_sequence_def Let_def)
  have "n < next_number n" using unat_next' [OF assms(2)] by (simp add: word_less_nat_alt)
  then show ?thesis unfolding mo' by (auto simp: register_message_def Let_def)
qed

theorem next_sequence_drops_message_witness:
  "next_sequence ''c'' order_new = (fst (next_sequence ''c'' order_new), 0)
    \<and> snd (register_message ''c'' 0 7 (fst (next_sequence ''c'' order_new))) = False"
proof -
  have n: "next_sequence ''c'' order_new = (fst (next_sequence ''c'' order_new), 0)" by (simp add: next_sequence_def order_new_def expected_of_def Let_def)
  from next_sequence_drops_message [OF this] n show ?thesis by simp
qed

section \<open>Queues keep their contract\<close>

text \<open>What a client of a queue relies on: pushing appends, popping takes the oldest.\<close>

locale fifo =
  fixes content :: "'q \<Rightarrow> 'a list"
    and push :: "'a \<Rightarrow> 'q \<Rightarrow> 'e + 'q"
    and pop :: "'q \<Rightarrow> 'q \<times> 'a option"
  assumes push_content: "push x q = Inr q' \<Longrightarrow> content q' = content q @ [x]"
    and pop_empty: "content q = [] \<Longrightarrow> pop q = (q, None)"
    and pop_content: "content q = x # xs \<Longrightarrow> \<exists>q'. pop q = (q', Some x) \<and> content q' = xs"
begin

fun pops :: "nat \<Rightarrow> 'q \<Rightarrow> 'a list" where
  "pops 0 q = []"
| "pops (Suc n) q = (case pop q of (q', Some x) \<Rightarrow> x # pops n q' | (q', None) \<Rightarrow> [])"

lemma pops_take: "pops n q = take n (content q)"
proof (induction n arbitrary: q)
  case (Suc n)
  show ?case
  proof (cases "content q")
    case Nil
    then show ?thesis using pop_empty by simp
  next
    case (Cons x xs)
    then obtain q' where "pop q = (q', Some x)" "content q' = xs" using pop_content by blast
    with Cons Suc show ?thesis by simp
  qed
qed simp

lemma push_then_pops: "push x q = Inr q' \<Longrightarrow> pops (Suc (length (content q))) q' = content q @ [x]"
  by (simp add: pops_take push_content)

end

interpretation mq: fifo q_pending queue_push queue_pop
  by unfold_locales (auto simp: queue_push_def queue_pop_def split: if_splits list.splits)

lemma pop_all_content: "pop_all q = q_pending q"
proof (induction q rule: pop_all.induct)
  case (1 q)
  show ?case
  proof (cases "q_pending q")
    case Nil
    from mq.pop_empty [OF this] Nil show ?thesis by (subst pop_all.simps) simp
  next
    case (Cons m ms)
    then obtain q' where p: "queue_pop q = (q', Some m)" "q_pending q' = ms" using mq.pop_content by blast
    with 1 [OF p(1) [symmetric]] Cons show ?thesis by (subst pop_all.simps) simp
  qed
qed

text \<open>The bytes counted are the sizes of the messages held, and both limits are kept.\<close>

definition bytes_held :: "message list \<Rightarrow> nat" where
  "bytes_held ms = sum_list (map (\<lambda>m. unat (msg_size m)) ms)"

definition queue_ok :: "message_queue \<Rightarrow> bool" where
  "queue_ok q \<longleftrightarrow> unat (q_total_bytes q) = bytes_held (q_pending q) \<and> q_total_bytes q \<le> q_max_bytes q
     \<and> length (q_pending q) \<le> unat (q_max_size q)"

lemma queue_ok_new: "queue_ok (queue_new n b)"
  by (simp add: queue_ok_def queue_new_def bytes_held_def)

lemma queue_ok_push:
  assumes ok: "queue_ok q" and p: "queue_push m q = Inr q'" and fits: "unat (q_max_bytes q) + unat (msg_size m) < 2 ^ 64"
  shows "queue_ok q'" and "q_max_bytes q' = q_max_bytes q"
proof -
  have "unat (q_total_bytes q) + unat (msg_size m) < 2 ^ LENGTH(64)"
    using ok fits by (simp add: queue_ok_def word_le_nat_alt)
  from unat_add_no_overflow [OF this] show "queue_ok q'" "q_max_bytes q' = q_max_bytes q"
    using ok p by (auto simp: queue_ok_def queue_push_def bytes_held_def not_less split: if_splits)
qed

lemma queue_ok_pop:
  assumes "queue_ok q" "queue_pop q = (q', x)"
  shows "queue_ok q'" and "q_max_bytes q' = q_max_bytes q"
  using assms by (auto simp: queue_ok_def queue_pop_def bytes_held_def unat_saturating_sub word_le_nat_alt split: list.splits)

lemma retain_fresh_spec:
  assumes "retain_fresh now b ms = (b', ms')" "bytes_held ms \<le> unat b"
  shows "ms' = filter (\<lambda>m. \<not> msg_is_expired now m) ms \<and> unat b' + bytes_held ms = unat b + bytes_held ms'"
  using assms
proof (induction ms arbitrary: b ms')
  case (Cons m ms)
  let ?b = "saturating_sub b (msg_size m)"
  have held: "bytes_held (m # ms) = unat (msg_size m) + bytes_held ms" by (simp add: bytes_held_def)
  show ?case
  proof (cases "msg_is_expired now m")
    case True
    with Cons.prems(1) have r: "retain_fresh now ?b ms = (b', ms')" by simp
    have "bytes_held ms \<le> unat ?b" using Cons.prems(2) held by (simp add: unat_saturating_sub)
    from Cons.IH [OF r this] True show ?thesis using Cons.prems(2) held by (auto simp: unat_saturating_sub)
  next
    case False
    with Cons.prems(1) obtain ms1 where r: "retain_fresh now b ms = (b', ms1)" "ms' = m # ms1" by (auto split: prod.splits)
    have "bytes_held ms \<le> unat b" using Cons.prems(2) held by simp
    from Cons.IH [OF r(1) this] False r(2) show ?thesis by (auto simp: bytes_held_def)
  qed
qed (auto simp: bytes_held_def)

lemma bytes_held_split: "bytes_held ms = bytes_held (filter (\<lambda>m. \<not> p m) ms) + bytes_held (filter p ms)"
  by (induction ms) (simp_all add: bytes_held_def)

lemma queue_ok_remove_expired:
  assumes "queue_ok q" "remove_expired now q = (q', n)"
  shows "queue_ok q' \<and> q_max_bytes q' = q_max_bytes q \<and> q_pending q' = filter (\<lambda>m. \<not> msg_is_expired now m) (q_pending q)
    \<and> n = length (filter (msg_is_expired now) (q_pending q))"
proof -
  obtain b ms where r: "retain_fresh now (q_total_bytes q) (q_pending q) = (b, ms)" by fastforce
  have ms: "ms = filter (\<lambda>m. \<not> msg_is_expired now m) (q_pending q)"
    and b: "unat b + bytes_held (q_pending q) = unat (q_total_bytes q) + bytes_held ms"
    using retain_fresh_spec [OF r] assms(1) by (simp_all add: queue_ok_def)
  have "bytes_held (q_pending q) = bytes_held ms + bytes_held (filter (msg_is_expired now) (q_pending q))"
    unfolding ms by (rule bytes_held_split)
  moreover have "length ms \<le> length (q_pending q)" by (simp add: ms)
  moreover have "length (q_pending q) - length ms = length (filter (msg_is_expired now) (q_pending q))"
    using sum_length_filter_compl [of "msg_is_expired now" "q_pending q"] ms by simp
  ultimately show ?thesis
    using assms b r ms by (auto simp: queue_ok_def remove_expired_def word_le_nat_alt intro: order_trans [OF length_filter_le])
qed

definition offline_ok :: "nat \<Rightarrow> offline_queue \<Rightarrow> bool" where
  "offline_ok k oq \<longleftrightarrow> unat (default_max_bytes oq) + k < 2 ^ 64
     \<and> (\<forall>u q. queues oq u = Some q \<longrightarrow> queue_ok q \<and> q_max_bytes q = default_max_bytes oq)"

text \<open>The messages accepted so far, per user; what \<^verbatim>\<open>dequeue_all\<close> must return.\<close>

fun enqueue_run :: "(user_id \<times> message) list \<Rightarrow> offline_queue \<Rightarrow> offline_queue \<times> (user_id \<times> message) list" where
  "enqueue_run [] oq = (oq, [])"
| "enqueue_run ((u, m) # es) oq =
     (case enqueue u m oq of (oq', r) \<Rightarrow>
        (case enqueue_run es oq' of (oq'', acc) \<Rightarrow> (oq'', if isl r then acc else (u, m) # acc)))"

definition waiting :: "user_id \<Rightarrow> offline_queue \<Rightarrow> message list" where
  "waiting u oq = (case queues oq u of None \<Rightarrow> [] | Some q \<Rightarrow> q_pending q)"

lemma enqueue_waiting:
  assumes "enqueue u m oq = (oq', r)"
  shows "waiting v oq' = (if v = u \<and> \<not> isl r then waiting v oq @ [m] else waiting v oq)"
proof -
  define q where "q = (case queues oq u of None \<Rightarrow> queue_new (default_max_messages oq) (default_max_bytes oq) | Some q \<Rightarrow> q)"
  have q: "q_pending q = waiting u oq" by (simp add: q_def waiting_def queue_new_def split: option.splits)
  show ?thesis
  proof (cases "queue_push m q")
    case (Inl e)
    then have "queues oq' = (queues oq)(u \<mapsto> q)" "r = Inl e" using assms by (auto simp: enqueue_def Let_def simp flip: q_def)
    with q show ?thesis by (simp add: waiting_def)
  next
    case (Inr q')
    then have "queues oq' = (queues oq)(u \<mapsto> q')" "r = Inr ()" using assms by (auto simp: enqueue_def Let_def simp flip: q_def)
    with q mq.push_content [OF Inr] show ?thesis by (simp add: waiting_def)
  qed
qed

lemma enqueue_run_waiting:
  "enqueue_run es oq = (oq', acc) \<Longrightarrow> waiting u oq' = waiting u oq @ map snd (filter (\<lambda>(v, _). v = u) acc)"
proof (induction es arbitrary: oq acc)
  case (Cons e es)
  obtain v m where e: "e = (v, m)" by (cases e)
  obtain oq1 r where q: "enqueue v m oq = (oq1, r)" by fastforce
  obtain acc1 where a: "enqueue_run es oq1 = (oq', acc1)" "acc = (if isl r then acc1 else (v, m) # acc1)"
    using Cons.prems e q by (auto split: prod.splits)
  from Cons.IH [OF a(1)] enqueue_waiting [OF q, of u] a(2) show ?case by auto
qed simp

lemma dequeue_all_waiting: "dequeue_all u oq = (oq', ms) \<Longrightarrow> ms = waiting u oq \<and> waiting u oq' = []"
  by (auto simp: dequeue_all_def waiting_def pop_all_content split: option.splits)

text \<open>An offline user receives exactly the messages accepted for him, once and in the order in which they were sent, whatever is sent to others in between.\<close>

theorem offline_queue_fifo:
  assumes "enqueue_run es (offline_new n b) = (oq, acc)" and "dequeue_all u oq = (oq', ms)"
  shows "ms = map snd (filter (\<lambda>(v, _). v = u) acc) \<and> snd (dequeue_all u oq') = []"
proof -
  have "waiting u (offline_new n b) = []" by (simp add: waiting_def offline_new_def)
  then have "ms = map snd (filter (\<lambda>(v, _). v = u) acc)" and "waiting u oq' = []"
    using enqueue_run_waiting [OF assms(1), of u] dequeue_all_waiting [OF assms(2)] by simp_all
  moreover from this have "snd (dequeue_all u oq') = []"
    using dequeue_all_waiting [of u oq'] by (cases "dequeue_all u oq'") auto
  ultimately show ?thesis by simp
qed

lemma offline_ok_enqueue:
  assumes ok: "offline_ok k oq" and e: "enqueue u m oq = (oq', r)" and m: "unat (msg_size m) \<le> k"
  shows "offline_ok k oq'"
proof -
  define q where "q = (case queues oq u of None \<Rightarrow> queue_new (default_max_messages oq) (default_max_bytes oq) | Some q \<Rightarrow> q)"
  have q: "queue_ok q" "q_max_bytes q = default_max_bytes oq"
    using ok queue_ok_new by (auto simp: q_def offline_ok_def queue_new_def split: option.splits)
  have "unat (q_max_bytes q) + unat (msg_size m) < 2 ^ 64" using ok m q(2) by (simp add: offline_ok_def)
  note push = queue_ok_push [OF q(1) _ this]
  show ?thesis
    using ok e q push by (cases "queue_push m q") (auto simp: offline_ok_def enqueue_def Let_def q_def [symmetric] split: if_splits)
qed

lemma offline_ok_cleanup:
  assumes "offline_ok k oq"
  shows "offline_ok k (fst (cleanup_queues now oq))"
proof -
  have "queue_ok (fst (remove_expired now q)) \<and> q_max_bytes (fst (remove_expired now q)) = q_max_bytes q" if "queue_ok q" for q
    using queue_ok_remove_expired [OF that, of now] by (cases "remove_expired now q") auto
  then show ?thesis
    using assms by (auto simp: offline_ok_def cleanup_queues_def Let_def split: option.splits if_splits)
qed

lemma offline_ok_dequeue: "offline_ok k oq \<Longrightarrow> offline_ok k (fst (dequeue_all u oq))"
  by (auto simp: offline_ok_def dequeue_all_def split: option.splits if_splits)

inductive offline_step :: "nat \<Rightarrow> offline_queue \<Rightarrow> offline_queue \<Rightarrow> bool" for k where
  off_enqueue: "enqueue u m oq = (oq', r) \<Longrightarrow> unat (msg_size m) \<le> k \<Longrightarrow> offline_step k oq oq'"
| off_dequeue: "dequeue_all u oq = (oq', ms) \<Longrightarrow> offline_step k oq oq'"
| off_cleanup: "cleanup_queues now oq = (oq', n) \<Longrightarrow> offline_step k oq oq'"

lemma offline_step_ok: "offline_step k oq oq' \<Longrightarrow> offline_ok k oq \<Longrightarrow> offline_ok k oq'"
proof (induction rule: offline_step.induct)
  case (off_enqueue u m oq oq' r)
  from offline_ok_enqueue [OF off_enqueue.prems off_enqueue.hyps] show ?case .
next
  case (off_dequeue u oq oq' ms)
  with offline_ok_dequeue [OF off_dequeue.prems, of u] show ?case by simp
next
  case (off_cleanup now oq oq' n)
  with offline_ok_cleanup [OF off_cleanup.prems, of now] show ?case by simp
qed

text \<open>C31. Along every run of the offline queues, whatever is enqueued, fetched or expired, each user's queue stays within its limits on messages and bytes, and the
  bytes it counts are the sizes of the messages it holds (for messages small enough that the limit plus one message fits in 64 bits).\<close>

theorem offline_queue_bounded:
  assumes "(offline_step k)\<^sup>*\<^sup>* (offline_new n b) oq" and "unat b + k < 2 ^ 64" and "queues oq u = Some q"
  shows "length (q_pending q) \<le> unat (q_max_size q) \<and> unat (q_total_bytes q) = bytes_held (q_pending q) \<and> bytes_held (q_pending q) \<le> unat b"
proof -
  have start: "offline_ok k (offline_new n b)" using assms(2) by (simp add: offline_ok_def offline_new_def)
  have "offline_ok k oq \<and> default_max_bytes oq = b" using assms(1)
  proof (induction rule: rtranclp_induct)
    case (step y z)
    from step.hyps(2) have "default_max_bytes z = default_max_bytes y"
      by (cases rule: offline_step.cases) (auto simp: enqueue_def dequeue_all_def cleanup_queues_def Let_def split: option.splits sum.splits)
    with step offline_step_ok show ?case by blast
  qed (use start in \<open>simp add: offline_new_def\<close>)
  with assms(3) have "queue_ok q" "q_max_bytes q = b" by (auto simp: offline_ok_def)
  then show ?thesis by (simp add: queue_ok_def word_le_nat_alt)
qed

section \<open>Expiration\<close>

text \<open>Cleaning up forgets the policy and the views of a message that has expired by its policy, so the message counts as not expired from then on.\<close>

theorem cleanup_revives_message:
  assumes "m \<in> set ms" "should_expire now m x" "\<not> msg_is_expired later m"
  shows "\<not> should_expire later m (cleanup_expiration now ms x)"
proof -
  have none: "policies (fold remove_expiration ids y) i = None" if "i \<in> set ids \<or> policies y i = None" for ids y i
    using that by (induction ids arbitrary: y) (auto simp: remove_expiration_def)
  have "msg_id m \<in> set (map msg_id (filter (\<lambda>m. should_expire now m x) ms))" using assms(1,2) by auto
  from none [OF disjI1 [OF this]] have "policies (cleanup_expiration now ms x) (msg_id m) = None" by (simp add: cleanup_expiration_def)
  then show ?thesis using assms(3) by (simp add: should_expire_def)
qed

section \<open>Examples\<close>

definition demo_message :: "nat \<Rightarrow> message" where
  "demo_message k = \<lparr>msg_id = of_nat k, msg_type = Direct 1 2, msg_content = Text ''hi'', encrypted_payload = replicate 4 0, msg_timestamp = 0,
     msg_sequence = None, msg_status = MsgCreated, expires_at = None, msg_size = 4\<rparr>"

theorem offline_queue_fifo_witness:
  "snd (dequeue_all 2 (fst (enqueue_run [(2, demo_message 0), (3, demo_message 1), (2, demo_message 5), (2, demo_message 6)] (offline_new 2 100))))
     = [demo_message 0, demo_message 5]"
proof -
  let ?es = "[(2, demo_message 0), (3, demo_message 1), (2, demo_message 5), (2, demo_message 6)]"
  have acc: "snd (enqueue_run ?es (offline_new 2 100)) = [(2, demo_message 0), (3, demo_message 1), (2, demo_message 5)]"
    by (simp add: offline_new_def enqueue_def queue_push_def queue_new_def demo_message_def Let_def)
  obtain oq oq' ms where r: "enqueue_run ?es (offline_new 2 100) = (oq, [(2, demo_message 0), (3, demo_message 1), (2, demo_message 5)])"
    "dequeue_all 2 oq = (oq', ms)" using acc by (metis prod.collapse)
  from offline_queue_fifo [OF r] r show ?thesis by simp
qed

theorem offline_queue_bounded_witness:
  "\<exists>q. queues (fst (enqueue 2 (demo_message 0) (offline_new 2 100))) 2 = Some q \<and> bytes_held (q_pending q) \<le> 100"
proof -
  let ?oq = "fst (enqueue 2 (demo_message 0) (offline_new 2 100))"
  have "offline_step 4 (offline_new 2 100) ?oq" 
    by (rule off_enqueue [of 2 "demo_message 0" _ _ "snd (enqueue 2 (demo_message 0) (offline_new 2 100))"]) (simp, simp add: demo_message_def)
  then have r: "(offline_step 4)\<^sup>*\<^sup>* (offline_new 2 100) ?oq" by blast
  obtain q where q: "queues ?oq 2 = Some q"
    by (simp add: offline_new_def enqueue_def queue_push_def queue_new_def demo_message_def Let_def)
  from offline_queue_bounded [OF r _ q] q show ?thesis by simp
qed

theorem cleanup_revives_message_witness:
  "should_expire 0 (demo_message 0) (record_view 0 (set_policy 0 AfterRead expiration_new))
   \<and> \<not> should_expire 1 (demo_message 0) (cleanup_expiration 0 [demo_message 0] (record_view 0 (set_policy 0 AfterRead expiration_new)))"
proof -
  have e: "should_expire 0 (demo_message 0) (record_view 0 (set_policy 0 AfterRead expiration_new))"
    by (simp add: should_expire_def msg_is_expired_def demo_message_def record_view_def set_policy_def expiration_new_def policy_should_expire_def view_count_def)
  from cleanup_revives_message [OF _ e, of "[demo_message 0]" 1] e show ?thesis by (simp add: msg_is_expired_def demo_message_def)
qed

end
