(* ===== verification/Voting.thy ===== *)
theory Voting
  imports Chain_Core
begin

text \<open>
  Proposals and votes of the governance crate: \<^verbatim>\<open>crates/dchat-governance/src/voting.rs\<close>, with the two functions of
  \<^verbatim>\<open>crates/dchat-crypto/src/encryption.rs\<close> that encrypt ballots. AES-GCM and SHA-256 are third-party code and stay parameters; random salts, nonces,
  ids and the clock are arguments.
\<close>

section \<open>Ballot encryption\<close>

text \<open>A nonce has 12 bytes. What is asked of the cipher: decryption under the same key and nonce gives the plaintext back, and the ciphertext
  carries a tag of 16 bytes.\<close>

record aes_gcm =
  gcm_encrypt :: "hash32 \<Rightarrow> u8 list \<Rightarrow> u8 list \<Rightarrow> u8 list option"
  gcm_decrypt :: "hash32 \<Rightarrow> u8 list \<Rightarrow> u8 list \<Rightarrow> u8 list option"

definition gcm_ok :: "aes_gcm \<Rightarrow> bool" where
  "gcm_ok A \<longleftrightarrow> (\<forall>k n p c. length n = 12 \<longrightarrow> gcm_encrypt A k n p = Some c \<longrightarrow>
     length c = length p + 16 \<and> gcm_decrypt A k n c = Some p)"

definition GCM_NONCE_SIZE :: nat where "GCM_NONCE_SIZE = 12"

definition encrypt_with_key :: "aes_gcm \<Rightarrow> u8 list \<Rightarrow> hash32 \<Rightarrow> u8 list \<Rightarrow> u8 list core_result" where
  "encrypt_with_key A nonce key plaintext =
     (case gcm_encrypt A key nonce plaintext of None \<Rightarrow> Inl Crypto | Some c \<Rightarrow> Inr (nonce @ c))"

definition decrypt_with_key :: "aes_gcm \<Rightarrow> hash32 \<Rightarrow> u8 list \<Rightarrow> u8 list core_result" where
  "decrypt_with_key A key ciphertext =
     (if length ciphertext < GCM_NONCE_SIZE + 16 then Inl Crypto
      else case gcm_decrypt A key (take GCM_NONCE_SIZE ciphertext) (drop GCM_NONCE_SIZE ciphertext) of
        None \<Rightarrow> Inl Crypto
      | Some p \<Rightarrow> Inr p)"

section \<open>Proposals\<close>

type_synonym vote_uuid = "128 word"

datatype proposal_type = FeatureChange | SlashingDecision | TreasurySpend | ModerationPolicy | EmergencyAction

record proposal =
  prop_id :: vote_uuid
  proposer :: user_id
  prop_type :: proposal_type
  title :: string
  description :: string
  prop_created_at :: timestamp
  deadline :: timestamp
  quorum_bps :: u16
  votes_for :: u64
  votes_against :: u64
  finalized :: bool

record vote =
  voter :: user_id
  v_proposal_id :: vote_uuid
  commitment :: hash32
  encrypted_ballot :: "u8 list"
  revealed_ballot :: "bool option"
  reveal_salt :: "hash32 option"
  voting_power :: u64
  cast_at :: timestamp

record vote_config =
  default_quorum_bps :: u16
  voting_period_hours :: u32
  minimum_stake_for_proposal :: u64
  enable_anonymous_voting :: bool
  default_approval_bps :: u16

definition vote_config_default :: vote_config where
  "vote_config_default = \<lparr>default_quorum_bps = 1000, voting_period_hours = 168, minimum_stake_for_proposal = 1000,
     enable_anonymous_voting = True, default_approval_bps = 5001\<rparr>"

record vote_manager =
  proposals :: "vote_uuid \<rightharpoonup> proposal"
  vm_votes :: "vote_uuid \<rightharpoonup> vote list"
  total_stake :: u64
  vm_config :: vote_config

definition proposal_new ::
    "timestamp \<Rightarrow> vote_uuid \<Rightarrow> user_id \<Rightarrow> proposal_type \<Rightarrow> string \<Rightarrow> string \<Rightarrow> int \<Rightarrow> u16 \<Rightarrow> proposal core_result" where
  "proposal_new now i u ty ti desc days quorum =
     (if quorum > 10000 then Inl InvalidInput
      else Inr \<lparr>prop_id = i, proposer = u, prop_type = ty, title = ti, description = desc, prop_created_at = now,
             deadline = now + duration_days days, quorum_bps = quorum, votes_for = 0, votes_against = 0, finalized = False\<rparr>)"

definition is_open :: "timestamp \<Rightarrow> proposal \<Rightarrow> bool" where
  "is_open now p \<longleftrightarrow> \<not> finalized p \<and> now < deadline p"

definition required_votes :: "u64 \<Rightarrow> proposal \<Rightarrow> u64" where
  "required_votes stake p = of_nat (unat stake * unat (quorum_bps p) div 10000)"

definition meets_quorum :: "u64 \<Rightarrow> proposal \<Rightarrow> bool" where
  "meets_quorum stake p \<longleftrightarrow> votes_for p + votes_against p \<ge> required_votes stake p"

definition passes :: "proposal \<Rightarrow> bool" where
  "passes p \<longleftrightarrow> votes_for p > votes_against p"

section \<open>Votes\<close>

definition compute_vote_commitment :: "ed25519 \<Rightarrow> bool \<Rightarrow> hash32 \<Rightarrow> hash32" where
  "compute_vote_commitment E vote_for salt = sha256 E ((if vote_for then 1 else 0) # as_bytes salt)"

definition verify_vote_reveal :: "ed25519 \<Rightarrow> hash32 \<Rightarrow> bool \<Rightarrow> hash32 \<Rightarrow> bool" where
  "verify_vote_reveal E com vote_for salt \<longleftrightarrow> compute_vote_commitment E vote_for salt = com"

definition new_committed :: "ed25519 \<Rightarrow> timestamp \<Rightarrow> hash32 \<Rightarrow> user_id \<Rightarrow> vote_uuid \<Rightarrow> bool \<Rightarrow> u64 \<Rightarrow> vote \<times> hash32" where
  "new_committed E now salt u i vote_for weight =
     (\<lparr>voter = u, v_proposal_id = i, commitment = compute_vote_commitment E vote_for salt, encrypted_ballot = [],
       revealed_ballot = None, reveal_salt = None, voting_power = weight, cast_at = now\<rparr>, salt)"

definition from_commitment :: "timestamp \<Rightarrow> user_id \<Rightarrow> vote_uuid \<Rightarrow> hash32 \<Rightarrow> u64 \<Rightarrow> vote" where
  "from_commitment now u i com weight =
     \<lparr>voter = u, v_proposal_id = i, commitment = com, encrypted_ballot = [], revealed_ballot = None, reveal_salt = None,
      voting_power = weight, cast_at = now\<rparr>"

definition new_encrypted ::
    "ed25519 \<Rightarrow> aes_gcm \<Rightarrow> u8 list \<Rightarrow> timestamp \<Rightarrow> hash32 \<Rightarrow> user_id \<Rightarrow> vote_uuid \<Rightarrow> bool \<Rightarrow> u64 \<Rightarrow> hash32 \<Rightarrow> vote core_result" where
  "new_encrypted E A nonce now salt u i vote_for weight key =
     (case encrypt_with_key A nonce key [if vote_for then 1 else 0] of
        Inl e \<Rightarrow> Inl e
      | Inr c \<Rightarrow> Inr \<lparr>voter = u, v_proposal_id = i, commitment = compute_vote_commitment E vote_for salt, encrypted_ballot = c,
          revealed_ballot = None, reveal_salt = Some salt, voting_power = weight, cast_at = now\<rparr>)"

definition reveal_with_salt :: "ed25519 \<Rightarrow> bool \<Rightarrow> hash32 \<Rightarrow> vote \<Rightarrow> (vote \<times> bool) core_result" where
  "reveal_with_salt E vote_for salt v =
     (if revealed_ballot v \<noteq> None then Inl InvalidInput
      else if \<not> verify_vote_reveal E (commitment v) vote_for salt then Inl InvalidInput
      else Inr (v\<lparr>revealed_ballot := Some vote_for, reveal_salt := Some salt\<rparr>, vote_for))"

definition vote_reveal :: "aes_gcm \<Rightarrow> hash32 \<Rightarrow> vote \<Rightarrow> (vote \<times> bool) core_result" where
  "vote_reveal A key v =
     (if revealed_ballot v \<noteq> None then Inl InvalidInput
      else case decrypt_with_key A key (encrypted_ballot v) of
        Inl e \<Rightarrow> Inl e
      | Inr plaintext \<Rightarrow>
          if plaintext = [] then Inl InvalidInput
          else let vote_for = (plaintext ! 0 = 1) in Inr (v\<lparr>revealed_ballot := Some vote_for\<rparr>, vote_for))"

section \<open>The manager\<close>

definition voting_with_config :: "u64 \<Rightarrow> vote_config \<Rightarrow> vote_manager" where
  "voting_with_config stake cfg = \<lparr>proposals = Map.empty, vm_votes = Map.empty, total_stake = stake, vm_config = cfg\<rparr>"

definition voting_new :: "u64 \<Rightarrow> vote_manager" where
  "voting_new stake = voting_with_config stake vote_config_default"

definition create_proposal ::
    "timestamp \<Rightarrow> vote_uuid \<Rightarrow> user_id \<Rightarrow> proposal_type \<Rightarrow> string \<Rightarrow> string \<Rightarrow> vote_manager \<Rightarrow> proposal core_result" where
  "create_proposal now i u ty ti desc m =
     proposal_new now i u ty ti desc ((int (unat (voting_period_hours (vm_config m))) + 23) div 24) (default_quorum_bps (vm_config m))"

definition submit_proposal :: "proposal \<Rightarrow> vote_manager \<Rightarrow> vote_manager \<times> vote_uuid" where
  "submit_proposal p m =
     (m\<lparr>proposals := (proposals m)(prop_id p \<mapsto> p), vm_votes := (vm_votes m)(prop_id p \<mapsto> [])\<rparr>, prop_id p)"

text \<open>The \<^verbatim>\<open>unwrap\<close> of the vote list never fails: proposals and vote lists are entered together.\<close>

definition votes_of :: "vote_uuid \<Rightarrow> vote_manager \<Rightarrow> vote list" where
  "votes_of i m = (case vm_votes m i of None \<Rightarrow> [] | Some vs \<Rightarrow> vs)"

definition cast_vote :: "timestamp \<Rightarrow> vote \<Rightarrow> vote_manager \<Rightarrow> vote_manager core_result" where
  "cast_vote now v m =
     (case proposals m (v_proposal_id v) of
        None \<Rightarrow> Inl NotFound
      | Some p \<Rightarrow>
          if \<not> is_open now p then Inl InvalidInput
          else let existing = votes_of (v_proposal_id v) m
               in if list_ex (\<lambda>w. voter w = voter v) existing then Inl InvalidInput
                  else Inr (m\<lparr>vm_votes := (vm_votes m)(v_proposal_id v \<mapsto> existing @ [v])\<rparr>))"

text \<open>The loop over the votes stops at the first one that cannot be revealed; those before it stay revealed.\<close>

fun reveal_loop :: "aes_gcm \<Rightarrow> hash32 \<Rightarrow> vote list \<Rightarrow> vote list \<times> unit core_result" where
  "reveal_loop A key [] = ([], Inr ())"
| "reveal_loop A key (v # vs) =
     (if revealed_ballot v \<noteq> None then (case reveal_loop A key vs of (vs', r) \<Rightarrow> (v # vs', r))
      else case vote_reveal A key v of
        Inl e \<Rightarrow> (v # vs, Inl e)
      | Inr (v', _) \<Rightarrow> (case reveal_loop A key vs of (vs', r) \<Rightarrow> (v' # vs', r)))"

definition reveal_votes :: "aes_gcm \<Rightarrow> timestamp \<Rightarrow> vote_uuid \<Rightarrow> hash32 \<Rightarrow> vote_manager \<Rightarrow> vote_manager \<times> unit core_result" where
  "reveal_votes A now i key m =
     (case proposals m i of
        None \<Rightarrow> (m, Inl NotFound)
      | Some p \<Rightarrow>
          if now < deadline p then (m, Inl InvalidInput)
          else case reveal_loop A key (votes_of i m) of
            (vs, r) \<Rightarrow> (m\<lparr>vm_votes := (vm_votes m)(i \<mapsto> vs)\<rparr>, r))"

fun tally_loop :: "u64 \<Rightarrow> u64 \<Rightarrow> vote list \<Rightarrow> u64 \<times> u64" where
  "tally_loop f a [] = (f, a)"
| "tally_loop f a (v # vs) =
     (case revealed_ballot v of
        None \<Rightarrow> tally_loop f a vs
      | Some b \<Rightarrow> if b then tally_loop (f + voting_power v) a vs else tally_loop f (a + voting_power v) vs)"

definition finalize_proposal :: "timestamp \<Rightarrow> vote_uuid \<Rightarrow> vote_manager \<Rightarrow> (vote_manager \<times> bool) core_result" where
  "finalize_proposal now i m =
     (case proposals m i of
        None \<Rightarrow> Inl NotFound
      | Some p \<Rightarrow>
          if finalized p then Inl InvalidInput
          else if now < deadline p then Inl InvalidInput
          else case tally_loop 0 0 (votes_of i m) of
            (f, a) \<Rightarrow>
              let p = p\<lparr>votes_for := f, votes_against := a, finalized := True\<rparr>
              in Inr (m\<lparr>proposals := (proposals m)(i \<mapsto> p)\<rparr>, meets_quorum (total_stake m) p \<and> passes p))"

definition update_total_stake :: "u64 \<Rightarrow> vote_manager \<Rightarrow> vote_manager" where
  "update_total_stake x m = m\<lparr>total_stake := x\<rparr>"

text \<open>The order in which the hash map is iterated is a parameter.\<close>

definition get_active_proposals :: "timestamp \<Rightarrow> vote_uuid list \<Rightarrow> vote_manager \<Rightarrow> proposal list" where
  "get_active_proposals now ids m = filter (is_open now) (filter_map (proposals m) ids)"

section \<open>Counting\<close>

definition power_of :: "bool \<Rightarrow> vote list \<Rightarrow> nat" where
  "power_of b vs = sum_list (map (\<lambda>v. unat (voting_power v)) (filter (\<lambda>v. revealed_ballot v = Some b) vs))"

lemma tally_loop_exact:
  assumes "tally_loop f a vs = (f', a')"
    and "unat f + unat a + power_of True vs + power_of False vs < 2 ^ 64"
  shows "unat f' = unat f + power_of True vs \<and> unat a' = unat a + power_of False vs"
  using assms
proof (induction vs arbitrary: f a)
  case (Cons v vs)
  show ?case
  proof (cases "revealed_ballot v")
    case None
    with Cons show ?thesis by (simp add: power_of_def)
  next
    case (Some b)
    have "unat x + unat (voting_power v) < 2 ^ LENGTH(64)" if "x = (if b then f else a)" for x
      using that Cons.prems(2) Some by (cases b) (auto simp: power_of_def)
    then have add: "unat (x + voting_power v) = unat x + unat (voting_power v)" if "x = (if b then f else a)" for x
      using that unat_add_no_overflow by blast
    show ?thesis
      using Cons.IH [of "f + voting_power v" a] Cons.IH [of f "a + voting_power v"] Cons.prems Some add
      by (cases b) (auto simp: power_of_def)
  qed
qed (auto simp: power_of_def)

section \<open>Runs\<close>

text \<open>Votes are made by one of the three constructors, proposals are submitted under fresh ids.\<close>

definition vote_made :: "ed25519 \<Rightarrow> aes_gcm \<Rightarrow> vote \<Rightarrow> bool" where
  "vote_made E A v \<longleftrightarrow>
     (\<exists>now salt u i b x. v = fst (new_committed E now salt u i b x)) \<or> (\<exists>now u i com x. v = from_commitment now u i com x)
     \<or> (\<exists>nonce now salt u i b x key. length nonce = 12 \<and> new_encrypted E A nonce now salt u i b x key = Inr v)"

inductive voting_step :: "ed25519 \<Rightarrow> aes_gcm \<Rightarrow> vote_manager \<Rightarrow> vote_manager \<Rightarrow> bool" for E A where
  vs_submit: "proposals m (prop_id p) = None \<Longrightarrow> submit_proposal p m = (m', i) \<Longrightarrow> voting_step E A m m'"
| vs_cast: "vote_made E A v \<Longrightarrow> cast_vote now v m = Inr m' \<Longrightarrow> voting_step E A m m'"
| vs_reveal: "reveal_votes A now i key m = (m', r) \<Longrightarrow> voting_step E A m m'"
| vs_finalize: "finalize_proposal now i m = Inr (m', b) \<Longrightarrow> voting_step E A m m'"
| vs_stake: "voting_step E A m (update_total_stake x m)"

definition votes_ok :: "vote_uuid \<Rightarrow> vote list \<Rightarrow> bool" where
  "votes_ok i vs \<longleftrightarrow> distinct (map voter vs) \<and> (\<forall>v\<in>set vs. v_proposal_id v = i)
     \<and> (\<forall>v\<in>set vs. encrypted_ballot v = [] \<longrightarrow> revealed_ballot v = None)"

definition voting_inv :: "vote_manager \<Rightarrow> bool" where
  "voting_inv m \<longleftrightarrow> (\<forall>i vs. vm_votes m i = Some vs \<longrightarrow> votes_ok i vs)"

lemma voting_inv_votes: "voting_inv m \<Longrightarrow> votes_ok i (votes_of i m)"
  by (auto simp: voting_inv_def votes_of_def votes_ok_def split: option.splits)

lemma voting_inv_put:
  "voting_inv m \<Longrightarrow> votes_ok i vs \<Longrightarrow> vm_votes m' = (vm_votes m)(i \<mapsto> vs) \<Longrightarrow> voting_inv m'"
  by (simp add: voting_inv_def)

lemma decrypt_empty: "decrypt_with_key A key [] = Inl Crypto"
  by (simp add: decrypt_with_key_def GCM_NONCE_SIZE_def)

lemma reveal_loop_ok: "reveal_loop A key vs = (vs', r) \<Longrightarrow> votes_ok i vs \<Longrightarrow> votes_ok i vs' \<and> map voter vs' = map voter vs"
proof (induction vs arbitrary: vs' r)
  case (Cons v vs)
  have ok: "votes_ok i vs" using Cons.prems(2) by (simp add: votes_ok_def)
  show ?case
  proof (cases "revealed_ballot v = None \<and> isl (vote_reveal A key v)")
    case True
    with Cons.prems show ?thesis by (auto split: sum.splits)
  next
    case False
    then obtain v' vs1 where v': "vs' = v' # vs1" "reveal_loop A key vs = (vs1, r)"
      and "v' = v \<or> (\<exists>b. vote_reveal A key v = Inr (v', b))"
      using Cons.prems(1) by (auto split: sum.splits prod.splits if_splits)
    moreover from this have "voter v' = voter v \<and> v_proposal_id v' = v_proposal_id v
        \<and> (encrypted_ballot v' = [] \<longrightarrow> revealed_ballot v' = None \<or> v' = v)"
      by (auto simp: vote_reveal_def Let_def decrypt_empty split: if_splits sum.splits)
    ultimately show ?thesis using Cons.IH [OF v'(2) ok] Cons.prems(2) map_eq_conv [of voter]
      by (auto simp: votes_ok_def)
  qed
qed (auto simp: votes_ok_def)

lemma new_encrypted_fields:
  assumes "new_encrypted E A nonce now salt u i b x key = Inr v"
  shows "\<exists>c. gcm_encrypt A key nonce [if b then 1 else 0] = Some c \<and> encrypted_ballot v = nonce @ c \<and> revealed_ballot v = None"
  using assms by (cases "gcm_encrypt A key nonce [if b then 1 else 0]") (auto simp: new_encrypted_def encrypt_with_key_def)

lemma vote_made_hidden: "vote_made E A v \<Longrightarrow> revealed_ballot v = None"
  by (auto simp: vote_made_def new_committed_def from_commitment_def dest: new_encrypted_fields)

lemma voting_step_inv:
  assumes "voting_step E A m m'" "voting_inv m"
  shows "voting_inv m'"
  using assms
proof (induction rule: voting_step.induct)
  case (vs_submit m p m' i)
  then show ?case using voting_inv_put [OF vs_submit.prems, of "prop_id p" "[]"] by (auto simp: submit_proposal_def votes_ok_def)
next
  case (vs_cast v now m m')
  let ?i = "v_proposal_id v" and ?vs = "votes_of (v_proposal_id v) m"
  from vs_cast.hyps have "vm_votes m' = (vm_votes m)(?i \<mapsto> ?vs @ [v])" "\<not> list_ex (\<lambda>w. voter w = voter v) ?vs"
    by (auto simp: cast_vote_def Let_def split: option.splits if_splits)
  then have put: "vm_votes m' = (vm_votes m)(?i \<mapsto> ?vs @ [v])" and new: "voter v \<notin> voter ` set ?vs" by (auto simp: list_ex_iff)
  have "votes_ok ?i (?vs @ [v])"
    using voting_inv_votes [OF vs_cast.prems, of ?i] vote_made_hidden [OF vs_cast.hyps(1)] new unfolding votes_ok_def by simp
  then show ?case using put by (rule voting_inv_put [OF vs_cast.prems])
next
  case (vs_reveal now i key m m' r)
  show ?case
  proof (cases "vm_votes m' = vm_votes m")
    case True
    then show ?thesis using vs_reveal.prems by (simp add: voting_inv_def)
  next
    case False
    then obtain vs where "reveal_loop A key (votes_of i m) = (vs, r)" "vm_votes m' = (vm_votes m)(i \<mapsto> vs)"
      using vs_reveal.hyps by (auto simp: reveal_votes_def split: option.splits if_splits prod.splits)
    then show ?thesis
      using reveal_loop_ok voting_inv_votes [OF vs_reveal.prems, of i] voting_inv_put [OF vs_reveal.prems] by blast
  qed
next
  case (vs_finalize now i m m' b)
  then show ?case by (auto simp: finalize_proposal_def voting_inv_def Let_def split: option.splits if_splits prod.splits)
next
  case (vs_stake m x)
  then show ?case by (simp add: update_total_stake_def voting_inv_def)
qed

lemma voting_run_inv: "(voting_step E A)\<^sup>*\<^sup>* m m' \<Longrightarrow> voting_inv m \<Longrightarrow> voting_inv m'"
  by (induction rule: rtranclp_induct) (auto dest: voting_step_inv)

lemma voting_inv_new: "voting_inv (voting_with_config x cfg)"
  by (simp add: voting_inv_def voting_with_config_def)

section \<open>Properties\<close>

text \<open>C18. When a proposal is finalized, in any state the manager can reach, its deadline has passed, every voter is counted at most once, the stored proposal is the
  proposal as it was, marked finalized, whose two tallies are the sums of the revealed powers, and the answer is yes exactly when the votes reach the quorum of the stake and those
  in favour outnumber those against. Two conditions: the powers add up to less than 2 to the 64, and the quorum of the proposal is at most 10000 basis points (proposal_new refuses a larger
  one, but submit_proposal takes a proposal built any other way as it is, and the required votes are then cut to 64 bits).\<close>

theorem finalize_counts_votes:
  assumes "(voting_step E A)\<^sup>*\<^sup>* (voting_with_config x cfg) m" and "finalize_proposal now i m = Inr (m', b)"
    and "proposals m i = Some p" and "unat (quorum_bps p) \<le> 10000"
    and "power_of True (votes_of i m) + power_of False (votes_of i m) < 2 ^ 64"
  shows "distinct (map voter (votes_of i m)) \<and> deadline p \<le> now \<and> \<not> finalized p
    \<and> proposals m' i = Some (p\<lparr>votes_for := of_nat (power_of True (votes_of i m)), votes_against := of_nat (power_of False (votes_of i m)), finalized := True\<rparr>)
    \<and> (\<exists>p'. proposals m' i = Some p' \<and> unat (votes_for p') = power_of True (votes_of i m) \<and> unat (votes_against p') = power_of False (votes_of i m))
    \<and> (\<forall>j. j \<noteq> i \<longrightarrow> proposals m' j = proposals m j) \<and> vm_votes m' = vm_votes m
    \<and> (b \<longleftrightarrow> unat (total_stake m) * unat (quorum_bps p) div 10000 \<le> power_of True (votes_of i m) + power_of False (votes_of i m)
          \<and> power_of False (votes_of i m) < power_of True (votes_of i m))"
proof -
  let ?T = "power_of True (votes_of i m)" and ?F = "power_of False (votes_of i m)"
  obtain f a where t: "tally_loop 0 0 (votes_of i m) = (f, a)" by fastforce
  have fa: "unat f = ?T" "unat a = ?F" using tally_loop_exact [OF t] assms(5) by simp_all
  have fa': "f = of_nat ?T" "a = of_nat ?F" by (simp_all flip: fa)
  define p' where "p' = p\<lparr>votes_for := f, votes_against := a, finalized := True\<rparr>"
  have r: "deadline p \<le> now" "\<not> finalized p" "m' = m\<lparr>proposals := (proposals m)(i \<mapsto> p')\<rparr>" "b \<longleftrightarrow> meets_quorum (total_stake m) p' \<and> passes p'"
    using assms(2,3) t by (auto simp: finalize_proposal_def p'_def Let_def not_less split: if_splits)
  let ?q = "unat (total_stake m) * unat (quorum_bps p) div 10000"
  have "?q \<le> unat (total_stake m)"
    using assms(4) by (metis div_le_mono mult_le_mono2 nonzero_mult_div_cancel_right zero_neq_numeral)
  also have "\<dots> < 2 ^ LENGTH(64)" by (rule unsigned_less)
  finally have "unat (of_nat ?q :: u64) = ?q" by (simp add: unat_of_nat take_bit_nat_eq_self)
  moreover have "unat (f + a) = ?T + ?F" using fa assms(5) unat_add_no_overflow [of f a] by simp
  ultimately have "meets_quorum (total_stake m) p' \<longleftrightarrow> ?q \<le> ?T + ?F"
    by (simp add: meets_quorum_def required_votes_def p'_def word_le_nat_alt)
  moreover have "passes p' \<longleftrightarrow> ?F < ?T" using fa by (simp add: passes_def p'_def word_less_nat_alt)
  moreover have "distinct (map voter (votes_of i m))"
    using voting_inv_votes [OF voting_run_inv [OF assms(1) voting_inv_new], of i] by (simp add: votes_ok_def)
  moreover have "proposals m' i = Some p'" "p' = p\<lparr>votes_for := of_nat ?T, votes_against := of_nat ?F, finalized := True\<rparr>"
    "unat (votes_for p') = ?T" "unat (votes_against p') = ?F"
    using r(3) fa by (simp_all add: p'_def fa')
  ultimately show ?thesis using r by fastforce
qed

text \<open>A commitment binds the voter: whoever opens one commitment both ways has found two different messages with the same SHA-256 hash.\<close>

theorem commitment_binds:
  assumes "reveal_with_salt E b s v = Inr x" and "reveal_with_salt E b' s' v = Inr y" and "b \<noteq> b'"
  shows "\<exists>m m'. m \<noteq> m' \<and> sha256 E m = sha256 E m' \<and> m \<in> {0 # as_bytes s, 1 # as_bytes s} \<and> m' \<in> {0 # as_bytes s', 1 # as_bytes s'}"
proof -
  have "sha256 E ((if b then 1 else 0) # as_bytes s) = sha256 E ((if b' then 1 else 0) # as_bytes s')"
    using assms(1,2) by (auto simp: reveal_with_salt_def verify_vote_reveal_def compute_vote_commitment_def split: if_splits)
  with assms(3) show ?thesis
    by (intro exI [of _ "(if b then 1 else 0) # as_bytes s"] exI [of _ "(if b' then 1 else 0) # as_bytes s'"]) auto
qed

lemma vote_reveal_encrypted:
  assumes "gcm_ok A" "length nonce = 12" "new_encrypted E A nonce now salt u i b x key = Inr v"
  shows "vote_reveal A key v = Inr (v\<lparr>revealed_ballot := Some b\<rparr>, b)"
proof -
  obtain c where c: "gcm_encrypt A key nonce [if b then 1 else 0] = Some c" "encrypted_ballot v = nonce @ c" "revealed_ballot v = None"
    using new_encrypted_fields [OF assms(3)] by blast
  have "length c = length [if b then 1 else 0 :: u8] + 16 \<and> gcm_decrypt A key nonce c = Some [if b then 1 else 0]"
    using assms(1,2) c(1) unfolding gcm_ok_def by blast
  then show ?thesis using c assms(2) by (simp add: vote_reveal_def decrypt_with_key_def GCM_NONCE_SIZE_def)
qed

definition cast_under :: "ed25519 \<Rightarrow> aes_gcm \<Rightarrow> hash32 \<Rightarrow> bool \<Rightarrow> vote \<Rightarrow> bool" where
  "cast_under E A key b v \<longleftrightarrow> (\<exists>nonce now salt u i x. length nonce = 12 \<and> new_encrypted E A nonce now salt u i b x key = Inr v)"

lemma reveal_loop_encrypted:
  assumes "gcm_ok A" "list_all2 (cast_under E A key) bs vs"
  shows "reveal_loop A key vs = (map2 (\<lambda>b v. v\<lparr>revealed_ballot := Some b\<rparr>) bs vs, Inr ())"
  using assms(2)
proof (induction rule: list_all2_induct)
  case (Cons b bs v vs)
  then have "vote_reveal A key v = Inr (v\<lparr>revealed_ballot := Some b\<rparr>, b)" using vote_reveal_encrypted [OF assms(1)] by (auto simp: cast_under_def)
  moreover from this have "revealed_ballot v = None" by (auto simp: vote_reveal_def split: if_splits)
  ultimately show ?case using Cons.IH by simp
qed simp

text \<open>C28. Encrypted ballots come back as they were cast: after the deadline, with the key they were encrypted under, all votes of a proposal are revealed with the choices
  the voters made and their powers.\<close>

theorem encrypted_ballots_revealed:
  assumes "gcm_ok A" and "list_all2 (cast_under E A key) bs (votes_of i m)" and "proposals m i = Some p" and "deadline p \<le> now"
  shows "\<exists>m'. reveal_votes A now i key m = (m', Inr ()) \<and> map revealed_ballot (votes_of i m') = map Some bs
    \<and> map voting_power (votes_of i m') = map voting_power (votes_of i m)"
proof -
  let ?vs = "map2 (\<lambda>b v. v\<lparr>revealed_ballot := Some b\<rparr>) bs (votes_of i m)"
  have l: "length bs = length (votes_of i m)" using assms(2) by (rule list_all2_lengthD)
  have "reveal_votes A now i key m = (m\<lparr>vm_votes := (vm_votes m)(i \<mapsto> ?vs)\<rparr>, Inr ())"
    using reveal_loop_encrypted [OF assms(1,2)] assms(3,4) by (simp add: reveal_votes_def)
  moreover have "votes_of i (m\<lparr>vm_votes := (vm_votes m)(i \<mapsto> ?vs)\<rparr>) = ?vs" by (simp add: votes_of_def)
  moreover have "map revealed_ballot ?vs = map Some bs" "map voting_power ?vs = map voting_power (votes_of i m)"
    using l by (auto intro: nth_equalityI)
  ultimately show ?thesis by metis
qed

text \<open>The commit-reveal votes that the code recommends are never counted: the manager has no operation that opens a commitment, its own reveal fails on them, and a proposal with
  only such votes is finalized with zero on both sides and does not pass.\<close>

theorem committed_votes_never_count:
  assumes "(voting_step E A)\<^sup>*\<^sup>* (voting_with_config x cfg) m" and "\<forall>v\<in>set (votes_of i m). encrypted_ballot v = []"
    and "finalize_proposal now i m = Inr (m', b)"
  shows "b = False \<and> (\<exists>p. proposals m' i = Some p \<and> votes_for p = 0 \<and> votes_against p = 0)"
proof -
  have "\<forall>v\<in>set (votes_of i m). revealed_ballot v = None"
    using voting_inv_votes [OF voting_run_inv [OF assms(1) voting_inv_new], of i] assms(2) by (simp add: votes_ok_def)
  moreover have "tally_loop f a vs = (f, a)" if "\<forall>v\<in>set vs. revealed_ballot v = None" for f a vs
    using that by (induction vs) auto
  ultimately have "tally_loop 0 0 (votes_of i m) = (0, 0)" by blast
  then show ?thesis
    using assms(3) by (auto simp: finalize_proposal_def passes_def Let_def split: option.splits if_splits)
qed

section \<open>Examples\<close>

text \<open>A cipher that appends an empty tag, and a proposal with two encrypted votes, 60 in favour and 30 against, of a stake of 100.\<close>

definition toy_gcm :: aes_gcm where
  "toy_gcm = \<lparr>gcm_encrypt = (\<lambda>k n p. Some (p @ replicate 16 0)), gcm_decrypt = (\<lambda>k n c. Some (take (length c - 16) c))\<rparr>"

lemma toy_gcm_ok: "gcm_ok toy_gcm"
  by (simp add: gcm_ok_def toy_gcm_def)

definition demo_proposal :: proposal where
  "demo_proposal = \<lparr>prop_id = 5, proposer = 1, prop_type = FeatureChange, title = ''t'', description = ''d'', prop_created_at = 0, deadline = 10,
     quorum_bps = 1000, votes_for = 0, votes_against = 0, finalized = False\<rparr>"

definition demo_vote :: "user_id \<Rightarrow> bool \<Rightarrow> u64 \<Rightarrow> vote" where
  "demo_vote u b x = \<lparr>voter = u, v_proposal_id = 5, commitment = compute_vote_commitment toy_ed25519 b 0,
     encrypted_ballot = replicate 12 0 @ [if b then 1 else 0] @ replicate 16 0, revealed_ballot = None, reveal_salt = Some 0, voting_power = x, cast_at = 1\<rparr>"

lemma demo_vote_encrypted: "new_encrypted toy_ed25519 toy_gcm (replicate 12 0) 1 0 u 5 b x key = Inr (demo_vote u b x)"
  by (simp add: new_encrypted_def encrypt_with_key_def toy_gcm_def demo_vote_def)

lemma demo_vote_made: "vote_made toy_ed25519 toy_gcm (demo_vote u b x)"
proof -
  have "length (replicate 12 (0 :: u8)) = 12 \<and> new_encrypted toy_ed25519 toy_gcm (replicate 12 0) 1 0 u 5 b x 0 = Inr (demo_vote u b x)"
    by (simp add: demo_vote_encrypted)
  then show ?thesis unfolding vote_made_def by blast
qed

definition demo_open :: vote_manager where
  "demo_open = fst (submit_proposal demo_proposal (voting_with_config 100 vote_config_default))"

definition demo_cast :: vote_manager where
  "demo_cast = demo_open\<lparr>vm_votes := [5 \<mapsto> [demo_vote 1 True 60, demo_vote 2 False 30]]\<rparr>"

lemma demo_cast_run: "(voting_step toy_ed25519 toy_gcm)\<^sup>*\<^sup>* (voting_with_config 100 vote_config_default) demo_cast"
proof -
  let ?m1 = "demo_open\<lparr>vm_votes := [5 \<mapsto> [demo_vote 1 True 60]]\<rparr>"
  note defs = demo_open_def demo_cast_def submit_proposal_def voting_with_config_def cast_vote_def demo_proposal_def demo_vote_def votes_of_def is_open_def Let_def
  have "voting_step toy_ed25519 toy_gcm (voting_with_config 100 vote_config_default) demo_open"
    by (rule vs_submit [of _ demo_proposal _ 5]) (simp_all add: defs)
  moreover have "voting_step toy_ed25519 toy_gcm demo_open ?m1"
    by (rule vs_cast [OF demo_vote_made [of 1 True 60], of 1]) (simp add: defs)
  moreover have "voting_step toy_ed25519 toy_gcm ?m1 demo_cast"
    by (rule vs_cast [OF demo_vote_made [of 2 False 30], of 1]) (simp add: defs)
  ultimately show ?thesis by (meson rtranclp.rtrancl_refl rtranclp.rtrancl_into_rtrancl)
qed

lemma demo_cast_fields: "proposals demo_cast 5 = Some demo_proposal" "votes_of 5 demo_cast = [demo_vote 1 True 60, demo_vote 2 False 30]"
  "total_stake demo_cast = 100" "deadline demo_proposal = 10" "quorum_bps demo_proposal = 1000" "\<not> finalized demo_proposal" "prop_id demo_proposal = 5"
  by (simp_all add: demo_cast_def demo_open_def submit_proposal_def voting_with_config_def votes_of_def demo_proposal_def)

lemma demo_under: "list_all2 (cast_under toy_ed25519 toy_gcm 0) [True, False] (votes_of 5 demo_cast)"
proof -
  have "cast_under toy_ed25519 toy_gcm 0 b (demo_vote u b x)" for u b x
    unfolding cast_under_def using demo_vote_encrypted [of u b x 0] by (metis length_replicate)
  then show ?thesis by (simp add: demo_cast_fields)
qed

theorem encrypted_ballots_revealed_witness:
  "\<exists>m'. reveal_votes toy_gcm 10 5 0 demo_cast = (m', Inr ()) \<and> map revealed_ballot (votes_of 5 m') = [Some True, Some False]"
  using encrypted_ballots_revealed [OF toy_gcm_ok demo_under demo_cast_fields(1), of 10] by (auto simp: demo_cast_fields)

definition demo_revealed :: vote_manager where
  "demo_revealed = fst (reveal_votes toy_gcm 10 5 0 demo_cast)"

lemma demo_revealed_votes: "votes_of 5 demo_revealed = [(demo_vote 1 True 60)\<lparr>revealed_ballot := Some True\<rparr>, (demo_vote 2 False 30)\<lparr>revealed_ballot := Some False\<rparr>]"
  "proposals demo_revealed = proposals demo_cast" "total_stake demo_revealed = 100"
  using reveal_loop_encrypted [OF toy_gcm_ok demo_under]
  by (simp_all add: demo_revealed_def reveal_votes_def demo_cast_fields) (simp_all add: votes_of_def demo_cast_fields)

theorem finalize_counts_votes_witness:
  "\<exists>m' p'. finalize_proposal 10 5 demo_revealed = Inr (m', True) \<and> distinct (map voter (votes_of 5 demo_revealed))
    \<and> proposals m' 5 = Some p' \<and> unat (votes_for p') = 60 \<and> unat (votes_against p') = 30"
proof -
  have "voting_step toy_ed25519 toy_gcm demo_cast demo_revealed"
    by (rule vs_reveal [of toy_gcm 10 5 0 _ _ "snd (reveal_votes toy_gcm 10 5 0 demo_cast)"]) (simp add: demo_revealed_def)
  with demo_cast_run have run: "(voting_step toy_ed25519 toy_gcm)\<^sup>*\<^sup>* (voting_with_config 100 vote_config_default) demo_revealed" by simp
  obtain m' b where f: "finalize_proposal 10 5 demo_revealed = Inr (m', b)"
    by (simp add: finalize_proposal_def demo_revealed_votes demo_cast_fields Let_def split: prod.splits)
  have p: "power_of True (votes_of 5 demo_revealed) = 60" "power_of False (votes_of 5 demo_revealed) = 30"
    by (simp_all add: demo_revealed_votes power_of_def demo_vote_def)
  from finalize_counts_votes [OF run f, of demo_proposal] f p show ?thesis
    by (auto simp: demo_revealed_votes(2,3) demo_cast_fields)
qed

theorem commitment_binds_witness:
  "\<exists>m m'. m \<noteq> m' \<and> sha256 toy_ed25519 m = sha256 toy_ed25519 m' \<and> m \<in> {0 # as_bytes 1, 1 # as_bytes 1} \<and> m' \<in> {0 # as_bytes 0, 1 # as_bytes 0}"
proof -
  let ?v = "fst (new_committed toy_ed25519 0 0 1 5 True 60)"
  have sums: "sum_list (map ucast (as_bytes 1)) = (1 :: hash32)" "sum_list (map ucast (as_bytes 0)) = (0 :: hash32)"
    by (simp_all add: as_bytes_def le_bytes_def upt_rec)
  have "reveal_with_salt toy_ed25519 False 1 ?v = Inr (?v\<lparr>revealed_ballot := Some False, reveal_salt := Some 1\<rparr>, False)"
    "reveal_with_salt toy_ed25519 True 0 ?v = Inr (?v\<lparr>revealed_ballot := Some True, reveal_salt := Some 0\<rparr>, True)"
    by (simp_all add: reveal_with_salt_def verify_vote_reveal_def compute_vote_commitment_def new_committed_def toy_ed25519_def sums)
  from commitment_binds [OF this] show ?thesis by simp
qed

theorem committed_votes_never_count_witness:
  "\<exists>m'. finalize_proposal 10 5 (demo_open\<lparr>vm_votes := [5 \<mapsto> [from_commitment 1 1 5 77 60]]\<rparr>) = Inr (m', False)"
proof -
  let ?v = "from_commitment 1 1 5 77 60" and ?m = "demo_open\<lparr>vm_votes := [5 \<mapsto> [from_commitment 1 1 5 77 60]]\<rparr>"
  note defs = demo_open_def submit_proposal_def voting_with_config_def cast_vote_def demo_proposal_def from_commitment_def votes_of_def is_open_def Let_def
  have "voting_step toy_ed25519 toy_gcm (voting_with_config 100 vote_config_default) demo_open"
    by (rule vs_submit [of _ demo_proposal _ 5]) (simp_all add: defs)
  moreover have "vote_made toy_ed25519 toy_gcm ?v" unfolding vote_made_def by blast
  then have "voting_step toy_ed25519 toy_gcm demo_open ?m" by (rule vs_cast [of _ _ _ 1]) (simp add: defs)
  ultimately have run: "(voting_step toy_ed25519 toy_gcm)\<^sup>*\<^sup>* (voting_with_config 100 vote_config_default) ?m"
    by (meson rtranclp.rtrancl_refl rtranclp.rtrancl_into_rtrancl)
  obtain m' b where f: "finalize_proposal 10 5 ?m = Inr (m', b)"
    by (simp add: finalize_proposal_def defs)
  from committed_votes_never_count [OF run _ f] f show ?thesis by (simp add: votes_of_def from_commitment_def)
qed

end
