(* ===== verification/Moderation.thy ===== *)
theory Moderation
  imports Voting
begin

text \<open>
  Community moderation: \<^verbatim>\<open>crates/dchat-governance/src/moderation.rs\<close>. Actions with their appeals, votes to slash a moderator, and the manager. Clock
  and ids are arguments; where the code lists the values of a hash map, the order of its keys is one.
\<close>

section \<open>Data and operations\<close>

datatype moderation_action_type = ModWarning | ModMute | ModBan | ModDeleteMessage | ModSlashModerator

datatype appeal_status = AppealPending | AppealAccepted | AppealRejected

record appeal =
  appellant :: user_id
  appeal_reason :: string
  filed_at :: timestamp
  appeal_state :: appeal_status

record moderation_action =
  ma_id :: vote_uuid
  ma_type :: moderation_action_type
  ma_moderator :: user_id
  target_user :: "user_id option"
  target_message :: "128 word option"
  ma_reason :: string
  ma_created_at :: timestamp
  executed :: bool
  ma_appeal :: "appeal option"

record slashing_vote =
  sv_id :: vote_uuid
  sv_moderator :: user_id
  sv_evidence :: "moderation_action list"
  sv_for :: u64
  sv_against :: u64
  sv_deadline :: timestamp
  sv_finalized :: bool

record moderation_manager =
  moderators :: "user_id \<rightharpoonup> u64"
  actions :: "vote_uuid \<rightharpoonup> moderation_action"
  slashing_votes :: "vote_uuid \<rightharpoonup> slashing_vote"
  min_stake :: u64

definition action_new ::
    "timestamp \<Rightarrow> vote_uuid \<Rightarrow> user_id \<Rightarrow> moderation_action_type \<Rightarrow> user_id option \<Rightarrow> 128 word option \<Rightarrow> string \<Rightarrow> moderation_action" where
  "action_new now i who k u msg why =
     \<lparr>ma_id = i, ma_type = k, ma_moderator = who, target_user = u, target_message = msg, ma_reason = why, ma_created_at = now, executed = False, ma_appeal = None\<rparr>"

definition file_appeal :: "timestamp \<Rightarrow> user_id \<Rightarrow> string \<Rightarrow> moderation_action \<Rightarrow> moderation_action core_result" where
  "file_appeal now u why a =
     (if ma_appeal a \<noteq> None then Inl InvalidInput
      else Inr (a\<lparr>ma_appeal := Some \<lparr>appellant = u, appeal_reason = why, filed_at = now, appeal_state = AppealPending\<rparr>\<rparr>))"

definition resolve_appeal :: "bool \<Rightarrow> moderation_action \<Rightarrow> moderation_action core_result" where
  "resolve_appeal accepted a =
     (case ma_appeal a of
        None \<Rightarrow> Inl InvalidInput
      | Some ap \<Rightarrow>
          if appeal_state ap \<noteq> AppealPending then Inl InvalidInput
          else Inr (a\<lparr>ma_appeal := Some (ap\<lparr>appeal_state := (if accepted then AppealAccepted else AppealRejected)\<rparr>)\<rparr>))"

definition slashing_vote_new :: "timestamp \<Rightarrow> vote_uuid \<Rightarrow> user_id \<Rightarrow> moderation_action list \<Rightarrow> int \<Rightarrow> slashing_vote" where
  "slashing_vote_new now i who ev days =
     \<lparr>sv_id = i, sv_moderator = who, sv_evidence = ev, sv_for = 0, sv_against = 0, sv_deadline = now + duration_days days, sv_finalized = False\<rparr>"

definition sv_is_open :: "timestamp \<Rightarrow> slashing_vote \<Rightarrow> bool" where
  "sv_is_open now v \<longleftrightarrow> \<not> sv_finalized v \<and> now < sv_deadline v"

definition sv_passes :: "slashing_vote \<Rightarrow> bool" where
  "sv_passes v \<longleftrightarrow> sv_for v > sv_against v"

definition moderation_new :: "u64 \<Rightarrow> moderation_manager" where
  "moderation_new x = \<lparr>moderators = Map.empty, actions = Map.empty, slashing_votes = Map.empty, min_stake = x\<rparr>"

definition register_moderator :: "user_id \<Rightarrow> u64 \<Rightarrow> moderation_manager \<Rightarrow> moderation_manager core_result" where
  "register_moderator u x m = (if x < min_stake m then Inl InvalidInput else Inr (m\<lparr>moderators := (moderators m)(u \<mapsto> x)\<rparr>))"

definition is_moderator :: "user_id \<Rightarrow> moderation_manager \<Rightarrow> bool" where
  "is_moderator u m \<longleftrightarrow> moderators m u \<noteq> None"

definition submit_action :: "moderation_action \<Rightarrow> moderation_manager \<Rightarrow> (moderation_manager \<times> vote_uuid) core_result" where
  "submit_action a m =
     (if \<not> is_moderator (ma_moderator a) m then Inl InvalidInput
      else Inr (m\<lparr>actions := (actions m)(ma_id a \<mapsto> a)\<rparr>, ma_id a))"

definition execute_action :: "vote_uuid \<Rightarrow> moderation_manager \<Rightarrow> moderation_manager core_result" where
  "execute_action i m =
     (case actions m i of
        None \<Rightarrow> Inl NotFound
      | Some a \<Rightarrow>
          if executed a then Inl InvalidInput
          else case map_option appeal_state (ma_appeal a) of
            Some AppealPending \<Rightarrow> Inl InvalidInput
          | Some AppealAccepted \<Rightarrow> Inl InvalidInput
          | _ \<Rightarrow> Inr (m\<lparr>actions := (actions m)(i \<mapsto> a\<lparr>executed := True\<rparr>)\<rparr>))"

definition initiate_slashing ::
    "timestamp \<Rightarrow> vote_uuid \<Rightarrow> user_id \<Rightarrow> moderation_action list \<Rightarrow> int \<Rightarrow> moderation_manager \<Rightarrow> (moderation_manager \<times> vote_uuid) core_result" where
  "initiate_slashing now i who ev days m =
     (if \<not> is_moderator who m then Inl InvalidInput
      else if ev = [] then Inl InvalidInput
      else Inr (m\<lparr>slashing_votes := (slashing_votes m)(i \<mapsto> slashing_vote_new now i who ev days)\<rparr>, i))"

definition add_power :: "bool \<Rightarrow> u64 \<Rightarrow> slashing_vote \<Rightarrow> slashing_vote" where
  "add_power b x v = (if b then v\<lparr>sv_for := sv_for v + x\<rparr> else v\<lparr>sv_against := sv_against v + x\<rparr>)"

definition vote_on_slashing :: "timestamp \<Rightarrow> vote_uuid \<Rightarrow> bool \<Rightarrow> u64 \<Rightarrow> moderation_manager \<Rightarrow> moderation_manager core_result" where
  "vote_on_slashing now i b x m =
     (case slashing_votes m i of
        None \<Rightarrow> Inl NotFound
      | Some v \<Rightarrow> if \<not> sv_is_open now v then Inl InvalidInput else Inr (m\<lparr>slashing_votes := (slashing_votes m)(i \<mapsto> add_power b x v)\<rparr>))"

definition finalize_slashing :: "timestamp \<Rightarrow> vote_uuid \<Rightarrow> moderation_manager \<Rightarrow> (moderation_manager \<times> bool) core_result" where
  "finalize_slashing now i m =
     (case slashing_votes m i of
        None \<Rightarrow> Inl NotFound
      | Some v \<Rightarrow>
          if sv_finalized v then Inl InvalidInput
          else if now < sv_deadline v then Inl InvalidInput
          else let m' = m\<lparr>slashing_votes := (slashing_votes m)(i \<mapsto> v\<lparr>sv_finalized := True\<rparr>)\<rparr>
            in if sv_passes v then Inr (m'\<lparr>moderators := (moderators m')(sv_moderator v := None)\<rparr>, True) else Inr (m', False))"

definition get_actions_by_moderator :: "vote_uuid list \<Rightarrow> user_id \<Rightarrow> moderation_manager \<Rightarrow> moderation_action list" where
  "get_actions_by_moderator ids u m = filter (\<lambda>a. ma_moderator a = u) (filter_map (actions m) ids)"

definition get_active_slashing_votes :: "timestamp \<Rightarrow> vote_uuid list \<Rightarrow> moderation_manager \<Rightarrow> slashing_vote list" where
  "get_active_slashing_votes now ids m = filter (sv_is_open now) (filter_map (slashing_votes m) ids)"

section \<open>Runs\<close>

text \<open>The calls that change the manager. The ids of actions and votes are fresh.\<close>

inductive moderation_step :: "moderation_manager \<Rightarrow> moderation_manager \<Rightarrow> bool" where
  mo_register: "register_moderator u x m = Inr m' \<Longrightarrow> moderation_step m m'"
| mo_submit: "actions m (ma_id a) = None \<Longrightarrow> submit_action a m = Inr (m', i) \<Longrightarrow> moderation_step m m'"
| mo_execute: "execute_action i m = Inr m' \<Longrightarrow> moderation_step m m'"
| mo_slash: "slashing_votes m i = None \<Longrightarrow> initiate_slashing now i who ev days m = Inr (m', j) \<Longrightarrow> moderation_step m m'"
| mo_vote: "vote_on_slashing now i b x m = Inr m' \<Longrightarrow> moderation_step m m'"
| mo_finalize: "finalize_slashing now i m = Inr (m', b) \<Longrightarrow> moderation_step m m'"

lemma step_keeps_action:
  assumes "moderation_step m m'" and "actions m i = Some a"
  shows "\<exists>a'. actions m' i = Some a' \<and> ma_appeal a' = ma_appeal a \<and> (executed a \<longrightarrow> executed a')
    \<and> (executed a' \<longrightarrow> executed a \<or> (\<forall>ap. ma_appeal a = Some ap \<longrightarrow> appeal_state ap = AppealRejected))"
  using assms
proof cases
  case (mo_execute j)
  then show ?thesis using assms(2) by (auto simp: execute_action_def split: option.splits if_splits appeal_status.splits)
qed (auto simp: register_moderator_def submit_action_def initiate_slashing_def vote_on_slashing_def finalize_slashing_def Let_def
      split: option.splits if_splits)

lemma run_keeps_action:
  assumes "moderation_step\<^sup>*\<^sup>* m m'" and "actions m i = Some a"
  shows "\<exists>a'. actions m' i = Some a' \<and> ma_appeal a' = ma_appeal a \<and> (executed a \<longrightarrow> executed a')
    \<and> (executed a' \<longrightarrow> executed a \<or> (\<forall>ap. ma_appeal a = Some ap \<longrightarrow> appeal_state ap = AppealRejected))"
  using assms
proof (induction rule: rtranclp_induct)
  case (step m1 m2)
  then obtain a1 where a1: "actions m1 i = Some a1" "ma_appeal a1 = ma_appeal a" "executed a \<longrightarrow> executed a1"
    "executed a1 \<longrightarrow> executed a \<or> (\<forall>ap. ma_appeal a = Some ap \<longrightarrow> appeal_state ap = AppealRejected)" by blast
  from step_keeps_action [OF step(2) a1(1)] show ?case using a1 by auto
qed auto

text \<open>An action with an appeal that is open or was accepted is never executed, in no continuation of the run; an executed action stays executed and cannot be executed again.\<close>

theorem appealed_action_not_executed:
  assumes "actions m i = Some a" and "\<not> executed a" and "ma_appeal a = Some ap" and "appeal_state ap \<noteq> AppealRejected" and "moderation_step\<^sup>*\<^sup>* m m'"
  shows "\<exists>a'. actions m' i = Some a' \<and> \<not> executed a' \<and> ma_appeal a' = Some ap"
  using run_keeps_action [OF assms(5,1)] assms(2-4) by auto

text \<open>Appeals cannot be filed or decided once an action is with the manager: no call changes the appeal of a stored action, so an action that was submitted without an appeal can be
  executed for ever, and one whose appeal was open at that time never.\<close>

theorem stored_appeal_frozen:
  assumes "actions m i = Some a" and "moderation_step\<^sup>*\<^sup>* m m'"
  shows "\<exists>a'. actions m' i = Some a' \<and> ma_appeal a' = ma_appeal a"
  using run_keeps_action [OF assms(2,1)] by auto

section \<open>Votes to slash\<close>

text \<open>The votes on one slashing, in order.\<close>

fun cast_all :: "timestamp \<Rightarrow> vote_uuid \<Rightarrow> (bool \<times> u64) list \<Rightarrow> moderation_manager \<Rightarrow> moderation_manager core_result" where
  "cast_all now i [] m = Inr m"
| "cast_all now i ((b, x) # bs) m = (case vote_on_slashing now i b x m of Inl e \<Rightarrow> Inl e | Inr m' \<Rightarrow> cast_all now i bs m')"

definition weight :: "bool \<Rightarrow> (bool \<times> u64) list \<Rightarrow> nat" where
  "weight b bs = sum_list (map (unat \<circ> snd) (filter (\<lambda>p. fst p = b) bs))"

lemma cast_all_tally:
  assumes "cast_all now i bs m = Inr m'" and "slashing_votes m i = Some v"
    and "unat (sv_for v) + weight True bs < 2 ^ 64" "unat (sv_against v) + weight False bs < 2 ^ 64"
  shows "\<exists>v'. slashing_votes m' i = Some v' \<and> unat (sv_for v') = unat (sv_for v) + weight True bs \<and> unat (sv_against v') = unat (sv_against v) + weight False bs
    \<and> sv_moderator v' = sv_moderator v \<and> sv_deadline v' = sv_deadline v \<and> sv_finalized v' = sv_finalized v \<and> moderators m' = moderators m"
  using assms
proof (induction bs arbitrary: m v)
  case Nil
  then show ?case by (simp add: weight_def)
next
  case (Cons p bs)
  obtain b x where p: "p = (b, x)" by (cases p)
  from Cons.prems(1,2) p obtain m1 where m1: "m1 = m\<lparr>slashing_votes := (slashing_votes m)(i \<mapsto> add_power b x v)\<rparr>" "cast_all now i bs m1 = Inr m'"
    by (auto simp: vote_on_slashing_def split: if_splits)
  have w: "weight True (p # bs) = (if b then unat x else 0) + weight True bs" "weight False (p # bs) = (if b then 0 else unat x) + weight False bs"
    by (simp_all add: weight_def p)
  have add: "unat (sv_for (add_power b x v)) = unat (sv_for v) + (if b then unat x else 0)" "unat (sv_against (add_power b x v)) = unat (sv_against v) + (if b then 0 else unat x)"
    using Cons.prems(3,4) w by (auto simp: add_power_def unat_add_no_overflow)
  have "slashing_votes m1 i = Some (add_power b x v)" "moderators m1 = moderators m" by (simp_all add: m1(1))
  moreover have "sv_moderator (add_power b x v) = sv_moderator v" "sv_deadline (add_power b x v) = sv_deadline v" "sv_finalized (add_power b x v) = sv_finalized v"
    by (simp_all add: add_power_def)
  ultimately show ?case using Cons.IH [OF m1(2), of "add_power b x v"] Cons.prems(3,4) add w by auto
qed

text \<open>A moderator loses the office exactly when the power cast for it exceeds the power cast against, with the powers added as numbers, and nobody else does.\<close>

theorem slashing_follows_votes:
  assumes "initiate_slashing now i who ev days m0 = Inr (m1, j)" and "cast_all now1 i bs m1 = Inr m2" and "finalize_slashing now2 i m2 = Inr (m3, b)"
    and "weight True bs < 2 ^ 64" "weight False bs < 2 ^ 64"
  shows "(b \<longleftrightarrow> weight True bs > weight False bs) \<and> moderators m3 = (if b then (moderators m0)(who := None) else moderators m0)"
proof -
  have m1: "slashing_votes m1 i = Some (slashing_vote_new now i who ev days)" "moderators m1 = moderators m0"
    using assms(1) by (auto simp: initiate_slashing_def split: if_splits)
  obtain v where v: "slashing_votes m2 i = Some v" "unat (sv_for v) = weight True bs" "unat (sv_against v) = weight False bs" "sv_moderator v = who" "moderators m2 = moderators m0"
    using cast_all_tally [OF assms(2) m1(1)] assms(4,5) m1(2) by (auto simp: slashing_vote_new_def)
  have "sv_passes v \<longleftrightarrow> weight True bs > weight False bs" using v by (simp add: sv_passes_def word_less_nat_alt)
  then show ?thesis using assms(3) v by (auto simp: finalize_slashing_def Let_def split: if_splits)
qed

section \<open>Examples\<close>

definition demo_action_filed :: moderation_action where
  "demo_action_filed = (action_new 0 3 1 ModBan (Some 9) None ''spam'')\<lparr>ma_appeal := Some \<lparr>appellant = 9, appeal_reason = ''no'', filed_at = 0, appeal_state = AppealPending\<rparr>\<rparr>"

definition demo_mod :: moderation_manager where
  "demo_mod = \<lparr>moderators = [1 \<mapsto> 50], actions = [3 \<mapsto> demo_action_filed], slashing_votes = Map.empty, min_stake = 10\<rparr>"

theorem appealed_action_not_executed_witness: "\<exists>a'. actions demo_mod 3 = Some a' \<and> \<not> executed a'"
  using appealed_action_not_executed [of demo_mod 3 demo_action_filed _ demo_mod] by (auto simp: demo_mod_def demo_action_filed_def action_new_def)

theorem stored_appeal_frozen_witness: "\<exists>m' a'. moderation_step demo_mod m' \<and> actions m' 3 = Some a' \<and> ma_appeal a' = ma_appeal demo_action_filed"
proof -
  have s: "moderation_step demo_mod (demo_mod\<lparr>moderators := [1 \<mapsto> 50, 2 \<mapsto> 20]\<rparr>)"
    by (rule mo_register [of 2 20]) (simp add: register_moderator_def demo_mod_def)
  have "actions demo_mod 3 = Some demo_action_filed" by (simp add: demo_mod_def)
  from stored_appeal_frozen [OF this r_into_rtranclp [of moderation_step, OF s]] s show ?thesis by blast
qed

theorem slashing_follows_votes_witness:
  "\<exists>m1 m2 m3 b. initiate_slashing 0 4 1 [demo_action_filed] 1 demo_mod = Inr (m1, 4) \<and> cast_all 0 4 [(True, 7), (False, 3)] m1 = Inr m2
    \<and> finalize_slashing (duration_days 1) 4 m2 = Inr (m3, b) \<and> b \<and> moderators m3 1 = None"
proof -
  obtain m1 m2 m3 b where run: "initiate_slashing 0 4 1 [demo_action_filed] 1 demo_mod = Inr (m1, 4)" "cast_all 0 4 [(True, 7), (False, 3)] m1 = Inr m2"
    "finalize_slashing (duration_days 1) 4 m2 = Inr (m3, b)"
    by (simp add: initiate_slashing_def is_moderator_def demo_mod_def vote_on_slashing_def slashing_vote_new_def sv_is_open_def add_power_def duration_days_def
        duration_seconds_def finalize_slashing_def sv_passes_def word_less_nat_alt)
  from slashing_follows_votes [OF run] have "b \<and> moderators m3 1 = None" by (simp add: weight_def)
  with run show ?thesis by blast
qed

end
