(* ===== verification/Insurance.thy ===== *)
theory Insurance
  imports Chain_Core "HOL-Library.AList"
begin

text \<open>
  The insurance fund: \<^verbatim>\<open>crates/dchat-chain/src/insurance_fund.rs\<close>. Claims with the votes on them, the balance and the log of
  its deposits and payouts. The votes of a claim are an association list, which a later vote of the same user replaces in place; ids and the clock are
  arguments. Of the statistics the floating-point ratio is left out.
\<close>

section \<open>Data\<close>

type_synonym claim_uuid = "128 word"

datatype claim_type =
    RelayFailure user_id "user_id list" u64
  | SlashingOverflow user_id u64
  | AttackCompensation string "user_id list" u64
  | EmergencyCompensation string "user_id list" string

datatype claim_status = ClaimPending | UnderReview | ClaimApproved u64 | Paid u64 string | ClaimRejected string

record insurance_claim =
  claim_id :: claim_uuid
  claimant :: user_id
  claim_kind :: claim_type
  requested_amount :: u64
  claim_state :: claim_status
  claim_submitted_at :: timestamp
  claim_updated_at :: timestamp
  claim_evidence :: "string list"
  claim_votes :: "(user_id \<times> bool) list"

record fund_statistics =
  st_balance :: u64
  st_claims :: u64
  st_approved :: u64
  st_paid_out :: u64
  st_pending :: u64
  st_average :: u64

record fund_configuration =
  minimum_balance :: u64
  auto_approve_threshold :: u64
  fee_allocation_percent :: u8
  min_votes_for_approval :: u32
  max_processing_time_secs :: u64

datatype fund_tx_type = FeeDeposit | GovernanceDeposit | ClaimPayout | EmergencyWithdrawal

record fund_transaction =
  ftx_id :: claim_uuid
  ftx_type :: fund_tx_type
  ftx_amount :: u64
  ftx_timestamp :: timestamp
  related_claim :: "claim_uuid option"
  ftx_hash :: string

record insurance_fund =
  fund_balance :: u64
  fund_claims :: "claim_uuid \<rightharpoonup> insurance_claim"
  fund_config :: fund_configuration
  fund_log :: "fund_transaction list"

section \<open>Operations\<close>

definition fund_config_default :: fund_configuration where
  "fund_config_default = \<lparr>minimum_balance = 100000, auto_approve_threshold = 1000, fee_allocation_percent = 10, min_votes_for_approval = 3,
     max_processing_time_secs = 7 * 24 * 3600\<rparr>"

definition insurance_new :: "u64 \<Rightarrow> fund_configuration \<Rightarrow> insurance_fund" where
  "insurance_new b cfg = \<lparr>fund_balance = b, fund_claims = Map.empty, fund_config = cfg, fund_log = []\<rparr>"

definition submit_claim ::
    "timestamp \<Rightarrow> claim_uuid \<Rightarrow> user_id \<Rightarrow> claim_type \<Rightarrow> u64 \<Rightarrow> string list \<Rightarrow> insurance_fund \<Rightarrow> (insurance_fund \<times> claim_uuid) core_result" where
  "submit_claim now i who k x ev f =
     (if x = 0 then Inl InvalidInput
      else if x > fund_balance f then Inl InvalidInput
      else Inr (f\<lparr>fund_claims := (fund_claims f)(i \<mapsto>
             \<lparr>claim_id = i, claimant = who, claim_kind = k, requested_amount = x, claim_state = ClaimPending,
              claim_submitted_at = now, claim_updated_at = now, claim_evidence = ev, claim_votes = []\<rparr>)\<rparr>, i))"

definition is_pending :: "insurance_claim \<Rightarrow> bool" where
  "is_pending c \<longleftrightarrow> claim_state c = ClaimPending \<or> claim_state c = UnderReview"

definition approve_votes :: "insurance_claim \<Rightarrow> nat" where
  "approve_votes c = length (filter snd (claim_votes c))"

definition approve_claim :: "timestamp \<Rightarrow> claim_uuid \<Rightarrow> insurance_fund \<Rightarrow> insurance_fund core_result" where
  "approve_claim now i f =
     (case fund_claims f i of
        None \<Rightarrow> Inl InvalidInput
      | Some c \<Rightarrow>
          if approve_votes c < unat (min_votes_for_approval (fund_config f)) then Inl InvalidInput
          else Inr (f\<lparr>fund_claims := (fund_claims f)(i \<mapsto> c\<lparr>claim_state := ClaimApproved (requested_amount c), claim_updated_at := now\<rparr>)\<rparr>))"

definition vote_on_claim :: "timestamp \<Rightarrow> claim_uuid \<Rightarrow> user_id \<Rightarrow> bool \<Rightarrow> insurance_fund \<Rightarrow> insurance_fund \<times> unit core_result" where
  "vote_on_claim now i who approve f =
     (case fund_claims f i of
        None \<Rightarrow> (f, Inl InvalidInput)
      | Some c \<Rightarrow>
          if \<not> is_pending c then (f, Inl InvalidInput)
          else let f' = f\<lparr>fund_claims := (fund_claims f)(i \<mapsto> c\<lparr>claim_votes := AList.update who approve (claim_votes c), claim_updated_at := now\<rparr>)\<rparr>
            in if requested_amount c \<le> auto_approve_threshold (fund_config f)
               then case approve_claim now i f' of Inl e \<Rightarrow> (f', Inl e) | Inr f'' \<Rightarrow> (f'', Inr ())
               else (f', Inr ()))"

definition payout_claim :: "timestamp \<Rightarrow> claim_uuid \<Rightarrow> claim_uuid \<Rightarrow> string \<Rightarrow> insurance_fund \<Rightarrow> insurance_fund core_result" where
  "payout_claim now tid i h f =
     (case fund_claims f i of
        None \<Rightarrow> Inl InvalidInput
      | Some c \<Rightarrow> (case claim_state c of
          ClaimApproved x \<Rightarrow>
            if x > fund_balance f then Inl InvalidInput
            else Inr (f\<lparr>fund_balance := fund_balance f - x,
                        fund_claims := (fund_claims f)(i \<mapsto> c\<lparr>claim_state := Paid x h, claim_updated_at := now\<rparr>),
                        fund_log := fund_log f @ [\<lparr>ftx_id = tid, ftx_type = ClaimPayout, ftx_amount = x, ftx_timestamp = now,
                                                   related_claim = Some i, ftx_hash = h\<rparr>]\<rparr>)
        | _ \<Rightarrow> Inl InvalidInput))"

definition reject_claim :: "timestamp \<Rightarrow> claim_uuid \<Rightarrow> string \<Rightarrow> insurance_fund \<Rightarrow> insurance_fund core_result" where
  "reject_claim now i reason f =
     (case fund_claims f i of
        None \<Rightarrow> Inl InvalidInput
      | Some c \<Rightarrow> Inr (f\<lparr>fund_claims := (fund_claims f)(i \<mapsto> c\<lparr>claim_state := ClaimRejected reason, claim_updated_at := now\<rparr>)\<rparr>))"

definition fund_deposit :: "timestamp \<Rightarrow> claim_uuid \<Rightarrow> u64 \<Rightarrow> fund_tx_type \<Rightarrow> string \<Rightarrow> insurance_fund \<Rightarrow> insurance_fund" where
  "fund_deposit now tid x k h f =
     f\<lparr>fund_balance := fund_balance f + x,
       fund_log := fund_log f @ [\<lparr>ftx_id = tid, ftx_type = k, ftx_amount = x, ftx_timestamp = now, related_claim = None, ftx_hash = h\<rparr>]\<rparr>"

text \<open>The readers; \<^term>\<open>ids\<close> enumerates the claims in the order of the hash map.\<close>

definition get_pending_claims :: "claim_uuid list \<Rightarrow> insurance_fund \<Rightarrow> insurance_claim list" where
  "get_pending_claims ids f = filter is_pending (filter_map (fund_claims f) ids)"

definition paid_amount :: "insurance_claim \<Rightarrow> u64 option" where
  "paid_amount c = (case claim_state c of Paid x _ \<Rightarrow> Some x | _ \<Rightarrow> None)"

definition is_approved :: "insurance_claim \<Rightarrow> bool" where
  "is_approved c \<longleftrightarrow> (case claim_state c of ClaimApproved _ \<Rightarrow> True | Paid _ _ \<Rightarrow> True | _ \<Rightarrow> False)"

definition get_fund_statistics :: "claim_uuid list \<Rightarrow> insurance_fund \<Rightarrow> fund_statistics" where
  "get_fund_statistics ids f =
     (let cs = filter_map (fund_claims f) ids; n = of_nat (length cs); paid = sum_list (filter_map paid_amount cs)
      in \<lparr>st_balance = fund_balance f, st_claims = n, st_approved = of_nat (length (filter is_approved cs)), st_paid_out = paid,
          st_pending = of_nat (length (get_pending_claims ids f)), st_average = (if n > 0 then paid div n else 0)\<rparr>)"

definition fund_is_healthy :: "insurance_fund \<Rightarrow> bool" where
  "fund_is_healthy f \<longleftrightarrow> fund_balance f \<ge> minimum_balance (fund_config f)"

section \<open>Runs\<close>

text \<open>A step is a call that changes the fund; the id of a new claim is fresh.\<close>

inductive fund_step :: "insurance_fund \<Rightarrow> insurance_fund \<Rightarrow> bool" where
  fs_submit: "fund_claims f i = None \<Longrightarrow> submit_claim now i who k x ev f = Inr (f', j) \<Longrightarrow> fund_step f f'"
| fs_vote: "vote_on_claim now i who b f = (f', r) \<Longrightarrow> fund_step f f'"
| fs_approve: "approve_claim now i f = Inr f' \<Longrightarrow> fund_step f f'"
| fs_payout: "payout_claim now tid i h f = Inr f' \<Longrightarrow> fund_step f f'"
| fs_reject: "reject_claim now i reason f = Inr f' \<Longrightarrow> fund_step f f'"
| fs_deposit: "fund_step f (fund_deposit now tid x k h f)"

text \<open>What came in and what went out, by the log: a payout names its claim.\<close>

definition deposited :: "insurance_fund \<Rightarrow> nat" where
  "deposited f = sum_list (map (unat \<circ> ftx_amount) (filter (\<lambda>t. related_claim t = None) (fund_log f)))"

definition paid_out :: "insurance_fund \<Rightarrow> nat" where
  "paid_out f = sum_list (map (unat \<circ> ftx_amount) (filter (\<lambda>t. related_claim t \<noteq> None) (fund_log f)))"

lemma approve_claimD:
  assumes "approve_claim now i f = Inr f'"
  obtains c where "fund_claims f i = Some c" and "unat (min_votes_for_approval (fund_config f)) \<le> approve_votes c"
    and "f' = f\<lparr>fund_claims := (fund_claims f)(i \<mapsto> c\<lparr>claim_state := ClaimApproved (requested_amount c), claim_updated_at := now\<rparr>)\<rparr>"
  using assms by (auto simp: approve_claim_def split: option.splits if_splits)

lemma payout_claimD:
  assumes "payout_claim now tid i h f = Inr f'"
  obtains c x where "fund_claims f i = Some c" and "claim_state c = ClaimApproved x" and "x \<le> fund_balance f"
    and "fund_balance f' = fund_balance f - x" and "fund_config f' = fund_config f"
    and "fund_claims f' = (fund_claims f)(i \<mapsto> c\<lparr>claim_state := Paid x h, claim_updated_at := now\<rparr>)"
    and "fund_log f' = fund_log f @ [\<lparr>ftx_id = tid, ftx_type = ClaimPayout, ftx_amount = x, ftx_timestamp = now, related_claim = Some i, ftx_hash = h\<rparr>]"
  using assms by (auto simp: payout_claim_def split: option.splits if_splits claim_status.splits)

lemma vote_on_claim_money:
  assumes "vote_on_claim now i who b f = (f', r)"
  shows "fund_balance f' = fund_balance f" and "fund_log f' = fund_log f" and "fund_config f' = fund_config f"
  using assms by (auto simp: vote_on_claim_def Let_def elim!: approve_claimD split: option.splits if_splits sum.splits)

text \<open>Every step but a payout and a deposit leaves the money alone.\<close>

lemma fund_step_money:
  assumes "fund_step f f'" and "unat (fund_balance f0) + deposited f' < 2 ^ 64"
    and "unat (fund_balance f) + paid_out f = unat (fund_balance f0) + deposited f"
  shows "unat (fund_balance f') + paid_out f' = unat (fund_balance f0) + deposited f'"
  using assms(1)
proof cases
  case (fs_payout now tid i h)
  then show ?thesis
    by (rule payout_claimD) (use assms(3) in \<open>auto simp: deposited_def paid_out_def unat_sub word_le_nat_alt\<close>)
next
  case (fs_deposit now tid x k h)
  have d: "deposited f' = deposited f + unat x" "paid_out f' = paid_out f" "fund_balance f' = fund_balance f + x"
    by (simp_all add: fs_deposit fund_deposit_def deposited_def paid_out_def)
  then have "unat (fund_balance f) + unat x < 2 ^ 64" using assms(2,3) by simp
  then show ?thesis using d assms(3) by (simp add: unat_add_no_overflow)
next
  case (fs_vote now i who b r)
  then show ?thesis using assms(3) vote_on_claim_money [OF fs_vote] by (simp add: deposited_def paid_out_def)
next
  case (fs_approve now i)
  then show ?thesis by (rule approve_claimD) (use assms(3) in \<open>simp add: deposited_def paid_out_def\<close>)
qed (use assms(3) in \<open>auto simp: submit_claim_def reject_claim_def deposited_def paid_out_def split: if_splits option.splits\<close>)

lemma deposited_mono:
  assumes "fund_step f f'"
  shows "deposited f \<le> deposited f'"
  using assms
proof cases
  case (fs_payout now tid i h)
  then show ?thesis by (rule payout_claimD) (simp add: deposited_def)
next
  case (fs_vote now i who b r)
  then show ?thesis using vote_on_claim_money [OF fs_vote] by (simp add: deposited_def)
next
  case (fs_approve now i)
  then show ?thesis by (rule approve_claimD) (simp add: deposited_def)
qed (auto simp: submit_claim_def reject_claim_def fund_deposit_def deposited_def split: if_splits option.splits)

lemma fund_run_money:
  assumes "fund_step\<^sup>*\<^sup>* (insurance_new b cfg) f" and "unat b + deposited f < 2 ^ 64"
  shows "unat (fund_balance f) + paid_out f = unat b + deposited f"
  using assms
proof (induction rule: rtranclp_induct)
  case base
  then show ?case by (simp add: insurance_new_def deposited_def paid_out_def)
next
  case (step f f')
  then have "unat b + deposited f < 2 ^ 64" using deposited_mono [OF step(2)] by simp
  with step show ?case using fund_step_money [of f f' "insurance_new b cfg"] by (simp add: insurance_new_def)
qed

text \<open>C35. The fund's books balance: as long as the deposits fit in 64 bits, the balance is the initial balance plus the deposits of the log less its payouts, so the fund
  never pays more than it was given.\<close>

theorem fund_books_balance:
  assumes "fund_step\<^sup>*\<^sup>* (insurance_new b cfg) f" and "unat b + deposited f < 2 ^ 64"
  shows "unat (fund_balance f) = unat b + deposited f - paid_out f \<and> paid_out f \<le> unat b + deposited f"
  using fund_run_money [OF assms] by simp

section \<open>Payouts and votes\<close>

text \<open>
  A claim that is approved or paid, or that a payout of the log names, is past its vote, has the votes it needs from different users, and every amount is the one requested.
\<close>

definition backed :: "fund_configuration \<Rightarrow> insurance_claim \<Rightarrow> bool" where
  "backed cfg c \<longleftrightarrow> \<not> is_pending c \<and> unat (min_votes_for_approval cfg) \<le> approve_votes c"

definition claim_ok :: "fund_configuration \<Rightarrow> insurance_claim \<Rightarrow> bool" where
  "claim_ok cfg c \<longleftrightarrow> distinct (map fst (claim_votes c)) \<and> (\<forall>x. claim_state c = ClaimApproved x \<longrightarrow> x = requested_amount c \<and> backed cfg c)"

definition payout_ok :: "insurance_fund \<Rightarrow> fund_transaction \<Rightarrow> bool" where
  "payout_ok f t \<longleftrightarrow> (\<forall>i. related_claim t = Some i \<longrightarrow> (\<exists>c. fund_claims f i = Some c \<and> backed (fund_config f) c \<and> ftx_amount t = requested_amount c))"

definition fund_inv :: "insurance_fund \<Rightarrow> bool" where
  "fund_inv f \<longleftrightarrow> (\<forall>i c. fund_claims f i = Some c \<longrightarrow> claim_ok (fund_config f) c) \<and> (\<forall>t\<in>set (fund_log f). payout_ok f t)"

text \<open>Changing one claim keeps the invariant when the claim stays in order and, if it was backed, stays so with its amount.\<close>

lemma fund_inv_update:
  assumes "fund_inv f" and "claim_ok (fund_config f) c'"
    and "\<And>c. fund_claims f i = Some c \<Longrightarrow> backed (fund_config f) c \<Longrightarrow> backed (fund_config f) c' \<and> requested_amount c' = requested_amount c"
  shows "fund_inv (f\<lparr>fund_claims := (fund_claims f)(i \<mapsto> c')\<rparr>)"
  using assms by (fastforce simp: fund_inv_def payout_ok_def)

lemma fund_inv_claim: "fund_inv f \<Longrightarrow> fund_claims f i = Some c \<Longrightarrow> claim_ok (fund_config f) c"
  by (simp add: fund_inv_def)

lemma fund_inv_approve:
  assumes "fund_inv f" and "approve_claim now i f = Inr f'"
  shows "fund_inv f'"
  using assms(2)
proof (rule approve_claimD)
  fix c
  assume c: "fund_claims f i = Some c" "unat (min_votes_for_approval (fund_config f)) \<le> approve_votes c"
    and f': "f' = f\<lparr>fund_claims := (fund_claims f)(i \<mapsto> c\<lparr>claim_state := ClaimApproved (requested_amount c), claim_updated_at := now\<rparr>)\<rparr>"
  show ?thesis unfolding f'
    using c fund_inv_claim [OF assms(1) c(1)]
    by (intro fund_inv_update [OF assms(1)]) (auto simp: claim_ok_def backed_def is_pending_def approve_votes_def)
qed

lemma fund_inv_vote:
  assumes "fund_inv f" and "vote_on_claim now i who b f = (f', r)"
  shows "fund_inv f'"
proof (cases "fund_claims f i")
  case (Some c)
  let ?c = "c\<lparr>claim_votes := AList.update who b (claim_votes c), claim_updated_at := now\<rparr>"
  let ?f = "f\<lparr>fund_claims := (fund_claims f)(i \<mapsto> ?c)\<rparr>"
  have "fund_inv ?f" if "is_pending c"
    using that Some fund_inv_claim [OF assms(1) Some]
    by (intro fund_inv_update [OF assms(1)]) (auto simp: claim_ok_def backed_def is_pending_def distinct_update)
  then show ?thesis
    using assms Some fund_inv_approve [of ?f now i] by (auto simp: vote_on_claim_def Let_def split: if_splits sum.splits)
qed (use assms in \<open>simp add: vote_on_claim_def\<close>)

lemma fund_inv_payout:
  assumes "fund_inv f" and "payout_claim now tid i h f = Inr f'"
  shows "fund_inv f'"
  using assms(2)
proof (rule payout_claimD)
  fix c :: insurance_claim and x :: u64
  let ?c = "c\<lparr>claim_state := Paid x h, claim_updated_at := now\<rparr>"
  assume c: "fund_claims f i = Some c" "claim_state c = ClaimApproved x" and cfg: "fund_config f' = fund_config f"
    and claims: "fund_claims f' = (fund_claims f)(i \<mapsto> ?c)"
    and txs: "fund_log f' = fund_log f @ [\<lparr>ftx_id = tid, ftx_type = ClaimPayout, ftx_amount = x, ftx_timestamp = now, related_claim = Some i, ftx_hash = h\<rparr>]"
  have ok: "x = requested_amount c" "backed (fund_config f) ?c" "claim_ok (fund_config f) ?c"
    using fund_inv_claim [OF assms(1) c(1)] c(2) by (auto simp: claim_ok_def backed_def is_pending_def approve_votes_def)
  have "fund_inv (f\<lparr>fund_claims := (fund_claims f)(i \<mapsto> ?c)\<rparr>)"
    using ok c by (intro fund_inv_update [OF assms(1)]) auto
  then show ?thesis using ok by (simp add: fund_inv_def payout_ok_def cfg claims txs)
qed

lemma fund_inv_reject:
  assumes "fund_inv f" and "reject_claim now i reason f = Inr f'"
  shows "fund_inv f'"
proof -
  obtain c where c: "fund_claims f i = Some c"
    "f' = f\<lparr>fund_claims := (fund_claims f)(i \<mapsto> c\<lparr>claim_state := ClaimRejected reason, claim_updated_at := now\<rparr>)\<rparr>"
    using assms(2) by (auto simp: reject_claim_def split: option.splits)
  show ?thesis unfolding c(2)
    using c(1) fund_inv_claim [OF assms(1) c(1)]
    by (intro fund_inv_update [OF assms(1)]) (auto simp: claim_ok_def backed_def is_pending_def approve_votes_def)
qed

lemma fund_inv_submit:
  assumes "fund_inv f" and "fund_claims f i = None" and "submit_claim now i who k x ev f = Inr (f', j)"
  shows "fund_inv f'"
proof -
  obtain c where f': "f' = f\<lparr>fund_claims := (fund_claims f)(i \<mapsto> c)\<rparr>" and c: "claim_votes c = []" "claim_state c = ClaimPending"
    using assms(3) by (fastforce simp: submit_claim_def split: if_splits)
  show ?thesis unfolding f'
    using assms(2) c by (intro fund_inv_update [OF assms(1)]) (auto simp: claim_ok_def)
qed

lemma fund_run_inv: "fund_step\<^sup>*\<^sup>* (insurance_new b cfg) f \<Longrightarrow> fund_inv f \<and> fund_config f = cfg"
proof (induction rule: rtranclp_induct)
  case base
  then show ?case by (simp add: fund_inv_def insurance_new_def)
next
  case (step f f')
  from step(2) show ?case
  proof cases
    case (fs_payout now tid i h)
    then show ?thesis using step.IH fund_inv_payout by (auto elim: payout_claimD)
  next
    case (fs_vote now i who b r)
    then show ?thesis using step.IH fund_inv_vote [OF _ fs_vote] vote_on_claim_money [OF fs_vote] by simp
  next
    case (fs_approve now i)
    have "fund_config f' = fund_config f" using fs_approve by (rule approve_claimD) simp
    then show ?thesis using step.IH fund_inv_approve [OF _ fs_approve] by simp
  next
    case (fs_deposit now tid x k h)
    then show ?thesis using step.IH by (auto simp: fund_inv_def payout_ok_def fund_deposit_def)
  next
    case (fs_submit i now who k x ev j)
    then show ?thesis using step.IH fund_inv_submit [OF _ fs_submit] by (auto simp: submit_claim_def split: if_splits)
  next
    case (fs_reject now i reason)
    then show ?thesis using step.IH fund_inv_reject [OF _ fs_reject] by (auto simp: reject_claim_def split: option.splits)
  qed
qed

text \<open>C25. Nothing is paid without the votes: every payout in the log of the fund is the requested amount of a claim for which at least the configured number of different
  users have voted.\<close>

theorem payouts_backed_by_votes:
  assumes "fund_step\<^sup>*\<^sup>* (insurance_new b cfg) f" and "t \<in> set (fund_log f)" and "related_claim t = Some i"
  shows "\<exists>c. fund_claims f i = Some c \<and> ftx_amount t = requested_amount c
    \<and> unat (min_votes_for_approval cfg) \<le> card {u. (u, True) \<in> set (claim_votes c)}"
proof -
  note inv = fund_run_inv [OF assms(1)]
  then obtain c where c: "fund_claims f i = Some c" "backed cfg c" "ftx_amount t = requested_amount c"
    using assms(2,3) unfolding fund_inv_def payout_ok_def by blast
  have "distinct (map fst (filter snd (claim_votes c)))"
    using inv fund_inv_claim [of f i c] c(1) by (auto simp: claim_ok_def distinct_map_filter)
  then have "approve_votes c = card (fst ` set (filter snd (claim_votes c)))"
    unfolding approve_votes_def by (metis distinct_card length_map set_map)
  also have "fst ` set (filter snd (claim_votes c)) = {u. (u, True) \<in> set (claim_votes c)}" by force
  finally show ?thesis using c by (auto simp: backed_def)
qed

text \<open>A claim is not paid at most once: approving it asks for no status, so a paid claim can be approved on its old votes and paid again as long as the balance lasts.\<close>

theorem claim_paid_again:
  assumes "fund_inv f" and "payout_claim now tid i h f = Inr f1" and "fund_claims f i = Some c" and "requested_amount c \<le> fund_balance f1"
  shows "\<exists>f2 f3. approve_claim now i f1 = Inr f2 \<and> payout_claim now tid' i h f2 = Inr f3 \<and> fund_balance f3 = fund_balance f - 2 * requested_amount c"
  using assms(2)
proof (rule payout_claimD)
  fix c' :: insurance_claim and x :: u64
  let ?c = "c'\<lparr>claim_state := Paid x h, claim_updated_at := now\<rparr>"
  assume p: "fund_claims f i = Some c'" "claim_state c' = ClaimApproved x" and bal: "fund_balance f1 = fund_balance f - x"
    and cfg: "fund_config f1 = fund_config f" and claims: "fund_claims f1 = (fund_claims f)(i \<mapsto> ?c)"
  have [simp]: "c' = c" using p(1) assms(3) by simp
  have x: "x = requested_amount c" "unat (min_votes_for_approval (fund_config f)) \<le> approve_votes c"
    using fund_inv_claim [OF assms(1,3)] p(2) by (auto simp: claim_ok_def backed_def)
  show ?thesis
    using x assms(4) by (simp add: approve_claim_def payout_claim_def claims cfg approve_votes_def bal)
qed

text \<open>A vote on a small claim can be recorded and reported as an error: the claim is put up for approval after every vote, and the missing votes are returned as the result.\<close>

theorem recorded_vote_reports_error:
  assumes "fund_claims f i = Some c" and "is_pending c" and "requested_amount c \<le> auto_approve_threshold (fund_config f)"
    and "approve_votes (c\<lparr>claim_votes := AList.update who b (claim_votes c)\<rparr>) < unat (min_votes_for_approval (fund_config f))"
  shows "\<exists>f' c'. vote_on_claim now i who b f = (f', Inl InvalidInput) \<and> fund_claims f' i = Some c' \<and> map_of (claim_votes c') who = Some b"
  using assms by (simp add: vote_on_claim_def approve_claim_def approve_votes_def update_conv')

section \<open>Examples\<close>

text \<open>A claim of 500 against a fund of 2000 that three users approve and that is paid.\<close>

definition demo_claim :: "claim_status \<Rightarrow> (user_id \<times> bool) list \<Rightarrow> insurance_claim" where
  "demo_claim s vs = \<lparr>claim_id = 7, claimant = 9, claim_kind = SlashingOverflow 4 500, requested_amount = 500, claim_state = s,
     claim_submitted_at = 0, claim_updated_at = 0, claim_evidence = [], claim_votes = vs\<rparr>"

definition demo_fund :: "insurance_claim \<Rightarrow> insurance_fund" where
  "demo_fund c = \<lparr>fund_balance = 2000, fund_claims = [7 \<mapsto> c], fund_config = fund_config_default, fund_log = []\<rparr>"

definition demo_fund_paid :: insurance_fund where
  "demo_fund_paid = \<lparr>fund_balance = 1500, fund_claims = [7 \<mapsto> demo_claim (Paid 500 ''h'') [(1, True), (2, True), (3, True)]], fund_config = fund_config_default,
     fund_log = [\<lparr>ftx_id = 8, ftx_type = ClaimPayout, ftx_amount = 500, ftx_timestamp = 0, related_claim = Some 7, ftx_hash = ''h''\<rparr>]\<rparr>"

lemmas demo_fund_defs = demo_fund_def demo_fund_paid_def demo_claim_def fund_config_default_def insurance_new_def

lemma demo_fund_steps:
  "submit_claim 0 7 9 (SlashingOverflow 4 500) 500 [] (insurance_new 2000 fund_config_default) = Inr (demo_fund (demo_claim ClaimPending []), 7)"
  "vote_on_claim 0 7 1 True (demo_fund (demo_claim ClaimPending [])) = (demo_fund (demo_claim ClaimPending [(1, True)]), Inl InvalidInput)"
  "vote_on_claim 0 7 2 True (demo_fund (demo_claim ClaimPending [(1, True)])) = (demo_fund (demo_claim ClaimPending [(1, True), (2, True)]), Inl InvalidInput)"
  "vote_on_claim 0 7 3 True (demo_fund (demo_claim ClaimPending [(1, True), (2, True)]))
     = (demo_fund (demo_claim (ClaimApproved 500) [(1, True), (2, True), (3, True)]), Inr ())"
  "payout_claim 0 8 7 ''h'' (demo_fund (demo_claim (ClaimApproved 500) [(1, True), (2, True), (3, True)])) = Inr demo_fund_paid"
  by (simp_all add: submit_claim_def vote_on_claim_def approve_claim_def payout_claim_def approve_votes_def is_pending_def demo_fund_defs)

lemma demo_fund_run:
  "fund_step\<^sup>*\<^sup>* (insurance_new 2000 fund_config_default) (demo_fund (demo_claim (ClaimApproved 500) [(1, True), (2, True), (3, True)]))"
  "fund_step\<^sup>*\<^sup>* (insurance_new 2000 fund_config_default) demo_fund_paid"
proof -
  have "fund_claims (insurance_new 2000 fund_config_default) 7 = None" by (simp add: insurance_new_def)
  from fs_submit [OF this demo_fund_steps(1)] fs_vote [OF demo_fund_steps(2)] fs_vote [OF demo_fund_steps(3)] fs_vote [OF demo_fund_steps(4)]
  show run: "fund_step\<^sup>*\<^sup>* (insurance_new 2000 fund_config_default) (demo_fund (demo_claim (ClaimApproved 500) [(1, True), (2, True), (3, True)]))"
    by (meson rtranclp.rtrancl_refl rtranclp.rtrancl_into_rtrancl)
  from rtranclp.rtrancl_into_rtrancl [OF run fs_payout [OF demo_fund_steps(5)]] show "fund_step\<^sup>*\<^sup>* (insurance_new 2000 fund_config_default) demo_fund_paid" .
qed

theorem fund_books_balance_witness: "unat (fund_balance demo_fund_paid) = 2000 + deposited demo_fund_paid - paid_out demo_fund_paid"
  using fund_books_balance [OF demo_fund_run(2)] by (simp add: deposited_def demo_fund_paid_def)

theorem payouts_backed_by_votes_witness:
  "\<exists>c. fund_claims demo_fund_paid 7 = Some c \<and> 3 \<le> card {u. (u, True) \<in> set (claim_votes c)}"
  using payouts_backed_by_votes [OF demo_fund_run(2), of "hd (fund_log demo_fund_paid)" 7]
  by (auto simp: demo_fund_paid_def fund_config_default_def)

theorem claim_paid_again_witness:
  "\<exists>f2 f3. approve_claim 0 7 demo_fund_paid = Inr f2 \<and> payout_claim 0 10 7 ''h'' f2 = Inr f3 \<and> fund_balance f3 = 1000"
  using claim_paid_again [OF conjunct1 [OF fund_run_inv [OF demo_fund_run(1)]] demo_fund_steps(5),
      of "demo_claim (ClaimApproved 500) [(1, True), (2, True), (3, True)]" 10]
  by (simp add: demo_fund_def demo_claim_def demo_fund_paid_def word_le_nat_alt)

theorem recorded_vote_reports_error_witness:
  "\<exists>f' c'. vote_on_claim 0 7 1 True (demo_fund (demo_claim ClaimPending [])) = (f', Inl InvalidInput) \<and> fund_claims f' 7 = Some c' \<and> map_of (claim_votes c') 1 = Some True"
  by (rule recorded_vote_reports_error [where c = "demo_claim ClaimPending []"]) (simp_all add: demo_fund_defs is_pending_def approve_votes_def)

end
