(* ===== verification/Bridge.thy ===== *)
theory Bridge
  imports Chain_Core
begin

text \<open>
  The cross-chain bridge, crate \<^verbatim>\<open>dchat-bridge\<close>: collecting signatures (\<^verbatim>\<open>multisig.rs\<close>), finality proofs (\<^verbatim>\<open>finality.rs\<close>), slashing
  records (\<^verbatim>\<open>slashing.rs\<close>) and the manager of bridge transactions (\<^verbatim>\<open>lib.rs\<close>). The curve libraries are parameters: Ed25519 as elsewhere (here
  \<^verbatim>\<open>verify_strict\<close>), BLS as the record \<open>bls\<close>. The locks are not poisoned. Clock and ids are arguments; the floating-point uptime score is left out.
\<close>

section \<open>Collecting signatures\<close>

type_synonym bridge_tx_id = "128 word"

datatype bridge_error =
    BrInvalidThreshold | BrDuplicateValidator | BrUnknownValidator | BrDuplicateSignature | BrInvalidSignature
  | BrTransactionAlreadyExists | BrTransactionNotFound

type_synonym 'a bridge_result = "bridge_error + 'a"

record validator_id =
  val_id :: user_id
  val_key :: "u8 list"

record validator_signature =
  sig_validator :: validator_id
  sig_bytes :: "u8 list"
  sig_at :: timestamp

record multisig_config =
  threshold :: nat
  total_validators :: nat
  ms_validators :: "validator_id list"

definition multisig_config_new :: "nat \<Rightarrow> validator_id list \<Rightarrow> multisig_config bridge_result" where
  "multisig_config_new t vs =
     (if t = 0 then Inl BrInvalidThreshold
      else if t > length vs then Inl BrInvalidThreshold
      else if card (set (map val_id vs)) \<noteq> length vs then Inl BrDuplicateValidator
      else Inr \<lparr>threshold = t, total_validators = length vs, ms_validators = vs\<rparr>)"

definition config_has_quorum :: "nat \<Rightarrow> multisig_config \<Rightarrow> bool" where
  "config_has_quorum n cfg \<longleftrightarrow> n \<ge> threshold cfg"

definition get_validator :: "user_id \<Rightarrow> multisig_config \<Rightarrow> validator_id option" where
  "get_validator u cfg = find (\<lambda>v. val_id v = u) (ms_validators cfg)"

record multisig_state =
  ms_transaction_id :: bridge_tx_id
  ms_config :: multisig_config
  ms_signatures :: "validator_signature list"
  quorum_reached :: bool

definition multisig_state_new :: "bridge_tx_id \<Rightarrow> multisig_config \<Rightarrow> multisig_state" where
  "multisig_state_new i cfg = \<lparr>ms_transaction_id = i, ms_config = cfg, ms_signatures = [], quorum_reached = False\<rparr>"

definition add_signature :: "validator_signature \<Rightarrow> multisig_state \<Rightarrow> (multisig_state \<times> bool) bridge_result" where
  "add_signature s st =
     (if \<not> list_ex (\<lambda>v. val_id v = val_id (sig_validator s)) (ms_validators (ms_config st)) then Inl BrUnknownValidator
      else if list_ex (\<lambda>s'. val_id (sig_validator s') = val_id (sig_validator s)) (ms_signatures st) then Inl BrDuplicateSignature
      else let st' = st\<lparr>ms_signatures := ms_signatures st @ [s]\<rparr>
        in if \<not> quorum_reached st' \<and> config_has_quorum (length (ms_signatures st')) (ms_config st')
           then Inr (st'\<lparr>quorum_reached := True\<rparr>, True)
           else Inr (st', False))"

text \<open>\<^verbatim>\<open>num_seconds\<close> truncates towards zero.\<close>

definition num_seconds_abs :: "int \<Rightarrow> int" where
  "num_seconds_abs d = \<bar>d\<bar> div 1000000000"

text \<open>The 32 bytes of a key, as \<^const>\<open>as_bytes\<close> writes them.\<close>

definition key_of_bytes :: "u8 list \<Rightarrow> hash32" where
  "key_of_bytes bs = of_le_bytes (rev bs)"

definition verify_signature :: "ed25519 \<Rightarrow> timestamp \<Rightarrow> validator_signature \<Rightarrow> u8 list \<Rightarrow> unit bridge_result" where
  "verify_signature E now s msg =
     (if length (sig_bytes s) \<noteq> 64 then Inl BrInvalidSignature
      else if length (val_key (sig_validator s)) \<noteq> 32 then Inl BrInvalidSignature
      else let key = key_of_bytes (val_key (sig_validator s))
        in if \<not> ed_key_ok E key then Inl BrInvalidSignature
           else if \<not> ed_verify E key msg (of_le_bytes (sig_bytes s)) then Inl BrInvalidSignature
           else if num_seconds_abs (now - sig_at s) > 300 then Inl BrInvalidSignature
           else Inr ())"

record multisig_manager =
  mm_states :: "bridge_tx_id \<rightharpoonup> multisig_state"
  global_config :: multisig_config

definition multisig_manager_new :: "multisig_config \<Rightarrow> multisig_manager" where
  "multisig_manager_new cfg = \<lparr>mm_states = Map.empty, global_config = cfg\<rparr>"

definition init_transaction :: "bridge_tx_id \<Rightarrow> multisig_manager \<Rightarrow> multisig_manager bridge_result" where
  "init_transaction i m =
     (let st = multisig_state_new i (global_config m)
      in if mm_states m i \<noteq> None then Inl BrTransactionAlreadyExists
         else Inr (m\<lparr>mm_states := (mm_states m)(i \<mapsto> st)\<rparr>))"

definition submit_signature ::
    "ed25519 \<Rightarrow> timestamp \<Rightarrow> bridge_tx_id \<Rightarrow> validator_signature \<Rightarrow> u8 list \<Rightarrow> multisig_manager \<Rightarrow> (multisig_manager \<times> bool) bridge_result" where
  "submit_signature E now i s msg m =
     (case mm_states m i of
        None \<Rightarrow> Inl BrTransactionNotFound
      | Some st \<Rightarrow> (case verify_signature E now s msg of
          Inl e \<Rightarrow> Inl e
        | Inr _ \<Rightarrow> (case add_signature s st of
            Inl e \<Rightarrow> Inl e
          | Inr (st', b) \<Rightarrow> Inr (m\<lparr>mm_states := (mm_states m)(i \<mapsto> st')\<rparr>, b))))"

definition has_quorum :: "bridge_tx_id \<Rightarrow> multisig_manager \<Rightarrow> bool" where
  "has_quorum i m = (case mm_states m i of Some st \<Rightarrow> quorum_reached st | None \<Rightarrow> False)"

definition get_signature_count :: "bridge_tx_id \<Rightarrow> multisig_manager \<Rightarrow> nat" where
  "get_signature_count i m = (case mm_states m i of Some st \<Rightarrow> length (ms_signatures st) | None \<Rightarrow> 0)"

definition rotate_validators :: "multisig_config \<Rightarrow> multisig_manager \<Rightarrow> multisig_manager" where
  "rotate_validators cfg m = m\<lparr>global_config := cfg\<rparr>"

definition cleanup_transaction :: "bridge_tx_id \<Rightarrow> multisig_manager \<Rightarrow> multisig_manager" where
  "cleanup_transaction i m = m\<lparr>mm_states := (mm_states m)(i := None)\<rparr>"

section \<open>Finality proofs\<close>

record bls =
  bls_sig_ok :: "u8 list \<Rightarrow> bool"
  bls_key_ok :: "u8 list \<Rightarrow> bool"
  bls_aggregate :: "u8 list list \<Rightarrow> u8 list option"
  bls_fast_verify :: "u8 list \<Rightarrow> u8 list \<Rightarrow> u8 list \<Rightarrow> u8 list list \<Rightarrow> bool"

datatype finality_error =
    FinInvalidThreshold | FinInvalidPublicKey | FinInvalidSignature | FinDuplicateSignature | FinInsufficientSignatures
  | FinAggregationFailed | FinUnknownValidator | FinProofNotFound | FinProofAlreadyExists | FinNotFinalized

type_synonym 'a finality_result = "finality_error + 'a"

record finality_signature =
  fin_validator :: user_id
  fin_signature :: "u8 list"
  fin_signed_at :: timestamp

record aggregated_proof =
  ap_tx_hash :: string
  ap_block_number :: u64
  ap_block_hash :: string
  ap_confirmations :: u32
  ap_required_confirmations :: u32
  ap_required_signatures :: nat
  ap_signatures :: "finality_signature list"
  aggregated_signature :: "u8 list option"
  validator_pubkeys_map :: "user_id \<rightharpoonup> u8 list"
  ap_created_at :: timestamp
  ap_finalized_at :: "timestamp option"

definition proof_new :: "timestamp \<Rightarrow> string \<Rightarrow> u64 \<Rightarrow> string \<Rightarrow> u32 \<Rightarrow> u32 \<Rightarrow> nat \<Rightarrow> aggregated_proof" where
  "proof_new now h bn bh c rc rs =
     \<lparr>ap_tx_hash = h, ap_block_number = bn, ap_block_hash = bh, ap_confirmations = c, ap_required_confirmations = rc, ap_required_signatures = rs,
      ap_signatures = [], aggregated_signature = None, validator_pubkeys_map = Map.empty, ap_created_at = now, ap_finalized_at = None\<rparr>"

definition try_aggregate :: "bls \<Rightarrow> timestamp \<Rightarrow> aggregated_proof \<Rightarrow> aggregated_proof finality_result" where
  "try_aggregate B now p =
     (if length (ap_signatures p) < ap_required_signatures p then Inl FinInsufficientSignatures
      else if \<not> list_all (\<lambda>s. bls_sig_ok B (fin_signature s)) (ap_signatures p) then Inl FinInvalidSignature
      else case bls_aggregate B (map fin_signature (ap_signatures p)) of
        None \<Rightarrow> Inl FinAggregationFailed
      | Some a \<Rightarrow> Inr (p\<lparr>aggregated_signature := Some a, ap_finalized_at := Some now\<rparr>))"

text \<open>When the aggregation fails the signature has been added all the same.\<close>

definition proof_add_signature :: "bls \<Rightarrow> timestamp \<Rightarrow> finality_signature \<Rightarrow> aggregated_proof \<Rightarrow> aggregated_proof \<times> unit finality_result" where
  "proof_add_signature B now s p =
     (if list_ex (\<lambda>s'. fin_validator s' = fin_validator s) (ap_signatures p) then (p, Inl FinDuplicateSignature)
      else let p' = p\<lparr>ap_signatures := ap_signatures p @ [s]\<rparr>
        in if length (ap_signatures p') \<ge> ap_required_signatures p'
           then case try_aggregate B now p' of Inl e \<Rightarrow> (p', Inl e) | Inr p'' \<Rightarrow> (p'', Inr ())
           else (p', Inr ()))"

definition agg_proof_verify :: "bls \<Rightarrow> u8 list \<Rightarrow> aggregated_proof \<Rightarrow> bool finality_result" where
  "agg_proof_verify B msg p =
     (case aggregated_signature p of
        None \<Rightarrow> Inl FinNotFinalized
      | Some a \<Rightarrow>
          if \<not> bls_sig_ok B a then Inl FinInvalidSignature
          else case traverse (\<lambda>s. case validator_pubkeys_map p (fin_validator s) of
                 None \<Rightarrow> Inl FinInvalidPublicKey
               | Some pk \<Rightarrow> if bls_key_ok B pk then Inr pk else Inl FinInvalidPublicKey) (ap_signatures p) of
            Inl e \<Rightarrow> Inl e
          | Inr pks \<Rightarrow> Inr (bls_fast_verify B a msg (string_bytes ''DCHAT_BRIDGE_FINALITY_V1'') pks))"

definition proof_is_finalized :: "aggregated_proof \<Rightarrow> bool" where
  "proof_is_finalized p \<longleftrightarrow> aggregated_signature p \<noteq> None \<and> length (ap_signatures p) \<ge> ap_required_signatures p
     \<and> ap_confirmations p \<ge> ap_required_confirmations p"

record finality_tracker =
  pending_proofs :: "string \<rightharpoonup> aggregated_proof"
  finalized_proofs :: "string \<rightharpoonup> aggregated_proof"
  validator_pubkeys :: "user_id \<rightharpoonup> u8 list"
  required_signatures :: nat
  ft_total_validators :: nat

definition finality_tracker_new :: "nat \<Rightarrow> nat \<Rightarrow> finality_tracker finality_result" where
  "finality_tracker_new r n =
     (if r > n then Inl FinInvalidThreshold
      else if r = 0 \<or> n = 0 then Inl FinInvalidThreshold
      else Inr \<lparr>pending_proofs = Map.empty, finalized_proofs = Map.empty, validator_pubkeys = Map.empty, required_signatures = r, ft_total_validators = n\<rparr>)"

definition tracker_register :: "bls \<Rightarrow> user_id \<Rightarrow> u8 list \<Rightarrow> finality_tracker \<Rightarrow> finality_tracker finality_result" where
  "tracker_register B u pk ft =
     (if \<not> bls_key_ok B pk then Inl FinInvalidPublicKey
      else Inr (ft\<lparr>validator_pubkeys := (validator_pubkeys ft)(u \<mapsto> pk)\<rparr>))"

definition initiate_proof ::
    "timestamp \<Rightarrow> string \<Rightarrow> u64 \<Rightarrow> string \<Rightarrow> u32 \<Rightarrow> u32 \<Rightarrow> finality_tracker \<Rightarrow> finality_tracker finality_result" where
  "initiate_proof now h bn bh c rc ft =
     (if pending_proofs ft h \<noteq> None \<or> finalized_proofs ft h \<noteq> None then Inl FinProofAlreadyExists
      else Inr (ft\<lparr>pending_proofs := (pending_proofs ft)(h \<mapsto>
             (proof_new now h bn bh c rc (required_signatures ft))\<lparr>validator_pubkeys_map := validator_pubkeys ft\<rparr>)\<rparr>))"

definition tracker_submit ::
    "bls \<Rightarrow> timestamp \<Rightarrow> string \<Rightarrow> user_id \<Rightarrow> u8 list \<Rightarrow> finality_tracker \<Rightarrow> finality_tracker \<times> bool finality_result" where
  "tracker_submit B now h u sg ft =
     (if validator_pubkeys ft u = None then (ft, Inl FinUnknownValidator)
      else case pending_proofs ft h of
        None \<Rightarrow> (ft, Inl FinProofNotFound)
      | Some p \<Rightarrow> (case proof_add_signature B now \<lparr>fin_validator = u, fin_signature = sg, fin_signed_at = now\<rparr> p of
          (p', Inl e) \<Rightarrow> (ft\<lparr>pending_proofs := (pending_proofs ft)(h \<mapsto> p')\<rparr>, Inl e)
        | (p', Inr _) \<Rightarrow>
            if proof_is_finalized p'
            then (ft\<lparr>pending_proofs := (pending_proofs ft)(h := None), finalized_proofs := (finalized_proofs ft)(h \<mapsto> p')\<rparr>, Inr True)
            else (ft\<lparr>pending_proofs := (pending_proofs ft)(h \<mapsto> p')\<rparr>, Inr False)))"

definition tracker_is_finalized :: "string \<Rightarrow> finality_tracker \<Rightarrow> bool" where
  "tracker_is_finalized h ft \<longleftrightarrow> finalized_proofs ft h \<noteq> None"

definition tracker_verify :: "bls \<Rightarrow> string \<Rightarrow> u8 list \<Rightarrow> finality_tracker \<Rightarrow> bool finality_result" where
  "tracker_verify B h msg ft = (case finalized_proofs ft h of None \<Rightarrow> Inl FinProofNotFound | Some p \<Rightarrow> agg_proof_verify B msg p)"

definition proof_expired :: "timestamp \<Rightarrow> aggregated_proof \<Rightarrow> bool" where
  "proof_expired now p \<longleftrightarrow> now - ap_created_at p > duration_seconds 3600"

definition cleanup_expired_proofs :: "timestamp \<Rightarrow> string list \<Rightarrow> finality_tracker \<Rightarrow> finality_tracker \<times> string list" where
  "cleanup_expired_proofs now hs ft =
     (ft\<lparr>pending_proofs := (\<lambda>h. case pending_proofs ft h of None \<Rightarrow> None | Some p \<Rightarrow> if proof_expired now p then None else Some p)\<rparr>,
      filter (\<lambda>h. case pending_proofs ft h of None \<Rightarrow> False | Some p \<Rightarrow> proof_expired now p) hs)"

section \<open>Slashing records\<close>

datatype br_slash_reason = SrInvalidSignature | SrDoubleSigning | SrExtendedDowntime | SrFalseProof | SrCollusion

record br_slash_event =
  sl_validator :: user_id
  sl_reason :: br_slash_reason
  sl_transaction :: "bridge_tx_id option"
  sl_amount :: u64
  sl_evidence :: "u8 list"
  sl_at :: timestamp
  sl_reporter :: "user_id option"

record slashing_manager =
  slash_events :: "br_slash_event list"
  slashed_validators :: "user_id \<rightharpoonup> u64"

definition slashing_new :: slashing_manager where
  "slashing_new = \<lparr>slash_events = [], slashed_validators = Map.empty\<rparr>"

definition get_slashed_amount :: "user_id \<Rightarrow> slashing_manager \<Rightarrow> u64" where
  "get_slashed_amount u sm = (case slashed_validators sm u of None \<Rightarrow> 0 | Some x \<Rightarrow> x)"

definition br_slash_validator ::
    "timestamp \<Rightarrow> user_id \<Rightarrow> br_slash_reason \<Rightarrow> u64 \<Rightarrow> bridge_tx_id option \<Rightarrow> u8 list \<Rightarrow> user_id option \<Rightarrow> slashing_manager \<Rightarrow> slashing_manager" where
  "br_slash_validator now u why x tx ev rep sm =
     sm\<lparr>slash_events := slash_events sm @ [\<lparr>sl_validator = u, sl_reason = why, sl_transaction = tx, sl_amount = x, sl_evidence = ev,
                                             sl_at = now, sl_reporter = rep\<rparr>],
        slashed_validators := (slashed_validators sm)(u \<mapsto> get_slashed_amount u sm + x)\<rparr>"

definition get_validator_slashes :: "user_id \<Rightarrow> slashing_manager \<Rightarrow> br_slash_event list" where
  "get_validator_slashes u sm = filter (\<lambda>e. sl_validator e = u) (slash_events sm)"

definition is_slashed :: "user_id \<Rightarrow> slashing_manager \<Rightarrow> bool" where
  "is_slashed u sm \<longleftrightarrow> get_slashed_amount u sm > 0"

definition get_slash_count_by_reason :: "br_slash_reason \<Rightarrow> slashing_manager \<Rightarrow> nat" where
  "get_slash_count_by_reason why sm = length (filter (\<lambda>e. sl_reason e = why) (slash_events sm))"

section \<open>Bridge transactions\<close>

datatype chain_id = ChatChain | CurrencyChain | Solana

fun chain_required_confirmations :: "chain_id \<Rightarrow> u32" where
  "chain_required_confirmations ChatChain = 12"
| "chain_required_confirmations CurrencyChain = 20"
| "chain_required_confirmations Solana = 32"

definition is_external :: "chain_id \<Rightarrow> bool" where
  "is_external c \<longleftrightarrow> c = Solana"

datatype bridge_status = Initiated | PendingFinality | ReadyToExecute | Executed | RolledBack | TimedOut

record bridge_transaction =
  bt_id :: bridge_tx_id
  source_chain :: chain_id
  destination_chain :: chain_id
  bt_initiator :: user_id
  source_tx_hash :: string
  destination_tx_hash :: "string option"
  bt_amount :: u64
  bt_status :: bridge_status
  initiated_at :: timestamp
  bt_finalized_at :: "timestamp option"
  timeout_at :: timestamp

record finality_proof =
  fp_chain :: chain_id
  fp_tx_hash :: string
  fp_block_number :: u64
  fp_confirmations :: u32
  fp_required_confirmations :: u32
  fp_proof_data :: "u8 list"
  fp_is_final :: bool

record bridge_validator =
  bv_id :: user_id
  bv_stake :: u64
  bv_active :: bool

record state_sync_record =
  ssr_id :: bridge_tx_id
  ssr_chain :: chain_id
  ssr_key :: string
  ssr_value :: "u8 list"
  ssr_block :: u64
  ssr_at :: timestamp

record bridge_manager =
  bridge_txs :: "bridge_tx_id \<rightharpoonup> bridge_transaction"
  bridge_validators :: "user_id \<rightharpoonup> bridge_validator"
  finality_proofs :: "string \<rightharpoonup> finality_proof"
  state_sync :: "state_sync_record list"
  required_confirmations :: "chain_id \<rightharpoonup> u32"
  bm_multisig :: multisig_manager
  bm_slashing :: slashing_manager
  bm_tracker :: finality_tracker



definition confirmations_for :: "chain_id \<Rightarrow> bridge_manager \<Rightarrow> u32" where
  "confirmations_for c bm = (case required_confirmations bm c of None \<Rightarrow> 12 | Some n \<Rightarrow> n)"

definition submit_finality_proof :: "string \<Rightarrow> chain_id \<Rightarrow> u64 \<Rightarrow> u32 \<Rightarrow> u8 list \<Rightarrow> bridge_manager \<Rightarrow> bridge_manager" where
  "submit_finality_proof h c bn n pd bm =
     bm\<lparr>finality_proofs := (finality_proofs bm)(h \<mapsto>
       \<lparr>fp_chain = c, fp_tx_hash = h, fp_block_number = bn, fp_confirmations = n, fp_required_confirmations = confirmations_for c bm,
        fp_proof_data = pd, fp_is_final = (n \<ge> confirmations_for c bm)\<rparr>)\<rparr>"

definition check_finality :: "string \<Rightarrow> bridge_manager \<Rightarrow> bool" where
  "check_finality h bm = (case finality_proofs bm h of Some p \<Rightarrow> fp_is_final p | None \<Rightarrow> tracker_is_finalized h (bm_tracker bm))"




definition verify_bls_finality :: "bls \<Rightarrow> string \<Rightarrow> u8 list \<Rightarrow> bridge_manager \<Rightarrow> bool core_result" where
  "verify_bls_finality B h msg bm = (case tracker_verify B h msg (bm_tracker bm) of Inl _ \<Rightarrow> Inl InvalidInput | Inr b \<Rightarrow> Inr b)"

definition put_tx :: "bridge_tx_id \<Rightarrow> bridge_transaction \<Rightarrow> bridge_manager \<Rightarrow> bridge_manager" where
  "put_tx i t bm = bm\<lparr>bridge_txs := (bridge_txs bm)(i \<mapsto> t)\<rparr>"


definition mark_ready_to_execute :: "bridge_tx_id \<Rightarrow> bridge_manager \<Rightarrow> bridge_manager core_result" where
  "mark_ready_to_execute i bm =
     (case bridge_txs bm i of
        None \<Rightarrow> Inl InvalidInput
      | Some t \<Rightarrow> if \<not> check_finality (source_tx_hash t) bm then Inl InvalidInput else Inr (put_tx i (t\<lparr>bt_status := ReadyToExecute\<rparr>) bm))"

definition bridge_execute :: "timestamp \<Rightarrow> bridge_tx_id \<Rightarrow> string \<Rightarrow> bridge_manager \<Rightarrow> bridge_manager core_result" where
  "bridge_execute now i h bm =
     (case bridge_txs bm i of
        None \<Rightarrow> Inl InvalidInput
      | Some t \<Rightarrow> if bt_status t \<noteq> ReadyToExecute then Inl InvalidInput
          else Inr (put_tx i (t\<lparr>destination_tx_hash := Some h, bt_status := Executed, bt_finalized_at := Some now\<rparr>) bm))"






section \<open>Quorums\<close>

definition signers :: "multisig_state \<Rightarrow> user_id list" where
  "signers st = map (\<lambda>s. val_id (sig_validator s)) (ms_signatures st)"

definition config_ok :: "multisig_config \<Rightarrow> bool" where
  "config_ok cfg \<longleftrightarrow> 0 < threshold cfg \<and> threshold cfg \<le> length (ms_validators cfg) \<and> distinct (map val_id (ms_validators cfg))"

definition state_ok :: "multisig_state \<Rightarrow> bool" where
  "state_ok st \<longleftrightarrow> config_ok (ms_config st) \<and> distinct (signers st) \<and> set (signers st) \<subseteq> val_id ` set (ms_validators (ms_config st))
     \<and> (quorum_reached st \<longleftrightarrow> threshold (ms_config st) \<le> length (signers st))"

lemma config_new_ok: "multisig_config_new t vs = Inr cfg \<Longrightarrow> config_ok cfg"
  by (auto simp: multisig_config_new_def config_ok_def card_distinct split: if_splits)

lemma state_new_ok: "config_ok cfg \<Longrightarrow> state_ok (multisig_state_new i cfg)"
  by (simp add: state_ok_def multisig_state_new_def signers_def config_ok_def)

lemma list_ex_registered: "list_ex (\<lambda>v. val_id v = u) vs \<longleftrightarrow> u \<in> val_id ` set vs"
  by (auto simp: list_ex_iff)

lemma list_ex_signed: "list_ex (\<lambda>s. val_id (sig_validator s) = u) (ms_signatures st) \<longleftrightarrow> u \<in> set (signers st)"
  by (auto simp: list_ex_iff signers_def)

lemma add_signatureD:
  assumes "add_signature s st = Inr (st', b)"
  shows "val_id (sig_validator s) \<in> val_id ` set (ms_validators (ms_config st))" and "val_id (sig_validator s) \<notin> set (signers st)"
    and "ms_config st' = ms_config st" and "signers st' = signers st @ [val_id (sig_validator s)]"
    and "quorum_reached st' \<longleftrightarrow> quorum_reached st \<or> threshold (ms_config st) \<le> length (signers st')"
proof -
  show "val_id (sig_validator s) \<in> val_id ` set (ms_validators (ms_config st))" "val_id (sig_validator s) \<notin> set (signers st)"
    using assms by (simp_all only: add_signature_def list_ex_registered list_ex_signed Let_def split: if_splits) auto
  have "st' = st\<lparr>ms_signatures := ms_signatures st @ [s], quorum_reached := True\<rparr> \<and> threshold (ms_config st) \<le> Suc (length (ms_signatures st))
      \<or> st' = st\<lparr>ms_signatures := ms_signatures st @ [s]\<rparr> \<and> (quorum_reached st \<or> \<not> threshold (ms_config st) \<le> Suc (length (ms_signatures st)))"
    using assms by (simp add: add_signature_def config_has_quorum_def Let_def split: if_splits)
  then show "ms_config st' = ms_config st" and "signers st' = signers st @ [val_id (sig_validator s)]"
    and "quorum_reached st' \<longleftrightarrow> quorum_reached st \<or> threshold (ms_config st) \<le> length (signers st')"
    by (auto simp: signers_def)
qed

lemma add_signature_ok:
  assumes "state_ok st" and "add_signature s st = Inr (st', b)"
  shows "state_ok st'"
  using add_signatureD [OF assms(2)] assms(1) by (auto simp: state_ok_def)

text \<open>A stored signature has the form of one and verifies, on some message, under the key it brings along.\<close>

definition sig_verifies :: "ed25519 \<Rightarrow> validator_signature \<Rightarrow> bool" where
  "sig_verifies E s \<longleftrightarrow> length (sig_bytes s) = 64 \<and> length (val_key (sig_validator s)) = 32
     \<and> (\<exists>msg. ed_verify E (key_of_bytes (val_key (sig_validator s))) msg (of_le_bytes (sig_bytes s)))"

definition state_signed :: "ed25519 \<Rightarrow> multisig_state \<Rightarrow> bool" where
  "state_signed E st \<longleftrightarrow> (\<forall>s\<in>set (ms_signatures st). sig_verifies E s)"

lemma verify_signatureD: "verify_signature E now s msg = Inr () \<Longrightarrow> sig_verifies E s"
  by (auto simp: verify_signature_def sig_verifies_def Let_def split: if_splits)

lemma add_signature_signed: "state_signed E st \<Longrightarrow> sig_verifies E s \<Longrightarrow> add_signature s st = Inr (st', b) \<Longrightarrow> state_signed E st'"
  by (auto simp: state_signed_def add_signature_def Let_def split: if_splits)

inductive multisig_step :: "ed25519 \<Rightarrow> multisig_manager \<Rightarrow> multisig_manager \<Rightarrow> bool" for E where
  ms_init: "init_transaction i m = Inr m' \<Longrightarrow> multisig_step E m m'"
| ms_submit: "submit_signature E now i s msg m = Inr (m', b) \<Longrightarrow> multisig_step E m m'"
| ms_rotate: "multisig_config_new t vs = Inr cfg \<Longrightarrow> multisig_step E m (rotate_validators cfg m)"
| ms_cleanup: "multisig_step E m (cleanup_transaction i m)"

definition multisig_ok :: "ed25519 \<Rightarrow> multisig_manager \<Rightarrow> bool" where
  "multisig_ok E m \<longleftrightarrow> config_ok (global_config m) \<and> (\<forall>i st. mm_states m i = Some st \<longrightarrow> state_ok st \<and> state_signed E st)"

lemma multisig_step_ok:
  assumes "multisig_step E m m'" and "multisig_ok E m"
  shows "multisig_ok E m'"
  using assms
proof cases
  case (ms_submit now i s msg b)
  then obtain st st' where st: "mm_states m i = Some st" "verify_signature E now s msg = Inr ()" "add_signature s st = Inr (st', b)"
      "m' = m\<lparr>mm_states := (mm_states m)(i \<mapsto> st')\<rparr>"
    by (auto simp: submit_signature_def split: option.splits sum.splits)
  then have "state_ok st' \<and> state_signed E st'"
    using assms(2) add_signature_ok [of st s st' b] add_signature_signed [of E st s st' b] verify_signatureD [OF st(2)] by (simp add: multisig_ok_def)
  then show ?thesis using assms(2) st(4) by (simp add: multisig_ok_def)
qed (auto simp: init_transaction_def rotate_validators_def cleanup_transaction_def multisig_ok_def Let_def
      intro: state_new_ok config_new_ok split: if_splits, simp add: state_signed_def multisig_state_new_def)

lemma multisig_run_ok: "(multisig_step E)\<^sup>*\<^sup>* m m' \<Longrightarrow> multisig_ok E m \<Longrightarrow> multisig_ok E m'"
  by (induction rule: rtranclp_induct) (auto dest: multisig_step_ok)

text \<open>C21. In every run of the signature manager, also across a rotation of the validators, a bridge transaction has its quorum exactly when its stored signatures name at
  least the threshold of different members of the validator set the transaction was opened with, and every stored signature is 64 bytes that verify, on some message, under the
  32-byte key the signature itself brings along. Nothing ties that key to the key registered for the validator that is named, nor the messages to each other: the theorem counts
  names, and says no more than the code checks about who signed.\<close>

theorem quorum_needs_validators:
  assumes "multisig_config_new t vs = Inr cfg" and "(multisig_step E)\<^sup>*\<^sup>* (multisig_manager_new cfg) m" and "mm_states m i = Some st"
  shows "set (signers st) \<subseteq> val_id ` set (ms_validators (ms_config st)) \<and> 0 < threshold (ms_config st)
    \<and> (has_quorum i m \<longleftrightarrow> threshold (ms_config st) \<le> card (set (signers st)))
    \<and> (\<forall>s\<in>set (ms_signatures st). length (sig_bytes s) = 64 \<and> length (val_key (sig_validator s)) = 32
          \<and> (\<exists>msg. ed_verify E (key_of_bytes (val_key (sig_validator s))) msg (of_le_bytes (sig_bytes s))))"
proof -
  have "multisig_ok E (multisig_manager_new cfg)"
    using config_new_ok [OF assms(1)] by (simp add: multisig_ok_def multisig_manager_new_def)
  then have "state_ok st" "state_signed E st" using multisig_run_ok [OF assms(2)] assms(3) by (simp_all add: multisig_ok_def)
  then show ?thesis using assms(3) by (simp add: state_ok_def config_ok_def has_quorum_def distinct_card state_signed_def sig_verifies_def)
qed

text \<open>The signature that an attacker with the signing key \<^term>\<open>sk\<close> submits in the name of the validator \<^term>\<open>u\<close>.\<close>

definition forged :: "ed25519 \<Rightarrow> timestamp \<Rightarrow> hash32 \<Rightarrow> u8 list \<Rightarrow> user_id \<Rightarrow> validator_signature" where
  "forged E now sk msg u = \<lparr>sig_validator = \<lparr>val_id = u, val_key = as_bytes (ed_public E sk)\<rparr>, sig_bytes = signature_to_bytes (ed_sign E sk msg), sig_at = now\<rparr>"

lemma forged_verifies: "signs_correctly E \<Longrightarrow> verify_signature E now (forged E now sk msg u) msg = Inr ()"
  by (simp add: verify_signature_def forged_def signs_correctly_def signature_to_bytes_def num_seconds_abs_def Let_def as_bytes_def key_of_bytes_def of_le_bytes_le_bytes)

text \<open>The key that verifies a signature is the one the signature brings along; it is never compared with the validator's registered key. Whoever has any key pair can
  sign in the name of every validator.\<close>

theorem forged_signature_accepted:
  assumes "signs_correctly E" and "mm_states m i = Some st" and "u \<in> val_id ` set (ms_validators (ms_config st))" and "u \<notin> set (signers st)"
  shows "\<exists>m' b st'. submit_signature E now i (forged E now sk msg u) msg m = Inr (m', b) \<and> mm_states m' i = Some st' \<and> signers st' = signers st @ [u]"
proof -
  have "list_ex (\<lambda>v. val_id v = u) (ms_validators (ms_config st))" using assms(3) by (auto simp: list_ex_iff)
  moreover have "\<not> list_ex (\<lambda>s. val_id (sig_validator s) = u) (ms_signatures st)" using assms(4) by (force simp: list_ex_iff signers_def)
  ultimately have "\<exists>st' b. add_signature (forged E now sk msg u) st = Inr (st', b) \<and> signers st' = signers st @ [u]"
    by (auto simp: add_signature_def forged_def signers_def Let_def)
  then show ?thesis
    using forged_verifies [OF assms(1)] assms(2) by (auto simp: submit_signature_def)
qed

section \<open>Finality\<close>

definition fin_signers :: "aggregated_proof \<Rightarrow> user_id list" where
  "fin_signers p = map fin_validator (ap_signatures p)"

definition tracker_ok :: "finality_tracker \<Rightarrow> bool" where
  "tracker_ok ft \<longleftrightarrow>
     (\<forall>h p. pending_proofs ft h = Some p \<longrightarrow> distinct (fin_signers p) \<and> set (fin_signers p) \<subseteq> dom (validator_pubkeys ft)
        \<and> ap_required_signatures p = required_signatures ft) \<and>
     (\<forall>h p. finalized_proofs ft h = Some p \<longrightarrow> distinct (fin_signers p) \<and> set (fin_signers p) \<subseteq> dom (validator_pubkeys ft)
        \<and> required_signatures ft \<le> length (fin_signers p) \<and> ap_required_confirmations p \<le> ap_confirmations p)"

inductive ft_step :: "bls \<Rightarrow> finality_tracker \<Rightarrow> finality_tracker \<Rightarrow> bool" for B where
  ts_register: "tracker_register B u pk ft = Inr ft' \<Longrightarrow> ft_step B ft ft'"
| ts_initiate: "initiate_proof now h bn bh c rc ft = Inr ft' \<Longrightarrow> ft_step B ft ft'"
| ts_submit: "tracker_submit B now h u sg ft = (ft', r) \<Longrightarrow> ft_step B ft ft'"

lemma list_ex_fin: "list_ex (\<lambda>s'. fin_validator s' = u) (ap_signatures p) \<longleftrightarrow> u \<in> set (fin_signers p)"
  by (auto simp: list_ex_iff fin_signers_def)

lemma proof_add_signature_fields:
  assumes "proof_add_signature B now s p = (p', r)"
  shows "ap_required_signatures p' = ap_required_signatures p" and "ap_confirmations p' = ap_confirmations p"
    and "ap_required_confirmations p' = ap_required_confirmations p"
    and "(p' = p \<and> fin_validator s \<in> set (fin_signers p) \<and> r = Inl FinDuplicateSignature)
      \<or> (ap_signatures p' = ap_signatures p @ [s] \<and> fin_validator s \<notin> set (fin_signers p))"
  using assms by (auto simp: proof_add_signature_def try_aggregate_def list_ex_fin Let_def split: if_splits sum.splits option.splits)

lemma proof_add_signature_ok:
  assumes "proof_add_signature B now s p = (p', r)" and "distinct (fin_signers p)" "set (fin_signers p) \<subseteq> D" "fin_validator s \<in> D"
  shows "distinct (fin_signers p') \<and> set (fin_signers p') \<subseteq> D"
proof -
  from proof_add_signature_fields(4) [OF assms(1)] have "fin_signers p' = fin_signers p \<or> (fin_signers p' = fin_signers p @ [fin_validator s] \<and> fin_validator s \<notin> set (fin_signers p))"
    by (auto simp: fin_signers_def)
  then show ?thesis using assms(2-) by auto
qed

lemma tracker_submit_cases:
  assumes "tracker_submit B now h u sg ft = (ft', r)"
  obtains "ft' = ft"
  | p p' r' where "validator_pubkeys ft u \<noteq> None" "pending_proofs ft h = Some p"
      "proof_add_signature B now \<lparr>fin_validator = u, fin_signature = sg, fin_signed_at = now\<rparr> p = (p', r')"
      "ft' = ft\<lparr>pending_proofs := (pending_proofs ft)(h \<mapsto> p')\<rparr>"
  | p p' where "validator_pubkeys ft u \<noteq> None" "pending_proofs ft h = Some p"
      "proof_add_signature B now \<lparr>fin_validator = u, fin_signature = sg, fin_signed_at = now\<rparr> p = (p', Inr ())" "proof_is_finalized p'"
      "ft' = ft\<lparr>pending_proofs := (pending_proofs ft)(h := None), finalized_proofs := (finalized_proofs ft)(h \<mapsto> p')\<rparr>"
  using assms by (auto simp: tracker_submit_def split: if_splits option.splits prod.splits sum.splits)

lemma ft_step_ok:
  assumes "ft_step B ft ft'" and "tracker_ok ft"
  shows "tracker_ok ft' \<and> required_signatures ft' = required_signatures ft"
  using assms(1)
proof cases
  case (ts_register u pk)
  then show ?thesis using assms(2) by (fastforce simp: tracker_register_def tracker_ok_def split: if_splits)
next
  case (ts_initiate now h bn bh c rc)
  let ?p = "(proof_new now h bn bh c rc (required_signatures ft))\<lparr>validator_pubkeys_map := validator_pubkeys ft\<rparr>"
  have "ft' = ft\<lparr>pending_proofs := (pending_proofs ft)(h \<mapsto> ?p)\<rparr>" using ts_initiate by (simp add: initiate_proof_def split: if_splits)
  moreover have "fin_signers ?p = []" "ap_required_signatures ?p = required_signatures ft" by (simp_all add: fin_signers_def proof_new_def)
  ultimately show ?thesis using assms(2) unfolding tracker_ok_def by simp
next
  case (ts_submit now h u sg r)
  then show ?thesis
  proof (cases rule: tracker_submit_cases)
    case 1
    then show ?thesis using assms(2) by simp
  next
    case (2 p p' r')
    then have "distinct (fin_signers p') \<and> set (fin_signers p') \<subseteq> dom (validator_pubkeys ft)"
      using assms(2) by (intro proof_add_signature_ok [OF 2(3)]) (auto simp: tracker_ok_def)
    then show ?thesis using assms(2) 2 proof_add_signature_fields(1) [OF 2(3)] by (simp add: tracker_ok_def)
  next
    case (3 p p')
    then have "distinct (fin_signers p') \<and> set (fin_signers p') \<subseteq> dom (validator_pubkeys ft)"
      using assms(2) by (intro proof_add_signature_ok [OF 3(3)]) (auto simp: tracker_ok_def)
    moreover have "ap_required_signatures p = required_signatures ft" using assms(2) 3(2) by (simp add: tracker_ok_def)
    then have "required_signatures ft \<le> length (fin_signers p')" "ap_required_confirmations p' \<le> ap_confirmations p'"
      using 3(4) proof_add_signature_fields(1) [OF 3(3)] by (simp_all add: proof_is_finalized_def fin_signers_def)
    ultimately show ?thesis using assms(2) 3(5) by (simp add: tracker_ok_def)
  qed
qed

lemma tracker_run_ok:
  "(ft_step B)\<^sup>*\<^sup>* ft ft' \<Longrightarrow> tracker_ok ft \<Longrightarrow> tracker_ok ft' \<and> required_signatures ft' = required_signatures ft"
  by (induction rule: rtranclp_induct) (auto dest: ft_step_ok)

text \<open>A finalized proof carries the signatures of at least the required number of different registered validators and enough confirmations.\<close>

theorem finalized_needs_signers:
  assumes "finality_tracker_new k n = Inr ft0" and "(ft_step B)\<^sup>*\<^sup>* ft0 ft" and "finalized_proofs ft h = Some p"
  shows "k \<le> card (set (fin_signers p)) \<and> set (fin_signers p) \<subseteq> dom (validator_pubkeys ft) \<and> ap_required_confirmations p \<le> ap_confirmations p"
proof -
  have "tracker_ok ft0 \<and> required_signatures ft0 = k"
    using assms(1) by (auto simp: finality_tracker_new_def tracker_ok_def split: if_splits)
  then have "tracker_ok ft \<and> required_signatures ft = k" using tracker_run_ok [OF assms(2)] by auto
  then have "distinct (fin_signers p) \<and> set (fin_signers p) \<subseteq> dom (validator_pubkeys ft) \<and> k \<le> length (fin_signers p)
      \<and> ap_required_confirmations p \<le> ap_confirmations p"
    using assms(3) unfolding tracker_ok_def by blast
  then show ?thesis by (simp add: distinct_card)
qed

text \<open>A proof that holds a signature that does not parse.\<close>

definition spoiled :: "bls \<Rightarrow> string \<Rightarrow> finality_tracker \<Rightarrow> bool" where
  "spoiled B h ft \<longleftrightarrow> finalized_proofs ft h = None
     \<and> (\<exists>p. pending_proofs ft h = Some p \<and> (\<exists>s\<in>set (ap_signatures p). \<not> bls_sig_ok B (fin_signature s)))"

lemma spoiled_add:
  assumes "\<exists>s\<in>set (ap_signatures p). \<not> bls_sig_ok B (fin_signature s)" and "proof_add_signature B now s p = (p', r)"
  shows "(\<exists>s\<in>set (ap_signatures p'). \<not> bls_sig_ok B (fin_signature s)) \<and> \<not> (r = Inr () \<and> proof_is_finalized p')"
  using assms by (auto simp: proof_add_signature_def try_aggregate_def proof_is_finalized_def list_all_iff Let_def split: if_splits sum.splits option.splits)

lemma spoiled_step:
  assumes "ft_step B ft ft'" and "spoiled B h ft"
  shows "spoiled B h ft'"
proof -
  obtain q where q: "finalized_proofs ft h = None" "pending_proofs ft h = Some q" "\<exists>s\<in>set (ap_signatures q). \<not> bls_sig_ok B (fin_signature s)"
    using assms(2) by (auto simp: spoiled_def)
  from assms(1) show ?thesis
  proof cases
    case (ts_submit now h' u sg r)
    then show ?thesis
    proof (cases rule: tracker_submit_cases)
      case (2 p p' r')
      then show ?thesis using q spoiled_add [OF _ 2(3)] by (cases "h' = h") (simp_all add: spoiled_def)
    next
      case (3 p p')
      then show ?thesis using q spoiled_add [OF _ 3(3)] by (cases "h' = h") (simp_all add: spoiled_def)
    qed (use assms(2) in simp)
  qed (use assms(2) q in \<open>auto simp: spoiled_def tracker_register_def initiate_proof_def split: if_splits\<close>)
qed

text \<open>One malformed signature blocks a proof for good: signatures are not parsed when they are submitted, and from then on every aggregation fails, whatever the other
  validators submit, until the proof expires.\<close>

theorem malformed_signature_blocks:
  assumes "spoiled B h ft" and "(ft_step B)\<^sup>*\<^sup>* ft ft'"
  shows "\<not> tracker_is_finalized h ft'"
proof -
  have "spoiled B h ft'" using assms(2,1) by (induction rule: rtranclp_induct) (auto dest: spoiled_step)
  then show ?thesis by (simp add: spoiled_def tracker_is_finalized_def)
qed

section \<open>Slashing\<close>

text \<open>The recorded total of a validator is the sum of its events, as a 64-bit number.\<close>

lemma slashed_amount_is_sum:
  assumes "sm = fold (\<lambda>(now, u, why, x, tx, ev, rep). br_slash_validator now u why x tx ev rep) calls slashing_new"
  shows "get_slashed_amount u sm = sum_list (map sl_amount (get_validator_slashes u sm))"
  unfolding assms
proof (induction calls rule: rev_induct)
  case Nil
  then show ?case by (simp add: slashing_new_def get_slashed_amount_def get_validator_slashes_def)
next
  case (snoc c calls)
  obtain now v why x tx ev rep where c: "c = (now, v, why, x, tx, ev, rep)" by (metis prod_cases7)
  have "get_slashed_amount u (br_slash_validator now v why x tx ev rep sm') = get_slashed_amount u sm' + (if u = v then x else 0)"
    "get_validator_slashes u (br_slash_validator now v why x tx ev rep sm')
      = get_validator_slashes u sm' @ (if u = v then [\<lparr>sl_validator = v, sl_reason = why, sl_transaction = tx, sl_amount = x, sl_evidence = ev, sl_at = now, sl_reporter = rep\<rparr>] else [])" for sm'
    by (auto simp: br_slash_validator_def get_slashed_amount_def get_validator_slashes_def)
  then show ?case using snoc by (simp add: c)
qed

section \<open>Execution follows finality\<close>



text \<open>What finality of a hash rests on: a proof with the confirmations of the chain the proof names, or a proof of the tracker, with the signatures and the confirmations of the
  chat chain.\<close>

definition proof_enough :: "finality_proof \<Rightarrow> bool" where
  "proof_enough p \<longleftrightarrow> chain_required_confirmations (fp_chain p) \<le> fp_confirmations p"


definition tracker_confs :: "finality_tracker \<Rightarrow> bool" where
  "tracker_confs ft \<longleftrightarrow> (\<forall>h p. pending_proofs ft h = Some p \<or> finalized_proofs ft h = Some p \<longrightarrow> ap_required_confirmations p = 12)"

definition bridge_ok :: "bridge_manager \<Rightarrow> bool" where
  "bridge_ok bm \<longleftrightarrow> (\<forall>c. confirmations_for c bm = chain_required_confirmations c)
     \<and> (\<forall>h p. finality_proofs bm h = Some p \<longrightarrow> fp_is_final p \<longrightarrow> proof_enough p)
     \<and> tracker_ok (bm_tracker bm) \<and> required_signatures (bm_tracker bm) = 5 \<and> tracker_confs (bm_tracker bm)"












text \<open>The chain of a proof is not compared with the source of the transaction: 12 confirmations reported for the chat chain clear a transfer out of Solana, which requires 32.\<close>

lemma wrong_chain_clears:
  assumes "bridge_ok bm" and "bridge_txs bm i = Some t" and "source_chain t = Solana"
  shows "\<exists>bm'. mark_ready_to_execute i (submit_finality_proof (source_tx_hash t) ChatChain bn 12 pd bm) = Inr bm'"
  using assms by (simp add: mark_ready_to_execute_def check_finality_def submit_finality_proof_def bridge_ok_def)

text \<open>Nothing ends a bridge transaction: once its source is final it can be made ready and executed from any status, so a second time after it was executed, and also after it
  was rolled back or timed out.\<close>

theorem final_transaction_reexecuted:
  assumes "bridge_txs bm i = Some t" and "check_finality (source_tx_hash t) bm"
  shows "\<exists>bm1 bm2 t2. mark_ready_to_execute i bm = Inr bm1 \<and> bridge_execute now i h bm1 = Inr bm2 \<and> bridge_txs bm2 i = Some t2
    \<and> bt_status t2 = Executed \<and> destination_tx_hash t2 = Some h \<and> bt_amount t2 = bt_amount t"
  using assms by (simp add: mark_ready_to_execute_def bridge_execute_def put_tx_def)

section \<open>Examples\<close>

definition demo_vals :: "validator_id list" where
  "demo_vals = [\<lparr>val_id = 1, val_key = as_bytes 11\<rparr>, \<lparr>val_id = 2, val_key = as_bytes 12\<rparr>, \<lparr>val_id = 3, val_key = as_bytes 13\<rparr>]"

definition demo_ms_config :: multisig_config where
  "demo_ms_config = \<lparr>threshold = 2, total_validators = 3, ms_validators = demo_vals\<rparr>"

definition demo_ms :: "validator_signature list \<Rightarrow> bool \<Rightarrow> multisig_manager" where
  "demo_ms ss q = \<lparr>mm_states = [5 \<mapsto> \<lparr>ms_transaction_id = 5, ms_config = demo_ms_config, ms_signatures = ss, quorum_reached = q\<rparr>], global_config = demo_ms_config\<rparr>"

lemma demo_config_new: "multisig_config_new 2 demo_vals = Inr demo_ms_config"
  by (simp add: multisig_config_new_def demo_vals_def demo_ms_config_def)

text \<open>One attacker key, 99, signs for two validators.\<close>

definition demo_forged :: "user_id \<Rightarrow> validator_signature" where
  "demo_forged u = forged toy_ed25519 0 99 [1] u"

lemma demo_ms_steps:
  "init_transaction 5 (multisig_manager_new demo_ms_config) = Inr (demo_ms [] False)"
  "submit_signature toy_ed25519 0 5 (demo_forged 1) [1] (demo_ms [] False) = Inr (demo_ms [demo_forged 1] False, False)"
  "submit_signature toy_ed25519 0 5 (demo_forged 2) [1] (demo_ms [demo_forged 1] False) = Inr (demo_ms [demo_forged 1, demo_forged 2] True, True)"
  using forged_verifies [OF toy_signs_correctly, of 0 99 "[1]"]
  by (simp_all add: init_transaction_def multisig_manager_new_def multisig_state_new_def demo_ms_def submit_signature_def demo_forged_def)
    (simp_all add: add_signature_def forged_def demo_ms_config_def demo_vals_def config_has_quorum_def)

theorem quorum_needs_validators_witness:
  "has_quorum 5 (demo_ms [demo_forged 1, demo_forged 2] True) \<and> 2 \<le> card {1 :: user_id, 2}
    \<and> (\<exists>msg. ed_verify toy_ed25519 (key_of_bytes (val_key (sig_validator (demo_forged 1)))) msg (of_le_bytes (sig_bytes (demo_forged 1))))"
proof -
  have "(multisig_step toy_ed25519)\<^sup>*\<^sup>* (multisig_manager_new demo_ms_config) (demo_ms [demo_forged 1, demo_forged 2] True)"
    using ms_init [OF demo_ms_steps(1), of toy_ed25519] ms_submit [OF demo_ms_steps(2)] ms_submit [OF demo_ms_steps(3)]
    by (meson rtranclp.rtrancl_refl rtranclp.rtrancl_into_rtrancl)
  note q = quorum_needs_validators [OF demo_config_new this, of 5, simplified demo_ms_def, simplified]
  have "signers \<lparr>ms_transaction_id = 5, ms_config = demo_ms_config, ms_signatures = [demo_forged 1, demo_forged 2], quorum_reached = True\<rparr> = [1, 2]"
    by (simp add: signers_def demo_forged_def forged_def)
  with q show ?thesis by (simp add: demo_ms_def demo_ms_config_def)
qed

theorem forged_signature_accepted_witness:
  "\<exists>m' b st'. submit_signature toy_ed25519 0 5 (forged toy_ed25519 0 99 [1] 3) [1] (demo_ms [] False) = Inr (m', b) \<and> mm_states m' 5 = Some st' \<and> signers st' = [3]"
  using forged_signature_accepted [OF toy_signs_correctly, of "demo_ms [] False" 5 _ 3 0 99 "[1]"]
  by (simp add: demo_ms_def signers_def demo_ms_config_def demo_vals_def)

text \<open>BLS stand-ins: a signature parses when it is not empty, an aggregate is the concatenation. Two of two validators sign a transaction with 12 confirmations.\<close>

definition toy_bls :: bls where
  "toy_bls = \<lparr>bls_sig_ok = (\<lambda>s. s \<noteq> []), bls_key_ok = (\<lambda>k. k \<noteq> []), bls_aggregate = (\<lambda>ss. Some (concat ss)), bls_fast_verify = (\<lambda>a m d ks. True)\<rparr>"

definition demo_fin_sig :: "user_id \<Rightarrow> u8 list \<Rightarrow> finality_signature" where
  "demo_fin_sig u sg = \<lparr>fin_validator = u, fin_signature = sg, fin_signed_at = 0\<rparr>"

definition demo_proof :: "finality_signature list \<Rightarrow> aggregated_proof" where
  "demo_proof ss = (proof_new 0 ''tx'' 1 ''b'' 12 12 2)\<lparr>validator_pubkeys_map := [1 \<mapsto> [1], 2 \<mapsto> [2]], ap_signatures := ss\<rparr>"

definition demo_tracker :: "(string \<rightharpoonup> aggregated_proof) \<Rightarrow> (string \<rightharpoonup> aggregated_proof) \<Rightarrow> (user_id \<rightharpoonup> u8 list) \<Rightarrow> finality_tracker" where
  "demo_tracker pe fi ks = \<lparr>pending_proofs = pe, finalized_proofs = fi, validator_pubkeys = ks, required_signatures = 2, ft_total_validators = 2\<rparr>"

definition demo_final_proof :: aggregated_proof where
  "demo_final_proof = (demo_proof [demo_fin_sig 1 [7], demo_fin_sig 2 [8]])\<lparr>aggregated_signature := Some [7, 8], ap_finalized_at := Some 0\<rparr>"

lemmas demo_fin_defs = demo_tracker_def demo_proof_def demo_final_proof_def demo_fin_sig_def toy_bls_def proof_new_def

lemma demo_tracker_steps:
  "finality_tracker_new 2 2 = Inr (demo_tracker Map.empty Map.empty Map.empty)"
  "tracker_register toy_bls 1 [1] (demo_tracker Map.empty Map.empty Map.empty) = Inr (demo_tracker Map.empty Map.empty [1 \<mapsto> [1]])"
  "tracker_register toy_bls 2 [2] (demo_tracker Map.empty Map.empty [1 \<mapsto> [1]]) = Inr (demo_tracker Map.empty Map.empty [1 \<mapsto> [1], 2 \<mapsto> [2]])"
  "initiate_proof 0 ''tx'' 1 ''b'' 12 12 (demo_tracker Map.empty Map.empty [1 \<mapsto> [1], 2 \<mapsto> [2]]) = Inr (demo_tracker [''tx'' \<mapsto> demo_proof []] Map.empty [1 \<mapsto> [1], 2 \<mapsto> [2]])"
  "tracker_submit toy_bls 0 ''tx'' 1 [7] (demo_tracker [''tx'' \<mapsto> demo_proof []] Map.empty [1 \<mapsto> [1], 2 \<mapsto> [2]])
     = (demo_tracker [''tx'' \<mapsto> demo_proof [demo_fin_sig 1 [7]]] Map.empty [1 \<mapsto> [1], 2 \<mapsto> [2]], Inr False)"
  "tracker_submit toy_bls 0 ''tx'' 2 [8] (demo_tracker [''tx'' \<mapsto> demo_proof [demo_fin_sig 1 [7]]] Map.empty [1 \<mapsto> [1], 2 \<mapsto> [2]])
     = (demo_tracker Map.empty [''tx'' \<mapsto> demo_final_proof] [1 \<mapsto> [1], 2 \<mapsto> [2]], Inr True)"
  "tracker_submit toy_bls 0 ''tx'' 1 [] (demo_tracker [''tx'' \<mapsto> demo_proof []] Map.empty [1 \<mapsto> [1], 2 \<mapsto> [2]])
     = (demo_tracker [''tx'' \<mapsto> demo_proof [demo_fin_sig 1 []]] Map.empty [1 \<mapsto> [1], 2 \<mapsto> [2]], Inr False)"
  by (simp_all add: finality_tracker_new_def tracker_register_def initiate_proof_def tracker_submit_def proof_add_signature_def try_aggregate_def
      proof_is_finalized_def demo_fin_defs Let_def)

theorem finalized_needs_signers_witness:
  "2 \<le> card (set (fin_signers demo_final_proof)) \<and> ap_required_confirmations demo_final_proof \<le> ap_confirmations demo_final_proof"
proof -
  have "(ft_step toy_bls)\<^sup>*\<^sup>* (demo_tracker Map.empty Map.empty Map.empty) (demo_tracker Map.empty [''tx'' \<mapsto> demo_final_proof] [1 \<mapsto> [1], 2 \<mapsto> [2]])"
    using ts_register [OF demo_tracker_steps(2)] ts_register [OF demo_tracker_steps(3)] ts_initiate [OF demo_tracker_steps(4), of toy_bls]
      ts_submit [OF demo_tracker_steps(5)] ts_submit [OF demo_tracker_steps(6)]
    by (meson rtranclp.rtrancl_refl rtranclp.rtrancl_into_rtrancl)
  from finalized_needs_signers [OF demo_tracker_steps(1) this, of "''tx''" demo_final_proof] show ?thesis
    by (simp add: demo_tracker_def)
qed

theorem malformed_signature_blocks_witness:
  "\<not> tracker_is_finalized ''tx'' (fst (tracker_submit toy_bls 0 ''tx'' 2 [8] (demo_tracker [''tx'' \<mapsto> demo_proof [demo_fin_sig 1 []]] Map.empty [1 \<mapsto> [1], 2 \<mapsto> [2]])))"
proof -
  let ?ft = "demo_tracker [''tx'' \<mapsto> demo_proof [demo_fin_sig 1 []]] Map.empty [1 \<mapsto> [1], 2 \<mapsto> [2]]"
  have "spoiled toy_bls ''tx'' ?ft" by (simp add: spoiled_def demo_fin_defs)
  moreover have "(ft_step toy_bls)\<^sup>*\<^sup>* ?ft (fst (tracker_submit toy_bls 0 ''tx'' 2 [8] ?ft))"
    by (rule r_into_rtranclp, rule ts_submit [of _ 0 "''tx''" 2 "[8]" _ _ "snd (tracker_submit toy_bls 0 ''tx'' 2 [8] ?ft)"]) simp
  ultimately show ?thesis by (rule malformed_signature_blocks)
qed

definition demo_bridge_tx :: "bridge_status \<Rightarrow> bridge_transaction" where
  "demo_bridge_tx s = \<lparr>bt_id = 5, source_chain = ChatChain, destination_chain = CurrencyChain, bt_initiator = 1, source_tx_hash = ''tx'', destination_tx_hash = None,
     bt_amount = 40, bt_status = s, initiated_at = 0, bt_finalized_at = None, timeout_at = duration_seconds 60\<rparr>"


definition demo_bridge :: "bridge_manager \<Rightarrow> bridge_manager" where
  "demo_bridge bm = submit_finality_proof ''tx'' ChatChain 1 12 [] (put_tx 5 (demo_bridge_tx Executed) (bm\<lparr>required_confirmations := [ChatChain \<mapsto> 12]\<rparr>))"

theorem final_transaction_reexecuted_witness:
  "\<forall>bm. \<exists>bm1 bm2 t2. mark_ready_to_execute 5 (demo_bridge bm) = Inr bm1 \<and> bridge_execute 0 5 ''again'' bm1 = Inr bm2 \<and> bridge_txs bm2 5 = Some t2
    \<and> destination_tx_hash t2 = Some ''again''"
proof
  fix bm
  have t: "bridge_txs (demo_bridge bm) 5 = Some (demo_bridge_tx Executed)" by (simp add: demo_bridge_def put_tx_def submit_finality_proof_def)
  have "check_finality ''tx'' (demo_bridge bm)"
    by (simp add: demo_bridge_def put_tx_def submit_finality_proof_def confirmations_for_def check_finality_def)
  from final_transaction_reexecuted [OF t] this
  show "\<exists>bm1 bm2 t2. mark_ready_to_execute 5 (demo_bridge bm) = Inr bm1 \<and> bridge_execute 0 5 ''again'' bm1 = Inr bm2 \<and> bridge_txs bm2 5 = Some t2
    \<and> destination_tx_hash t2 = Some ''again''" by (fastforce simp: demo_bridge_tx_def)
qed

end
