(* ===== verification/Recovery.thy ===== *)
theory Recovery
  imports Motes_Text "HOL-Library.AList"
begin

text \<open>
  Account recovery through guardians, crate \<^verbatim>\<open>dchat-identity\<close>: the manager that collects approvals (\<^verbatim>\<open>guardian.rs\<close>) and the one that collects
  signatures under a timelock and a rate limit (\<^verbatim>\<open>guardian_recovery.rs\<close>). Where the code asks for the number of entries of a hash map, the map is an
  association list with distinct keys. The clock is an argument, read once per operation.
\<close>

section \<open>Approvals by guardians\<close>

record guardian =
  g_id :: user_id
  g_key :: "u8 list"
  g_added_at :: timestamp
  g_trusted :: bool

record guardian_approval =
  ga_guardian :: user_id
  ga_approved :: bool
  ga_signed_at :: timestamp
  ga_signature :: "u8 list"

datatype recovery_status = RsPending | RsTimelockActive | RsApproved | RsRejected | RsCancelled | RsExecuted

record recovery_request =
  rr_id :: string
  rr_user :: user_id
  rr_new_key :: "u8 list"
  rr_created_at :: timestamp
  rr_timelock_until :: timestamp
  rr_approvals :: "guardian_approval list"
  rr_required :: nat
  rr_status :: recovery_status

record guardian_manager =
  user_guardians :: "user_id \<rightharpoonup> guardian list"
  gm_requests :: "string \<rightharpoonup> recovery_request"
  timelock_hours :: int

definition duration_hours :: "int \<Rightarrow> int" where
  "duration_hours h = duration_seconds (h * 3600)"

definition guardian_manager_new :: "int \<Rightarrow> guardian_manager" where
  "guardian_manager_new h = \<lparr>user_guardians = Map.empty, gm_requests = Map.empty, timelock_hours = h\<rparr>"

definition get_guardians :: "user_id \<Rightarrow> guardian_manager \<Rightarrow> guardian list" where
  "get_guardians u m = (case user_guardians m u of None \<Rightarrow> [] | Some gs \<Rightarrow> gs)"

text \<open>The entry of the user is created even when the call then fails.\<close>

definition add_guardian :: "user_id \<Rightarrow> guardian \<Rightarrow> guardian_manager \<Rightarrow> guardian_manager \<times> unit core_result" where
  "add_guardian u g m =
     (let gs = get_guardians u m
      in if list_ex (\<lambda>g'. g_id g' = g_id g) gs then (m\<lparr>user_guardians := (user_guardians m)(u \<mapsto> gs)\<rparr>, Inl Identity)
         else (m\<lparr>user_guardians := (user_guardians m)(u \<mapsto> gs @ [g])\<rparr>, Inr ()))"

definition remove_guardian :: "user_id \<Rightarrow> user_id \<Rightarrow> guardian_manager \<Rightarrow> guardian_manager core_result" where
  "remove_guardian u who m =
     (case user_guardians m u of
        None \<Rightarrow> Inl Identity
      | Some gs \<Rightarrow>
          let gs' = filter (\<lambda>g. g_id g \<noteq> who) gs
          in if length gs' = length gs then Inl Identity
             else Inr (m\<lparr>user_guardians := (user_guardians m)(u \<mapsto> gs')\<rparr>))"

text \<open>\<^verbatim>\<open>(guardians.len() * 2).div_ceil(3)\<close>.\<close>

definition required_approvals :: "guardian list \<Rightarrow> nat" where
  "required_approvals gs = (length gs * 2 + 2) div 3"

definition initiate_recovery :: "timestamp \<Rightarrow> string \<Rightarrow> user_id \<Rightarrow> u8 list \<Rightarrow> guardian_manager \<Rightarrow> guardian_manager core_result" where
  "initiate_recovery now i u pk m =
     (case user_guardians m u of
        None \<Rightarrow> Inl Identity
      | Some gs \<Rightarrow>
          if gs = [] then Inl Identity
          else Inr (m\<lparr>gm_requests := (gm_requests m)(i \<mapsto>
                 \<lparr>rr_id = i, rr_user = u, rr_new_key = pk, rr_created_at = now, rr_timelock_until = now + duration_hours (timelock_hours m),
                  rr_approvals = [], rr_required = required_approvals gs, rr_status = RsPending\<rparr>)\<rparr>))"

definition approval_count :: "recovery_request \<Rightarrow> nat" where
  "approval_count r = length (filter ga_approved (rr_approvals r))"

definition approve_recovery :: "timestamp \<Rightarrow> string \<Rightarrow> user_id \<Rightarrow> u8 list \<Rightarrow> guardian_manager \<Rightarrow> guardian_manager core_result" where
  "approve_recovery now i who sg m =
     (case gm_requests m i of
        None \<Rightarrow> Inl Identity
      | Some r \<Rightarrow>
          if rr_status r \<noteq> RsPending \<and> rr_status r \<noteq> RsTimelockActive then Inl Identity
          else case user_guardians m (rr_user r) of
            None \<Rightarrow> Inl Identity
          | Some gs \<Rightarrow>
              if \<not> list_ex (\<lambda>g. g_id g = who) gs then Inl Identity
              else if list_ex (\<lambda>a. ga_guardian a = who) (rr_approvals r) then Inl Identity
              else let r' = r\<lparr>rr_approvals := rr_approvals r @ [\<lparr>ga_guardian = who, ga_approved = True, ga_signed_at = now, ga_signature = sg\<rparr>]\<rparr>;
                       r'' = (if approval_count r' \<ge> rr_required r' then r'\<lparr>rr_status := RsTimelockActive\<rparr> else r')
                in Inr (m\<lparr>gm_requests := (gm_requests m)(i \<mapsto> r'')\<rparr>))"

definition can_execute_recovery :: "timestamp \<Rightarrow> string \<Rightarrow> guardian_manager \<Rightarrow> bool core_result" where
  "can_execute_recovery now i m =
     (case gm_requests m i of
        None \<Rightarrow> Inl Identity
      | Some r \<Rightarrow> if rr_status r \<noteq> RsTimelockActive then Inr False else Inr (now \<ge> rr_timelock_until r))"

definition execute_recovery :: "timestamp \<Rightarrow> string \<Rightarrow> guardian_manager \<Rightarrow> (guardian_manager \<times> recovery_request) core_result" where
  "execute_recovery now i m =
     (case can_execute_recovery now i m of
        Inl e \<Rightarrow> Inl e
      | Inr False \<Rightarrow> Inl Identity
      | Inr True \<Rightarrow> (case gm_requests m i of
          None \<Rightarrow> Inl Identity
        | Some r \<Rightarrow> Inr (m\<lparr>gm_requests := (gm_requests m)(i := None)\<rparr>, r\<lparr>rr_status := RsExecuted\<rparr>)))"

definition cancel_recovery :: "string \<Rightarrow> guardian_manager \<Rightarrow> guardian_manager core_result" where
  "cancel_recovery i m =
     (case gm_requests m i of
        None \<Rightarrow> Inl Identity
      | Some r \<Rightarrow> Inr (m\<lparr>gm_requests := (gm_requests m)(i \<mapsto> r\<lparr>rr_status := RsCancelled\<rparr>)\<rparr>))"

definition get_pending_recoveries :: "string list \<Rightarrow> user_id \<Rightarrow> guardian_manager \<Rightarrow> recovery_request list" where
  "get_pending_recoveries ids u m = filter (\<lambda>r. rr_user r = u \<and> rr_status r = RsPending) (filter_map (gm_requests m) ids)"

section \<open>Signatures under a timelock\<close>

type_synonym guardian_id = string

record guardian_key =
  gk_id :: guardian_id
  gk_public :: hash32
  gk_added_at :: timestamp

datatype social_status = SqPending | SqActive | SqCompleted | SqCancelled | SqFailed string

record social_request =
  sq_id :: string
  sq_identity :: string
  sq_new_key :: "u8 list"
  sq_initiated_at :: timestamp
  sq_expires_at :: timestamp
  sq_required :: nat
  sq_signatures :: "(guardian_id \<times> u8 list) list"
  sq_status :: social_status

definition MAX_FAILED_ATTEMPTS :: u32 where "MAX_FAILED_ATTEMPTS = 5"

definition LOCKOUT_DURATION_SECS :: int where "LOCKOUT_DURATION_SECS = 3600"

record rate_limit_state =
  failed_attempts :: u32
  last_failed_at :: "timestamp option"
  rl_locked_until :: "timestamp option"

definition rate_limit_default :: rate_limit_state where
  "rate_limit_default = \<lparr>failed_attempts = 0, last_failed_at = None, rl_locked_until = None\<rparr>"

record guardian_threshold =
  gt_required :: nat
  gt_total :: nat

record recovery_manager =
  rm_guardians :: "(guardian_id \<times> guardian_key) list"
  rm_requests :: "string \<rightharpoonup> social_request"
  rm_threshold :: guardian_threshold
  rate_limits :: "guardian_id \<rightharpoonup> rate_limit_state"

definition recovery_manager_new :: "nat \<Rightarrow> recovery_manager" where
  "recovery_manager_new k = \<lparr>rm_guardians = [], rm_requests = Map.empty, rm_threshold = \<lparr>gt_required = k, gt_total = 0\<rparr>, rate_limits = Map.empty\<rparr>"

definition is_rate_limited :: "timestamp \<Rightarrow> guardian_id \<Rightarrow> recovery_manager \<Rightarrow> bool" where
  "is_rate_limited now g m =
     (case rate_limits m g of
        None \<Rightarrow> False
      | Some s \<Rightarrow> (case rl_locked_until s of None \<Rightarrow> False | Some t \<Rightarrow> now < t))"

definition record_failed_attempt :: "timestamp \<Rightarrow> guardian_id \<Rightarrow> recovery_manager \<Rightarrow> recovery_manager" where
  "record_failed_attempt now g m =
     (let s = (case rate_limits m g of None \<Rightarrow> rate_limit_default | Some s \<Rightarrow> s);
          s' = s\<lparr>failed_attempts := failed_attempts s + 1, last_failed_at := Some now\<rparr>;
          s'' = (if failed_attempts s' \<ge> MAX_FAILED_ATTEMPTS then s'\<lparr>rl_locked_until := Some (now + duration_seconds LOCKOUT_DURATION_SECS)\<rparr> else s')
      in m\<lparr>rate_limits := (rate_limits m)(g \<mapsto> s'')\<rparr>)"

definition reset_rate_limit :: "guardian_id \<Rightarrow> recovery_manager \<Rightarrow> recovery_manager" where
  "reset_rate_limit g m = m\<lparr>rate_limits := (rate_limits m)(g := None)\<rparr>"

definition set_guardians :: "(guardian_id \<times> guardian_key) list \<Rightarrow> recovery_manager \<Rightarrow> recovery_manager" where
  "set_guardians gs m = m\<lparr>rm_guardians := gs, rm_threshold := (rm_threshold m)\<lparr>gt_total := length gs\<rparr>\<rparr>"

definition rm_add_guardian :: "guardian_key \<Rightarrow> recovery_manager \<Rightarrow> recovery_manager core_result" where
  "rm_add_guardian k m =
     (if map_of (rm_guardians m) (gk_id k) \<noteq> None then Inl InvalidInput
      else Inr (set_guardians ((gk_id k, k) # rm_guardians m) m))"

text \<open>The guardian is gone also when the call reports that the threshold could not be met any more.\<close>

definition rm_remove_guardian :: "guardian_id \<Rightarrow> recovery_manager \<Rightarrow> recovery_manager \<times> unit core_result" where
  "rm_remove_guardian g m =
     (if map_of (rm_guardians m) g = None then (m, Inl InvalidInput)
      else let m' = set_guardians (AList.delete g (rm_guardians m)) m
        in if gt_total (rm_threshold m') < gt_required (rm_threshold m') then (m', Inl InvalidInput) else (m', Inr ()))"

text \<open>\<^verbatim>\<open>DateTime::timestamp\<close>, and numbers and bytes as text.\<close>

definition unix_seconds :: "timestamp \<Rightarrow> int" where
  "unix_seconds t = t div 1000000000"

definition show_int :: "int \<Rightarrow> string" where
  "show_int i = (if i < 0 then ''-'' @ show_nat (nat (- i)) else show_nat (nat i))"

definition hex_encode :: "u8 list \<Rightarrow> string" where
  "hex_encode bs = concat (map (\<lambda>b. [''0123456789abcdef'' ! (unat b div 16), ''0123456789abcdef'' ! (unat b mod 16)]) bs)"

definition rm_initiate_recovery :: "timestamp \<Rightarrow> string \<Rightarrow> u8 list \<Rightarrow> int \<Rightarrow> recovery_manager \<Rightarrow> (recovery_manager \<times> string) core_result" where
  "rm_initiate_recovery now ident pk hours m =
     (if length (rm_guardians m) < gt_required (rm_threshold m) then Inl InvalidInput
      else let i = ''recovery-'' @ ident @ ''-'' @ show_int (unix_seconds now)
        in Inr (m\<lparr>rm_requests := (rm_requests m)(i \<mapsto>
             \<lparr>sq_id = i, sq_identity = ident, sq_new_key = pk, sq_initiated_at = now, sq_expires_at = now + duration_hours hours,
              sq_required = gt_required (rm_threshold m), sq_signatures = [], sq_status = SqPending\<rparr>)\<rparr>, i))"

definition create_recovery_message :: "social_request \<Rightarrow> u8 list" where
  "create_recovery_message r =
     string_bytes (''RECOVERY:'' @ sq_identity r @ '':'' @ hex_encode (sq_new_key r) @ '':'' @ show_int (unix_seconds (sq_expires_at r)))"

definition take_signature :: "guardian_id \<Rightarrow> u8 list \<Rightarrow> social_request \<Rightarrow> social_request" where
  "take_signature g sg r =
     (let r1 = (if sq_status r = SqPending then r\<lparr>sq_status := SqActive\<rparr> else r);
          r2 = r1\<lparr>sq_signatures := AList.update g sg (sq_signatures r1)\<rparr>
      in if length (sq_signatures r2) \<ge> sq_required r2 then r2\<lparr>sq_status := SqCompleted\<rparr> else r2)"

definition add_guardian_signature ::
    "ed25519 \<Rightarrow> timestamp \<Rightarrow> string \<Rightarrow> guardian_id \<Rightarrow> u8 list \<Rightarrow> recovery_manager \<Rightarrow> recovery_manager \<times> unit core_result" where
  "add_guardian_signature E now i g sg m =
     (if is_rate_limited now g m then (m, Inl InvalidInput)
      else if length sg \<noteq> 64 then (record_failed_attempt now g m, Inl Crypto)
      else case map_of (rm_guardians m) g of
        None \<Rightarrow> (m, Inl InvalidInput)
      | Some k \<Rightarrow> (case rm_requests m i of
          None \<Rightarrow> (m, Inl InvalidInput)
        | Some r \<Rightarrow>
            if now < sq_expires_at r then (m, Inl InvalidInput)
            else if \<not> ed_verify E (gk_public k) (create_recovery_message r) (of_le_bytes sg) then (record_failed_attempt now g m, Inl Crypto)
            else let m' = reset_rate_limit g m
              in (m'\<lparr>rm_requests := (rm_requests m')(i \<mapsto> take_signature g sg r)\<rparr>, Inr ())))"

definition is_recovery_complete :: "string \<Rightarrow> recovery_manager \<Rightarrow> bool core_result" where
  "is_recovery_complete i m = (case rm_requests m i of None \<Rightarrow> Inl InvalidInput | Some r \<Rightarrow> Inr (sq_status r = SqCompleted))"

definition finalize_recovery :: "string \<Rightarrow> recovery_manager \<Rightarrow> u8 list core_result" where
  "finalize_recovery i m =
     (case rm_requests m i of
        None \<Rightarrow> Inl InvalidInput
      | Some r \<Rightarrow> if sq_status r \<noteq> SqCompleted then Inl InvalidInput else Inr (sq_new_key r))"

definition rm_cancel_recovery :: "string \<Rightarrow> recovery_manager \<Rightarrow> recovery_manager core_result" where
  "rm_cancel_recovery i m =
     (case rm_requests m i of
        None \<Rightarrow> Inl InvalidInput
      | Some r \<Rightarrow> Inr (m\<lparr>rm_requests := (rm_requests m)(i \<mapsto> r\<lparr>sq_status := SqCancelled\<rparr>)\<rparr>))"

definition get_recovery_status :: "string \<Rightarrow> recovery_manager \<Rightarrow> social_status core_result" where
  "get_recovery_status i m = (case rm_requests m i of None \<Rightarrow> Inl InvalidInput | Some r \<Rightarrow> Inr (sq_status r))"

definition cleanup_expired_requests :: "timestamp \<Rightarrow> int \<Rightarrow> recovery_manager \<Rightarrow> recovery_manager" where
  "cleanup_expired_requests now days m =
     m\<lparr>rm_requests := (\<lambda>i. case rm_requests m i of
        None \<Rightarrow> None
      | Some r \<Rightarrow> if sq_initiated_at r > now - duration_days days \<and> sq_status r \<noteq> SqCancelled \<and> sq_status r \<noteq> SqCompleted then Some r else None)\<rparr>"

section \<open>Approved recoveries\<close>

text \<open>Runs of the first manager, with the pairs of a user and a guardian that was ever added for the user, and the number of guardians the user of a request had when the
  request was made.\<close>

inductive guardian_run :: "int \<Rightarrow> guardian_manager \<Rightarrow> (user_id \<times> user_id) set \<Rightarrow> (string \<rightharpoonup> nat) \<Rightarrow> bool" for hrs where
  gr_new: "guardian_run hrs (guardian_manager_new hrs) {} Map.empty"
| gr_add: "guardian_run hrs m G N \<Longrightarrow> add_guardian u g m = (m', r) \<Longrightarrow> guardian_run hrs m' (insert (u, g_id g) G) N"
| gr_remove: "guardian_run hrs m G N \<Longrightarrow> remove_guardian u who m = Inr m' \<Longrightarrow> guardian_run hrs m' G N"
| gr_initiate: "guardian_run hrs m G N \<Longrightarrow> initiate_recovery now i u pk m = Inr m' \<Longrightarrow>
     guardian_run hrs m' G (N(i \<mapsto> length (get_guardians u m)))"
| gr_approve: "guardian_run hrs m G N \<Longrightarrow> approve_recovery now i who sg m = Inr m' \<Longrightarrow> guardian_run hrs m' G N"
| gr_execute: "guardian_run hrs m G N \<Longrightarrow> execute_recovery now i m = Inr (m', r) \<Longrightarrow> guardian_run hrs m' G N"
| gr_cancel: "guardian_run hrs m G N \<Longrightarrow> cancel_recovery i m = Inr m' \<Longrightarrow> guardian_run hrs m' G N"

definition approvers :: "recovery_request \<Rightarrow> user_id list" where
  "approvers r = map ga_guardian (rr_approvals r)"

text \<open>Two thirds of the guardians, rounded up.\<close>

definition two_thirds :: "nat \<Rightarrow> nat" where
  "two_thirds n = nat \<lceil>2 * real n / 3\<rceil>"

definition request_ok :: "int \<Rightarrow> (user_id \<times> user_id) set \<Rightarrow> nat option \<Rightarrow> recovery_request \<Rightarrow> bool" where
  "request_ok hrs G k r \<longleftrightarrow> (\<exists>n. k = Some n \<and> 0 < n \<and> rr_required r = two_thirds n) \<and> distinct (approvers r) \<and> (\<forall>g\<in>set (approvers r). (rr_user r, g) \<in> G)
     \<and> rr_timelock_until r = rr_created_at r + duration_hours hrs
     \<and> (rr_status r = RsTimelockActive \<longrightarrow> rr_required r \<le> length (approvers r))"

definition guardians_ok :: "int \<Rightarrow> guardian_manager \<Rightarrow> (user_id \<times> user_id) set \<Rightarrow> (string \<rightharpoonup> nat) \<Rightarrow> bool" where
  "guardians_ok hrs m G N \<longleftrightarrow> timelock_hours m = hrs \<and> (\<forall>u. \<forall>g\<in>set (get_guardians u m). (u, g_id g) \<in> G)
     \<and> (\<forall>i r. gm_requests m i = Some r \<longrightarrow> request_ok hrs G (N i) r)"

lemma required_approvals_two_thirds: "required_approvals gs = two_thirds (length gs)"
proof -
  let ?n = "length gs"
  have "\<lceil>2 * real ?n / 3\<rceil> = (2 * int ?n + 2) div 3"
    by (rule ceiling_unique) (use real_of_int_div4 [of "2 * int ?n + 2" 3] in \<open>linarith | simp\<close>)+
  then show ?thesis by (simp add: two_thirds_def required_approvals_def nat_div_distrib nat_add_distrib nat_mult_distrib)
qed

lemma request_ok_mono: "request_ok hrs G k r \<Longrightarrow> G \<subseteq> G' \<Longrightarrow> request_ok hrs G' k r"
  by (auto simp: request_ok_def)

text \<open>A change of one request keeps the invariant when the new request is in order.\<close>

lemma guardians_ok_put:
  "guardians_ok hrs m G N \<Longrightarrow> request_ok hrs G k r \<Longrightarrow> guardians_ok hrs (m\<lparr>gm_requests := (gm_requests m)(i \<mapsto> r)\<rparr>) G (N(i := k))"
  by (auto simp: guardians_ok_def get_guardians_def)

lemma approve_recoveryD:
  assumes "approve_recovery now i who sg m = Inr m'"
  obtains r r' where "gm_requests m i = Some r" and "m' = m\<lparr>gm_requests := (gm_requests m)(i \<mapsto> r')\<rparr>"
    and "who \<in> g_id ` set (get_guardians (rr_user r) m)" and "who \<notin> set (approvers r)"
    and "approvers r' = approvers r @ [who]" and "rr_required r' = rr_required r" and "rr_user r' = rr_user r"
    and "rr_timelock_until r' = rr_timelock_until r" and "rr_created_at r' = rr_created_at r"
    and "rr_status r' = RsTimelockActive \<Longrightarrow> rr_status r = RsTimelockActive \<or> rr_required r \<le> length (approvers r')"
proof -
  obtain r gs where r: "gm_requests m i = Some r" "user_guardians m (rr_user r) = Some gs"
    "list_ex (\<lambda>g. g_id g = who) gs" "\<not> list_ex (\<lambda>a. ga_guardian a = who) (rr_approvals r)"
    using assms by (auto simp: approve_recovery_def split: option.splits if_splits)
  let ?r = "r\<lparr>rr_approvals := rr_approvals r @ [\<lparr>ga_guardian = who, ga_approved = True, ga_signed_at = now, ga_signature = sg\<rparr>]\<rparr>"
  let ?r' = "if approval_count ?r \<ge> rr_required ?r then ?r\<lparr>rr_status := RsTimelockActive\<rparr> else ?r"
  have "m' = m\<lparr>gm_requests := (gm_requests m)(i \<mapsto> ?r')\<rparr>"
    using assms r by (simp add: approve_recovery_def Let_def split: if_splits)
  moreover have "who \<in> g_id ` set (get_guardians (rr_user r) m)" "who \<notin> set (approvers r)"
    using r by (force simp: list_ex_iff get_guardians_def approvers_def)+
  moreover have "approval_count ?r \<le> length (approvers ?r)" by (simp add: approval_count_def approvers_def)
  ultimately show ?thesis using r(1) by (intro that [of r ?r']) (auto simp: approvers_def)
qed

lemma guardians_ok_approve:
  assumes "guardians_ok hrs m G N" and "approve_recovery now i who sg m = Inr m'"
  shows "guardians_ok hrs m' G N"
  using assms(2)
proof (rule approve_recoveryD)
  fix r r'
  assume r: "gm_requests m i = Some r" and m': "m' = m\<lparr>gm_requests := (gm_requests m)(i \<mapsto> r')\<rparr>"
    and who: "who \<in> g_id ` set (get_guardians (rr_user r) m)" "who \<notin> set (approvers r)" and a: "approvers r' = approvers r @ [who]"
    and same: "rr_required r' = rr_required r" "rr_user r' = rr_user r" "rr_timelock_until r' = rr_timelock_until r" "rr_created_at r' = rr_created_at r"
    and st: "rr_status r' = RsTimelockActive \<Longrightarrow> rr_status r = RsTimelockActive \<or> rr_required r \<le> length (approvers r')"
  have "request_ok hrs G (N i) r" "(rr_user r, who) \<in> G" using assms(1) r who(1) by (auto simp: guardians_ok_def)
  then have "request_ok hrs G (N i) r'" using a same st who(2) by (auto simp: request_ok_def)
  then show ?thesis unfolding m' using guardians_ok_put [OF assms(1), of "N i" r' i] by simp
qed

lemma guardian_run_ok: "guardian_run hrs m G N \<Longrightarrow> guardians_ok hrs m G N"
proof (induction rule: guardian_run.induct)
  case gr_new
  then show ?case by (simp add: guardians_ok_def guardian_manager_new_def get_guardians_def)
next
  case (gr_add m G N u g m' r)
  have m': "timelock_hours m' = timelock_hours m" "gm_requests m' = gm_requests m" "set (get_guardians v m') \<subseteq> set (get_guardians v m) \<union> (if v = u then {g} else {})" for v
    using gr_add(2) by (auto simp: add_guardian_def get_guardians_def Let_def split: if_splits)
  have "(v, g_id g') \<in> insert (u, g_id g) G" if "g' \<in> set (get_guardians v m')" for v g'
    using that m'(3) [of v] gr_add.IH by (cases "v = u") (auto simp: guardians_ok_def)
  moreover have "request_ok hrs (insert (u, g_id g) G) (N j) q" if "gm_requests m j = Some q" for j q
    using that gr_add.IH request_ok_mono [OF _ subset_insertI] by (simp add: guardians_ok_def)
  ultimately show ?case using m'(1,2) gr_add.IH by (simp add: guardians_ok_def)
next
  case (gr_remove m G N u who m')
  then have "timelock_hours m' = timelock_hours m" "gm_requests m' = gm_requests m" "set (get_guardians v m') \<subseteq> set (get_guardians v m)" for v
    by (auto simp: remove_guardian_def get_guardians_def Let_def split: if_splits option.splits)
  then show ?case using gr_remove.IH by (auto simp: guardians_ok_def)
next
  case (gr_initiate m G N now i u pk m')
  obtain gs where gs: "gs \<noteq> []" "get_guardians u m = gs" "m' = m\<lparr>gm_requests := (gm_requests m)(i \<mapsto>
      \<lparr>rr_id = i, rr_user = u, rr_new_key = pk, rr_created_at = now, rr_timelock_until = now + duration_hours (timelock_hours m),
       rr_approvals = [], rr_required = required_approvals gs, rr_status = RsPending\<rparr>)\<rparr>"
    using gr_initiate(2) by (auto simp: initiate_recovery_def get_guardians_def split: option.splits if_splits)
  show ?case unfolding gs(2,3)
    using gr_initiate.IH gs(1) by (intro guardians_ok_put) (auto simp: request_ok_def guardians_ok_def approvers_def required_approvals_two_thirds)
next
  case (gr_approve m G N now i who sg m')
  then show ?case by (blast intro: guardians_ok_approve)
next
  case (gr_execute m G N now i m' r)
  then have "m' = m\<lparr>gm_requests := (gm_requests m)(i := None)\<rparr>" by (auto simp: execute_recovery_def split: sum.splits bool.splits option.splits)
  then show ?case using gr_execute.IH by (simp add: guardians_ok_def get_guardians_def)
next
  case (gr_cancel m G N i m')
  then obtain r where "gm_requests m i = Some r" "m' = m\<lparr>gm_requests := (gm_requests m)(i \<mapsto> r\<lparr>rr_status := RsCancelled\<rparr>)\<rparr>"
    by (auto simp: cancel_recovery_def split: option.splits)
  then show ?case using gr_cancel.IH guardians_ok_put [OF gr_cancel.IH, of "N i" "r\<lparr>rr_status := RsCancelled\<rparr>" i] by (auto simp: guardians_ok_def request_ok_def approvers_def)
qed

text \<open>C24. An account is recovered only in the name of its guardians and not before the timelock: when a recovery is executed, its user had at least one guardian when it was
  requested, the number of approvals required is two thirds of that number of guardians, rounded up, at least that many different users have approved it in their name, each of them
  entered as a guardian of the user at some time, and the hours of the timelock have passed since it was requested. The code takes the name of the approving guardian from the caller
  and never verifies the signature of an approval.\<close>

theorem recovery_needs_guardians:
  assumes "guardian_run hrs m G N" and "execute_recovery now i m = Inr (m', r)"
  shows "\<exists>n. N i = Some n \<and> 0 < n \<and> rr_required r = nat \<lceil>2 * real n / 3\<rceil> \<and> 2 * n \<le> 3 * card (set (approvers r))
    \<and> rr_required r \<le> card (set (approvers r)) \<and> (\<forall>g\<in>set (approvers r). (rr_user r, g) \<in> G)
    \<and> rr_created_at r + duration_hours hrs \<le> now"
proof -
  obtain r0 where r0: "gm_requests m i = Some r0" "rr_status r0 = RsTimelockActive" "rr_timelock_until r0 \<le> now" "r = r0\<lparr>rr_status := RsExecuted\<rparr>"
    using assms(2) by (auto simp: execute_recovery_def can_execute_recovery_def split: sum.splits bool.splits option.splits if_splits)
  then have ok: "request_ok hrs G (N i) r0" using guardian_run_ok [OF assms(1)] by (simp add: guardians_ok_def)
  then obtain n where n: "N i = Some n" "0 < n" "rr_required r = nat \<lceil>2 * real n / 3\<rceil>" by (auto simp: request_ok_def two_thirds_def r0(4))
  have "approvers r = approvers r0" by (simp add: r0(4) approvers_def)
  then have c: "rr_required r \<le> card (set (approvers r))" "\<forall>g\<in>set (approvers r). (rr_user r, g) \<in> G" "rr_created_at r + duration_hours hrs \<le> now"
    using ok r0 by (auto simp: request_ok_def distinct_card)
  have "2 * real n / 3 \<le> real (rr_required r)" unfolding n(3) by linarith
  then have "2 * n \<le> 3 * card (set (approvers r))" using c(1) by linarith
  then show ?thesis using n c by blast
qed

text \<open>The signature of an approval is stored and never verified: any bytes serve.\<close>

theorem approval_signature_unchecked:
  assumes "approve_recovery now i who sg m = Inr m'"
  shows "\<exists>m''. approve_recovery now i who sg' m = Inr m''"
  using assms by (auto simp: approve_recovery_def Let_def split: option.splits if_splits)

section \<open>Signed recoveries\<close>

text \<open>Runs of the second manager, with the keys that were ever registered for a guardian.\<close>

inductive recovery_run :: "ed25519 \<Rightarrow> recovery_manager \<Rightarrow> (guardian_id \<times> hash32) set \<Rightarrow> bool" for E where
  rn_new: "recovery_run E (recovery_manager_new n) {}"
| rn_add: "recovery_run E m K \<Longrightarrow> rm_add_guardian k m = Inr m' \<Longrightarrow> recovery_run E m' (insert (gk_id k, gk_public k) K)"
| rn_remove: "recovery_run E m K \<Longrightarrow> rm_remove_guardian g m = (m', res) \<Longrightarrow> recovery_run E m' K"
| rn_initiate: "recovery_run E m K \<Longrightarrow> rm_initiate_recovery now ident pk hours m = Inr (m', i) \<Longrightarrow> recovery_run E m' K"
| rn_sign: "recovery_run E m K \<Longrightarrow> add_guardian_signature E now i g sg m = (m', res) \<Longrightarrow> recovery_run E m' K"
| rn_cancel: "recovery_run E m K \<Longrightarrow> rm_cancel_recovery i m = Inr m' \<Longrightarrow> recovery_run E m' K"
| rn_cleanup: "recovery_run E m K \<Longrightarrow> recovery_run E (cleanup_expired_requests now days m) K"

text \<open>A stored signature of a guardian: its bytes verify on the message of the request under a key that was registered for the guardian.\<close>

definition signed_by :: "ed25519 \<Rightarrow> (guardian_id \<times> hash32) set \<Rightarrow> social_request \<Rightarrow> guardian_id \<Rightarrow> u8 list \<Rightarrow> bool" where
  "signed_by E K r g s \<longleftrightarrow> length s = 64 \<and> (\<exists>pk. (g, pk) \<in> K \<and> ed_verify E pk (create_recovery_message r) (of_le_bytes s))"

definition social_ok :: "ed25519 \<Rightarrow> (guardian_id \<times> hash32) set \<Rightarrow> social_request \<Rightarrow> bool" where
  "social_ok E K r \<longleftrightarrow> distinct (map fst (sq_signatures r)) \<and> (\<forall>(g, s)\<in>set (sq_signatures r). signed_by E K r g s)
     \<and> (sq_status r = SqCompleted \<longrightarrow> sq_required r \<le> length (sq_signatures r))"

definition recovery_ok :: "ed25519 \<Rightarrow> recovery_manager \<Rightarrow> (guardian_id \<times> hash32) set \<Rightarrow> bool" where
  "recovery_ok E m K \<longleftrightarrow> (\<forall>g k. map_of (rm_guardians m) g = Some k \<longrightarrow> (g, gk_public k) \<in> K) \<and> (\<forall>i r. rm_requests m i = Some r \<longrightarrow> social_ok E K r)"

lemma social_ok_mono: "social_ok E K r \<Longrightarrow> K \<subseteq> K' \<Longrightarrow> social_ok E K' r"
  unfolding social_ok_def signed_by_def by fast

lemma take_signature_fields:
  "sq_signatures (take_signature g sg r) = AList.update g sg (sq_signatures r)" "create_recovery_message (take_signature g sg r) = create_recovery_message r"
  "sq_required (take_signature g sg r) = sq_required r"
  "sq_status (take_signature g sg r) = SqCompleted \<Longrightarrow> sq_status r = SqCompleted \<or> sq_required r \<le> length (AList.update g sg (sq_signatures r))"
  by (simp_all add: take_signature_def create_recovery_message_def Let_def split: if_splits)

lemma length_update_mono: "length xs \<le> length (AList.update g x xs)"
  by (induction xs) auto

lemma set_update_subset: "set (AList.update g x xs) \<subseteq> insert (g, x) (set xs)"
  by (induction xs) auto

lemma take_signature_ok:
  assumes "social_ok E K r" and "signed_by E K r g sg"
  shows "social_ok E K (take_signature g sg r)"
proof -
  have "signed_by E K (take_signature g sg r) h s = signed_by E K r h s" for h s by (simp add: signed_by_def take_signature_fields)
  moreover have "\<forall>(h, s)\<in>set (AList.update g sg (sq_signatures r)). signed_by E K r h s"
    using assms set_update_subset [of g sg "sq_signatures r"] unfolding social_ok_def by fast
  moreover have "distinct (map fst (AList.update g sg (sq_signatures r)))" using assms(1) by (simp add: social_ok_def AList.distinct_update)
  moreover have "sq_required r \<le> length (AList.update g sg (sq_signatures r))" if "sq_status (take_signature g sg r) = SqCompleted"
    using take_signature_fields(4) [OF that] assms(1) length_update_mono [of "sq_signatures r" g sg] by (auto simp: social_ok_def)
  ultimately show ?thesis using assms by (simp add: social_ok_def take_signature_fields)
qed

lemma add_guardian_signature_cases:
  assumes "add_guardian_signature E now i g sg m = (m', res)"
  obtains (refused) e where "res = Inl e" and "rm_requests m' = rm_requests m" and "rm_guardians m' = rm_guardians m"
  | (taken) k r where "res = Inr ()" and "map_of (rm_guardians m) g = Some k" and "rm_requests m i = Some r" and "sq_expires_at r \<le> now" and "length sg = 64"
      and "ed_verify E (gk_public k) (create_recovery_message r) (of_le_bytes sg)"
      and "rm_requests m' = (rm_requests m)(i \<mapsto> take_signature g sg r)" and "rm_guardians m' = rm_guardians m"
proof -
  have fail: "rm_requests (record_failed_attempt now g m) = rm_requests m" "rm_guardians (record_failed_attempt now g m) = rm_guardians m"
    by (simp_all add: record_failed_attempt_def Let_def)
  have "(\<exists>e. res = Inl e \<and> rm_requests m' = rm_requests m \<and> rm_guardians m' = rm_guardians m)
    \<or> (\<exists>k r. res = Inr () \<and> map_of (rm_guardians m) g = Some k \<and> rm_requests m i = Some r \<and> sq_expires_at r \<le> now \<and> length sg = 64
        \<and> ed_verify E (gk_public k) (create_recovery_message r) (of_le_bytes sg)
        \<and> rm_requests m' = (rm_requests m)(i \<mapsto> take_signature g sg r) \<and> rm_guardians m' = rm_guardians m)"
    using assms fail by (auto simp: add_guardian_signature_def reset_rate_limit_def Let_def split: if_splits option.splits)
  then show ?thesis using refused taken by blast
qed

lemma recovery_run_ok: "recovery_run E m K \<Longrightarrow> recovery_ok E m K"
proof (induction rule: recovery_run.induct)
  case (rn_new n)
  then show ?case by (simp add: recovery_ok_def recovery_manager_new_def)
next
  case (rn_add m K k m')
  have m': "rm_requests m' = rm_requests m" "rm_guardians m' = (gk_id k, k) # rm_guardians m"
    using rn_add(2) by (auto simp: rm_add_guardian_def set_guardians_def split: if_splits)
  have "social_ok E (insert (gk_id k, gk_public k) K) r" if "rm_requests m i = Some r" for i r
    using that rn_add.IH social_ok_mono [OF _ subset_insertI] by (simp add: recovery_ok_def)
  then show ?case using rn_add.IH by (auto simp: recovery_ok_def m')
next
  case (rn_remove m K g m' res)
  have "rm_requests m' = rm_requests m" "rm_guardians m' = rm_guardians m \<or> rm_guardians m' = AList.delete g (rm_guardians m)"
    using rn_remove(2) by (auto simp: rm_remove_guardian_def set_guardians_def Let_def split: if_splits)
  then show ?case using rn_remove.IH by (auto simp: recovery_ok_def AList.delete_conv' split: if_splits)
next
  case (rn_initiate m K now ident pk hours m' i)
  then obtain r where "m' = m\<lparr>rm_requests := (rm_requests m)(i \<mapsto> r)\<rparr>" "sq_signatures r = []" "sq_status r = SqPending"
    by (fastforce simp: rm_initiate_recovery_def Let_def split: if_splits)
  then show ?case using rn_initiate.IH by (auto simp: recovery_ok_def social_ok_def)
next
  case (rn_sign m K now i g sg m' res)
  from rn_sign(2) show ?case
  proof (cases rule: add_guardian_signature_cases)
    case (refused e)
    then show ?thesis using rn_sign.IH by (simp add: recovery_ok_def)
  next
    case (taken k r)
    then have "social_ok E K r" "signed_by E K r g sg" using rn_sign.IH by (auto simp: recovery_ok_def signed_by_def)
    then have "social_ok E K (take_signature g sg r)" by (rule take_signature_ok)
    then show ?thesis using rn_sign.IH taken by (simp add: recovery_ok_def)
  qed
next
  case (rn_cancel m K i m')
  then obtain r where r: "rm_requests m i = Some r" "m' = m\<lparr>rm_requests := (rm_requests m)(i \<mapsto> r\<lparr>sq_status := SqCancelled\<rparr>)\<rparr>"
    by (auto simp: rm_cancel_recovery_def split: option.splits)
  then have "social_ok E K r" using rn_cancel.IH by (simp add: recovery_ok_def)
  then have "social_ok E K (r\<lparr>sq_status := SqCancelled\<rparr>)" by (simp add: social_ok_def signed_by_def create_recovery_message_def)
  then show ?case using rn_cancel.IH by (simp add: recovery_ok_def r(2))
next
  case (rn_cleanup m K now days)
  then show ?case by (auto simp: recovery_ok_def cleanup_expired_requests_def split: option.splits if_splits)
qed

text \<open>C23. A new device key is handed out only with the signatures: the request it belongs to stores signatures of at least the required number of different guardians, and the
  stored bytes of every one of them verify, under a key registered for that guardian at some time, on the message of the request, which names the identity, the new key and the end of
  the timelock.\<close>

theorem recovery_key_signed:
  assumes "recovery_run E m K" and "finalize_recovery i m = Inr pk"
  shows "\<exists>r. rm_requests m i = Some r \<and> sq_new_key r = pk \<and> sq_required r \<le> card (fst ` set (sq_signatures r))
    \<and> (\<forall>(g, s)\<in>set (sq_signatures r). length s = 64 \<and> (\<exists>gk. (g, gk) \<in> K \<and> ed_verify E gk
          (string_bytes (''RECOVERY:'' @ sq_identity r @ '':'' @ hex_encode pk @ '':'' @ show_int (unix_seconds (sq_expires_at r)))) (of_le_bytes s)))"
proof -
  obtain r where r: "rm_requests m i = Some r" "sq_status r = SqCompleted" "sq_new_key r = pk"
    using assms(2) by (auto simp: finalize_recovery_def split: option.splits if_splits)
  then have ok: "social_ok E K r" using recovery_run_ok [OF assms(1)] by (simp add: recovery_ok_def)
  then have "card (fst ` set (sq_signatures r)) = length (sq_signatures r)"
    unfolding social_ok_def by (metis distinct_card length_map set_map)
  then have "sq_required r \<le> card (fst ` set (sq_signatures r))" using ok r(2) by (simp add: social_ok_def)
  moreover have "\<forall>(g, s)\<in>set (sq_signatures r). signed_by E K r g s" using ok by (simp add: social_ok_def)
  ultimately show ?thesis using r(1,3) unfolding signed_by_def create_recovery_message_def by blast
qed

text \<open>No signature is taken before the timelock of the request has run out, and a refused call changes no request.\<close>

theorem signature_respects_timelock:
  assumes "add_guardian_signature E now i g sg m = (m', res)" and "rm_requests m' \<noteq> rm_requests m"
  shows "\<exists>r. rm_requests m i = Some r \<and> sq_expires_at r \<le> now \<and> res = Inr ()"
  using assms(1) by (cases rule: add_guardian_signature_cases) (use assms(2) in auto)

text \<open>Cancelling does not hold: a signature is taken whatever the status of the request, and one that completes the number required turns a cancelled request into a completed
  one, whose key is then handed out.\<close>

theorem cancelled_recovery_completes:
  assumes "rm_cancel_recovery i m = Inr m1" and "rm_requests m i = Some r" and "map_of (rm_guardians m) g = Some k" and "\<not> is_rate_limited now g m" and "sq_expires_at r \<le> now"
    and "length sg = 64" and "ed_verify E (gk_public k) (create_recovery_message r) (of_le_bytes sg)" and "sq_required r \<le> length (AList.update g sg (sq_signatures r))"
  shows "\<exists>m2. add_guardian_signature E now i g sg m1 = (m2, Inr ()) \<and> finalize_recovery i m2 = Inr (sq_new_key r)"
proof -
  have m1: "m1 = m\<lparr>rm_requests := (rm_requests m)(i \<mapsto> r\<lparr>sq_status := SqCancelled\<rparr>)\<rparr>" using assms(1,2) by (simp add: rm_cancel_recovery_def)
  have "create_recovery_message (r\<lparr>sq_status := SqCancelled\<rparr>) = create_recovery_message r" by (simp add: create_recovery_message_def)
  then show ?thesis
    using assms by (simp add: m1 add_guardian_signature_def is_rate_limited_def reset_rate_limit_def finalize_recovery_def take_signature_def Let_def)
qed

text \<open>Anyone can lock a guardian out: failed attempts are booked on the guardian that the caller names, so five calls with an empty signature keep the guardian's own
  signatures from being taken for an hour.\<close>

theorem guardian_locked_by_anyone:
  assumes "rate_limits m g = None" and "now \<le> t" and "t < now + duration_seconds 3600"
  shows "snd (add_guardian_signature E t i' g sg (((\<lambda>m. fst (add_guardian_signature E now i g [] m)) ^^ 5) m)) = Inl InvalidInput"
proof -
  let ?f = "\<lambda>m. fst (add_guardian_signature E now i g [] m)"
  have step: "rate_limits (?f m') g = Some \<lparr>failed_attempts = n + 1, last_failed_at = Some now,
      rl_locked_until = (if n + 1 \<ge> 5 then Some (now + duration_seconds 3600) else None)\<rparr>"
    if "rate_limits m' g = Some \<lparr>failed_attempts = n, last_failed_at = l, rl_locked_until = None\<rparr>" for m' n l
    using that by (simp add: add_guardian_signature_def is_rate_limited_def record_failed_attempt_def MAX_FAILED_ATTEMPTS_def LOCKOUT_DURATION_SECS_def Let_def)
  have "rate_limits (?f m) g = Some \<lparr>failed_attempts = 1, last_failed_at = Some now, rl_locked_until = None\<rparr>"
    using assms(1) by (simp add: add_guardian_signature_def is_rate_limited_def record_failed_attempt_def rate_limit_default_def MAX_FAILED_ATTEMPTS_def word_le_nat_alt Let_def)
  from step [OF this] have "rate_limits (?f (?f m)) g = Some \<lparr>failed_attempts = 2, last_failed_at = Some now, rl_locked_until = None\<rparr>" by simp
  from step [OF this] have "rate_limits (?f (?f (?f m))) g = Some \<lparr>failed_attempts = 3, last_failed_at = Some now, rl_locked_until = None\<rparr>" by simp
  from step [OF this] have "rate_limits (?f (?f (?f (?f m)))) g = Some \<lparr>failed_attempts = 4, last_failed_at = Some now, rl_locked_until = None\<rparr>" by simp
  from step [OF this] have "rate_limits (?f (?f (?f (?f (?f m))))) g = Some \<lparr>failed_attempts = 5, last_failed_at = Some now, rl_locked_until = Some (now + duration_seconds 3600)\<rparr>" by simp
  then have "is_rate_limited t g ((?f ^^ 5) m)" using assms(3) by (simp add: is_rate_limited_def numeral_eq_Suc)
  then show ?thesis by (simp add: add_guardian_signature_def)
qed

text \<open>Removing a guardian that the threshold needs reports an error and removes it.\<close>

lemma refused_removal_removes:
  assumes "map_of (rm_guardians m) g = Some k" and "length (AList.delete g (rm_guardians m)) < gt_required (rm_threshold m)"
  shows "\<exists>m'. rm_remove_guardian g m = (m', Inl InvalidInput) \<and> map_of (rm_guardians m') g = None"
  using assms by (simp add: rm_remove_guardian_def set_guardians_def AList.delete_conv')

section \<open>Examples\<close>

text \<open>User 1 with three guardians, two of whom approve; the recovery is executed a day after it was requested.\<close>

definition demo_guardian :: "user_id \<Rightarrow> guardian" where
  "demo_guardian u = \<lparr>g_id = u, g_key = [], g_added_at = 0, g_trusted = True\<rparr>"

definition demo_recovery :: "user_id list \<Rightarrow> recovery_status \<Rightarrow> recovery_request" where
  "demo_recovery us s = \<lparr>rr_id = ''r'', rr_user = 1, rr_new_key = [9], rr_created_at = 0, rr_timelock_until = duration_hours 24,
     rr_approvals = map (\<lambda>u. \<lparr>ga_guardian = u, ga_approved = True, ga_signed_at = 0, ga_signature = []\<rparr>) us, rr_required = 2, rr_status = s\<rparr>"

definition demo_gm :: "user_id list \<Rightarrow> recovery_request option \<Rightarrow> guardian_manager" where
  "demo_gm us q = \<lparr>user_guardians = [1 \<mapsto> map demo_guardian us], gm_requests = Map.empty(''r'' := q), timelock_hours = 24\<rparr>"

lemmas demo_gm_defs = demo_gm_def demo_guardian_def demo_recovery_def get_guardians_def Let_def

lemma demo_gm_steps:
  "add_guardian 1 (demo_guardian 11) (guardian_manager_new 24) = (demo_gm [11] None, Inr ())"
  "add_guardian 1 (demo_guardian 12) (demo_gm [11] None) = (demo_gm [11, 12] None, Inr ())"
  "add_guardian 1 (demo_guardian 13) (demo_gm [11, 12] None) = (demo_gm [11, 12, 13] None, Inr ())"
  "initiate_recovery 0 ''r'' 1 [9] (demo_gm [11, 12, 13] None) = Inr (demo_gm [11, 12, 13] (Some (demo_recovery [] RsPending)))"
  "approve_recovery 0 ''r'' 11 [] (demo_gm [11, 12, 13] (Some (demo_recovery [] RsPending))) = Inr (demo_gm [11, 12, 13] (Some (demo_recovery [11] RsPending)))"
  "approve_recovery 0 ''r'' 12 [] (demo_gm [11, 12, 13] (Some (demo_recovery [11] RsPending))) = Inr (demo_gm [11, 12, 13] (Some (demo_recovery [11, 12] RsTimelockActive)))"
  "execute_recovery (duration_hours 24) ''r'' (demo_gm [11, 12, 13] (Some (demo_recovery [11, 12] RsTimelockActive))) = Inr (demo_gm [11, 12, 13] None, demo_recovery [11, 12] RsExecuted)"
  by (simp_all add: add_guardian_def guardian_manager_new_def initiate_recovery_def required_approvals_def approve_recovery_def approval_count_def
      execute_recovery_def can_execute_recovery_def demo_gm_defs)

theorem recovery_needs_guardians_witness:
  "2 * 3 \<le> 3 * card (set (approvers (demo_recovery [11, 12] RsExecuted))) \<and> rr_created_at (demo_recovery [11, 12] RsExecuted) + duration_hours 24 \<le> duration_hours 24"
proof -
  have "guardian_run 24 (demo_gm [11, 12, 13] (Some (demo_recovery [11, 12] RsTimelockActive)))
     (insert (1, g_id (demo_guardian 13)) (insert (1, g_id (demo_guardian 12)) (insert (1, g_id (demo_guardian 11)) {})))
     (Map.empty(''r'' \<mapsto> length (get_guardians 1 (demo_gm [11, 12, 13] None))))"
    by (intro gr_approve [OF _ demo_gm_steps(6)] gr_approve [OF _ demo_gm_steps(5)] gr_initiate [OF _ demo_gm_steps(4)] gr_add [OF _ demo_gm_steps(3)]
        gr_add [OF _ demo_gm_steps(2)] gr_add [OF _ demo_gm_steps(1)] gr_new)
  moreover have "length (get_guardians 1 (demo_gm [11, 12, 13] None)) = 3" by (simp add: get_guardians_def demo_gm_def)
  ultimately show ?thesis using recovery_needs_guardians [OF _ demo_gm_steps(7)] by fastforce
qed

theorem approval_signature_unchecked_witness:
  "\<exists>m''. approve_recovery 0 ''r'' 11 [1, 2, 3] (demo_gm [11, 12, 13] (Some (demo_recovery [] RsPending))) = Inr m''"
  by (rule approval_signature_unchecked [OF demo_gm_steps(5)])

text \<open>One guardian whose key is 5; a recovery without delay that it signs.\<close>

definition demo_gk :: guardian_key where
  "demo_gk = \<lparr>gk_id = ''g'', gk_public = 5, gk_added_at = 0\<rparr>"

definition demo_social :: "(guardian_id \<times> u8 list) list \<Rightarrow> social_status \<Rightarrow> social_request" where
  "demo_social ss s = \<lparr>sq_id = ''recovery-a-0'', sq_identity = ''a'', sq_new_key = [9], sq_initiated_at = 0, sq_expires_at = 0, sq_required = 1, sq_signatures = ss, sq_status = s\<rparr>"

definition demo_sig :: "u8 list" where
  "demo_sig = signature_to_bytes (ed_sign toy_ed25519 5 (create_recovery_message (demo_social [] SqPending)))"

definition demo_rm :: "(guardian_id \<times> guardian_key) list \<Rightarrow> social_request option \<Rightarrow> recovery_manager" where
  "demo_rm gs q = \<lparr>rm_guardians = gs, rm_requests = Map.empty(''recovery-a-0'' := q), rm_threshold = \<lparr>gt_required = 1, gt_total = length gs\<rparr>, rate_limits = Map.empty\<rparr>"

lemma demo_sig_verifies: "length demo_sig = 64" "ed_verify toy_ed25519 5 (create_recovery_message (demo_social ss s)) (of_le_bytes demo_sig)"
proof -
  show "length demo_sig = 64" by (simp add: demo_sig_def signature_to_bytes_def)
  have "ed_public toy_ed25519 5 = 5" by (simp add: toy_ed25519_def)
  moreover have "create_recovery_message (demo_social ss s) = create_recovery_message (demo_social [] SqPending)"
    by (simp add: create_recovery_message_def demo_social_def)
  ultimately show "ed_verify toy_ed25519 5 (create_recovery_message (demo_social ss s)) (of_le_bytes demo_sig)"
    using toy_signs_correctly by (simp add: demo_sig_def signs_correctly_def signature_to_bytes_def of_le_bytes_le_bytes) metis
qed

lemma show_zero: "show_int (unix_seconds 0) = ''0''"
  by code_simp

lemma demo_rm_steps:
  "recovery_manager_new 1 = demo_rm [] None"
  "rm_add_guardian demo_gk (demo_rm [] None) = Inr (demo_rm [(''g'', demo_gk)] None)"
  "rm_initiate_recovery 0 ''a'' [9] 0 (demo_rm [(''g'', demo_gk)] None) = Inr (demo_rm [(''g'', demo_gk)] (Some (demo_social [] SqPending)), ''recovery-a-0'')"
  "add_guardian_signature toy_ed25519 0 ''recovery-a-0'' ''g'' demo_sig (demo_rm [(''g'', demo_gk)] (Some (demo_social [] SqPending)))
     = (demo_rm [(''g'', demo_gk)] (Some (demo_social [(''g'', demo_sig)] SqCompleted)), Inr ())"
  using demo_sig_verifies
  by (simp_all add: recovery_manager_new_def demo_rm_def rm_add_guardian_def set_guardians_def demo_gk_def rm_initiate_recovery_def duration_hours_def duration_seconds_def
      show_zero add_guardian_signature_def is_rate_limited_def reset_rate_limit_def Let_def)
    (simp_all add: demo_social_def take_signature_def)

theorem recovery_key_signed_witness:
  "\<exists>gk. (''g'', gk) \<in> {(gk_id demo_gk, gk_public demo_gk)}
    \<and> ed_verify toy_ed25519 gk (string_bytes (''RECOVERY:'' @ ''a'' @ '':'' @ hex_encode [9] @ '':'' @ show_int (unix_seconds 0))) (of_le_bytes demo_sig)"
proof -
  have "recovery_run toy_ed25519 (demo_rm [] None) {}" using rn_new [of toy_ed25519 1] unfolding demo_rm_steps(1) .
  from rn_sign [OF rn_initiate [OF rn_add [OF this demo_rm_steps(2)] demo_rm_steps(3)] demo_rm_steps(4)]
  have run: "recovery_run toy_ed25519 (demo_rm [(''g'', demo_gk)] (Some (demo_social [(''g'', demo_sig)] SqCompleted))) {(gk_id demo_gk, gk_public demo_gk)}" .
  have "finalize_recovery ''recovery-a-0'' (demo_rm [(''g'', demo_gk)] (Some (demo_social [(''g'', demo_sig)] SqCompleted))) = Inr [9]"
    by (simp add: finalize_recovery_def demo_rm_def demo_social_def)
  from recovery_key_signed [OF run this] show ?thesis by (auto simp: demo_rm_def demo_social_def)
qed

theorem signature_respects_timelock_witness:
  "\<exists>r. rm_requests (demo_rm [(''g'', demo_gk)] (Some (demo_social [] SqPending))) ''recovery-a-0'' = Some r \<and> sq_expires_at r \<le> 0"
  using signature_respects_timelock [OF demo_rm_steps(4)] by (auto simp: demo_rm_def demo_social_def)

theorem cancelled_recovery_completes_witness:
  "\<exists>m1 m2. rm_cancel_recovery ''recovery-a-0'' (demo_rm [(''g'', demo_gk)] (Some (demo_social [] SqPending))) = Inr m1
    \<and> add_guardian_signature toy_ed25519 0 ''recovery-a-0'' ''g'' demo_sig m1 = (m2, Inr ()) \<and> finalize_recovery ''recovery-a-0'' m2 = Inr [9]"
proof -
  let ?m = "demo_rm [(''g'', demo_gk)] (Some (demo_social [] SqPending))"
  obtain m1 where c: "rm_cancel_recovery ''recovery-a-0'' ?m = Inr m1" by (simp add: rm_cancel_recovery_def demo_rm_def)
  have "\<exists>m2. add_guardian_signature toy_ed25519 0 ''recovery-a-0'' ''g'' demo_sig m1 = (m2, Inr ()) \<and> finalize_recovery ''recovery-a-0'' m2 = Inr (sq_new_key (demo_social [] SqPending))"
    using demo_sig_verifies
    by (intro cancelled_recovery_completes [OF c, where k = demo_gk]) (simp_all add: demo_rm_def is_rate_limited_def demo_gk_def, simp_all add: demo_social_def)
  then show ?thesis using c by (auto simp: demo_social_def)
qed

theorem guardian_locked_by_anyone_witness:
  "snd (add_guardian_signature toy_ed25519 1 ''recovery-a-0'' ''g'' demo_sig
     (((\<lambda>m. fst (add_guardian_signature toy_ed25519 0 ''x'' ''g'' [] m)) ^^ 5) (demo_rm [(''g'', demo_gk)] (Some (demo_social [] SqPending))))) = Inl InvalidInput"
  by (rule guardian_locked_by_anyone) (simp_all add: demo_rm_def duration_seconds_def)

end
