(* ===== verification/Market_Escrow.thy ===== *)
theory Market_Escrow
  imports Chain_Core
begin

text \<open>
  The escrows of the off-chain marketplace: \<^verbatim>\<open>crates/dchat-marketplace/src/escrow.rs\<close>. Two-party and multi-party escrows, disputes and
  expiry. Each operation takes the lock for its whole body; clock and ids are arguments, and so is the order in which a hash map is iterated.
\<close>

section \<open>Data and operations\<close>

type_synonym escrow_uuid = "128 word"

datatype market_error = MeEscrowNotFound | MeInvalidEscrowState | MeUnauthorized

datatype mk_state = MkLocked | MkAwaitingRelease | MkDisputed | MkReleased | MkRefunded | MkExpired

datatype escrow_type = TwoParty user_id user_id | MultiParty user_id "(user_id \<times> u64) list"

datatype dispute_reason = ItemNotReceived | ItemNotAsDescribed | SellerUnresponsive | BuyerUnresponsive | QualityIssue | OtherReason string

datatype dispute_resolution = ReleaseFunds | RefundFull | PartialRefund u64

record market_dispute =
  raised_by :: user_id
  dispute_reason_of :: dispute_reason
  dispute_text :: string
  raised_at :: timestamp
  resolution :: "dispute_resolution option"
  resolved_at :: "timestamp option"

record market_escrow =
  me_id :: escrow_uuid
  me_listing :: escrow_uuid
  me_type :: escrow_type
  me_amount :: u64
  me_state :: mk_state
  me_created_at :: timestamp
  me_locked_until :: timestamp
  me_dispute :: "market_dispute option"

type_synonym escrow_manager = "escrow_uuid \<rightharpoonup> market_escrow"

definition escrow_manager_new :: escrow_manager where
  "escrow_manager_new = Map.empty"

definition create_two_party_escrow ::
    "timestamp \<Rightarrow> escrow_uuid \<Rightarrow> escrow_uuid \<Rightarrow> user_id \<Rightarrow> user_id \<Rightarrow> u64 \<Rightarrow> u64 \<Rightarrow> escrow_manager \<Rightarrow> escrow_manager" where
  "create_two_party_escrow now i l buyer seller x secs m =
     m(i \<mapsto> \<lparr>me_id = i, me_listing = l, me_type = TwoParty buyer seller, me_amount = x, me_state = MkLocked, me_created_at = now,
             me_locked_until = now + duration_seconds (sint secs), me_dispute = None\<rparr>)"

definition create_multi_party_escrow ::
    "timestamp \<Rightarrow> escrow_uuid \<Rightarrow> escrow_uuid \<Rightarrow> user_id \<Rightarrow> (user_id \<times> u64) list \<Rightarrow> u64 \<Rightarrow> escrow_manager \<Rightarrow> escrow_manager" where
  "create_multi_party_escrow now i l buyer rs secs m =
     m(i \<mapsto> \<lparr>me_id = i, me_listing = l, me_type = MultiParty buyer rs, me_amount = sum_list (map snd rs), me_state = MkLocked, me_created_at = now,
             me_locked_until = now + duration_seconds (sint secs), me_dispute = None\<rparr>)"

definition mark_awaiting_release :: "escrow_uuid \<Rightarrow> escrow_manager \<Rightarrow> market_error + escrow_manager" where
  "mark_awaiting_release i m =
     (case m i of
        None \<Rightarrow> Inl MeEscrowNotFound
      | Some e \<Rightarrow> if me_state e \<noteq> MkLocked then Inl MeInvalidEscrowState else Inr (m(i \<mapsto> e\<lparr>me_state := MkAwaitingRelease\<rparr>)))"

fun buyer_of :: "escrow_type \<Rightarrow> user_id" where
  "buyer_of (TwoParty b _) = b"
| "buyer_of (MultiParty b _) = b"

fun is_seller :: "user_id \<Rightarrow> escrow_type \<Rightarrow> bool" where
  "is_seller u (TwoParty _ s) = (s = u)"
| "is_seller u (MultiParty _ rs) = list_ex (\<lambda>p. fst p = u) rs"

definition release_funds :: "escrow_uuid \<Rightarrow> user_id \<Rightarrow> escrow_manager \<Rightarrow> market_error + escrow_manager" where
  "release_funds i u m =
     (case m i of
        None \<Rightarrow> Inl MeEscrowNotFound
      | Some e \<Rightarrow>
          if buyer_of (me_type e) \<noteq> u then Inl MeUnauthorized
          else if me_state e \<noteq> MkAwaitingRelease then Inl MeInvalidEscrowState
          else Inr (m(i \<mapsto> e\<lparr>me_state := MkReleased\<rparr>)))"

definition raise_dispute :: "timestamp \<Rightarrow> escrow_uuid \<Rightarrow> user_id \<Rightarrow> dispute_reason \<Rightarrow> string \<Rightarrow> escrow_manager \<Rightarrow> market_error + escrow_manager" where
  "raise_dispute now i u why descr m =
     (case m i of
        None \<Rightarrow> Inl MeEscrowNotFound
      | Some e \<Rightarrow>
          if me_state e \<noteq> MkLocked \<and> me_state e \<noteq> MkAwaitingRelease then Inl MeInvalidEscrowState
          else if \<not> (u = buyer_of (me_type e) \<or> is_seller u (me_type e)) then Inl MeUnauthorized
          else Inr (m(i \<mapsto> e\<lparr>me_state := MkDisputed, me_dispute := Some \<lparr>raised_by = u, dispute_reason_of = why, dispute_text = descr, raised_at = now,
                                                                      resolution = None, resolved_at = None\<rparr>\<rparr>)))"

definition state_after :: "dispute_resolution \<Rightarrow> mk_state" where
  "state_after r = (case r of ReleaseFunds \<Rightarrow> MkReleased | RefundFull \<Rightarrow> MkRefunded | PartialRefund _ \<Rightarrow> MkRefunded)"

definition resolve_dispute :: "timestamp \<Rightarrow> escrow_uuid \<Rightarrow> dispute_resolution \<Rightarrow> escrow_manager \<Rightarrow> market_error + escrow_manager" where
  "resolve_dispute now i r m =
     (case m i of
        None \<Rightarrow> Inl MeEscrowNotFound
      | Some e \<Rightarrow>
          if me_state e \<noteq> MkDisputed then Inl MeInvalidEscrowState
          else case me_dispute e of
            None \<Rightarrow> Inl MeInvalidEscrowState
          | Some d \<Rightarrow> Inr (m(i \<mapsto> e\<lparr>me_dispute := Some (d\<lparr>resolution := Some r, resolved_at := Some now\<rparr>), me_state := state_after r\<rparr>)))"

definition escrow_expires :: "timestamp \<Rightarrow> market_escrow \<Rightarrow> bool" where
  "escrow_expires now e \<longleftrightarrow> (me_state e = MkLocked \<or> me_state e = MkAwaitingRelease) \<and> now > me_locked_until e"

definition process_expirations :: "timestamp \<Rightarrow> escrow_uuid list \<Rightarrow> escrow_manager \<Rightarrow> escrow_manager \<times> escrow_uuid list" where
  "process_expirations now ids m =
     ((\<lambda>i. map_option (\<lambda>e. if escrow_expires now e then e\<lparr>me_state := MkExpired\<rparr> else e) (m i)),
      filter (\<lambda>i. case m i of None \<Rightarrow> False | Some e \<Rightarrow> escrow_expires now e) ids)"

definition get_buyer_escrows :: "escrow_uuid list \<Rightarrow> user_id \<Rightarrow> escrow_manager \<Rightarrow> market_escrow list" where
  "get_buyer_escrows ids u m = filter (\<lambda>e. buyer_of (me_type e) = u) (filter_map m ids)"

definition get_seller_escrows :: "escrow_uuid list \<Rightarrow> user_id \<Rightarrow> escrow_manager \<Rightarrow> market_escrow list" where
  "get_seller_escrows ids u m = filter (\<lambda>e. is_seller u (me_type e)) (filter_map m ids)"

section \<open>The life of an escrow\<close>

text \<open>The specification of a single escrow: the events it can see, who causes them and when, and the guarded moves they allow. Only the buyer releases, only a party raises a
  dispute, and the escrow expires only after its deadline.\<close>

datatype escrow_event =
    EvComplete
  | EvRelease user_id
  | EvDispute timestamp user_id dispute_reason string
  | EvResolve timestamp dispute_resolution
  | EvExpire timestamp

inductive mk_moves :: "escrow_event \<Rightarrow> market_escrow \<Rightarrow> market_escrow \<Rightarrow> bool" where
  em_complete: "me_state e = MkLocked \<Longrightarrow> mk_moves EvComplete e (e\<lparr>me_state := MkAwaitingRelease\<rparr>)"
| em_release: "me_state e = MkAwaitingRelease \<Longrightarrow> who = buyer_of (me_type e) \<Longrightarrow> mk_moves (EvRelease who) e (e\<lparr>me_state := MkReleased\<rparr>)"
| em_dispute: "me_state e \<in> {MkLocked, MkAwaitingRelease} \<Longrightarrow> who = buyer_of (me_type e) \<or> is_seller who (me_type e) \<Longrightarrow>
    d = \<lparr>raised_by = who, dispute_reason_of = why, dispute_text = descr, raised_at = now, resolution = None, resolved_at = None\<rparr> \<Longrightarrow>
    mk_moves (EvDispute now who why descr) e (e\<lparr>me_state := MkDisputed, me_dispute := Some d\<rparr>)"
| em_resolve: "me_state e = MkDisputed \<Longrightarrow> me_dispute e = Some d \<Longrightarrow>
    mk_moves (EvResolve now r) e (e\<lparr>me_dispute := Some (d\<lparr>resolution := Some r, resolved_at := Some now\<rparr>),
                                     me_state := (if r = ReleaseFunds then MkReleased else MkRefunded)\<rparr>)"
| em_expire: "me_state e \<in> {MkLocked, MkAwaitingRelease} \<Longrightarrow> me_locked_until e < now \<Longrightarrow> mk_moves (EvExpire now) e (e\<lparr>me_state := MkExpired\<rparr>)"

inductive_cases mk_movesE: "mk_moves ev e e'"

inductive_simps mk_moves_simps:
  "mk_moves EvComplete e e'" "mk_moves (EvRelease who) e e'" "mk_moves (EvDispute now who why descr) e e'" "mk_moves (EvResolve now r) e e'" "mk_moves (EvExpire now) e e'"

text \<open>An escrow runs through a sequence of events: an event that allows a move causes it, any other is refused and changes nothing.\<close>

inductive mk_runs :: "escrow_event list \<Rightarrow> market_escrow \<Rightarrow> market_escrow \<Rightarrow> bool" where
  er_nil: "mk_runs [] e e"
| er_move: "mk_moves ev e e' \<Longrightarrow> mk_runs evs e' e'' \<Longrightarrow> mk_runs (ev # evs) e e''"
| er_refuse: "\<nexists>e'. mk_moves ev e e' \<Longrightarrow> mk_runs evs e e'' \<Longrightarrow> mk_runs (ev # evs) e e''"

text \<open>The calls on the manager; a call that returns an error leaves it as it is.\<close>

datatype market_call =
    CallTwo timestamp escrow_uuid escrow_uuid user_id user_id u64 u64
  | CallMulti timestamp escrow_uuid escrow_uuid user_id "(user_id \<times> u64) list" u64
  | CallComplete escrow_uuid
  | CallRelease escrow_uuid user_id
  | CallDispute timestamp escrow_uuid user_id dispute_reason string
  | CallResolve timestamp escrow_uuid dispute_resolution
  | CallExpire timestamp "escrow_uuid list"

definition or_keep :: "escrow_manager \<Rightarrow> market_error + escrow_manager \<Rightarrow> escrow_manager" where
  "or_keep m r = (case r of Inl _ \<Rightarrow> m | Inr m' \<Rightarrow> m')"

fun market_exec :: "market_call \<Rightarrow> escrow_manager \<Rightarrow> escrow_manager" where
  "market_exec (CallTwo now i l b s x secs) m = create_two_party_escrow now i l b s x secs m"
| "market_exec (CallMulti now i l b rs secs) m = create_multi_party_escrow now i l b rs secs m"
| "market_exec (CallComplete i) m = or_keep m (mark_awaiting_release i m)"
| "market_exec (CallRelease i u) m = or_keep m (release_funds i u m)"
| "market_exec (CallDispute now i u why descr) m = or_keep m (raise_dispute now i u why descr m)"
| "market_exec (CallResolve now i r) m = or_keep m (resolve_dispute now i r m)"
| "market_exec (CallExpire now ids) m = fst (process_expirations now ids m)"

text \<open>The event of a call for the escrow with the id \<^term>\<open>j\<close>; an expiry run concerns every escrow.\<close>

fun event_for :: "escrow_uuid \<Rightarrow> market_call \<Rightarrow> escrow_event option" where
  "event_for j (CallComplete i) = (if i = j then Some EvComplete else None)"
| "event_for j (CallRelease i u) = (if i = j then Some (EvRelease u) else None)"
| "event_for j (CallDispute now i u why descr) = (if i = j then Some (EvDispute now u why descr) else None)"
| "event_for j (CallResolve now i r) = (if i = j then Some (EvResolve now r) else None)"
| "event_for j (CallExpire now ids) = Some (EvExpire now)"
| "event_for j _ = None"

fun creates :: "market_call \<Rightarrow> escrow_uuid option" where
  "creates (CallTwo now i l b s x secs) = Some i"
| "creates (CallMulti now i l b rs secs) = Some i"
| "creates _ = None"

text \<open>One call, seen by one escrow.\<close>

lemma market_exec_no_event:
  "m j = Some e \<Longrightarrow> creates c \<noteq> Some j \<Longrightarrow> event_for j c = None \<Longrightarrow> market_exec c m j = Some e"
  by (cases c) (auto simp: or_keep_def create_two_party_escrow_def create_multi_party_escrow_def mark_awaiting_release_def release_funds_def raise_dispute_def
      resolve_dispute_def split: option.splits if_splits sum.splits)

lemma market_exec_event:
  assumes "m j = Some e" and "event_for j c = Some ev"
  shows "\<exists>e'. market_exec c m j = Some e' \<and> (mk_moves ev e e' \<or> (\<nexists>e'. mk_moves ev e e') \<and> e' = e)"
proof (cases c)
  case (CallComplete i)
  then show ?thesis using assms by (auto simp: mk_moves_simps or_keep_def mark_awaiting_release_def split: if_splits)
next
  case (CallRelease i u)
  then show ?thesis using assms by (auto simp: mk_moves_simps or_keep_def release_funds_def split: if_splits)
next
  case (CallDispute now i u why descr)
  then show ?thesis using assms by (auto simp: mk_moves_simps or_keep_def raise_dispute_def split: if_splits)
next
  case (CallResolve now i r)
  then show ?thesis using assms
    by (auto simp: mk_moves_simps or_keep_def resolve_dispute_def state_after_def split: if_splits option.splits dispute_resolution.splits)
next
  case (CallExpire now ids)
  then show ?thesis using assms by (auto simp: mk_moves_simps process_expirations_def escrow_expires_def)
qed (use assms in auto)

lemma market_execs_run:
  assumes "m j = Some e" and "\<forall>c\<in>set cs. creates c \<noteq> Some j"
  shows "\<exists>e'. fold market_exec cs m j = Some e' \<and> mk_runs (filter_map (event_for j) cs) e e'"
  using assms
proof (induction cs arbitrary: m e)
  case Nil
  then show ?case by (auto intro: er_nil)
next
  case (Cons c cs)
  show ?case
  proof (cases "event_for j c")
    case None
    then have "market_exec c m j = Some e" using Cons.prems by (auto intro: market_exec_no_event)
    then show ?thesis using Cons.IH [of "market_exec c m" e] Cons.prems(2) None by simp
  next
    case (Some ev)
    obtain e1 where e1: "market_exec c m j = Some e1" "mk_moves ev e e1 \<or> (\<nexists>e'. mk_moves ev e e') \<and> e1 = e"
      using market_exec_event [of m j e c ev, OF Cons.prems(1) Some] by blast
    obtain e2 where "fold market_exec (c # cs) m j = Some e2" "mk_runs (filter_map (event_for j) cs) e1 e2"
      using Cons.IH [of "market_exec c m" e1, OF e1(1)] Cons.prems(2) by auto
    then show ?thesis using e1(2) Some by (auto intro: er_move er_refuse)
  qed
qed

text \<open>How an escrow comes to be released or to expire: parties and deadline never change, so the event that did it names the buyer, or lies after the deadline.\<close>

lemma mk_runs_settle:
  assumes "mk_runs evs e e'"
  shows "me_type e' = me_type e \<and> me_locked_until e' = me_locked_until e
    \<and> (me_state e' = MkReleased \<longrightarrow> me_state e = MkReleased \<or> EvRelease (buyer_of (me_type e)) \<in> set evs \<or> (\<exists>now. EvResolve now ReleaseFunds \<in> set evs))
    \<and> (me_state e' = MkExpired \<longrightarrow> me_state e = MkExpired \<or> (\<exists>now. EvExpire now \<in> set evs \<and> me_locked_until e < now))"
  using assms
proof (induction rule: mk_runs.induct)
  case (er_move ev e e' evs e'')
  from er_move(1) show ?case by cases (use er_move.IH in \<open>auto split: if_splits\<close>)
qed auto

lemma event_for_call:
  "event_for j c = Some (EvRelease u) \<longleftrightarrow> c = CallRelease j u" "event_for j c = Some (EvResolve now r) \<longleftrightarrow> c = CallResolve now j r"
  "event_for j c = Some (EvExpire now) \<longleftrightarrow> (\<exists>ids. c = CallExpire now ids)"
  by (cases c; auto)+

lemma set_filter_map_iff: "y \<in> set (filter_map f xs) \<longleftrightarrow> (\<exists>x\<in>set xs. f x = Some y)"
  by (induction xs) (auto split: option.splits)

text \<open>C36. The manager refines the state machine of a single escrow: after any sequence of calls, failing ones included, an escrow has gone exactly through the events that concern
  it, in their order, each one moving it when the specification allows the move and leaving it alone when it does not (only the buyer releases, only a party disputes, only a dispute
  is resolved, and expiry needs a time after the deadline). In particular a locked escrow ends up released only if its buyer called release or a dispute was resolved that way, and
  expired only if expirations were processed after its deadline. No later call creates an escrow with the same id (ids are fresh random numbers in the code).\<close>

theorem manager_refines_escrow:
  assumes "m j = Some e" and "\<forall>c\<in>set cs. creates c \<noteq> Some j"
  shows "\<exists>e'. fold market_exec cs m j = Some e' \<and> mk_runs (filter_map (event_for j) cs) e e'
    \<and> (me_state e' = MkReleased \<longrightarrow> me_state e = MkReleased \<or> CallRelease j (buyer_of (me_type e)) \<in> set cs \<or> (\<exists>now. CallResolve now j ReleaseFunds \<in> set cs))
    \<and> (me_state e' = MkExpired \<longrightarrow> me_state e = MkExpired \<or> (\<exists>now ids. CallExpire now ids \<in> set cs \<and> me_locked_until e < now))"
proof -
  obtain e' where e': "fold market_exec cs m j = Some e'" "mk_runs (filter_map (event_for j) cs) e e'" using market_execs_run [of m j e cs, OF assms] by blast
  from mk_runs_settle [OF e'(2)] e' show ?thesis by (fastforce simp: set_filter_map_iff event_for_call)
qed

definition settled :: "mk_state \<Rightarrow> bool" where
  "settled s \<longleftrightarrow> s \<in> {MkReleased, MkRefunded, MkExpired}"

lemma settled_final: "mk_moves ev e e' \<Longrightarrow> \<not> settled (me_state e)"
  by (erule mk_movesE) (auto simp: settled_def)

text \<open>How far an escrow is from its end: every move comes closer.\<close>

fun moves_left :: "mk_state \<Rightarrow> nat" where
  "moves_left MkLocked = 3"
| "moves_left MkAwaitingRelease = 2"
| "moves_left MkDisputed = 1"
| "moves_left _ = 0"

lemma move_comes_closer: "mk_moves ev e e' \<Longrightarrow> moves_left (me_state e') < moves_left (me_state e)"
  by (erule mk_movesE) auto

text \<open>An escrow is settled after at most three moves and stays as it is from then on: there is no endless sequence of moves, and a settled escrow, released, refunded or expired, is
  changed by no call.\<close>

theorem escrow_settles_once:
  assumes "((\<lambda>e e'. \<exists>ev. mk_moves ev e e') ^^ n) e e'"
  shows "n \<le> 3 \<and> (settled (me_state e) \<longrightarrow> e' = e)"
proof -
  have "n + moves_left (me_state e') \<le> moves_left (me_state e)"
    using assms by (induction n arbitrary: e') (fastforce dest: move_comes_closer)+
  moreover have "moves_left (me_state e) \<le> 3" by (cases "me_state e") auto
  moreover have "e' = e" if "settled (me_state e)"
    using assms that calculation by (cases n) (auto simp: settled_def elim: relpowp_E2 dest: settled_final)
  ultimately show ?thesis by auto
qed

text \<open>A dispute holds an escrow open for ever unless it is resolved: once disputed, no expiry and no release changes it.\<close>

theorem disputed_never_expires:
  assumes "m i = Some e" and "me_state e = MkDisputed"
  shows "fst (process_expirations now ids m) i = Some e \<and> (\<forall>u. release_funds i u m \<in> {Inl MeUnauthorized, Inl MeInvalidEscrowState})"
  using assms by (auto simp: process_expirations_def escrow_expires_def release_funds_def)

section \<open>Examples\<close>

definition demo_market :: escrow_manager where
  "demo_market = create_two_party_escrow 0 1 2 10 20 500 60 escrow_manager_new"

text \<open>The seller tries to release, the work is completed, expirations are processed too early, the buyer releases.\<close>

definition demo_calls :: "market_call list" where
  "demo_calls = [CallRelease 1 20, CallComplete 1, CallExpire 5 [1], CallRelease 1 10]"

theorem manager_refines_escrow_witness:
  "\<exists>e e'. demo_market 1 = Some e \<and> fold market_exec demo_calls demo_market 1 = Some e' \<and> me_state e' = MkReleased
    \<and> mk_runs [EvRelease 20, EvComplete, EvExpire 5, EvRelease 10] e e'"
proof -
  obtain e where e: "demo_market 1 = Some e" by (simp add: demo_market_def create_two_party_escrow_def)
  have "\<forall>c\<in>set demo_calls. creates c \<noteq> Some 1" by (simp add: demo_calls_def)
  from manager_refines_escrow [of demo_market 1 e demo_calls, OF e this] obtain e' where e': "fold market_exec demo_calls demo_market 1 = Some e'" "mk_runs (filter_map (event_for 1) demo_calls) e e'"
    by blast
  have "map_option me_state (fold market_exec demo_calls demo_market 1) = Some MkReleased"
    by (simp add: demo_calls_def demo_market_def create_two_party_escrow_def or_keep_def mark_awaiting_release_def release_funds_def process_expirations_def escrow_expires_def duration_seconds_def)
  then show ?thesis using e e' by (simp add: demo_calls_def)
qed

theorem escrow_settles_once_witness:
  "\<exists>e e'. demo_market 1 = Some e \<and> mk_moves EvComplete e e' \<and> (1 :: nat) \<le> 3"
proof -
  obtain e where e: "demo_market 1 = Some e" "me_state e = MkLocked" by (simp add: demo_market_def create_two_party_escrow_def)
  have mv: "mk_moves EvComplete e (e\<lparr>me_state := MkAwaitingRelease\<rparr>)" using e(2) by (rule em_complete)
  then have "((\<lambda>e e'. \<exists>ev. mk_moves ev e e') ^^ 1) e (e\<lparr>me_state := MkAwaitingRelease\<rparr>)" by auto
  from escrow_settles_once [OF this] show ?thesis using e(1) mv by blast
qed

theorem disputed_never_expires_witness:
  "\<exists>m1 e. raise_dispute 0 1 10 ItemNotReceived [] demo_market = Inr m1 \<and> m1 1 = Some e \<and> fst (process_expirations (duration_days 365) [1] m1) 1 = Some e"
proof -
  obtain m1 e where m1: "raise_dispute 0 1 10 ItemNotReceived [] demo_market = Inr m1" "m1 1 = Some e" "me_state e = MkDisputed"
    by (simp add: raise_dispute_def demo_market_def create_two_party_escrow_def)
  from disputed_never_expires [of m1 1 e "duration_days 365" "[1]", OF m1(2,3)] show ?thesis using m1(1,2) by blast
qed

end
