(* ===== verification/Spec2Isabelle.thy ===== *)
theory Spec2Isabelle
  imports Program_Errors Accounts Metering Instructions Pda Bincode Native_Programs System_Program
    Token_Program Scheduler Events Runtime Runtime_Safety Cpi Services Bot_Registry Marketplace Platform
    Merkle Chain_Core Payment_Channels Fee_Distribution Tokenomics Currency_Chain Currency_Safety Staking
    Motes_Text Capability Messaging Voting Moderation Insurance Bridge Recovery Market_Escrow
begin

text \<open>
  \<^bold>\<open>A verification library for the contract platform and the currency chain of dchat.\<close>

  The currency chain of dchat runs programs on accounts in the style of Solana; the code is the crate
  \<^verbatim>\<open>crates/dchat-programs\<close>. A transaction is a list of instructions, each naming a program, a list of
  accounts and some data. It is compiled to an indexed batch, scheduled into groups without conflicting accounts,
  and executed by the runtime: the accounts are loaded, the fee is deducted, each instruction is run by a native
  program or by the WebAssembly VM under a compute meter, and the result is committed with a receipt or rolled back.

  Beside it the crate \<^verbatim>\<open>crates/dchat-blockchain\<close> keeps the money: wallets and their transfers, fee pools, the supply,
  payment channels between two users, validator stakes. The currency-chain client calls tokenomics for every burn and mint and
  holds the fee manager; the staking manager calls the client to lock tokens and to mint rewards.

  Around the two stand the services of other crates, each a state of its own behind a manager: messages in order and offline queues
  (\<^verbatim>\<open>dchat-messaging\<close>), votes on proposals and moderation (\<^verbatim>\<open>dchat-governance\<close>), account recovery
  (\<^verbatim>\<open>dchat-identity\<close>), off-chain escrows (\<^verbatim>\<open>dchat-marketplace\<close>), the insurance fund (\<^verbatim>\<open>dchat-chain\<close>), the bridge to other chains
  (\<^verbatim>\<open>dchat-bridge\<close>).

  \<^bold>\<open>Parts and theories.\<close> Each theory follows one source file, in its order; a definition has the name of the function or
  type it models, with a prefix where the name is shared.

  \<^item> \<open>Prelude\<close>: words for the machine integers, checked and saturating arithmetic, little-endian bytes, lists with
    positions, totals over finite maps.
  \<^item> \<open>Program_Errors\<close> (\<^verbatim>\<open>error.rs\<close>): the error enum and its codes; the two round trips.
  \<^item> \<open>Accounts\<close> (\<^verbatim>\<open>account.rs\<close>): accounts, their data, metas, borrowed views on shared cells, the borrow tracker as a
    step relation; conservation of \<^verbatim>\<open>transfer_motes\<close>, exclusiveness of mutable borrows.
  \<^item> \<open>Metering\<close> (\<^verbatim>\<open>metering.rs\<close>): the compute meter, fee reservations, and \<^verbatim>\<open>consume\<close> once more as the atomic steps of
    threads that share a meter.
  \<^item> \<open>Instructions\<close> (\<^verbatim>\<open>instruction.rs\<close>): builders, compilation to a batch and decompilation; they are inverse for at most 256
    distinct keys, and what happens beyond.
  \<^item> \<open>Pda\<close> (\<^verbatim>\<open>pda.rs\<close>): program-derived addresses.
  \<^item> \<open>Bincode\<close>: the interface \<open>bincode_codec\<close> the programs need of their serializer, and combinators that meet it, used
    to show that the hypotheses of the theorems can hold.
  \<^item> \<open>Native_Programs\<close>: the contract \<open>native_processor\<close> that the runtime relies on (same accounts, motes conserved, meter
    within budget), with a rule per way in which a handler can proceed.
  \<^item> \<open>System_Program\<close> (\<^verbatim>\<open>system_program.rs\<close>) and \<open>Token_Program\<close> (\<^verbatim>\<open>token.rs\<close>): every handler; both are interpretations of
    \<open>native_processor\<close>; specifications of single instructions, the supply invariant of tokens.
  \<^item> \<open>Scheduler\<close> (\<^verbatim>\<open>scheduler.rs\<close>): lock sets, lock tables, batches. The interface \<open>lock_service\<close> states what a lock
    manager promises in terms of the set of requests held; the lock tables refine it.
  \<^item> \<open>Events\<close> (\<^verbatim>\<open>events.rs\<close>): events, receipts, collector checkpoints.
  \<^item> \<open>Runtime\<close> (\<^verbatim>\<open>runtime.rs\<close>): the bank (interface \<open>account_bank\<close>), the program cache, the execution context, instructions,
    transactions, parallel rounds; \<open>Runtime_Safety\<close>: what holds of whole transactions and rounds.
  \<^item> \<open>Cpi\<close> (\<^verbatim>\<open>cpi.rs\<close>, \<^verbatim>\<open>invoke_cpi\<close>): calls between programs; no call signs for or writes an account beyond what the metas of the
    transaction allow, a failed call is undone, and the context is left as it was found.
  \<^item> \<open>Services\<close>, \<open>Bot_Registry\<close> (\<^verbatim>\<open>bot_registry.rs\<close>) and \<open>Marketplace\<close> (\<^verbatim>\<open>marketplace.rs\<close>): the programs that return events;
    an escrow refines the \<open>contract\<close> of its parties and settles in three steps. \<open>Platform\<close>: both keep the contract
    \<open>service_provider\<close> of the runtime.
  \<^item> \<open>Merkle\<close> (\<^verbatim>\<open>hash_merkle.rs\<close>, \<^verbatim>\<open>canonical.rs\<close>): block roots and inclusion proofs; proofs verify when the number of
    leaves is a power of two, and two leaves proved at one position are equal unless the hash collides.
  \<^item> \<open>Chain_Core\<close>: errors, ids, time and the signature library that the theories below share.
  \<^item> \<open>Payment_Channels\<close> (\<^verbatim>\<open>payment_channels.rs\<close>): signed states, payments, unilateral and cooperative closes, message credits; the
    balances of an open channel add up to its capacity, every accepted state is signed and newer than the one before.
  \<^item> \<open>Fee_Distribution\<close> (\<^verbatim>\<open>fee_distribution.rs\<close>): the split of a fee, pools, block accounting; shares add up to the fee, the pools
    conserve the supply along the runs of the manager, the two calls that break this set apart; each block's accounting verifies.
  \<^item> \<open>Tokenomics\<close> (\<^verbatim>\<open>tokenomics.rs\<close>): supply, mint and burn logs, schedules; the supply is what the logs say, up to mints labelled as genesis and
    saturation.
  \<^item> \<open>Currency_Chain\<close> (\<^verbatim>\<open>currency_chain.rs\<close>): every operation on wallets, stakes, bonds, escrows, the genesis allocation and the unbonding
    queue. \<open>Currency_Safety\<close>: the interface \<open>ledger\<close>, interpreted on these operations: along every run the coins of the chain are those it
    started with plus what its calls create less what they destroy, with the amounts of each call; which of these are not meant.
  \<^item> \<open>Staking\<close> (\<^verbatim>\<open>staking.rs\<close>): the life cycle of a validator's stake, the council's slashing, the validator set, reward claims with their
    separate critical sections.
  \<^item> \<open>Motes_Text\<close> (\<^verbatim>\<open>dchat-core/src/motes.rs\<close>): amounts, their printed forms and the parser; every printed amount is parsed back.
  \<^item> \<open>Capability\<close> (\<^verbatim>\<open>dchat-programs/src/capability.rs\<close>): scopes, tokens and the registry. The interface \<open>token_index\<close> states what an index over the tokens
    promises and is interpreted for grantees and issuers; the registry stays well formed, the limits of a token hold over its life, check and use agree.
  \<^item> \<open>Messaging\<close> (\<^verbatim>\<open>types.rs\<close>, \<^verbatim>\<open>ordering.rs\<close>, \<^verbatim>\<open>queue.rs\<close>, \<^verbatim>\<open>expiration.rs\<close> of \<^verbatim>\<open>dchat-messaging\<close>): the order of a conversation refines the set of
    numbers received, the offline queues meet the interface \<open>fifo\<close> and keep their limits; where gaps, numbers and expiry go wrong.
  \<^item> \<open>Voting\<close> (\<^verbatim>\<open>dchat-governance/src/voting.rs\<close>, \<^verbatim>\<open>dchat-crypto/src/encryption.rs\<close>): commitments bind unless the hash collides, encrypted ballots are
    revealed as cast, the tally is the power of each side with every voter once.
  \<^item> \<open>Moderation\<close> (\<^verbatim>\<open>dchat-governance/src/moderation.rs\<close>): an appealed action is not executed, a slashing follows its votes.
  \<^item> \<open>Recovery\<close> (\<^verbatim>\<open>guardian.rs\<close>, \<^verbatim>\<open>guardian_recovery.rs\<close> of \<^verbatim>\<open>dchat-identity\<close>): a recovery is executed with its guardians after its timelock, a key is handed out
    with its signatures; what cancelling and the rate limit do not prevent.
  \<^item> \<open>Market_Escrow\<close> (\<^verbatim>\<open>dchat-marketplace/src/escrow.rs\<close>): the manager refines the state machine of one escrow, whose moves carry their caller
    and time and which settles in three moves.
  \<^item> \<open>Insurance\<close> (\<^verbatim>\<open>dchat-chain/src/insurance_fund.rs\<close>): the books balance, every payout is backed by votes, and a claim can be paid again.
  \<^item> \<open>Bridge\<close> (\<^verbatim>\<open>lib.rs\<close>, \<^verbatim>\<open>multisig.rs\<close>, \<^verbatim>\<open>finality.rs\<close>, \<^verbatim>\<open>slashing.rs\<close> of \<^verbatim>\<open>dchat-bridge\<close>): a quorum names different validators, each with a signature that verifies under the key it brings, execution follows
    finality with the confirmations of the proof's chain, a finalized proof has its signers; what a forged key and a malformed signature do.

  \<^bold>\<open>Modelling choices.\<close> Integers are words of their width; the release profile wraps where the source uses plain operators.
  \<^verbatim>\<open>Result\<close> is a sum with the error on the left; a function that takes \<^verbatim>\<open>&mut\<close> returns the new state also when it
  fails, since the runtime, not the callee, rolls back. \<^verbatim>\<open>HashMap\<close>s are maps; where their iteration order is observable
  it is a parameter, in the runtime one for every map that is created. The clock and fresh ids are arguments of the operations that ask for them. Points in time and durations are exact; the panic of
  the time library on durations beyond its range is left out. Locks are taken for the whole of an operation
  unless a theory splits it (\<open>consume_step\<close> of the meter, the reward claim of staking). Code of other crates (blake3, the curve test, bincode, Ed25519, AES-GCM, BLS, the VM) is a parameter, a field of
  \<open>crypto\<close>, \<open>codec\<close>, \<open>ed25519\<close>, \<open>aes_gcm\<close>, \<open>bls\<close> or \<open>runtime_env\<close>; so are the two amounts computed in floating point (inflation, vesting). All loops are total functions: the scheduling loop and the rounds of a batch
  terminate because each batch removes a pending transaction; no fuel is used anywhere.

  \<^bold>\<open>Not modelled.\<close> The WebAssembly VM, its validator and system calls (wrappers of wasmtime), confidential tokens and
  privacy (third-party cryptography), timing and statistics; of the currency chain, RPC, block sync and history queries. Of messaging, delivery
  over the network; of governance, abuse reports, upgrades and the protocol DAO; of the bridge, the services that talk to remote chains. The program loader and
  the other crates of the workspace (networking, storage, bots, identity, deployment) are asynchronous services over databases and sockets whose results come
  from outside the code; they are not modelled.
\<close>

end
